(* ===== verification/Rdix_Prelude.thy ===== *)
theory Rdix_Prelude
  imports Main "HOL-Library.Word"
begin

text \<open>
  Shared vocabulary of the development: the C integer types of
  \<^verbatim>\<open>include/common/type.h\<close> as machine words, the ways a kernel routine can stop
  without returning, and the result type whose left injection is such a stop.
  The generic lemmas on words and lists used by several components are at the end.
\<close>

unbundle bit_operations_syntax

named_theorems rdix_eval \<open>defining equations unfolded to evaluate a routine\<close>

section \<open>Integer types\<close>

type_synonym u8 = "8 word"
type_synonym u16 = "16 word"
type_synonym u32 = "32 word"
type_synonym u64 = "64 word"

text \<open>\<^verbatim>\<open>EOF\<close> is \<open>-1\<close> in every signed type the kernel returns it in.\<close>

definition EOF :: int where
  "EOF = - 1"

definition INFINTY :: u32 where
  "INFINTY = 0xffffffff"

section \<open>Stops and results\<close>

text \<open>
  A failed \<^verbatim>\<open>assert\<close> spins forever in \<^verbatim>\<open>assertion_failure\<close>, \<^verbatim>\<open>PANIC\<close>
  halts with interrupts off, an access through a null or stray pointer or outside an
  object faults, and a loop whose exit condition never holds hangs. None of them
  returns to the caller.
\<close>

datatype kstop = Assert | Panic | Fault | Hang

type_synonym 'a res = "kstop + 'a"

definition rbind :: "'a res \<Rightarrow> ('a \<Rightarrow> 'b res) \<Rightarrow> 'b res" where
  "rbind m k = (case m of Inl e \<Rightarrow> Inl e | Inr x \<Rightarrow> k x)"

lemma rbind_simps [simp]:
  "rbind (Inl e) k = Inl e"
  "rbind (Inr x) k = k x"
  by (simp_all add: rbind_def)

lemma rbind_eq_Inr [simp]: "rbind m k = Inr y \<longleftrightarrow> (\<exists>x. m = Inr x \<and> k x = Inr y)"
  by (cases m) auto

lemma rbind_eq_Inl: "rbind m k = Inl e \<longleftrightarrow> m = Inl e \<or> (\<exists>x. m = Inr x \<and> k x = Inl e)"
  by (cases m) auto

lemma rbind_assoc: "rbind (rbind m f) g = rbind m (\<lambda>x. rbind (f x) g)"
  by (cases m) auto

lemma rbind_cong [fundef_cong]:
  "m = m' \<Longrightarrow> (\<And>x. m' = Inr x \<Longrightarrow> k x = k' x) \<Longrightarrow> rbind m k = rbind m' k'"
  by (cases m') auto

text \<open>
  A loop that may run forever is a \<^theory_text>\<open>partial_function (option)\<close>, whose \<open>None\<close> is
  not returning; \<open>run\<close> turns it into the stop \<open>Hang\<close>.
\<close>

definition run :: "'a res option \<Rightarrow> 'a res" where
  "run m = (case m of None \<Rightarrow> Inl Hang | Some r \<Rightarrow> r)"

lemma run_simps [simp]:
  "run None = Inl Hang"
  "run (Some r) = r"
  by (simp_all add: run_def)

text \<open>\<open>ensure b e\<close> is the check of a condition whose failure is the stop \<open>e\<close>.\<close>

definition ensure :: "bool \<Rightarrow> kstop \<Rightarrow> unit res" where
  "ensure b e = (if b then Inr () else Inl e)"

lemma ensure_simps [simp]:
  "ensure True e = Inr ()"
  "ensure False e = Inl e"
  "ensure b e = Inr u \<longleftrightarrow> b"
  by (simp_all add: ensure_def)

text \<open>Reading and writing an array element: outside its bounds the access faults.\<close>

definition arr_get :: "'a list \<Rightarrow> nat \<Rightarrow> 'a res" where
  "arr_get xs i = (if i < length xs then Inr (xs ! i) else Inl Fault)"

definition arr_set :: "'a list \<Rightarrow> nat \<Rightarrow> 'a \<Rightarrow> 'a list res" where
  "arr_set xs i v = (if i < length xs then Inr (xs[i := v]) else Inl Fault)"

lemma arr_get_Inr [simp]: "arr_get xs i = Inr v \<longleftrightarrow> i < length xs \<and> v = xs ! i"
  by (auto simp: arr_get_def)

lemma arr_set_Inr [simp]: "arr_set xs i v = Inr ys \<longleftrightarrow> i < length xs \<and> ys = xs[i := v]"
  by (auto simp: arr_set_def)

lemma arr_get_in [simp]: "i < length xs \<Longrightarrow> arr_get xs i = Inr (xs ! i)"
  by (simp add: arr_get_def)

lemma arr_set_in [simp]: "i < length xs \<Longrightarrow> arr_set xs i v = Inr (xs[i := v])"
  by (simp add: arr_set_def)

text \<open>A counting loop whose body changes the state and may stop.\<close>

fun for_each :: "('x \<Rightarrow> 's \<Rightarrow> 's res) \<Rightarrow> 'x list \<Rightarrow> 's \<Rightarrow> 's res" where
  "for_each f [] s = Inr s"
| "for_each f (x # xs) s = rbind (f x s) (for_each f xs)"

lemma for_each_append: "for_each f (xs @ ys) s = rbind (for_each f xs s) (for_each f ys)"
  by (induction xs arbitrary: s) (simp_all add: rbind_def split: sum.splits)

lemma for_each_invariant:
  assumes "P s" "\<And>x s s'. x \<in> set xs \<Longrightarrow> P s \<Longrightarrow> f x s = Inr s' \<Longrightarrow> P s'" "for_each f xs s = Inr s'"
  shows "P s'"
  using assms by (induction xs arbitrary: s) auto

section \<open>Lists\<close>

lemma sorted_wrt_neq [simp]: "sorted_wrt (\<noteq>) xs \<longleftrightarrow> distinct xs"
  by (induction xs) auto

lemma nth_upd_if: "xs[i := v] ! j = (if j = i \<and> i < length xs then v else xs ! j)"
  by (cases "i < length xs") (auto simp: nth_list_update list_update_beyond)

section \<open>Words\<close>

lemma unat_plus_one: "x < y \<Longrightarrow> unat (x + 1) = unat x + 1" for x y :: "'a::len word"
proof -
  assume "x < y"
  moreover have "unat y < 2 ^ LENGTH('a)" by simp
  ultimately show ?thesis by (simp add: unat_word_ariths word_less_nat_alt del: unsigned_less)
qed

lemma word_of_nat_inj:
  assumes "a < 2 ^ LENGTH('a)" "b < 2 ^ LENGTH('a)"
  shows "(word_of_nat a = (word_of_nat b :: 'a::len word)) = (a = b)"
  using assms by (metis mod_less unat_of_nat)

lemma unat_u32: "k < 2 ^ 32 \<Longrightarrow> unat (word_of_nat k :: u32) = k"
  by (simp add: unat_of_nat)

lemma sint_small: "unat w < 2 ^ (LENGTH('a) - 1) \<Longrightarrow> sint w = int (unat w)" for w :: "'a::len word"
proof -
  assume "unat w < 2 ^ (LENGTH('a) - 1)"
  then have "uint w < 2 ^ (LENGTH('a) - 1)"
    by (metis of_nat_less_iff of_nat_numeral of_nat_power uint_nat)
  moreover have "- (2 ^ (LENGTH('a) - 1)) \<le> uint w"
    by (rule order_trans [of _ 0]) simp_all
  ultimately show ?thesis by (simp add: sint_uint signed_take_bit_int_eq_self)
qed

end
