(* ===== verification/Contracts.thy ===== *)
theory Contracts
  imports Rdix_Prelude
begin

text \<open>
  The contracts that several routines of the kernel share, as locales. A FIFO queue
  promises that what was put in first comes out first, whatever data structure is
  behind it: the ready lists and wait lists built on \<^verbatim>\<open>list_push\<close> and
  \<^verbatim>\<open>list_popback\<close>, the lists built on \<^verbatim>\<open>list_pushback\<close> and \<^verbatim>\<open>list_pop\<close>, and the
  character ring of \<^verbatim>\<open>queue.c\<close> are its instances. A first-fit slot allocator is the
  contract of the virtual page maps. A step relation with an invariant that every step
  keeps and in which the running routines always return is the contract of the scheduler.
  A heap of disjoint blocks that keep what their owners store is the contract of \<^verbatim>\<open>malloc\<close>
  and \<^verbatim>\<open>free_s\<close>.
\<close>

section \<open>FIFO queues\<close>

text \<open>Sequences of insertions and of removals, stopping where a routine stops.\<close>

fun enq_all :: "('s \<Rightarrow> 'a \<Rightarrow> 's res) \<Rightarrow> 's \<Rightarrow> 'a list \<Rightarrow> 's res" where
  "enq_all enq s [] = Inr s"
| "enq_all enq s (x # xs) = rbind (enq s x) (\<lambda>s. enq_all enq s xs)"

fun deq_n :: "('s \<Rightarrow> ('a option \<times> 's) res) \<Rightarrow> nat \<Rightarrow> 's \<Rightarrow> ('a option list \<times> 's) res" where
  "deq_n deq 0 s = Inr ([], s)"
| "deq_n deq (Suc k) s =
     rbind (deq s) (\<lambda>(x, s). rbind (deq_n deq k s) (\<lambda>(xs, s). Inr (x # xs, s)))"

text \<open>
  \<open>rep s xs\<close> reads the queue off the state, oldest first; \<open>ok s x\<close> says \<open>x\<close> may be
  inserted, and \<open>compat x y\<close> that inserting \<open>x\<close> leaves \<open>y\<close> insertable.
\<close>

locale fifo =
  fixes enq :: "'s \<Rightarrow> 'a \<Rightarrow> 's res"
    and deq :: "'s \<Rightarrow> ('a option \<times> 's) res"
    and rep :: "'s \<Rightarrow> 'a list \<Rightarrow> bool"
    and ok :: "'s \<Rightarrow> 'a \<Rightarrow> bool"
    and compat :: "'a \<Rightarrow> 'a \<Rightarrow> bool"
    and cap :: nat
  assumes enq_rep: "rep s xs \<Longrightarrow> ok s x \<Longrightarrow> length xs < cap \<Longrightarrow>
      \<exists>s'. enq s x = Inr s' \<and> rep s' (xs @ [x]) \<and> (\<forall>y. compat x y \<longrightarrow> ok s y \<longrightarrow> ok s' y)"
    and deq_Nil: "rep s [] \<Longrightarrow> deq s = Inr (None, s)"
    and deq_Cons: "rep s (x # xs) \<Longrightarrow>
      \<exists>s'. deq s = Inr (Some x, s') \<and> rep s' xs \<and> ok s' x \<and> (\<forall>y. ok s y \<longrightarrow> ok s' y)"
begin

lemma enq_all_rep:
  assumes "rep s xs" "\<forall>y \<in> set ys. ok s y" "sorted_wrt compat ys" "length xs + length ys \<le> cap"
  shows "\<exists>s'. enq_all enq s ys = Inr s' \<and> rep s' (xs @ ys)"
  using assms
proof (induction ys arbitrary: s xs)
  case (Cons y ys)
  from Cons.prems enq_rep [of s xs y] obtain s1 where s1: "enq s y = Inr s1"
      "rep s1 (xs @ [y])" "\<And>z. compat y z \<Longrightarrow> ok s z \<Longrightarrow> ok s1 z"
    by auto
  with Cons.prems Cons.IH [of s1 "xs @ [y]"] show ?case by auto
qed simp

lemma deq_n_rep:
  assumes "rep s (xs @ ys)"
  shows "\<exists>s'. deq_n deq (length xs) s = Inr (map Some xs, s') \<and> rep s' ys"
  using assms
proof (induction xs arbitrary: s)
  case (Cons x xs)
  from Cons.prems deq_Cons [of s x "xs @ ys"] obtain s1 where s1: "deq s = Inr (Some x, s1)"
      "rep s1 (xs @ ys)"
    by auto
  with Cons.IH [of s1] show ?case by auto
qed simp

lemma in_order:
  assumes "rep s []" "\<forall>y \<in> set ys. ok s y" "sorted_wrt compat ys" "length ys \<le> cap"
  shows "\<exists>s' s''. enq_all enq s ys = Inr s' \<and> deq_n deq (length ys) s' = Inr (map Some ys, s'') \<and>
           deq s'' = Inr (None, s'')"
  using enq_all_rep [OF assms(1-3)] assms(4) deq_n_rep [of _ ys "[]"] deq_Nil by fastforce

lemma drained_in_order:
  assumes "rep s xs" "\<forall>y \<in> set ys. ok s y" "sorted_wrt compat ys" "length xs + length ys \<le> cap"
  shows "\<exists>s' s''. enq_all enq s ys = Inr s' \<and>
           deq_n deq (length xs + length ys) s' = Inr (map Some (xs @ ys), s'') \<and> rep s'' []"
  using enq_all_rep [OF assms] deq_n_rep [of _ "xs @ ys" "[]"] by force

end

section \<open>Page pools\<close>

text \<open>Allocations of the given sizes, one after the other, with the ranges they returned.\<close>

fun alloc_all :: "(nat \<Rightarrow> 's \<Rightarrow> (nat option \<times> 's) res) \<Rightarrow> nat list \<Rightarrow> 's \<Rightarrow> (nat set list \<times> 's) res" where
  "alloc_all alloc [] s = Inr ([], s)"
| "alloc_all alloc (n # ns) s =
     rbind (alloc n s) (\<lambda>(r, s). rbind (alloc_all alloc ns s) (\<lambda>(rs, s).
       Inr ((case r of None \<Rightarrow> {} | Some t \<Rightarrow> {t..<t + n}) # rs, s)))"

text \<open>
  A pool of numbered pages: an allocation of \<open>n\<close> pages returns the first of \<open>n\<close>
  consecutive unused pages and makes exactly these used, or nothing; a release makes them
  unused again.
\<close>

locale page_pool =
  fixes alloc :: "nat \<Rightarrow> 's \<Rightarrow> (nat option \<times> 's) res"
    and release :: "nat \<Rightarrow> nat \<Rightarrow> 's \<Rightarrow> 's res"
    and used :: "'s \<Rightarrow> nat set"
    and inv :: "'s \<Rightarrow> bool"
    and lim :: nat
  assumes alloc_law: "inv s \<Longrightarrow> 0 < n \<Longrightarrow> n < lim \<Longrightarrow> \<exists>r s'. alloc n s = Inr (r, s') \<and> inv s' \<and>
      (case r of None \<Rightarrow> used s' = used s
       | Some t \<Rightarrow> {t..<t + n} \<inter> used s = {} \<and> used s' = used s \<union> {t..<t + n})"
    and release_law: "inv s \<Longrightarrow> n < lim \<Longrightarrow> {t..<t + n} \<subseteq> used s \<Longrightarrow>
      \<exists>s'. release t n s = Inr s' \<and> inv s' \<and> used s' = used s - {t..<t + n}"
begin

lemma alloc_release:
  assumes "inv s" "0 < n" "n < lim" "alloc n s = Inr (Some t, s')"
  shows "\<exists>s''. release t n s' = Inr s'' \<and> inv s'' \<and> used s'' = used s"
proof -
  from alloc_law [OF assms(1-3)] assms(4)
  have s': "inv s'" "{t..<t + n} \<inter> used s = {}" "used s' = used s \<union> {t..<t + n}" by auto
  with release_law [of s' n t] assms(3) obtain s'' where
    "release t n s' = Inr s''" "inv s''" "used s'' = used s' - {t..<t + n}" by auto
  with s' show ?thesis by auto
qed

lemma alloc_all_disjoint:
  assumes "inv s" "\<forall>n \<in> set ns. 0 < n \<and> n < lim"
  shows "\<exists>rs s'. alloc_all alloc ns s = Inr (rs, s') \<and> inv s' \<and> used s' = used s \<union> \<Union> (set rs) \<and>
     (\<forall>r \<in> set rs. r \<inter> used s = {}) \<and> sorted_wrt (\<lambda>a b. a \<inter> b = {}) rs"
  using assms
proof (induction ns arbitrary: s)
  case (Cons n ns)
  then obtain r s1 where s1: "alloc n s = Inr (r, s1)" "inv s1"
      "case r of None \<Rightarrow> used s1 = used s
       | Some t \<Rightarrow> {t..<t + n} \<inter> used s = {} \<and> used s1 = used s \<union> {t..<t + n}"
    using alloc_law [of s n] by auto
  let ?r = "case r of None \<Rightarrow> {} | Some t \<Rightarrow> {t..<t + n}"
  have r: "?r \<inter> used s = {}" "used s1 = used s \<union> ?r" using s1(3) by (auto split: option.splits)
  from Cons.IH [of s1] s1(2) Cons.prems obtain rs s2 where
    s2: "alloc_all alloc ns s1 = Inr (rs, s2)" "inv s2" "used s2 = used s1 \<union> \<Union> (set rs)"
      "\<forall>q \<in> set rs. q \<inter> used s1 = {}" "sorted_wrt (\<lambda>a b. a \<inter> b = {}) rs" by auto
  then show ?case using s1(1) r by (intro exI [of _ "?r # rs"] exI [of _ s2]) auto
qed simp

end

section \<open>Machines\<close>

text \<open>
  A machine whose steps are calls: \<open>call c s\<close> runs call \<open>c\<close> in state \<open>s\<close>, where \<open>may c s\<close>
  says that it can be issued there. An invariant under which every issued call returns and
  keeps the invariant makes every run safe.
\<close>

inductive runs :: "('c \<Rightarrow> 's \<Rightarrow> bool) \<Rightarrow> ('c \<Rightarrow> 's \<Rightarrow> 's res) \<Rightarrow> 's \<Rightarrow> 's \<Rightarrow> bool"
  for may :: "'c \<Rightarrow> 's \<Rightarrow> bool" and call :: "'c \<Rightarrow> 's \<Rightarrow> 's res" where
  runs_refl: "runs may call s s"
| runs_step: "runs may call s t \<Longrightarrow> may c t \<Longrightarrow> call c t = Inr u \<Longrightarrow> runs may call s u"

inductive_cases runsE: "runs may call s t"

locale machine =
  fixes may :: "'c \<Rightarrow> 's \<Rightarrow> bool"
    and call :: "'c \<Rightarrow> 's \<Rightarrow> 's res"
    and inv :: "'s \<Rightarrow> bool"
  assumes call_law: "inv s \<Longrightarrow> may c s \<Longrightarrow> \<exists>s'. call c s = Inr s' \<and> inv s'"
begin

lemma runs_inv: "runs may call s t \<Longrightarrow> inv s \<Longrightarrow> inv t"
  by (induction rule: runs.induct) (use call_law in fastforce)+

lemma never_stops: "inv s \<Longrightarrow> runs may call s t \<Longrightarrow> may c t \<Longrightarrow> \<exists>u. call c t = Inr u \<and> runs may call s u"
  using call_law runs_inv runs_step by metis

end

section \<open>Heaps of blocks\<close>

text \<open>
  What the users of a heap do: allocate, release and store into blocks they own. The run keeps
  the blocks in use and, for the cells the owners have stored into, the value stored last.
\<close>

definition block_cells :: "nat \<Rightarrow> nat \<Rightarrow> nat set" where
  "block_cells a z = {a..<a + z}"

inductive heap_run :: "(nat \<Rightarrow> 's \<Rightarrow> (nat \<times> 's) res) \<Rightarrow> (nat \<Rightarrow> 's \<Rightarrow> 's res) \<Rightarrow> (nat \<Rightarrow> 'v \<Rightarrow> 's \<Rightarrow> 's) \<Rightarrow> (nat \<Rightarrow> nat) \<Rightarrow>
    's \<Rightarrow> 's \<Rightarrow> (nat \<times> nat) set \<Rightarrow> (nat \<Rightarrow> 'v option) \<Rightarrow> bool"
  for alloc release store granted s0 where
  run_start: "heap_run alloc release store granted s0 s0 {} (\<lambda>_. None)"
| run_alloc: "heap_run alloc release store granted s0 s L sh \<Longrightarrow> alloc n s = Inr (a, s') \<Longrightarrow>
    heap_run alloc release store granted s0 s' (insert (a, granted n) L) sh"
| run_release: "heap_run alloc release store granted s0 s L sh \<Longrightarrow> (a, z) \<in> L \<Longrightarrow> release a s = Inr s' \<Longrightarrow>
    heap_run alloc release store granted s0 s' (L - {(a, z)}) (\<lambda>x. if x \<in> block_cells a z then None else sh x)"
| run_store: "heap_run alloc release store granted s0 s L sh \<Longrightarrow> (a, z) \<in> L \<Longrightarrow> x \<in> block_cells a z \<Longrightarrow>
    heap_run alloc release store granted s0 (store x v s) L (sh(x := Some v))"

text \<open>
  An allocation hands out a block that is not in use, large enough and apart from the others,
  or panics; the cells of the other blocks keep their values, and stores into blocks in use do
  not disturb the heap.
\<close>

locale block_heap =
  fixes alloc :: "nat \<Rightarrow> 's \<Rightarrow> (nat \<times> 's) res"
    and release :: "nat \<Rightarrow> 's \<Rightarrow> 's res"
    and store :: "nat \<Rightarrow> 'v \<Rightarrow> 's \<Rightarrow> 's"
    and granted :: "nat \<Rightarrow> nat"
    and cell :: "'s \<Rightarrow> nat \<Rightarrow> 'v"
    and rep :: "'s \<Rightarrow> (nat \<times> nat) set \<Rightarrow> bool"
  assumes apart: "rep s L \<Longrightarrow> (a, z) \<in> L \<Longrightarrow> (b, y) \<in> L \<Longrightarrow> (a, z) \<noteq> (b, y) \<Longrightarrow> block_cells a z \<inter> block_cells b y = {}"
    and alloc_law: "rep s L \<Longrightarrow> alloc n s = Inl Panic \<or>
      (\<exists>a s'. alloc n s = Inr (a, s') \<and> n \<le> granted n \<and> (a, granted n) \<notin> L \<and> rep s' (insert (a, granted n) L) \<and>
        (\<forall>(b, y) \<in> L. \<forall>x \<in> block_cells b y. cell s' x = cell s x))"
    and release_law: "rep s L \<Longrightarrow> (a, z) \<in> L \<Longrightarrow> \<exists>s'. release a s = Inr s' \<and> rep s' (L - {(a, z)}) \<and>
      (\<forall>(b, y) \<in> L - {(a, z)}. \<forall>x \<in> block_cells b y. cell s' x = cell s x)"
    and store_law: "rep s L \<Longrightarrow> (a, z) \<in> L \<Longrightarrow> x \<in> block_cells a z \<Longrightarrow> rep (store x v s) L \<and> cell (store x v s) = (cell s)(x := v)"
begin

lemma run_inv:
  assumes "heap_run alloc release store granted s0 s L sh" "rep s0 {}"
  shows "rep s L \<and> (\<forall>x v. sh x = Some v \<longrightarrow> (\<exists>(a, z) \<in> L. x \<in> block_cells a z) \<and> cell s x = v)"
  using assms(1)
proof induction
  case run_start
  then show ?case using assms(2) by simp
next
  case (run_alloc s L sh n a s')
  with alloc_law [of s L n] show ?case by fastforce
next
  case (run_release s L sh a z s')
  then have IH: "rep s L" "\<And>x v. sh x = Some v \<Longrightarrow> (\<exists>(b, y) \<in> L. x \<in> block_cells b y) \<and> cell s x = v" by auto
  from release_law [OF IH(1) run_release.hyps(2)] run_release.hyps(3)
  have r: "rep s' (L - {(a, z)})" "\<forall>(b, y) \<in> L - {(a, z)}. \<forall>x \<in> block_cells b y. cell s' x = cell s x" by auto
  have "(\<exists>(b, y) \<in> L - {(a, z)}. x \<in> block_cells b y) \<and> cell s' x = v" if "sh x = Some v" "x \<notin> block_cells a z" for x v
  proof -
    from IH(2) [OF that(1)] obtain b y where "(b, y) \<in> L" "x \<in> block_cells b y" "cell s x = v" by auto
    moreover from this that(2) have "(b, y) \<noteq> (a, z)" by auto
    ultimately show ?thesis using r(2) by blast
  qed
  with r(1) show ?case by auto
next
  case (run_store s L sh a z x v)
  with store_law [of s L a z x v] show ?case by auto
qed

text \<open>Blocks in use stay apart, keep what was stored into them, and can be released.\<close>

lemma run_safe:
  assumes "heap_run alloc release store granted s0 s L sh" "rep s0 {}"
  shows "(a, z) \<in> L \<Longrightarrow> (b, y) \<in> L \<Longrightarrow> (a, z) \<noteq> (b, y) \<Longrightarrow> block_cells a z \<inter> block_cells b y = {}"
    and "sh x = Some v \<Longrightarrow> cell s x = v"
    and "(a, z) \<in> L \<Longrightarrow> \<exists>s'. release a s = Inr s'"
    and "alloc n s = Inl Panic \<or> (\<exists>a s'. alloc n s = Inr (a, s') \<and> (a, granted n) \<notin> L)"
proof -
  from run_inv [OF assms] have R: "rep s L" and V: "\<And>x v. sh x = Some v \<Longrightarrow> cell s x = v" by auto
  show "(a, z) \<in> L \<Longrightarrow> (b, y) \<in> L \<Longrightarrow> (a, z) \<noteq> (b, y) \<Longrightarrow> block_cells a z \<inter> block_cells b y = {}" by (rule apart [OF R])
  show "sh x = Some v \<Longrightarrow> cell s x = v" by (rule V)
  show "(a, z) \<in> L \<Longrightarrow> \<exists>s'. release a s = Inr s'" using release_law [OF R] by blast
  show "alloc n s = Inl Panic \<or> (\<exists>a s'. alloc n s = Inr (a, s') \<and> (a, granted n) \<notin> L)" using alloc_law [OF R, of n] by blast
qed

end

end
