(* ===== verification/Bitmap.thy ===== *)
theory Bitmap
  imports Contracts
begin

text \<open>
  The bitmaps of \<^verbatim>\<open>kernel/bitmap.c\<close>, which manage kernel pages, user pages and the
  zones and inodes of the file system: test, set and first-fit scan, on bytes and at
  32-bit width. The specification reads a bitmap as the set of used indices.
\<close>

section \<open>Data and operations\<close>

record bitmap_t =
  bm_start :: "u8 list"
  bm_length :: u32
  bm_offset :: u32

definition bitmap_init :: "u8 list \<Rightarrow> u32 \<Rightarrow> u32 \<Rightarrow> bitmap_t res" where
  "bitmap_init buf len off =
     rbind (ensure (unat len \<le> length buf) Fault) (\<lambda>_.
     Inr \<lparr>bm_start = replicate (unat len) 0 @ drop (unat len) buf,
          bm_length = len, bm_offset = off\<rparr>)"

definition bitmap_test :: "bitmap_t \<Rightarrow> u32 \<Rightarrow> bool res" where
  "bitmap_test mp idx =
     rbind (ensure (idx \<ge> bm_offset mp) Assert) (\<lambda>_.
     rbind (ensure (idx < bm_offset mp + bm_length mp * 8) Assert) (\<lambda>_.
     let idx = idx - bm_offset mp in
     rbind (arr_get (bm_start mp) (unat (idx div 8))) (\<lambda>b.
     Inr (b AND push_bit (unat (idx mod 8)) 1 \<noteq> 0))))"

definition bitmap_set :: "bitmap_t \<Rightarrow> u32 \<Rightarrow> bool \<Rightarrow> (int \<times> bitmap_t) res" where
  "bitmap_set mp idx status =
     rbind (ensure (idx \<ge> bm_offset mp) Assert) (\<lambda>_.
     rbind (bitmap_test mp idx) (\<lambda>cur.
     if cur = status then Inr (EOF, mp)
     else
       let idx = idx - bm_offset mp; k = unat (idx div 8) in
       rbind (arr_get (bm_start mp) k) (\<lambda>b.
       rbind (arr_set (bm_start mp) k
                (if status then b OR push_bit (unat (idx mod 8)) 1
                 else b AND NOT (push_bit (unat (idx mod 8)) 1))) (\<lambda>bytes.
       Inr (0, mp\<lparr>bm_start := bytes\<rparr>)))))"

text \<open>The inner loop of \<^verbatim>\<open>bitmap_scan\<close>, which ignores what \<^verbatim>\<open>bitmap_set\<close> returns.\<close>

primrec scan_fill :: "nat \<Rightarrow> bitmap_t \<Rightarrow> u32 \<Rightarrow> bitmap_t res" where
  "scan_fill 0 mp idx = Inr mp"
| "scan_fill (Suc n) mp idx =
     rbind (bitmap_set mp idx True) (\<lambda>(_, mp). scan_fill n mp (idx + 1))"

function scan_loop :: "bitmap_t \<Rightarrow> u32 \<Rightarrow> u32 \<Rightarrow> u32 \<Rightarrow> (int \<times> bitmap_t) res" where
  "scan_loop mp count start_idx local_count =
     (if local_count + start_idx < bm_length mp * 8 then
        rbind (bitmap_test mp (start_idx + local_count + bm_offset mp)) (\<lambda>used.
        if used then scan_loop mp count (start_idx + (local_count + 1)) 0
        else if local_count = count - 1 then
          rbind (scan_fill (unat count) mp (bm_offset mp + start_idx)) (\<lambda>mp.
          Inr (sint (start_idx + bm_offset mp), mp))
        else scan_loop mp count start_idx (local_count + 1))
      else Inr (EOF, mp))"
  by pat_completeness auto
termination
proof (relation "measure (\<lambda>(m, n, s, c). unat (bm_length m * 8) - unat (c + s))", goal_cases)
  case (2 mp count s c)
  have "unat (c + s + 1) = unat (c + s) + 1"
    using 2(1) by (rule unat_plus_one)
  with 2 show ?case by (simp add: word_less_nat_alt ac_simps)
next
  case (3 mp count s c)
  have "unat (c + s + 1) = unat (c + s) + 1"
    using 3(1) by (rule unat_plus_one)
  with 3 show ?case by (simp add: word_less_nat_alt ac_simps)
qed auto

declare scan_loop.simps [simp del]

definition bitmap_scan :: "bitmap_t \<Rightarrow> u32 \<Rightarrow> (int \<times> bitmap_t) res" where
  "bitmap_scan mp count = scan_loop mp count 0 0"

section \<open>Bits\<close>

text \<open>
  A well-formed bitmap has all its bytes, and its page indices stay below \<open>2 ^ 31\<close>, so
  that they survive the conversion to the \<^verbatim>\<open>int\<close> that \<^verbatim>\<open>bitmap_scan\<close> returns.
\<close>

definition bm_bits :: "bitmap_t \<Rightarrow> nat" where
  "bm_bits m = 8 * unat (bm_length m)"

definition bm_wf :: "bitmap_t \<Rightarrow> bool" where
  "bm_wf m \<longleftrightarrow> length (bm_start m) \<ge> unat (bm_length m) \<and> unat (bm_offset m) + bm_bits m < 2 ^ 31"

definition bm_bit :: "bitmap_t \<Rightarrow> nat \<Rightarrow> bool" where
  "bm_bit m i = bit (bm_start m ! (i div 8)) (i mod 8)"

lemma unat_len8: "bm_wf m \<Longrightarrow> unat (bm_length m * 8) = bm_bits m"
  by (simp add: bm_wf_def bm_bits_def unat_word_ariths)

lemma unat_off: "bm_wf m \<Longrightarrow> i \<le> bm_bits m \<Longrightarrow> unat (bm_offset m + word_of_nat i) = unat (bm_offset m) + i"
  by (simp add: bm_wf_def unat_word_ariths unat_of_nat)

lemma bitmap_index:
  assumes "bm_wf m" "i < bm_bits m"
  shows "bm_offset m + word_of_nat i \<ge> bm_offset m"
    and "bm_offset m + word_of_nat i < bm_offset m + bm_length m * 8"
    and "unat (word_of_nat i div 8 :: u32) = i div 8" "unat (word_of_nat i mod 8 :: u32) = i mod 8"
    and "i div 8 < length (bm_start m)"
proof -
  have "unat (bm_offset m + bm_length m * 8) = unat (bm_offset m) + bm_bits m"
    using assms by (simp add: bm_wf_def unat_word_ariths bm_bits_def)
  then show "bm_offset m + word_of_nat i \<ge> bm_offset m"
    "bm_offset m + word_of_nat i < bm_offset m + bm_length m * 8"
    using assms unat_off [of m i] by (simp_all add: word_le_nat_alt word_less_nat_alt)
  have "unat (word_of_nat i :: u32) = i"
    using assms by (simp add: bm_wf_def unat_of_nat)
  then show "unat (word_of_nat i div 8 :: u32) = i div 8" "unat (word_of_nat i mod 8 :: u32) = i mod 8"
    by (simp_all add: unat_div unat_mod)
  show "i div 8 < length (bm_start m)"
    using assms by (auto simp: bm_wf_def bm_bits_def)
qed

lemma bitmap_test_bit:
  assumes "bm_wf m" "i < bm_bits m"
  shows "bitmap_test m (bm_offset m + word_of_nat i) = Inr (bm_bit m i)"
  using bitmap_index [OF assms] by (simp add: bitmap_test_def bm_bit_def and_exp_eq_0_iff_not_bit)

text \<open>\<open>bm_upd m m' I v\<close>: from \<open>m\<close> to \<open>m'\<close> exactly the bits in \<open>I\<close> became \<open>v\<close>.\<close>

definition bm_upd :: "bitmap_t \<Rightarrow> bitmap_t \<Rightarrow> nat set \<Rightarrow> bool \<Rightarrow> bool" where
  "bm_upd m m' I v \<longleftrightarrow> bm_length m' = bm_length m \<and> bm_offset m' = bm_offset m \<and>
     length (bm_start m') = length (bm_start m) \<and>
     (\<forall>j. bm_bit m' j = (if j \<in> I then v else bm_bit m j))"

lemma bm_upd_wf: "bm_upd m m' I v \<Longrightarrow> bm_wf m' = bm_wf m" "bm_upd m m' I v \<Longrightarrow> bm_bits m' = bm_bits m"
  by (simp_all add: bm_upd_def bm_wf_def bm_bits_def)

lemma bm_upd_refl: "(\<And>j. j \<in> I \<Longrightarrow> bm_bit m j = v) \<Longrightarrow> bm_upd m m I v"
  by (auto simp: bm_upd_def)

lemma bm_upd_trans: "bm_upd m m' I v \<Longrightarrow> bm_upd m' m'' J v \<Longrightarrow> bm_upd m m'' (I \<union> J) v"
  by (auto simp: bm_upd_def)

lemma bm_bit_update:
  assumes "i div 8 < length (bm_start m)"
    and "\<And>k. k < 8 \<Longrightarrow> bit b k = (if k = i mod 8 then v else bit (bm_start m ! (i div 8)) k)"
  shows "bm_upd m (m\<lparr>bm_start := (bm_start m)[i div 8 := b]\<rparr>) {i} v"
proof -
  have "j = i \<longleftrightarrow> j div 8 = i div 8 \<and> j mod 8 = i mod 8" for j
    by (metis div_mult_mod_eq)
  then show ?thesis
    using assms by (auto simp: bm_upd_def bm_bit_def nth_list_update)
qed

lemma bit_set_u8: "k < 8 \<Longrightarrow> r < 8 \<Longrightarrow> bit (b OR 2 ^ r :: u8) k = (if k = r then True else bit b k)"
  by (auto simp: bit_or_iff bit_exp_iff)

lemma bit_clear_u8: "k < 8 \<Longrightarrow> r < 8 \<Longrightarrow> bit (b AND NOT (2 ^ r) :: u8) k = (if k = r then False else bit b k)"
  by (auto simp: bit_and_iff bit_not_iff bit_exp_iff)

lemma bitmap_set_spec:
  assumes "bm_wf m" "i < bm_bits m"
  shows "\<exists>m'. bitmap_set m (bm_offset m + word_of_nat i) v =
      Inr (if bm_bit m i = v then EOF else 0, m') \<and> bm_upd m m' {i} v"
proof (cases "bm_bit m i = v")
  case True
  with bitmap_test_bit [OF assms] bitmap_index(1) [OF assms] show ?thesis
    by (auto simp: bitmap_set_def intro: bm_upd_refl)
next
  case False
  let ?b = "if v then bm_start m ! (i div 8) OR 2 ^ (i mod 8)
            else bm_start m ! (i div 8) AND NOT (2 ^ (i mod 8))"
  have "bm_upd m (m\<lparr>bm_start := (bm_start m)[i div 8 := ?b]\<rparr>) {i} v"
    by (rule bm_bit_update) (use bitmap_index(5) [OF assms] in \<open>auto simp: bit_set_u8 bit_clear_u8\<close>)
  with False bitmap_test_bit [OF assms] bitmap_index [OF assms] show ?thesis
    by (auto simp: bitmap_set_def Let_def)
qed

section \<open>First fit\<close>

text \<open>A run of \<open>n\<close> clear bits from \<open>t\<close> on.\<close>

definition free_run :: "bitmap_t \<Rightarrow> nat \<Rightarrow> nat \<Rightarrow> bool" where
  "free_run m n t \<longleftrightarrow> t + n \<le> bm_bits m \<and> (\<forall>i \<in> {t..<t + n}. \<not> bm_bit m i)"

lemma scan_fill_spec:
  "bm_wf m \<Longrightarrow> t + n \<le> bm_bits m \<Longrightarrow>
    \<exists>m'. scan_fill n m (bm_offset m + word_of_nat t) = Inr m' \<and> bm_upd m m' {t..<t + n} True"
proof (induction n arbitrary: m t)
  case 0
  then show ?case by (auto intro: bm_upd_refl)
next
  case (Suc n)
  from bitmap_set_spec [of m t True] Suc.prems obtain m1 r where
    m1: "bitmap_set m (bm_offset m + word_of_nat t) True = Inr (r, m1)" "bm_upd m m1 {t} True"
    by auto
  with Suc.IH [of m1 "Suc t"] Suc.prems obtain m2 where
    m2: "scan_fill n m1 (bm_offset m1 + word_of_nat (Suc t)) = Inr m2" "bm_upd m1 m2 {Suc t..<Suc t + n} True"
    by (auto simp: bm_upd_wf)
  have "{t} \<union> {Suc t..<Suc t + n} = {t..<t + Suc n}" by auto
  with bm_upd_trans [OF m1(2) m2(2)] m1 m2(1) show ?case
    by (auto simp: bm_upd_def ac_simps)
qed

lemma scan_step:
  assumes wf: "bm_wf m" and le: "s + c \<le> bm_bits m"
  shows "scan_loop m count (word_of_nat s) (word_of_nat c) =
    (if s + c = bm_bits m then Inr (EOF, m)
     else if bm_bit m (s + c) then scan_loop m count (word_of_nat (s + c + 1)) (word_of_nat 0)
     else if word_of_nat c = count - 1 then
       rbind (scan_fill (unat count) m (bm_offset m + word_of_nat s)) (\<lambda>m'.
         Inr (sint (word_of_nat s + bm_offset m'), m'))
     else scan_loop m count (word_of_nat s) (word_of_nat (c + 1)))"
proof -
  have "unat (word_of_nat c + word_of_nat s :: u32) = s + c"
    using assms by (simp add: bm_wf_def unat_word_ariths unat_of_nat)
  then have cond: "(word_of_nat c + word_of_nat s < bm_length m * 8) = (s + c \<noteq> bm_bits m)"
    using le unat_len8 [OF wf] by (auto simp: word_less_nat_alt)
  have "bitmap_test m (word_of_nat s + word_of_nat c + bm_offset m) = Inr (bm_bit m (s + c))"
    if "s + c \<noteq> bm_bits m"
    using bitmap_test_bit [OF wf, of "s + c"] le that by (simp add: ac_simps)
  with cond show ?thesis
    by (subst scan_loop.simps) (auto simp: ac_simps)
qed

lemma scan_loop_spec:
  assumes wf: "bm_wf m" and n: "0 < n" "n < 2 ^ 32"
  shows "s + c \<le> bm_bits m \<Longrightarrow> c < n \<Longrightarrow> \<forall>i \<in> {s..<s + c}. \<not> bm_bit m i \<Longrightarrow>
    \<forall>t < s. \<not> free_run m n t \<Longrightarrow>
    (\<exists>t m'. scan_loop m (word_of_nat n) (word_of_nat s) (word_of_nat c) =
        Inr (int (t + unat (bm_offset m)), m') \<and>
        free_run m n t \<and> (\<forall>u < t. \<not> free_run m n u) \<and> bm_upd m m' {t..<t + n} True) \<or>
    scan_loop m (word_of_nat n) (word_of_nat s) (word_of_nat c) = Inr (EOF, m) \<and>
        (\<forall>t. \<not> free_run m n t)"
proof (induction "bm_bits m - (s + c)" arbitrary: s c)
  case 0
  then have "\<not> free_run m n t" for t
    by (cases "t < s") (auto simp: free_run_def)
  with 0 show ?case by (simp add: scan_step [OF wf])
next
  case (Suc k)
  have lt: "s + c < bm_bits m" using Suc.hyps(2) by simp
  have c: "(word_of_nat c = (word_of_nat n - 1 :: u32)) = (c + 1 = n)"
  proof -
    have "n - 1 < 2 ^ 32" "c < 2 ^ 32" using n Suc.prems by auto
    moreover have "word_of_nat n - 1 = (word_of_nat (n - 1) :: u32)" using n by simp
    ultimately show ?thesis using n by (auto simp: word_of_nat_inj simp del: of_nat_diff)
  qed
  consider "bm_bit m (s + c)" | "\<not> bm_bit m (s + c)" "c + 1 = n" | "\<not> bm_bit m (s + c)" "c + 1 \<noteq> n"
    by blast
  then show ?case
  proof cases
    case 1
    then have "\<not> free_run m n t" if "t < s + c + 1" for t
      using that Suc.prems by (cases "t < s") (auto simp: free_run_def)
    with Suc.hyps(1) [of "s + c + 1" 0] Suc.hyps(2) Suc.prems n 1 lt show ?thesis
      by (simp add: scan_step [OF wf])
  next
    case 2
    then have run: "free_run m n s"
      using Suc.prems lt by (auto simp: free_run_def less_Suc_eq)
    from scan_fill_spec [OF wf, of s n] 2 lt obtain m' where
      m': "scan_fill n m (bm_offset m + word_of_nat s) = Inr m'" "bm_upd m m' {s..<s + n} True" by auto
    have "sint (word_of_nat s + bm_offset m) = int (s + unat (bm_offset m))"
    proof -
      have "unat (word_of_nat s + bm_offset m) = s + unat (bm_offset m)"
        using unat_off [OF wf, of s] lt by (simp add: ac_simps)
      moreover have "s + unat (bm_offset m) < 2 ^ 31"
        using wf lt by (simp add: bm_wf_def)
      ultimately show ?thesis by (simp add: sint_small)
    qed
    moreover have "bm_offset m' = bm_offset m" using m'(2) by (simp add: bm_upd_def)
    moreover have "scan_loop m (word_of_nat n) (word_of_nat s) (word_of_nat c) =
        rbind (scan_fill n m (bm_offset m + word_of_nat s)) (\<lambda>m'.
          Inr (sint (word_of_nat s + bm_offset m'), m'))"
      using scan_step [OF wf, of s c "word_of_nat n"] lt 2 c n by (simp add: unat_of_nat)
    ultimately have "scan_loop m (word_of_nat n) (word_of_nat s) (word_of_nat c) =
        Inr (int (s + unat (bm_offset m)), m')"
      using m'(1) by simp
    then show ?thesis using m'(2) run Suc.prems(4) by blast
  next
    case 3
    then have "\<forall>i \<in> {s..<s + (c + 1)}. \<not> bm_bit m i"
      using Suc.prems by (auto simp: less_Suc_eq)
    with Suc.hyps(1) [of s "c + 1"] Suc.hyps(2) Suc.prems 3 c lt show ?thesis
      by (simp add: scan_step [OF wf])
  qed
qed

lemma bitmap_scan_spec:
  assumes "bm_wf m" "0 < n" "n < 2 ^ 32"
  shows "(\<exists>t m'. bitmap_scan m (word_of_nat n) = Inr (int (t + unat (bm_offset m)), m') \<and>
        free_run m n t \<and> (\<forall>u < t. \<not> free_run m n u) \<and> bm_upd m m' {t..<t + n} True) \<or>
    bitmap_scan m (word_of_nat n) = Inr (EOF, m) \<and> (\<forall>t. \<not> free_run m n t)"
  using scan_loop_spec [OF assms, of 0 0] assms(2) by (simp add: bitmap_scan_def)

text \<open>An index outside the managed range is caught by the assertions.\<close>

lemma bitmap_test_range:
  assumes "bm_wf m" "unat idx < unat (bm_offset m) \<or> unat (bm_offset m) + bm_bits m \<le> unat idx"
  shows "bitmap_test m idx = Inl Assert" "bitmap_set m idx v = Inl Assert"
proof -
  have "unat (bm_offset m + bm_length m * 8) = unat (bm_offset m) + bm_bits m"
    using assms by (simp add: bm_wf_def unat_word_ariths bm_bits_def)
  then show "bitmap_test m idx = Inl Assert" "bitmap_set m idx v = Inl Assert"
    using assms(2) by (auto simp: bitmap_set_def bitmap_test_def word_le_nat_alt word_less_nat_alt ensure_def)
qed

lemma bitmap_init_spec:
  assumes "unat len \<le> length buf" "unat off + 8 * unat len < 2 ^ 31"
  shows "\<exists>m. bitmap_init buf len off = Inr m \<and> bm_wf m \<and> bm_offset m = off \<and> bm_bits m = 8 * unat len \<and>
     (\<forall>i < bm_bits m. \<not> bm_bit m i)"
  using assms by (auto simp: bitmap_init_def bm_wf_def bm_bits_def bm_bit_def nth_append)

section \<open>Properties\<close>

text \<open>
  C26: \<^verbatim>\<open>bitmap_scan\<close> is first fit: it returns the lowest page index at which \<open>n\<close> clear bits
  start and sets exactly those bits, and it returns \<^verbatim>\<open>EOF\<close>, changing nothing, exactly when
  the bitmap has no such run. It never fails an assertion of \<^verbatim>\<open>bitmap_test\<close>.
\<close>

theorem bitmap_scan_first_fit:
  assumes "bm_wf m" "0 < n" "n < 2 ^ 32"
  shows "if \<exists>t. free_run m n t
    then \<exists>m'. bitmap_scan m (word_of_nat n) =
           Inr (int ((LEAST t. free_run m n t) + unat (bm_offset m)), m') \<and>
         bm_upd m m' {(LEAST t. free_run m n t)..<(LEAST t. free_run m n t) + n} True
    else bitmap_scan m (word_of_nat n) = Inr (EOF, m)"
proof -
  have "(LEAST t. free_run m n t) = t" if "free_run m n t" "\<forall>u < t. \<not> free_run m n u" for t
    using that by (intro Least_equality) (auto simp: not_le [symmetric])
  then show ?thesis using bitmap_scan_spec [OF assms] by auto
qed

text \<open>
  \<^verbatim>\<open>bitmap_set\<close> reports \<^verbatim>\<open>EOF\<close> exactly when the bit already has the requested status;
  afterwards \<^verbatim>\<open>bitmap_test\<close> reads that status at the index and every other managed index
  reads as before.
\<close>

theorem bitmap_set_test:
  assumes "bm_wf m" "i < bm_bits m" "j < bm_bits m"
  shows "\<exists>r m'. bitmap_set m (bm_offset m + word_of_nat i) v = Inr (r, m') \<and> bm_wf m' \<and>
     (r = EOF \<longleftrightarrow> bitmap_test m (bm_offset m + word_of_nat i) = Inr v) \<and>
     bitmap_test m' (bm_offset m + word_of_nat j) =
       (if j = i then Inr v else bitmap_test m (bm_offset m + word_of_nat j))"
proof -
  from bitmap_set_spec [OF assms(1,2), of v] obtain m' where
    m': "bitmap_set m (bm_offset m + word_of_nat i) v = Inr (if bm_bit m i = v then EOF else 0, m')"
      "bm_upd m m' {i} v" by auto
  from m'(2) have "bm_wf m'" "bm_bits m' = bm_bits m" "bm_offset m' = bm_offset m"
    using assms(1) bm_upd_wf [OF m'(2)] by (auto simp: bm_upd_def)
  with m' bitmap_test_bit [of m' j] bitmap_test_bit [of m] assms show ?thesis
    by (auto simp: EOF_def bm_upd_def)
qed

section \<open>Examples\<close>

definition ex_map :: bitmap_t where
  "ex_map = \<lparr>bm_start = [0x0F, 0x01], bm_length = 2, bm_offset = 16\<rparr>"

lemma ex_map_wf: "bm_wf ex_map" "bm_bits ex_map = 16" "bm_offset ex_map = 16"
  by (simp_all add: ex_map_def bm_wf_def bm_bits_def)

lemma ex_map_full: "\<not> free_run ex_map 8 t"
proof
  assume "free_run ex_map 8 t"
  then have "t \<le> 8" "\<not> bm_bit ex_map (if t = 0 then 0 else 8)"
    by (auto simp: free_run_def ex_map_wf)
  then show False by (auto simp: bm_bit_def ex_map_def split: if_splits)
qed

theorem bitmap_scan_first_fit_witness:
  "bitmap_scan ex_map 8 = Inr (EOF, ex_map)"
  using bitmap_scan_first_fit [of ex_map 8] by (simp add: ex_map_wf ex_map_full)

theorem bitmap_set_test_witness:
  "\<exists>r m'. bitmap_set ex_map 21 True = Inr (r, m') \<and> bitmap_test m' 21 = Inr True"
  using bitmap_set_test [of ex_map 5 5 True] by (auto simp: ex_map_wf)

end
