(* ===== verification/Kernel_Pages.thy ===== *)
theory Kernel_Pages
  imports Bitmap
begin

text \<open>
  The processor flag and control registers the kernel reads, and the allocation of
  virtual pages from \<^verbatim>\<open>kernel/memory.c\<close>: \<^verbatim>\<open>alloc_kpage\<close> and \<^verbatim>\<open>free_kpage\<close> on the kernel's
  bitmap, \<^verbatim>\<open>_alloc_page\<close> and \<^verbatim>\<open>_free_page\<close> on the bitmap of a process. Both are instances
  of the page pool contract. The state is an extensible record: the later components
  add their fields to it.
\<close>

section \<open>Processor state\<close>

record cpu =
  iflag :: bool
  cr3 :: u32

definition get_IF :: "'a cpu_scheme \<Rightarrow> bool" where
  "get_IF s = iflag s"

definition set_IF :: "bool \<Rightarrow> 'a cpu_scheme \<Rightarrow> 'a cpu_scheme" where
  "set_IF b s = s\<lparr>iflag := b\<rparr>"

definition get_and_disable_IF :: "'a cpu_scheme \<Rightarrow> bool \<times> 'a cpu_scheme" where
  "get_and_disable_IF s = (get_IF s, set_IF False s)"

section \<open>Constants and address arithmetic of memory.h\<close>

definition KERNEL_MEMERY_SIZE :: u32 where "KERNEL_MEMERY_SIZE = 0x1400000"
definition IO_MEM_START :: u32 where "IO_MEM_START = 0x1000000"
definition KERNEL_AVA_M :: u32 where "KERNEL_AVA_M = 0x800000"
definition BIOS_MEM_SIZE :: u32 where "BIOS_MEM_SIZE = 0x100000"
definition PAGE_SIZE :: u32 where "PAGE_SIZE = 0x1000"

definition PAGE_IDX :: "u32 \<Rightarrow> u32" where "PAGE_IDX addr = drop_bit 12 addr"
definition PAGE_ADDR :: "u32 \<Rightarrow> u32" where "PAGE_ADDR idx = push_bit 12 idx"
definition DIDX :: "u32 \<Rightarrow> u32" where "DIDX addr = drop_bit 22 addr"
definition TIDX :: "u32 \<Rightarrow> u32" where "TIDX addr = drop_bit 12 addr AND 0x3ff"

definition USER_STACK_TOP :: u32 where "USER_STACK_TOP = 0x8000000 + KERNEL_MEMERY_SIZE"
definition USER_STACK_SIZE :: u32 where "USER_STACK_SIZE = 0x200000"
definition USER_STACK_BOTTOM :: u32 where "USER_STACK_BOTTOM = USER_STACK_TOP - USER_STACK_SIZE"

lemma page_idx_addr: "unat i < 2 ^ 20 \<Longrightarrow> PAGE_IDX (PAGE_ADDR i) = i"
  by (simp add: word_unat_eq_iff PAGE_IDX_def PAGE_ADDR_def drop_bit_eq_div push_bit_eq_mult unat_div
      unat_word_ariths)

section \<open>Allocating virtual pages\<close>

record kmem = cpu +
  v_bit_map :: bitmap_t

text \<open>The common loop of \<^verbatim>\<open>free_kpage\<close> and \<^verbatim>\<open>_free_page\<close>.\<close>

primrec clear_pages :: "nat \<Rightarrow> u32 \<Rightarrow> bitmap_t \<Rightarrow> bitmap_t res" where
  "clear_pages 0 idx m = Inr m"
| "clear_pages (Suc n) idx m =
     rbind (bitmap_set m idx False) (\<lambda>(r, m).
     if r = EOF then Inl Panic else clear_pages n (idx + 1) m)"

text \<open>A null pointer is address 0; page 0 is managed by no bitmap.\<close>

definition alloc_kpage :: "u32 \<Rightarrow> 'a kmem_scheme \<Rightarrow> (u32 \<times> 'a kmem_scheme) res" where
  "alloc_kpage count s =
     (let IF_state = get_IF s; s = set_IF False s in
      rbind (bitmap_scan (v_bit_map s) count) (\<lambda>(start_page_idx, m).
      let s = set_IF IF_state (s\<lparr>v_bit_map := m\<rparr>) in
      Inr (if start_page_idx = EOF then 0 else PAGE_ADDR (word_of_int start_page_idx), s)))"

definition free_kpage :: "u32 \<Rightarrow> u32 \<Rightarrow> 'a kmem_scheme \<Rightarrow> 'a kmem_scheme res" where
  "free_kpage vaddr count s =
     (let IF_state = get_IF s; s = set_IF False s in
      rbind (clear_pages (unat count) (PAGE_IDX vaddr) (v_bit_map s)) (\<lambda>m.
      Inr (set_IF IF_state (s\<lparr>v_bit_map := m\<rparr>))))"

text \<open>The process versions; \<open>vmap\<close> is the bitmap of the current task.\<close>

definition alloc_page :: "u32 \<Rightarrow> bitmap_t \<Rightarrow> (u32 \<times> bitmap_t) res" where
  "alloc_page count vmap =
     rbind (bitmap_scan vmap count) (\<lambda>(start_page_idx, vmap).
     Inr (if start_page_idx = EOF then 0 else PAGE_ADDR (word_of_int start_page_idx), vmap))"

definition free_page :: "u32 \<Rightarrow> u32 \<Rightarrow> bitmap_t \<Rightarrow> bitmap_t res" where
  "free_page vaddr count vmap = clear_pages (unat count) (PAGE_IDX vaddr) vmap"

section \<open>The pages in use\<close>

definition pages_used :: "bitmap_t \<Rightarrow> nat set" where
  "pages_used m = {p. unat (bm_offset m) \<le> p \<and> p < unat (bm_offset m) + bm_bits m \<and>
     bm_bit m (p - unat (bm_offset m))}"

text \<open>The bitmap manages pages of the 20-bit index space, above page 0.\<close>

definition vmap_wf :: "bitmap_t \<Rightarrow> bool" where
  "vmap_wf m \<longleftrightarrow> bm_wf m \<and> 0 < unat (bm_offset m) \<and> unat (bm_offset m) + bm_bits m \<le> 2 ^ 20"

lemma bm_upd_used:
  assumes "bm_upd m m' {t..<t + n} v" "t + n \<le> bm_bits m"
  shows "pages_used m' = (if v then pages_used m \<union> {unat (bm_offset m) + t..<unat (bm_offset m) + t + n}
     else pages_used m - {unat (bm_offset m) + t..<unat (bm_offset m) + t + n})"
  using assms bm_upd_wf(2) [OF assms(1)] by (auto simp: pages_used_def bm_upd_def)

lemma bm_upd_vmap_wf: "bm_upd m m' I v \<Longrightarrow> vmap_wf m' = vmap_wf m"
  by (simp add: vmap_wf_def bm_upd_wf) (simp add: bm_upd_def)

lemma clear_pages_spec:
  "bm_wf m \<Longrightarrow> t + n \<le> bm_bits m \<Longrightarrow> \<forall>i \<in> {t..<t + n}. bm_bit m i \<Longrightarrow>
    \<exists>m'. clear_pages n (bm_offset m + word_of_nat t) m = Inr m' \<and> bm_upd m m' {t..<t + n} False"
proof (induction n arbitrary: m t)
  case 0
  then show ?case by (auto intro: bm_upd_refl)
next
  case (Suc n)
  from bitmap_set_spec [of m t False] Suc.prems obtain m1 where
    m1: "bitmap_set m (bm_offset m + word_of_nat t) False = Inr (0, m1)" "bm_upd m m1 {t} False"
    by auto
  then have "\<forall>i \<in> {Suc t..<Suc t + n}. bm_bit m1 i" using Suc.prems(3) by (auto simp: bm_upd_def)
  with Suc.IH [of m1 "Suc t"] Suc.prems m1(2) obtain m2 where
    m2: "clear_pages n (bm_offset m1 + word_of_nat (Suc t)) m1 = Inr m2" "bm_upd m1 m2 {Suc t..<Suc t + n} False"
    by (auto simp: bm_upd_wf)
  have "{t} \<union> {Suc t..<Suc t + n} = {t..<t + Suc n}" by auto
  with bm_upd_trans [OF m1(2) m2(2)] m1 m2(1) show ?case
    by (auto simp: bm_upd_def ac_simps EOF_def)
qed

lemma bitmap_set_frame:
  "bitmap_set m i v = Inr (r, m') \<Longrightarrow> bm_offset m' = bm_offset m \<and> bm_length m' = bm_length m"
  by (auto simp: bitmap_set_def Let_def split: if_splits)

lemma clear_pages_frame:
  "clear_pages n i m = Inr m' \<Longrightarrow> bm_offset m' = bm_offset m \<and> bm_bits m' = bm_bits m"
  by (induction n arbitrary: i m) (auto simp: bm_bits_def split: if_splits dest!: bitmap_set_frame)

text \<open>The process allocator in terms of page numbers.\<close>

definition page_of :: "u32 \<Rightarrow> nat option" where
  "page_of vaddr = (if vaddr = 0 then None else Some (unat (PAGE_IDX vaddr)))"

lemma alloc_page_spec:
  assumes wf: "vmap_wf m" and n: "0 < n" "n < 2 ^ 20"
  shows "\<exists>r m'. alloc_page (word_of_nat n) m = Inr (r, m') \<and> vmap_wf m' \<and>
     (case page_of r of None \<Rightarrow> m' = m
      | Some t \<Rightarrow> {t..<t + n} \<inter> pages_used m = {} \<and> pages_used m' = pages_used m \<union> {t..<t + n})"
proof -
  let ?o = "unat (bm_offset m)"
  consider t m' where "bitmap_scan m (word_of_nat n) = Inr (int (t + ?o), m')" "free_run m n t"
      "bm_upd m m' {t..<t + n} True"
    | "bitmap_scan m (word_of_nat n) = Inr (EOF, m)"
    using bitmap_scan_spec [of m n] wf n by (auto simp: vmap_wf_def)
  then show ?thesis
  proof cases
    case 1
    have b: "t + n \<le> bm_bits m" using 1(2) by (simp add: free_run_def)
    then have small: "t + ?o < 2 ^ 20" "0 < t + ?o" using wf n by (auto simp: vmap_wf_def)
    define i :: u32 where "i = word_of_nat (t + ?o)"
    have i: "unat i = t + ?o" using small by (simp add: i_def unat_of_nat del: of_nat_add)
    have "PAGE_IDX (PAGE_ADDR i) = i" using i small by (intro page_idx_addr) simp
    moreover have "PAGE_ADDR i \<noteq> 0"
    proof
      assume "PAGE_ADDR i = 0"
      with \<open>PAGE_IDX (PAGE_ADDR i) = i\<close> have "i = 0" by (simp add: PAGE_IDX_def)
      with i small(2) show False by simp
    qed
    ultimately have p: "page_of (PAGE_ADDR i) = Some (?o + t)" using i by (simp add: page_of_def)
    have "{?o + t..<?o + t + n} \<inter> pages_used m = {}"
    proof -
      have "x - ?o \<in> {t..<t + n}" if "x \<in> {?o + t..<?o + t + n}" for x using that by auto
      with 1(2) show ?thesis by (auto simp: free_run_def pages_used_def)
    qed
    moreover have "alloc_page (word_of_nat n) m = Inr (PAGE_ADDR i, m')"
    proof -
      have "word_of_int (int (t + ?o)) = i" by (simp add: i_def)
      moreover have "int (t + ?o) \<noteq> EOF" by (simp only: EOF_def)
      ultimately show ?thesis using 1(1) by (simp only: alloc_page_def rbind_simps prod.case if_False)
    qed
    ultimately show ?thesis
      using p bm_upd_used [OF 1(3) b] bm_upd_vmap_wf [OF 1(3)] wf by auto
  next
    case 2
    with wf show ?thesis by (simp add: alloc_page_def page_of_def)
  qed
qed

lemma free_page_spec:
  assumes wf: "vmap_wf m" and n: "n < 2 ^ 20" and used: "{t..<t + n} \<subseteq> pages_used m"
  shows "\<exists>m'. free_page (PAGE_ADDR (word_of_nat t)) (word_of_nat n) m = Inr m' \<and> vmap_wf m' \<and>
     pages_used m' = pages_used m - {t..<t + n}"
proof (cases "n = 0")
  case True
  with wf show ?thesis by (simp add: free_page_def)
next
  case False
  let ?o = "unat (bm_offset m)"
  from False used have "t \<in> pages_used m" "t + n - 1 \<in> pages_used m" by auto
  then have t: "?o \<le> t" "t < ?o + bm_bits m" "t + n \<le> ?o + bm_bits m" by (auto simp: pages_used_def)
  have bits: "\<forall>i \<in> {t - ?o..<t - ?o + n}. bm_bit m i"
  proof
    fix i assume "i \<in> {t - ?o..<t - ?o + n}"
    then have "i + ?o \<in> {t..<t + n}" using t(1) by auto
    then have "i + ?o \<in> pages_used m" using used by blast
    then show "bm_bit m i" by (simp add: pages_used_def)
  qed
  have "unat (word_of_nat t :: u32) = t" using t(2) wf by (simp add: vmap_wf_def unat_of_nat)
  moreover have "t < 2 ^ 20" using t(2) wf by (simp add: vmap_wf_def)
  ultimately have "PAGE_IDX (PAGE_ADDR (word_of_nat t)) = word_of_nat t" by (intro page_idx_addr) simp
  also have "\<dots> = bm_offset m + word_of_nat (t - ?o)" using t(1) by simp
  finally have idx: "PAGE_IDX (PAGE_ADDR (word_of_nat t)) = bm_offset m + word_of_nat (t - ?o)" .
  obtain m' where m': "clear_pages n (bm_offset m + word_of_nat (t - ?o)) m = Inr m'"
      "bm_upd m m' {t - ?o..<t - ?o + n} False"
  proof -
    have "bm_wf m" "t - ?o + n \<le> bm_bits m" using wf t by (auto simp: vmap_wf_def)
    from clear_pages_spec [OF this bits] that show ?thesis by blast
  qed
  have "pages_used m' = pages_used m - {t..<t + n}"
    using bm_upd_used [OF m'(2)] t by simp
  moreover have "unat (word_of_nat n :: u32) = n" using n by (simp add: unat_of_nat)
  ultimately show ?thesis
    using m' idx bm_upd_vmap_wf [OF m'(2)] wf by (simp add: free_page_def)
qed

lemma free_page_unused:
  assumes wf: "vmap_wf m" and n: "0 < n" "n < 2 ^ 20"
    and t: "unat (bm_offset m) \<le> t" "t < unat (bm_offset m) + bm_bits m" "t \<notin> pages_used m"
  shows "free_page (PAGE_ADDR (word_of_nat t)) (word_of_nat n) m = Inl Panic"
proof -
  let ?i = "t - unat (bm_offset m)"
  have "unat (word_of_nat t :: u32) = t" "t < 2 ^ 20" using t wf by (simp_all add: vmap_wf_def unat_of_nat)
  then have "PAGE_IDX (PAGE_ADDR (word_of_nat t)) = word_of_nat t" by (intro page_idx_addr) simp
  then have idx: "PAGE_IDX (PAGE_ADDR (word_of_nat t)) = bm_offset m + word_of_nat ?i" using t(1) by simp
  have "bm_wf m" "?i < bm_bits m" "\<not> bm_bit m ?i"
    using wf t by (auto simp: vmap_wf_def pages_used_def)
  then obtain m' where "bitmap_set m (bm_offset m + word_of_nat ?i) False = Inr (EOF, m')"
    using bitmap_set_spec [of m ?i False] by auto
  moreover obtain k where "unat (word_of_nat n :: u32) = Suc k"
  proof -
    have "unat (word_of_nat n :: u32) = Suc (n - 1)" using n by (simp add: unat_of_nat)
    then show ?thesis by (rule that)
  qed
  ultimately show ?thesis by (simp only: free_page_def idx clear_pages.simps) simp
qed

section \<open>The two page pools\<close>

text \<open>The allocators with page numbers for addresses.\<close>

definition kpage_alloc :: "nat \<Rightarrow> 'a kmem_scheme \<Rightarrow> (nat option \<times> 'a kmem_scheme) res" where
  "kpage_alloc n s = rbind (alloc_kpage (word_of_nat n) s) (\<lambda>(r, s). Inr (page_of r, s))"

definition kpage_free :: "nat \<Rightarrow> nat \<Rightarrow> 'a kmem_scheme \<Rightarrow> 'a kmem_scheme res" where
  "kpage_free t n = free_kpage (PAGE_ADDR (word_of_nat t)) (word_of_nat n)"

definition upage_alloc :: "nat \<Rightarrow> bitmap_t \<Rightarrow> (nat option \<times> bitmap_t) res" where
  "upage_alloc n m = rbind (alloc_page (word_of_nat n) m) (\<lambda>(r, m). Inr (page_of r, m))"

definition upage_free :: "nat \<Rightarrow> nat \<Rightarrow> bitmap_t \<Rightarrow> bitmap_t res" where
  "upage_free t n = free_page (PAGE_ADDR (word_of_nat t)) (word_of_nat n)"

text \<open>The kernel routines are the process routines on \<^verbatim>\<open>v_bit_map\<close>, with the flag restored.\<close>

lemma alloc_kpage_eq:
  "alloc_kpage n s = rbind (alloc_page n (v_bit_map s)) (\<lambda>(r, m). Inr (r, s\<lparr>v_bit_map := m\<rparr>))"
  by (simp add: alloc_kpage_def alloc_page_def get_IF_def set_IF_def Let_def rbind_assoc rbind_def
      split: sum.splits)

lemma free_kpage_eq:
  "free_kpage a n s = rbind (free_page a n (v_bit_map s)) (\<lambda>m. Inr (s\<lparr>v_bit_map := m\<rparr>))"
  by (simp add: free_kpage_def free_page_def get_IF_def set_IF_def Let_def rbind_def split: sum.splits)

interpretation upages: page_pool upage_alloc upage_free pages_used vmap_wf "2 ^ 20"
proof
  fix m n assume a: "vmap_wf m" "0 < n" "n < (2 :: nat) ^ 20"
  from alloc_page_spec [OF a] obtain r m' where "alloc_page (word_of_nat n) m = Inr (r, m')" "vmap_wf m'"
      "case page_of r of None \<Rightarrow> m' = m
       | Some t \<Rightarrow> {t..<t + n} \<inter> pages_used m = {} \<and> pages_used m' = pages_used m \<union> {t..<t + n}" by blast
  then show "\<exists>r m'. upage_alloc n m = Inr (r, m') \<and> vmap_wf m' \<and>
      (case r of None \<Rightarrow> pages_used m' = pages_used m
       | Some t \<Rightarrow> {t..<t + n} \<inter> pages_used m = {} \<and> pages_used m' = pages_used m \<union> {t..<t + n})"
    by (intro exI [of _ "page_of r"] exI [of _ m']) (simp add: upage_alloc_def split: option.splits)
next
  fix m n t assume "vmap_wf m" "n < (2 :: nat) ^ 20" "{t..<t + n} \<subseteq> pages_used m"
  then show "\<exists>m'. upage_free t n m = Inr m' \<and> vmap_wf m' \<and> pages_used m' = pages_used m - {t..<t + n}"
    by (simp add: upage_free_def free_page_spec)
qed

interpretation kpages: page_pool kpage_alloc kpage_free
    "\<lambda>s. pages_used (v_bit_map s)" "\<lambda>s. vmap_wf (v_bit_map s)" "2 ^ 20"
proof
  fix s :: "'a kmem_scheme" and n assume a: "vmap_wf (v_bit_map s)" "0 < n" "n < (2 :: nat) ^ 20"
  let ?m = "v_bit_map s"
  from alloc_page_spec [OF a] obtain r m' where "alloc_page (word_of_nat n) ?m = Inr (r, m')" "vmap_wf m'"
      "case page_of r of None \<Rightarrow> m' = ?m
       | Some t \<Rightarrow> {t..<t + n} \<inter> pages_used ?m = {} \<and> pages_used m' = pages_used ?m \<union> {t..<t + n}" by blast
  then show "\<exists>r s'. kpage_alloc n s = Inr (r, s') \<and> vmap_wf (v_bit_map s') \<and>
      (case r of None \<Rightarrow> pages_used (v_bit_map s') = pages_used (v_bit_map s)
       | Some t \<Rightarrow> {t..<t + n} \<inter> pages_used (v_bit_map s) = {} \<and>
           pages_used (v_bit_map s') = pages_used (v_bit_map s) \<union> {t..<t + n})"
    by (intro exI [of _ "page_of r"] exI [of _ "s\<lparr>v_bit_map := m'\<rparr>"])
      (simp add: kpage_alloc_def alloc_kpage_eq split: option.splits)
next
  fix s :: "'a kmem_scheme" and n t
  assume a: "vmap_wf (v_bit_map s)" "n < (2 :: nat) ^ 20" "{t..<t + n} \<subseteq> pages_used (v_bit_map s)"
  from free_page_spec [OF a] show "\<exists>s'. kpage_free t n s = Inr s' \<and> vmap_wf (v_bit_map s') \<and>
      pages_used (v_bit_map s') = pages_used (v_bit_map s) - {t..<t + n}"
    by (auto simp: kpage_free_def free_kpage_eq)
qed

section \<open>Properties\<close>

text \<open>
  C10: Any sequence of \<^verbatim>\<open>alloc_kpage\<close> calls returns without failing, the page ranges handed
  out are pairwise disjoint and disjoint from the pages in use before, and exactly these
  pages become used.
\<close>

theorem alloc_kpage_disjoint:
  fixes s :: "'a kmem_scheme"
  assumes "vmap_wf (v_bit_map s)" "\<forall>n \<in> set ns. 0 < n \<and> n < 2 ^ 20"
  shows "\<exists>rs s'. alloc_all kpage_alloc ns s = Inr (rs, s') \<and>
     pages_used (v_bit_map s') = pages_used (v_bit_map s) \<union> \<Union> (set rs) \<and>
     (\<forall>r \<in> set rs. r \<inter> pages_used (v_bit_map s) = {}) \<and> sorted_wrt (\<lambda>a b. a \<inter> b = {}) rs"
  using kpages.alloc_all_disjoint [OF assms] by auto

text \<open>
  C27: \<^verbatim>\<open>free_kpage\<close> of what \<^verbatim>\<open>alloc_kpage\<close> returned gives back exactly the pages that were
  in use before, and leaves the interrupt flag as it was; freeing the block a second time
  panics.
\<close>

theorem alloc_free_kpage:
  fixes s :: "'a kmem_scheme"
  assumes "vmap_wf (v_bit_map s)" "0 < n" "n < 2 ^ 20" "kpage_alloc n s = Inr (Some t, s')"
  shows "\<exists>s''. kpage_free t n s' = Inr s'' \<and> iflag s'' = iflag s \<and>
     pages_used (v_bit_map s'') = pages_used (v_bit_map s) \<and> kpage_free t n s'' = Inl Panic"
proof -
  let ?m = "v_bit_map s'"
  from kpages.alloc_law [OF assms(1-3)] assms(4) have wf': "vmap_wf ?m"
    and t: "{t..<t + n} \<subseteq> pages_used ?m" by auto
  from kpages.alloc_release [OF assms] obtain s'' where
    s'': "kpage_free t n s' = Inr s''" "vmap_wf (v_bit_map s'')"
      "pages_used (v_bit_map s'') = pages_used (v_bit_map s)" by auto
  obtain m'' where m'': "free_page (PAGE_ADDR (word_of_nat t)) (word_of_nat n) ?m = Inr m''"
      "pages_used m'' = pages_used ?m - {t..<t + n}" "s'' = s'\<lparr>v_bit_map := m''\<rparr>"
    using free_page_spec [OF wf' assms(3) t] s''(1) by (auto simp: kpage_free_def free_kpage_eq)
  have "t \<in> pages_used ?m" using t assms(2) by auto
  moreover have "bm_offset m'' = bm_offset ?m \<and> bm_bits m'' = bm_bits ?m"
    using m''(1) by (simp add: free_page_def clear_pages_frame)
  ultimately have "free_page (PAGE_ADDR (word_of_nat t)) (word_of_nat n) m'' = Inl Panic"
    using s''(2) m''(2,3) assms(2,3) by (intro free_page_unused) (auto simp: pages_used_def)
  then have "kpage_free t n s'' = Inl Panic"
    by (simp add: kpage_free_def free_kpage_eq m''(3))
  moreover have "iflag s'' = iflag s"
    using assms(4) m''(3) by (auto simp: kpage_alloc_def alloc_kpage_eq)
  ultimately show ?thesis using s'' by auto
qed

definition ex_kmem :: kmem where
  "ex_kmem = \<lparr>iflag = True, cr3 = 0x1000,
     v_bit_map = \<lparr>bm_start = [0x03, 0], bm_length = 2, bm_offset = 256\<rparr>\<rparr>"

lemma ex_kmem_wf: "vmap_wf (v_bit_map ex_kmem)"
  by (simp add: ex_kmem_def vmap_wf_def bm_wf_def bm_bits_def)

theorem alloc_kpage_disjoint_witness:
  "\<exists>rs s'. alloc_all kpage_alloc [3, 1] ex_kmem = Inr (rs, s') \<and> sorted_wrt (\<lambda>a b. a \<inter> b = {}) rs"
  using alloc_kpage_disjoint [of ex_kmem "[3, 1]"] ex_kmem_wf by auto

theorem alloc_free_kpage_witness:
  "\<exists>s' s''. kpage_alloc 3 ex_kmem = Inr (Some 258, s') \<and> kpage_free 258 3 s' = Inr s'' \<and>
     kpage_free 258 3 s'' = Inl Panic"
proof -
  have "bitmap_scan (v_bit_map ex_kmem) 3 =
      Inr (258, \<lparr>bm_start = [0x1f, 0], bm_length = 2, bm_offset = 256\<rparr>)"
    by code_simp
  then obtain s' where "kpage_alloc 3 ex_kmem = Inr (Some 258, s')"
    by (auto simp: kpage_alloc_def alloc_kpage_eq alloc_page_def EOF_def page_of_def PAGE_ADDR_def PAGE_IDX_def)
  with alloc_free_kpage [of ex_kmem 3 258 s'] ex_kmem_wf show ?thesis by auto
qed

end
