(* ===== verification/Paging.thy ===== *)
theory Paging
  imports Kernel_Pages
begin

text \<open>
  Physical pages and page tables, the second half of \<^verbatim>\<open>kernel/memory.c\<close> and
  \<^verbatim>\<open>kernel/mmio.c\<close>. Physical memory is an array of frames of 1024 words. The kernel
  reaches the page tables through the recursive entry 1023 of the page directory; the
  model does the same: every access to a page table goes through the two-level walk of
  the processor, and that it arrives at the right table is proved, not assumed. An access
  to an unmapped page outside user space ends in the endless loop of \<^verbatim>\<open>page_fault\<close>.
\<close>

section \<open>Page table entries\<close>

definition pe_present :: "u32 \<Rightarrow> bool" where "pe_present e = bit e 0"
definition pe_write :: "u32 \<Rightarrow> bool" where "pe_write e = bit e 1"
definition pe_index :: "u32 \<Rightarrow> u32" where "pe_index e = drop_bit 12 e"

definition set_present :: "bool \<Rightarrow> u32 \<Rightarrow> u32" where
  "set_present b e = (if b then set_bit 0 e else unset_bit 0 e)"

definition set_write :: "bool \<Rightarrow> u32 \<Rightarrow> u32" where
  "set_write b e = (if b then set_bit 1 e else unset_bit 1 e)"

text \<open>The whole entry is overwritten; the 20-bit field keeps the low bits of the index.\<close>

definition entry_init :: "u32 \<Rightarrow> u32" where
  "entry_init pg_idx = (1 OR 2 OR 4) OR push_bit 12 pg_idx"

lemma entry_init_fields [simp]:
  "pe_present (entry_init i)" "pe_write (entry_init i)"
  "unat i < 2 ^ 20 \<Longrightarrow> pe_index (entry_init i) = i"
proof -
  show "pe_present (entry_init i)" "pe_write (entry_init i)"
    by (simp_all add: pe_present_def pe_write_def entry_init_def bit_or_iff bit_simps)
  assume "unat i < 2 ^ 20"
  then have "drop_bit 12 (push_bit 12 i) = i"
    using page_idx_addr by (simp add: PAGE_IDX_def PAGE_ADDR_def)
  then show "pe_index (entry_init i) = i"
    by (simp add: pe_index_def entry_init_def drop_bit_or)
qed

lemma set_fields [simp]:
  "pe_present (set_present b e) = b" "pe_write (set_write b e) = b"
  "pe_present (set_write b e) = pe_present e" "pe_write (set_present b e) = pe_write e"
  "pe_index (set_present b e) = pe_index e" "pe_index (set_write b e) = pe_index e"
proof -
  show "pe_present (set_present b e) = b" "pe_write (set_write b e) = b"
    "pe_present (set_write b e) = pe_present e" "pe_write (set_present b e) = pe_write e"
    by (simp_all add: pe_present_def pe_write_def set_present_def set_write_def bit_set_bit_iff
        bit_unset_bit_iff)
  show "pe_index (set_present b e) = pe_index e" "pe_index (set_write b e) = pe_index e"
    by (rule bit_word_eqI; simp add: pe_index_def set_present_def set_write_def bit_set_bit_iff
        bit_unset_bit_iff bit_drop_bit_eq)+
qed

section \<open>State\<close>

record pmem = kmem +
  phys :: "nat \<Rightarrow> nat \<Rightarrow> u32"
  p_bit_map :: "u8 list"
  total_pages :: u32
  free_pages :: u32
  start_available_p_page_idx :: u32
  start_io_memory :: u32

definition PTE_L_ADDR :: "u32 \<Rightarrow> u32" where
  "PTE_L_ADDR vaddr = 0xffc00000 OR (drop_bit 10 vaddr AND 0xfffff000)"

definition PDE_L_ADDR :: u32 where
  "PDE_L_ADDR = 0xfffff000"

lemma recursive_addresses:
  "DIDX PDE_L_ADDR = 1023" "TIDX PDE_L_ADDR = 1023"
  "DIDX (PTE_L_ADDR v) = 1023" "TIDX (PTE_L_ADDR v) = DIDX v"
proof -
  have masks: "0xffc00000 = (NOT (mask 22) :: u32)" "0xfffff000 = (NOT (mask 12) :: u32)"
    "0x3ff = (mask 10 :: u32)" "1023 = (mask 10 :: u32)"
    by (simp_all add: mask_eq_decr_exp)
  show "DIDX PDE_L_ADDR = 1023" "TIDX PDE_L_ADDR = 1023"
    by (simp_all add: DIDX_def TIDX_def PDE_L_ADDR_def)
  show "DIDX (PTE_L_ADDR v) = 1023"
    unfolding DIDX_def PTE_L_ADDR_def masks by (rule bit_word_eqI) (auto simp: bit_simps)
  show "TIDX (PTE_L_ADDR v) = DIDX v"
    unfolding DIDX_def TIDX_def PTE_L_ADDR_def masks
    by (rule bit_word_eqI) (auto simp: bit_simps dest: bit_imp_le_length)
qed

section \<open>Physical pages\<close>

text \<open>
  The search loop of \<^verbatim>\<open>get_p_page\<close>. When no page is free although \<^verbatim>\<open>free_pages\<close> is not
  zero, control reaches the end of the function without a return value.
\<close>

function get_p_page_loop :: "u32 \<Rightarrow> 'a pmem_scheme \<Rightarrow> (u32 \<times> 'a pmem_scheme) res" where
  "get_p_page_loop i s =
     (if i < total_pages s then
        if free_pages s = 0 then Inl Panic
        else rbind (arr_get (p_bit_map s) (unat i)) (\<lambda>c.
          if c \<noteq> 0 then get_p_page_loop (i + 1) s
          else Inr (PAGE_ADDR i, s\<lparr>p_bit_map := (p_bit_map s)[unat i := 1],
                                   free_pages := free_pages s - 1\<rparr>))
      else Inl Fault)"
  by pat_completeness auto
termination
proof (relation "measure (\<lambda>(i, s). unat (total_pages s) - unat i)", goal_cases)
  case (2 i s x)
  then show ?case using unat_plus_one [of i "total_pages s"] by (simp add: word_less_nat_alt)
qed simp

declare get_p_page_loop.simps [simp del]

definition get_p_page :: "'a pmem_scheme \<Rightarrow> (u32 \<times> 'a pmem_scheme) res" where
  "get_p_page s =
     (let (state, s) = get_and_disable_IF s in
      rbind (get_p_page_loop (start_available_p_page_idx s) s) (\<lambda>(r, s).
      Inr (r, set_IF state s)))"

definition free_p_page :: "u32 \<Rightarrow> 'a pmem_scheme \<Rightarrow> 'a pmem_scheme res" where
  "free_p_page idx s =
     rbind (ensure (idx \<ge> start_available_p_page_idx s \<and> idx < total_pages s) Assert) (\<lambda>_.
     rbind (arr_get (p_bit_map s) (unat idx)) (\<lambda>c.
     rbind (ensure (c \<ge> 1) Assert) (\<lambda>_.
     let (state, s) = get_and_disable_IF s;
         s = s\<lparr>p_bit_map := (p_bit_map s)[unat idx := c - 1]\<rparr>;
         s = (if c - 1 = 0 then s\<lparr>free_pages := free_pages s + 1\<rparr> else s);
         s = set_IF state s in
     rbind (ensure (free_pages s > 0 \<and> free_pages s < total_pages s) Assert) (\<lambda>_. Inr s))))"

section \<open>Linear accesses\<close>

definition walk :: "'a pmem_scheme \<Rightarrow> u32 \<Rightarrow> nat option" where
  "walk s va =
     (let pde = phys s (unat (PAGE_IDX (cr3 s))) (unat (DIDX va)) in
      if \<not> pe_present pde then None
      else let pte = phys s (unat (pe_index pde)) (unat (TIDX va)) in
        if pe_present pte then Some (unat (pe_index pte)) else None)"

text \<open>Word \<open>i\<close> of the page at linear address \<open>page\<close>, and operations on the whole page.\<close>

definition lin_frame :: "'a pmem_scheme \<Rightarrow> u32 \<Rightarrow> nat res" where
  "lin_frame s page = (case walk s page of None \<Rightarrow> Inl Hang | Some f \<Rightarrow> Inr f)"

definition lin_read :: "'a pmem_scheme \<Rightarrow> u32 \<Rightarrow> u32 \<Rightarrow> u32 res" where
  "lin_read s page i = rbind (lin_frame s page) (\<lambda>f. Inr (phys s f (unat i)))"

definition set_frame :: "nat \<Rightarrow> (nat \<Rightarrow> u32) \<Rightarrow> 'a pmem_scheme \<Rightarrow> 'a pmem_scheme" where
  "set_frame f c s = s\<lparr>phys := (phys s)(f := c)\<rparr>"

definition lin_write :: "u32 \<Rightarrow> u32 \<Rightarrow> u32 \<Rightarrow> 'a pmem_scheme \<Rightarrow> 'a pmem_scheme res" where
  "lin_write page i w s =
     rbind (lin_frame s page) (\<lambda>f. Inr (set_frame f ((phys s f)(unat i := w)) s))"

definition lin_clear :: "u32 \<Rightarrow> 'a pmem_scheme \<Rightarrow> 'a pmem_scheme res" where
  "lin_clear page s = rbind (lin_frame s page) (\<lambda>f. Inr (set_frame f (\<lambda>_. 0) s))"

definition lin_copy :: "u32 \<Rightarrow> u32 \<Rightarrow> 'a pmem_scheme \<Rightarrow> 'a pmem_scheme res" where
  "lin_copy dest src s =
     rbind (lin_frame s dest) (\<lambda>d. rbind (lin_frame s src) (\<lambda>f.
     Inr (set_frame d (phys s f) s)))"

section \<open>Page tables\<close>

definition get_pte :: "u32 \<Rightarrow> bool \<Rightarrow> 'a pmem_scheme \<Rightarrow> (u32 \<times> 'a pmem_scheme) res" where
  "get_pte vaddr exist s =
     rbind (lin_read s PDE_L_ADDR (DIDX vaddr)) (\<lambda>pte_entry.
     if pe_present pte_entry then Inr (PTE_L_ADDR vaddr, s)
     else
       rbind (ensure (exist = False) Assert) (\<lambda>_.
       rbind (get_p_page s) (\<lambda>(p, s).
       rbind (lin_write PDE_L_ADDR (DIDX vaddr) (entry_init (PAGE_IDX p)) s) (\<lambda>s.
       rbind (lin_clear (PTE_L_ADDR vaddr) s) (\<lambda>s.
       Inr (PTE_L_ADDR vaddr, s))))))"

text \<open>\<open>vmap\<close> is the virtual memory bitmap of the current task.\<close>

definition link_page :: "u32 \<Rightarrow> bitmap_t \<Rightarrow> 'a pmem_scheme \<Rightarrow> 'a pmem_scheme res" where
  "link_page vaddr vmap s =
     rbind (get_pte vaddr False s) (\<lambda>(pte, s).
     rbind (bitmap_test vmap (PAGE_IDX vaddr)) (\<lambda>b.
     rbind (ensure b Assert) (\<lambda>_.
     rbind (lin_read s pte (TIDX vaddr)) (\<lambda>entry.
     if pe_present entry then Inr s
     else
       rbind (get_p_page s) (\<lambda>(paddr, s).
       lin_write pte (TIDX vaddr) (entry_init (PAGE_IDX paddr)) s)))))"

definition unlink_page :: "u32 \<Rightarrow> 'a pmem_scheme \<Rightarrow> 'a pmem_scheme res" where
  "unlink_page vaddr s =
     rbind (get_pte vaddr True s) (\<lambda>(pte, s).
     rbind (lin_read s pte (TIDX vaddr)) (\<lambda>entry.
     rbind (ensure (pe_present entry) Assert) (\<lambda>_.
     rbind (lin_write pte (TIDX vaddr) (set_present False entry) s) (\<lambda>s.
     free_p_page (pe_index entry) s))))"

text \<open>The page is copied through a temporary mapping of linear page 0.\<close>

definition copy_phy_page :: "u32 \<Rightarrow> 'a pmem_scheme \<Rightarrow> (u32 \<times> 'a pmem_scheme) res" where
  "copy_phy_page page s =
     rbind (ensure (page AND 0xfff = 0) Assert) (\<lambda>_.
     rbind (get_p_page s) (\<lambda>(paddr, s).
     rbind (lin_write (PTE_L_ADDR 0) 0 (entry_init (PAGE_IDX paddr)) s) (\<lambda>s.
     rbind (lin_copy 0 page s) (\<lambda>s.
     rbind (lin_read s (PTE_L_ADDR 0) 0) (\<lambda>entry.
     rbind (lin_write (PTE_L_ADDR 0) 0 (set_present False entry) s) (\<lambda>s.
     Inr (paddr, s)))))))"

definition set_index :: "u32 \<Rightarrow> u32 \<Rightarrow> u32" where
  "set_index i e = (e AND 0xfff) OR push_bit 12 i"

text \<open>
  The body of the inner loop of \<^verbatim>\<open>copy_pde\<close>. Its assertion \<^verbatim>\<open>0 < n < 255\<close> compares the
  truth value of the first comparison with 255 and holds always; the reference count is
  a byte and wraps.
\<close>

definition share_entry :: "u32 \<Rightarrow> u32 \<Rightarrow> 'a pmem_scheme \<Rightarrow> 'a pmem_scheme res" where
  "share_entry pte tidx s =
     rbind (lin_read s pte tidx) (\<lambda>entry.
     if \<not> pe_present entry then Inr s
     else
       rbind (lin_write pte tidx (set_write False entry) s) (\<lambda>s.
       rbind (arr_get (p_bit_map s) (unat (pe_index entry))) (\<lambda>c.
       Inr (s\<lparr>p_bit_map := (p_bit_map s)[unat (pe_index entry) := c + 1]\<rparr>))))"

definition table_addr :: "nat \<Rightarrow> u32" where
  "table_addr didx = 0xffc00000 OR push_bit 12 (word_of_nat didx)"

definition copy_table :: "u32 \<Rightarrow> nat \<Rightarrow> 'a pmem_scheme \<Rightarrow> 'a pmem_scheme res" where
  "copy_table pde didx s =
     rbind (lin_read s pde (word_of_nat didx)) (\<lambda>dentry.
     if \<not> pe_present dentry then Inr s
     else
       let pte = table_addr didx in
       rbind (for_each (\<lambda>tidx. share_entry pte (word_of_nat tidx)) [0..<1024] s) (\<lambda>s.
       rbind (copy_phy_page pte s) (\<lambda>(paddr, s).
       rbind (lin_read s pde (word_of_nat didx)) (\<lambda>dentry.
       lin_write pde (word_of_nat didx) (set_index (PAGE_IDX paddr) dentry) s))))"

text \<open>\<open>KERNEL_MEMERY_SIZE / 0x400000\<close> is 5, the first directory entry of user space.\<close>

definition copy_pde :: "u32 \<Rightarrow> 'a pmem_scheme \<Rightarrow> (u32 \<times> 'a pmem_scheme) res" where
  "copy_pde task_pde s =
     rbind (alloc_kpage 1 s) (\<lambda>(pde, s).
     rbind (lin_copy pde task_pde s) (\<lambda>s.
     rbind (lin_write pde 1023 (entry_init (PAGE_IDX pde)) s) (\<lambda>s.
     rbind (for_each (copy_table pde) [unat (KERNEL_MEMERY_SIZE div 0x400000)..<1023] s) (\<lambda>s.
     Inr (pde, s\<lparr>cr3 := task_pde\<rparr>)))))"

definition free_entry :: "u32 \<Rightarrow> u32 \<Rightarrow> 'a pmem_scheme \<Rightarrow> 'a pmem_scheme res" where
  "free_entry pte tidx s =
     rbind (lin_read s pte tidx) (\<lambda>entry.
     if \<not> pe_present entry then Inr s
     else
       rbind (arr_get (p_bit_map s) (unat (pe_index entry))) (\<lambda>c.
       rbind (ensure (c > 0) Assert) (\<lambda>_.
       free_p_page (pe_index entry) s)))"

definition free_table :: "nat \<Rightarrow> 'a pmem_scheme \<Rightarrow> 'a pmem_scheme res" where
  "free_table didx s =
     rbind (lin_read s PDE_L_ADDR (word_of_nat didx)) (\<lambda>dentry.
     if \<not> pe_present dentry then Inr s
     else
       rbind (for_each (\<lambda>tidx. free_entry (table_addr didx) (word_of_nat tidx)) [0..<1024] s) (\<lambda>s.
       free_p_page (pe_index dentry) s))"

definition free_pde :: "bool \<Rightarrow> u32 \<Rightarrow> 'a pmem_scheme \<Rightarrow> 'a pmem_scheme res" where
  "free_pde is_kernel task_pde s =
     rbind (ensure (\<not> is_kernel) Assert) (\<lambda>_.
     rbind (for_each free_table [unat (KERNEL_MEMERY_SIZE div 0x400000)..<1023] s) (\<lambda>s.
     free_kpage task_pde 1 s))"

text \<open>
  The shrinking loop of \<^verbatim>\<open>sys_brk\<close>: it counts with \<^verbatim>\<open>tmp_brk\<close> but unlinks the page of
  \<^verbatim>\<open>brk\<close> in every round. The range assertion before it is a chained comparison and
  always holds.
\<close>

partial_function (option) brk_loop ::
    "u32 \<Rightarrow> u32 \<Rightarrow> u32 \<Rightarrow> 'a pmem_scheme \<Rightarrow> 'a pmem_scheme res option" where
  "brk_loop brk tmp_brk old_brk s =
     (if tmp_brk < old_brk then
        (case unlink_page brk s of Inl e \<Rightarrow> Some (Inl e)
         | Inr s \<Rightarrow> brk_loop brk (tmp_brk + PAGE_SIZE) old_brk s)
      else Some (Inr s))"

text \<open>The result is the state and the new \<^verbatim>\<open>brk\<close> of the task.\<close>

definition sys_brk :: "u32 \<Rightarrow> u32 \<Rightarrow> 'a pmem_scheme \<Rightarrow> (u32 \<times> 'a pmem_scheme) res" where
  "sys_brk brk old_brk s =
     (if old_brk > brk then rbind (run (brk_loop brk brk old_brk s)) (\<lambda>s. Inr (brk, s))
      else if PAGE_IDX (brk - old_brk) > free_pages s then Inl Panic
      else Inr (brk, s))"

section \<open>Page faults\<close>

text \<open>The write to a page that is present: the last owner gets it back, another one a copy.\<close>

definition write_fault :: "u32 \<Rightarrow> 'a pmem_scheme \<Rightarrow> 'a pmem_scheme res" where
  "write_fault vaddr s =
     rbind (get_pte vaddr True s) (\<lambda>(pte, s).
     rbind (lin_read s pte (TIDX vaddr)) (\<lambda>entry.
     rbind (arr_get (p_bit_map s) (unat (pe_index entry))) (\<lambda>c.
     rbind (ensure (c > 0) Assert) (\<lambda>_.
     if c = 1 then lin_write pte (TIDX vaddr) (set_write True entry) s
     else
       let s = s\<lparr>p_bit_map := (p_bit_map s)[unat (pe_index entry) := c - 1]\<rparr> in
       rbind (copy_phy_page (vaddr AND 0xfffff000) s) (\<lambda>(paddr, s).
       lin_write pte (TIDX vaddr) (entry_init (PAGE_IDX paddr)) s)))))"

definition page_fault :: "u32 \<Rightarrow> bool \<Rightarrow> bool \<Rightarrow> u32 \<Rightarrow> bitmap_t \<Rightarrow> 'a pmem_scheme \<Rightarrow> 'a pmem_scheme res" where
  "page_fault vaddr err_present err_write brk vmap s =
     (if vaddr < 0x1000 then Inl Hang
      else if vaddr < USER_STACK_BOTTOM \<and> vaddr \<ge> USER_STACK_BOTTOM - PAGE_SIZE then Inl Hang
      else if \<not> (vaddr \<ge> KERNEL_MEMERY_SIZE \<and> vaddr < USER_STACK_TOP) then Inl Hang
      else if vaddr \<ge> brk \<and> vaddr < USER_STACK_BOTTOM then Inl Hang
      else if \<not> err_present then link_page vaddr vmap s
      else if err_write then write_fault vaddr s
      else Inl Hang)"

definition store_byte :: "u32 \<Rightarrow> u8 \<Rightarrow> 'a pmem_scheme \<Rightarrow> 'a pmem_scheme res" where
  "store_byte vaddr b s =
     (let off = unat (vaddr AND 0xfff); sh = 8 * (off mod 4) in
      rbind (lin_frame s vaddr) (\<lambda>f.
      let w = phys s f (off div 4) in
      Inr (set_frame f ((phys s f)(off div 4 :=
        (w AND NOT (push_bit sh 0xff)) OR push_bit sh (ucast b))) s)))"

text \<open>A page that is not linked yet is linked by the fault that the store provokes.\<close>

definition get_phy_addr :: "u32 \<Rightarrow> u32 \<Rightarrow> bitmap_t \<Rightarrow> 'a pmem_scheme \<Rightarrow> (u32 \<times> 'a pmem_scheme) res" where
  "get_phy_addr vaddr brk vmap s =
     rbind (get_pte vaddr True s) (\<lambda>(pte, s).
     rbind (lin_read s pte (TIDX vaddr)) (\<lambda>entry.
     rbind (if pe_present entry then Inr s
            else rbind (page_fault vaddr False True brk vmap s) (store_byte vaddr 1)) (\<lambda>s.
     rbind (lin_read s pte (TIDX vaddr)) (\<lambda>entry.
     Inr (PAGE_ADDR (pe_index entry) + (vaddr AND 0xfff), s)))))"

section \<open>Device memory\<close>

definition link_nppage :: "u32 \<Rightarrow> u32 \<Rightarrow> 'a pmem_scheme \<Rightarrow> (u32 \<times> 'a pmem_scheme) res" where
  "link_nppage addr sz s =
     rbind (ensure (start_io_memory s \<ge> IO_MEM_START \<and>
                    start_io_memory s + sz \<le> KERNEL_MEMERY_SIZE) Assert) (\<lambda>_.
     let res = start_io_memory s in
     rbind (get_pte res False s) (\<lambda>(pte, s).
     let entry = TIDX res; pg_num = PAGE_IDX (sz + PAGE_SIZE - 1);
         s = s\<lparr>start_io_memory := start_io_memory s + pg_num * PAGE_SIZE\<rparr> in
     rbind (for_each (\<lambda>i. let k = entry + word_of_nat i in
              lin_write (pte + PAGE_SIZE * (k div 1024)) (k mod 1024)
                (entry_init (PAGE_IDX addr + word_of_nat i))) [0..<unat pg_num] s) (\<lambda>s.
     Inr (res, s))))"

section \<open>Initialisation\<close>

text \<open>
  The memory map: the entries the loader or the boot loader found, as base, length and
  type. The last usable entry that starts at one megabyte is taken, cut to 32 bits.
\<close>

definition pick_region :: "(u64 \<times> u64 \<times> u32) list \<Rightarrow> u32 \<times> u32" where
  "pick_region entries =
     foldl (\<lambda>acc (base, len, ty). if ty = 1 \<and> base = ucast BIOS_MEM_SIZE then (ucast base, ucast len) else acc)
       (0, 0) entries"

definition memory_init :: "(u64 \<times> u64 \<times> u32) list \<Rightarrow> 'a pmem_scheme \<Rightarrow> 'a pmem_scheme res" where
  "memory_init entries s =
     (let (mem_base, mem_size) = pick_region entries;
          s = s\<lparr>start_io_memory := IO_MEM_START\<rparr> in
      if mem_base mod PAGE_SIZE \<noteq> 0 \<or> mem_size mod PAGE_SIZE \<noteq> 0 then Inl Panic
      else if mem_base \<noteq> BIOS_MEM_SIZE then Inl Panic
      else
        let total = PAGE_IDX mem_size + PAGE_IDX BIOS_MEM_SIZE;
            p_map_pages = PAGE_IDX (total + PAGE_SIZE - 1);
            start = PAGE_IDX BIOS_MEM_SIZE + p_map_pages;
            s = s\<lparr>total_pages := total, free_pages := PAGE_IDX mem_size - p_map_pages,
                  start_available_p_page_idx := start,
                  p_bit_map := replicate (unat (p_map_pages * PAGE_SIZE)) 0\<rparr> in
        rbind (for_each (\<lambda>i s. rbind (arr_set (p_bit_map s) i 1) (\<lambda>b. Inr (s\<lparr>p_bit_map := b\<rparr>)))
                 [0..<unat start] s) (\<lambda>s.
        let len = PAGE_IDX (KERNEL_AVA_M - mem_base) div 8 in
        rbind (bitmap_init (replicate (unat len) 0) len (PAGE_IDX mem_base)) (\<lambda>m.
        rbind (alloc_kpage p_map_pages (s\<lparr>v_bit_map := m\<rparr>)) (\<lambda>(_, s). Inr s))))"

text \<open>Frames 2 to 5 hold the four kernel page tables, frame 1 the directory.\<close>

definition map_kernel_page :: "nat \<Rightarrow> nat \<Rightarrow> 'a pmem_scheme \<Rightarrow> 'a pmem_scheme res" where
  "map_kernel_page pte_num tmp_idx s =
     (let idx = 1024 * pte_num + tmp_idx in
      if idx = 0 then Inr s
      else
        let f = pte_num + 2; s = set_frame f ((phys s f)(tmp_idx := entry_init (word_of_nat idx))) s in
        rbind (arr_set (p_bit_map s) idx 1) (\<lambda>b. Inr (s\<lparr>p_bit_map := b\<rparr>)))"

text \<open>One round of the outer loop of \<^verbatim>\<open>page_mode_init\<close>: a page table and its directory entry.\<close>

definition kernel_table :: "nat \<Rightarrow> 'a pmem_scheme \<Rightarrow> 'a pmem_scheme res" where
  "kernel_table pte_num s =
     (let s = set_frame (pte_num + 2) (\<lambda>_. 0) s;
          s = set_frame 1 ((phys s 1)(pte_num := entry_init (word_of_nat (pte_num + 2)))) s in
      for_each (map_kernel_page pte_num) [0..<1024] s)"

definition page_mode_init :: "'a pmem_scheme \<Rightarrow> 'a pmem_scheme res" where
  "page_mode_init s =
     (let s = set_frame 1 (\<lambda>_. 0) s in
      rbind (for_each kernel_table [0..<4] s) (\<lambda>s.
      let s = set_frame 1 ((phys s 1)(1023 := entry_init 1)) s in
      Inr (s\<lparr>cr3 := 0x1000\<rparr>)))"

definition mem_pg_init :: "(u64 \<times> u64 \<times> u32) list \<Rightarrow> 'a pmem_scheme \<Rightarrow> 'a pmem_scheme res" where
  "mem_pg_init entries s = rbind (memory_init entries s) page_mode_init"

end
