(* ===== verification/Paging_Proofs.thy ===== *)
theory Paging_Proofs
  imports Paging
begin

text \<open>
  The page table invariant and what the paging routines do under it: allocation of
  physical pages, linking and unlinking a page, and copy on write.
\<close>

section \<open>Indices\<close>

lemma DIDX_lt [simp]: "unat (DIDX v) < 1024"
proof -
  have "unat v < 2 ^ 32" using unsigned_less [of v] by simp
  then show ?thesis by (simp add: DIDX_def drop_bit_eq_div unat_div less_mult_imp_div_less)
qed

lemma TIDX_lt [simp]: "unat (TIDX v) < 1024"
proof -
  have "0x3ff = (mask 10 :: u32)" by (simp add: mask_eq_decr_exp)
  then have "TIDX v = take_bit 10 (drop_bit 12 v)"
    by (simp only: TIDX_def take_bit_eq_mask)
  then have "TIDX v = drop_bit 12 v mod 1024" by (simp add: take_bit_eq_mod)
  then show ?thesis by (simp add: unat_mod)
qed

lemma same_page: "DIDX u = DIDX v \<Longrightarrow> TIDX u = TIDX v \<Longrightarrow> PAGE_IDX u = PAGE_IDX v"
proof -
  have mask: "0x3ff = (mask 10 :: u32)" by (simp add: mask_eq_decr_exp)
  have "PAGE_IDX w = push_bit 10 (DIDX w) OR TIDX w" for w
    unfolding PAGE_IDX_def DIDX_def TIDX_def mask
    by (rule bit_word_eqI) (auto simp: bit_simps not_less dest: bit_imp_le_length)
  then show "DIDX u = DIDX v \<Longrightarrow> TIDX u = TIDX v \<Longrightarrow> PAGE_IDX u = PAGE_IDX v" by simp
qed

lemma page_same: "PAGE_IDX u = PAGE_IDX v \<Longrightarrow> DIDX u = DIDX v \<and> TIDX u = TIDX v"
proof -
  have "DIDX w = drop_bit 10 (PAGE_IDX w)" "TIDX w = PAGE_IDX w AND 0x3ff" for w
    by (simp_all add: DIDX_def TIDX_def PAGE_IDX_def)
  then show "PAGE_IDX u = PAGE_IDX v \<Longrightarrow> DIDX u = DIDX v \<and> TIDX u = TIDX v" by simp
qed

lemma DIDX_ne: "(DIDX v \<noteq> 1023) = (unat (DIDX v) \<noteq> 1023)"
  by (simp add: word_unat_eq_iff)

lemma DIDX_lt_1023: "DIDX v \<noteq> 1023 \<Longrightarrow> unat (DIDX v) < 1023"
  using DIDX_lt [of v] unfolding DIDX_ne by linarith

section \<open>Free frames\<close>

definition pm_wf :: "'a pmem_scheme \<Rightarrow> bool" where
  "pm_wf s \<longleftrightarrow> unat (total_pages s) \<le> 2 ^ 20 \<and> unat (total_pages s) \<le> length (p_bit_map s)"

definition frame_free :: "'a pmem_scheme \<Rightarrow> nat \<Rightarrow> bool" where
  "frame_free s f \<longleftrightarrow> unat (start_available_p_page_idx s) \<le> f \<and> f < unat (total_pages s) \<and>
     p_bit_map s ! f = 0"

text \<open>The state after frame \<open>f\<close> was handed out.\<close>

definition take_frame :: "nat \<Rightarrow> 'a pmem_scheme \<Rightarrow> 'a pmem_scheme" where
  "take_frame f s = s\<lparr>p_bit_map := (p_bit_map s)[f := 1], free_pages := free_pages s - 1\<rparr>"

lemma get_p_page_loop_spec:
  assumes "unat (total_pages s) \<le> length (p_bit_map s)" "free_pages s \<noteq> 0"
    and "unat i \<le> f" "f < unat (total_pages s)" "p_bit_map s ! f = 0"
    and "\<And>g. unat i \<le> g \<Longrightarrow> g < f \<Longrightarrow> p_bit_map s ! g \<noteq> 0"
  shows "get_p_page_loop i s = Inr (PAGE_ADDR (word_of_nat f), take_frame f s)"
  using assms
proof (induction "f - unat i" arbitrary: i)
  case 0
  then have "unat i = f" by simp
  then have "i = word_of_nat f" by auto
  with 0 \<open>unat i = f\<close> show ?case
    by (subst get_p_page_loop.simps) (simp add: word_less_nat_alt take_frame_def)
next
  case (Suc k)
  then have lt: "unat i < f" by simp
  then have "i < total_pages s" using Suc.prems(4) by (simp add: word_less_nat_alt)
  then have i1: "unat (i + 1) = unat i + 1" by (rule unat_plus_one)
  have "get_p_page_loop (i + 1) s = Inr (PAGE_ADDR (word_of_nat f), take_frame f s)"
    by (rule Suc.hyps(1)) (use Suc.hyps(2) Suc.prems i1 lt in auto)
  moreover have "p_bit_map s ! unat i \<noteq> 0" using Suc.prems(6) [of "unat i"] lt by simp
  ultimately show ?case
    using \<open>i < total_pages s\<close> Suc.prems(1,2,4) lt
    by (subst get_p_page_loop.simps) (simp add: word_less_nat_alt)
qed

lemma get_p_page_loop_least:
  assumes "pm_wf s" "frame_free s g" "free_pages s \<noteq> 0"
  shows "get_p_page_loop (start_available_p_page_idx s) s =
    Inr (PAGE_ADDR (word_of_nat (LEAST f. frame_free s f)), take_frame (LEAST f. frame_free s f) s)"
proof -
  define f where "f = (LEAST f. frame_free s f)"
  have f: "frame_free s f" unfolding f_def using assms(2) by (rule LeastI)
  have nf: "\<not> frame_free s h" if "h < f" for h
    using that unfolding f_def by (rule not_less_Least)
  have "p_bit_map s ! h \<noteq> 0" if "unat (start_available_p_page_idx s) \<le> h" "h < f" for h
    using nf [OF that(2)] f that by (simp add: frame_free_def)
  then show ?thesis
    using f assms(1,3) unfolding f_def [symmetric]
    by (intro get_p_page_loop_spec) (simp_all add: pm_wf_def frame_free_def)
qed

lemma get_p_page_least:
  assumes "pm_wf s" "frame_free s g" "free_pages s \<noteq> 0"
  shows "get_p_page s =
    Inr (PAGE_ADDR (word_of_nat (LEAST f. frame_free s f)), take_frame (LEAST f. frame_free s f) s)"
proof -
  let ?s = "set_IF False s"
  have eq: "pm_wf ?s = pm_wf s" "frame_free ?s = frame_free s" "free_pages ?s = free_pages s"
    by (simp_all add: pm_wf_def frame_free_def set_IF_def fun_eq_iff)
  have "get_p_page_loop (start_available_p_page_idx ?s) ?s =
      Inr (PAGE_ADDR (word_of_nat (LEAST f. frame_free s f)), take_frame (LEAST f. frame_free s f) ?s)"
    using get_p_page_loop_least [of ?s g] assms eq by simp
  then show ?thesis
    by (simp add: get_p_page_def get_and_disable_IF_def get_IF_def set_IF_def take_frame_def)
qed

lemma get_p_page_ex:
  assumes "pm_wf s" "frame_free s g" "free_pages s \<noteq> 0"
  obtains f where "frame_free s f" "get_p_page s = Inr (PAGE_ADDR (word_of_nat f), take_frame f s)"
    "PAGE_IDX (PAGE_ADDR (word_of_nat f)) = word_of_nat f" "unat (word_of_nat f :: u32) = f"
proof -
  let ?f = "LEAST f. frame_free s f"
  have f: "frame_free s ?f" using assms(2) by (rule LeastI)
  then have "?f < 2 ^ 20" using assms(1) by (auto simp: pm_wf_def frame_free_def)
  moreover from this have "unat (word_of_nat ?f :: u32) = ?f" by (simp add: unat_of_nat)
  ultimately show ?thesis
    using that [OF f get_p_page_least [OF assms]] page_idx_addr [of "word_of_nat ?f"] by simp
qed

text \<open>With no page free, the search runs off the end even when \<^verbatim>\<open>free_pages\<close> is positive.\<close>

lemma get_p_page_loop_none:
  assumes "unat (total_pages s) \<le> length (p_bit_map s)" "free_pages s \<noteq> 0"
    and "\<And>g. unat i \<le> g \<Longrightarrow> g < unat (total_pages s) \<Longrightarrow> p_bit_map s ! g \<noteq> 0"
  shows "get_p_page_loop i s = Inl Fault"
  using assms
proof (induction "unat (total_pages s) - unat i" arbitrary: i)
  case 0
  then show ?case by (subst get_p_page_loop.simps) (simp add: word_less_nat_alt)
next
  case (Suc k)
  then have "i < total_pages s" by (simp add: word_less_nat_alt)
  then have i1: "unat (i + 1) = unat i + 1" by (rule unat_plus_one)
  have "get_p_page_loop (i + 1) s = Inl Fault"
    by (rule Suc.hyps(1)) (use Suc i1 in auto)
  with \<open>i < total_pages s\<close> Suc.prems show ?case
    by (subst get_p_page_loop.simps) (simp add: word_less_nat_alt)
qed

lemma frame_free_take: "frame_free (take_frame f s) g \<longleftrightarrow> frame_free s g \<and> g \<noteq> f" if "frame_free s f" "pm_wf s"
  using that by (auto simp: frame_free_def take_frame_def pm_wf_def nth_list_update)

section \<open>The invariant\<close>

definition dirf :: "'a pmem_scheme \<Rightarrow> nat" where
  "dirf s = unat (PAGE_IDX (cr3 s))"

definition pde_of :: "'a pmem_scheme \<Rightarrow> nat \<Rightarrow> u32" where
  "pde_of s d = phys s (dirf s) d"

definition tab :: "'a pmem_scheme \<Rightarrow> nat \<Rightarrow> nat" where
  "tab s d = unat (pe_index (pde_of s d))"

definition self_map :: "'a pmem_scheme \<Rightarrow> bool" where
  "self_map s \<longleftrightarrow> pe_present (pde_of s 1023) \<and> tab s 1023 = dirf s"

text \<open>
  The directory maps itself through its last entry, no frame holding the directory or a
  table is free, no two directory entries share a table, mapped frames are not free, and
  the frames of user pages are neither the directory nor a table.
\<close>

definition pg_inv :: "'a pmem_scheme \<Rightarrow> bool" where
  "pg_inv s \<longleftrightarrow> pm_wf s \<and> self_map s \<and>
     (\<forall>d < 1024. pe_present (pde_of s d) \<longrightarrow> \<not> frame_free s (tab s d)) \<and>
     (\<forall>d < 1024. \<forall>d' < 1024. pe_present (pde_of s d) \<longrightarrow> pe_present (pde_of s d') \<longrightarrow>
        tab s d = tab s d' \<longrightarrow> d = d') \<and>
     (\<forall>v f. DIDX v \<noteq> 1023 \<longrightarrow> walk s v = Some f \<longrightarrow> \<not> frame_free s f) \<and>
     (\<forall>v f d. 5 \<le> DIDX v \<longrightarrow> DIDX v \<noteq> 1023 \<longrightarrow> walk s v = Some f \<longrightarrow> d < 1024 \<longrightarrow>
        pe_present (pde_of s d) \<longrightarrow> tab s d \<noteq> f)"

lemma pg_invD:
  assumes "pg_inv s"
  shows "pm_wf s" "self_map s"
    and "d < 1024 \<Longrightarrow> pe_present (pde_of s d) \<Longrightarrow> \<not> frame_free s (tab s d)"
    and "d < 1024 \<Longrightarrow> d' < 1024 \<Longrightarrow> pe_present (pde_of s d) \<Longrightarrow> pe_present (pde_of s d') \<Longrightarrow>
        tab s d = tab s d' \<Longrightarrow> d = d'"
    and "DIDX v \<noteq> 1023 \<Longrightarrow> walk s v = Some f \<Longrightarrow> \<not> frame_free s f"
    and "5 \<le> DIDX v \<Longrightarrow> DIDX v \<noteq> 1023 \<Longrightarrow> walk s v = Some f \<Longrightarrow> d < 1024 \<Longrightarrow>
        pe_present (pde_of s d) \<Longrightarrow> tab s d \<noteq> f"
  using assms by (auto simp: pg_inv_def)

lemma self_mapD: "self_map s \<Longrightarrow> pe_present (pde_of s 1023)" "self_map s \<Longrightarrow> tab s 1023 = dirf s"
  by (simp_all add: self_map_def)

lemma tab_ne_dir:
  assumes "pg_inv s" "d < 1023" "pe_present (pde_of s d)"
  shows "tab s d \<noteq> dirf s"
  using pg_invD(4) [OF assms(1), of d 1023] self_mapD [OF pg_invD(2) [OF assms(1)]] assms by auto

lemma dir_not_free: "pg_inv s \<Longrightarrow> \<not> frame_free s (dirf s)"
  using pg_invD(3) [of s 1023] self_mapD [OF pg_invD(2), of s] by simp

section \<open>The recursive mapping\<close>

lemma walk_eq: "walk s v = (if pe_present (pde_of s (unat (DIDX v))) then
    (let e = phys s (tab s (unat (DIDX v))) (unat (TIDX v)) in
     if pe_present e then Some (unat (pe_index e)) else None) else None)"
  by (simp add: walk_def pde_of_def tab_def dirf_def Let_def)

lemma walk_same_page: "PAGE_IDX u = PAGE_IDX v \<Longrightarrow> walk s u = walk s v"
  using page_same [of u v] by (simp add: walk_eq)

lemma walk_PDE: "self_map s \<Longrightarrow> walk s PDE_L_ADDR = Some (dirf s)"
  using self_mapD [of s] by (simp add: walk_eq recursive_addresses) (simp add: tab_def pde_of_def)

lemma walk_PTE:
  assumes "self_map s"
  shows "walk s (PTE_L_ADDR v) =
    (if pe_present (pde_of s (unat (DIDX v))) then Some (tab s (unat (DIDX v))) else None)"
  using self_mapD [OF assms] by (simp add: walk_eq recursive_addresses) (simp add: tab_def pde_of_def)

lemma lin_read_pde: "self_map s \<Longrightarrow> lin_read s PDE_L_ADDR i = Inr (pde_of s (unat i))"
  by (simp add: lin_read_def lin_frame_def walk_PDE pde_of_def)

lemma lin_frame_pte:
  "self_map s \<Longrightarrow> pe_present (pde_of s (unat (DIDX v))) \<Longrightarrow> lin_frame s (PTE_L_ADDR v) = Inr (tab s (unat (DIDX v)))"
  by (simp add: lin_frame_def walk_PTE)

lemma get_pte_present:
  "self_map s \<Longrightarrow> pe_present (pde_of s (unat (DIDX v))) \<Longrightarrow> get_pte v ex s = Inr (PTE_L_ADDR v, s)"
  by (simp add: get_pte_def lin_read_pde)

section \<open>Changing one entry, adding one table\<close>

lemma dirf_set_frame [simp]: "dirf (set_frame f c s) = dirf s"
  "p_bit_map (set_frame f c s) = p_bit_map s" "total_pages (set_frame f c s) = total_pages s"
  "start_available_p_page_idx (set_frame f c s) = start_available_p_page_idx s"
  "phys (set_frame f c s) = (phys s)(f := c)" "cr3 (set_frame f c s) = cr3 s"
  "free_pages (set_frame f c s) = free_pages s"
  by (simp_all add: set_frame_def dirf_def)

lemma frame_free_set_frame [simp]: "frame_free (set_frame f c s) = frame_free s" "pm_wf (set_frame f c s) = pm_wf s"
  by (simp_all add: frame_free_def pm_wf_def fun_eq_iff)

lemma take_frame_simps [simp]: "phys (take_frame f s) = phys s" "cr3 (take_frame f s) = cr3 s"
  "dirf (take_frame f s) = dirf s" "pde_of (take_frame f s) = pde_of s" "tab (take_frame f s) = tab s"
  "walk (take_frame f s) = walk s" "self_map (take_frame f s) = self_map s"
  "pm_wf (take_frame f s) = pm_wf s"
  by (simp_all add: take_frame_def dirf_def pde_of_def tab_def walk_def Let_def self_map_def pm_wf_def fun_eq_iff)

lemma pde_set_frame: "f \<noteq> dirf s \<Longrightarrow> pde_of (set_frame f c s) = pde_of s" "f \<noteq> dirf s \<Longrightarrow> tab (set_frame f c s) = tab s"
  "f \<noteq> dirf s \<Longrightarrow> self_map (set_frame f c s) = self_map s"
  by (simp_all add: pde_of_def tab_def fun_eq_iff self_map_def)

lemma walk_set_data:
  assumes "f \<noteq> dirf s" "\<And>d. d < 1024 \<Longrightarrow> pe_present (pde_of s d) \<Longrightarrow> tab s d \<noteq> f"
  shows "walk (set_frame f c s) = walk s"
  using assms by (auto simp: walk_eq pde_set_frame fun_eq_iff)

text \<open>Writing entry \<open>TIDX v\<close> of the table of \<open>v\<close> changes the mapping of the page of \<open>v\<close> only.\<close>

definition set_pte :: "u32 \<Rightarrow> u32 \<Rightarrow> 'a pmem_scheme \<Rightarrow> 'a pmem_scheme" where
  "set_pte v e s = set_frame (tab s (unat (DIDX v)))
     ((phys s (tab s (unat (DIDX v))))(unat (TIDX v) := e)) s"

lemma set_pte_frames:
  assumes "pg_inv s" "DIDX v \<noteq> 1023" "pe_present (pde_of s (unat (DIDX v)))"
  shows "pde_of (set_pte v e s) = pde_of s" "tab (set_pte v e s) = tab s"
    "self_map (set_pte v e s)" "dirf (set_pte v e s) = dirf s"
    "frame_free (set_pte v e s) = frame_free s" "pm_wf (set_pte v e s)"
proof -
  have "unat (DIDX v) < 1023" using assms(2) by (rule DIDX_lt_1023)
  then have "tab s (unat (DIDX v)) \<noteq> dirf s" using tab_ne_dir [OF assms(1) _ assms(3)] by simp
  then show "pde_of (set_pte v e s) = pde_of s" "tab (set_pte v e s) = tab s"
    "self_map (set_pte v e s)" "dirf (set_pte v e s) = dirf s"
    "frame_free (set_pte v e s) = frame_free s" "pm_wf (set_pte v e s)"
    using pg_invD(1,2) [OF assms(1)] by (simp_all add: set_pte_def pde_set_frame)
qed

lemma walk_set_pte:
  assumes "pg_inv s" "DIDX v \<noteq> 1023" "pe_present (pde_of s (unat (DIDX v)))"
  shows "walk (set_pte v e s) v = (if pe_present e then Some (unat (pe_index e)) else None)"
    and "PAGE_IDX u \<noteq> PAGE_IDX v \<Longrightarrow> walk (set_pte v e s) u = walk s u"
proof -
  note fr = set_pte_frames [OF assms, of e]
  show "walk (set_pte v e s) v = (if pe_present e then Some (unat (pe_index e)) else None)"
    using assms(3) by (simp add: walk_eq fr Let_def) (simp add: set_pte_def)
  assume ne: "PAGE_IDX u \<noteq> PAGE_IDX v"
  have "phys (set_pte v e s) (tab s (unat (DIDX u))) (unat (TIDX u)) = phys s (tab s (unat (DIDX u))) (unat (TIDX u))"
    if "pe_present (pde_of s (unat (DIDX u)))"
  proof (cases "tab s (unat (DIDX u)) = tab s (unat (DIDX v))")
    case True
    then have "unat (DIDX u) = unat (DIDX v)" using pg_invD(4) [OF assms(1)] that assms(3) by simp
    then have "unat (TIDX u) \<noteq> unat (TIDX v)" using ne same_page [of u v] by (auto simp: word_unat_eq_iff)
    with True show ?thesis by (simp add: set_pte_def)
  qed (simp add: set_pte_def)
  then show "walk (set_pte v e s) u = walk s u" by (simp add: walk_eq fr Let_def)
qed

lemma lin_write_pte:
  assumes "self_map s" "pe_present (pde_of s (unat (DIDX v)))"
  shows "lin_write (PTE_L_ADDR v) (TIDX v) e s = Inr (set_pte v e s)"
  using lin_frame_pte [OF assms] by (simp add: lin_write_def set_pte_def)

lemma lin_read_pte:
  assumes "self_map s" "pe_present (pde_of s (unat (DIDX v)))"
  shows "lin_read s (PTE_L_ADDR v) (TIDX v) = Inr (phys s (tab s (unat (DIDX v))) (unat (TIDX v)))"
  using lin_frame_pte [OF assms] by (simp add: lin_read_def)

text \<open>An entry may be written when the frame it names is in use and, for user pages, no table.\<close>

lemma set_pte_inv:
  assumes inv: "pg_inv s" and v: "DIDX v \<noteq> 1023" "pe_present (pde_of s (unat (DIDX v)))"
    and e: "pe_present e \<Longrightarrow> \<not> frame_free s (unat (pe_index e))"
    and user: "\<And>d. 5 \<le> DIDX v \<Longrightarrow> pe_present e \<Longrightarrow> d < 1024 \<Longrightarrow> pe_present (pde_of s d) \<Longrightarrow>
        tab s d \<noteq> unat (pe_index e)"
  shows "pg_inv (set_pte v e s)"
proof -
  note fr = set_pte_frames [OF inv v]
  note w = walk_set_pte [OF inv v]
  have old: "walk s u = Some g \<or> DIDX u = DIDX v \<and> pe_present e \<and> g = unat (pe_index e)"
    if "walk (set_pte v e s) u = Some g" for u g
  proof (cases "PAGE_IDX u = PAGE_IDX v")
    case True
    then show ?thesis
      using that w(1) [of e] walk_same_page [OF True, of "set_pte v e s"] page_same [OF True] by (auto split: if_splits)
  next
    case False
    then show ?thesis using that w(2) by simp
  qed
  show ?thesis
    unfolding pg_inv_def fr
  proof (intro conjI allI impI, goal_cases)
    case 1 then show ?case using fr(6) by simp
  next
    case 2 then show ?case by (rule fr(3))
  next
    case (3 d) then show ?case using pg_invD(3) [OF inv] by simp
  next
    case (4 d d') then show ?case using pg_invD(4) [OF inv] by simp
  next
    case (5 u g) then show ?case using pg_invD(5) [OF inv] old e by blast
  next
    case (6 u g d) then show ?case using pg_invD(6) [OF inv] old user by metis
  qed
qed

lemma take_frame_inv: "pg_inv s \<Longrightarrow> frame_free s f \<Longrightarrow> pg_inv (take_frame f s)"
  using frame_free_take [OF _ pg_invD(1), of s f] by (auto simp: pg_inv_def)

text \<open>Mapping a fresh frame, the effect of \<^verbatim>\<open>link_page\<close> on an existing table.\<close>

lemma map_fresh_inv:
  assumes inv: "pg_inv s" and v: "DIDX v \<noteq> 1023" "pe_present (pde_of s (unat (DIDX v)))"
    and f: "frame_free s f" "unat (word_of_nat f :: u32) = f"
  shows "pg_inv (set_pte v (entry_init (word_of_nat f)) (take_frame f s))"
proof -
  have pw: "pm_wf s" by (rule pg_invD(1) [OF inv])
  have "f < 2 ^ 20" using f(1) pw by (auto simp: frame_free_def pm_wf_def)
  then have idx: "unat (pe_index (entry_init (word_of_nat f))) = f" using f(2) by simp
  show ?thesis
  proof (rule set_pte_inv [OF take_frame_inv [OF inv f(1)] v(1)])
    show "tab (take_frame f s) d \<noteq> unat (pe_index (entry_init (word_of_nat f)))"
      if "d < 1024" "pe_present (pde_of (take_frame f s) d)" for d
      using that pg_invD(3) [OF inv, of d] f(1) idx by auto
  qed (use v(2) idx frame_free_take [OF f(1) pw] in auto)
qed

text \<open>A new table on a fresh frame changes no mapping outside the recursive area.\<close>

definition add_table :: "nat \<Rightarrow> nat \<Rightarrow> 'a pmem_scheme \<Rightarrow> 'a pmem_scheme" where
  "add_table d f s = set_frame f (\<lambda>_. 0)
     (set_frame (dirf s) ((phys s (dirf s))(d := entry_init (word_of_nat f))) (take_frame f s))"

lemma add_table_frames:
  assumes inv: "pg_inv s" and d: "d < 1023" and f: "frame_free s f" "unat (word_of_nat f :: u32) = f"
  shows "pde_of (add_table d f s) = (pde_of s)(d := entry_init (word_of_nat f))"
    "tab (add_table d f s) = (tab s)(d := f)" "dirf (add_table d f s) = dirf s"
    "frame_free (add_table d f s) = frame_free (take_frame f s)" "pm_wf (add_table d f s)"
    "phys (add_table d f s) g = (if g = f then (\<lambda>_. 0)
       else if g = dirf s then (phys s g)(d := entry_init (word_of_nat f)) else phys s g)"
proof -
  have ne: "f \<noteq> dirf s" using dir_not_free [OF inv] f(1) by auto
  have pw: "pm_wf s" by (rule pg_invD(1) [OF inv])
  then have lt: "f < 2 ^ 20" using f(1) by (auto simp: frame_free_def pm_wf_def)
  show "pde_of (add_table d f s) = (pde_of s)(d := entry_init (word_of_nat f))"
    using ne by (auto simp: add_table_def pde_of_def fun_eq_iff)
  then show "tab (add_table d f s) = (tab s)(d := f)"
    using f(2) lt by (auto simp: tab_def fun_eq_iff)
  show "dirf (add_table d f s) = dirf s" "pm_wf (add_table d f s)"
    "frame_free (add_table d f s) = frame_free (take_frame f s)"
    "phys (add_table d f s) g = (if g = f then (\<lambda>_. 0)
       else if g = dirf s then (phys s g)(d := entry_init (word_of_nat f)) else phys s g)"
    using pw by (simp_all add: add_table_def)
qed

lemma walk_add_table:
  assumes inv: "pg_inv s" and d: "d < 1023" "\<not> pe_present (pde_of s d)"
    and f: "frame_free s f" "unat (word_of_nat f :: u32) = f" and u: "DIDX u \<noteq> 1023"
  shows "walk (add_table d f s) u = walk s u"
proof (cases "unat (DIDX u) = d")
  case True
  then show ?thesis
    using d(2) add_table_frames(1,2,6) [OF inv d(1) f] by (simp add: walk_eq pe_present_def)
next
  case False
  have "unat (DIDX u) < 1023" using u by (rule DIDX_lt_1023)
  moreover have "tab s (unat (DIDX u)) \<noteq> f" if "pe_present (pde_of s (unat (DIDX u)))"
    using pg_invD(3) [OF inv _ that] f(1) by auto
  ultimately show ?thesis
    using False add_table_frames(1,2,6) [OF inv d(1) f] tab_ne_dir [OF inv]
    by (auto simp: walk_eq Let_def)
qed

lemma add_table_inv:
  assumes inv: "pg_inv s" and d: "d < 1023" "\<not> pe_present (pde_of s d)"
    and f: "frame_free s f" "unat (word_of_nat f :: u32) = f"
  shows "pg_inv (add_table d f s)"
proof -
  note fr = add_table_frames [OF inv d(1) f]
  note ft = frame_free_take [OF f(1) pg_invD(1) [OF inv]]
  note w = walk_add_table [OF inv d f]
  have sm: "self_map (add_table d f s)"
    using pg_invD(2) [OF inv] d(1) by (simp add: self_map_def fr)
  show ?thesis
    unfolding pg_inv_def
  proof (intro conjI allI impI, goal_cases)
    case (3 e) then show ?case using pg_invD(3) [OF inv, of e] by (auto simp: fr ft split: if_splits)
  next
    case (4 e e')
    then show ?case
      using pg_invD(4) [OF inv, of e e'] pg_invD(3) [OF inv] f(1) by (auto simp: fr split: if_splits)
  next
    case (5 u g) then show ?case using pg_invD(5) [OF inv, of u g] w [of u] by (simp add: fr ft)
  next
    case (6 u g e)
    then show ?case
      using pg_invD(5,6) [OF inv, of u g] w [of u] f(1) by (auto simp: fr split: if_splits)
  qed (use sm fr(5) in simp_all)
qed

lemma get_pte_create:
  assumes inv: "pg_inv s" and v: "DIDX v \<noteq> 1023" "\<not> pe_present (pde_of s (unat (DIDX v)))"
    and g: "frame_free s g" "free_pages s \<noteq> 0"
  obtains f where "frame_free s f" "unat (word_of_nat f :: u32) = f"
    "get_pte v False s = Inr (PTE_L_ADDR v, add_table (unat (DIDX v)) f s)"
proof -
  let ?d = "unat (DIDX v)"
  obtain f where f: "frame_free s f" "get_p_page s = Inr (PAGE_ADDR (word_of_nat f), take_frame f s)"
    "PAGE_IDX (PAGE_ADDR (word_of_nat f)) = word_of_nat f" "unat (word_of_nat f :: u32) = f"
    by (rule get_p_page_ex [OF pg_invD(1) [OF inv] g])
  let ?s1 = "set_frame (dirf s) ((phys s (dirf s))(?d := entry_init (word_of_nat f))) (take_frame f s)"
  have d: "?d < 1023" using v(1) by (rule DIDX_lt_1023)
  have lt: "f < 2 ^ 20" using f(1) pg_invD(1) [OF inv] by (auto simp: frame_free_def pm_wf_def)
  have sm: "self_map s" by (rule pg_invD(2) [OF inv])
  have "lin_write PDE_L_ADDR (DIDX v) (entry_init (word_of_nat f)) (take_frame f s) = Inr ?s1"
    using sm by (simp add: lin_write_def lin_frame_def walk_PDE)
  moreover have "self_map ?s1" "pe_present (pde_of ?s1 ?d)" "tab ?s1 ?d = f"
    using sm d f(4) lt by (simp_all add: self_map_def tab_def pde_of_def)
  then have "lin_clear (PTE_L_ADDR v) ?s1 = Inr (add_table ?d f s)"
    by (simp add: lin_clear_def lin_frame_pte add_table_def)
  ultimately have "get_pte v False s = Inr (PTE_L_ADDR v, add_table ?d f s)"
    using sm v(2) f(2,3) by (simp add: get_pte_def lin_read_pde)
  with that f show ?thesis by blast
qed

section \<open>Linking a page\<close>

lemma link_on_table:
  assumes inv: "pg_inv s" and v: "DIDX v \<noteq> 1023" "pe_present (pde_of s (unat (DIDX v)))" "walk s v = None"
    and b: "bitmap_test vmap (PAGE_IDX v) = Inr True" and g: "frame_free s g" "free_pages s \<noteq> 0"
    and gp: "get_pte v False s0 = Inr (PTE_L_ADDR v, s)"
  obtains f where "frame_free s f" "unat (word_of_nat f :: u32) = f"
    "link_page v vmap s0 = Inr (set_pte v (entry_init (word_of_nat f)) (take_frame f s))"
proof -
  obtain f where f: "frame_free s f" "get_p_page s = Inr (PAGE_ADDR (word_of_nat f), take_frame f s)"
    "PAGE_IDX (PAGE_ADDR (word_of_nat f)) = word_of_nat f" "unat (word_of_nat f :: u32) = f"
    by (rule get_p_page_ex [OF pg_invD(1) [OF inv] g])
  have sm: "self_map s" by (rule pg_invD(2) [OF inv])
  have "\<not> pe_present (phys s (tab s (unat (DIDX v))) (unat (TIDX v)))"
    using v(2,3) by (simp add: walk_eq Let_def split: if_splits)
  moreover have "lin_write (PTE_L_ADDR v) (TIDX v) (entry_init (word_of_nat f)) (take_frame f s) =
      Inr (set_pte v (entry_init (word_of_nat f)) (take_frame f s))"
    using sm v(2) by (intro lin_write_pte) simp_all
  ultimately have "link_page v vmap s0 = Inr (set_pte v (entry_init (word_of_nat f)) (take_frame f s))"
    using gp b f(2,3) lin_read_pte [OF sm v(2)] by (simp add: link_page_def)
  with that f show ?thesis by blast
qed

lemma map_fresh_effect:
  assumes inv: "pg_inv s" and v: "DIDX v \<noteq> 1023" "pe_present (pde_of s (unat (DIDX v)))"
    and f: "frame_free s f" "unat (word_of_nat f :: u32) = f"
  defines "s' \<equiv> set_pte v (entry_init (word_of_nat f)) (take_frame f s)"
  shows "walk s' v = Some f" "p_bit_map s' ! f = 1"
    and "PAGE_IDX u \<noteq> PAGE_IDX v \<Longrightarrow> walk s' u = walk s u"
proof -
  have pw: "pm_wf s" by (rule pg_invD(1) [OF inv])
  have lt: "f < 2 ^ 20" using f(1) pw by (auto simp: frame_free_def pm_wf_def)
  have t: "pg_inv (take_frame f s)" by (rule take_frame_inv [OF inv f(1)])
  note w = walk_set_pte [OF t v(1), simplified, OF v(2)]
  show "walk s' v = Some f" using w(1) f(2) lt by (simp add: s'_def)
  show "p_bit_map s' ! f = 1"
    using f(1) pw by (simp add: s'_def set_pte_def take_frame_def frame_free_def pm_wf_def)
  show "PAGE_IDX u \<noteq> PAGE_IDX v \<Longrightarrow> walk s' u = walk s u" by (simp add: s'_def w(2))
qed

text \<open>
  C11: \<^verbatim>\<open>link_page\<close> on an unmapped page that the task owns succeeds when two frames are
  free: afterwards the processor translates the page to a frame that was free and now has
  reference count one, a missing page table is created on the way, every other page
  outside the recursive area translates as before, and the page table invariant holds.
\<close>

theorem link_page_maps:
  assumes inv: "pg_inv s" and v: "DIDX v \<noteq> 1023" "walk s v = None"
    and b: "bitmap_test vmap (PAGE_IDX v) = Inr True"
    and free: "frame_free s g" "frame_free s h" "g \<noteq> h" "2 \<le> unat (free_pages s)"
  shows "\<exists>s' f. link_page v vmap s = Inr s' \<and> pg_inv s' \<and> walk s' v = Some f \<and> frame_free s f \<and>
     p_bit_map s' ! f = 1 \<and>
     (\<forall>u. DIDX u \<noteq> 1023 \<longrightarrow> PAGE_IDX u \<noteq> PAGE_IDX v \<longrightarrow> walk s' u = walk s u)"
proof (cases "pe_present (pde_of s (unat (DIDX v)))")
  case True
  have "free_pages s \<noteq> 0" using free(4) by auto
  then obtain f where f: "frame_free s f" "unat (word_of_nat f :: u32) = f"
    "link_page v vmap s = Inr (set_pte v (entry_init (word_of_nat f)) (take_frame f s))"
    using link_on_table [OF inv v(1) True v(2) b free(1) _ get_pte_present [OF pg_invD(2) [OF inv] True]]
    by blast
  then show ?thesis
    using map_fresh_inv [OF inv v(1) True f(1,2)] map_fresh_effect [OF inv v(1) True f(1,2)] by blast
next
  case False
  let ?d = "unat (DIDX v)"
  have d: "?d < 1023" using v(1) by (rule DIDX_lt_1023)
  have fp: "free_pages s \<noteq> 0" using free(4) by auto
  obtain t where t: "frame_free s t" "unat (word_of_nat t :: u32) = t"
    "get_pte v False s = Inr (PTE_L_ADDR v, add_table ?d t s)"
    by (rule get_pte_create [OF inv v(1) False free(1) fp])
  define s1 where "s1 = add_table ?d t s"
  note fr = add_table_frames [OF inv d t(1,2), folded s1_def]
  have inv1: "pg_inv s1" unfolding s1_def by (rule add_table_inv [OF inv d False t(1,2)])
  have w1: "walk s1 u = walk s u" if "DIDX u \<noteq> 1023" for u
    unfolding s1_def by (rule walk_add_table [OF inv d False t(1,2) that])
  have ff: "frame_free s1 e \<longleftrightarrow> frame_free s e \<and> e \<noteq> t" for e
    using frame_free_take [OF t(1) pg_invD(1) [OF inv]] by (simp add: fr)
  then obtain e where "frame_free s1 e" using free(1-3) by metis
  moreover have "free_pages s1 \<noteq> 0"
    using free(4) by (simp add: s1_def add_table_def take_frame_def) (metis One_nat_def
        Suc_1 not_less_eq_eq order_refl unat_1)
  moreover have "pe_present (pde_of s1 ?d)" by (simp add: fr)
  ultimately obtain f where f: "frame_free s1 f" "unat (word_of_nat f :: u32) = f"
    "link_page v vmap s = Inr (set_pte v (entry_init (word_of_nat f)) (take_frame f s1))"
    using link_on_table [OF inv1 v(1) _ _ b _ _ t(3) [folded s1_def]] w1 [OF v(1)] v(2) by metis
  have p: "pe_present (pde_of s1 ?d)" by (simp add: fr)
  show ?thesis
    using map_fresh_inv [OF inv1 v(1) p f(1,2)] map_fresh_effect [OF inv1 v(1) p f(1,2)] f ff w1 by auto
qed

section \<open>Copy on write\<close>

lemma page_base: "PAGE_IDX (v AND 0xfffff000) = PAGE_IDX v" "(v AND 0xfffff000) AND 0xfff = 0"
proof -
  have m: "0xfffff000 = (NOT (mask 12) :: u32)" "0xfff = (mask 12 :: u32)" by (simp_all add: mask_eq_decr_exp)
  show "PAGE_IDX (v AND 0xfffff000) = PAGE_IDX v"
    unfolding PAGE_IDX_def m by (rule bit_word_eqI) (auto simp: bit_simps dest: bit_imp_le_length)
  show "(v AND 0xfffff000) AND 0xfff = 0"
    unfolding m by (rule bit_word_eqI) (auto simp: bit_simps)
qed

lemma zero_idx [simp]: "DIDX 0 = 0" "TIDX 0 = 0" "PAGE_IDX 0 = 0"
  by (simp_all add: DIDX_def TIDX_def PAGE_IDX_def)

lemma user_page_ne: "5 \<le> DIDX v \<Longrightarrow> PAGE_IDX v \<noteq> 0"
  using page_same [of v 0] by fastforce

lemma set_data_inv:
  assumes inv: "pg_inv s" and f: "\<And>d. d < 1024 \<Longrightarrow> pe_present (pde_of s d) \<Longrightarrow> tab s d \<noteq> f"
  shows "pg_inv (set_frame f c s)" "walk (set_frame f c s) = walk s" "pde_of (set_frame f c s) = pde_of s"
    "tab (set_frame f c s) = tab s"
proof -
  have ne: "f \<noteq> dirf s" using f [of 1023] self_mapD [OF pg_invD(2) [OF inv]] by auto
  show w: "walk (set_frame f c s) = walk s" by (rule walk_set_data [OF ne f])
  show "pde_of (set_frame f c s) = pde_of s" "tab (set_frame f c s) = tab s"
    using ne by (simp_all add: pde_set_frame)
  then show "pg_inv (set_frame f c s)" using inv ne w by (simp add: pg_inv_def pde_set_frame)
qed

text \<open>
  \<^verbatim>\<open>copy_phy_page\<close>: a fresh frame with the contents of the page; linear page 0 is left
  unmapped and nothing else changes.
\<close>

lemma copy_phy_page_spec:
  assumes inv: "pg_inv s" and p0: "pe_present (pde_of s 0)"
    and v: "5 \<le> DIDX v" "DIDX v \<noteq> 1023" "walk s v = Some f"
    and h: "frame_free s h" "free_pages s \<noteq> 0"
  obtains g s' where "copy_phy_page (v AND 0xfffff000) s = Inr (PAGE_ADDR (word_of_nat g), s')"
    "PAGE_IDX (PAGE_ADDR (word_of_nat g)) = word_of_nat g" "unat (word_of_nat g :: u32) = g"
    "frame_free s g" "pg_inv s'" "phys s' g = phys s f" "pde_of s' = pde_of s" "tab s' = tab s"
    "p_bit_map s' = (p_bit_map s)[g := 1]" "frame_free s' = frame_free (take_frame g s)"
    "\<And>u. PAGE_IDX u \<noteq> 0 \<Longrightarrow> walk s' u = walk s u"
    "\<And>a. a \<noteq> g \<Longrightarrow> a \<noteq> tab s 0 \<Longrightarrow> phys s' a = phys s a"
proof -
  obtain g where g: "frame_free s g" "get_p_page s = Inr (PAGE_ADDR (word_of_nat g), take_frame g s)"
    "PAGE_IDX (PAGE_ADDR (word_of_nat g)) = word_of_nat g" "unat (word_of_nat g :: u32) = g"
    by (rule get_p_page_ex [OF pg_invD(1) [OF inv] h])
  have lt: "g < 2 ^ 20" using g(1) pg_invD(1) [OF inv] by (auto simp: frame_free_def pm_wf_def)
  have d0: "DIDX 0 \<noteq> (1023 :: u32)" "pe_present (pde_of s (unat (DIDX 0)))" using p0 by simp_all
  define s3 where "s3 = set_pte 0 (entry_init (word_of_nat g)) (take_frame g s)"
  have inv3: "pg_inv s3" unfolding s3_def by (rule map_fresh_inv [OF inv d0 g(1,4)])
  note e3 = map_fresh_effect [OF inv d0 g(1,4), folded s3_def]
  note fr3 = set_pte_frames [OF take_frame_inv [OF inv g(1)] d0(1), simplified, OF p0,
      of "entry_init (word_of_nat g)", folded s3_def]
  have ng: "tab s3 d \<noteq> g" if "d < 1024" "pe_present (pde_of s3 d)" for d
    using pg_invD(3) [OF inv] g(1) that by (auto simp: fr3)
  have w3: "lin_frame s3 0 = Inr g" "lin_frame s3 (v AND 0xfffff000) = Inr f"
    using e3(1) e3(3) [of v] user_page_ne [OF v(1)] v(3) walk_same_page [OF page_base(1), of s3 v]
    by (simp_all add: lin_frame_def)
  have ff: "f \<noteq> tab s 0" using pg_invD(6) [OF inv v, of 0] p0 by auto
  define s4 where "s4 = set_frame g (phys s3 f) s3"
  have d4: "pg_inv s4" "walk s4 = walk s3" "pde_of s4 = pde_of s3" "tab s4 = tab s3"
    using set_data_inv [of s3 g "phys s3 f"] inv3 ng by (simp_all add: s4_def)
  have p4: "pe_present (pde_of s4 (unat (DIDX 0)))" using p0 by (simp add: d4 fr3)
  define e4 where "e4 = phys s4 (tab s 0) 0"
  define s5 where "s5 = set_pte 0 (set_present False e4) s4"
  note fr5 = set_pte_frames [OF d4(1) d0(1) p4, of "set_present False e4", folded s5_def]
  have inv5: "pg_inv s5" unfolding s5_def by (rule set_pte_inv [OF d4(1) d0(1) p4]) simp_all
  have r4: "lin_read s4 (PTE_L_ADDR 0) 0 = Inr e4"
    using lin_read_pte [OF pg_invD(2) [OF d4(1)] p4] by (simp add: e4_def d4 fr3)
  have l5: "lin_write (PTE_L_ADDR 0) 0 (set_present False e4) s4 = Inr s5"
    using lin_write_pte [OF pg_invD(2) [OF d4(1)] p4] by (simp add: s5_def)
  have l3: "lin_write (PTE_L_ADDR 0) 0 (entry_init (word_of_nat g)) (take_frame g s) = Inr s3"
    using lin_write_pte [of "take_frame g s" 0] pg_invD(2) [OF inv] p0 by (simp add: s3_def)
  have run: "copy_phy_page (v AND 0xfffff000) s = Inr (PAGE_ADDR (word_of_nat g), s5)"
    using g(2,3) l3 w3 r4 l5
    by (simp add: copy_phy_page_def page_base(2) lin_copy_def s4_def [symmetric])
  have gt: "g \<noteq> tab s 0" using ng [of 0] p0 by (auto simp: fr3)
  have ph: "phys s5 a = (if a = g then phys s f else phys s a)" if "a \<noteq> tab s 0" for a
    using that ff gt by (simp add: s5_def set_pte_def d4 fr3) (simp add: s4_def s3_def set_pte_def)
  have "p_bit_map s5 = (p_bit_map s)[g := 1]" "frame_free s5 = frame_free (take_frame g s)"
    using fr5(5) fr3(5) by (simp_all add: s5_def set_pte_def s4_def s3_def take_frame_def)
  moreover have "walk s5 u = walk s u" if "PAGE_IDX u \<noteq> 0" for u
    using walk_set_pte(2) [OF d4(1) d0(1) p4, of u "set_present False e4"] e3(3) [of u] that
    by (simp add: s5_def d4(2))
  ultimately show ?thesis
    using that [OF run g(3,4,1) inv5] ph gt fr5 d4 fr3 by auto
qed

lemma dec_ref:
  assumes inv: "pg_inv s" and f: "1 < p_bit_map s ! f" "f < length (p_bit_map s)"
  defines "s' \<equiv> s\<lparr>p_bit_map := (p_bit_map s)[f := p_bit_map s ! f - 1]\<rparr>"
  shows "pg_inv s'" "frame_free s' = frame_free s" "walk s' = walk s" "pde_of s' = pde_of s"
    "tab s' = tab s" "phys s' = phys s" "free_pages s' = free_pages s"
proof -
  have ne: "p_bit_map s ! f - 1 \<noteq> 0" "p_bit_map s ! f \<noteq> 0" using f(1) by auto
  show ff: "frame_free s' = frame_free s"
    using ne f(2) by (auto simp: frame_free_def s'_def fun_eq_iff nth_list_update)
  show eq: "walk s' = walk s" "pde_of s' = pde_of s" "tab s' = tab s" "phys s' = phys s"
    "free_pages s' = free_pages s"
    by (simp_all add: s'_def walk_def Let_def pde_of_def tab_def dirf_def fun_eq_iff)
  have "dirf s' = dirf s" "pm_wf s' = pm_wf s" by (simp_all add: s'_def dirf_def pm_wf_def)
  with inv ff eq show "pg_inv s'" by (simp add: pg_inv_def self_map_def)
qed

text \<open>
  C8: A write to a shared user page, with reference count above one, gives the writer a
  private copy: a frame that was free, with reference count one and the same contents,
  mapped writable at the page; the shared frame keeps its contents and loses one
  reference, and every other page except the scratch page 0 translates as before.
\<close>

theorem write_fault_copies:
  assumes inv: "pg_inv s" and p0: "pe_present (pde_of s 0)"
    and v: "5 \<le> DIDX v" "DIDX v \<noteq> 1023" "walk s v = Some f"
    and c: "1 < p_bit_map s ! f" "f < length (p_bit_map s)"
    and h: "frame_free s h" "free_pages s \<noteq> 0"
  shows "\<exists>s' g. write_fault v s = Inr s' \<and> pg_inv s' \<and> frame_free s g \<and> walk s' v = Some g \<and>
     pe_write (phys s' (tab s (unat (DIDX v))) (unat (TIDX v))) \<and>
     phys s' g = phys s f \<and> phys s' f = phys s f \<and>
     p_bit_map s' ! g = 1 \<and> p_bit_map s' ! f = p_bit_map s ! f - 1 \<and>
     (\<forall>u. PAGE_IDX u \<noteq> PAGE_IDX v \<longrightarrow> PAGE_IDX u \<noteq> 0 \<longrightarrow> walk s' u = walk s u)"
proof -
  let ?d = "unat (DIDX v)" and ?t = "unat (TIDX v)"
  define s1 where "s1 = s\<lparr>p_bit_map := (p_bit_map s)[f := p_bit_map s ! f - 1]\<rparr>"
  note d1 = dec_ref [OF inv c, folded s1_def]
  define e where "e = phys s (tab s ?d) ?t"
  have e: "pe_present (pde_of s ?d)" "pe_present e" "unat (pe_index e) = f"
    using v(3) by (auto simp: walk_eq Let_def e_def split: if_splits)
  obtain g s2 where s2: "copy_phy_page (v AND 0xfffff000) s1 = Inr (PAGE_ADDR (word_of_nat g), s2)"
    "PAGE_IDX (PAGE_ADDR (word_of_nat g)) = word_of_nat g" "unat (word_of_nat g :: u32) = g"
    "frame_free s1 g" "pg_inv s2" "phys s2 g = phys s1 f" "pde_of s2 = pde_of s1" "tab s2 = tab s1"
    "p_bit_map s2 = (p_bit_map s1)[g := 1]" "frame_free s2 = frame_free (take_frame g s1)"
    "\<And>u. PAGE_IDX u \<noteq> 0 \<Longrightarrow> walk s2 u = walk s1 u"
    "\<And>a. a \<noteq> g \<Longrightarrow> a \<noteq> tab s1 0 \<Longrightarrow> phys s2 a = phys s1 a"
    by (rule copy_phy_page_spec [of s1 v f h]) (use d1 p0 v h in simp_all)
  have g: "frame_free s g" "g < 2 ^ 20" "g < length (p_bit_map s)"
    using s2(4) pg_invD(1) [OF inv] by (auto simp: d1 frame_free_def pm_wf_def)
  define s3 where "s3 = set_pte v (entry_init (word_of_nat g)) s2"
  have p2: "pe_present (pde_of s2 ?d)" using e(1) by (simp add: s2(7) d1)
  have ng: "tab s d \<noteq> g" if "d < 1024" "pe_present (pde_of s d)" for d
    using pg_invD(3) [OF inv that] g(1) by auto
  have idx: "unat (pe_index (entry_init (word_of_nat g))) = g" using s2(3) g(2) by simp
  have "pg_inv s3" unfolding s3_def
    by (rule set_pte_inv [OF s2(5) v(2) p2])
      (use idx ng s2(4,10) frame_free_take [OF s2(4) pg_invD(1) [OF d1(1)]] in
        \<open>simp_all add: s2(7,8) d1\<close>)
  moreover have "write_fault v s = Inr s3"
  proof -
    have "get_pte v True s = Inr (PTE_L_ADDR v, s)" "lin_read s (PTE_L_ADDR v) (TIDX v) = Inr e"
      using e(1) pg_invD(2) [OF inv] by (simp_all add: get_pte_present lin_read_pte e_def)
    moreover have "lin_write (PTE_L_ADDR v) (TIDX v) (entry_init (word_of_nat g)) s2 = Inr s3"
      unfolding s3_def by (rule lin_write_pte [OF pg_invD(2) [OF s2(5)] p2])
    moreover have "p_bit_map s ! f > 0" "p_bit_map s ! f \<noteq> 1" using c(1) by (auto simp: word_gt_0)
    ultimately show ?thesis
      using c(2) e(3) s2(1,2) by (simp add: write_fault_def s1_def [symmetric])
  qed
  moreover have "walk s3 v = Some g" "\<And>u. PAGE_IDX u \<noteq> PAGE_IDX v \<Longrightarrow> walk s3 u = walk s2 u"
    using walk_set_pte(1) [OF s2(5) v(2) p2, of "entry_init (word_of_nat g)"] idx
    by (simp_all add: s3_def walk_set_pte(2) [OF s2(5) v(2) p2])
  moreover have ne: "f \<noteq> g" using pg_invD(5) [OF inv v(2,3)] g(1) by auto
  moreover have "tab s ?d \<noteq> f" "tab s 0 \<noteq> f" "tab s ?d \<noteq> g" "tab s 0 \<noteq> g"
    using pg_invD(6) [OF inv v] ng e(1) p0 by auto
  then have "phys s3 g = phys s f" "phys s3 f = phys s f"
    using s2(6,12) ne by (simp_all add: s3_def set_pte_def s2(8) d1)
  moreover have "pe_write (phys s3 (tab s ?d) ?t)"
    by (simp add: s3_def set_pte_def s2(8) d1)
  moreover have "p_bit_map s3 ! g = 1" "p_bit_map s3 ! f = p_bit_map s ! f - 1"
    using g(3) c(2) ne by (simp_all add: s3_def set_pte_def s2(9) s1_def)
  ultimately show ?thesis using g(1) s2(11) d1(3) by auto
qed

text \<open>
  A write to a user page whose frame has a single reference makes the page writable
  in place: the translation stays, no frame is allocated, no reference count changes.
\<close>

theorem write_fault_last_owner:
  assumes inv: "pg_inv s" and v: "DIDX v \<noteq> 1023" "walk s v = Some f"
    and c: "p_bit_map s ! f = 1" "f < length (p_bit_map s)"
  shows "\<exists>s'. write_fault v s = Inr s' \<and> pg_inv s' \<and> walk s' = walk s \<and>
     pe_write (phys s' (tab s (unat (DIDX v))) (unat (TIDX v))) \<and>
     p_bit_map s' = p_bit_map s \<and> free_pages s' = free_pages s"
proof -
  let ?d = "unat (DIDX v)" and ?t = "unat (TIDX v)"
  define e where "e = phys s (tab s ?d) ?t"
  have e: "pe_present (pde_of s ?d)" "pe_present e" "unat (pe_index e) = f"
    using v(2) by (auto simp: walk_eq Let_def e_def split: if_splits)
  define s1 where "s1 = set_pte v (set_write True e) s"
  have "get_pte v True s = Inr (PTE_L_ADDR v, s)" "lin_read s (PTE_L_ADDR v) (TIDX v) = Inr e"
    "lin_write (PTE_L_ADDR v) (TIDX v) (set_write True e) s = Inr s1"
    using e(1) pg_invD(2) [OF inv] by (simp_all add: get_pte_present lin_read_pte lin_write_pte e_def s1_def)
  then have "write_fault v s = Inr s1"
    using c e(3) by (simp add: write_fault_def)
  moreover have "pg_inv s1" unfolding s1_def
    by (rule set_pte_inv [OF inv v(1) e(1)]) (use e pg_invD(5) [OF inv v(1,2)] pg_invD(6) [OF inv _ v(1,2)] in auto)
  moreover have "walk s1 u = walk s u" for u
  proof (cases "PAGE_IDX u = PAGE_IDX v")
    case True
    then show ?thesis
      using walk_set_pte(1) [OF inv v(1) e(1), of "set_write True e"] e v(2)
      by (simp add: s1_def walk_same_page [OF True])
  next
    case False
    then show ?thesis by (simp add: s1_def walk_set_pte(2) [OF inv v(1) e(1)])
  qed
  ultimately show ?thesis
    by (auto simp: s1_def set_pte_def)
qed

section \<open>Unlinking\<close>

lemma unlink_page_spec:
  assumes inv: "pg_inv s" and v: "DIDX v \<noteq> 1023" "walk s v = Some f"
    and f: "unat (start_available_p_page_idx s) \<le> f" "f < unat (total_pages s)" "1 \<le> p_bit_map s ! f"
    and fp: "0 < unat (free_pages s)" "unat (free_pages s) + 1 < unat (total_pages s)"
  obtains s' where "unlink_page v s = Inr s'" "walk s' v = None" "self_map s'"
    "pe_present (pde_of s' (unat (DIDX v)))" "p_bit_map s' = (p_bit_map s)[f := p_bit_map s ! f - 1]"
    "\<And>u. PAGE_IDX u \<noteq> PAGE_IDX v \<Longrightarrow> walk s' u = walk s u"
    "unat (free_pages s') = unat (free_pages s) + (if p_bit_map s ! f = 1 then 1 else 0)"
proof -
  let ?d = "unat (DIDX v)" and ?t = "unat (TIDX v)"
  define e where "e = phys s (tab s ?d) ?t"
  have e: "pe_present (pde_of s ?d)" "pe_present e" "unat (pe_index e) = f"
    using v(2) by (auto simp: walk_eq Let_def e_def split: if_splits)
  define s1 where "s1 = set_pte v (set_present False e) s"
  define s2 where "s2 = (if p_bit_map s ! f - 1 = 0 then s1\<lparr>p_bit_map := (p_bit_map s)[f := p_bit_map s ! f - 1],
      free_pages := free_pages s + 1\<rparr> else s1\<lparr>p_bit_map := (p_bit_map s)[f := p_bit_map s ! f - 1]\<rparr>)"
  have same: "p_bit_map s1 = p_bit_map s" "free_pages s1 = free_pages s" "total_pages s1 = total_pages s"
    "start_available_p_page_idx s1 = start_available_p_page_idx s"
    by (simp_all add: s1_def set_pte_def)
  have len: "f < length (p_bit_map s)" using f(2) pg_invD(1) [OF inv] by (simp add: pm_wf_def)
  have "free_pages s < total_pages s" using fp by (simp add: word_less_nat_alt)
  then have n1: "unat (free_pages s + 1) = unat (free_pages s) + 1" by (rule unat_plus_one)
  have "free_p_page (pe_index e) s1 = Inr s2"
    using f fp len n1 e(3) same
    by (auto simp: free_p_page_def get_and_disable_IF_def get_IF_def set_IF_def s2_def word_less_nat_alt
        word_le_nat_alt Let_def split: if_splits)
  then have run: "unlink_page v s = Inr s2"
    using e pg_invD(2) [OF inv]
    by (simp add: unlink_page_def get_pte_present lin_read_pte lin_write_pte flip: e_def s1_def)
  have w: "walk s2 = walk s1" "self_map s2 = self_map s1" "pde_of s2 = pde_of s1"
    by (simp_all add: s2_def walk_def self_map_def pde_of_def tab_def dirf_def Let_def fun_eq_iff)
  note fr = set_pte_frames [OF inv v(1) e(1), of "set_present False e", folded s1_def]
  have w1: "walk s1 v = None" "\<And>u. PAGE_IDX u \<noteq> PAGE_IDX v \<Longrightarrow> walk s1 u = walk s u"
    using walk_set_pte(1) [OF inv v(1) e(1), of "set_present False e"]
    by (simp_all add: s1_def walk_set_pte(2) [OF inv v(1) e(1)])
  have "(p_bit_map s ! f - 1 = 0) = (p_bit_map s ! f = 1)" by simp
  then have "unat (free_pages s2) = unat (free_pages s) + (if p_bit_map s ! f = 1 then 1 else 0)"
    using n1 by (simp add: s2_def same)
  moreover have "p_bit_map s2 = (p_bit_map s)[f := p_bit_map s ! f - 1]" by (simp add: s2_def)
  ultimately show ?thesis
    using that [OF run] w w1 fr e(1) by simp
qed

lemma unlink_unmapped:
  assumes "self_map s" "pe_present (pde_of s (unat (DIDX v)))" "walk s v = None"
  shows "unlink_page v s = Inl Assert"
  using assms
  by (simp add: unlink_page_def get_pte_present lin_read_pte walk_eq Let_def split: if_splits)

text \<open>
  Shrinking the heap by more than one page with \<^verbatim>\<open>sys_brk\<close> stops the kernel: the loop
  unlinks the page of the new break in every round instead of the page of its loop
  variable, and the second round fails the assertion that the page is present.
\<close>

theorem sys_brk_shrink_asserts:
  assumes inv: "pg_inv s" and v: "DIDX brk \<noteq> 1023" "walk s brk = Some f"
    and f: "unat (start_available_p_page_idx s) \<le> f" "f < unat (total_pages s)" "1 \<le> p_bit_map s ! f"
    and fp: "0 < unat (free_pages s)" "unat (free_pages s) + 1 < unat (total_pages s)"
    and brk: "unat brk + 0x1000 < unat old_brk"
  shows "sys_brk brk old_brk s = Inl Assert"
proof -
  obtain s' where s': "unlink_page brk s = Inr s'" "walk s' brk = None" "self_map s'"
    "pe_present (pde_of s' (unat (DIDX brk)))"
    by (rule unlink_page_spec [OF inv v f fp])
  have "unat old_brk < 2 ^ 32" using unsigned_less [of old_brk] by simp
  then have "unat (brk + PAGE_SIZE) = unat brk + 0x1000"
    using brk by (simp add: PAGE_SIZE_def unat_word_ariths)
  then have "brk < old_brk" "brk + PAGE_SIZE < old_brk" using brk by (simp_all add: word_less_nat_alt)
  then have "brk_loop brk brk old_brk s = Some (Inl Assert)"
    using s' by (simp add: brk_loop.simps unlink_unmapped)
  with \<open>brk < old_brk\<close> show ?thesis by (simp add: sys_brk_def)
qed

section \<open>An example address space\<close>

text \<open>Directory in frame 1, one user page at \<open>0x1400000\<close> on frame 10, shared by two.\<close>

definition ex_pm :: pmem where
  "ex_pm = \<lparr>iflag = False, cr3 = 0x1000, v_bit_map = \<lparr>bm_start = [0, 0], bm_length = 2, bm_offset = 256\<rparr>,
     phys = (\<lambda>f i. if f = 1 then (if i = 1023 then entry_init 1 else if i = 0 then entry_init 2
         else if i = 5 then entry_init 9 else 0)
       else if f = 9 \<and> i = 0 then entry_init 10 else 0),
     p_bit_map = [1, 1, 1, 1, 1, 1, 1, 1, 1, 1, 2, 0, 0, 0, 0, 0], total_pages = 16, free_pages = 5,
     start_available_p_page_idx = 8, start_io_memory = 0x1000000\<rparr>"

lemma ex_pm_dir:
  "dirf ex_pm = 1" "pde_of ex_pm d = (if d = 1023 then entry_init 1 else if d = 0 then entry_init 2
     else if d = 5 then entry_init 9 else 0)"
  by (simp_all add: ex_pm_def dirf_def pde_of_def PAGE_IDX_def)

lemma pe_zero [simp]: "pe_present 0 = False" "pe_index 0 = 0"
  by (simp_all add: pe_present_def pe_index_def)

lemma ex_pm_tab: "pe_present (pde_of ex_pm d) \<longleftrightarrow> d \<in> {0, 5, 1023}"
  "tab ex_pm d = (if d = 1023 then 1 else if d = 0 then 2 else if d = 5 then 9 else 0)"
  by (simp_all add: tab_def ex_pm_dir)

lemma ex_pm_fields: "p_bit_map ex_pm = [1, 1, 1, 1, 1, 1, 1, 1, 1, 1, 2, 0, 0, 0, 0, 0]"
  "total_pages ex_pm = 16" "free_pages ex_pm = 5" "start_available_p_page_idx ex_pm = 8"
  by (simp_all add: ex_pm_def)

lemma ex_pm_walk: "unat (DIDX v) \<noteq> 1023 \<Longrightarrow>
    walk ex_pm v = (if unat (DIDX v) = 5 \<and> unat (TIDX v) = 0 then Some 10 else None)"
  by (simp add: walk_eq ex_pm_tab) (simp add: ex_pm_def Let_def)

lemma ex_pm_free: "frame_free ex_pm f \<longleftrightarrow> f \<in> {11, 12, 13, 14, 15}"
proof (cases "f < 16")
  case True
  then have "f \<in> set [0..<16]" by simp
  then show ?thesis by (simp add: upt_rec) (elim disjE; simp add: frame_free_def ex_pm_def)
qed (auto simp: frame_free_def ex_pm_def)

lemma ex_pm_inv: "pg_inv ex_pm"
  unfolding pg_inv_def
proof (intro conjI allI impI, goal_cases)
  case 1 then show ?case by (simp add: pm_wf_def ex_pm_def)
next
  case 2 then show ?case by (simp add: self_map_def ex_pm_tab ex_pm_dir)
next
  case (3 d) then show ?case by (auto simp: ex_pm_tab ex_pm_free)
next
  case (4 d e) then show ?case by (auto simp: ex_pm_tab)
next
  case (5 v f) then show ?case by (auto simp: DIDX_ne ex_pm_walk ex_pm_free split: if_splits)
next
  case (6 v f d) then show ?case by (auto simp: DIDX_ne ex_pm_walk ex_pm_tab split: if_splits)
qed

lemma ex_pm_idx: "DIDX 0x1400000 = 5" "TIDX 0x1400000 = 0" "DIDX 0x1401000 = 5" "TIDX 0x1401000 = 1"
  "PAGE_IDX 0x1401000 = 0x1401"
  by (simp_all add: DIDX_def TIDX_def PAGE_IDX_def)

definition ex_vmap :: bitmap_t where
  "ex_vmap = \<lparr>bm_start = [3], bm_length = 1, bm_offset = 0x1400\<rparr>"

theorem link_page_maps_witness:
  "\<exists>s' f. link_page 0x1401000 ex_vmap ex_pm = Inr s' \<and> pg_inv s' \<and> walk s' 0x1401000 = Some f"
proof -
  have "bitmap_test ex_vmap 0x1401 = Inr True"
    by (simp add: bitmap_test_def ex_vmap_def)
  then show ?thesis
    using link_page_maps [of ex_pm "0x1401000" ex_vmap 11 12] ex_pm_inv ex_pm_walk [of "0x1401000"]
    by (auto simp: ex_pm_idx ex_pm_free ex_pm_fields)
qed

theorem write_fault_copies_witness:
  "\<exists>s' g. write_fault 0x1400000 ex_pm = Inr s' \<and> walk s' 0x1400000 = Some g \<and> p_bit_map s' ! g = 1"
  using write_fault_copies [of ex_pm "0x1400000" 10 11] ex_pm_inv ex_pm_walk [of "0x1400000"]
  by (auto simp: ex_pm_idx ex_pm_free ex_pm_tab ex_pm_fields)

theorem sys_brk_shrink_asserts_witness:
  "sys_brk 0x1400000 0x1402000 ex_pm = Inl Assert"
  using sys_brk_shrink_asserts [of ex_pm "0x1400000" 10 "0x1402000"] ex_pm_inv ex_pm_walk [of "0x1400000"]
  by (simp add: ex_pm_idx ex_pm_free ex_pm_tab ex_pm_fields)

theorem write_fault_last_owner_witness:
  "\<exists>s'. write_fault 0x1400000 (ex_pm\<lparr>p_bit_map := (p_bit_map ex_pm)[10 := 1]\<rparr>) = Inr s' \<and>
     walk s' 0x1400000 = Some 10"
proof -
  let ?s = "ex_pm\<lparr>p_bit_map := (p_bit_map ex_pm)[10 := 1]\<rparr>"
  have "pg_inv ?s" "walk ?s = walk ex_pm"
    using dec_ref [OF ex_pm_inv, of 10] by (simp_all add: ex_pm_fields)
  then show ?thesis
    using write_fault_last_owner [of ?s "0x1400000" 10] ex_pm_walk [of "0x1400000"]
    by (auto simp: ex_pm_idx ex_pm_fields)
qed

end
