(* ===== verification/Paging_Init.thy ===== *)
theory Paging_Init
  imports Paging_Proofs
begin

text \<open>
  What the initialisation of the memory management establishes: the identity mapping of
  the kernel's sixteen megabytes, the recursive directory entry, and how the count of
  free pages relates to the page map afterwards.
\<close>

section \<open>The kernel mapping\<close>

text \<open>Everything the two loops leave alone.\<close>

definition same_counts :: "'a pmem_scheme \<Rightarrow> 'a pmem_scheme \<Rightarrow> bool" where
  "same_counts s s' \<longleftrightarrow> total_pages s' = total_pages s \<and> free_pages s' = free_pages s \<and>
     start_available_p_page_idx s' = start_available_p_page_idx s \<and>
     length (p_bit_map s') = length (p_bit_map s)"

lemma same_counts_trans: "same_counts a b \<Longrightarrow> same_counts b c \<Longrightarrow> same_counts a c"
  by (simp add: same_counts_def)

definition mark :: "nat \<Rightarrow> nat \<Rightarrow> u8 list \<Rightarrow> nat \<Rightarrow> u8" where
  "mark a b m i = (if a \<le> i \<and> i < b \<and> i \<noteq> 0 then 1 else m ! i)"

lemma map_kernel_pages:
  assumes "k < 4" "n \<le> 1024" "4096 \<le> length (p_bit_map s)"
  shows "\<exists>s'. for_each (map_kernel_page k) [0..<n] s = Inr s' \<and> same_counts s s' \<and>
     (\<forall>i < length (p_bit_map s). p_bit_map s' ! i = mark (1024 * k) (1024 * k + n) (p_bit_map s) i) \<and>
     (\<forall>f j. phys s' f j = (if f = k + 2 \<and> j < n \<and> 1024 * k + j \<noteq> 0
        then entry_init (word_of_nat (1024 * k + j)) else phys s f j))"
  using assms(2)
proof (induction n)
  case 0
  then show ?case by (auto simp: same_counts_def mark_def)
next
  case (Suc n)
  then obtain s1 where s1: "for_each (map_kernel_page k) [0..<n] s = Inr s1" "same_counts s s1"
    "\<forall>i < length (p_bit_map s). p_bit_map s1 ! i = mark (1024 * k) (1024 * k + n) (p_bit_map s) i"
    "\<forall>f j. phys s1 f j = (if f = k + 2 \<and> j < n \<and> 1024 * k + j \<noteq> 0
        then entry_init (word_of_nat (1024 * k + j)) else phys s f j)"
    by auto
  let ?i = "1024 * k + n"
  have i: "?i < length (p_bit_map s1)" using assms Suc.prems s1(2) by (simp add: same_counts_def)
  have step: "\<exists>s2. map_kernel_page k n s1 = Inr s2 \<and> same_counts s1 s2 \<and>
      (\<forall>j < length (p_bit_map s1). p_bit_map s2 ! j = (if j = ?i \<and> ?i \<noteq> 0 then 1 else p_bit_map s1 ! j)) \<and>
      (\<forall>f j. phys s2 f j = (if f = k + 2 \<and> j = n \<and> ?i \<noteq> 0 then entry_init (word_of_nat ?i) else phys s1 f j))"
  proof (cases "?i = 0")
    case True
    then show ?thesis by (simp add: map_kernel_page_def same_counts_def)
  next
    case False
    then show ?thesis
      using i by (auto simp add: map_kernel_page_def Let_def same_counts_def nth_list_update del: of_nat_add of_nat_mult)
  qed
  then obtain s2 where s2: "map_kernel_page k n s1 = Inr s2" "same_counts s1 s2"
    "\<forall>j < length (p_bit_map s1). p_bit_map s2 ! j = (if j = ?i \<and> ?i \<noteq> 0 then 1 else p_bit_map s1 ! j)"
    "\<forall>f j. phys s2 f j = (if f = k + 2 \<and> j = n \<and> ?i \<noteq> 0 then entry_init (word_of_nat ?i) else phys s1 f j)"
    by blast
  have "for_each (map_kernel_page k) [0..<Suc n] s = Inr s2"
    using s1(1) s2(1) by (simp add: for_each_append)
  moreover have "p_bit_map s2 ! i = mark (1024 * k) (1024 * k + Suc n) (p_bit_map s) i"
    if "i < length (p_bit_map s)" for i
    using s2(3) s1(2,3) that by (auto simp: same_counts_def mark_def)
  moreover have "phys s2 f j = (if f = k + 2 \<and> j < Suc n \<and> 1024 * k + j \<noteq> 0
      then entry_init (word_of_nat (1024 * k + j)) else phys s f j)" for f j
    using s1(4) s2(4) by (auto simp: less_Suc_eq)
  ultimately show ?case using same_counts_trans [OF s1(2) s2(2)] by blast
qed

lemma kernel_tables:
  assumes "n \<le> 4" "4096 \<le> length (p_bit_map s)"
  shows "\<exists>s'. for_each kernel_table [0..<n] s = Inr s' \<and> same_counts s s' \<and>
     (\<forall>i < length (p_bit_map s). p_bit_map s' ! i = mark 0 (1024 * n) (p_bit_map s) i) \<and>
     (\<forall>j. phys s' 1 j = (if j < n then entry_init (word_of_nat (j + 2)) else phys s 1 j)) \<and>
     (\<forall>k < n. \<forall>j < 1024. phys s' (k + 2) j =
        (if 1024 * k + j = 0 then 0 else entry_init (word_of_nat (1024 * k + j))))"
  using assms(1)
proof (induction n)
  case 0
  then show ?case by (simp add: same_counts_def mark_def)
next
  case (Suc n)
  then obtain s1 where s1: "for_each kernel_table [0..<n] s = Inr s1" "same_counts s s1"
    "\<forall>i < length (p_bit_map s). p_bit_map s1 ! i = mark 0 (1024 * n) (p_bit_map s) i"
    "\<forall>j. phys s1 1 j = (if j < n then entry_init (word_of_nat (j + 2)) else phys s 1 j)"
    "\<forall>k < n. \<forall>j < 1024. phys s1 (k + 2) j =
        (if 1024 * k + j = 0 then 0 else entry_init (word_of_nat (1024 * k + j)))"
    by auto
  define s2 where "s2 = set_frame 1 ((phys (set_frame (n + 2) (\<lambda>_. 0) s1) 1)(n := entry_init (word_of_nat (n + 2))))
      (set_frame (n + 2) (\<lambda>_. 0) s1)"
  have s2: "p_bit_map s2 = p_bit_map s1" "same_counts s1 s2"
    "phys s2 f = (if f = 1 then (phys s1 1)(n := entry_init (word_of_nat (n + 2)))
       else if f = n + 2 then (\<lambda>_. 0) else phys s1 f)" for f
    by (simp_all add: s2_def same_counts_def)
  have "4096 \<le> length (p_bit_map s2)" using assms(2) s1(2) s2(1) by (simp add: same_counts_def)
  with map_kernel_pages [of n 1024 s2] Suc.prems obtain s3 where
    s3: "for_each (map_kernel_page n) [0..<1024] s2 = Inr s3" "same_counts s2 s3"
    "\<forall>i < length (p_bit_map s2). p_bit_map s3 ! i = mark (1024 * n) (1024 * n + 1024) (p_bit_map s2) i"
    "\<forall>f j. phys s3 f j = (if f = n + 2 \<and> j < 1024 \<and> 1024 * n + j \<noteq> 0
        then entry_init (word_of_nat (1024 * n + j)) else phys s2 f j)"
    by auto
  have "kernel_table n s1 = Inr s3" using s3(1) by (simp add: kernel_table_def s2_def)
  then have "for_each kernel_table [0..<Suc n] s = Inr s3" using s1(1) by (simp add: for_each_append)
  moreover have "same_counts s s3" using s1(2) s2(2) s3(2) same_counts_trans by blast
  moreover have "p_bit_map s3 ! i = mark 0 (1024 * Suc n) (p_bit_map s) i" if "i < length (p_bit_map s)" for i
    using s3(3) s1(2,3) s2(1) that by (auto simp: same_counts_def mark_def)
  moreover have "phys s3 1 j = (if j < Suc n then entry_init (word_of_nat (j + 2)) else phys s 1 j)" for j
    using s3(4) s2(3) [of 1] s1(4) by (auto simp: less_Suc_eq)
  moreover have "phys s3 (k + 2) j = (if 1024 * k + j = 0 then 0 else entry_init (word_of_nat (1024 * k + j)))"
    if "k < Suc n" "j < 1024" for k j
    using s3(4) s2(3) [of "k + 2"] s1(5) that by (auto simp: less_Suc_eq simp del: of_nat_add of_nat_mult)
  ultimately show ?case by blast
qed

lemma page_mode_init_eq:
  "page_mode_init s = rbind (for_each kernel_table [0..<4] (set_frame 1 (\<lambda>_. 0) s)) (\<lambda>s.
     Inr ((set_frame 1 ((phys s 1)(1023 := entry_init 1)) s)\<lparr>cr3 := 0x1000\<rparr>))"
  by (simp add: page_mode_init_def Let_def)

lemma page_mode_init_spec:
  assumes "4096 \<le> length (p_bit_map s)"
  shows "\<exists>s'. page_mode_init s = Inr s' \<and> same_counts s s' \<and> cr3 s' = 0x1000 \<and>
     (\<forall>i < length (p_bit_map s). p_bit_map s' ! i = mark 0 4096 (p_bit_map s) i) \<and>
     (\<forall>j. phys s' 1 j = (if j = 1023 then entry_init 1 else if j < 4 then entry_init (word_of_nat (j + 2)) else 0)) \<and>
     (\<forall>k < 4. \<forall>j < 1024. phys s' (k + 2) j =
        (if 1024 * k + j = 0 then 0 else entry_init (word_of_nat (1024 * k + j))))"
proof -
  let ?s = "set_frame 1 (\<lambda>_. 0) s"
  from kernel_tables [of 4 ?s] assms obtain s1 where s1: "for_each kernel_table [0..<4] ?s = Inr s1"
    "same_counts ?s s1" "\<forall>i < length (p_bit_map s). p_bit_map s1 ! i = mark 0 4096 (p_bit_map s) i"
    "\<forall>j. phys s1 1 j = (if j < 4 then entry_init (word_of_nat (j + 2)) else 0)"
    "\<forall>k < 4. \<forall>j < 1024. phys s1 (k + 2) j =
        (if 1024 * k + j = 0 then 0 else entry_init (word_of_nat (1024 * k + j)))"
    by auto
  let ?s2 = "(set_frame 1 ((phys s1 1)(1023 := entry_init 1)) s1)\<lparr>cr3 := 0x1000\<rparr>"
  have "page_mode_init s = Inr ?s2" using s1(1) by (simp add: page_mode_init_eq)
  moreover have "same_counts s ?s2" using s1(2) by (simp add: same_counts_def)
  ultimately show ?thesis
    using s1(3,4,5) by (intro exI [of _ ?s2]) (simp del: of_nat_add of_nat_mult)
qed

section \<open>Identity mapping\<close>

lemma unat_page_idx: "unat (PAGE_IDX v) = 1024 * unat (DIDX v) + unat (TIDX v)"
proof -
  have "0x3ff = (mask 10 :: u32)" by (simp add: mask_eq_decr_exp)
  then have "TIDX v = take_bit 10 (drop_bit 12 v)" by (simp only: TIDX_def take_bit_eq_mask)
  then have t: "unat (TIDX v) = unat v div 4096 mod 1024"
    by (simp add: take_bit_eq_mod drop_bit_eq_div unat_mod unat_div)
  have "unat (DIDX v) = unat v div 4096 div 1024"
    by (simp add: DIDX_def drop_bit_eq_div unat_div flip: div_mult2_eq)
  moreover have "unat (PAGE_IDX v) = unat v div 4096"
    by (simp add: PAGE_IDX_def drop_bit_eq_div unat_div)
  ultimately show ?thesis using t by simp
qed

text \<open>
  \<^verbatim>\<open>page_mode_init\<close> leaves the kernel's sixteen megabytes identity mapped, except page 0,
  which stays unmapped so that null pointers fault, and nothing mapped from there to the
  recursive area; the directory maps itself through its last entry.
\<close>

theorem page_mode_init_identity:
  assumes "4096 \<le> length (p_bit_map s)"
  shows "\<exists>s'. page_mode_init s = Inr s' \<and> self_map s' \<and>
     (\<forall>v. DIDX v \<noteq> 1023 \<longrightarrow> walk s' v =
        (if 0x1000 \<le> v \<and> v < 0x1000000 then Some (unat (PAGE_IDX v)) else None))"
proof -
  from page_mode_init_spec [OF assms] obtain s' where s': "page_mode_init s = Inr s'" "cr3 s' = 0x1000"
    "\<forall>j. phys s' 1 j = (if j = 1023 then entry_init 1 else if j < 4 then entry_init (word_of_nat (j + 2)) else 0)"
    "\<forall>k < 4. \<forall>j < 1024. phys s' (k + 2) j =
        (if 1024 * k + j = 0 then 0 else entry_init (word_of_nat (1024 * k + j)))"
    by auto
  have dir: "dirf s' = 1" using s'(2) by (simp add: dirf_def PAGE_IDX_def)
  have "self_map s'" using s'(3) by (simp add: self_map_def tab_def pde_of_def dir)
  moreover have "walk s' v = (if 0x1000 \<le> v \<and> v < 0x1000000 then Some (unat (PAGE_IDX v)) else None)"
    if ne: "DIDX v \<noteq> 1023" for v
  proof -
    let ?d = "unat (DIDX v)" and ?t = "unat (TIDX v)"
    have d: "?d \<noteq> 1023" using ne by (simp add: DIDX_ne)
    have pi: "unat v div 4096 = 1024 * ?d + ?t"
      using unat_page_idx [of v] by (simp add: PAGE_IDX_def drop_bit_eq_div unat_div)
    have "v < 0x1000000 \<longleftrightarrow> unat v < 16777216" "0x1000 \<le> v \<longleftrightarrow> 4096 \<le> unat v"
      by (simp_all add: word_less_nat_alt word_le_nat_alt)
    then have lo: "v < 0x1000000 \<longleftrightarrow> ?d < 4" "0x1000 \<le> v \<longleftrightarrow> 1024 * ?d + ?t \<noteq> 0"
      using pi TIDX_lt [of v] by linarith+
    show ?thesis
    proof (cases "?d < 4")
      case True
      have td: "unat (word_of_nat (?d + 2) :: u32) = ?d + 2"
        by (rule unat_u32) (use True in simp)
      then have tab: "pe_present (pde_of s' ?d)" "tab s' ?d = ?d + 2"
        using s'(3) True by (simp_all add: tab_def pde_of_def dir del: of_nat_add)
      have "1024 * ?d + ?t < 4096" using True TIDX_lt [of v] by linarith
      then have "unat (word_of_nat (1024 * ?d + ?t) :: u32) = 1024 * ?d + ?t"
        by (intro unat_u32) simp
      then show ?thesis
        using s'(4) True TIDX_lt [of v] lo unat_page_idx [of v] tab \<open>1024 * ?d + ?t < 4096\<close>
        by (simp add: walk_eq Let_def del: of_nat_add of_nat_mult)
    next
      case False
      then show ?thesis using s'(3) d lo by (simp add: walk_eq pde_of_def dir)
    qed
  qed
  ultimately show ?thesis using s'(1) by blast
qed

section \<open>The count of free pages\<close>

lemma mark_first:
  "n \<le> length (p_bit_map s) \<Longrightarrow>
    for_each (\<lambda>i s. rbind (arr_set (p_bit_map s) i 1) (\<lambda>b. Inr (s\<lparr>p_bit_map := b\<rparr>))) [0..<n] s =
    Inr (s\<lparr>p_bit_map := replicate n 1 @ drop n (p_bit_map s)\<rparr>)"
proof (induction n)
  case (Suc n)
  have "(replicate n 1 @ drop n (p_bit_map s))[n := 1] = replicate (Suc n) 1 @ drop (Suc n) (p_bit_map s)"
    using Suc.prems by (simp add: list_update_append replicate_append_same [symmetric] Cons_nth_drop_Suc [symmetric])
  with Suc show ?case by (simp add: for_each_append)
qed simp

lemma kernel_bitmap:
  "\<exists>m. bitmap_init (replicate (unat (PAGE_IDX (KERNEL_AVA_M - BIOS_MEM_SIZE) div 8)) 0)
     (PAGE_IDX (KERNEL_AVA_M - BIOS_MEM_SIZE) div 8) (PAGE_IDX BIOS_MEM_SIZE) = Inr m \<and> vmap_wf m"
proof -
  have n: "PAGE_IDX (KERNEL_AVA_M - BIOS_MEM_SIZE) div 8 = 224" "PAGE_IDX BIOS_MEM_SIZE = 256"
    by (simp_all add: PAGE_IDX_def KERNEL_AVA_M_def BIOS_MEM_SIZE_def)
  from bitmap_init_spec [of 224 "replicate 224 0" 256] show ?thesis
    unfolding n by (auto simp: vmap_wf_def)
qed

lemma memory_init_spec:
  assumes pr: "pick_region entries = (BIOS_MEM_SIZE, mem)" "mem mod PAGE_SIZE = 0"
    and small: "unat mem < 2 ^ 31" "0x100000 \<le> unat mem"
  defines "tot \<equiv> unat mem div 4096 + 256" and "P \<equiv> (unat mem div 4096 + 256 + 4095) div 4096"
  shows "\<exists>s'. memory_init entries s = Inr s' \<and> unat (total_pages s') = tot \<and>
     unat (free_pages s') = unat mem div 4096 - P \<and> unat (start_available_p_page_idx s') = 256 + P \<and>
     p_bit_map s' = replicate (256 + P) 1 @ replicate (P * 4096 - (256 + P)) 0"
proof -
  define total where "total = PAGE_IDX mem + PAGE_IDX BIOS_MEM_SIZE"
  define p where "p = PAGE_IDX (total + PAGE_SIZE - 1)"
  define start where "start = PAGE_IDX BIOS_MEM_SIZE + p"
  have bios: "PAGE_IDX BIOS_MEM_SIZE = 256" by (simp add: PAGE_IDX_def BIOS_MEM_SIZE_def)
  have um: "unat (PAGE_IDX mem) = unat mem div 4096" by (simp add: PAGE_IDX_def drop_bit_eq_div unat_div)
  have md: "unat mem div 4096 < 2 ^ 19" "256 \<le> unat mem div 4096" using small by simp_all
  have ut: "unat total = tot" using md by (simp add: total_def bios um tot_def unat_word_ariths)
  have "unat (total + PAGE_SIZE - 1) = tot + 4095"
    using ut md by (simp add: PAGE_SIZE_def unat_word_ariths tot_def)
  then have up: "unat p = P"
    by (simp add: p_def PAGE_IDX_def drop_bit_eq_div unat_div P_def tot_def)
  have P: "1 \<le> P" "P \<le> 130" "tot \<le> P * 4096" using md by (auto simp: P_def tot_def)
  have us: "unat start = 256 + P" using up P by (simp add: start_def bios unat_word_ariths)
  have "unat (p * PAGE_SIZE) = P * 4096" using up P by (simp add: PAGE_SIZE_def unat_word_ariths)
  moreover have "unat (PAGE_IDX mem - p) = unat mem div 4096 - P"
    using um up md P by (simp add: unat_sub word_le_nat_alt)
  moreover have "BIOS_MEM_SIZE mod PAGE_SIZE = 0" by (simp add: BIOS_MEM_SIZE_def PAGE_SIZE_def)
  moreover obtain m where m: "bitmap_init (replicate (unat (PAGE_IDX (KERNEL_AVA_M - BIOS_MEM_SIZE) div 8)) 0)
      (PAGE_IDX (KERNEL_AVA_M - BIOS_MEM_SIZE) div 8) (PAGE_IDX BIOS_MEM_SIZE) = Inr m" "vmap_wf m"
    using kernel_bitmap by blast
  moreover have "\<exists>r m'. alloc_page p m = Inr (r, m')"
  proof -
    have "p = word_of_nat P" using up by auto
    then show ?thesis using alloc_page_spec [OF m(2), of P] P by auto
  qed
  ultimately show ?thesis
    using pr us P
    by (auto simp: memory_init_def Let_def alloc_kpage_eq ut us mark_first
        simp flip: total_def p_def start_def)
qed

text \<open>
  After \<^verbatim>\<open>mem_pg_init\<close> on a machine with at least sixteen megabytes the counter
  \<^verbatim>\<open>free_pages\<close> is too large: it exceeds the number of pages the page map shows free by
  the pages between the map's end and sixteen megabytes, which \<^verbatim>\<open>page_mode_init\<close> marks used
  without counting them. So \<^verbatim>\<open>get_p_page\<close> on an exhausted memory does not reach its
  panic but runs off the end of the function.
\<close>

theorem mem_pg_init_overcounts:
  assumes "pick_region entries = (BIOS_MEM_SIZE, mem)" "mem mod PAGE_SIZE = 0"
    and "unat mem < 2 ^ 31" "0xF00000 \<le> unat mem"
  shows "\<exists>s'. mem_pg_init entries s = Inr s' \<and>
     unat (free_pages s') = card {f. frame_free s' f} + (4096 - unat (start_available_p_page_idx s')) \<and>
     unat (start_available_p_page_idx s') < 4096"
proof -
  define P where "P = (unat mem div 4096 + 256 + 4095) div 4096"
  define tot where "tot = unat mem div 4096 + 256"
  have P: "1 \<le> P" "P \<le> 130" "tot \<le> P * 4096" "4096 \<le> tot" using assms(3,4) by (auto simp: P_def tot_def)
  obtain s1 where s1: "memory_init entries s = Inr s1" "unat (total_pages s1) = tot"
    "unat (free_pages s1) = unat mem div 4096 - P" "unat (start_available_p_page_idx s1) = 256 + P"
    "p_bit_map s1 = replicate (256 + P) 1 @ replicate (P * 4096 - (256 + P)) 0"
    using memory_init_spec [OF assms(1-3), of s] assms(4) by (auto simp: P_def tot_def)
  have len: "length (p_bit_map s1) = P * 4096" using s1(5) P by simp
  with page_mode_init_spec [of s1] P obtain s2 where s2: "page_mode_init s1 = Inr s2" "same_counts s1 s2"
    "\<forall>i < P * 4096. p_bit_map s2 ! i = mark 0 4096 (p_bit_map s1) i" by auto
  have cnt: "unat (start_available_p_page_idx s2) = 256 + P" "unat (total_pages s2) = tot"
    using s1(2,4) s2(2) by (simp_all add: same_counts_def)
  have "frame_free s2 f \<longleftrightarrow> 4096 \<le> f \<and> f < tot" for f
  proof (cases "256 + P \<le> f \<and> f < tot")
    case True
    then have "f - (256 + P) < P * 4096 - (256 + P)" using P by linarith
    then have "replicate (P * 4096 - (256 + P)) (0 :: u8) ! (f - (256 + P)) = 0" by (rule nth_replicate)
    then have "p_bit_map s1 ! f = 0" using True by (simp add: s1(5) nth_append)
    then have "p_bit_map s2 ! f = (if f < 4096 then 1 else 0)"
      using s2(3) P True by (simp add: mark_def)
    with True P show ?thesis by (simp add: frame_free_def cnt)
  next
    case False
    then show ?thesis using P by (auto simp: frame_free_def cnt)
  qed
  then have "card {f. frame_free s2 f} = tot - 4096"
    using card_atLeastLessThan [of 4096 tot] by (simp only: atLeastLessThan_def lessThan_def atLeast_def Collect_conj_eq)
  moreover have "unat (free_pages s2) = tot - (256 + P)" "unat (start_available_p_page_idx s2) = 256 + P"
    using s1 s2(2) by (simp_all add: same_counts_def tot_def)
  ultimately show ?thesis
    using s1(1) s2(1) P by (simp add: mem_pg_init_def)
qed

text \<open>
  With every page of the map in use but \<^verbatim>\<open>free_pages\<close> positive, the search of
  \<^verbatim>\<open>get_p_page\<close> ends without a page: the function returns no value, with interrupts off.
\<close>

theorem get_p_page_exhausted:
  assumes "pm_wf s" "free_pages s \<noteq> 0" "\<forall>f. \<not> frame_free s f"
  shows "get_p_page s = Inl Fault"
proof -
  let ?s = "set_IF False s"
  have "get_p_page_loop (start_available_p_page_idx ?s) ?s = Inl Fault"
    by (rule get_p_page_loop_none) (use assms in \<open>auto simp: set_IF_def pm_wf_def frame_free_def\<close>)
  then show ?thesis by (simp add: get_p_page_def get_and_disable_IF_def)
qed

theorem page_mode_init_identity_witness:
  "\<exists>s'. page_mode_init (ex_pm\<lparr>p_bit_map := replicate 4096 0\<rparr>) = Inr s' \<and> self_map s'"
  using page_mode_init_identity [of "ex_pm\<lparr>p_bit_map := replicate 4096 0\<rparr>"] by auto

theorem mem_pg_init_overcounts_witness:
  "\<exists>s'. mem_pg_init [(0, 0x9f000, 1), (0x100000, 0x1f00000, 1)] ex_pm = Inr s' \<and>
     card {f. frame_free s' f} < unat (free_pages s')"
proof -
  have pr: "pick_region [(0, 0x9f000, 1), (0x100000, 0x1f00000, 1)] = (BIOS_MEM_SIZE, 0x1f00000)"
    by (simp add: pick_region_def BIOS_MEM_SIZE_def)
  show ?thesis
    using mem_pg_init_overcounts [OF pr, of ex_pm] by (auto simp: PAGE_SIZE_def)
qed

theorem get_p_page_exhausted_witness:
  "get_p_page (ex_pm\<lparr>p_bit_map := replicate 16 1\<rparr>) = Inl Fault"
  using get_p_page_exhausted [of "ex_pm\<lparr>p_bit_map := replicate 16 1\<rparr>"]
  by (simp add: pm_wf_def frame_free_def ex_pm_fields)

end
