(* ===== verification/CString.thy ===== *)
theory CString
  imports Rdix_Prelude
begin

text \<open>
  The string and memory routines of \<^verbatim>\<open>kernel/string.c\<close> and the byte routines of
  \<^verbatim>\<open>kernel/stdlib.c\<close>. A pointer into an object is the list of the bytes from there to
  the end of the object; running off it faults. The routines are proved against the C
  string a buffer holds.
\<close>

section \<open>string.c\<close>

text \<open>\<^verbatim>\<open>strcmp\<close> returns \<^verbatim>\<open>true\<close> for equal strings; \<open>n\<close> is the number of rounds left.\<close>

fun strcmp :: "u8 list \<Rightarrow> u8 list \<Rightarrow> nat \<Rightarrow> bool res" where
  "strcmp str0 str1 0 = Inr True"
| "strcmp (a # str0) (b # str1) (Suc n) =
     (if a = 0 \<and> b = 0 then Inr True
      else if a \<noteq> b then Inr False
      else strcmp str0 str1 n)"
| "strcmp _ _ (Suc n) = Inl Fault"

fun strcpy :: "u8 list \<Rightarrow> u8 list \<Rightarrow> u8 list res" where
  "strcpy dest [] = Inl Fault"
| "strcpy [] (c # src) = Inl Fault"
| "strcpy (d # dest) (c # src) =
     (if c \<noteq> 0 then rbind (strcpy dest src) (\<lambda>r. Inr (c # r)) else Inr (0 # dest))"

fun strcat :: "u8 list \<Rightarrow> u8 list \<Rightarrow> u8 list res" where
  "strcat [] src = Inl Fault"
| "strcat (d # dest) src =
     (if d \<noteq> 0 then rbind (strcat dest src) (\<lambda>r. Inr (d # r)) else strcpy (d # dest) src)"

fun strncpy :: "u8 list \<Rightarrow> u8 list \<Rightarrow> u32 \<Rightarrow> u8 list res" where
  "strncpy dest [] count = Inl Fault"
| "strncpy [] (c # src) count = Inl Fault"
| "strncpy (d # dest) (c # src) count =
     (if c \<noteq> 0 \<and> count - 1 \<noteq> 0
      then rbind (strncpy dest src (count - 1)) (\<lambda>r. Inr (c # r)) else Inr (0 # dest))"

fun c_length :: "u8 list \<Rightarrow> nat res" where
  "c_length [] = Inl Fault"
| "c_length (c # str) = (if c \<noteq> 0 then rbind (c_length str) (\<lambda>n. Inr (Suc n)) else Inr 0)"

fun memcpy :: "u8 list \<Rightarrow> u8 list \<Rightarrow> nat \<Rightarrow> u8 list res" where
  "memcpy dest src 0 = Inr dest"
| "memcpy (d # dest) (c # src) (Suc n) = rbind (memcpy dest src n) (\<lambda>r. Inr (c # r))"
| "memcpy _ _ (Suc n) = Inl Fault"

fun memset :: "u8 list \<Rightarrow> u8 \<Rightarrow> nat \<Rightarrow> u8 list res" where
  "memset dest ch 0 = Inr dest"
| "memset (d # dest) ch (Suc n) = rbind (memset dest ch n) (\<lambda>r. Inr (ch # r))"
| "memset [] ch (Suc n) = Inl Fault"

section \<open>stdlib.c\<close>

definition bcd2bin :: "u8 \<Rightarrow> u8" where
  "bcd2bin bcd = (bcd AND 0xf) + drop_bit 4 bcd * 10"

fun swap_mem :: "u8 list \<Rightarrow> u8 list \<Rightarrow> nat \<Rightarrow> (u8 list \<times> u8 list) res" where
  "swap_mem a b 0 = Inr (a, b)"
| "swap_mem (x # a) (y # b) (Suc n) = rbind (swap_mem a b n) (\<lambda>(a, b). Inr (y # a, x # b))"
| "swap_mem _ _ (Suc n) = Inl Fault"

section \<open>The string in a buffer\<close>

definition cstr :: "u8 list \<Rightarrow> u8 list" where
  "cstr b = takeWhile (\<lambda>c. c \<noteq> 0) b"

definition terminated :: "u8 list \<Rightarrow> bool" where
  "terminated b \<longleftrightarrow> 0 \<in> set b"

lemma cstr_simps [simp]:
  "cstr [] = []" "cstr (c # b) = (if c = 0 then [] else c # cstr b)"
  "terminated [] = False" "terminated (c # b) \<longleftrightarrow> c = 0 \<or> terminated b"
  by (auto simp: cstr_def terminated_def)

lemma cstr_nonzero: "0 \<notin> set (cstr b)"
  by (auto simp: cstr_def dest: set_takeWhileD)

lemma cstr_append: "0 \<notin> set s \<Longrightarrow> cstr (s @ 0 # b) = s" "terminated (s @ 0 # b)"
  by (induction s) auto

lemma terminated_cstr: "terminated b \<Longrightarrow> \<exists>rest. b = cstr b @ 0 # rest"
  by (induction b) auto

lemma c_length_spec: "c_length b = (if terminated b then Inr (length (cstr b)) else Inl Fault)"
  by (induction b) auto

lemma strcpy_spec:
  "terminated src \<Longrightarrow> length (cstr src) < length dest \<Longrightarrow>
    strcpy dest src = Inr (cstr src @ 0 # drop (Suc (length (cstr src))) dest)"
  by (induction dest src rule: strcpy.induct) auto

lemma strcpy_overflow:
  "terminated src \<Longrightarrow> length dest \<le> length (cstr src) \<Longrightarrow> strcpy dest src = Inl Fault"
  by (induction dest src rule: strcpy.induct) auto

lemma strcat_spec:
  "terminated dest \<Longrightarrow> terminated src \<Longrightarrow> length (cstr dest) + length (cstr src) < length dest \<Longrightarrow>
    strcat dest src = Inr (cstr dest @ cstr src @ 0 # drop (Suc (length (cstr dest) + length (cstr src))) dest)"
  by (induction dest) (auto simp: strcpy_spec)

lemma strncpy_spec:
  "0 < unat count \<Longrightarrow> terminated src \<Longrightarrow> min (length (cstr src)) (unat count - 1) < length dest \<Longrightarrow>
    strncpy dest src count = Inr (take (unat count - 1) (cstr src) @
      0 # drop (Suc (min (length (cstr src)) (unat count - 1))) dest)"
proof (induction dest src count rule: strncpy.induct)
  case (3 d dest c src count)
  have u: "unat (count - 1) = unat count - 1"
    using 3(2) by (simp add: unat_sub word_le_nat_alt)
  show ?case
  proof (cases "c \<noteq> 0 \<and> count - 1 \<noteq> 0")
    case True
    then have "unat count - 1 \<noteq> 0" using u by (metis unat_eq_zero)
    then obtain k where "unat count = Suc (Suc k)" by (metis One_nat_def Suc_pred diff_is_0_eq' gr0I 3(2))
    with True 3 u show ?thesis by (simp add: unat_eq_zero)
  next
    case False
    then have "c = 0 \<or> unat count - 1 = 0" using u by auto
    with False show ?thesis by auto
  qed
qed auto

lemma strcmp_spec:
  "terminated a \<Longrightarrow> terminated b \<Longrightarrow> strcmp a b n = Inr (take n (cstr a) = take n (cstr b))"
  by (induction a b n rule: strcmp.induct) auto

lemma memcpy_spec: "n \<le> length dest \<Longrightarrow> n \<le> length src \<Longrightarrow> memcpy dest src n = Inr (take n src @ drop n dest)"
  by (induction dest src n rule: memcpy.induct) auto

lemma memset_spec: "n \<le> length dest \<Longrightarrow> memset dest ch n = Inr (replicate n ch @ drop n dest)"
  by (induction dest ch n rule: memset.induct) auto

lemma swap_mem_spec: "n \<le> length a \<Longrightarrow> n \<le> length b \<Longrightarrow>
    swap_mem a b n = Inr (take n b @ drop n a, take n a @ drop n b)"
  by (induction a b n rule: swap_mem.induct) auto

lemma bcd2bin_spec:
  assumes "t < 10" "u < 10"
  shows "unat (bcd2bin (word_of_nat (16 * t + u))) = 10 * t + u"
proof -
  have "t \<in> {0..<10}" "u \<in> {0..<10}" using assms by auto
  then have "t \<in> set [0..<10]" "u \<in> set [0..<10]" by simp_all
  then show ?thesis
    by (simp add: upt_rec) (elim disjE; simp add: bcd2bin_def)
qed

section \<open>Properties\<close>

text \<open>
  \<^verbatim>\<open>strncpy\<close> with a positive count copies at most \<open>count - 1\<close> characters of the
  source, always terminates the destination, and writes no byte beyond the terminator,
  so a destination of \<open>count\<close> bytes is never overrun.
\<close>

theorem strncpy_bounded:
  assumes "0 < unat count" "terminated src" "unat count \<le> length dest"
  shows "\<exists>out. strncpy dest src count = Inr out \<and> length out = length dest \<and> terminated out \<and>
     cstr out = take (unat count - 1) (cstr src) \<and>
     drop (unat count) out = drop (unat count) dest"
proof -
  have "min (length (cstr src)) (unat count - 1) < length dest" using assms by auto
  note s = strncpy_spec [OF assms(1,2) this]
  have "0 \<notin> set (take (unat count - 1) (cstr src))"
    using cstr_nonzero in_set_takeD by metis
  with s assms show ?thesis
    by (auto simp: cstr_append drop_append min_def Suc_diff_Suc drop_Cons')
qed

text \<open>
  \<^verbatim>\<open>strcat\<close> onto a string made by \<^verbatim>\<open>strcpy\<close> gives the concatenation, whose length and
  comparison are the expected ones: \<^verbatim>\<open>length\<close> returns the sum and \<^verbatim>\<open>strcmp\<close> reports it
  equal to any buffer with the same string.
\<close>

theorem strcpy_strcat:
  assumes "terminated a" "terminated b" "length (cstr a) + length (cstr b) < length dest"
    and "terminated c" "cstr c = cstr a @ cstr b"
  shows "\<exists>d e. strcpy dest a = Inr d \<and> strcat d b = Inr e \<and> length e = length dest \<and>
     cstr e = cstr a @ cstr b \<and> c_length e = Inr (length (cstr a) + length (cstr b)) \<and>
     strcmp e c n = Inr True"
proof -
  let ?d = "cstr a @ 0 # drop (Suc (length (cstr a))) dest"
  have d: "strcpy dest a = Inr ?d" "cstr ?d = cstr a" "terminated ?d" "length ?d = length dest"
    using strcpy_spec [OF assms(1)] assms(3) cstr_append cstr_nonzero by auto
  let ?e = "cstr a @ cstr b @ 0 # drop (Suc (length (cstr a) + length (cstr b))) ?d"
  have e: "strcat ?d b = Inr ?e"
    using strcat_spec [OF d(3) assms(2)] d(2,4) assms(3) by simp
  have "0 \<notin> set (cstr a @ cstr b)" using cstr_nonzero by auto
  then have "cstr ?e = cstr a @ cstr b" "terminated ?e"
    using cstr_append [of "cstr a @ cstr b"] by simp_all
  moreover have "length ?e = length dest" using assms(3) by simp
  ultimately show ?thesis
    using d e assms(4,5) by (intro exI [of _ ?d] exI [of _ ?e]) (simp add: c_length_spec strcmp_spec)
qed

theorem strncpy_bounded_witness:
  "\<exists>out. strncpy [1, 1, 1, 1, 9] [65, 66, 67, 68, 0] 4 = Inr out \<and> cstr out = [65, 66, 67]"
  using strncpy_bounded [of 4 "[65, 66, 67, 68, 0]" "[1, 1, 1, 1, 9]"] by auto

theorem strcpy_strcat_witness:
  "\<exists>d e. strcpy [1, 1, 1, 1] [65, 0] = Inr d \<and> strcat d [66, 67, 0] = Inr e \<and> cstr e = [65, 66, 67]"
  using strcpy_strcat [of "[65, 0]" "[66, 67, 0]" "[1, 1, 1, 1]" "[65, 66, 67, 0]" 0] by auto

end
