(* ===== verification/Rtc_Time.thy ===== *)
theory Rtc_Time
  imports CString
begin

text \<open>
  Reading the real time clock and converting its date to seconds, \<^verbatim>\<open>kernel/time.c\<close>. The
  CMOS is a parameter: \<open>rd k a\<close> is what the \<open>k\<close>-th read of the device returns for register
  \<open>a\<close>. The conversion is compared with a calendar that counts days year by year and
  month by month.
\<close>

section \<open>Operations\<close>

record time_b =
  tm_sec :: u8
  tm_min :: u8
  tm_hour :: u8
  tm_wday :: u8
  tm_mday :: u8
  tm_mon :: u8
  tm_year :: u8

definition REG_A_ADDR :: u8 where "REG_A_ADDR = 0x0a"

text \<open>The busy loop on the update-in-progress bit; its result numbers the next read.\<close>

partial_function (option) wait_update :: "(nat \<Rightarrow> u8 \<Rightarrow> u8) \<Rightarrow> nat \<Rightarrow> nat res option" where
  "wait_update rd k =
     (if rd k REG_A_ADDR AND 0x80 \<noteq> 0 then wait_update rd (k + 1) else Some (Inr (k + 1)))"

definition time_read :: "(nat \<Rightarrow> u8 \<Rightarrow> u8) \<Rightarrow> time_b res" where
  "time_read rd =
     rbind (run (wait_update rd 0)) (\<lambda>k. Inr
       \<lparr>tm_sec = bcd2bin (rd k 0x00), tm_min = bcd2bin (rd (k + 1) 0x02),
        tm_hour = bcd2bin (rd (k + 2) 0x04), tm_wday = bcd2bin (rd (k + 3) 0x06),
        tm_mday = bcd2bin (rd (k + 4) 0x07), tm_mon = bcd2bin (rd (k + 5) 0x08),
        tm_year = bcd2bin (rd (k + 6) 0x09)\<rparr>)"

definition month_days :: "u32 list" where
  "month_days = [0, 0, 31, 31 + 28, 31 + 28 + 31, 31 + 28 + 31 + 30, 31 + 28 + 31 + 30 + 31,
     31 + 28 + 31 + 30 + 31 + 30, 31 + 28 + 31 + 30 + 31 + 30 + 31,
     31 + 28 + 31 + 30 + 31 + 30 + 31 + 31, 31 + 28 + 31 + 30 + 31 + 30 + 31 + 31 + 30,
     31 + 28 + 31 + 30 + 31 + 30 + 31 + 31 + 30 + 31,
     31 + 28 + 31 + 30 + 31 + 30 + 31 + 31 + 30 + 31 + 30]"

text \<open>
  The \<^verbatim>\<open>u8\<close> fields promote to \<^verbatim>\<open>int\<close>; sums and products are added to a \<^verbatim>\<open>u32\<close>, so
  everything is computed modulo \<open>2 ^ 32\<close>.
\<close>

definition mktime :: "time_b \<Rightarrow> u32 res" where
  "mktime tm =
     (let y = ucast (tm_year tm) :: u32;
          sec = 0;
          sec = sec + (y + 30) * (3600 * 24 * 365);
          sec = sec + ((y + 30 + 1) div 4) * (3600 * 24) in
      rbind (arr_get month_days (unat (tm_mon tm))) (\<lambda>d.
      let sec = sec + (d + ucast (tm_mday tm)) * (3600 * 24) in
      Inr (if (y + 30 + 2) mod 4 = 0 \<and> tm_mon tm > 2 then sec + 3600 * 24 else sec)))"

section \<open>The calendar\<close>

definition leap :: "nat \<Rightarrow> bool" where
  "leap y \<longleftrightarrow> y mod 4 = 0 \<and> (y mod 100 \<noteq> 0 \<or> y mod 400 = 0)"

definition month_len :: "nat \<Rightarrow> nat \<Rightarrow> nat" where
  "month_len y m = (if m = 2 then (if leap y then 29 else 28)
     else if m \<in> {4, 6, 9, 11} then 30 else 31)"

text \<open>Days of the first \<open>k\<close> years after 1970, and from the first of January 1970 to a date.\<close>

primrec days_of_years :: "nat \<Rightarrow> nat" where
  "days_of_years 0 = 0"
| "days_of_years (Suc k) = days_of_years k + (if leap (1970 + k) then 366 else 365)"

definition epoch_days :: "nat \<Rightarrow> nat \<Rightarrow> nat \<Rightarrow> nat" where
  "epoch_days y m d = days_of_years (y - 1970) + sum_list (map (month_len y) [1..<m]) + (d - 1)"

lemma leap_after_1970: "k < 130 \<Longrightarrow> leap (1970 + k) \<longleftrightarrow> (k + 2) mod 4 = 0"
proof -
  assume k: "k < 130"
  have "k = 30" if "(1970 + k) mod 100 = 0"
  proof -
    have q: "100 * ((1970 + k) div 100) = 1970 + k"
      using that mult_div_mod_eq [of 100 "1970 + k"] by simp
    with k have "19 < (1970 + k) div 100" "(1970 + k) div 100 < 21" by linarith+
    then have "(1970 + k) div 100 = 20" by simp
    with q show ?thesis by simp
  qed
  then have "k = 30 \<or> (1970 + k) mod 100 \<noteq> 0" by blast
  then have "leap (1970 + k) \<longleftrightarrow> (1970 + k) mod 4 = 0"
    by (elim disjE) (simp_all add: leap_def)
  also have "\<dots> \<longleftrightarrow> (k + 2) mod 4 = 0" by presburger
  finally show ?thesis .
qed

lemma days_of_years_closed: "k \<le> 130 \<Longrightarrow> days_of_years k = k * 365 + (k + 1) div 4"
proof (induction k)
  case (Suc k)
  have "(Suc k + 1) div 4 = (k + 1) div 4 + (if (k + 2) mod 4 = 0 then 1 else 0)" by presburger
  with Suc show ?case by (simp add: leap_after_1970)
qed simp

lemma month_sum:
  assumes "1 \<le> m" "m \<le> 12"
  shows "sum_list (map (month_len y) [1..<m]) = unat (month_days ! m) + (if leap y \<and> 2 < m then 1 else 0)"
proof -
  have "m \<in> set [1, 2, 3, 4, 5, 6, 7, 8, 9, 10, 11, 12]"
    using assms by (simp only: list.set insert_iff empty_iff) presburger
  then show ?thesis
    by (simp only: list.set insert_iff empty_iff simp_thms)
      (elim disjE; simp add: upt_rec month_len_def month_days_def)
qed

section \<open>Properties\<close>

lemma wait_update_ready:
  "rd (j + n) REG_A_ADDR AND 0x80 = 0 \<Longrightarrow> (\<And>i. i < n \<Longrightarrow> rd (j + i) REG_A_ADDR AND 0x80 \<noteq> 0) \<Longrightarrow>
    wait_update rd j = Some (Inr (j + n + 1))"
proof (induction n arbitrary: j)
  case 0
  then show ?case by (simp add: wait_update.simps)
next
  case (Suc n)
  have "rd j REG_A_ADDR AND 0x80 \<noteq> 0" using Suc.prems(2) [of 0] by simp
  moreover have "wait_update rd (j + 1) = Some (Inr (j + 1 + n + 1))"
    by (rule Suc.IH) (use Suc.prems(1) Suc.prems(2) [of "Suc i" for i] in auto)
  ultimately show ?case by (subst wait_update.simps) simp
qed

text \<open>
  On every date from 2000 to 2099 \<^verbatim>\<open>mktime\<close> returns the seconds of the day after the
  date, midnight: it counts the days of \<^verbatim>\<open>tm_mday\<close> from one instead of zero and does not
  read the hours, minutes and seconds. Nothing overflows 32 bits in that range.
\<close>

theorem mktime_next_midnight:
  assumes "tm_year tm < 100" "1 \<le> tm_mon tm" "tm_mon tm \<le> 12" "1 \<le> tm_mday tm" "tm_mday tm \<le> 31"
  shows "\<exists>sec. mktime tm = Inr sec \<and>
     unat sec = 86400 * (epoch_days (2000 + unat (tm_year tm)) (unat (tm_mon tm)) (unat (tm_mday tm)) + 1)"
proof -
  define y m d where "y = unat (tm_year tm)" and "m = unat (tm_mon tm)" and "d = unat (tm_mday tm)"
  note defs = this
  define D where "D = unat (month_days ! m)"
  define L where "L = (if (y + 32) mod 4 = 0 \<and> 2 < m then 1 else 0 :: nat)"
  define N where "N = (y + 30) * 31536000 + ((y + 31) div 4) * 86400 + (D + d) * 86400 + L * 86400"
  have b: "y < 100" "1 \<le> m" "m \<le> 12" "1 \<le> d" "d \<le> 31"
    using assms by (simp_all add: defs word_less_nat_alt word_le_nat_alt)
  have yr: "ucast (tm_year tm) = (word_of_nat y :: u32)" "ucast (tm_mday tm) = (word_of_nat d :: u32)"
    "month_days ! m = word_of_nat D"
    by (simp_all add: D_def defs)
  have dv: "(word_of_nat y + 31 :: u32) div 4 = word_of_nat ((y + 31) div 4)"
    using b(1) by (simp add: word_unat_eq_iff unat_div unat_word_ariths unat_of_nat)
  have md: "(word_of_nat y + 32 :: u32) mod 4 = 0 \<longleftrightarrow> (y + 32) mod 4 = 0"
    using b(1) by (simp add: word_unat_eq_iff unat_mod unat_word_ariths unat_of_nat add.commute [of y 32])
  have mon: "tm_mon tm > 2 \<longleftrightarrow> 2 < m" by (simp add: word_less_nat_alt defs)
  have "m < length month_days" using b by (simp add: month_days_def)
  then have sec: "mktime tm = Inr (word_of_nat N)"
    by (simp add: N_def mktime_def Let_def yr dv md mon L_def algebra_simps flip: defs(2))
  have leap: "leap (2000 + y) \<longleftrightarrow> (y + 32) mod 4 = 0"
    using leap_after_1970 [of "y + 30"] b(1) by (simp add: ac_simps)
  have ep: "epoch_days (2000 + y) m d = (y + 30) * 365 + (y + 31) div 4 + D + L + (d - 1)"
    using days_of_years_closed [of "y + 30"] month_sum [of m "2000 + y"] b leap
    by (simp add: epoch_days_def D_def L_def ac_simps)
  have "\<forall>x \<in> set month_days. unat x \<le> 334" by (simp add: month_days_def)
  then have "D \<le> 334" using \<open>m < length month_days\<close> by (simp add: D_def)
  moreover have "L \<le> 1" "(y + 31) div 4 \<le> 32" using b by (simp_all add: L_def)
  ultimately have "N < 2 ^ 32"
    using b \<open>L \<le> 1\<close> \<open>(y + 31) div 4 \<le> 32\<close> by (simp add: N_def)
  then have "unat (word_of_nat N :: u32) = N" by (simp add: unat_of_nat)
  then show ?thesis
    using sec ep b(4) by (simp add: N_def algebra_simps flip: defs)
qed

text \<open>
  If the update-in-progress bit is clear at the \<open>n\<close>-th read of register A and was set
  before, \<^verbatim>\<open>time_read\<close> returns, and each two-digit BCD register is read as its decimal
  value.
\<close>

theorem time_read_decodes:
  assumes "\<And>i. i < n \<Longrightarrow> rd i REG_A_ADDR AND 0x80 \<noteq> 0" "rd n REG_A_ADDR AND 0x80 = 0"
    and "yt < 10" "yu < 10" "rd (7 + n) 0x09 = word_of_nat (16 * yt + yu)"
    and "mt < 10" "mu < 10" "rd (6 + n) 0x08 = word_of_nat (16 * mt + mu)"
    and "dt < 10" "du < 10" "rd (5 + n) 0x07 = word_of_nat (16 * dt + du)"
  shows "\<exists>tm. time_read rd = Inr tm \<and> unat (tm_year tm) = 10 * yt + yu \<and>
     unat (tm_mon tm) = 10 * mt + mu \<and> unat (tm_mday tm) = 10 * dt + du"
  using wait_update_ready [of rd 0 n] assms
  by (simp add: time_read_def bcd2bin_spec del: of_nat_add of_nat_mult)

definition ex_date :: time_b where
  "ex_date = \<lparr>tm_sec = 7, tm_min = 30, tm_hour = 12, tm_wday = 5, tm_mday = 1, tm_mon = 3, tm_year = 24\<rparr>"

theorem mktime_next_midnight_witness:
  "\<exists>sec. mktime ex_date = Inr sec \<and> unat sec = 86400 * (epoch_days 2024 3 1 + 1)"
  using mktime_next_midnight [of ex_date] by (simp add: ex_date_def)

definition ex_cmos :: "nat \<Rightarrow> u8 \<Rightarrow> u8" where
  "ex_cmos k a = (if a = 0x0a then (if k < 2 then 0x80 else 0) else if a = 0x09 then 0x24
     else if a = 0x08 then 0x12 else 0x31)"

theorem time_read_decodes_witness:
  "\<exists>tm. time_read ex_cmos = Inr tm \<and> unat (tm_year tm) = 24 \<and> unat (tm_mon tm) = 12 \<and>
     unat (tm_mday tm) = 31"
  using time_read_decodes [of 2 ex_cmos 2 4 1 2 3 1] by (simp add: ex_cmos_def REG_A_ADDR_def)

end
