(* ===== verification/Path_Name.thy ===== *)
theory Path_Name
  imports CString
begin

text \<open>
  The path names of \<^verbatim>\<open>fs/minix1/namei.c\<close>: comparing a directory entry with the next name of
  a path, stepping through a path, and the working directory string that \<^verbatim>\<open>chdir\<close> keeps.
  A pointer into a string is the list of bytes from there, as in \<^verbatim>\<open>CString\<close>; the null
  pointer is \<open>None\<close>.
\<close>

section \<open>Names\<close>

definition IS_SEPARATOR :: "u8 \<Rightarrow> bool" where
  "IS_SEPARATOR ch \<longleftrightarrow> ch = 0x2f \<or> ch = 0x5c"

text \<open>\<^verbatim>\<open>_match\<close>: the entry name must end where the name ends or has a separator.\<close>

fun match_name :: "u8 list \<Rightarrow> u8 list \<Rightarrow> bool res" where
  "match_name (a # name) (b # entry_name) =
     (if a \<noteq> 0 \<and> b \<noteq> 0 \<and> a = b then match_name name entry_name
      else if b \<noteq> 0 then Inr False
      else Inr (a = 0 \<or> IS_SEPARATOR a))"
| "match_name _ _ = Inl Fault"

fun vaild_file_name :: "u8 list \<Rightarrow> bool res" where
  "vaild_file_name [] = Inl Fault"
| "vaild_file_name (c # fname) =
     (if c = 0 then Inr True else if IS_SEPARATOR c then Inr False else vaild_file_name fname)"

fun skip_name :: "u8 list \<Rightarrow> u8 list res" where
  "skip_name [] = Inl Fault"
| "skip_name (c # path) = (if c \<noteq> 0 \<and> \<not> IS_SEPARATOR c then skip_name path else Inr (c # path))"

text \<open>\<^verbatim>\<open>next_name\<close> steps over at most one leading and one trailing separator.\<close>

fun next_name :: "u8 list \<Rightarrow> u8 list option res" where
  "next_name [] = Inl Fault"
| "next_name (c # path) =
     (if c = 0 then Inr None
      else rbind (skip_name (if IS_SEPARATOR c then path else c # path)) (\<lambda>p.
        Inr (Some (if hd p \<noteq> 0 then tl p else p))))"

lemma skip_name_length: "skip_name p = Inr q \<Longrightarrow> q \<noteq> [] \<and> length q \<le> length p"
  by (induction p) (auto split: if_splits)

lemma next_name_length: "next_name p = Inr (Some q) \<Longrightarrow> p \<noteq> [] \<and> hd p \<noteq> 0 \<and> length q < length p"
proof (cases p)
  case (Cons c r)
  assume "next_name p = Inr (Some q)"
  with Cons have c: "c \<noteq> 0" and "rbind (skip_name (if IS_SEPARATOR c then r else c # r))
      (\<lambda>p. Inr (Some (if hd p \<noteq> 0 then tl p else p))) = Inr (Some q)"
    by (simp_all del: rbind_eq_Inr split: if_splits)
  then obtain p' where p': "skip_name (if IS_SEPARATOR c then r else c # r) = Inr p'"
      and q: "q = (if hd p' \<noteq> 0 then tl p' else p')" unfolding rbind_eq_Inr by blast
  show ?thesis
  proof (cases "IS_SEPARATOR c")
    case True
    with p' skip_name_length [of r p'] q c Cons show ?thesis by (auto simp: le_imp_less_Suc split: if_splits)
  next
    case False
    with p' c have "skip_name r = Inr p'" by simp
    with skip_name_length [of r p'] q c Cons show ?thesis by (auto simp: le_imp_less_Suc split: if_splits)
  qed
qed simp

text \<open>The loop of \<^verbatim>\<open>filename\<close>; \<^verbatim>\<open>next\<close> is null only for an empty path, and is then dereferenced.\<close>

function filename_loop :: "u8 list \<Rightarrow> u8 list option \<Rightarrow> u8 list res" where
  "filename_loop prev None = Inl Fault"
| "filename_loop prev (Some []) = Inl Fault"
| "filename_loop prev (Some (c # nxt)) =
     (if c = 0 then Inr prev
      else case next_name (c # nxt) of Inl e \<Rightarrow> Inl e | Inr n \<Rightarrow> filename_loop (c # nxt) n)"
  by pat_completeness auto

termination filename_loop
proof (relation "measure (\<lambda>(prev, nxt). case nxt of None \<Rightarrow> 0 | Some p \<Rightarrow> Suc (length p))", goal_cases)
  case (2 prev c nxt n)
  then show ?case using next_name_length [of "c # nxt"] by (cases n) (auto split: option.split)
qed simp

definition filename :: "u8 list \<Rightarrow> u8 list option res" where
  "filename path =
     rbind (next_name path) (\<lambda>nxt.
     rbind (filename_loop path nxt) (\<lambda>prev.
     case prev of [] \<Rightarrow> Inl Fault
     | c # r \<Rightarrow>
         let p = (if IS_SEPARATOR c then r else c # r) in
         case p of [] \<Rightarrow> Inl Fault | d # _ \<Rightarrow> Inr (if d = 0 then None else Some p)))"

section \<open>The working directory string\<close>

text \<open>Positions in a string are offsets; \<open>n\<close> is the offset of the head of the rest.\<close>

fun strrsep_loop :: "nat \<Rightarrow> nat option \<Rightarrow> u8 list \<Rightarrow> nat option res" where
  "strrsep_loop n prev [] = Inl Fault"
| "strrsep_loop n prev (c # str) =
     (if c = 0 then Inr prev
      else if IS_SEPARATOR c then
        (case str of [] \<Rightarrow> Inl Fault
         | d # _ \<Rightarrow> strrsep_loop (Suc n) (if d \<noteq> 0 then Some n else prev) str)
      else strrsep_loop (Suc n) prev str)"

definition strrsep :: "u8 list \<Rightarrow> nat option res" where
  "strrsep str = strrsep_loop 0 None str"

fun strsep :: "u8 list \<Rightarrow> nat option res" where
  "strsep [] = Inl Fault"
| "strsep (c # str) =
     (if c = 0 then Inr None
      else if IS_SEPARATOR c then Inr (Some 0)
      else rbind (strsep str) (\<lambda>r. Inr (map_option Suc r)))"

text \<open>On an empty string \<^verbatim>\<open>addsep\<close> reads the byte before it.\<close>

definition addsep :: "u8 list \<Rightarrow> u8 list res" where
  "addsep str =
     rbind (c_length str) (\<lambda>len.
     if len = 0 then Inl Fault
     else if IS_SEPARATOR (str ! (len - 1)) then Inr str
     else rbind (arr_set str len 0x2f) (\<lambda>str. arr_set str (len + 1) 0))"

text \<open>\<open>strcpy_at k\<close> copies to \<open>oldpath + k\<close>.\<close>

definition strcpy_at :: "nat \<Rightarrow> u8 list \<Rightarrow> u8 list \<Rightarrow> u8 list res" where
  "strcpy_at k dest src = rbind (strcpy (drop k dest) src) (\<lambda>r. Inr (take k dest @ r))"

text \<open>
  In the case of a leading dot the destination of \<^verbatim>\<open>strcpy\<close> is the terminator itself
  taken as a pointer, the null pointer. \<^verbatim>\<open>strrsep(oldpath) + 1\<close> of null faults as well.
\<close>

definition abspath :: "u8 list \<Rightarrow> u8 list \<Rightarrow> (u8 list \<times> u8 list) res" where
  "abspath oldpath newpath =
     rbind (addsep newpath) (\<lambda>newpath.
     if IS_SEPARATOR (hd newpath) then rbind (strcpy oldpath newpath) (\<lambda>p. Inr (p, newpath))
     else
       rbind (strcmp newpath [0x2e, 0x2e, 0] 2) (\<lambda>up.
       rbind (c_length newpath) (\<lambda>len.
       rbind (c_length oldpath) (\<lambda>olen.
       if up then
         rbind (if olen \<noteq> 1
                then rbind (strrsep oldpath) (\<lambda>r. case r of None \<Rightarrow> Inl Fault | Some k \<Rightarrow> Inr (k + 1))
                else Inr 1) (\<lambda>old.
         rbind (if len > 3 then strcpy_at old oldpath (drop 3 newpath) else arr_set oldpath old 0) (\<lambda>p.
         Inr (p, newpath)))
       else
         rbind (strcmp newpath [0x2e, 0] 1) (\<lambda>here.
         if here then (if len > 2 then Inl Fault else Inr (oldpath, newpath))
         else
           rbind (strcpy_at olen oldpath newpath) (\<lambda>p.
           rbind (addsep newpath) (\<lambda>newpath. Inr (p, newpath))))))))"

section \<open>Paths as lists of names\<close>

text \<open>A name has neither separators nor null bytes and is not empty.\<close>

definition is_name :: "u8 list \<Rightarrow> bool" where
  "is_name c \<longleftrightarrow> c \<noteq> [] \<and> (\<forall>x \<in> set c. x \<noteq> 0 \<and> \<not> IS_SEPARATOR x)"

text \<open>The names of a path, each followed by a separator but perhaps the last.\<close>

fun join_path :: "u8 list list \<Rightarrow> u8 list" where
  "join_path [] = []"
| "join_path [c] = c"
| "join_path (c # cs) = c @ 0x2f # join_path cs"

text \<open>The working directory string of a list of names.\<close>

definition pwd_of :: "u8 list list \<Rightarrow> u8 list" where
  "pwd_of cs = 0x2f # concat (map (\<lambda>c. c @ [0x2f]) cs)"

lemma sep_consts [simp]: "IS_SEPARATOR 0x2f" "\<not> IS_SEPARATOR 0" "\<not> IS_SEPARATOR 0x2e"
  by (simp_all add: IS_SEPARATOR_def)

lemma is_name_nonsep: "is_name c \<Longrightarrow> x \<in> set c \<Longrightarrow> x \<noteq> 0 \<and> \<not> IS_SEPARATOR x"
  by (simp add: is_name_def)

lemma skip_name_name:
  "\<forall>x \<in> set c. x \<noteq> 0 \<and> \<not> IS_SEPARATOR x \<Longrightarrow> skip_name (c @ p) = skip_name p"
  by (induction c) auto

lemma next_name_name:
  assumes "is_name c" "p = 0 # r \<and> q = p \<or> p = 0x2f # q"
  shows "next_name (c @ p) = Inr (Some q)" "next_name (0x2f # c @ p) = Inr (Some q)"
proof -
  from assms(1) obtain x xs where c: "c = x # xs" "x \<noteq> 0" "\<not> IS_SEPARATOR x"
      "\<forall>y \<in> set xs. y \<noteq> 0 \<and> \<not> IS_SEPARATOR y" by (cases c) (auto simp: is_name_def)
  then show "next_name (c @ p) = Inr (Some q)" "next_name (0x2f # c @ p) = Inr (Some q)"
    using assms(2) by (auto simp: skip_name_name)
qed

lemma join_path_Cons: "join_path (c # cs) = c @ (if cs = [] then [] else 0x2f # join_path cs)"
  by (cases cs) simp_all

lemma filename_loop_join:
  assumes "\<forall>c \<in> set cs. is_name c" "cs \<noteq> []"
  shows "filename_loop prev (Some (join_path cs @ 0 # r)) = Inr (last cs @ 0 # r)"
  using assms
proof (induction cs arbitrary: prev)
  case (Cons c cs)
  from Cons.prems obtain x xs where c: "c = x # xs" "x \<noteq> 0" by (cases c) (auto simp: is_name_def)
  show ?case
  proof (cases "cs = []")
    case True
    have "next_name (c @ 0 # r) = Inr (Some (0 # r))" using next_name_name(1) [of c "0 # r" r] Cons.prems by simp
    with c True show ?thesis by (simp del: next_name.simps)
  next
    case False
    have "next_name (c @ 0x2f # join_path cs @ 0 # r) = Inr (Some (join_path cs @ 0 # r))"
      using next_name_name(1) [of c "0x2f # join_path cs @ 0 # r"] Cons.prems by simp
    with c False Cons show ?thesis by (simp add: join_path_Cons del: next_name.simps)
  qed
qed simp

lemma match_name_spec:
  assumes "terminated name" "terminated entry" "\<forall>x \<in> set (cstr entry). \<not> IS_SEPARATOR x"
  shows "match_name name entry = Inr (cstr entry = takeWhile (\<lambda>x. \<not> IS_SEPARATOR x) (cstr name))"
  using assms
proof (induction name entry rule: match_name.induct)
  case (1 a name b entry)
  then show ?case by (auto simp: IS_SEPARATOR_def split: if_splits)
qed simp_all

section \<open>Changing the directory string\<close>

definition rel_of :: "u8 list list \<Rightarrow> u8 list" where
  "rel_of cs = concat (map (\<lambda>c. c @ [0x2f]) cs)"

lemma rel_of_simps [simp]:
  "rel_of [] = []" "rel_of (c # cs) = c @ 0x2f # rel_of cs" "rel_of (cs @ ds) = rel_of cs @ rel_of ds"
  by (simp_all add: rel_of_def)

lemma pwd_of_rel: "pwd_of cs = 0x2f # rel_of cs"
  by (simp add: pwd_of_def rel_of_def)

lemma rel_of_nonzero: "\<forall>c \<in> set cs. is_name c \<Longrightarrow> 0 \<notin> set (rel_of cs)"
  by (induction cs) (auto simp: is_name_def)

text \<open>A buffer holds the string \<open>s\<close>, with \<open>room\<close> more bytes after the terminator.\<close>

definition holds :: "u8 list \<Rightarrow> u8 list \<Rightarrow> nat \<Rightarrow> bool" where
  "holds b s room \<longleftrightarrow> (\<exists>r. b = s @ 0 # r \<and> room \<le> length r) \<and> 0 \<notin> set s"

lemma holdsE:
  assumes "holds b s room"
  obtains r where "b = s @ 0 # r" "room \<le> length r" "0 \<notin> set s"
  using assms by (auto simp: holds_def)

lemma holds_length: "holds b s room \<Longrightarrow> c_length b = Inr (length s)"
  by (auto simp: holds_def c_length_spec cstr_append)

lemma holds_cstr: "holds b s room \<Longrightarrow> cstr b = s \<and> terminated b"
  by (auto simp: holds_def cstr_append)

lemma strcpy_at_holds:
  assumes d: "holds d (s @ t) room" and src: "holds src u m" and len: "length u \<le> length t + room"
  shows "\<exists>p. strcpy_at (length s) d src = Inr p \<and> holds p (s @ u) (length t + room - length u)"
proof -
  from d obtain r where r: "d = s @ t @ 0 # r" "room \<le> length r" "0 \<notin> set (s @ t)" by (auto simp: holds_def)
  from src obtain q where q: "src = u @ 0 # q" "0 \<notin> set u" by (auto simp: holds_def)
  have "strcpy (drop (length s) d) src = Inr (u @ 0 # drop (Suc (length u)) (t @ 0 # r))"
    using strcpy_spec [of src "t @ 0 # r"] q r len by (simp add: cstr_append)
  then show ?thesis
    using r q(2) len by (auto simp: strcpy_at_def holds_def)
qed

lemma nth_last: "s \<noteq> [] \<Longrightarrow> (s @ r) ! (length s - 1) = last s"
  by (simp add: nth_append last_conv_nth)

lemma addsep_holds:
  assumes b: "holds b s (Suc m)" and s: "s = rel_of ds \<or> s = butlast (rel_of ds) \<or> s = 0x2f # rel_of ds"
    and names: "\<forall>c \<in> set ds. is_name c" "ds \<noteq> []"
  shows "\<exists>b'. addsep b = Inr b' \<and> holds b' (if s = butlast (rel_of ds) then rel_of ds else s) m"
proof -
  from names(2) obtain es c where ds: "ds = es @ [c]" by (metis rev_exhaust)
  then have c: "is_name c" using names(1) by simp
  then have cne: "c \<noteq> []" by (simp add: is_name_def)
  have bl: "butlast (rel_of ds) = rel_of es @ c" using ds by (simp add: butlast_append)
  obtain r where r: "b = s @ 0 # r" "Suc m \<le> length r" "0 \<notin> set s" using b by (auto elim: holdsE)
  from r(2) obtain y r' where y: "r = y # r'" by (cases r) auto
  show ?thesis
  proof (cases "s = butlast (rel_of ds)")
    case True
    then have s': "s = rel_of es @ c" using bl by simp
    have "\<not> IS_SEPARATOR (last c)" using c cne by (simp add: is_name_def)
    moreover have "b ! (length s - 1) = last c" using nth_last [of s "0 # r"] r(1) s' cne by simp
    ultimately have ns: "\<not> IS_SEPARATOR (b ! (length s - 1))" by simp
    have ne: "length s \<noteq> 0" using s' cne by simp
    have "b[length s := 0x2f] = s @ 0x2f # r" "(s @ 0x2f # r)[length s + 1 := 0] = s @ 0x2f # 0 # r'"
      using r(1) y by (simp_all add: list_update_append)
    moreover have "length s < length b" "length s + 1 < length (s @ 0x2f # r)" using r(1) y by simp_all
    ultimately have "addsep b = Inr (s @ 0x2f # 0 # r')"
      unfolding addsep_def using holds_length [OF b] ns ne by simp
    moreover have "holds (s @ 0x2f # 0 # r') (rel_of ds) m"
    proof -
      have "rel_of ds = s @ [0x2f]" using ds s' by simp
      then show ?thesis using r(2,3) y by (simp add: holds_def)
    qed
    ultimately show ?thesis unfolding if_P [OF True] by blast
  next
    case False
    with s have s': "s = rel_of es @ c @ [0x2f] \<or> s = 0x2f # rel_of es @ c @ [0x2f]" using ds by auto
    then have "b ! (length s - 1) = 0x2f" "length s \<noteq> 0" using r by (auto simp: nth_append)
    then have "addsep b = Inr b" using holds_length [OF b] by (simp add: addsep_def)
    then show ?thesis using False r by (auto simp: holds_def)
  qed
qed

lemma strrsep_loop_name:
  "\<forall>x \<in> set c. x \<noteq> 0 \<and> \<not> IS_SEPARATOR x \<Longrightarrow> strrsep_loop n prev (c @ q) = strrsep_loop (n + length c) prev q"
  by (induction c arbitrary: n) auto

lemma strrsep_loop_rel:
  assumes "\<forall>c \<in> set cs. is_name c"
  shows "strrsep_loop n prev (0x2f # rel_of cs @ 0 # r) =
     Inr (if cs = [] then prev else Some (n + length (rel_of (butlast cs))))"
  using assms
proof (induction cs arbitrary: n prev)
  case (Cons c cs)
  then obtain x xs where c: "c = x # xs" "x \<noteq> 0" by (cases c) (auto simp: is_name_def)
  have "strrsep_loop n prev (0x2f # rel_of (c # cs) @ 0 # r) =
      strrsep_loop (Suc n) (Some n) (c @ 0x2f # rel_of cs @ 0 # r)"
    using c by simp
  also have "\<dots> = strrsep_loop (Suc n + length c) (Some n) (0x2f # rel_of cs @ 0 # r)"
    using strrsep_loop_name [of c] Cons.prems by (simp add: is_name_def)
  finally show ?case using Cons by simp
qed simp

lemma strcmp_holds:
  "holds b s m \<Longrightarrow> 0 \<notin> set p \<Longrightarrow> strcmp b (p @ [0]) n = Inr (take n s = take n p)"
  by (auto simp: holds_def strcmp_spec cstr_append)

text \<open>The three shapes of argument that work: absolute, relative and to the parent.\<close>

lemma abspath_absolute:
  assumes "holds old (pwd_of cs) room" "holds new (pwd_of ds) (Suc m)" "\<forall>c \<in> set ds. is_name c"
    "length (rel_of ds) \<le> length (rel_of cs) + room"
  shows "\<exists>p q. abspath old new = Inr (p, q) \<and> holds p (pwd_of ds) (length (rel_of cs) + room - length (rel_of ds))"
proof -
  have "\<exists>q. addsep new = Inr q \<and> holds q (pwd_of ds) m"
  proof (cases "ds = []")
    case True
    then show ?thesis using assms(2) by (auto simp: holds_def pwd_of_rel addsep_def c_length_spec)
  next
    case False
    have "pwd_of ds \<noteq> butlast (rel_of ds)"
      by (rule notI, drule arg_cong [of _ _ length]) (simp add: pwd_of_rel)
    with addsep_holds [OF assms(2) _ assms(3) False] show ?thesis by (simp add: pwd_of_rel)
  qed
  then obtain q where q: "addsep new = Inr q" "holds q (pwd_of ds) m" by auto
  have h: "hd q = 0x2f" using q(2) by (auto simp: holds_def pwd_of_rel)
  from strcpy_at_holds [of old "[]" "pwd_of cs" room q "pwd_of ds" m] assms q(2)
  obtain p where p: "strcpy_at 0 old q = Inr p" "holds p (pwd_of ds) (length (rel_of cs) + room - length (rel_of ds))"
    by (auto simp: pwd_of_rel)
  from p(1) have "strcpy old q = Inr p" by (simp add: strcpy_at_def)
  with q p h show ?thesis by (auto simp: abspath_def)
qed

lemma abspath_relative:
  assumes old: "holds old (pwd_of cs) room" and new: "holds new s (Suc (Suc m))" "s = rel_of ds \<or> s = butlast (rel_of ds)"
    and names: "\<forall>c \<in> set ds. is_name c" "ds \<noteq> []" "hd (hd ds) \<noteq> 0x2e" and room: "length (rel_of ds) \<le> room"
  shows "\<exists>p q. abspath old new = Inr (p, q) \<and> holds p (pwd_of (cs @ ds)) (room - length (rel_of ds))"
proof -
  from addsep_holds [OF new(1) _ names(1,2)] new(2) obtain q where
    q: "addsep new = Inr q" "holds q (rel_of ds) (Suc m)" by auto
  from names obtain x xs es where ds: "ds = (x # xs) # es" by (cases ds; cases "hd ds") (auto simp: is_name_def)
  with names have x: "x \<noteq> 0x2e" "\<not> IS_SEPARATOR x" by (auto simp: is_name_def)
  have h: "hd q = x" using q(2) ds by (auto simp: holds_def)
  have up: "strcmp q [0x2e, 0x2e, 0] 2 = Inr False" "strcmp q [0x2e, 0] 1 = Inr False"
    using strcmp_holds [OF q(2), of "[0x2e, 0x2e]" 2] strcmp_holds [OF q(2), of "[0x2e]" 1] ds x
    by simp_all
  from strcpy_at_holds [of old "pwd_of cs" "[]" room q "rel_of ds" "Suc m"] old q(2) room
  obtain p where p: "strcpy_at (length (pwd_of cs)) old q = Inr p"
      "holds p (pwd_of cs @ rel_of ds) (room - length (rel_of ds))" by auto
  from addsep_holds [OF q(2) _ names(1,2)] obtain q' where "addsep q = Inr q'" by auto
  with q p h x up holds_length [OF old] holds_length [OF q(2)] show ?thesis
    by (auto simp: abspath_def pwd_of_rel)
qed

lemma abspath_parent:
  assumes old: "holds old (pwd_of cs) room" and cs: "\<forall>c \<in> set cs. is_name c"
    and new: "holds new s (Suc m)" "s = 0x2e # 0x2e # 0x2f # rel_of ds \<or> ds = [] \<and> s = [0x2e, 0x2e]"
    and ds: "\<forall>c \<in> set ds. is_name c" and room: "length (rel_of ds) \<le> room"
  shows "\<exists>p q. abspath old new = Inr (p, q) \<and> cstr p = pwd_of (butlast cs @ ds) \<and> terminated p"
proof -
  let ?t = "0x2e # 0x2e # 0x2f # rel_of ds :: u8 list" and ?k = "length (pwd_of (butlast cs))"
  have "\<exists>q. addsep new = Inr q \<and> holds q ?t m"
  proof (cases "s = [0x2e, 0x2e]")
    case True
    obtain r where r: "new = s @ 0 # r" "Suc m \<le> length r" using new(1) by (auto elim: holdsE)
    then obtain y r' where "r = y # r'" by (cases r) auto
    with True r holds_length [OF new(1)] new(2) show ?thesis
      by (auto simp: addsep_def holds_def)
  next
    case False
    then have s: "s = ?t" using new(2) by auto
    have "IS_SEPARATOR (last ?t)" by (cases ds rule: rev_cases) auto
    moreover obtain r where "new = s @ 0 # r" using new(1) by (auto elim: holdsE)
    ultimately have "IS_SEPARATOR (new ! (length s - 1))"
      using nth_last [of s "0 # r"] s by simp
    with holds_length [OF new(1)] s new(1) show ?thesis by (auto simp: addsep_def holds_def)
  qed
  then obtain q where q: "addsep new = Inr q" "holds q ?t m" by auto
  have h: "hd q = 0x2e" using q(2) by (auto simp: holds_def)
  have up: "strcmp q [0x2e, 0x2e, 0] 2 = Inr True"
    using strcmp_holds [OF q(2), of "[0x2e, 0x2e]" 2] by simp
  obtain r where r: "old = pwd_of cs @ 0 # r" "room \<le> length r" "0 \<notin> set (pwd_of cs)" using old by (auto elim: holdsE)
  have old': "(if length (pwd_of cs) \<noteq> 1
      then rbind (strrsep old) (\<lambda>r. case r of None \<Rightarrow> Inl Fault | Some k \<Rightarrow> Inr (k + 1)) else Inr 1) = Inr ?k"
  proof (cases "cs = []")
    case False
    then have "length (pwd_of cs) \<noteq> 1" by (cases cs) (simp_all add: pwd_of_rel)
    moreover have "strrsep old = Inr (Some (length (rel_of (butlast cs))))"
      using strrsep_loop_rel [OF cs, of 0 None r] r False by (simp add: strrsep_def pwd_of_rel)
    ultimately show ?thesis by (simp add: pwd_of_rel)
  qed (simp add: pwd_of_rel)
  have split: "pwd_of cs = pwd_of (butlast cs) @ rel_of (if cs = [] then [] else [last cs])"
    by (cases cs rule: rev_cases) (simp_all add: pwd_of_rel)
  define t where "t = rel_of (if cs = [] then [] else [last cs])"
  have old_t: "holds old (pwd_of (butlast cs) @ t) room" using old split by (simp add: t_def)
  show ?thesis
  proof (cases "ds = []")
    case True
    have "?k < length old" using r split by simp
    moreover have "cstr (old[?k := 0]) = pwd_of (butlast cs)" "terminated (old[?k := 0])"
    proof -
      have "old = pwd_of (butlast cs) @ (t @ 0 # r)" using r(1) split by (simp add: t_def)
      moreover obtain y ys where "t @ 0 # r = y # ys" by (cases t) auto
      ultimately have "old[?k := 0] = pwd_of (butlast cs) @ 0 # ys" by (simp add: list_update_append)
      moreover have "0 \<notin> set (pwd_of (butlast cs))" using r(3) split by simp
      ultimately show "cstr (old[?k := 0]) = pwd_of (butlast cs)" "terminated (old[?k := 0])"
        by (simp_all add: cstr_append)
    qed
    ultimately show ?thesis
      using True q h up holds_length [OF old] holds_length [OF q(2)] old' by (auto simp: abspath_def)
  next
    case False
    have "holds (drop 3 q) (rel_of ds) m" using q(2) by (auto simp: holds_def)
    from strcpy_at_holds [OF old_t this] room obtain p where
      p: "strcpy_at ?k old (drop 3 q) = Inr p" "holds p (pwd_of (butlast cs) @ rel_of ds) (length t + room - length (rel_of ds))"
      by auto
    have "cstr p = pwd_of (butlast cs @ ds)" "terminated p"
      using holds_cstr [OF p(2)] by (simp_all add: pwd_of_rel)
    moreover have "length ?t > 3" using False by (cases ds) auto
    ultimately show ?thesis
      using q h up holds_length [OF old] holds_length [OF q(2)] old' p(1) by (auto simp: abspath_def)
  qed
qed

section \<open>The abstract working directory\<close>

text \<open>What the argument of \<^verbatim>\<open>chdir\<close> names, and the directory it leads to.\<close>

datatype target = Absolute "u8 list list" | Relative "u8 list list" | Parent "u8 list list"

fun cd :: "u8 list list \<Rightarrow> target \<Rightarrow> u8 list list" where
  "cd cs (Absolute ds) = ds"
| "cd cs (Relative ds) = cs @ ds"
| "cd cs (Parent ds) = butlast cs @ ds"

fun target_names :: "target \<Rightarrow> u8 list list" where
  "target_names (Absolute ds) = ds"
| "target_names (Relative ds) = ds"
| "target_names (Parent ds) = ds"

text \<open>The strings for a target: relative paths may lack the last separator and not begin with a dot.\<close>

fun denotes :: "u8 list \<Rightarrow> target \<Rightarrow> bool" where
  "denotes s (Absolute ds) \<longleftrightarrow> s = pwd_of ds"
| "denotes s (Relative ds) \<longleftrightarrow>
     (s = rel_of ds \<or> s = butlast (rel_of ds)) \<and> ds \<noteq> [] \<and> hd (hd ds) \<noteq> 0x2e"
| "denotes s (Parent ds) \<longleftrightarrow> s = 0x2e # 0x2e # 0x2f # rel_of ds \<or> ds = [] \<and> s = [0x2e, 0x2e]"

section \<open>Properties\<close>


text \<open>
  A relative path of at least two characters after which a separator fits, that begins
  with one dot, as \<^verbatim>\<open>./x\<close> and every hidden name, makes \<^verbatim>\<open>abspath\<close> copy through a null
  pointer: the terminator of the old path is taken as the destination address.
\<close>

theorem abspath_dot_faults:
  assumes "holds old s room" "holds new (0x2e # d # t) 2" "d \<noteq> 0x2e" "\<not> (IS_SEPARATOR d \<and> t = [])"
  shows "abspath old new = Inl Fault"
proof -
  let ?n = "0x2e # d # t"
  obtain r where r: "new = ?n @ 0 # r" "2 \<le> length r" "0 \<notin> set ?n" using assms(2) by (auto elim: holdsE)
  obtain y r' where y: "r = y # r'" using r(2) by (cases r) auto
  have "\<exists>q u. addsep new = Inr q \<and> holds q u 0 \<and> length u > 2 \<and> take 2 u = [0x2e, d]"
  proof (cases "IS_SEPARATOR (last ?n)")
    case True
    then have "addsep new = Inr new"
      using holds_length [OF assms(2)] nth_last [of ?n "0 # r"] r(1) by (simp add: addsep_def)
    moreover have "t \<noteq> []" using True assms(4) by auto
    moreover have "holds new ?n 0" "length ?n > 2"
      using assms(2) \<open>t \<noteq> []\<close> by (auto simp: holds_def)
    ultimately show ?thesis by (intro exI [of _ new] exI [of _ ?n]) simp
  next
    case False
    have "new[length ?n := 0x2f] = ?n @ 0x2f # r" "(?n @ 0x2f # r)[length ?n + 1 := 0] = ?n @ 0x2f # 0 # r'"
      using r(1) y by (simp_all add: list_update_append)
    then have "addsep new = Inr (?n @ 0x2f # 0 # r')"
      using holds_length [OF assms(2)] nth_last [of ?n "0 # r"] r(1) False y by (simp add: addsep_def)
    moreover have "holds (?n @ 0x2f # 0 # r') (?n @ [0x2f]) 0" using r(3) by (simp add: holds_def)
    ultimately show ?thesis by (intro exI [of _ "?n @ 0x2f # 0 # r'"] exI [of _ "?n @ [0x2f]"]) simp
  qed
  then obtain q u where q: "addsep new = Inr q" "holds q u 0" "length u > 2" "take 2 u = [0x2e, d]" by blast
  then have t1: "take 1 u = [0x2e]" by (cases u) auto
  have "hd q = 0x2e" using q(2,4) by (cases u) (auto simp: holds_def)
  with q t1 strcmp_holds [OF q(2), of "[0x2e, 0x2e]" 2] strcmp_holds [OF q(2), of "[0x2e]" 1] assms(3)
    holds_length [OF q(2)] holds_length [OF assms(1)]
  show ?thesis by (simp add: abspath_def)
qed

text \<open>
  \<^verbatim>\<open>filename\<close> returns the last name of an absolute or relative path, and \<^verbatim>\<open>_match\<close> accepts
  a directory entry for a path exactly when the entry is the first name of the path.
\<close>

theorem filename_last:
  assumes "cs \<noteq> []" "\<forall>c \<in> set cs. is_name c"
  shows "filename (join_path cs @ 0 # r) = Inr (Some (last cs @ 0 # r)) \<and>
     filename (0x2f # join_path cs @ 0 # r) = Inr (Some (last cs @ 0 # r)) \<and>
     (terminated entry \<longrightarrow> (\<forall>x \<in> set (cstr entry). \<not> IS_SEPARATOR x) \<longrightarrow>
        match_name (join_path cs @ 0 # r) entry = Inr (cstr entry = hd cs))"
proof -
  obtain c ds where cs: "cs = c # ds" using assms(1) by (cases cs) auto
  have c: "is_name c" "last cs \<noteq> []" using assms cs by (auto simp: is_name_def)
  have lst: "hd (last cs) \<noteq> 0 \<and> \<not> IS_SEPARATOR (hd (last cs))"
    using assms c(2) is_name_nonsep [of "last cs"] by (simp add: hd_in_set)
  obtain q where q: "next_name (join_path cs @ 0 # r) = Inr (Some q)" "next_name (0x2f # join_path cs @ 0 # r) = Inr (Some q)"
      "q = (if ds = [] then 0 # r else join_path ds @ 0 # r)"
    using next_name_name [OF c(1), of "0 # r" r] next_name_name [OF c(1), of "0x2f # join_path ds @ 0 # r" undefined]
    by (auto simp: cs join_path_Cons simp del: next_name.simps)
  have loop: "filename_loop p (Some q) = Inr (if ds = [] then p else last cs @ 0 # r)" for p
    using filename_loop_join [of ds p r] assms(2) cs q(3) by (cases "ds = []") auto
  obtain x xs where l: "last cs = x # xs" using c(2) by (cases "last cs") auto
  have "filename (join_path cs @ 0 # r) = Inr (Some (last cs @ 0 # r))"
    "filename (0x2f # join_path cs @ 0 # r) = Inr (Some (last cs @ 0 # r))"
    using q(1,2) loop lst l cs by (auto simp: filename_def simp del: next_name.simps)
  moreover have "takeWhile (\<lambda>x. \<not> IS_SEPARATOR x) (cstr (join_path cs @ 0 # r)) = hd cs"
  proof -
    have "takeWhile (\<lambda>x. \<not> IS_SEPARATOR x) (cstr (c @ 0 # z)) = c" "takeWhile (\<lambda>x. \<not> IS_SEPARATOR x) (cstr (c @ 0x2f # z)) = c" for z
      using is_name_nonsep [OF c(1)] by (induction c) (auto simp: cstr_append)
    then show ?thesis by (simp add: cs join_path_Cons)
  qed
  ultimately show ?thesis
    using match_name_spec [of "join_path cs @ 0 # r" entry] by (auto simp: terminated_def)
qed

section \<open>Witnesses\<close>


theorem abspath_dot_faults_witness:
  "abspath [0x2f, 0, 0] [0x2e, 0x2f, 0x61, 0, 0, 0] = Inl Fault"
  by (rule abspath_dot_faults [where s = "[0x2f]" and d = "0x2f" and t = "[0x61]" and room = 1])
    (simp_all add: holds_def)

theorem filename_last_witness:
  "filename [0x2f, 0x61, 0x2f, 0x62, 0] = Inr (Some [0x62, 0]) \<and>
     match_name [0x61, 0x2f, 0x62, 0] [0x61, 0] = Inr True"
  using filename_last [of "[[0x61], [0x62]]" "[]" "[0x61, 0]"]
  by (simp add: is_name_def IS_SEPARATOR_def del: match_name.simps)

end
