(* ===== verification/Kernel_List.thy ===== *)
theory Kernel_List
  imports Contracts
begin

text \<open>
  The intrusive circular doubly linked lists of \<^verbatim>\<open>kernel/list.c\<close> and
  \<^verbatim>\<open>include/common/list.h\<close>. Every list has a sentinel node \<^verbatim>\<open>end\<close> embedded in
  its \<^verbatim>\<open>List_t\<close>; every other node is linked into at most one list, the one its
  \<^verbatim>\<open>container\<close> field names. The heap is typed: nodes are reached through
  references, so aliasing between \<^verbatim>\<open>next\<close>, \<^verbatim>\<open>previous\<close> and the argument nodes is
  the aliasing of the C code. The second part gives the representation predicate that
  reads a list off the heap and proves every operation against it.
\<close>

section \<open>Data\<close>

text \<open>A \<^verbatim>\<open>ListNode_t *\<close>: null, the sentinel of a list, or a node object.\<close>

datatype nref = Null | End nat | Nd nat

record ListNode_t =
  n_value :: u32
  n_next :: nref
  n_previous :: nref
  n_owner :: nat
  n_container :: "nat option"

text \<open>The node objects, and \<^verbatim>\<open>number_of_node\<close> of each \<^verbatim>\<open>List_t\<close>.\<close>

record list_heap =
  nodes :: "nref \<Rightarrow> ListNode_t option"
  numbers :: "nat \<Rightarrow> u32 option"

definition get_node :: "list_heap \<Rightarrow> nref \<Rightarrow> ListNode_t res" where
  "get_node h r = (case nodes h r of None \<Rightarrow> Inl Fault | Some n \<Rightarrow> Inr n)"

definition upd_node :: "list_heap \<Rightarrow> nref \<Rightarrow> (ListNode_t \<Rightarrow> ListNode_t) \<Rightarrow> list_heap res" where
  "upd_node h r f =
     (case nodes h r of None \<Rightarrow> Inl Fault
      | Some n \<Rightarrow> Inr (h\<lparr>nodes := (nodes h)(r \<mapsto> f n)\<rparr>))"

definition upd_number :: "list_heap \<Rightarrow> nat option \<Rightarrow> (u32 \<Rightarrow> u32) \<Rightarrow> list_heap res" where
  "upd_number h c f =
     (case c of None \<Rightarrow> Inl Fault
      | Some l \<Rightarrow> (case numbers h l of None \<Rightarrow> Inl Fault
         | Some k \<Rightarrow> Inr (h\<lparr>numbers := (numbers h)(l \<mapsto> f k)\<rparr>)))"

section \<open>Operations\<close>

definition list_init :: "list_heap \<Rightarrow> nat \<Rightarrow> list_heap" where
  "list_init h l = h\<lparr>numbers := (numbers h)(l \<mapsto> 0),
     nodes := (nodes h)(End l \<mapsto>
       \<lparr>n_value = INFINTY, n_next = End l, n_previous = End l, n_owner = 0,
        n_container = Some l\<rparr>)\<rparr>"

definition node_init :: "list_heap \<Rightarrow> nat \<Rightarrow> nat \<Rightarrow> u32 \<Rightarrow> list_heap" where
  "node_init h n ow v = h\<lparr>nodes := (nodes h)(Nd n \<mapsto>
       \<lparr>n_value = v, n_next = Nd n, n_previous = Nd n, n_owner = ow, n_container = None\<rparr>)\<rparr>"

definition list_isempty :: "list_heap \<Rightarrow> nat \<Rightarrow> bool res" where
  "list_isempty h l = (case numbers h l of None \<Rightarrow> Inl Fault | Some k \<Rightarrow> Inr (k = 0))"

definition insert_before_anchor :: "list_heap \<Rightarrow> nref \<Rightarrow> nref \<Rightarrow> list_heap res" where
  "insert_before_anchor h anchor node =
     rbind (ensure (anchor \<noteq> Null \<and> node \<noteq> Null) Assert) (\<lambda>_.
     rbind (get_node h anchor) (\<lambda>a.
     rbind (upd_node h node (\<lambda>n. n\<lparr>n_previous := n_previous a\<rparr>)) (\<lambda>h.
     rbind (upd_node h node (\<lambda>n. n\<lparr>n_next := anchor\<rparr>)) (\<lambda>h.
     rbind (upd_node h anchor (\<lambda>n. n\<lparr>n_previous := node\<rparr>)) (\<lambda>h.
     rbind (get_node h node) (\<lambda>n.
     rbind (upd_node h (n_previous n) (\<lambda>p. p\<lparr>n_next := node\<rparr>)) (\<lambda>h.
     rbind (get_node h anchor) (\<lambda>a.
     rbind (upd_node h node (\<lambda>n. n\<lparr>n_container := n_container a\<rparr>)) (\<lambda>h.
     rbind (get_node h node) (\<lambda>n.
     upd_number h (n_container n) (\<lambda>k. k + 1)))))))))))"

definition insert_after_anchor :: "list_heap \<Rightarrow> nref \<Rightarrow> nref \<Rightarrow> list_heap res" where
  "insert_after_anchor h anchor node =
     rbind (ensure (anchor \<noteq> Null \<and> node \<noteq> Null) Assert) (\<lambda>_.
     rbind (get_node h anchor) (\<lambda>a.
     rbind (upd_node h node (\<lambda>n. n\<lparr>n_next := n_next a\<rparr>)) (\<lambda>h.
     rbind (upd_node h node (\<lambda>n. n\<lparr>n_previous := anchor\<rparr>)) (\<lambda>h.
     rbind (upd_node h anchor (\<lambda>n. n\<lparr>n_next := node\<rparr>)) (\<lambda>h.
     rbind (get_node h node) (\<lambda>n.
     rbind (upd_node h (n_next n) (\<lambda>p. p\<lparr>n_previous := node\<rparr>)) (\<lambda>h.
     rbind (get_node h anchor) (\<lambda>a.
     rbind (upd_node h node (\<lambda>n. n\<lparr>n_container := n_container a\<rparr>)) (\<lambda>h.
     rbind (get_node h node) (\<lambda>n.
     upd_number h (n_container n) (\<lambda>k. k + 1)))))))))))"

definition remove_node :: "list_heap \<Rightarrow> nref \<Rightarrow> list_heap res" where
  "remove_node h node =
     rbind (get_node h node) (\<lambda>n.
     let list = n_container n in
     rbind (ensure (list \<noteq> None) Assert) (\<lambda>_.
     rbind (upd_node h (n_next n) (\<lambda>p. p\<lparr>n_previous := n_previous n\<rparr>)) (\<lambda>h.
     rbind (get_node h node) (\<lambda>n.
     rbind (upd_node h (n_previous n) (\<lambda>p. p\<lparr>n_next := n_next n\<rparr>)) (\<lambda>h.
     rbind (upd_node h node (\<lambda>n. n\<lparr>n_next := node\<rparr>)) (\<lambda>h.
     rbind (upd_node h node (\<lambda>n. n\<lparr>n_previous := node\<rparr>)) (\<lambda>h.
     rbind (upd_node h node (\<lambda>n. n\<lparr>n_container := None\<rparr>)) (\<lambda>h.
     upd_number h list (\<lambda>k. k - 1)))))))))"

definition list_push :: "list_heap \<Rightarrow> nat \<Rightarrow> nref \<Rightarrow> list_heap res" where
  "list_push h l node =
     rbind (get_node h node) (\<lambda>n.
     rbind (ensure (n_container n = None) Assert) (\<lambda>_.
     insert_after_anchor h (End l) node))"

definition list_pop :: "list_heap \<Rightarrow> nat \<Rightarrow> (nref \<times> list_heap) res" where
  "list_pop h l =
     rbind (list_isempty h l) (\<lambda>empty.
     if empty then Inr (Null, h)
     else rbind (get_node h (End l)) (\<lambda>e.
       rbind (remove_node h (n_next e)) (\<lambda>h. Inr (n_next e, h))))"

definition list_pushback :: "list_heap \<Rightarrow> nat \<Rightarrow> nref \<Rightarrow> list_heap res" where
  "list_pushback h l node =
     rbind (get_node h node) (\<lambda>n.
     rbind (ensure (n_container n = None) Assert) (\<lambda>_.
     insert_before_anchor h (End l) node))"

definition list_popback :: "list_heap \<Rightarrow> nat \<Rightarrow> (nref \<times> list_heap) res" where
  "list_popback h l =
     rbind (list_isempty h l) (\<lambda>empty.
     if empty then Inr (Null, h)
     else rbind (get_node h (End l)) (\<lambda>e.
       rbind (remove_node h (n_previous e)) (\<lambda>h. Inr (n_previous e, h))))"

text \<open>The loop of \<^verbatim>\<open>search_node\<close> never advances its cursor \<^verbatim>\<open>ans\<close>.\<close>

partial_function (option) search_node_loop ::
    "list_heap \<Rightarrow> nat \<Rightarrow> u32 \<Rightarrow> nref \<Rightarrow> nref res option" where
  "search_node_loop h l v ans =
     (if ans = End l then Some (Inr Null)
      else case nodes h ans of None \<Rightarrow> Some (Inl Fault)
        | Some n \<Rightarrow> if n_value n = v then Some (Inr ans) else search_node_loop h l v ans)"

definition search_node :: "list_heap \<Rightarrow> nat \<Rightarrow> u32 \<Rightarrow> nref res" where
  "search_node h l v =
     rbind (get_node h (End l)) (\<lambda>e. run (search_node_loop h l v (n_next e)))"

text \<open>The cursor loop of \<^verbatim>\<open>list_insert\<close>: the reference at which it stops.\<close>

partial_function (option) list_insert_loop ::
    "list_heap \<Rightarrow> nat \<Rightarrow> u32 \<Rightarrow> (u32 \<Rightarrow> u32 \<Rightarrow> bool) \<Rightarrow> nref \<Rightarrow> nref res option" where
  "list_insert_loop h l v cmp iter =
     (if iter = End l then Some (Inr iter)
      else case nodes h iter of None \<Rightarrow> Some (Inl Fault)
        | Some n \<Rightarrow> if cmp (n_value n) v then Some (Inr iter)
                     else list_insert_loop h l v cmp (n_next n))"

definition list_insert ::
    "list_heap \<Rightarrow> nat \<Rightarrow> nref \<Rightarrow> (u32 \<Rightarrow> u32 \<Rightarrow> bool) \<Rightarrow> list_heap res" where
  "list_insert h l node cmp =
     rbind (list_isempty h l) (\<lambda>empty.
     if empty then list_push h l node
     else
       rbind (get_node h (End l)) (\<lambda>e.
       rbind (get_node h node) (\<lambda>n.
       rbind (run (list_insert_loop h l (n_value n) cmp (n_next e))) (\<lambda>iter.
       rbind (if iter = End l then Inr h else insert_before_anchor h iter node) (\<lambda>h.
       if iter = End l then list_pushback h l node else Inr h)))))"

definition less_u32 :: "u32 \<Rightarrow> u32 \<Rightarrow> bool" where
  "less_u32 a b = (a < b)"

definition greater_u32 :: "u32 \<Rightarrow> u32 \<Rightarrow> bool" where
  "greater_u32 a b = (a > b)"

section \<open>Reading the heap\<close>

text \<open>Each field as a function of the reference; a dead reference reads as null.\<close>

definition alive :: "list_heap \<Rightarrow> nref \<Rightarrow> bool" where
  "alive h r = (nodes h r \<noteq> None)"

definition nx :: "list_heap \<Rightarrow> nref \<Rightarrow> nref" where
  "nx h r = (case nodes h r of None \<Rightarrow> Null | Some n \<Rightarrow> n_next n)"

definition pv :: "list_heap \<Rightarrow> nref \<Rightarrow> nref" where
  "pv h r = (case nodes h r of None \<Rightarrow> Null | Some n \<Rightarrow> n_previous n)"

definition ct :: "list_heap \<Rightarrow> nref \<Rightarrow> nat option" where
  "ct h r = (case nodes h r of None \<Rightarrow> None | Some n \<Rightarrow> n_container n)"

definition vl :: "list_heap \<Rightarrow> nref \<Rightarrow> u32" where
  "vl h r = (case nodes h r of None \<Rightarrow> 0 | Some n \<Rightarrow> n_value n)"

definition ow :: "list_heap \<Rightarrow> nref \<Rightarrow> nat" where
  "ow h r = (case nodes h r of None \<Rightarrow> 0 | Some n \<Rightarrow> n_owner n)"

lemmas fields = alive_def nx_def pv_def ct_def vl_def ow_def

lemma ct_alive: "ct h r = Some l \<Longrightarrow> alive h r"
  by (auto simp: ct_def alive_def split: option.splits)

text \<open>The three pointer surgeries, as updates of the field functions.\<close>

lemma insert_before_effect:
  assumes "alive h node" "alive h (pv h anchor)" "node \<noteq> Null" "anchor \<noteq> Null"
    and "anchor \<noteq> node" "pv h anchor \<noteq> node" "ct h anchor = Some l" "numbers h l = Some k"
  obtains h' where "insert_before_anchor h anchor node = Inr h'"
    and "nx h' = (nx h)(node := anchor, pv h anchor := node)"
    and "pv h' = (pv h)(node := pv h anchor, anchor := node)"
    and "ct h' = (ct h)(node := Some l)"
    and "vl h' = vl h" "ow h' = ow h" "alive h' = alive h"
    and "numbers h' = (numbers h)(l \<mapsto> k + 1)"
proof -
  from assms obtain a n p where n: "nodes h anchor = Some a" "nodes h node = Some n"
      "nodes h (n_previous a) = Some p" "n_container a = Some l"
    by (auto simp: fields split: option.splits)
  show ?thesis
  proof (cases "n_previous a = anchor")
    case True
    show ?thesis
      by (rule that) (use n True assms in \<open>auto simp: insert_before_anchor_def get_node_def
          upd_node_def upd_number_def fields fun_eq_iff split: option.splits if_splits\<close>)
  next
    case False
    show ?thesis
      by (rule that) (use n False assms in \<open>auto simp: insert_before_anchor_def get_node_def
          upd_node_def upd_number_def fields fun_eq_iff split: option.splits if_splits\<close>)
  qed
qed

lemma insert_after_effect:
  assumes "alive h node" "alive h (nx h anchor)" "node \<noteq> Null" "anchor \<noteq> Null"
    and "anchor \<noteq> node" "nx h anchor \<noteq> node" "ct h anchor = Some l" "numbers h l = Some k"
  obtains h' where "insert_after_anchor h anchor node = Inr h'"
    and "nx h' = (nx h)(node := nx h anchor, anchor := node)"
    and "pv h' = (pv h)(node := anchor, nx h anchor := node)"
    and "ct h' = (ct h)(node := Some l)"
    and "vl h' = vl h" "ow h' = ow h" "alive h' = alive h"
    and "numbers h' = (numbers h)(l \<mapsto> k + 1)"
proof -
  from assms obtain a n p where n: "nodes h anchor = Some a" "nodes h node = Some n"
      "nodes h (n_next a) = Some p" "n_container a = Some l"
    by (auto simp: fields split: option.splits)
  show ?thesis
  proof (cases "n_next a = anchor")
    case True
    show ?thesis
      by (rule that) (use n True assms in \<open>auto simp: insert_after_anchor_def get_node_def
          upd_node_def upd_number_def fields fun_eq_iff split: option.splits if_splits\<close>)
  next
    case False
    show ?thesis
      by (rule that) (use n False assms in \<open>auto simp: insert_after_anchor_def get_node_def
          upd_node_def upd_number_def fields fun_eq_iff split: option.splits if_splits\<close>)
  qed
qed

lemma remove_node_effect:
  assumes "alive h (nx h node)" "alive h (pv h node)" "node \<noteq> nx h node" "node \<noteq> pv h node"
    and "ct h node = Some l" "numbers h l = Some k"
  obtains h' where "remove_node h node = Inr h'"
    and "nx h' = (nx h)(pv h node := nx h node, node := node)"
    and "pv h' = (pv h)(nx h node := pv h node, node := node)"
    and "ct h' = (ct h)(node := None)"
    and "vl h' = vl h" "ow h' = ow h" "alive h' = alive h"
    and "numbers h' = (numbers h)(l \<mapsto> k - 1)"
proof -
  from assms obtain n a p where n: "nodes h node = Some n" "nodes h (n_next n) = Some a"
      "nodes h (n_previous n) = Some p" "n_container n = Some l"
    by (auto simp: fields split: option.splits)
  show ?thesis
  proof (cases "n_previous n = n_next n")
    case True
    show ?thesis
      by (rule that) (use n True assms in \<open>auto simp: remove_node_def get_node_def upd_node_def
          Let_def upd_number_def fields fun_eq_iff split: option.splits if_splits\<close>)
  next
    case False
    show ?thesis
      by (rule that) (use n False assms in \<open>auto simp: remove_node_def get_node_def upd_node_def
          Let_def upd_number_def fields fun_eq_iff split: option.splits if_splits\<close>)
  qed
qed

section \<open>Chains and the list predicate\<close>

text \<open>
  \<open>chain nxt prv a xs b\<close>: from \<open>a\<close>, following \<^verbatim>\<open>next\<close>, come the nodes \<open>xs\<close> and then
  \<open>b\<close>, and \<^verbatim>\<open>previous\<close> leads back the same way.
\<close>

fun chain :: "(nref \<Rightarrow> nref) \<Rightarrow> (nref \<Rightarrow> nref) \<Rightarrow> nref \<Rightarrow> nat list \<Rightarrow> nref \<Rightarrow> bool" where
  "chain nxt prv a [] b \<longleftrightarrow> nxt a = b \<and> prv b = a"
| "chain nxt prv a (x # xs) b \<longleftrightarrow> nxt a = Nd x \<and> prv (Nd x) = a \<and> chain nxt prv (Nd x) xs b"

lemma Nd_image [simp]: "Nd x \<in> Nd ` A \<longleftrightarrow> x \<in> A" "End l \<notin> Nd ` A" "Null \<notin> Nd ` A"
  by auto

lemma chain_append [simp]:
  "chain nxt prv a (xs @ y # ys) b \<longleftrightarrow> chain nxt prv a xs (Nd y) \<and> chain nxt prv (Nd y) ys b"
  by (induction xs arbitrary: a) auto

lemma chain_upd_next [simp]:
  "r \<noteq> a \<Longrightarrow> r \<notin> Nd ` set xs \<Longrightarrow> chain (nxt(r := v)) prv a xs b = chain nxt prv a xs b"
  by (induction xs arbitrary: a) auto

lemma chain_upd_prev [simp]:
  "r \<noteq> b \<Longrightarrow> r \<notin> Nd ` set xs \<Longrightarrow> chain nxt (prv(r := v)) a xs b = chain nxt prv a xs b"
  by (induction xs arbitrary: a) auto

lemma chain_next_last: "chain nxt prv a xs b \<Longrightarrow> prv b = (if xs = [] then a else Nd (last xs))"
  by (induction xs arbitrary: a) auto

lemma chain_next_first: "chain nxt prv a xs b \<Longrightarrow> nxt a = (if xs = [] then b else Nd (hd xs))"
  by (cases xs) auto

text \<open>
  \<open>lrepr h l xs\<close>: list \<open>l\<close> of heap \<open>h\<close> holds exactly the nodes \<open>xs\<close>, in this order
  from \<^verbatim>\<open>end.next\<close>, and \<^verbatim>\<open>number_of_node\<close> counts them.
\<close>

definition lrepr :: "list_heap \<Rightarrow> nat \<Rightarrow> nat list \<Rightarrow> bool" where
  "lrepr h l xs \<longleftrightarrow>
     chain (nx h) (pv h) (End l) xs (End l) \<and> distinct xs \<and>
     ct h (End l) = Some l \<and> ow h (End l) = 0 \<and>
     (\<forall>n. ct h (Nd n) = Some l \<longleftrightarrow> n \<in> set xs) \<and>
     numbers h l = Some (word_of_nat (length xs)) \<and> length xs < 2 ^ 32"

lemma lrepr_unique_container: "lrepr h l xs \<Longrightarrow> lrepr h m ys \<Longrightarrow> x \<in> set xs \<Longrightarrow> x \<in> set ys \<Longrightarrow> l = m"
  unfolding lrepr_def by (metis option.inject)

lemma lrepr_ct: "lrepr h l xs \<Longrightarrow> ct h (Nd n) = Some l \<longleftrightarrow> n \<in> set xs"
  by (simp add: lrepr_def)

lemma lrepr_alive:
  "lrepr h l xs \<Longrightarrow> alive h (End l)"
  "lrepr h l xs \<Longrightarrow> x \<in> set xs \<Longrightarrow> alive h (Nd x)"
  by (auto simp: lrepr_def intro: ct_alive)

lemma lrepr_End: "lrepr h l xs \<Longrightarrow> ct h (End l) = Some l"
  by (simp add: lrepr_def)

lemma lrepr_numbers: "lrepr h l xs \<Longrightarrow> numbers h l = Some (word_of_nat (length xs))"
  by (simp add: lrepr_def)

lemma lrepr_outside: "lrepr h m zs \<Longrightarrow> ct h r \<noteq> Some m \<Longrightarrow> r \<noteq> End m \<and> r \<notin> Nd ` set zs"
  by (cases r) (auto simp: lrepr_ct dest: lrepr_End)

lemma lrepr_number_0: "lrepr h l xs \<Longrightarrow> list_isempty h l = Inr (xs = [])"
proof -
  assume r: "lrepr h l xs"
  then have "unat (word_of_nat (length xs) :: u32) = length xs"
    by (simp add: lrepr_def unat_of_nat)
  then have "(word_of_nat (length xs) :: u32) = 0 \<longleftrightarrow> xs = []"
    by (metis length_0_conv unat_eq_zero)
  with r show ?thesis by (simp add: list_isempty_def lrepr_def)
qed

lemma lrepr_unique: "lrepr h l xs \<Longrightarrow> lrepr h l ys \<Longrightarrow> xs = ys"
proof -
  have *: "chain nxt prv a xs (End l) \<Longrightarrow> chain nxt prv a ys (End l) \<Longrightarrow> xs = ys" for nxt prv a
  proof (induction xs arbitrary: a ys)
    case Nil
    then show ?case by (cases ys) auto
  next
    case (Cons x xs)
    then show ?case by (cases ys) auto
  qed
  assume "lrepr h l xs" "lrepr h l ys"
  then show ?thesis by (auto simp: lrepr_def dest: *)
qed

text \<open>
  \<open>lstep h h' l n c\<close>: an operation on list \<open>l\<close> moved node \<open>n\<close> into container \<open>c\<close> and
  left every value, owner and every other list alone.
\<close>

definition lstep :: "list_heap \<Rightarrow> list_heap \<Rightarrow> nat \<Rightarrow> nat \<Rightarrow> nat option \<Rightarrow> bool" where
  "lstep h h' l n c \<longleftrightarrow>
     ct h' = (ct h)(Nd n := c) \<and> vl h' = vl h \<and> ow h' = ow h \<and> alive h' = alive h \<and>
     (\<forall>m zs. m \<noteq> l \<longrightarrow> lrepr h m zs \<longrightarrow> lrepr h' m zs)"

lemma lrepr_frame:
  assumes "lrepr h m zs" "m \<noteq> l" "n \<notin> set zs" "c \<noteq> Some m"
    and "\<And>r. r \<in> {a, b} \<Longrightarrow> r \<noteq> End m \<and> r \<notin> Nd ` set zs"
    and "\<And>r. r \<in> {a', b'} \<Longrightarrow> r \<noteq> End m \<and> r \<notin> Nd ` set zs"
    and "nx h' = (nx h)(a := u, b := v)" "pv h' = (pv h)(a' := u', b' := v')"
    and "ct h' = (ct h)(Nd n := c)" "ow h' = ow h" "numbers h' = (numbers h)(l \<mapsto> k)"
  shows "lrepr h' m zs"
  using assms by (simp add: lrepr_def)

lemma word_of_nat_Suc_pred:
  "word_of_nat (Suc k) - 1 = (word_of_nat k :: 'a::len word)"
  "word_of_nat k + 1 = (word_of_nat (Suc k) :: 'a::len word)"
  by simp_all

lemma insert_before_spec:
  assumes r: "lrepr h l (xs @ ys)" and free: "alive h (Nd n)" "ct h (Nd n) = None"
    and len: "Suc (length (xs @ ys)) < 2 ^ 32"
    and anchor: "anchor = (case ys of [] \<Rightarrow> End l | y # _ \<Rightarrow> Nd y)"
  obtains h' where "insert_before_anchor h anchor (Nd n) = Inr h'"
    and "lrepr h' l (xs @ n # ys)" and "lstep h h' l n (Some l)"
proof -
  define prev where "prev = (if xs = [] then End l else Nd (last xs))"
  from r anchor have c1: "chain (nx h) (pv h) (End l) xs anchor"
    by (cases ys) (auto simp: lrepr_def)
  from r anchor have c2: "ys \<noteq> [] \<Longrightarrow> chain (nx h) (pv h) anchor (tl ys) (End l)"
    by (cases ys) (auto simp: lrepr_def)
  from c1 have prev: "pv h anchor = prev"
    by (simp add: chain_next_last prev_def)
  have n: "n \<notin> set xs" "n \<notin> set ys"
    using free lrepr_ct [OF r, of n] by auto
  have ain: "anchor = End l \<and> ys = [] \<or> (\<exists>y ys'. ys = y # ys' \<and> anchor = Nd y)"
    using anchor by (cases ys) auto
  have pin: "prev = End l \<and> xs = [] \<or> (\<exists>xs' x. xs = xs' @ [x] \<and> prev = Nd x)"
    by (cases xs rule: rev_cases) (auto simp: prev_def)
  have "ct h anchor = Some l"
    by (cases ys) (simp_all add: anchor lrepr_ct [OF r] lrepr_End [OF r])
  moreover have "ct h prev = Some l"
    by (simp add: prev_def lrepr_ct [OF r] lrepr_End [OF r])
  ultimately have cts: "ct h anchor = Some l" "ct h prev = Some l" by simp_all
  with prev have al: "alive h (pv h anchor)" by (simp add: ct_alive)
  have ne: "anchor \<noteq> Nd n" "prev \<noteq> Nd n" "anchor \<noteq> Null"
    using ain pin n by auto
  obtain h' where h': "insert_before_anchor h anchor (Nd n) = Inr h'"
    "nx h' = (nx h)(Nd n := anchor, prev := Nd n)"
    "pv h' = (pv h)(Nd n := prev, anchor := Nd n)"
    "ct h' = (ct h)(Nd n := Some l)" "vl h' = vl h" "ow h' = ow h" "alive h' = alive h"
    "numbers h' = (numbers h)(l \<mapsto> word_of_nat (length (xs @ ys)) + 1)"
    by (rule insert_before_effect [OF free(1) al _ ne(3,1) _ cts(1) lrepr_numbers [OF r],
          unfolded prev]) (use ne in simp_all)
  have dist: "distinct (xs @ n # ys)"
    using r n by (auto simp: lrepr_def)
  have "chain (nx h') (pv h') (End l) xs (Nd n)"
    using pin c1 dist ain n by (auto simp: h'(2,3))
  moreover have "chain (nx h') (pv h') (Nd n) ys (End l)"
    using ain pin c2 dist n by (auto simp: h'(2,3))
  ultimately have "lrepr h' l (xs @ n # ys)"
    using r dist len free h'(4,6,8) by (auto simp: lrepr_def word_of_nat_Suc_pred)
  moreover have "lrepr h' m zs" if "m \<noteq> l" "lrepr h m zs" for m zs
  proof (rule lrepr_frame [OF that(2,1) _ _ _ _ h'(2,3,4,6,8)])
    have "r \<noteq> End m \<and> r \<notin> Nd ` set zs" if "ct h r = Some l \<or> ct h r = None" for r
      using lrepr_outside [OF \<open>lrepr h m zs\<close>, of r] that \<open>m \<noteq> l\<close> by auto
    then show "r \<in> {Nd n, prev} \<Longrightarrow> r \<noteq> End m \<and> r \<notin> Nd ` set zs"
      "r \<in> {Nd n, anchor} \<Longrightarrow> r \<noteq> End m \<and> r \<notin> Nd ` set zs" for r
      using cts free by auto
  qed (use that free lrepr_ct [OF that(2), of n] in auto)
  ultimately show ?thesis
    using that h' by (simp add: lstep_def)
qed

lemma insert_after_end_spec:
  assumes r: "lrepr h l xs" and free: "alive h (Nd n)" "ct h (Nd n) = None"
    and len: "Suc (length xs) < 2 ^ 32"
  obtains h' where "insert_after_anchor h (End l) (Nd n) = Inr h'"
    and "lrepr h' l (n # xs)" and "lstep h h' l n (Some l)"
proof -
  define nxt where "nxt = (if xs = [] then End l else Nd (hd xs))"
  from r have nxt: "nx h (End l) = nxt"
    by (auto simp: lrepr_def chain_next_first nxt_def)
  have n: "n \<notin> set xs"
    using free lrepr_ct [OF r, of n] by auto
  have nin: "nxt = End l \<and> xs = [] \<or> (\<exists>y ys. xs = y # ys \<and> nxt = Nd y)"
    by (cases xs) (auto simp: nxt_def)
  have cts: "ct h (End l) = Some l" "ct h nxt = Some l"
    by (simp_all add: nxt_def lrepr_ct [OF r] lrepr_End [OF r])
  with nxt have al: "alive h (nx h (End l))" by (simp add: ct_alive)
  obtain h' where h': "insert_after_anchor h (End l) (Nd n) = Inr h'"
    "nx h' = (nx h)(Nd n := nxt, End l := Nd n)"
    "pv h' = (pv h)(Nd n := End l, nxt := Nd n)"
    "ct h' = (ct h)(Nd n := Some l)" "vl h' = vl h" "ow h' = ow h" "alive h' = alive h"
    "numbers h' = (numbers h)(l \<mapsto> word_of_nat (length xs) + 1)"
    by (rule insert_after_effect [OF free(1) al _ _ _ _ cts(1) lrepr_numbers [OF r],
          unfolded nxt]) (use nin n in auto)
  have d: "distinct xs" "chain (nx h) (pv h) (End l) xs (End l)"
    using r by (simp_all add: lrepr_def)
  have "chain (nx h') (pv h') (Nd n) xs (End l)"
    using nin n d by (auto simp: h'(2,3))
  moreover have "nx h' (End l) = Nd n" "pv h' (Nd n) = End l"
    using nin n by (auto simp: h'(2,3))
  ultimately have "lrepr h' l (n # xs)"
    using r len n d(1) by (simp add: lrepr_def h'(4,6,8) word_of_nat_Suc_pred)
  moreover have "lrepr h' m zs" if "m \<noteq> l" "lrepr h m zs" for m zs
  proof (rule lrepr_frame [OF that(2,1) _ _ _ _ h'(2,3,4,6,8)])
    have "r \<noteq> End m \<and> r \<notin> Nd ` set zs" if "ct h r = Some l \<or> ct h r = None" for r
      using lrepr_outside [OF \<open>lrepr h m zs\<close>, of r] that \<open>m \<noteq> l\<close> by auto
    then show "r \<in> {Nd n, End l} \<Longrightarrow> r \<noteq> End m \<and> r \<notin> Nd ` set zs"
      "r \<in> {Nd n, nxt} \<Longrightarrow> r \<noteq> End m \<and> r \<notin> Nd ` set zs" for r
      using cts free by auto
  qed (use that free lrepr_ct [OF that(2), of n] in auto)
  ultimately show ?thesis
    using that h' by (simp add: lstep_def)
qed

lemma remove_node_spec:
  assumes r: "lrepr h l (xs @ n # ys)"
  obtains h' where "remove_node h (Nd n) = Inr h'"
    and "lrepr h' l (xs @ ys)" and "lstep h h' l n None" and "pv h' (Nd n) = Nd n"
proof -
  define prev where "prev = (if xs = [] then End l else Nd (last xs))"
  define nxt where "nxt = (if ys = [] then End l else Nd (hd ys))"
  from r have c: "chain (nx h) (pv h) (End l) xs (Nd n)" "chain (nx h) (pv h) (Nd n) ys (End l)"
    by (auto simp: lrepr_def)
  have pn: "pv h (Nd n) = prev" "nx h (Nd n) = nxt"
    using chain_next_last [OF c(1)] chain_next_first [OF c(2)] by (auto simp: prev_def nxt_def)
  have pin: "prev = End l \<and> xs = [] \<or> (\<exists>xs' x. xs = xs' @ [x] \<and> prev = Nd x)"
    by (cases xs rule: rev_cases) (auto simp: prev_def)
  have nin: "nxt = End l \<and> ys = [] \<or> (\<exists>y ys'. ys = y # ys' \<and> nxt = Nd y)"
    by (cases ys) (auto simp: nxt_def)
  have d: "distinct (xs @ n # ys)" using r by (simp add: lrepr_def)
  have cts: "ct h prev = Some l" "ct h nxt = Some l" "ct h (Nd n) = Some l"
    by (simp_all add: prev_def nxt_def lrepr_ct [OF r] lrepr_End [OF r])
  have ne: "Nd n \<noteq> nxt" "Nd n \<noteq> prev"
    using d pin nin by auto
  obtain h' where h': "remove_node h (Nd n) = Inr h'"
    "nx h' = (nx h)(prev := nxt, Nd n := Nd n)"
    "pv h' = (pv h)(nxt := prev, Nd n := Nd n)"
    "ct h' = (ct h)(Nd n := None)" "vl h' = vl h" "ow h' = ow h" "alive h' = alive h"
    "numbers h' = (numbers h)(l \<mapsto> word_of_nat (length (xs @ n # ys)) - 1)"
    by (rule remove_node_effect [OF _ _ _ _ cts(3) lrepr_numbers [OF r], unfolded pn])
      (use cts(1,2) ne in \<open>simp_all add: ct_alive\<close>)
  have "chain (nx h') (pv h') (End l) (xs @ ys) (End l)"
    using pin nin c d by (auto simp: h'(2,3))
  then have "lrepr h' l (xs @ ys)"
    using r d h'(4,6,8) by (auto simp: lrepr_def word_of_nat_Suc_pred)
  moreover have "lrepr h' m zs" if "m \<noteq> l" "lrepr h m zs" for m zs
  proof (rule lrepr_frame [OF that(2,1) _ _ _ _ h'(2,3,4,6,8)])
    have "r \<noteq> End m \<and> r \<notin> Nd ` set zs" if "ct h r = Some l" for r
      using lrepr_outside [OF \<open>lrepr h m zs\<close>, of r] that \<open>m \<noteq> l\<close> by auto
    then show "r \<in> {prev, Nd n} \<Longrightarrow> r \<noteq> End m \<and> r \<notin> Nd ` set zs"
      "r \<in> {nxt, Nd n} \<Longrightarrow> r \<noteq> End m \<and> r \<notin> Nd ` set zs" for r
      using cts by auto
  qed (use that cts lrepr_ct [OF that(2), of n] in auto)
  ultimately show ?thesis
    using that h' by (simp add: lstep_def)
qed

section \<open>The exported operations\<close>

text \<open>
  A node that is alive and in no list may be inserted. The specifications of the four
  end operations and of the ordered insertion follow from the three surgeries.
\<close>

definition free_node :: "list_heap \<Rightarrow> nat \<Rightarrow> bool" where
  "free_node h n \<longleftrightarrow> alive h (Nd n) \<and> ct h (Nd n) = None"

lemma free_get: "free_node h n \<Longrightarrow> \<exists>nd. get_node h (Nd n) = Inr nd \<and> n_container nd = None \<and> n_value nd = vl h (Nd n)"
  by (auto simp: free_node_def get_node_def fields split: option.splits)

lemma lrepr_get_end: "lrepr h l xs \<Longrightarrow>
    \<exists>e. get_node h (End l) = Inr e \<and> n_next e = nx h (End l) \<and> n_previous e = pv h (End l)"
  by (auto simp: get_node_def fields dest!: lrepr_alive(1) split: option.splits)

lemma lrepr_first: "lrepr h l xs \<Longrightarrow> nx h (End l) = (if xs = [] then End l else Nd (hd xs))"
  by (auto simp: lrepr_def chain_next_first)

lemma lrepr_last: "lrepr h l xs \<Longrightarrow> pv h (End l) = (if xs = [] then End l else Nd (last xs))"
  by (auto simp: lrepr_def chain_next_last)

lemma list_push_spec:
  assumes "lrepr h l xs" "free_node h n" "Suc (length xs) < 2 ^ 32"
  shows "\<exists>h'. list_push h l (Nd n) = Inr h' \<and> lrepr h' l (n # xs) \<and> lstep h h' l n (Some l)"
proof -
  obtain h' where "insert_after_anchor h (End l) (Nd n) = Inr h'" "lrepr h' l (n # xs)"
      "lstep h h' l n (Some l)"
    by (rule insert_after_end_spec [of h l xs n]) (use assms in \<open>simp_all add: free_node_def\<close>)
  then show ?thesis using free_get [OF assms(2)] by (auto simp: list_push_def)
qed

lemma list_pushback_spec:
  assumes "lrepr h l xs" "free_node h n" "Suc (length xs) < 2 ^ 32"
  shows "\<exists>h'. list_pushback h l (Nd n) = Inr h' \<and> lrepr h' l (xs @ [n]) \<and> lstep h h' l n (Some l)"
proof -
  obtain h' where "insert_before_anchor h (End l) (Nd n) = Inr h'" "lrepr h' l (xs @ [n])"
      "lstep h h' l n (Some l)"
    by (rule insert_before_spec [of h l xs "[]" n "End l"]) (use assms in \<open>simp_all add: free_node_def\<close>)
  then show ?thesis using free_get [OF assms(2)] by (auto simp: list_pushback_def)
qed

lemma list_pop_Nil: "lrepr h l [] \<Longrightarrow> list_pop h l = Inr (Null, h)"
  by (simp add: list_pop_def lrepr_number_0)

lemma list_popback_Nil: "lrepr h l [] \<Longrightarrow> list_popback h l = Inr (Null, h)"
  by (simp add: list_popback_def lrepr_number_0)

lemma list_pop_spec:
  assumes "lrepr h l (x # xs)"
  shows "\<exists>h'. list_pop h l = Inr (Nd x, h') \<and> lrepr h' l xs \<and> lstep h h' l x None"
proof -
  obtain h' where "remove_node h (Nd x) = Inr h'" "lrepr h' l xs" "lstep h h' l x None"
    by (rule remove_node_spec [of h l "[]" x xs]) (use assms in simp_all)
  then show ?thesis
    using lrepr_get_end [OF assms] lrepr_first [OF assms] lrepr_number_0 [OF assms]
    by (auto simp: list_pop_def)
qed

lemma list_popback_spec:
  assumes "lrepr h l (xs @ [x])"
  shows "\<exists>h'. list_popback h l = Inr (Nd x, h') \<and> lrepr h' l xs \<and> lstep h h' l x None"
proof -
  obtain h' where "remove_node h (Nd x) = Inr h'" "lrepr h' l xs" "lstep h h' l x None"
    by (rule remove_node_spec [of h l xs x "[]"]) (use assms in simp_all)
  then show ?thesis
    using lrepr_get_end [OF assms] lrepr_last [OF assms] lrepr_number_0 [OF assms]
    by (auto simp: list_popback_def)
qed

lemma lstep_free:
  "lstep h h' l n c \<Longrightarrow> m \<noteq> n \<Longrightarrow> free_node h' m \<longleftrightarrow> free_node h m"
  "lstep h h' l n None \<Longrightarrow> alive h (Nd n) \<Longrightarrow> free_node h' n"
  by (auto simp: lstep_def free_node_def)

text \<open>Inserting a node that already is in a list is caught by the assertion.\<close>

lemma push_linked:
  assumes "ct h (Nd n) = Some m"
  shows "list_push h l (Nd n) = Inl Assert" "list_pushback h l (Nd n) = Inl Assert"
  using assms
  by (auto simp: list_push_def list_pushback_def get_node_def ct_def split: option.splits)

lemma remove_unlinked:
  assumes "free_node h n"
  shows "remove_node h (Nd n) = Inl Assert"
  using free_get [OF assms] by (auto simp: remove_node_def)

section \<open>Ordered insertion and search\<close>

lemma insert_loop_chain:
  assumes "chain (nx h) (pv h) a xs (End l)" "\<forall>x \<in> set xs. alive h (Nd x)"
  shows "list_insert_loop h l v cmp (nx h a) =
     Some (Inr (case dropWhile (\<lambda>x. \<not> cmp (vl h (Nd x)) v) xs of [] \<Rightarrow> End l | y # _ \<Rightarrow> Nd y))"
  using assms
proof (induction xs arbitrary: a)
  case Nil
  then show ?case by (simp add: list_insert_loop.simps)
next
  case (Cons x xs)
  then obtain nd where "nodes h (Nd x) = Some nd" by (auto simp: alive_def)
  then have "nx h (Nd x) = n_next nd" "vl h (Nd x) = n_value nd" by (simp_all add: fields)
  with Cons.prems Cons.IH [of "Nd x"] \<open>nodes h (Nd x) = Some nd\<close> show ?case
    by (subst list_insert_loop.simps) simp
qed

text \<open>The position \<^verbatim>\<open>list_insert\<close> chooses: before the first node whose value compares.\<close>

definition ordered_place :: "(nat \<Rightarrow> u32) \<Rightarrow> (u32 \<Rightarrow> u32 \<Rightarrow> bool) \<Rightarrow> nat \<Rightarrow> nat list \<Rightarrow> nat list" where
  "ordered_place key cmp n xs =
     takeWhile (\<lambda>x. \<not> cmp (key x) (key n)) xs @ n # dropWhile (\<lambda>x. \<not> cmp (key x) (key n)) xs"

lemma ordered_place_set: "set (ordered_place key cmp n xs) = insert n (set xs)"
  by (simp add: ordered_place_def) (metis Un_insert_right set_append takeWhile_dropWhile_id)

lemma list_insert_spec:
  assumes r: "lrepr h l xs" and fr: "free_node h n" and len: "Suc (length xs) < 2 ^ 32"
  shows "\<exists>h'. list_insert h l (Nd n) cmp = Inr h' \<and>
     lrepr h' l (ordered_place (\<lambda>x. vl h (Nd x)) cmp n xs) \<and> lstep h h' l n (Some l)"
proof (cases "xs = []")
  case True
  with list_push_spec [OF assms] lrepr_number_0 [OF r] show ?thesis
    by (simp add: list_insert_def ordered_place_def)
next
  case False
  let ?P = "\<lambda>x. \<not> cmp (vl h (Nd x)) (vl h (Nd n))"
  let ?ys = "dropWhile ?P xs"
  define iter where "iter = (case ?ys of [] \<Rightarrow> End l | y # _ \<Rightarrow> Nd y)"
  have loop: "list_insert_loop h l (vl h (Nd n)) cmp (nx h (End l)) = Some (Inr iter)"
    unfolding iter_def
    by (rule insert_loop_chain) (use r lrepr_alive(2) [OF r] in \<open>auto simp: lrepr_def\<close>)
  from free_get [OF fr] obtain nd where nd: "get_node h (Nd n) = Inr nd" "n_value nd = vl h (Nd n)"
    by auto
  from lrepr_get_end [OF r] obtain e where e: "get_node h (End l) = Inr e" "n_next e = nx h (End l)"
    by auto
  have "list_insert h l (Nd n) cmp =
      (if ?ys = [] then list_pushback h l (Nd n) else insert_before_anchor h iter (Nd n))"
    using False nd e loop lrepr_number_0 [OF r]
    by (cases ?ys) (auto simp: list_insert_def iter_def rbind_def split: sum.splits)
  moreover obtain h' where "insert_before_anchor h iter (Nd n) = Inr h'"
      "lrepr h' l (takeWhile ?P xs @ n # ?ys)" "lstep h h' l n (Some l)"
    by (rule insert_before_spec [of h l "takeWhile ?P xs" ?ys n iter])
      (use r fr len in \<open>simp_all add: free_node_def iter_def\<close>)
  moreover have "takeWhile ?P xs = xs" if "?ys = []"
    using that takeWhile_dropWhile_id [of ?P xs] by simp
  ultimately show ?thesis
    using list_pushback_spec [OF assms] by (cases "?ys = []") (auto simp: ordered_place_def simp del: dropWhile_eq_Nil_conv
        takeWhile_eq_all_conv)
qed

lemma ordered_place_sorted:
  assumes "sorted (map key xs)"
  shows "sorted (map key (ordered_place key greater_u32 n xs))"
  using assms
proof (induction xs)
  case (Cons x xs)
  have "\<forall>y \<in> set (ordered_place key greater_u32 n xs). key x \<le> key y" if "key x \<le> key n"
    using that Cons.prems ordered_place_set [of key greater_u32 n xs] by auto
  with Cons show ?case
    by (auto simp: ordered_place_def greater_u32_def)
qed (simp add: ordered_place_def)

text \<open>With its cursor fixed, the search returns only if it stops at once.\<close>

lemma search_loop_stops:
  "search_node_loop h l v ans = Some r \<Longrightarrow>
     ans = End l \<or> nodes h ans = None \<or> (\<exists>n. nodes h ans = Some n \<and> n_value n = v)"
  by (erule search_node_loop.raw_induct [rotated]) (fastforce split: if_splits option.splits)

lemma search_node_cases:
  assumes r: "lrepr h l xs"
  shows "search_node h l v =
    (case xs of [] \<Rightarrow> Inr Null | x # _ \<Rightarrow> if vl h (Nd x) = v then Inr (Nd x) else Inl Hang)"
proof -
  from lrepr_get_end [OF r] lrepr_first [OF r]
  have *: "search_node h l v = run (search_node_loop h l v (case xs of [] \<Rightarrow> End l | x # _ \<Rightarrow> Nd x))"
    by (cases xs) (auto simp: search_node_def)
  show ?thesis
  proof (cases xs)
    case Nil
    with * show ?thesis by (simp add: search_node_loop.simps)
  next
    case (Cons x ys)
    with lrepr_alive(2) [OF r, of x] obtain n where n: "nodes h (Nd x) = Some n"
      by (auto simp: alive_def)
    have "search_node_loop h l v (Nd x) = None" if "n_value n \<noteq> v"
      using search_loop_stops [of h l v "Nd x"] n that by fastforce
    moreover have "search_node_loop h l v (Nd x) = Some (Inr (Nd x))" if "n_value n = v"
      by (subst search_node_loop.simps) (simp add: n that)
    ultimately show ?thesis
      using * Cons n by (cases "n_value n = v") (simp_all add: vl_def)
  qed
qed

section \<open>Building lists\<close>

lemma list_init_fields [simp]:
  "nx (list_init h l) = (nx h)(End l := End l)" "pv (list_init h l) = (pv h)(End l := End l)"
  "ct (list_init h l) = (ct h)(End l := Some l)" "ow (list_init h l) = (ow h)(End l := 0)"
  "vl (list_init h l) = (vl h)(End l := INFINTY)" "alive (list_init h l) = (alive h)(End l := True)"
  "numbers (list_init h l) = (numbers h)(l \<mapsto> 0)"
  by (auto simp: list_init_def fields fun_eq_iff)

lemma node_init_fields [simp]:
  "nx (node_init h n w v) = (nx h)(Nd n := Nd n)" "pv (node_init h n w v) = (pv h)(Nd n := Nd n)"
  "ct (node_init h n w v) = (ct h)(Nd n := None)" "ow (node_init h n w v) = (ow h)(Nd n := w)"
  "vl (node_init h n w v) = (vl h)(Nd n := v)" "alive (node_init h n w v) = (alive h)(Nd n := True)"
  "numbers (node_init h n w v) = numbers h"
  by (auto simp: node_init_def fields fun_eq_iff)

lemma list_init_repr: "(\<And>n. ct h (Nd n) \<noteq> Some l) \<Longrightarrow> lrepr (list_init h l) l []"
  by (simp add: lrepr_def)

lemma list_init_other: "lrepr h m xs \<Longrightarrow> m \<noteq> l \<Longrightarrow> lrepr (list_init h l) m xs"
  by (simp add: lrepr_def)

lemma node_init_repr: "lrepr h l xs \<Longrightarrow> n \<notin> set xs \<Longrightarrow> lrepr (node_init h n w v) l xs"
  by (auto simp: lrepr_def)

lemma node_init_free: "free_node (node_init h n w v) m \<longleftrightarrow> m = n \<or> free_node h m"
  by (auto simp: free_node_def)

definition empty_heap :: list_heap where
  "empty_heap = \<lparr>nodes = (\<lambda>_. None), numbers = (\<lambda>_. None)\<rparr>"

lemma empty_heap_fields [simp]: "ct empty_heap r = None" "alive empty_heap r = False"
  by (simp_all add: empty_heap_def ct_def alive_def)

section \<open>The FIFO disciplines of the list\<close>

definition node_id :: "nref \<Rightarrow> nat option" where
  "node_id r = (case r of Nd n \<Rightarrow> Some n | _ \<Rightarrow> None)"

lemma node_id_simps [simp]: "node_id (Nd n) = Some n" "node_id Null = None"
  by (simp_all add: node_id_def)

interpretation headq: fifo
    "\<lambda>h n. list_push h l (Nd n)"
    "\<lambda>h. rbind (list_popback h l) (\<lambda>(r, h). Inr (node_id r, h))"
    "\<lambda>h xs. lrepr h l (rev xs)" free_node "(\<noteq>)" "2 ^ 32 - 1" for l
proof
  fix h xs n assume "lrepr h l (rev xs)" "free_node h n" "length xs < 2 ^ 32 - 1"
  with list_push_spec [of h l "rev xs" n] show "\<exists>h'. list_push h l (Nd n) = Inr h' \<and>
      lrepr h' l (rev (xs @ [n])) \<and> (\<forall>m. n \<noteq> m \<longrightarrow> free_node h m \<longrightarrow> free_node h' m)"
    by (auto dest: lstep_free(1))
next
  fix h x xs assume r: "lrepr h l (rev (x # xs))"
  then have "alive h (Nd x)" by (auto dest: lrepr_alive(2))
  with r list_popback_spec [of h l "rev xs" x]
  show "\<exists>h'. rbind (list_popback h l) (\<lambda>(r, h). Inr (node_id r, h)) = Inr (Some x, h') \<and>
      lrepr h' l (rev xs) \<and> free_node h' x \<and> (\<forall>m. free_node h m \<longrightarrow> free_node h' m)"
    by (auto simp: lstep_def free_node_def)
qed (simp add: list_popback_Nil)

interpretation tailq: fifo
    "\<lambda>h n. list_pushback h l (Nd n)"
    "\<lambda>h. rbind (list_pop h l) (\<lambda>(r, h). Inr (node_id r, h))"
    "\<lambda>h xs. lrepr h l xs" free_node "(\<noteq>)" "2 ^ 32 - 1" for l
proof
  fix h xs n assume "lrepr h l xs" "free_node h n" "length xs < 2 ^ 32 - 1"
  with list_pushback_spec [of h l xs n] show "\<exists>h'. list_pushback h l (Nd n) = Inr h' \<and>
      lrepr h' l (xs @ [n]) \<and> (\<forall>m. n \<noteq> m \<longrightarrow> free_node h m \<longrightarrow> free_node h' m)"
    by (auto dest: lstep_free(1))
next
  fix h x xs assume r: "lrepr h l (x # xs)"
  then have "alive h (Nd x)" by (auto dest: lrepr_alive(2))
  with r list_pop_spec [of h l x xs]
  show "\<exists>h'. rbind (list_pop h l) (\<lambda>(r, h). Inr (node_id r, h)) = Inr (Some x, h') \<and>
      lrepr h' l xs \<and> free_node h' x \<and> (\<forall>m. free_node h m \<longrightarrow> free_node h' m)"
    by (auto simp: lstep_def free_node_def)
qed (simp add: list_pop_Nil)

section \<open>Properties\<close>

text \<open>
  C25: Nodes pushed at the head of a list with \<^verbatim>\<open>list_push\<close> and taken from its tail with
  \<^verbatim>\<open>list_popback\<close>, the discipline of the ready list, of the mutex wait list and of the
  sleepers, come out first in first out, after the nodes the list already held, and no
  call fails; the list ends empty.
\<close>

theorem list_push_popback_fifo:
  assumes "lrepr h l (rev xs)" "\<forall>n \<in> set ns. free_node h n" "distinct ns"
    and "length xs + length ns \<le> 2 ^ 32 - 1"
  shows "\<exists>h' h''. enq_all (\<lambda>h n. list_push h l (Nd n)) h ns = Inr h' \<and>
     deq_n (\<lambda>h. rbind (list_popback h l) (\<lambda>(r, h). Inr (node_id r, h))) (length xs + length ns) h' =
       Inr (map Some (xs @ ns), h'') \<and> lrepr h'' l []"
  using headq.drained_in_order [of h l xs ns] assms by (simp add: sorted_wrt_neq)

text \<open>
  \<^verbatim>\<open>list_insert\<close> with the comparison \<^verbatim>\<open>greater\<close>, as the sleeping list uses it, puts a
  free node into the list without failing, keeps all other nodes and every other list of
  the heap, and keeps ascending values ascending.
\<close>

theorem list_insert_keeps_sorted:
  assumes "lrepr h l xs" "free_node h n" "Suc (length xs) < 2 ^ 32"
    and "sorted (map (\<lambda>x. vl h (Nd x)) xs)"
  shows "\<exists>h' ys. list_insert h l (Nd n) greater_u32 = Inr h' \<and> lrepr h' l ys \<and>
     set ys = insert n (set xs) \<and> sorted (map (\<lambda>x. vl h' (Nd x)) ys) \<and>
     (\<forall>m zs. m \<noteq> l \<longrightarrow> lrepr h m zs \<longrightarrow> lrepr h' m zs)"
  using list_insert_spec [OF assms(1-3), of greater_u32] ordered_place_sorted [OF assms(4), of n]
    ordered_place_set [of "\<lambda>x. vl h (Nd x)" greater_u32 n xs]
  by (auto simp: lstep_def)

text \<open>
  Pushing a node and removing it again gives back the list as it was, with the node
  free and every other list untouched: the intrusive links are restored exactly.
\<close>

theorem list_push_remove:
  assumes "lrepr h l xs" "free_node h n" "Suc (length xs) < 2 ^ 32" "lrepr h m zs"
  shows "\<exists>h' h''. list_push h l (Nd n) = Inr h' \<and> lrepr h' l (n # xs) \<and>
     remove_node h' (Nd n) = Inr h'' \<and> lrepr h'' l xs \<and> free_node h'' n \<and> lrepr h'' m zs"
proof -
  from list_push_spec [OF assms(1-3)] obtain h' where
    h': "list_push h l (Nd n) = Inr h'" "lrepr h' l (n # xs)" "lstep h h' l n (Some l)" by auto
  from h'(2) obtain h'' where h'': "remove_node h' (Nd n) = Inr h''" "lrepr h'' l xs" "lstep h' h'' l n None"
    by (rule remove_node_spec [of h' l "[]" n xs, simplified])
  have "lrepr h'' m zs"
    using h'(3) h''(2,3) assms(1,4) lrepr_unique by (cases "m = l") (auto simp: lstep_def)
  with h' h'' assms(2) show ?thesis
    by (auto simp: lstep_def free_node_def)
qed

text \<open>
  \<^verbatim>\<open>search_node\<close> answers only for the first node of the list: on any list whose first
  value differs from the one searched for it never returns, even when a later node has
  that value, because the loop does not advance its cursor.
\<close>

theorem search_node_hangs:
  assumes "lrepr h l (x # xs)" "vl h (Nd x) \<noteq> v"
  shows "search_node h l v = Inl Hang"
  using search_node_cases [OF assms(1)] assms(2) by simp

section \<open>A concrete heap\<close>

text \<open>One list and three nodes, with values 5, 3 and 9.\<close>

definition ex_heap :: list_heap where
  "ex_heap = node_init (node_init (node_init (list_init empty_heap 0) 5 100 5) 2 200 3) 3 300 9"

lemma ex_heap_repr: "lrepr ex_heap 0 []"
  by (simp add: ex_heap_def node_init_repr list_init_repr)

lemma ex_heap_free: "free_node ex_heap n \<longleftrightarrow> n \<in> {5, 2, 3}"
  by (auto simp: ex_heap_def node_init_free) (simp add: free_node_def)

lemma ex_heap_value: "vl ex_heap (Nd 5) = 5" "vl ex_heap (Nd 2) = 3" "vl ex_heap (Nd 3) = 9"
  by (simp_all add: ex_heap_def)

theorem list_push_popback_fifo_witness:
  "\<exists>h' h''. enq_all (\<lambda>h n. list_push h 0 (Nd n)) ex_heap [2, 5, 3] = Inr h' \<and>
     deq_n (\<lambda>h. rbind (list_popback h 0) (\<lambda>(r, h). Inr (node_id r, h))) (length [2, 5, 3 :: nat]) h' =
       Inr ([Some 2, Some 5, Some 3], h'') \<and> lrepr h'' 0 []"
  using list_push_popback_fifo [of ex_heap 0 "[]" "[2, 5, 3]"]
  by (simp only: ex_heap_repr ex_heap_free rev.simps list.map append.simps list.size) simp

theorem list_insert_keeps_sorted_witness:
  "\<exists>h' ys. list_insert ex_heap 0 (Nd 5) greater_u32 = Inr h' \<and> lrepr h' 0 ys \<and> set ys = {5}"
  using list_insert_keeps_sorted [of ex_heap 0 "[]" 5]
  by (auto simp: ex_heap_repr ex_heap_free)

theorem list_push_remove_witness:
  "\<exists>h' h''. list_push ex_heap 0 (Nd 2) = Inr h' \<and> lrepr h' 0 [2] \<and>
     remove_node h' (Nd 2) = Inr h'' \<and> lrepr h'' 0 [] \<and> free_node h'' 2"
  using list_push_remove [of ex_heap 0 "[]" 2 0 "[]"]
  by (auto simp: ex_heap_repr ex_heap_free)

theorem search_node_hangs_witness:
  "\<exists>h'. list_push ex_heap 0 (Nd 5) = Inr h' \<and> search_node h' 0 9 = Inl Hang"
proof -
  from list_push_spec [of ex_heap 0 "[]" 5] obtain h' where
    h': "list_push ex_heap 0 (Nd 5) = Inr h'" "lrepr h' 0 [5]" "lstep ex_heap h' 0 5 (Some 0)"
    by (auto simp: ex_heap_repr ex_heap_free)
  with search_node_hangs [of h' 0 5 "[]" 9] show ?thesis
    by (simp add: lstep_def ex_heap_value)
qed

end
