(* ===== verification/Vsprintf.thy ===== *)
theory Vsprintf
  imports Rdix_Prelude "HOL-Library.Char_ord"
begin

text \<open>
  The formatter of \<^verbatim>\<open>kernel/vsprintf.c\<close>, behind \<^verbatim>\<open>printk\<close>, \<^verbatim>\<open>printf\<close> and
  \<^verbatim>\<open>sprintf\<close>. The format pointer is the rest of the format string with its terminator,
  the output pointer the list of characters written so far, and the variable arguments a
  list of slots. The digit loop is proved to print the number it is given.
\<close>

section \<open>Operations\<close>

abbreviation NUL :: char where "NUL \<equiv> CHR 0x00"

definition ZEROPAD :: u32 where "ZEROPAD = 1"
definition SIGN :: u32 where "SIGN = 2"
definition PLUS :: u32 where "PLUS = 4"
definition SPACE :: u32 where "SPACE = 8"
definition LEFT :: u32 where "LEFT = 16"
definition SPECIAL :: u32 where "SPECIAL = 32"
definition SMALL :: u32 where "SMALL = 64"

lemmas flag_defs = ZEROPAD_def SIGN_def PLUS_def SPACE_def LEFT_def SPECIAL_def SMALL_def

definition has :: "u32 \<Rightarrow> u32 \<Rightarrow> bool" where
  "has flags f = (flags AND f \<noteq> 0)"

definition is_digit :: "char \<Rightarrow> bool" where
  "is_digit ch = (CHR ''0'' \<le> ch \<and> ch \<le> CHR ''9'')"

fun skip_atoi_loop :: "string \<Rightarrow> u32 \<Rightarrow> (u32 \<times> string) res" where
  "skip_atoi_loop [] i = Inl Fault"
| "skip_atoi_loop (c # s) i =
     (if is_digit c then skip_atoi_loop s (i * 10 + of_char c - 48) else Inr (i, c # s))"

definition skip_atoi :: "string \<Rightarrow> (int \<times> string) res" where
  "skip_atoi s = rbind (skip_atoi_loop s 0) (\<lambda>(i, s). Inr (sint i, s))"

definition digit_chars :: "u32 \<Rightarrow> string" where
  "digit_chars flags = (if has flags SMALL then ''0123456789abcdefghijklmnopqrstuvwxyz''
     else ''0123456789ABCDEFGHIJKLMNOPQRSTUVWXYZ'')"

text \<open>The array \<^verbatim>\<open>tmp\<close> after the digit loop, least significant digit first.\<close>

fun tmp_digits :: "string \<Rightarrow> nat \<Rightarrow> nat \<Rightarrow> string" where
  "tmp_digits dig base num =
     (if num = 0 \<or> base < 2 then [] else dig ! (num mod base) # tmp_digits dig base (num div base))"

declare tmp_digits.simps [simp del]

text \<open>\<^verbatim>\<open>while (size-- > 0) *str++ = c;\<close> with the value \<^verbatim>\<open>size\<close> is left with.\<close>

function pad :: "char \<Rightarrow> int \<Rightarrow> string \<times> int" where
  "pad c sz = (if sz > 0 then let (s, r) = pad c (sz - 1) in (c # s, r) else ([], sz - 1))"
  by pat_completeness auto
termination by (relation "measure (\<lambda>(c, sz). nat sz)") auto

declare pad.simps [simp del]

text \<open>
  The pieces \<^verbatim>\<open>number\<close> writes: the sign character if there is one (its parameter
  \<^verbatim>\<open>num\<close> is unsigned, so the test \<^verbatim>\<open>num < 0\<close> is false), the places the prefix takes
  from the field and the prefix itself.
\<close>

definition num_sign :: "u32 \<Rightarrow> u32 \<Rightarrow> char option" where
  "num_sign flags num =
     (if has flags SIGN \<and> num < 0 then Some CHR ''-''
      else if has flags PLUS then Some CHR ''+''
      else if has flags SPACE then Some CHR '' '' else None)"

definition prefix_size :: "u32 \<Rightarrow> int \<Rightarrow> int" where
  "prefix_size flags base =
     (if has flags SPECIAL then (if base = 16 then 2 else if base = 8 then 1 else 0) else 0)"

definition num_prefix :: "u32 \<Rightarrow> int \<Rightarrow> string" where
  "num_prefix flags base =
     (if has flags SPECIAL then (if base = 16 then ''0x'' else ''0'') else [])"

definition num_tmp :: "string \<Rightarrow> int \<Rightarrow> u32 \<Rightarrow> string" where
  "num_tmp digit base num =
     (if num = 0 then [CHR ''0''] else tmp_digits digit (nat base) (unat num))"

text \<open>The characters \<^verbatim>\<open>number\<close> writes; \<open>None\<close> is its null return for a bad base.\<close>

definition number :: "u32 \<Rightarrow> int \<Rightarrow> int \<Rightarrow> u32 \<Rightarrow> string option" where
  "number num base sz flags =
     (let digit = digit_chars flags;
          flags = (if has flags LEFT then flags AND NOT ZEROPAD else flags) in
      if base < 2 \<or> base > 36 then None
      else
        let c = (if has flags ZEROPAD then CHR ''0'' else CHR '' '');
            sign = num_sign flags num;
            num = (if has flags SIGN \<and> num < 0 then - num else num);
            sz = (if sign \<noteq> None then sz - 1 else sz);
            sz = sz - prefix_size flags base;
            tmp = num_tmp digit base num;
            sz = sz - int (length tmp);
            (s1, sz) = (if \<not> has flags (ZEROPAD OR LEFT) then pad CHR '' '' sz else ([], sz));
            s2 = (case sign of None \<Rightarrow> [] | Some g \<Rightarrow> [g]);
            s3 = num_prefix flags base;
            (s4, sz) = (if \<not> has flags LEFT then pad c sz else ([], sz));
            s5 = rev tmp;
            (s6, sz) = pad CHR '' '' sz in
        Some (s1 @ s2 @ s3 @ s4 @ s5 @ s6))"

text \<open>One slot of the variable arguments: a word, or a pointer to a string.\<close>

datatype va = VInt u32 | VStr string

fun va_u32 :: "va list \<Rightarrow> (u32 \<times> va list) res" where
  "va_u32 (VInt w # arg) = Inr (w, arg)"
| "va_u32 _ = Inl Fault"

fun va_str :: "va list \<Rightarrow> (string \<times> va list) res" where
  "va_str (VStr s # arg) = Inr (s, arg)"
| "va_str _ = Inl Fault"

fun read_flags :: "string \<Rightarrow> u32 \<Rightarrow> (u32 \<times> string) res" where
  "read_flags [] flags = Inl Fault"
| "read_flags (c # fmt) flags =
     (if c = CHR ''-'' then read_flags fmt (flags OR LEFT)
      else if c = CHR ''+'' then read_flags fmt (flags OR PLUS)
      else if c = CHR '' '' then read_flags fmt (flags OR SPACE)
      else if c = CHR ''#'' then read_flags fmt (flags OR SPECIAL)
      else if c = CHR ''0'' then read_flags fmt (flags OR ZEROPAD)
      else Inr (flags, c # fmt))"

definition peek :: "string \<Rightarrow> char res" where
  "peek s = arr_get s 0"

definition read_width :: "string \<Rightarrow> (int \<times> string) res" where
  "read_width fmt = rbind (peek fmt) (\<lambda>c. if is_digit c then skip_atoi fmt else Inr (- 1, fmt))"

definition read_prec :: "string \<Rightarrow> (int \<times> string) res" where
  "read_prec fmt = rbind (peek fmt) (\<lambda>c.
     if c = CHR ''.'' then
       rbind (read_width (tl fmt)) (\<lambda>(precision, fmt).
       Inr (if precision < 0 then 0 else precision, fmt))
     else Inr (- 1, fmt))"

definition read_qualifier :: "string \<Rightarrow> string res" where
  "read_qualifier fmt = rbind (peek fmt) (\<lambda>c.
     Inr (if c = CHR ''h'' \<or> c = CHR ''l'' \<or> c = CHR ''L'' then tl fmt else fmt))"

fun copy_str :: "string \<Rightarrow> string res" where
  "copy_str [] = Inl Fault"
| "copy_str (c # s) = (if c \<noteq> NUL then rbind (copy_str s) (\<lambda>r. Inr (c # r)) else Inr [])"

text \<open>\<^verbatim>\<open>str = number(...)\<close>: a null return is used as the next output pointer.\<close>

definition put_number :: "va list \<Rightarrow> int \<Rightarrow> int \<Rightarrow> u32 \<Rightarrow> (string \<times> va list) res" where
  "put_number arg base field_width flags =
     rbind (va_u32 arg) (\<lambda>(w, arg).
     case number w base field_width flags of None \<Rightarrow> Inl Fault | Some s \<Rightarrow> Inr (s, arg))"

definition specifier :: "char \<Rightarrow> u32 \<Rightarrow> int \<Rightarrow> va list \<Rightarrow> (string \<times> va list) res" where
  "specifier c flags field_width arg =
     (if c = CHR ''d'' \<or> c = CHR ''i'' then put_number arg 10 field_width (flags OR SIGN)
      else if c = CHR ''p'' then
        (if field_width = - 1 then
           put_number arg 16 (if has (flags OR ZEROPAD) SPECIAL then 8 + 2 else 8) (flags OR ZEROPAD)
         else put_number arg 16 field_width flags)
      else if c = CHR ''o'' then put_number arg 8 field_width flags
      else if c = CHR ''x'' then put_number arg 16 field_width (flags OR SMALL)
      else if c = CHR ''X'' then put_number arg 16 field_width flags
      else if c = CHR ''s'' then
        rbind (va_str arg) (\<lambda>(s, arg). rbind (copy_str s) (\<lambda>r. Inr (r, arg)))
      else if c = CHR ''c'' then
        rbind (va_u32 arg) (\<lambda>(w, arg). Inr ([char_of (unat w)], arg))
      else Inr ([], arg))"

text \<open>A conversion, from behind its percent sign; the last \<^verbatim>\<open>++fmt\<close> skips the specifier.\<close>

definition conversion :: "string \<Rightarrow> va list \<Rightarrow> (string \<times> string \<times> va list) res" where
  "conversion fmt arg =
     rbind (read_flags fmt 0) (\<lambda>(flags, fmt).
     rbind (read_width fmt) (\<lambda>(field_width, fmt).
     rbind (read_prec fmt) (\<lambda>(precision, fmt).
     rbind (read_qualifier fmt) (\<lambda>fmt.
     rbind (peek fmt) (\<lambda>c.
     rbind (specifier c flags field_width arg) (\<lambda>(out, arg).
     Inr (out, tl fmt, arg)))))))"

lemma skip_atoi_loop_len: "skip_atoi_loop s i = Inr (j, s') \<Longrightarrow> length s' \<le> length s"
  by (induction s i rule: skip_atoi_loop.induct) (auto split: if_splits)

lemma read_flags_len: "read_flags s f = Inr (g, s') \<Longrightarrow> length s' \<le> length s"
  by (induction s f rule: read_flags.induct) (auto split: if_splits)

lemma read_width_len: "read_width s = Inr (w, s') \<Longrightarrow> length s' \<le> length s"
  by (auto simp: read_width_def skip_atoi_def split: if_splits dest: skip_atoi_loop_len)

lemma read_prec_len: "read_prec s = Inr (w, s') \<Longrightarrow> length s' \<le> length s"
  by (auto simp: read_prec_def split: if_splits dest: read_width_len)

lemma conversion_len: "conversion s arg = Inr (out, s', arg') \<Longrightarrow> length s' \<le> length s"
  by (auto simp: conversion_def read_qualifier_def
      dest!: read_flags_len read_width_len read_prec_len split: if_splits)

text \<open>The formatting loop: the characters written, before the final terminator.\<close>

function vsprintf_loop :: "string \<Rightarrow> va list \<Rightarrow> string res" where
  "vsprintf_loop [] arg = Inl Fault"
| "vsprintf_loop (c # fmt) arg =
     (if c = NUL then Inr []
      else if c \<noteq> CHR ''%'' then rbind (vsprintf_loop fmt arg) (\<lambda>r. Inr (c # r))
      else rbind (conversion fmt arg) (\<lambda>(out, fmt, arg).
           rbind (vsprintf_loop fmt arg) (\<lambda>r. Inr (out @ r))))"
  by pat_completeness auto
termination
  by (relation "measure (\<lambda>(fmt, arg). length fmt)") (auto dest: conversion_len)

definition vsprintf :: "string \<Rightarrow> string \<Rightarrow> va list \<Rightarrow> (nat \<times> string) res" where
  "vsprintf buf fmt arg =
     rbind (vsprintf_loop fmt arg) (\<lambda>out.
     rbind (ensure (length out < length buf) Fault) (\<lambda>_.
     Inr (length out, out @ NUL # drop (Suc (length out)) buf)))"

section \<open>Digits\<close>

lemma pad_eq: "pad c sz = (replicate (nat sz) c, if sz > 0 then - 1 else sz - 1)"
proof (induction c sz rule: pad.induct)
  case (1 c sz)
  then show ?case
    by (subst pad.simps) (auto simp: nat_diff_distrib replicate_Suc [symmetric] Suc_nat_eq_nat_zadd1
        simp del: replicate_Suc)
qed

definition digit_val :: "string \<Rightarrow> char \<Rightarrow> nat" where
  "digit_val dig c = length (takeWhile (\<lambda>d. d \<noteq> c) dig)"

text \<open>The number a string of digits denotes, most significant digit first.\<close>

definition digits_value :: "string \<Rightarrow> nat \<Rightarrow> string \<Rightarrow> nat" where
  "digits_value dig base s = foldl (\<lambda>a c. a * base + digit_val dig c) 0 s"

lemma digit_val_nth: "distinct dig \<Longrightarrow> i < length dig \<Longrightarrow> digit_val dig (dig ! i) = i"
proof (induction dig arbitrary: i)
  case (Cons d dig)
  then show ?case by (cases i) (auto simp: digit_val_def)
qed simp

lemma digit_chars_props [simp]: "distinct (digit_chars flags)" "length (digit_chars flags) = 36"
  by (simp_all add: digit_chars_def)

lemma digits_value_snoc [simp]:
  "digits_value dig base (s @ [c]) = digits_value dig base s * base + digit_val dig c"
  by (simp add: digits_value_def)

lemma tmp_digits_value:
  assumes "distinct dig" "base \<le> length dig" "2 \<le> base"
  shows "digits_value dig base (rev (tmp_digits dig base num)) = num"
proof (induction num rule: less_induct)
  case (less num)
  show ?case
  proof (cases "num = 0")
    case True
    then show ?thesis by (simp add: tmp_digits.simps digits_value_def)
  next
    case False
    then have "num div base < num" using assms(3) by simp
    moreover have "num mod base < length dig"
      using assms by (intro less_le_trans [OF mod_less_divisor assms(2)]) simp
    ultimately show ?thesis
      using False less [of "num div base"] assms
      by (subst tmp_digits.simps) (simp add: digit_val_nth)
  qed
qed

lemma tmp_digits_nonempty: "num \<noteq> 0 \<Longrightarrow> 2 \<le> base \<Longrightarrow> tmp_digits dig base num \<noteq> []"
  by (subst tmp_digits.simps) simp

text \<open>\<^verbatim>\<open>tmp\<close> has 36 places, enough for the 32 digits of base two.\<close>

lemma tmp_digits_length:
  "2 \<le> base \<Longrightarrow> num < 2 ^ k \<Longrightarrow> length (tmp_digits dig base num) \<le> k"
proof (induction k arbitrary: num)
  case 0
  then show ?case by (simp add: tmp_digits.simps)
next
  case (Suc k)
  have "num div base \<le> num div 2"
    using Suc.prems(1) by (simp add: div_le_mono2)
  also have "\<dots> < 2 ^ k" using Suc.prems(2) by simp
  finally show ?case
    using Suc.IH [of "num div base"] Suc.prems(1) by (subst tmp_digits.simps) simp
qed

lemma number_plain:
  assumes "2 \<le> base" "base \<le> 36" "flags \<in> {0, SIGN, SMALL}"
  shows "number w base (- 1) flags =
    Some (if w = 0 then ''0'' else rev (tmp_digits (digit_chars flags) (nat base) (unat w)))"
  using assms by (auto simp: number_def num_sign_def prefix_size_def num_prefix_def num_tmp_def
      Let_def has_def flag_defs pad_eq)

lemma digit_zero [simp]: "digit_val (digit_chars flags) CHR ''0'' = 0"
  by (simp add: digit_val_def digit_chars_def)

lemma number_value:
  assumes "2 \<le> base" "base \<le> 36" "flags \<in> {0, SIGN, SMALL}"
  shows "\<exists>s. number w base (- 1) flags = Some s \<and> s \<noteq> [] \<and>
     digits_value (digit_chars flags) (nat base) s = unat w"
proof (cases "w = 0")
  case True
  then show ?thesis using number_plain [OF assms, of w] by (simp add: digits_value_def)
next
  case False
  then have "unat w \<noteq> 0" by (simp add: unat_eq_zero)
  with False number_plain [OF assms, of w] tmp_digits_nonempty [of "unat w" "nat base"] assms
  show ?thesis by (auto simp: tmp_digits_value)
qed

lemma digits_no_minus: "CHR ''-'' \<notin> set (tmp_digits (digit_chars flags) base num)" if "base \<le> 36"
  using that
proof (induction "digit_chars flags" base num rule: tmp_digits.induct)
  case (1 base num)
  have "CHR ''-'' \<notin> set (digit_chars flags)" by (simp add: digit_chars_def)
  moreover have "digit_chars flags ! (num mod base) \<in> set (digit_chars flags)" if "2 \<le> base"
    using that 1(2) by (intro nth_mem) (simp add: less_le_trans [OF mod_less_divisor])
  ultimately show ?case
    using 1 by (subst tmp_digits.simps) (auto simp: not_less)
qed

section \<open>Properties\<close>

text \<open>
  For every base from 2 to 36 and every 32-bit number, the text \<^verbatim>\<open>number\<close> writes
  without a field width is not empty, fits the 36 places of \<^verbatim>\<open>tmp\<close> and denotes the number.
\<close>

theorem number_prints_value:
  assumes "2 \<le> base" "base \<le> 36" "flags \<in> {0, SIGN, SMALL}"
  shows "\<exists>s. number w base (- 1) flags = Some s \<and> s \<noteq> [] \<and> length s \<le> 36 \<and>
     digits_value (digit_chars flags) (nat base) s = unat w"
proof -
  have "unat w < 2 ^ 32" using unsigned_less [of w] by simp
  then have "length (tmp_digits (digit_chars flags) (nat base) (unat w)) \<le> 32"
    using assms by (intro tmp_digits_length) auto
  with number_value [OF assms, of w] number_plain [OF assms, of w] show ?thesis
    by (auto split: if_splits)
qed

lemma has_bit:
  "has f ZEROPAD = bit f 0" "has f SIGN = bit f 1" "has f PLUS = bit f 2" "has f SPACE = bit f 3"
  "has f LEFT = bit f 4" "has f SPECIAL = bit f 5" "has f SMALL = bit f 6"
  using and_exp_eq_0_iff_not_bit [of f 0] and_exp_eq_0_iff_not_bit [of f 1]
    and_exp_eq_0_iff_not_bit [of f 2] and_exp_eq_0_iff_not_bit [of f 3]
    and_exp_eq_0_iff_not_bit [of f 4] and_exp_eq_0_iff_not_bit [of f 5]
    and_exp_eq_0_iff_not_bit [of f 6]
  by (simp_all add: has_def flag_defs)

lemma has_or: "has f (a OR b) = (has f a \<or> has f b)"
  by (simp add: has_def bit.conj_disj_distrib or_eq_0_iff)

lemma has_left_clear:
  "has (f AND NOT ZEROPAD) g = has f g" if "g \<in> {SIGN, PLUS, SPACE, LEFT, SPECIAL}"
  using that by (auto simp: has_bit bit_and_iff bit_not_iff) (simp_all add: flag_defs bit_1_iff)

lemma not_has_clear [simp]: "\<not> has (f AND NOT ZEROPAD) ZEROPAD"
  by (simp add: has_def and.assoc)

text \<open>
  The field width is honoured: whatever the alignment and padding flags, \<^verbatim>\<open>number\<close>
  writes exactly the field width, or the natural length of sign, prefix and digits when
  that is more.
\<close>

theorem number_field_width:
  assumes "2 \<le> base" "base \<le> 36" "has flags SPECIAL \<longrightarrow> base \<in> {8, 16}"
  shows "\<exists>s. number w base sz flags = Some s \<and>
     length s = max (nat sz)
       ((if has flags PLUS \<or> has flags SPACE then 1 else 0) +
        (if has flags SPECIAL then (if base = 16 then 2 else 1) else 0) +
        length (num_tmp (digit_chars flags) base w))"
proof -
  define fl where "fl = (if has flags LEFT then flags AND NOT ZEROPAD else flags)"
  have f: "has fl SIGN = has flags SIGN" "has fl PLUS = has flags PLUS" "has fl SPACE = has flags SPACE"
    "has fl LEFT = has flags LEFT" "has fl SPECIAL = has flags SPECIAL"
    "has fl ZEROPAD = (has flags ZEROPAD \<and> \<not> has flags LEFT)"
    by (simp_all add: fl_def has_left_clear)
  define sg where "sg = (if has flags PLUS \<or> has flags SPACE then 1 else 0 :: nat)"
  define pf where "pf = (if has flags SPECIAL then (if base = 16 then 2 else 1) else 0 :: nat)"
  have sg: "length (case num_sign fl w of None \<Rightarrow> [] | Some g \<Rightarrow> [g]) = sg"
    "(if num_sign fl w \<noteq> None then sz - 1 else sz) = sz - int sg" for sz
    by (simp_all add: num_sign_def f sg_def)
  have pf: "length (num_prefix fl base) = pf" "prefix_size fl base = int pf"
    using assms(3) by (auto simp: num_prefix_def prefix_size_def f pf_def)
  have "nat (sz - int sg - int pf - int k) + (sg + pf + k) = max (nat sz) (sg + pf + k)" for k
    by linarith
  note fit = this [of "length (num_tmp (digit_chars flags) base w)"]
  have "\<exists>s. number w base sz flags = Some s \<and>
      length s = nat (sz - int sg - int pf - int (length (num_tmp (digit_chars flags) base w))) +
        (sg + pf + length (num_tmp (digit_chars flags) base w))"
    using assms(1,2) unfolding number_def Let_def has_or fl_def [symmetric] sg(2) pf(2)
    by (cases "has flags LEFT"; cases "has flags ZEROPAD"; simp add: pad_eq f sg(1) pf(1))
  from this [unfolded fit] show ?thesis
    unfolding sg_def pf_def .
qed

text \<open>
  \<^verbatim>\<open>%d\<close> never prints a minus sign: \<^verbatim>\<open>number\<close> takes an unsigned argument, so a negative
  \<^verbatim>\<open>int\<close> is printed as the unsigned number with the same bits.
\<close>

theorem percent_d_unsigned:
  "\<exists>s. vsprintf_loop (''%d'' @ [NUL]) [VInt w] = Inr s \<and> CHR ''-'' \<notin> set s \<and>
     digits_value (digit_chars 0) 10 s = unat w"
proof -
  have "conversion (''d'' @ [NUL]) [VInt w] =
      (case number w 10 (- 1) SIGN of None \<Rightarrow> Inl Fault | Some s \<Rightarrow> Inr (s, [NUL], []))"
    by (simp add: conversion_def read_width_def read_prec_def read_qualifier_def peek_def
        is_digit_def specifier_def put_number_def split: option.splits)
  moreover have "digit_chars SIGN = digit_chars 0"
    by (simp add: digit_chars_def has_def flag_defs)
  ultimately show ?thesis
    using number_value [of 10 SIGN w] number_plain [of 10 SIGN w] digits_no_minus [of 10 0 "unat w"]
    by (auto split: if_splits)
qed

text \<open>
  \<^verbatim>\<open>vsprintf\<close> with a buffer larger than the output writes the output, the terminator
  and nothing else, and returns the length; text without percent signs is copied as is.
\<close>

theorem vsprintf_literal:
  assumes "CHR ''%'' \<notin> set tx" "NUL \<notin> set tx" "length tx < length buf"
  shows "vsprintf buf (tx @ NUL # rest) arg =
    Inr (length tx, tx @ NUL # drop (Suc (length tx)) buf)"
proof -
  have "vsprintf_loop (tx @ NUL # rest) arg = Inr tx"
    using assms(1,2) by (induction tx) auto
  with assms(3) show ?thesis by (simp add: vsprintf_def)
qed

theorem number_prints_value_witness:
  "\<exists>s. number 255 16 (- 1) SMALL = Some s \<and> digits_value (digit_chars SMALL) 16 s = 255"
  using number_prints_value [of 16 SMALL 255] by auto

theorem number_field_width_witness:
  "\<exists>s. number 7 10 8 (LEFT OR PLUS) = Some s \<and> length s = 8"
proof -
  have *: "\<not> has (LEFT OR PLUS) SPECIAL" "has (LEFT OR PLUS) PLUS" "tmp_digits d 10 7 = [d ! 7]" for d
    by (simp_all add: has_def flag_defs tmp_digits.simps)
  show ?thesis
    using number_field_width [of 10 "LEFT OR PLUS" 7 8] by (simp add: * num_tmp_def)
qed

theorem vsprintf_literal_witness:
  "vsprintf ''........'' (''rdix'' @ [NUL]) [] = Inr (4, ''rdix'' @ NUL # ''...'')"
  using vsprintf_literal [of "''rdix''" "''........''" "[]" "[]"] by simp

end
