(* ===== verification/Block_Device.thy ===== *)
theory Block_Device
  imports Kernel_List CString Vsprintf
begin

text \<open>
  The device table of \<^verbatim>\<open>kernel/device.c\<close>, partitions from \<^verbatim>\<open>kernel/part.c\<close>, and block
  requests. Buffers are regions of a byte-addressed memory; a SATA disk is an array of
  bytes that its controller copies from and to memory, sector by sector. The model has one
  task: where the code waits for another one, it stops with \<open>Hang\<close>.
\<close>

section \<open>State\<close>

text \<open>\<open>blit\<close> is a transfer of \<open>n\<close> bytes from \<open>src\<close>, starting at \<open>p\<close>, to \<open>dst\<close>, starting at \<open>d\<close>.\<close>

definition blit :: "(nat \<Rightarrow> u8) \<Rightarrow> nat \<Rightarrow> (nat \<Rightarrow> u8) \<Rightarrow> nat \<Rightarrow> nat \<Rightarrow> nat \<Rightarrow> u8" where
  "blit dst d src p n = (\<lambda>a. if d \<le> a \<and> a < d + n then src (p + (a - d)) else dst a)"

definition SECTOR_SIZE :: nat where "SECTOR_SIZE = 512"
definition BLOCK_SIZE :: nat where "BLOCK_SIZE = 1024"
definition SECS_PER_BLOCK :: nat where "SECS_PER_BLOCK = BLOCK_SIZE div SECTOR_SIZE"

lemmas block_consts = SECTOR_SIZE_def BLOCK_SIZE_def SECS_PER_BLOCK_def

datatype dev_type = DEV_NULL | DEV_CHAR | DEV_BLOCK

datatype dev_subtype = DEV_NO_SUB | DEV_CONSOLE | DEV_KEYBOARD | DEV_SATA_DISK | DEV_DISK_PART

text \<open>The driver functions that are installed; \<open>NullFn\<close> is the null pointer.\<close>

datatype driver_fn = NullFn | PartFn | SataFn | OtherFn

datatype dev_cmd = DEV_CMD_SECTOR_START | DEV_CMD_SECTOR_COUNT | DEV_ERROR_REPORT

record part_t =
  part_name :: "u8 list"
  part_disk :: int
  part_system :: u32
  part_start :: u32
  part_count :: u32

record device_t =
  d_name :: "u8 list"
  d_type :: dev_type
  d_subtype :: dev_subtype
  d_dev :: int
  d_parent :: int
  do_request_flag :: bool
  req_direct :: bool
  d_ptr :: nat
  request_list :: "nat option"
  d_ioctl :: driver_fn
  d_read :: driver_fn
  d_write :: driver_fn

text \<open>
  A SATA disk: its bytes, the number of its sectors, and whether its controller reports
  success.
\<close>

record disk_t =
  dk_bytes :: "nat \<Rightarrow> u8"
  dk_max_lba :: int
  dk_lba48 :: bool
  dk_ok :: bool

record dsys =
  mem :: "nat \<Rightarrow> u8"
  disks :: "disk_t list"
  devices :: "device_t list"
  parts :: "part_t list"
  lheap :: list_heap

definition DEVICE_NR :: nat where "DEVICE_NR = 64"

text \<open>\<^verbatim>\<open>req_direct\<close> is true for \<^verbatim>\<open>DIRECT_BACK\<close>.\<close>

definition DIRECT_FORE :: bool where "DIRECT_FORE = False"
definition DIRECT_BACK :: bool where "DIRECT_BACK = True"

section \<open>The device table\<close>

text \<open>
  \<^verbatim>\<open>device_init\<close>; the call of \<^verbatim>\<open>list_init\<close> on the field \<^verbatim>\<open>request_list\<close> overwrites the
  function pointers behind it and the name of the next device, which are set by
  \<^verbatim>\<open>device_install\<close> and by the next round. The garbage in them is not part of this model.
\<close>

definition null_device :: "nat \<Rightarrow> device_t" where
  "null_device i = \<lparr>d_name = [0x6e, 0x75, 0x6c, 0x6c, 0] @ replicate 11 0, d_type = DEV_NULL, d_subtype = DEV_NO_SUB,
     d_dev = int i, d_parent = 0, do_request_flag = False, req_direct = DIRECT_FORE, d_ptr = 0,
     request_list = None, d_ioctl = NullFn, d_read = NullFn, d_write = NullFn\<rparr>"

definition device_init :: "'a dsys_scheme \<Rightarrow> 'a dsys_scheme" where
  "device_init s = s\<lparr>devices := map null_device [0..<DEVICE_NR]\<rparr>"

fun find_null :: "device_t list \<Rightarrow> nat option" where
  "find_null [] = None"
| "find_null (d # ds) = (if d_type d = DEV_NULL then Some 0 else map_option Suc (find_null ds))"

definition get_null_device :: "'a dsys_scheme \<Rightarrow> nat res" where
  "get_null_device s = (case find_null (devices s) of None \<Rightarrow> Inl Panic | Some i \<Rightarrow> Inr i)"

text \<open>\<open>l\<close> is the list that \<^verbatim>\<open>new_list\<close> returns for the requests of a SATA disk.\<close>

definition device_install ::
    "dev_type \<Rightarrow> dev_subtype \<Rightarrow> nat \<Rightarrow> u8 list \<Rightarrow> int \<Rightarrow> driver_fn \<Rightarrow> driver_fn \<Rightarrow> driver_fn \<Rightarrow> nat \<Rightarrow>
     'a dsys_scheme \<Rightarrow> (int \<times> 'a dsys_scheme) res" where
  "device_install ty subty ptr name parent ioctl rd wr l s =
     rbind (get_null_device s) (\<lambda>i.
     let d = devices s ! i in
     rbind (strncpy (d_name d) name 16) (\<lambda>nm.
     let d = d\<lparr>d_ptr := ptr, d_parent := parent, d_type := ty, d_subtype := subty, d_name := nm, d_ioctl := ioctl,
           d_read := rd, d_write := wr, request_list := None, do_request_flag := False, req_direct := DIRECT_FORE\<rparr>;
         s = s\<lparr>devices := (devices s)[i := d]\<rparr> in
     if ty = DEV_BLOCK \<and> subty = DEV_SATA_DISK then
       Inr (d_dev d, s\<lparr>devices := (devices s)[i := d\<lparr>request_list := Some l\<rparr>], lheap := list_init (lheap s) l\<rparr>)
     else Inr (d_dev d, s)))"

text \<open>The \<open>idx\<close>-th device of a subtype.\<close>

fun device_find_loop :: "dev_subtype \<Rightarrow> int \<Rightarrow> int \<Rightarrow> device_t list \<Rightarrow> nat option" where
  "device_find_loop subty idx x [] = None"
| "device_find_loop subty idx x (d # ds) =
     (if d_subtype d \<noteq> subty then map_option Suc (device_find_loop subty idx x ds)
      else if x = idx then Some 0
      else map_option Suc (device_find_loop subty idx (x + 1) ds))"

definition device_find :: "dev_subtype \<Rightarrow> int \<Rightarrow> 'a dsys_scheme \<Rightarrow> nat option" where
  "device_find subty idx s = device_find_loop subty idx 0 (devices s)"

text \<open>The check of \<^verbatim>\<open>device_get\<close> is for the upper bound only; a negative number reads before the table.\<close>

definition device_get :: "int \<Rightarrow> 'a dsys_scheme \<Rightarrow> device_t res" where
  "device_get dev s =
     rbind (ensure (dev < int DEVICE_NR) Assert) (\<lambda>_.
     rbind (ensure (0 \<le> dev) Fault) (\<lambda>_. arr_get (devices s) (nat dev)))"

definition set_device :: "int \<Rightarrow> (device_t \<Rightarrow> device_t) \<Rightarrow> 'a dsys_scheme \<Rightarrow> 'a dsys_scheme" where
  "set_device dev f s = s\<lparr>devices := (devices s)[nat dev := f (devices s ! nat dev)]\<rparr>"

section \<open>Drivers\<close>

definition part_ioctl :: "part_t \<Rightarrow> dev_cmd \<Rightarrow> int" where
  "part_ioctl part cmd = (case cmd of DEV_CMD_SECTOR_START \<Rightarrow> sint (part_start part) | _ \<Rightarrow> 0)"

definition sata_ioctl :: "dev_cmd \<Rightarrow> int" where
  "sata_ioctl cmd = 0"

text \<open>
  \<^verbatim>\<open>__sata_io\<close>: the disk copies \<open>count\<close> sectors if its controller succeeds. The sector
  number reaches the function as 32 bits, with the flags, zero, above them. The command for a
  disk with 28-bit sector numbers carries 24 of them, which is why a transfer behind \<open>2 ^ 24\<close>
  sectors wraps to the start of the disk; the command for 48-bit ones carries all of them.
  \<open>Hba_Theorems\<close> shows that these are the sectors in the commands that \<^verbatim>\<open>bulid_cmd_tab_fis\<close> makes.
  The counts of the callers, 1 and 2, arrive as they are.
\<close>

definition sent_sector :: "bool \<Rightarrow> int \<Rightarrow> nat" where
  "sent_sector lba48 lba = nat (if lba48 then lba else lba mod 2 ^ 24)"

definition sata_io :: "bool \<Rightarrow> nat \<Rightarrow> nat \<Rightarrow> nat \<Rightarrow> int \<Rightarrow> 'a dsys_scheme \<Rightarrow> (int \<times> 'a dsys_scheme) res" where
  "sata_io rd k buf count startlba s =
     rbind (arr_get (disks s) k) (\<lambda>dk.
     let lba = startlba mod 2 ^ 32 in
     rbind (ensure (lba < dk_max_lba dk) Assert) (\<lambda>_.
     let sector = sent_sector (dk_lba48 dk) lba in
     if \<not> dk_ok dk then Inr (EOF, s)
     else if rd then
       Inr (0, s\<lparr>mem := blit (mem s) buf (dk_bytes dk) (sector * SECTOR_SIZE) (count * SECTOR_SIZE)\<rparr>)
     else
       Inr (0, s\<lparr>disks := (disks s)[k := dk\<lparr>dk_bytes :=
          blit (dk_bytes dk) (sector * SECTOR_SIZE) (mem s) buf (count * SECTOR_SIZE)\<rparr>]\<rparr>)))"

definition device_ioctl :: "int \<Rightarrow> dev_cmd \<Rightarrow> 'a dsys_scheme \<Rightarrow> int res" where
  "device_ioctl dev cmd s =
     rbind (device_get dev s) (\<lambda>d.
     case d_ioctl d of
       NullFn \<Rightarrow> Inr EOF
     | PartFn \<Rightarrow> rbind (arr_get (parts s) (d_ptr d)) (\<lambda>p. Inr (part_ioctl p cmd))
     | SataFn \<Rightarrow> Inr (sata_ioctl cmd)
     | OtherFn \<Rightarrow> Inr 0)"

text \<open>
  \<^verbatim>\<open>device_read\<close> and \<^verbatim>\<open>device_write\<close>; a partition passes the request on to its disk with its
  first sector added. \<open>n\<close> bounds the nesting: partitions of partitions that form a cycle
  overflow the stack. The console and the keyboard are modelled elsewhere.
\<close>

fun device_io :: "nat \<Rightarrow> bool \<Rightarrow> int \<Rightarrow> nat \<Rightarrow> nat \<Rightarrow> int \<Rightarrow> 'a dsys_scheme \<Rightarrow> (int \<times> 'a dsys_scheme) res" where
  "device_io 0 rd dev buf count idx s = Inl Fault"
| "device_io (Suc n) rd dev buf count idx s =
     rbind (device_get dev s) (\<lambda>d.
     case (if rd then d_read d else d_write d) of
       NullFn \<Rightarrow> Inr (EOF, s)
     | PartFn \<Rightarrow> rbind (arr_get (parts s) (d_ptr d)) (\<lambda>p.
         device_io n rd (part_disk p) buf count (idx + uint (part_start p)) s)
     | SataFn \<Rightarrow> sata_io rd (d_ptr d) buf count idx s
     | OtherFn \<Rightarrow> Inr (EOF, s))"

definition device_read :: "int \<Rightarrow> nat \<Rightarrow> nat \<Rightarrow> int \<Rightarrow> 'a dsys_scheme \<Rightarrow> (int \<times> 'a dsys_scheme) res" where
  "device_read dev buf count idx s = device_io DEVICE_NR True dev buf count idx s"

definition device_write :: "int \<Rightarrow> nat \<Rightarrow> nat \<Rightarrow> int \<Rightarrow> 'a dsys_scheme \<Rightarrow> (int \<times> 'a dsys_scheme) res" where
  "device_write dev buf count idx s = device_io DEVICE_NR False dev buf count idx s"

section \<open>Requests\<close>

datatype req_type = REQ_READ | REQ_WRITE

record request_t =
  r_dev :: int
  r_type :: req_type
  r_idx :: int
  r_count :: nat
  r_buf :: nat

text \<open>After an error \<^verbatim>\<open>do_request\<close> blocks its task on \<^verbatim>\<open>block_list\<close>, where nothing wakes it.\<close>

definition do_request :: "request_t \<Rightarrow> 'a dsys_scheme \<Rightarrow> 'a dsys_scheme res" where
  "do_request req s =
     rbind (case r_type req of
              REQ_READ \<Rightarrow> device_read (r_dev req) (r_buf req) (r_count req) (r_idx req) s
            | REQ_WRITE \<Rightarrow> device_write (r_dev req) (r_buf req) (r_count req) (r_idx req) s) (\<lambda>(status, s).
     if status = EOF then rbind (device_ioctl (r_dev req) DEV_ERROR_REPORT s) (\<lambda>_. Inl Hang) else Inr s)"

text \<open>The elevator: the neighbour of the request node in the present direction.\<close>

definition get_next_req :: "int \<Rightarrow> nref \<Rightarrow> 'a dsys_scheme \<Rightarrow> (nat \<times> 'a dsys_scheme) res" where
  "get_next_req dev node s =
     rbind (get_node (lheap s) node) (\<lambda>rn.
     rbind (device_get dev s) (\<lambda>device.
     case n_container rn of
       None \<Rightarrow> Inl Assert
     | Some l \<Rightarrow>
         rbind (ensure (request_list device = Some l) Assert) (\<lambda>_.
         let dir = (if req_direct device = DIRECT_FORE \<and> n_next rn = End l then DIRECT_BACK
                    else if req_direct device = DIRECT_BACK \<and> n_previous rn = End l then DIRECT_FORE
                    else req_direct device);
             s = set_device dev (\<lambda>d. d\<lparr>req_direct := dir\<rparr>) s in
         rbind (get_node (lheap s) (if dir = DIRECT_FORE then n_next rn else n_previous rn)) (\<lambda>nn.
         Inr (n_owner nn, s)))))"

text \<open>The node of the request block that \<^verbatim>\<open>malloc\<close> returns, and its address.\<close>

definition req_node :: nat where "req_node = 0x100000"

text \<open>
  \<^verbatim>\<open>device_request\<close> for the block at address \<open>data\<close> of device \<open>b_dev\<close>. A request of another
  task in progress would be waited for. Waking the next request's task is left out: with
  one task there is no other request.
\<close>

definition device_request :: "int \<Rightarrow> nat \<Rightarrow> nat \<Rightarrow> int \<Rightarrow> req_type \<Rightarrow> 'a dsys_scheme \<Rightarrow> 'a dsys_scheme res" where
  "device_request b_dev data count idx ty s =
     rbind (device_get b_dev s) (\<lambda>device.
     rbind (ensure (d_type device = DEV_BLOCK) Assert) (\<lambda>_.
     rbind (device_ioctl b_dev DEV_CMD_SECTOR_START s) (\<lambda>start.
     rbind (if d_parent device \<noteq> 0 then device_get (d_parent device) s else Inr device) (\<lambda>device.
     case request_list device of
       None \<Rightarrow> Inl Assert
     | Some l \<Rightarrow>
         let dev = d_dev device;
             req = \<lparr>r_dev = dev, r_type = ty, r_idx = idx + start, r_count = count, r_buf = data\<rparr>;
             s = s\<lparr>lheap := node_init (lheap s) req_node 1 (word_of_int (idx + start))\<rparr> in
         rbind (list_insert (lheap s) l (Nd req_node) greater_u32) (\<lambda>h.
         let s = s\<lparr>lheap := h\<rparr> in
         if do_request_flag device then Inl Hang
         else
           rbind (do_request req (set_device dev (\<lambda>d. d\<lparr>do_request_flag := True\<rparr>) s)) (\<lambda>s.
           rbind (get_next_req dev (Nd req_node) (set_device dev (\<lambda>d. d\<lparr>do_request_flag := False\<rparr>) s)) (\<lambda>(nxt, s).
           rbind (remove_node (lheap s) (Nd req_node)) (\<lambda>h.
           Inr (s\<lparr>lheap := h\<rparr>)))))))))"

section \<open>Partitions\<close>

definition rd16 :: "(nat \<Rightarrow> u8) \<Rightarrow> nat \<Rightarrow> u16" where
  "rd16 m a = word_of_nat (unat (m a) + 256 * unat (m (a + 1)))"

definition rd32 :: "(nat \<Rightarrow> u8) \<Rightarrow> nat \<Rightarrow> u32" where
  "rd32 m a = word_of_nat (unat (rd16 m a) + 65536 * unat (rd16 m (a + 2)))"

definition wr16 :: "nat \<Rightarrow> u16 \<Rightarrow> (nat \<Rightarrow> u8) \<Rightarrow> nat \<Rightarrow> u8" where
  "wr16 a w m = m(a := word_of_nat (unat w mod 256), a + 1 := word_of_nat (unat w div 256))"

definition wr32 :: "nat \<Rightarrow> u32 \<Rightarrow> (nat \<Rightarrow> u8) \<Rightarrow> nat \<Rightarrow> u8" where
  "wr32 a w m = wr16 (a + 2) (word_of_nat (unat w div 65536)) (wr16 a (word_of_nat (unat w mod 65536)) m)"

definition MBR_PART_NR :: nat where "MBR_PART_NR = 4"

definition name_bytes :: "string \<Rightarrow> u8 list" where
  "name_bytes nm = map (\<lambda>c. word_of_nat (of_char c)) nm"

definition name_chars :: "u8 list \<Rightarrow> string" where
  "name_chars b = map (\<lambda>c. char_of (unat c)) b"

text \<open>
  \<open>buf\<close> is the page that \<^verbatim>\<open>alloc_kpage\<close> returns for the boot sector. Partition entries are
  16 bytes from offset 446: type at 4, first sector at 8, number of sectors at 12.
\<close>

definition install_part :: "int \<Rightarrow> nat \<Rightarrow> nat \<Rightarrow> 'a dsys_scheme \<Rightarrow> 'a dsys_scheme res" where
  "install_part disk_idx buf i s =
     (let entry = buf + 446 + 16 * i in
      if rd32 (mem s) (entry + 12) = 0 then Inr s
      else
        rbind (device_get disk_idx s) (\<lambda>disk.
        rbind (vsprintf (replicate 1024 NUL) (''%s%d'' @ [NUL]) [VStr (name_chars (d_name disk)), VInt (word_of_nat (i + 1))])
          (\<lambda>(n, name).
        rbind (ensure (n < 8) Assert) (\<lambda>_.
        let part = \<lparr>part_name = name_bytes (take 8 name), part_disk = d_dev disk,
              part_system = word_of_nat (unat (mem s (entry + 4))), part_start = rd32 (mem s) (entry + 8),
              part_count = rd32 (mem s) (entry + 12)\<rparr>;
            s = s\<lparr>parts := parts s @ [part]\<rparr> in
        rbind (device_install DEV_BLOCK DEV_DISK_PART (length (parts s) - 1) (part_name part) disk_idx
          PartFn PartFn PartFn 0 s) (\<lambda>(_, s). Inr s)))))"

definition disk_part_install :: "int \<Rightarrow> nat \<Rightarrow> 'a dsys_scheme \<Rightarrow> 'a dsys_scheme res" where
  "disk_part_install disk_idx buf s =
     rbind (device_get disk_idx s) (\<lambda>_.
     rbind (device_read disk_idx buf 1 0 s) (\<lambda>(_, s).
     for_each (install_part disk_idx buf) [0..<MBR_PART_NR] s))"

end
