(* ===== verification/Buffer_Cache.thy ===== *)
theory Buffer_Cache
  imports Block_Device
begin

unbundle bit_operations_syntax

text \<open>
  The buffer cache of \<^verbatim>\<open>fs/buffer.c\<close>: buffers handed out from a fixed region, found by a
  hash table of lists and reused from the head of \<^verbatim>\<open>free_list\<close>. The lists are the lists of
  \<^verbatim>\<open>list.c\<close>; buffer \<open>i\<close> has the nodes \<open>2 * i\<close> and \<open>2 * i + 1\<close>, whose owner \<open>i + 1\<close> stands for
  the address of the buffer. With one task nobody unlocks or releases a buffer that is
  waited for: waiting is the stop \<open>Hang\<close>.
\<close>

section \<open>State\<close>

record buffer_t =
  b_data :: nat
  b_blknr :: u32
  b_dev :: int
  b_dirty :: bool
  b_lock :: bool
  b_count :: u8
  b_vaild :: bool
  b_waiter :: bool

text \<open>\<open>b_lock\<close> is the value of the mutex, true when it is free. The buffers handed out so far:\<close>

record bcache = dsys +
  bufs :: "buffer_t list"

definition HASH_CNT :: nat where "HASH_CNT = 31"
definition BUFFER_M_END :: nat where "BUFFER_M_END = 0xC00000"
definition BUFFER_M_START :: nat where "BUFFER_M_START = 0x800000"
definition sizeof_buffer :: nat where "sizeof_buffer = 72"

definition buf_wait_list :: nat where "buf_wait_list = 10"
definition free_list :: nat where "free_list = 11"
definition hash_list :: "nat \<Rightarrow> nat" where "hash_list h = 12 + h"

definition fnode :: "nat \<Rightarrow> nat" where "fnode i = 2 * i"
definition hnode :: "nat \<Rightarrow> nat" where "hnode i = 2 * i + 1"

text \<open>The buffer a node belongs to, and updates of a buffer.\<close>

definition buf_of :: "'a bcache_scheme \<Rightarrow> ListNode_t \<Rightarrow> nat res" where
  "buf_of s n = (if 0 < n_owner n \<and> n_owner n \<le> length (bufs s) then Inr (n_owner n - 1) else Inl Fault)"

definition upd_buf :: "nat \<Rightarrow> (buffer_t \<Rightarrow> buffer_t) \<Rightarrow> 'a bcache_scheme \<Rightarrow> 'a bcache_scheme" where
  "upd_buf i f s = s\<lparr>bufs := (bufs s)[i := f (bufs s ! i)]\<rparr>"

definition on_lists :: "(list_heap \<Rightarrow> list_heap res) \<Rightarrow> 'a dsys_scheme \<Rightarrow> 'a dsys_scheme res" where
  "on_lists f s = rbind (f (lheap s)) (\<lambda>h. Inr (s\<lparr>lheap := h\<rparr>))"

section \<open>Finding and making buffers\<close>

definition hash :: "int \<Rightarrow> u32 \<Rightarrow> nat" where
  "hash dev block = unat ((word_of_int dev XOR block) mod word_of_nat HASH_CNT)"

partial_function (option) find_loop :: "'a bcache_scheme \<Rightarrow> nref \<Rightarrow> int \<Rightarrow> u32 \<Rightarrow> nref \<Rightarrow> nat option res option" where
  "find_loop s e dev blknr node =
     (if node = e then Some (Inr None)
      else case rbind (get_node (lheap s) node) (\<lambda>n. rbind (buf_of s n) (\<lambda>i. Inr (n_next n, i))) of
        Inl stop \<Rightarrow> Some (Inl stop)
      | Inr (nxt, i) \<Rightarrow>
          if b_dev (bufs s ! i) = dev \<and> b_blknr (bufs s ! i) = blknr then Some (Inr (Some i))
          else find_loop s e dev blknr nxt)"

definition find_from_hash_table :: "int \<Rightarrow> u32 \<Rightarrow> 'a bcache_scheme \<Rightarrow> nat option res" where
  "find_from_hash_table dev blknr s =
     (let l = hash_list (hash dev blknr) in
      rbind (get_node (lheap s) (End l)) (\<lambda>e. run (find_loop s (End l) dev blknr (n_next e))))"

definition get_from_hash_table :: "int \<Rightarrow> u32 \<Rightarrow> 'a bcache_scheme \<Rightarrow> (nat option \<times> 'a bcache_scheme) res" where
  "get_from_hash_table dev blknr s =
     rbind (find_from_hash_table dev blknr s) (\<lambda>r.
     case r of None \<Rightarrow> Inr (None, s)
     | Some i \<Rightarrow> Inr (Some i, upd_buf i (\<lambda>b. b\<lparr>b_count := b_count b + 1\<rparr>) s))"

definition get_new_buffer :: "'a bcache_scheme \<Rightarrow> nat option \<times> 'a bcache_scheme" where
  "get_new_buffer s =
     (let i = length (bufs s) in
      if BUFFER_M_START + sizeof_buffer * i + sizeof_buffer < BUFFER_M_END - BLOCK_SIZE * i - BLOCK_SIZE then
        (Some i, s\<lparr>bufs := bufs s @ [\<lparr>b_data = BUFFER_M_END - BLOCK_SIZE * (i + 1), b_blknr = 0, b_dev = EOF,
             b_dirty = False, b_lock = True, b_count = 0, b_vaild = False, b_waiter = False\<rparr>],
           lheap := node_init (node_init (lheap s) (fnode i) (i + 1) 0) (hnode i) (i + 1) 0\<rparr>)
      else (None, s))"

definition unlink_node :: "nref \<Rightarrow> list_heap \<Rightarrow> list_heap res" where
  "unlink_node r h = rbind (get_node h r) (\<lambda>n. if n_container n \<noteq> None then remove_node h r else Inr h)"

definition buffer_remove :: "nat \<Rightarrow> 'a bcache_scheme \<Rightarrow> 'a bcache_scheme res" where
  "buffer_remove i s =
     rbind (on_lists (unlink_node (Nd (fnode i))) s) (on_lists (unlink_node (Nd (hnode i))))"

definition buffer_insert :: "nat \<Rightarrow> 'a bcache_scheme \<Rightarrow> 'a bcache_scheme res" where
  "buffer_insert i s =
     rbind (on_lists (\<lambda>h. list_pushback h free_list (Nd (fnode i))) s)
       (\<lambda>s. on_lists (\<lambda>h. list_push h (hash_list (hash (b_dev (bufs s ! i)) (b_blknr (bufs s ! i)))) (Nd (hnode i))) s)"

section \<open>Locks, reading and writing\<close>

definition buffer_lock :: "nat \<Rightarrow> 'a bcache_scheme \<Rightarrow> 'a bcache_scheme res" where
  "buffer_lock i s =
     rbind (ensure (b_lock (bufs s ! i)) Hang) (\<lambda>_. Inr (upd_buf i (\<lambda>b. b\<lparr>b_lock := False\<rparr>) s))"

definition buffer_unlock :: "nat \<Rightarrow> 'a bcache_scheme \<Rightarrow> 'a bcache_scheme res" where
  "buffer_unlock i s = Inr (upd_buf i (\<lambda>b. b\<lparr>b_lock := True\<rparr>) s)"

text \<open>\<^verbatim>\<open>device_request\<close> with the buffer locked meanwhile.\<close>

definition buf_request :: "nat \<Rightarrow> req_type \<Rightarrow> 'a bcache_scheme \<Rightarrow> 'a bcache_scheme res" where
  "buf_request i ty s =
     rbind (buffer_lock i s) (\<lambda>s.
     rbind (device_request (b_dev (bufs s ! i)) (b_data (bufs s ! i)) SECS_PER_BLOCK
        (sint (b_blknr (bufs s ! i) * word_of_nat SECS_PER_BLOCK)) ty s) (\<lambda>s.
     buffer_unlock i s))"

definition bwrite :: "nat \<Rightarrow> 'a bcache_scheme \<Rightarrow> 'a bcache_scheme res" where
  "bwrite i s =
     (if \<not> b_dirty (bufs s ! i) then Inr s
      else rbind (buf_request i REQ_WRITE s) (\<lambda>s. Inr (upd_buf i (\<lambda>b. b\<lparr>b_dirty := False\<rparr>) s)))"

section \<open>getblk\<close>

definition SCORE :: "buffer_t \<Rightarrow> nat" where
  "SCORE b = (if b_lock b then 0 else 1) + (if b_dirty b then 2 else 0)"

text \<open>
  The search of \<^verbatim>\<open>free_list\<close>: the buffer chosen, and whether it is taken at once. The test
  of the score is made for the best buffer so far, before the present one is compared.
\<close>

partial_function (option) free_loop ::
    "'a bcache_scheme \<Rightarrow> nat option \<Rightarrow> nref \<Rightarrow> (nat option \<times> bool) res option" where
  "free_loop s bf node =
     (if node = End free_list then Some (Inr (bf, False))
      else case rbind (get_node (lheap s) node) (\<lambda>n. rbind (buf_of s n) (\<lambda>i. Inr (n_next n, i))) of
        Inl stop \<Rightarrow> Some (Inl stop)
      | Inr (nxt, tmp) \<Rightarrow>
          if b_count (bufs s ! tmp) \<noteq> 0 then free_loop s bf nxt
          else if b_waiter (bufs s ! tmp) then free_loop s bf nxt
          else
            let best = (case bf of None \<Rightarrow> tmp | Some b \<Rightarrow> b) in
            if SCORE (bufs s ! best) = 0 then Some (Inr (Some best, True))
            else free_loop s (Some (if SCORE (bufs s ! tmp) < SCORE (bufs s ! best) then tmp else best)) nxt)"

text \<open>\<^verbatim>\<open>_find_new\<close>: the buffer is made the one of the block.\<close>

definition find_new :: "nat \<Rightarrow> int \<Rightarrow> u32 \<Rightarrow> 'a bcache_scheme \<Rightarrow> (nat \<times> 'a bcache_scheme) res" where
  "find_new i dev blknr s =
     rbind (buffer_remove i (upd_buf i (\<lambda>b. b\<lparr>b_count := 1, b_dirty := False, b_vaild := False, b_blknr := blknr,
        b_dev := dev\<rparr>) s)) (\<lambda>s.
     rbind (buffer_insert i s) (\<lambda>s. Inr (i, s)))"

text \<open>
  One round of \<^verbatim>\<open>getblk\<close>: \<open>Inl s\<close> is \<^verbatim>\<open>goto _retry\<close>. Waiting for a free or a locked buffer
  blocks the only task.
\<close>

definition getblk_round ::
    "int \<Rightarrow> u32 \<Rightarrow> 'a bcache_scheme \<Rightarrow> ('a bcache_scheme + (nat \<times> 'a bcache_scheme)) res" where
  "getblk_round dev blknr s =
     rbind (get_from_hash_table dev blknr s) (\<lambda>(bf, s).
     case bf of Some i \<Rightarrow> Inr (Inr (i, s))
     | None \<Rightarrow>
       let (bf, s) = get_new_buffer s in
       case bf of Some i \<Rightarrow> rbind (find_new i dev blknr s) (\<lambda>r. Inr (Inr r))
       | None \<Rightarrow>
         rbind (get_node (lheap s) (End free_list)) (\<lambda>e.
         rbind (run (free_loop s None (n_next e))) (\<lambda>(bf, clean).
         case bf of None \<Rightarrow> Inl Hang
         | Some i \<Rightarrow>
           if clean then rbind (find_new i dev blknr s) (\<lambda>r. Inr (Inr r))
           else
             rbind (ensure (b_lock (bufs s ! i)) Hang) (\<lambda>_.
             rbind (bwrite i s) (\<lambda>s'.
             if b_dirty (bufs s ! i) \<and> b_count (bufs s' ! i) \<noteq> 0 then Inr (Inl s')
             else
               rbind (find_from_hash_table dev blknr s') (\<lambda>r.
               if r \<noteq> None then Inr (Inl s')
               else rbind (find_new i dev blknr s') (\<lambda>r. Inr (Inr r))))))))"

partial_function (option) getblk_loop :: "int \<Rightarrow> u32 \<Rightarrow> 'a bcache_scheme \<Rightarrow> (nat \<times> 'a bcache_scheme) res option" where
  "getblk_loop dev blknr s =
     (case getblk_round dev blknr s of
        Inl stop \<Rightarrow> Some (Inl stop)
      | Inr r \<Rightarrow> (case r of Inl s' \<Rightarrow> getblk_loop dev blknr s' | Inr x \<Rightarrow> Some (Inr x)))"

definition getblk :: "int \<Rightarrow> u32 \<Rightarrow> 'a bcache_scheme \<Rightarrow> (nat \<times> 'a bcache_scheme) res" where
  "getblk dev blknr s = run (getblk_loop dev blknr s)"

definition bread :: "int \<Rightarrow> u32 \<Rightarrow> 'a bcache_scheme \<Rightarrow> (nat \<times> 'a bcache_scheme) res" where
  "bread dev blknr s =
     rbind (getblk dev blknr s) (\<lambda>(i, s).
     if b_vaild (bufs s ! i) then Inr (i, s)
     else
       rbind (buf_request i REQ_READ s) (\<lambda>s.
       Inr (i, upd_buf i (\<lambda>b. b\<lparr>b_vaild := True, b_dirty := False\<rparr>) s)))"

text \<open>The count is an unsigned byte: the assertion that it is not negative always holds.\<close>

definition brelse :: "nat option \<Rightarrow> 'a bcache_scheme \<Rightarrow> 'a bcache_scheme res" where
  "brelse bf s =
     (case bf of None \<Rightarrow> Inr s
      | Some i \<Rightarrow>
          let s = upd_buf i (\<lambda>b. b\<lparr>b_count := b_count b - 1\<rparr>) s in
          if b_count (bufs s ! i) \<noteq> 0 then Inr s
          else
            rbind (bwrite i s) (\<lambda>s.
            rbind (list_isempty (lheap s) buf_wait_list) (\<lambda>e. rbind (ensure e Hang) (\<lambda>_. Inr s))))"

definition sync_dev :: "int \<Rightarrow> 'a bcache_scheme \<Rightarrow> 'a bcache_scheme res" where
  "sync_dev dev s = for_each bwrite [0..<length (bufs s)] s"

definition buffer_init :: "'a bcache_scheme \<Rightarrow> 'a bcache_scheme" where
  "buffer_init s = s\<lparr>bufs := [], lheap := foldl (\<lambda>h i. list_init h (hash_list i))
     (list_init (list_init (lheap s) buf_wait_list) free_list) [0..<HASH_CNT]\<rparr>"

end
