(* ===== verification/Minix_Fs.thy ===== *)
theory Minix_Fs
  imports Buffer_Cache Bitmap
begin

text \<open>
  The Minix file system of \<^verbatim>\<open>fs/minix1\<close> up to the data of inodes: \<^verbatim>\<open>super.c\<close>, \<^verbatim>\<open>bmap.c\<close> and
  \<^verbatim>\<open>inode.c\<close>. A pointer into a buffer is an address in \<open>mem\<close>; what is there is read and
  written by its offsets in the structures of \<^verbatim>\<open>minix1.h\<close>. Pointers to the entries of the
  inode and super block tables are their positions. The model has one task, so that the
  interrupt flag plays no part.
\<close>

section \<open>Disk structures\<close>

definition MINIX1_MAGIC :: u16 where "MINIX1_MAGIC = 0x137F"
definition NAME_LEN :: nat where "NAME_LEN = 14"
definition IMAP_NR :: nat where "IMAP_NR = 8"
definition ZMAP_NR :: nat where "ZMAP_NR = 8"
definition BLOCK_BITS :: nat where "BLOCK_BITS = BLOCK_SIZE * 8"
definition ZONES_IDX_PER_BLOCK :: nat where "ZONES_IDX_PER_BLOCK = BLOCK_SIZE div 2"
definition DIR_ENTRY_PER_BLOCK :: nat where "DIR_ENTRY_PER_BLOCK = BLOCK_SIZE div 16"
definition IFMT :: u16 where "IFMT = 0xF000"
definition IFREG :: u16 where "IFREG = 0x8000"
definition IFDIR :: u16 where "IFDIR = 0x4000"
definition ISVTX :: u16 where "ISVTX = 0x200"
definition ISDIR :: "u16 \<Rightarrow> bool" where "ISDIR m \<longleftrightarrow> m AND IFMT = IFDIR"
definition ISFILE :: "u16 \<Rightarrow> bool" where "ISFILE m \<longleftrightarrow> m AND IFMT = IFREG"

lemmas fs_consts = MINIX1_MAGIC_def NAME_LEN_def IMAP_NR_def ZMAP_NR_def BLOCK_BITS_def
  ZONES_IDX_PER_BLOCK_def DIR_ENTRY_PER_BLOCK_def IFMT_def IFREG_def IFDIR_def ISVTX_def

text \<open>\<^verbatim>\<open>d_inode\<close> is 32 bytes, \<^verbatim>\<open>d_super_block\<close> 20, \<^verbatim>\<open>dir_entry\<close> 16.\<close>

definition di_mode :: "nat \<Rightarrow> 'a dsys_scheme \<Rightarrow> u16" where "di_mode a s = rd16 (mem s) a"
definition di_uid :: "nat \<Rightarrow> 'a dsys_scheme \<Rightarrow> u16" where "di_uid a s = rd16 (mem s) (a + 2)"
definition di_size :: "nat \<Rightarrow> 'a dsys_scheme \<Rightarrow> u32" where "di_size a s = rd32 (mem s) (a + 4)"
definition di_mtime :: "nat \<Rightarrow> 'a dsys_scheme \<Rightarrow> u32" where "di_mtime a s = rd32 (mem s) (a + 8)"
definition di_gid :: "nat \<Rightarrow> 'a dsys_scheme \<Rightarrow> u8" where "di_gid a s = mem s (a + 12)"
definition di_nlinks :: "nat \<Rightarrow> 'a dsys_scheme \<Rightarrow> u8" where "di_nlinks a s = mem s (a + 13)"
definition di_zone :: "nat \<Rightarrow> nat" where "di_zone a = a + 14"

definition su_inodes :: "nat \<Rightarrow> 'a dsys_scheme \<Rightarrow> u16" where "su_inodes a s = rd16 (mem s) a"
definition su_zones :: "nat \<Rightarrow> 'a dsys_scheme \<Rightarrow> u16" where "su_zones a s = rd16 (mem s) (a + 2)"
definition su_imap_blocks :: "nat \<Rightarrow> 'a dsys_scheme \<Rightarrow> u16" where "su_imap_blocks a s = rd16 (mem s) (a + 4)"
definition su_zmap_blocks :: "nat \<Rightarrow> 'a dsys_scheme \<Rightarrow> u16" where "su_zmap_blocks a s = rd16 (mem s) (a + 6)"
definition su_firstdatazone :: "nat \<Rightarrow> 'a dsys_scheme \<Rightarrow> u16" where "su_firstdatazone a s = rd16 (mem s) (a + 8)"
definition su_magic :: "nat \<Rightarrow> 'a dsys_scheme \<Rightarrow> u16" where "su_magic a s = rd16 (mem s) (a + 16)"

definition wmem :: "((nat \<Rightarrow> u8) \<Rightarrow> nat \<Rightarrow> u8) \<Rightarrow> 'a dsys_scheme \<Rightarrow> 'a dsys_scheme" where
  "wmem f s = s\<lparr>mem := f (mem s)\<rparr>"

definition set_mode :: "nat \<Rightarrow> u16 \<Rightarrow> 'a dsys_scheme \<Rightarrow> 'a dsys_scheme" where "set_mode a v = wmem (wr16 a v)"
definition set_uid :: "nat \<Rightarrow> u16 \<Rightarrow> 'a dsys_scheme \<Rightarrow> 'a dsys_scheme" where "set_uid a v = wmem (wr16 (a + 2) v)"
definition set_size :: "nat \<Rightarrow> u32 \<Rightarrow> 'a dsys_scheme \<Rightarrow> 'a dsys_scheme" where "set_size a v = wmem (wr32 (a + 4) v)"
definition set_gid :: "nat \<Rightarrow> u8 \<Rightarrow> 'a dsys_scheme \<Rightarrow> 'a dsys_scheme" where "set_gid a v = wmem (\<lambda>m. m(a + 12 := v))"
definition set_nlinks :: "nat \<Rightarrow> u8 \<Rightarrow> 'a dsys_scheme \<Rightarrow> 'a dsys_scheme" where "set_nlinks a v = wmem (\<lambda>m. m(a + 13 := v))"

text \<open>An array of 16-bit zone numbers at an address.\<close>

definition zget :: "nat \<Rightarrow> nat \<Rightarrow> 'a dsys_scheme \<Rightarrow> u16" where "zget arr k s = rd16 (mem s) (arr + 2 * k)"
definition zset :: "nat \<Rightarrow> nat \<Rightarrow> u16 \<Rightarrow> 'a dsys_scheme \<Rightarrow> 'a dsys_scheme" where "zset arr k v = wmem (wr16 (arr + 2 * k) v)"

text \<open>\<^verbatim>\<open>memset\<close> and \<^verbatim>\<open>memcpy\<close> on \<open>mem\<close>, byte by byte.\<close>

definition mem_set :: "nat \<Rightarrow> u8 \<Rightarrow> nat \<Rightarrow> (nat \<Rightarrow> u8) \<Rightarrow> nat \<Rightarrow> u8" where
  "mem_set a v n m = (\<lambda>x. if a \<le> x \<and> x < a + n then v else m x)"

primrec mem_copy :: "nat \<Rightarrow> nat \<Rightarrow> nat \<Rightarrow> (nat \<Rightarrow> u8) \<Rightarrow> nat \<Rightarrow> u8" where
  "mem_copy d a 0 m = m"
| "mem_copy d a (Suc n) m = mem_copy (d + 1) (a + 1) n (m(d := m a))"

section \<open>State\<close>

record m_inode =
  mi_desc :: nat
  mi_buf :: nat
  mi_dev :: int
  mi_nr :: int
  mi_count :: u32
  mi_ctime :: u32

record super_block_t =
  sb_desc :: nat
  sb_buf :: nat
  imaps :: "nat option list"
  zmaps :: "nat option list"
  sb_dev :: int

record fs = bcache +
  inode_table :: "m_inode list"
  super_table :: "super_block_t list"

definition INODE_NR :: nat where "INODE_NR = 64"
definition SUPER_NR :: nat where "SUPER_NR = 32"
definition BLOCK_INODES :: nat where "BLOCK_INODES = BLOCK_SIZE div 32"

definition upd_inode :: "nat \<Rightarrow> (m_inode \<Rightarrow> m_inode) \<Rightarrow> 'a fs_scheme \<Rightarrow> 'a fs_scheme" where
  "upd_inode i f s = s\<lparr>inode_table := (inode_table s)[i := f (inode_table s ! i)]\<rparr>"

definition upd_super :: "nat \<Rightarrow> (super_block_t \<Rightarrow> super_block_t) \<Rightarrow> 'a fs_scheme \<Rightarrow> 'a fs_scheme" where
  "upd_super i f s = s\<lparr>super_table := (super_table s)[i := f (super_table s ! i)]\<rparr>"

text \<open>A buffer number from a pointer that may be null, and \<^verbatim>\<open>b_dirty = true\<close>.\<close>

definition deref :: "nat option \<Rightarrow> nat res" where
  "deref p = (case p of None \<Rightarrow> Inl Fault | Some i \<Rightarrow> Inr i)"

definition mark :: "nat \<Rightarrow> 'a bcache_scheme \<Rightarrow> 'a bcache_scheme" where
  "mark b s = upd_buf b (\<lambda>x. x\<lparr>b_dirty := True\<rparr>) s"

definition data :: "nat \<Rightarrow> 'a bcache_scheme \<Rightarrow> nat" where
  "data b s = b_data (bufs s ! b)"

section \<open>Super blocks\<close>

fun first_free :: "('x \<Rightarrow> int) \<Rightarrow> int \<Rightarrow> 'x list \<Rightarrow> nat option" where
  "first_free f v [] = None"
| "first_free f v (x # xs) = (if f x = v then Some 0 else map_option Suc (first_free f v xs))"

definition get_free_super :: "'a fs_scheme \<Rightarrow> nat res" where
  "get_free_super s = (case first_free sb_dev EOF (super_table s) of None \<Rightarrow> Inl Panic | Some i \<Rightarrow> Inr i)"

text \<open>The loops of \<^verbatim>\<open>read_super\<close>: \<open>f\<close> stores the buffer read at position \<open>i\<close> of its array.\<close>

fun read_maps ::
    "nat \<Rightarrow> (nat \<Rightarrow> nat \<Rightarrow> super_block_t \<Rightarrow> super_block_t) \<Rightarrow> nat \<Rightarrow> int \<Rightarrow> nat list \<Rightarrow> nat \<Rightarrow> 'a fs_scheme \<Rightarrow>
     (nat \<times> 'a fs_scheme) res" where
  "read_maps sb f limit dev [] idx s = Inr (idx, s)"
| "read_maps sb f limit dev (i # is) idx s =
     rbind (ensure (i < limit) Assert) (\<lambda>_.
     rbind (bread dev (word_of_nat idx) s) (\<lambda>(b, s).
     read_maps sb f limit dev is (idx + 1) (upd_super sb (f i b) s)))"

definition read_super :: "int \<Rightarrow> 'a fs_scheme \<Rightarrow> (nat \<times> 'a fs_scheme) res" where
  "read_super dev s =
     rbind (get_free_super s) (\<lambda>sb.
     let s = upd_super sb (\<lambda>x. x\<lparr>sb_dev := dev\<rparr>) s in
     rbind (bread dev 1 s) (\<lambda>(b, s).
     let desc = data b s;
         s = upd_super sb (\<lambda>x. x\<lparr>sb_buf := b, sb_desc := desc\<rparr>) s in
     rbind (ensure (su_magic desc s = MINIX1_MAGIC) Assert) (\<lambda>_.
     let s = upd_super sb (\<lambda>x. x\<lparr>imaps := replicate IMAP_NR None, zmaps := replicate ZMAP_NR None\<rparr>) s in
     rbind (read_maps sb (\<lambda>i b x. x\<lparr>imaps := (imaps x)[i := Some b]\<rparr>) IMAP_NR dev [0..<unat (su_imap_blocks desc s)] 2 s)
       (\<lambda>(idx, s).
     rbind (read_maps sb (\<lambda>i b x. x\<lparr>zmaps := (zmaps x)[i := Some b]\<rparr>) ZMAP_NR dev [0..<unat (su_zmap_blocks desc s)] idx s)
       (\<lambda>(idx, s). Inr (sb, s))))))"

definition get_super :: "int \<Rightarrow> 'a fs_scheme \<Rightarrow> (nat \<times> 'a fs_scheme) res" where
  "get_super dev s = (case first_free sb_dev dev (super_table s) of Some i \<Rightarrow> Inr (i, s) | None \<Rightarrow> read_super dev s)"

definition super_init :: "'a fs_scheme \<Rightarrow> 'a fs_scheme" where
  "super_init s = s\<lparr>super_table := replicate SUPER_NR
     \<lparr>sb_desc = 0, sb_buf = 0, imaps = replicate IMAP_NR None, zmaps = replicate ZMAP_NR None, sb_dev = EOF\<rparr>\<rparr>"

section \<open>Bitmaps of zones and inodes\<close>

text \<open>The bitmap in a buffer, as a \<^verbatim>\<open>bitmap_t\<close> and back.\<close>

definition map_at :: "nat \<Rightarrow> u32 \<Rightarrow> 'a dsys_scheme \<Rightarrow> bitmap_t" where
  "map_at a off s = \<lparr>bm_start = map (mem s) [a..<a + BLOCK_SIZE], bm_length = word_of_nat BLOCK_SIZE, bm_offset = off\<rparr>"

definition put_map :: "nat \<Rightarrow> bitmap_t \<Rightarrow> 'a dsys_scheme \<Rightarrow> 'a dsys_scheme" where
  "put_map a mp = wmem (\<lambda>m x. if a \<le> x \<and> x < a + BLOCK_SIZE then bm_start mp ! (x - a) else m x)"

definition zone_offset :: "nat \<Rightarrow> nat \<Rightarrow> 'a fs_scheme \<Rightarrow> u32" where
  "zone_offset desc i s = word_of_nat (BLOCK_BITS * i) + ucast (su_firstdatazone desc s) - 1"

fun balloc_loop :: "nat \<Rightarrow> nat \<Rightarrow> nat list \<Rightarrow> 'a fs_scheme \<Rightarrow> (int \<times> 'a fs_scheme) res" where
  "balloc_loop sb desc [] s = Inr (EOF, s)"
| "balloc_loop sb desc (i # is) s =
     rbind (arr_get (zmaps (super_table s ! sb)) i) (\<lambda>p.
     rbind (deref p) (\<lambda>b.
     rbind (bitmap_scan (map_at (data b s) (zone_offset desc i s) s) 1) (\<lambda>(nr, mp).
     let s = put_map (data b s) mp s in
     if nr \<noteq> EOF then
       rbind (ensure (nr < uint (su_zones desc s)) Assert) (\<lambda>_. Inr (nr, mark b s))
     else balloc_loop sb desc is s)))"

definition balloc :: "int \<Rightarrow> 'a fs_scheme \<Rightarrow> (int \<times> 'a fs_scheme) res" where
  "balloc dev s =
     rbind (get_super dev s) (\<lambda>(sb, s).
     let desc = sb_desc (super_table s ! sb) in
     rbind (balloc_loop sb desc [0..<unat (su_zmap_blocks desc s)] s) (\<lambda>(nr, s).
     rbind (ensure (nr \<noteq> EOF) Assert) (\<lambda>_. Inr (nr, s))))"

text \<open>Clearing bit \<open>nr\<close> of a bitmap in a buffer, which must be set.\<close>

definition clear_bit :: "nat option \<Rightarrow> u32 \<Rightarrow> u32 \<Rightarrow> 'a fs_scheme \<Rightarrow> 'a fs_scheme res" where
  "clear_bit p off nr s =
     rbind (deref p) (\<lambda>b.
     let mp = map_at (data b s) off s in
     rbind (bitmap_test mp nr) (\<lambda>used.
     rbind (ensure used Assert) (\<lambda>_.
     rbind (bitmap_set mp nr False) (\<lambda>(_, mp).
     Inr (mark b (put_map (data b s) mp s))))))"

definition bfree :: "int \<Rightarrow> u16 \<Rightarrow> 'a fs_scheme \<Rightarrow> 'a fs_scheme res" where
  "bfree dev block_nr s =
     rbind (get_super dev s) (\<lambda>(sb, s).
     let desc = sb_desc (super_table s ! sb); bmap_nr = unat block_nr div BLOCK_BITS in
     rbind (ensure (block_nr < su_zones desc s) Assert) (\<lambda>_.
     rbind (arr_get (zmaps (super_table s ! sb)) bmap_nr) (\<lambda>p.
     clear_bit p (zone_offset desc bmap_nr s) (ucast block_nr) s)))"

fun ialloc_loop :: "nat \<Rightarrow> nat \<Rightarrow> nat list \<Rightarrow> 'a fs_scheme \<Rightarrow> (int \<times> 'a fs_scheme) res" where
  "ialloc_loop sb desc [] s = Inr (EOF, s)"
| "ialloc_loop sb desc (i # is) s =
     rbind (arr_get (imaps (super_table s ! sb)) i) (\<lambda>p.
     rbind (deref p) (\<lambda>b.
     rbind (bitmap_scan (map_at (data b s) (word_of_nat (BLOCK_BITS * i)) s) 1) (\<lambda>(nr, mp).
     let s = put_map (data b s) mp s in
     if nr \<noteq> EOF then
       rbind (ensure (nr < uint (su_inodes desc s)) Assert) (\<lambda>_. Inr (nr, mark b s))
     else ialloc_loop sb desc is s)))"

definition ialloc :: "int \<Rightarrow> 'a fs_scheme \<Rightarrow> (int \<times> 'a fs_scheme) res" where
  "ialloc dev s =
     rbind (get_super dev s) (\<lambda>(sb, s).
     let desc = sb_desc (super_table s ! sb) in
     ialloc_loop sb desc [0..<unat (su_imap_blocks desc s)] s)"

definition ifree :: "int \<Rightarrow> int \<Rightarrow> 'a fs_scheme \<Rightarrow> 'a fs_scheme res" where
  "ifree dev inode_nr s =
     rbind (get_super dev s) (\<lambda>(sb, s).
     let desc = sb_desc (super_table s ! sb); bmap_nr = nat inode_nr div BLOCK_BITS in
     rbind (ensure (inode_nr < uint (su_inodes desc s)) Assert) (\<lambda>_.
     rbind (arr_get (imaps (super_table s ! sb)) bmap_nr) (\<lambda>p.
     clear_bit p (word_of_nat (BLOCK_BITS * bmap_nr)) (word_of_int inode_nr) s)))"

section \<open>bmap\<close>

text \<open>The new block is zeroed on the way.\<close>

definition new_zone :: "int \<Rightarrow> nat \<Rightarrow> nat \<Rightarrow> nat \<Rightarrow> 'a fs_scheme \<Rightarrow> 'a fs_scheme res" where
  "new_zone dev arr index buf s =
     rbind (balloc dev s) (\<lambda>(nr, s).
     let s = zset arr index (word_of_int nr) s in
     rbind (bread dev (ucast (zget arr index s)) s) (\<lambda>(tmp, s).
     rbind (buffer_lock tmp s) (\<lambda>s.
     rbind (buffer_unlock tmp (mark tmp (wmem (mem_set (data tmp s) 0 BLOCK_SIZE) s))) (\<lambda>s.
     rbind (brelse (Some tmp) s) (\<lambda>s. Inr (mark buf s))))))"

text \<open>
  The loop over the levels. On the way down \<^verbatim>\<open>index\<close> is advanced before \<^verbatim>\<open>array[index]\<close> is read.
  \<open>block\<close> is not negative: the asserts of \<^verbatim>\<open>bmap\<close> see to it.
\<close>

fun bmap_loop ::
    "nat \<Rightarrow> int \<Rightarrow> nat \<Rightarrow> nat \<Rightarrow> nat option \<Rightarrow> nat option \<Rightarrow> nat \<Rightarrow> nat \<Rightarrow> nat \<Rightarrow> bool \<Rightarrow> 'a fs_scheme \<Rightarrow>
     (u16 \<times> 'a fs_scheme) res" where
  "bmap_loop level dev arr buf buf_1 buf_2 index block divider create s =
     rbind (if zget arr index s = 0 \<and> create then new_zone dev arr index buf s else Inr s) (\<lambda>s.
     if level = 0 \<or> zget arr index s = 0 then
       let tmp = zget arr index s in
       rbind (brelse buf_1 s) (\<lambda>s. rbind (brelse buf_2 s) (\<lambda>s. Inr (tmp, s)))
     else
       let index = (block div divider) mod 65536; block = block mod divider; divider = divider div ZONES_IDX_PER_BLOCK in
       rbind (bread dev (ucast (zget arr index s)) s) (\<lambda>(b, s).
       bmap_loop (level - 1) dev (data b s) b (if level = 1 then Some b else buf_1) (if level = 2 then Some b else buf_2)
         index block divider create s))"

definition bmap :: "nat \<Rightarrow> int \<Rightarrow> bool \<Rightarrow> 'a fs_scheme \<Rightarrow> (u16 \<times> 'a fs_scheme) res" where
  "bmap inode block create s =
     (let n = inode_table s ! inode in
     rbind (get_super (mi_dev n) s) (\<lambda>(sb, s).
     rbind (ensure (0 \<le> block \<and> block < uint (su_zones (sb_desc (super_table s ! sb)) s)) Assert) (\<lambda>_.
     let start = (\<lambda>level index block divider.
           bmap_loop level (mi_dev n) (di_zone (mi_desc n)) (mi_buf n) None None index block divider create s);
         blk = nat block in
     if blk < 7 then start 0 blk blk 1
     else if blk - 7 < 7 + ZONES_IDX_PER_BLOCK then start 1 7 (blk - 7) 1
     else
       let blk = blk - 7 - (7 + ZONES_IDX_PER_BLOCK) in
       rbind (ensure (blk < ZONES_IDX_PER_BLOCK * ZONES_IDX_PER_BLOCK + 7 + ZONES_IDX_PER_BLOCK) Assert) (\<lambda>_.
       start 2 8 blk ZONES_IDX_PER_BLOCK))))"

section \<open>Inodes\<close>

definition get_free_inode :: "'a fs_scheme \<Rightarrow> nat res" where
  "get_free_inode s = (case first_free mi_dev EOF (inode_table s) of None \<Rightarrow> Inl Panic | Some i \<Rightarrow> Inr i)"

fun find_inode_loop :: "int \<Rightarrow> int \<Rightarrow> m_inode list \<Rightarrow> nat option" where
  "find_inode_loop dev nr [] = None"
| "find_inode_loop dev nr (x # xs) =
     (if mi_dev x = dev \<and> mi_nr x = nr then Some 0 else map_option Suc (find_inode_loop dev nr xs))"

definition find_inode :: "int \<Rightarrow> int \<Rightarrow> 'a fs_scheme \<Rightarrow> nat option" where
  "find_inode dev nr s = find_inode_loop dev nr (inode_table s)"

definition get_root :: nat where "get_root = 0"

definition inode_block :: "nat \<Rightarrow> int \<Rightarrow> 'a fs_scheme \<Rightarrow> u32" where
  "inode_block desc nr s = 2 + ucast (su_imap_blocks desc s) + ucast (su_zmap_blocks desc s)
     + word_of_nat (nat (nr - 1) div BLOCK_INODES)"

definition iget :: "int \<Rightarrow> int \<Rightarrow> 'a fs_scheme \<Rightarrow> (nat \<times> 'a fs_scheme) res" where
  "iget dev nr s =
     rbind (ensure (nr > 0) Assert) (\<lambda>_.
     case find_inode dev nr s of
       Some i \<Rightarrow> Inr (i, upd_inode i (\<lambda>x. x\<lparr>mi_count := mi_count x + 1\<rparr>) s)
     | None \<Rightarrow>
         rbind (get_super dev s) (\<lambda>(sb, s).
         let desc = sb_desc (super_table s ! sb) in
         rbind (ensure (nr \<le> uint (su_inodes desc s)) Assert) (\<lambda>_.
         rbind (get_free_inode s) (\<lambda>i.
         let s = upd_inode i (\<lambda>x. x\<lparr>mi_dev := dev, mi_nr := nr, mi_count := 1\<rparr>) s in
         rbind (bread dev (inode_block desc nr s) s) (\<lambda>(b, s).
         let a = data b s + 32 * (nat (nr - 1) mod BLOCK_INODES) in
         Inr (i, upd_inode i (\<lambda>x. x\<lparr>mi_buf := b, mi_desc := a, mi_ctime := di_mtime a s\<rparr>) s))))))"

definition iput :: "nat option \<Rightarrow> 'a fs_scheme \<Rightarrow> 'a fs_scheme res" where
  "iput p s =
     rbind (deref p) (\<lambda>i.
     rbind (ensure (mi_count (inode_table s ! i) > 0) Assert) (\<lambda>_.
     if mi_count (inode_table s ! i) > 1 then Inr (upd_inode i (\<lambda>x. x\<lparr>mi_count := mi_count x - 1\<rparr>) s)
     else
       rbind (brelse (Some (mi_buf (inode_table s ! i))) s) (\<lambda>s.
       Inr (upd_inode i (\<lambda>x. x\<lparr>mi_count := 0, mi_dev := EOF\<rparr>) s))))"

text \<open>
  \<^verbatim>\<open>offset\<close> is a signed 32-bit index, compared with the size as an unsigned one. The number
  of rounds is bounded by the bytes that are left; each one copies at least one byte. At a
  negative index \<^verbatim>\<open>bmap\<close> asserts, or, in the last block before the file, bytes in front of
  the buffer are touched; both end the model with a fault.
\<close>

fun inode_read_loop ::
    "nat \<Rightarrow> nat \<Rightarrow> nat \<Rightarrow> nat \<Rightarrow> nat \<Rightarrow> u32 \<Rightarrow> nat \<Rightarrow> 'a fs_scheme \<Rightarrow> (nat \<times> 'a fs_scheme) res" where
  "inode_read_loop 0 inode ubuf len offset ptr done s = Inl Hang"
| "inode_read_loop (Suc fuel) inode ubuf len offset ptr done s =
     (let desc = mi_desc (inode_table s ! inode); dev = mi_dev (inode_table s ! inode) in
      if len \<noteq> 0 \<and> ptr + word_of_nat done < di_size desc s then
        rbind (bmap inode (int (offset div BLOCK_SIZE)) False s) (\<lambda>(block, s).
        rbind (ensure (block \<noteq> 0) Assert) (\<lambda>_.
        rbind (bread dev (ucast block) s) (\<lambda>(bf, s).
        let rest = unat (di_size desc s - (ptr + word_of_nat done));
            n = (if rest < len then rest
                 else if BLOCK_SIZE - offset mod BLOCK_SIZE < len then BLOCK_SIZE - offset mod BLOCK_SIZE
                 else len);
            s = wmem (mem_copy ubuf (data bf s + offset mod BLOCK_SIZE) n) s in
        rbind (brelse (Some bf) s) (\<lambda>s.
        inode_read_loop fuel inode (ubuf + n) (len - n) ((offset div BLOCK_SIZE + 1) * BLOCK_SIZE) ptr (done + n) s))))
      else Inr (done, s))"

definition inode_read :: "nat \<Rightarrow> nat \<Rightarrow> u32 \<Rightarrow> int \<Rightarrow> 'a fs_scheme \<Rightarrow> (int \<times> 'a fs_scheme) res" where
  "inode_read inode ubuf len offset s =
     (let desc = mi_desc (inode_table s ! inode) in
     rbind (ensure (ISFILE (di_mode desc s) \<or> ISDIR (di_mode desc s)) Assert) (\<lambda>_.
     if (word_of_int offset :: u32) \<ge> di_size desc s then Inr (EOF, s)
     else
       rbind (ensure (len = 0 \<or> 0 \<le> offset) Fault) (\<lambda>_.
       rbind (inode_read_loop (Suc (unat len)) inode ubuf (unat len) (nat offset) (word_of_int offset) 0 s) (\<lambda>(n, s).
       Inr (int n, s)))))"

text \<open>The loop ends with \<^verbatim>\<open>len\<close> zero, which is what \<^verbatim>\<open>inode_write\<close> returns.\<close>

fun inode_write_loop :: "nat \<Rightarrow> nat \<Rightarrow> nat \<Rightarrow> nat \<Rightarrow> nat \<Rightarrow> 'a fs_scheme \<Rightarrow> (nat \<times> 'a fs_scheme) res" where
  "inode_write_loop 0 inode ubuf len offset s = Inl Hang"
| "inode_write_loop (Suc fuel) inode ubuf len offset s =
     (if len \<noteq> 0 then
        rbind (bmap inode (int (offset div BLOCK_SIZE)) True s) (\<lambda>(block, s).
        rbind (bread (mi_dev (inode_table s ! inode)) (ucast block) s) (\<lambda>(bf, s).
        let n = (if BLOCK_SIZE - offset mod BLOCK_SIZE < len then BLOCK_SIZE - offset mod BLOCK_SIZE else len) in
        rbind (buffer_lock bf s) (\<lambda>s.
        let s = mark bf (wmem (mem_copy (data bf s + offset mod BLOCK_SIZE) ubuf n) s) in
        rbind (buffer_unlock bf s) (\<lambda>s.
        rbind (brelse (Some bf) s) (\<lambda>s.
        inode_write_loop fuel inode (ubuf + n) (len - n) ((offset div BLOCK_SIZE + 1) * BLOCK_SIZE) s)))))
      else Inr (len, s))"

definition inode_write :: "nat \<Rightarrow> nat \<Rightarrow> u32 \<Rightarrow> int \<Rightarrow> 'a fs_scheme \<Rightarrow> (int \<times> 'a fs_scheme) res" where
  "inode_write inode ubuf len offset s =
     (let desc = mi_desc (inode_table s ! inode) in
     rbind (ensure (\<not> ISDIR (di_mode desc s)) Assert) (\<lambda>_.
     let s = (if len + word_of_int offset > di_size desc s then set_size desc (len + word_of_int offset) s else s) in
     rbind (ensure (len = 0 \<or> 0 \<le> offset) Fault) (\<lambda>_.
     rbind (inode_write_loop (Suc (unat len)) inode ubuf (unat len) (nat offset) s) (\<lambda>(n, s).
     Inr (int n, s)))))"

primrec inode_bfree :: "nat \<Rightarrow> int \<Rightarrow> nat \<Rightarrow> nat \<Rightarrow> 'a fs_scheme \<Rightarrow> 'a fs_scheme res" where
  "inode_bfree 0 dev arr index s = (if zget arr index s = 0 then Inr s else bfree dev (zget arr index s) s)"
| "inode_bfree (Suc level) dev arr index s =
     (if zget arr index s = 0 then Inr s
      else
        rbind (bread dev (ucast (zget arr index s)) s) (\<lambda>(b, s).
        rbind (for_each (\<lambda>i s. inode_bfree level dev (data b s) i s) [0..<ZONES_IDX_PER_BLOCK] s) (\<lambda>s.
        rbind (brelse (Some b) s) (\<lambda>s.
        bfree dev (zget arr index s) s))))"

definition inode_truncate :: "nat \<Rightarrow> 'a fs_scheme \<Rightarrow> 'a fs_scheme res" where
  "inode_truncate inode s =
     (let n = inode_table s ! inode; desc = mi_desc n; zone = di_zone desc; dev = mi_dev n in
      if \<not> ISFILE (di_mode desc s) \<and> \<not> ISDIR (di_mode desc s) then Inr s
      else
        rbind (for_each (\<lambda>i s. rbind (inode_bfree 0 dev zone i s) (\<lambda>s. Inr (zset zone i 0 s))) [0..<7] s) (\<lambda>s.
        rbind (inode_bfree 1 dev zone 7 s) (\<lambda>s.
        rbind (inode_bfree 2 dev zone 8 (zset zone 7 0 s)) (\<lambda>s.
        Inr (mark (mi_buf n) (set_size desc 0 (zset zone 8 0 s)))))))"

definition inode_init :: "'a fs_scheme \<Rightarrow> 'a fs_scheme" where
  "inode_init s = s\<lparr>inode_table := map (\<lambda>x. x\<lparr>mi_dev := EOF\<rparr>) (inode_table s)\<rparr>"

text \<open>\<^verbatim>\<open>minix_init\<close> reads the root inode of the first partition into the table.\<close>

definition minix_init :: "'a fs_scheme \<Rightarrow> 'a fs_scheme res" where
  "minix_init s =
     (let s = inode_init (super_init s) in
      case device_find DEV_DISK_PART 0 s of
        None \<Rightarrow> Inl Fault
      | Some d \<Rightarrow> rbind (iget (d_dev (devices s ! d)) 1 s) (\<lambda>(_, s). Inr s))"

end
