(* ===== verification/Minix_Names.thy ===== *)
theory Minix_Names
  imports Minix_Fs Path_Name
begin

text \<open>
  Directories and files: the rest of \<^verbatim>\<open>namei.c\<close> and \<^verbatim>\<open>file.c\<close>. The part of the task control
  block they use is in the state. Path names are byte strings as in \<^verbatim>\<open>Path_Name\<close>; user
  buffers are addresses. The blocks \<^verbatim>\<open>malloc\<close> returns for open files are the entries of
  \<open>files\<close> themselves.
\<close>

section \<open>State\<close>

record file_t =
  f_inode :: nat
  f_offset :: int
  f_flags :: u32
  f_mode :: u16

record fs_task = fs +
  i_root :: "nat option"
  i_pwd :: "nat option"
  pwd :: "u8 list"
  files :: "file_t option list"
  t_umask :: u16
  t_uid :: u32
  t_gid :: u32

definition TASK_FILE_NR :: nat where "TASK_FILE_NR = 32"
definition O_WRONLY :: u32 where "O_WRONLY = 1"
definition O_RDONLY :: u32 where "O_RDONLY = 0"
definition O_ACCMODE :: u32 where "O_ACCMODE = 3"
definition O_CREAT :: u32 where "O_CREAT = 0x40"
definition O_TRUNC :: u32 where "O_TRUNC = 0x200"
definition O_APPEND :: u32 where "O_APPEND = 0x400"

datatype whence_t = SEEK_SET | SEEK_CUR | SEEK_END

definition mi :: "nat \<Rightarrow> 'a fs_scheme \<Rightarrow> m_inode" where
  "mi i s = inode_table s ! i"

definition mdesc :: "nat \<Rightarrow> 'a fs_scheme \<Rightarrow> nat" where
  "mdesc i s = mi_desc (mi i s)"

section \<open>Directory entries\<close>

text \<open>
  An entry is the inode number and 14 bytes of name, which need not be terminated:
  \<^verbatim>\<open>_match\<close> reads as far as the name it compares with.
\<close>

definition entry_name :: "nat \<Rightarrow> nat \<Rightarrow> 'a dsys_scheme \<Rightarrow> u8 list" where
  "entry_name a n s = map (mem s) [a + 2..<a + 2 + n]"

text \<open>
  The loop of \<^verbatim>\<open>find_entry\<close>: the buffer of the present zone and its block number are kept from
  round to round. Entry \<open>i\<close> is looked for at \<open>dentry + i\<close> in the present buffer.
\<close>

fun find_entry_loop ::
    "nat \<Rightarrow> u8 list \<Rightarrow> nat list \<Rightarrow> nat option \<Rightarrow> u16 \<Rightarrow> nat \<Rightarrow> 'a fs_scheme \<Rightarrow>
     ((nat \<times> nat) option \<times> 'a fs_scheme) res" where
  "find_entry_loop dir name [] buf block zone_idx s = Inr (None, s)"
| "find_entry_loop dir name (i # is) buf block zone_idx s =
     rbind (if i \<ge> (zone_idx + 1) * DIR_ENTRY_PER_BLOCK then
              rbind (ensure (zone_idx + 1 < 7) Assert) (\<lambda>_.
              rbind (ensure (buf \<noteq> None) Assert) (\<lambda>_.
              rbind (brelse buf s) (\<lambda>s. Inr (None, 0, zone_idx + 1, s))))
            else Inr (buf, block, zone_idx, s)) (\<lambda>(buf, block, zone_idx, s).
     rbind (if block = 0 then bmap dir (int (i div DIR_ENTRY_PER_BLOCK)) False s else Inr (block, s)) (\<lambda>(block, s).
     rbind (ensure (block \<noteq> 0) Assert) (\<lambda>_.
     rbind (case buf of Some b \<Rightarrow> Inr (b, s) | None \<Rightarrow> bread (mi_dev (mi dir s)) (ucast block) s) (\<lambda>(b, s).
     let e = data b s + 16 * i in
     if rd16 (mem s) e = 0 then find_entry_loop dir name is (Some b) block zone_idx s
     else
       rbind (match_name name (entry_name e (length name) s)) (\<lambda>eq.
       if eq then Inr (Some (b, e), s) else find_entry_loop dir name is (Some b) block zone_idx s)))))"

text \<open>The result is the buffer and the address of the entry in it.\<close>

definition find_entry :: "nat \<Rightarrow> u8 list option \<Rightarrow> 'a fs_scheme \<Rightarrow> ((nat \<times> nat) option \<times> 'a fs_scheme) res" where
  "find_entry dir name s =
     rbind (ensure (ISDIR (di_mode (mdesc dir s) s)) Assert) (\<lambda>_.
     case name of None \<Rightarrow> Inr (None, s)
     | Some nm \<Rightarrow> find_entry_loop dir nm [0..<unat (di_size (mdesc dir s) s) div 16] None 0 0 s)"

text \<open>
  The loop of \<^verbatim>\<open>add_entry\<close>, which releases its buffer in every round and counts entries by
  \<^verbatim>\<open>ZONES_IDX_PER_BLOCK\<close>. The results are the buffer, the entry if a free one was found, and
  the value of \<open>i\<close> at the end.
\<close>

fun add_entry_loop ::
    "nat \<Rightarrow> nat \<Rightarrow> nat list \<Rightarrow> nat option \<Rightarrow> u16 \<Rightarrow> nat \<Rightarrow> 'a fs_scheme \<Rightarrow>
     (nat option \<times> nat option \<times> nat \<times> 'a fs_scheme) res" where
  "add_entry_loop dir cnt [] bf block zone_idx s = Inr (bf, None, cnt + 1, s)"
| "add_entry_loop dir cnt (i # is) bf block zone_idx s =
     rbind (brelse bf s) (\<lambda>s.
     rbind (if zone_idx \<le> i div ZONES_IDX_PER_BLOCK then
              rbind (bmap dir (int (i div ZONES_IDX_PER_BLOCK)) (i = cnt) s) (\<lambda>(block, s).
              rbind (bread (mi_dev (mi dir s)) (ucast block) s) (\<lambda>(b, s). Inr (Some b, block, zone_idx + 1, s)))
            else Inr (bf, block, zone_idx, s)) (\<lambda>(bf, block, zone_idx, s).
     rbind (ensure (block \<noteq> 0) Assert) (\<lambda>_.
     rbind (deref bf) (\<lambda>b.
     if rd16 (mem s) (data b s + 16 * (i mod ZONES_IDX_PER_BLOCK)) = 0 then Inr (Some b, Some (data b s + 16 * i), i, s)
     else add_entry_loop dir cnt is (Some b) block zone_idx s))))"

definition put_name :: "nat \<Rightarrow> u8 list \<Rightarrow> 'a dsys_scheme \<Rightarrow> 'a dsys_scheme" where
  "put_name a nm = wmem (\<lambda>m x. if a \<le> x \<and> x < a + length nm then nm ! (x - a) else m x)"

definition add_entry :: "nat \<Rightarrow> u8 list \<Rightarrow> 'a fs_scheme \<Rightarrow> (nat \<times> nat option \<times> 'a fs_scheme) res" where
  "add_entry dir name s =
     rbind (ensure (ISDIR (di_mode (mdesc dir s) s)) Assert) (\<lambda>_.
     rbind (vaild_file_name name) (\<lambda>ok.
     rbind (ensure ok Assert) (\<lambda>_.
     rbind (find_entry dir (Some name) s) (\<lambda>(r, s).
     case r of Some (b, e) \<Rightarrow> Inr (b, Some e, s)
     | None \<Rightarrow>
         let cnt = unat (di_size (mdesc dir s) s) div 16 in
         rbind (add_entry_loop dir cnt [0..<cnt + 1] None 0 0 s) (\<lambda>(bf, e, i, s).
         rbind (deref bf) (\<lambda>b.
         let a = data b s + 16 * (i mod ZONES_IDX_PER_BLOCK) + 2 in
         rbind (strncpy (map (mem s) [a..<a + NAME_LEN]) name (word_of_nat NAME_LEN)) (\<lambda>nm.
         let s = mark b (put_name a nm s);
             s = mark (mi_buf (mi dir s)) (set_size (mdesc dir s) (word_of_nat ((i + 1) * 16)) s) in
         Inr (b, e, s)))))))) "

section \<open>Path names\<close>

function namei_loop :: "bool \<Rightarrow> nat \<Rightarrow> u8 list \<Rightarrow> 'a fs_scheme \<Rightarrow> (nat option \<times> 'a fs_scheme) res" where
  "namei_loop dorc node [] s = Inl Fault"
| "namei_loop dorc node (c # path) s =
     (if c = 0 then Inr (Some node, s)
      else
        rbind (ensure (ISDIR (di_mode (mdesc node s) s)) Assert) (\<lambda>_.
        rbind (find_entry node (Some (c # path)) s) (\<lambda>(r, s).
        case next_name (c # path) of Inl stop \<Rightarrow> Inl stop
        | Inr None \<Rightarrow> Inl Fault
        | Inr (Some ptr) \<Rightarrow>
            if (ptr = [] \<or> hd ptr = 0) \<and> \<not> dorc then (if ptr = [] then Inl Fault else Inr (Some node, s))
            else case r of
              None \<Rightarrow> rbind (iput (Some node) s) (\<lambda>s. Inr (None, s))
            | Some (b, e) \<Rightarrow>
                let dev = mi_dev (mi node s) in
                rbind (iput (Some node) s) (\<lambda>s.
                rbind (iget dev (uint (rd16 (mem s) e)) s) (\<lambda>(node, s).
                rbind (brelse (Some b) s) (\<lambda>s.
                namei_loop dorc node ptr s))))))"
  by pat_completeness auto

termination namei_loop
  by (relation "measure (\<lambda>(_, _, p, _). length p)") (auto simp del: next_name.simps dest: next_name_length)

text \<open>\<^verbatim>\<open>_namei\<close>: from the root for a leading separator, otherwise from the working directory.\<close>

definition namei_from :: "u8 list \<Rightarrow> bool \<Rightarrow> 'a fs_task_scheme \<Rightarrow> (nat option \<times> 'a fs_task_scheme) res" where
  "namei_from path dorc s =
     (case path of [] \<Rightarrow> Inl Fault
      | c # rest \<Rightarrow>
          if c = 0 then Inr (None, s)
          else
            rbind (deref (if IS_SEPARATOR c then i_root s else i_pwd s)) (\<lambda>node.
            let s = upd_inode node (\<lambda>x. x\<lparr>mi_count := mi_count x + 1\<rparr>) s in
            namei_loop dorc node (if IS_SEPARATOR c then rest else path) s))"

definition namei :: "u8 list \<Rightarrow> 'a fs_task_scheme \<Rightarrow> (nat option \<times> 'a fs_task_scheme) res" where
  "namei path s = namei_from path True s"

section \<open>Directories\<close>

definition wr_entry :: "nat \<Rightarrow> u16 \<Rightarrow> 'a dsys_scheme \<Rightarrow> 'a dsys_scheme" where
  "wr_entry e nr = wmem (wr16 e nr)"

definition sys_mkdir :: "u8 list \<Rightarrow> u16 \<Rightarrow> 'a fs_task_scheme \<Rightarrow> (int \<times> 'a fs_task_scheme) res" where
  "sys_mkdir pathname mode s =
     rbind (filename pathname) (\<lambda>childname.
     rbind (namei_from pathname False s) (\<lambda>(d, s).
     case d of None \<Rightarrow> Inl Panic
     | Some dir \<Rightarrow>
       rbind (ensure (ISDIR (di_mode (mdesc dir s) s)) Assert) (\<lambda>_.
       rbind (find_entry dir childname s) (\<lambda>(r, s).
       if r \<noteq> None then Inl Panic
       else
         case childname of None \<Rightarrow> Inl Fault
         | Some nm \<Rightarrow>
           rbind (add_entry dir nm s) (\<lambda>(bf, res, s).
           rbind (ialloc (mi_dev (mi dir s)) s) (\<lambda>(nr, s).
           rbind (deref res) (\<lambda>e.
           let s = mark bf (wr_entry e (word_of_int nr) s) in
           rbind (iget (mi_dev (mi dir s)) (uint (rd16 (mem s) e)) s) (\<lambda>(child, s).
           let c = mdesc child s; dd = mdesc dir s;
               s = mark (mi_buf (mi child s)) s;
               s = set_uid c (ucast (t_uid s)) (set_gid c (ucast (t_gid s)) s);
               s = set_mode c ((mode AND 0x1FF AND NOT (t_umask s)) OR IFDIR) s;
               s = set_nlinks c 2 (set_size c 32 s);
               s = set_nlinks dd (di_nlinks dd s + 1) (mark (mi_buf (mi dir s)) s) in
           rbind (brelse (Some bf) s) (\<lambda>s.
           rbind (bmap child 0 True s) (\<lambda>(blk, s).
           rbind (bread (mi_dev (mi child s)) (ucast blk) s) (\<lambda>(b, s).
           let e = data b s;
               s = wr_entry e (word_of_int (mi_nr (mi child s))) (put_name (e + 2) [0x2e, 0] (mark b s));
               s = wr_entry (e + 16) (word_of_int (mi_nr (mi dir s))) (put_name (e + 18) [0x2e, 0x2e, 0] s) in
           rbind (iput (Some dir) s) (\<lambda>s.
           rbind (iput (Some child) s) (\<lambda>s.
           rbind (sync_dev (mi_dev (mi dir s)) s) (\<lambda>s.
           rbind (brelse (Some b) s) (\<lambda>s.
           Inr (0, s))))))))))))))))"

fun dir_is_empty_loop ::
    "nat \<Rightarrow> nat list \<Rightarrow> nat \<Rightarrow> nat option \<Rightarrow> nat \<Rightarrow> 'a fs_scheme \<Rightarrow> (nat \<times> nat option \<times> 'a fs_scheme) res" where
  "dir_is_empty_loop dir [] zone_cnt bf count s = Inr (count, bf, s)"
| "dir_is_empty_loop dir (i # is) zone_cnt bf count s =
     rbind (if i \<ge> zone_cnt * DIR_ENTRY_PER_BLOCK then
              rbind (bmap dir (int zone_cnt) False s) (\<lambda>(block, s).
              rbind (brelse bf s) (\<lambda>s.
              rbind (bread (mi_dev (mi dir s)) (ucast block) s) (\<lambda>(b, s). Inr (zone_cnt + 1, b, s))))
            else rbind (deref bf) (\<lambda>b. Inr (zone_cnt, b, s))) (\<lambda>(zone_cnt, b, s).
     if rd16 (mem s) (data b s + 16 * (i mod DIR_ENTRY_PER_BLOCK)) \<noteq> 0 then
       dir_is_empty_loop dir is zone_cnt (Some b) (count + 1) s
     else if i = 0 \<or> i = 1 then Inl Panic
     else dir_is_empty_loop dir is zone_cnt (Some b) count s)"

definition dir_is_empty :: "nat \<Rightarrow> 'a fs_scheme \<Rightarrow> (bool \<times> 'a fs_scheme) res" where
  "dir_is_empty dir s =
     (let d = mdesc dir s; entries = unat (di_size d s) div 16 in
     rbind (ensure (ISDIR (di_mode d s)) Assert) (\<lambda>_.
     rbind (ensure (\<not> (entries < 2 \<or> zget (di_zone d) 0 s = 0)) Panic) (\<lambda>_.
     rbind (dir_is_empty_loop dir [0..<entries] 0 None 0 s) (\<lambda>(count, bf, s).
     rbind (ensure (bf \<noteq> None) Assert) (\<lambda>_.
     rbind (brelse bf s) (\<lambda>s. Inr (count = 2, s)))))))"

text \<open>\<^verbatim>\<open>if (p) iput(p)\<close>.\<close>

definition iput_opt :: "nat option \<Rightarrow> 'a fs_scheme \<Rightarrow> 'a fs_scheme res" where
  "iput_opt p s = (case p of None \<Rightarrow> Inr s | Some _ \<Rightarrow> iput p s)"

definition rmdir_rollback ::
    "int \<Rightarrow> nat option \<Rightarrow> nat option \<Rightarrow> nat option \<Rightarrow> 'a fs_scheme \<Rightarrow> (int \<times> 'a fs_scheme) res" where
  "rmdir_rollback status dir node bf s =
     rbind (iput_opt dir s) (\<lambda>s. rbind (iput_opt node s) (\<lambda>s. rbind (brelse bf s) (\<lambda>s. Inr (status, s))))"

definition sys_rmdir :: "u8 list \<Rightarrow> 'a fs_task_scheme \<Rightarrow> (int \<times> 'a fs_task_scheme) res" where
  "sys_rmdir pathname s =
     rbind (filename pathname) (\<lambda>childname.
     rbind (namei_from pathname False s) (\<lambda>(d, s).
     if childname \<noteq> None then rmdir_rollback EOF d None None s
     else case d of None \<Rightarrow> rmdir_rollback EOF d None None s
     | Some dir \<Rightarrow>
       rbind (find_entry dir childname s) (\<lambda>(r, s).
       case r of None \<Rightarrow> Inr (EOF, s)
       | Some (bf, e) \<Rightarrow>
         rbind (iget (mi_dev (mi dir s)) (uint (rd16 (mem s) e)) s) (\<lambda>(node, s).
         let nd = mdesc node s; dd = mdesc dir s in
         if \<not> ISDIR (di_mode nd s) then Inr (EOF, s)
         else if di_mode dd s AND ISVTX \<noteq> 0 \<and> t_uid s \<noteq> ucast (di_uid nd s) then Inr (EOF, s)
         else if mi_dev (mi dir s) \<noteq> mi_dev (mi node s) \<or> mi_count (mi node s) > 1 then Inr (EOF, s)
         else
           rbind (dir_is_empty node s) (\<lambda>(empty, s).
           if \<not> empty then Inr (EOF, s)
           else
             rbind (ensure (di_nlinks nd s = 2) Assert) (\<lambda>_.
             rbind (inode_truncate node s) (\<lambda>s.
             rbind (ifree (mi_dev (mi node s)) (mi_nr (mi node s)) s) (\<lambda>s.
             let s = upd_inode node (\<lambda>x. x\<lparr>mi_nr := 0\<rparr>) (mark (mi_buf (mi node s)) (set_nlinks nd 0 s));
                 s = mark (mi_buf (mi dir s)) (set_nlinks dd (di_nlinks dd s - 1) s) in
             rbind (ensure (di_nlinks dd s \<ge> 2) Assert) (\<lambda>_.
             rmdir_rollback 0 (Some dir) (Some node) (Some bf) (mark bf (wr_entry e 0 s)))))))))))"

section \<open>Links\<close>

text \<open>The common end: \<^verbatim>\<open>iput\<close> of a null pointer is not guarded.\<close>

definition link_rollback ::
    "int \<Rightarrow> nat option \<Rightarrow> nat option \<Rightarrow> nat option \<Rightarrow> 'a fs_scheme \<Rightarrow> (int \<times> 'a fs_scheme) res" where
  "link_rollback ret buf inode dir s =
     rbind (brelse buf s) (\<lambda>s. rbind (iput inode s) (\<lambda>s. rbind (iput dir s) (\<lambda>s. Inr (ret, s))))"

definition sys_link :: "u8 list \<Rightarrow> u8 list \<Rightarrow> 'a fs_task_scheme \<Rightarrow> (int \<times> 'a fs_task_scheme) res" where
  "sys_link oldname newname s =
     rbind (namei oldname s) (\<lambda>(i, s).
     case i of None \<Rightarrow> link_rollback EOF None None None s
     | Some inode \<Rightarrow>
       if ISDIR (di_mode (mdesc inode s) s) then link_rollback EOF None (Some inode) None s
       else
         rbind (filename newname) (\<lambda>fname.
         rbind (namei_from newname False s) (\<lambda>(d, s).
         case d of None \<Rightarrow> link_rollback EOF None (Some inode) None s
         | Some dir \<Rightarrow>
           case fname of None \<Rightarrow> link_rollback EOF None (Some inode) (Some dir) s
           | Some nm \<Rightarrow>
             if mi_dev (mi dir s) \<noteq> mi_dev (mi inode s) then link_rollback EOF None (Some inode) (Some dir) s
             else
               rbind (find_entry dir fname s) (\<lambda>(r, s).
               case r of Some (b, _) \<Rightarrow> link_rollback EOF (Some b) (Some inode) (Some dir) s
               | None \<Rightarrow>
                 rbind (add_entry dir nm s) (\<lambda>(b, res, s).
                 rbind (deref res) (\<lambda>e.
                 let s = mark b (wr_entry e (word_of_int (mi_nr (mi inode s))) s);
                     nd = mdesc inode s;
                     s = mark (mi_buf (mi inode s)) (set_nlinks nd (di_nlinks nd s + 1) s) in
                 link_rollback 0 (Some b) (Some inode) (Some dir) s))))))"

definition sys_unlink :: "u8 list \<Rightarrow> 'a fs_task_scheme \<Rightarrow> (int \<times> 'a fs_task_scheme) res" where
  "sys_unlink pathname s =
     rbind (namei_from pathname False s) (\<lambda>(d, s).
     case d of None \<Rightarrow> link_rollback EOF None None None s
     | Some dir \<Rightarrow>
       rbind (filename pathname) (\<lambda>fname.
       rbind (find_entry dir fname s) (\<lambda>(r, s).
       case r of None \<Rightarrow> link_rollback EOF None None (Some dir) s
       | Some (b, e) \<Rightarrow>
         rbind (iget (mi_dev (mi dir s)) (uint (rd16 (mem s) e)) s) (\<lambda>(inode, s).
         let nd = mdesc inode s in
         if ISDIR (di_mode nd s) then link_rollback EOF (Some b) (Some inode) (Some dir) s
         else if di_mode nd s AND ISVTX \<noteq> 0 \<and> t_uid s \<noteq> ucast (di_uid nd s) then
           link_rollback EOF (Some b) (Some inode) (Some dir) s
         else
           rbind (ensure (di_nlinks nd s \<noteq> 0) Panic) (\<lambda>_.
           let s = mark b (wr_entry e 0 s);
               s = mark (mi_buf (mi inode s)) (set_nlinks nd (di_nlinks nd s - 1) s) in
           rbind (if di_nlinks nd s = 0 then
                    rbind (inode_truncate inode s) (\<lambda>s. ifree (mi_dev (mi inode s)) (mi_nr (mi inode s)) s)
                  else Inr s) (\<lambda>s.
           link_rollback 0 (Some b) (Some inode) (Some dir) s))))))"

section \<open>Opening files\<close>

definition open_rollback :: "nat option \<Rightarrow> nat option \<Rightarrow> nat option \<Rightarrow> 'a fs_scheme \<Rightarrow> (nat option \<times> 'a fs_scheme) res" where
  "open_rollback buf dir inode s =
     rbind (brelse buf s) (\<lambda>s. rbind (iput dir s) (\<lambda>s. rbind (iput_opt inode s) (\<lambda>s. Inr (None, s))))"

text \<open>The part from the label \<^verbatim>\<open>makeup\<close>.\<close>

definition open_makeup :: "nat \<Rightarrow> nat \<Rightarrow> nat \<Rightarrow> u32 \<Rightarrow> 'a fs_scheme \<Rightarrow> (nat option \<times> 'a fs_scheme) res" where
  "open_makeup b dir inode flag s =
     (if ISDIR (di_mode (mdesc inode s) s) \<and> flag AND O_ACCMODE \<noteq> O_RDONLY then open_rollback (Some b) (Some dir) (Some inode) s
      else
        rbind (if flag AND O_TRUNC \<noteq> 0 then inode_truncate inode s else Inr s) (\<lambda>s.
        rbind (brelse (Some b) s) (\<lambda>s. rbind (iput (Some dir) s) (\<lambda>s. Inr (Some inode, s)))))"

definition inode_open :: "u8 list \<Rightarrow> u32 \<Rightarrow> u16 \<Rightarrow> 'a fs_task_scheme \<Rightarrow> (nat option \<times> 'a fs_task_scheme) res" where
  "inode_open pathname flag mode s =
     rbind (filename pathname) (\<lambda>fname.
     rbind (namei_from pathname False s) (\<lambda>(d, s).
     case d of None \<Rightarrow> open_rollback None None None s
     | Some dir \<Rightarrow>
       case fname of None \<Rightarrow> Inr (Some dir, s)
       | Some nm \<Rightarrow>
         rbind (find_entry dir fname s) (\<lambda>(r, s).
         case r of Some (b, e) \<Rightarrow>
           rbind (iget (mi_dev (mi dir s)) (uint (rd16 (mem s) e)) s) (\<lambda>(inode, s). open_makeup b dir inode flag s)
         | None \<Rightarrow>
           if flag AND O_CREAT = 0 then open_rollback None (Some dir) None s
           else
             rbind (add_entry dir nm s) (\<lambda>(b, res, s).
             rbind (ialloc (mi_dev (mi dir s)) s) (\<lambda>(nr, s).
             rbind (deref res) (\<lambda>e.
             let s = wr_entry e (word_of_int nr) s in
             rbind (iget (mi_dev (mi dir s)) (uint (rd16 (mem s) e)) s) (\<lambda>(inode, s).
             let nd = mdesc inode s;
                 s = mark b s;
                 s = set_uid nd (ucast (t_uid s)) (set_gid nd (ucast (t_gid s)) s);
                 s = set_mode nd ((mode AND (0x1FF AND NOT (t_umask s))) OR IFREG) s;
                 s = mark (mi_buf (mi inode s)) (set_nlinks nd 1 (set_size nd 0 s)) in
             open_makeup b dir inode flag s)))))))"

definition sys_chdir :: "u8 list \<Rightarrow> 'a fs_task_scheme \<Rightarrow> (int \<times> 'a fs_task_scheme) res" where
  "sys_chdir pathname s =
     rbind (namei pathname s) (\<lambda>(i, s).
     case i of None \<Rightarrow> Inr (EOF, s)
     | Some inode \<Rightarrow>
       if \<not> ISDIR (di_mode (mdesc inode s) s) \<or> i_pwd s = Some inode then
         rbind (iput (Some inode) s) (\<lambda>s. Inr (EOF, s))
       else
         rbind (abspath (pwd s) pathname) (\<lambda>(p, _).
         rbind (iput (i_pwd s) (s\<lparr>pwd := p\<rparr>)) (\<lambda>s.
         Inr (0, s\<lparr>i_pwd := Some inode\<rparr>))))"

definition sys_getpwd :: "u8 list \<Rightarrow> u32 \<Rightarrow> 'a fs_task_scheme \<Rightarrow> u8 list res" where
  "sys_getpwd buf len s = strncpy buf (pwd s) len"

section \<open>Files\<close>

text \<open>The first free descriptor from 3 on.\<close>

definition free_fd :: "file_t option list \<Rightarrow> nat" where
  "free_fd fs = (case List.find (\<lambda>fd. fs ! fd = None) [3..<TASK_FILE_NR] of None \<Rightarrow> TASK_FILE_NR | Some fd \<Rightarrow> fd)"

definition sys_open :: "u8 list \<Rightarrow> u32 \<Rightarrow> u16 \<Rightarrow> 'a fs_task_scheme \<Rightarrow> (int \<times> 'a fs_task_scheme) res" where
  "sys_open path flags mode s =
     rbind (inode_open path flags mode s) (\<lambda>(i, s).
     case i of None \<Rightarrow> Inr (EOF, s)
     | Some inode \<Rightarrow>
       let fd = free_fd (files s) in
       if fd = TASK_FILE_NR then rbind (iput (Some inode) s) (\<lambda>s. Inr (EOF, s))
       else
         let d = mdesc inode s;
             file = \<lparr>f_inode = inode, f_offset = (if flags AND O_APPEND \<noteq> 0 then sint (di_size d s) else 0),
               f_flags = flags, f_mode = di_mode d s\<rparr> in
         Inr (int fd, s\<lparr>files := (files s)[fd := Some file]\<rparr>))"

definition sys_create :: "u8 list \<Rightarrow> u16 \<Rightarrow> 'a fs_task_scheme \<Rightarrow> (int \<times> 'a fs_task_scheme) res" where
  "sys_create path mode s = sys_open path (O_CREAT OR O_TRUNC) mode s"

definition sys_close :: "int \<Rightarrow> 'a fs_task_scheme \<Rightarrow> 'a fs_task_scheme res" where
  "sys_close fd s =
     rbind (ensure (fd < int TASK_FILE_NR \<and> fd > 2) Assert) (\<lambda>_.
     rbind (arr_get (files s) (nat fd)) (\<lambda>file.
     case file of None \<Rightarrow> Inr s
     | Some f \<Rightarrow> rbind (iput (Some (f_inode f)) s) (\<lambda>s. Inr (s\<lparr>files := (files s)[nat fd := None]\<rparr>))))"

text \<open>
  Reading and writing check no bound of the descriptor: outside the array the access
  faults. \<^verbatim>\<open>stdin\<close> is 0, \<^verbatim>\<open>stdout\<close> 1, \<^verbatim>\<open>stderr\<close> 2; \<^verbatim>\<open>dev_sub\<close> is the console or the keyboard.
\<close>

definition std_device :: "dev_subtype \<Rightarrow> bool \<Rightarrow> nat \<Rightarrow> int \<Rightarrow> 'a fs_task_scheme \<Rightarrow> (int \<times> 'a fs_task_scheme) res" where
  "std_device sub rd buf count s =
     (case device_find sub 0 s of None \<Rightarrow> Inl Fault
      | Some d \<Rightarrow> if rd then device_read (d_dev (devices s ! d)) buf (nat count) 0 s
                  else device_write (d_dev (devices s ! d)) buf (nat count) 0 s)"

definition open_file :: "int \<Rightarrow> 'a fs_task_scheme \<Rightarrow> file_t res" where
  "open_file fd s =
     rbind (ensure (0 \<le> fd) Fault) (\<lambda>_.
     rbind (arr_get (files s) (nat fd)) (\<lambda>file.
     case file of None \<Rightarrow> Inl Assert | Some f \<Rightarrow> Inr f))"

definition set_offset :: "int \<Rightarrow> int \<Rightarrow> 'a fs_task_scheme \<Rightarrow> 'a fs_task_scheme" where
  "set_offset fd o' s = s\<lparr>files := (files s)[nat fd := map_option (\<lambda>f. f\<lparr>f_offset := o'\<rparr>) (files s ! nat fd)]\<rparr>"

definition sys_read :: "int \<Rightarrow> nat \<Rightarrow> int \<Rightarrow> 'a fs_task_scheme \<Rightarrow> (int \<times> 'a fs_task_scheme) res" where
  "sys_read fd buf count s =
     (if fd = 0 then std_device DEV_KEYBOARD True buf count s
      else
        rbind (open_file fd s) (\<lambda>f.
        if f_flags f AND O_ACCMODE = O_WRONLY then Inr (EOF, s)
        else
          rbind (inode_read (f_inode f) buf (word_of_int count) (f_offset f) s) (\<lambda>(len, s).
          Inr (len, if len \<noteq> EOF then set_offset fd (f_offset f + len) s else s))))"

definition sys_write :: "int \<Rightarrow> nat \<Rightarrow> int \<Rightarrow> 'a fs_task_scheme \<Rightarrow> (int \<times> 'a fs_task_scheme) res" where
  "sys_write fd buf count s =
     (if fd = 1 \<or> fd = 2 then std_device DEV_CONSOLE False buf count s
      else
        rbind (open_file fd s) (\<lambda>f.
        if f_flags f AND O_ACCMODE = O_RDONLY then Inr (EOF, s)
        else
          rbind (inode_write (f_inode f) buf (word_of_int count) (f_offset f) s) (\<lambda>(len, s).
          Inr (len, if len \<noteq> EOF then set_offset fd (f_offset f + len) s else s))))"

text \<open>The sum with the size is unsigned, so that the assertion for \<^verbatim>\<open>SEEK_END\<close> always holds.\<close>

definition sys_lseek :: "int \<Rightarrow> int \<Rightarrow> whence_t option \<Rightarrow> 'a fs_task_scheme \<Rightarrow> (int \<times> 'a fs_task_scheme) res" where
  "sys_lseek fd offset whence s =
     rbind (ensure (fd < int TASK_FILE_NR) Assert) (\<lambda>_.
     rbind (open_file fd s) (\<lambda>f.
     rbind (case whence of
         None \<Rightarrow> Inl Panic
       | Some SEEK_SET \<Rightarrow> rbind (ensure (offset \<ge> 0) Assert) (\<lambda>_. Inr offset)
       | Some SEEK_CUR \<Rightarrow> rbind (ensure (f_offset f + offset \<ge> 0) Assert) (\<lambda>_. Inr (f_offset f + offset))
       | Some SEEK_END \<Rightarrow> Inr (sint (di_size (mdesc (f_inode f) s) s + word_of_int offset))) (\<lambda>o'.
     Inr (o', set_offset fd o' s))))"

definition sys_readdir :: "int \<Rightarrow> nat \<Rightarrow> 'a fs_task_scheme \<Rightarrow> (int \<times> 'a fs_task_scheme) res" where
  "sys_readdir fd dir s = sys_read fd dir 16 s"

end
