(* ===== verification/Buffer_Base.thy ===== *)
theory Buffer_Base
  imports Buffer_Cache
begin

text \<open>
  The lists of the buffer cache. \<open>linked R n K h\<close> says which of the first \<open>n\<close> buffers are on
  \<^verbatim>\<open>free_list\<close> and on a hash list, and under which key; \<open>R\<close> are the request lists of the
  disks, which are empty between requests. The lemmas give the effect of the list
  operations on it and what the two searches find.
\<close>

section \<open>Several lists on one heap\<close>

definition lists_ok :: "nat set \<Rightarrow> list_heap \<Rightarrow> (nat \<Rightarrow> nat list) \<Rightarrow> bool" where
  "lists_ok D h L \<longleftrightarrow> (\<forall>l \<in> D. lrepr h l (L l))"

lemma lists_ok_D: "lists_ok D h L \<Longrightarrow> l \<in> D \<Longrightarrow> lrepr h l (L l)"
  by (simp add: lists_ok_def)

lemma lists_after:
  assumes "lists_ok D h L" "\<exists>h'. r = Inr h' \<and> lrepr h' l xs \<and> lstep h h' l n c"
  shows "\<exists>h'. r = Inr h' \<and> lists_ok D h' (L(l := xs)) \<and> ow h' = ow h \<and>
    alive h' = alive h \<and> ct h' = (ct h)(Nd n := c)"
proof -
  from assms(2) obtain h' where h: "r = Inr h'" "lrepr h' l xs" "lstep h h' l n c" by blast
  moreover from h assms(1) have "lists_ok D h' (L(l := xs))"
    by (simp add: lists_ok_def lstep_def)
  ultimately show ?thesis by (intro exI [of _ h']) (simp add: lstep_def)
qed

lemma lists_remove:
  assumes "lists_ok D h L" "l \<in> D" "L l = xs @ n # ys"
  shows "\<exists>h'. remove_node h (Nd n) = Inr h' \<and> lists_ok D h' (L(l := xs @ ys)) \<and> ow h' = ow h \<and>
    alive h' = alive h \<and> ct h' = (ct h)(Nd n := None)"
proof (rule lists_after [OF assms(1)])
  from lists_ok_D [OF assms(1,2)] assms(3) have "lrepr h l (xs @ n # ys)" by simp
  then obtain h' where "remove_node h (Nd n) = Inr h'" "lrepr h' l (xs @ ys)" "lstep h h' l n None"
    by (rule remove_node_spec)
  then show "\<exists>h'. remove_node h (Nd n) = Inr h' \<and> lrepr h' l (xs @ ys) \<and> lstep h h' l n None" by blast
qed

lemma lists_push:
  assumes "lists_ok D h L" "l \<in> D" "free_node h n" "Suc (length (L l)) < 2 ^ 32"
  shows "\<exists>h'. list_push h l (Nd n) = Inr h' \<and> lists_ok D h' (L(l := n # L l)) \<and> ow h' = ow h \<and>
    alive h' = alive h \<and> ct h' = (ct h)(Nd n := Some l)"
  by (rule lists_after [OF assms(1) list_push_spec [OF lists_ok_D [OF assms(1,2)] assms(3,4)]])

lemma lists_pushback:
  assumes "lists_ok D h L" "l \<in> D" "free_node h n" "Suc (length (L l)) < 2 ^ 32"
  shows "\<exists>h'. list_pushback h l (Nd n) = Inr h' \<and> lists_ok D h' (L(l := L l @ [n])) \<and> ow h' = ow h \<and>
    alive h' = alive h \<and> ct h' = (ct h)(Nd n := Some l)"
  by (rule lists_after [OF assms(1) list_pushback_spec [OF lists_ok_D [OF assms(1,2)] assms(3,4)]])

lemma lists_node_init: "lists_ok D h L \<Longrightarrow> \<forall>l \<in> D. n \<notin> set (L l) \<Longrightarrow> lists_ok D (node_init h n w v) L"
  by (simp add: lists_ok_def node_init_repr)

lemma get_node_fields: "alive h r \<Longrightarrow> \<exists>nd. get_node h r = Inr nd \<and> n_owner nd = ow h r \<and>
    n_container nd = ct h r \<and> n_next nd = nx h r \<and> n_previous nd = pv h r"
  by (auto simp: get_node_def fields)

section \<open>The lists of the cache\<close>

definition cdom :: "nat set \<Rightarrow> nat set" where
  "cdom R = {buf_wait_list, free_list} \<union> hash_list ` {..<HASH_CNT} \<union> R"

definition hash_key :: "int \<times> u32 \<Rightarrow> nat" where
  "hash_key k = hash (fst k) (snd k)"

lemma hash_less: "hash dev b < HASH_CNT"
proof -
  have "unat (w mod (31 :: u32)) < 31" for w :: u32
    using word_mod_less_divisor [of "31 :: u32" w] by (simp add: word_less_nat_alt)
  then show ?thesis unfolding hash_def HASH_CNT_def by simp
qed

definition other_lists :: "nat set \<Rightarrow> bool" where
  "other_lists R \<longleftrightarrow> buf_wait_list \<notin> R \<and> free_list \<notin> R \<and> (\<forall>i < HASH_CNT. hash_list i \<notin> R)"

definition on_list :: "(nat \<Rightarrow> (int \<times> u32) option) \<Rightarrow> nat \<Rightarrow> nat \<Rightarrow> nat set" where
  "on_list K n l = (if l = free_list then fnode ` {i. i < n \<and> K i \<noteq> None}
     else if \<exists>j < HASH_CNT. l = hash_list j then hnode ` {i. i < n \<and> map_option (hash_list \<circ> hash_key) (K i) = Some l}
     else {})"

definition linked :: "nat set \<Rightarrow> nat \<Rightarrow> (nat \<Rightarrow> (int \<times> u32) option) \<Rightarrow> list_heap \<Rightarrow> bool" where
  "linked R n K h \<longleftrightarrow> other_lists R \<and> n < 4096 \<and>
     (\<exists>L. lists_ok (cdom R) h L \<and> (\<forall>l \<in> cdom R. set (L l) = on_list K n l)) \<and>
     (\<forall>i < n. alive h (Nd (fnode i)) \<and> alive h (Nd (hnode i)) \<and>
        ow h (Nd (fnode i)) = i + 1 \<and> ow h (Nd (hnode i)) = i + 1 \<and>
        (K i = None \<longrightarrow> ct h (Nd (fnode i)) = None \<and> ct h (Nd (hnode i)) = None))"

lemma node_ids [simp]:
  "fnode i = fnode j \<longleftrightarrow> i = j" "hnode i = hnode j \<longleftrightarrow> i = j" "fnode i \<noteq> hnode j" "hnode i \<noteq> fnode j"
  by (auto simp: fnode_def hnode_def) presburger+

lemma list_ids [simp]:
  "hash_list i = hash_list j \<longleftrightarrow> i = j" "free_list \<noteq> hash_list i" "hash_list i \<noteq> free_list"
  "buf_wait_list \<noteq> free_list" "free_list \<noteq> buf_wait_list" "buf_wait_list \<noteq> hash_list i" "hash_list i \<noteq> buf_wait_list"
  by (auto simp: hash_list_def free_list_def buf_wait_list_def)

lemma in_cdom [simp]: "free_list \<in> cdom R" "buf_wait_list \<in> cdom R" "j < HASH_CNT \<Longrightarrow> hash_list j \<in> cdom R"
  "l \<in> R \<Longrightarrow> l \<in> cdom R"
  by (simp_all add: cdom_def)

lemma hash_key_less [simp]: "hash_key k < HASH_CNT"
  by (simp add: hash_key_def hash_less)

lemma on_list_simps [simp]:
  "on_list K n free_list = fnode ` {i. i < n \<and> K i \<noteq> None}"
  "j < HASH_CNT \<Longrightarrow> on_list K n (hash_list j) = hnode ` {i. i < n \<and> map_option hash_key (K i) = Some j}"
  "on_list K n buf_wait_list = {}"
  by (auto simp: on_list_def map_option_case split: option.splits)

lemma on_list_in [simp]:
  "fnode i \<in> fnode ` {i. P i} \<longleftrightarrow> P i" "hnode i \<in> hnode ` {i. P i} \<longleftrightarrow> P i"
  by auto

lemma on_list_request: "other_lists R \<Longrightarrow> l \<in> R \<Longrightarrow> on_list K n l = {}"
  by (auto simp: other_lists_def on_list_def)

lemma on_list_sub: "x \<in> on_list K n l \<Longrightarrow> \<exists>i < n. K i \<noteq> None \<and> (x = fnode i \<or> x = hnode i)"
  by (auto simp: on_list_def split: if_splits)

lemma on_list_length:
  assumes "lrepr h l xs" "set xs = on_list K n l"
  shows "length xs \<le> 2 * n"
proof -
  have "set xs \<subseteq> {..<2 * n}"
  proof
    fix x assume "x \<in> set xs"
    then obtain i where "i < n" "x = fnode i \<or> x = hnode i" using assms(2) on_list_sub [of x K n l] by auto
    then show "x \<in> {..<2 * n}" by (auto simp: fnode_def hnode_def)
  qed
  from card_mono [OF _ this] assms(1) show ?thesis by (simp add: lrepr_def distinct_card)
qed

lemma linked_D: "linked R n K h \<Longrightarrow> other_lists R" "linked R n K h \<Longrightarrow> n < 4096"
  "linked R n K h \<Longrightarrow> i < n \<Longrightarrow> alive h (Nd (fnode i)) \<and> alive h (Nd (hnode i)) \<and>
     ow h (Nd (fnode i)) = i + 1 \<and> ow h (Nd (hnode i)) = i + 1"
  by (simp_all add: linked_def)

lemma linked_lists:
  assumes "linked R n K h"
  obtains L where "lists_ok (cdom R) h L" "\<forall>l \<in> cdom R. set (L l) = on_list K n l"
    "\<forall>l \<in> cdom R. Suc (length (L l)) < 2 ^ 32"
proof -
  from assms obtain L where L: "lists_ok (cdom R) h L" "\<forall>l \<in> cdom R. set (L l) = on_list K n l"
    by (auto simp: linked_def)
  have "length (L l) \<le> 2 * n" if "l \<in> cdom R" for l
    using on_list_length [OF lists_ok_D [OF L(1) that]] L(2) that by blast
  with linked_D(2) [OF assms] have "\<forall>l \<in> cdom R. Suc (length (L l)) < 2 ^ 32" by force
  with L show ?thesis by (rule that)
qed

lemma linked_upd:
  assumes K: "linked R n K h" and L: "lists_ok (cdom R) h' L'"
    and set: "\<forall>l \<in> cdom R. set (L' l) = on_list K' n l"
    and h: "\<forall>x < 2 * n. ow h' (Nd x) = ow h (Nd x) \<and> alive h' (Nd x) = alive h (Nd x)"
    and ct: "\<forall>i < n. K' i = None \<longrightarrow> ct h' (Nd (fnode i)) = None \<and> ct h' (Nd (hnode i)) = None"
  shows "linked R n K' h'"
proof -
  have "fnode i < 2 * n" "hnode i < 2 * n" if "i < n" for i using that by (auto simp: fnode_def hnode_def)
  with assms show ?thesis unfolding linked_def by auto
qed

section \<open>Effects\<close>

text \<open>Removing a node that may or may not be on its list.\<close>

lemma lists_unlink:
  assumes L: "lists_ok D h L" "l \<in> D" and n: "alive h (Nd n)" "ct h (Nd n) = (if n \<in> set (L l) then Some l else None)"
  shows "\<exists>h' ys. unlink_node (Nd n) h = Inr h' \<and> lists_ok D h' (L(l := ys)) \<and> set ys = set (L l) - {n} \<and>
    ow h' = ow h \<and> alive h' = alive h \<and> ct h' = (ct h)(Nd n := None)"
proof -
  from get_node_fields [OF n(1)] obtain nd where nd: "get_node h (Nd n) = Inr nd" "n_container nd = ct h (Nd n)"
    by blast
  show ?thesis
  proof (cases "n \<in> set (L l)")
    case True
    then obtain xs ys where xs: "L l = xs @ n # ys" by (metis split_list)
    from lists_ok_D [OF L] have "distinct (L l)" by (simp add: lrepr_def)
    then have "set (xs @ ys) = set (L l) - {n}" using xs by auto
    moreover from lists_remove [OF L xs] obtain h' where h: "remove_node h (Nd n) = Inr h'"
      "lists_ok D h' (L(l := xs @ ys))" "ow h' = ow h" "alive h' = alive h" "ct h' = (ct h)(Nd n := None)" by blast
    moreover have "unlink_node (Nd n) h = Inr h'" using nd n(2) True h(1) by (simp add: unlink_node_def)
    ultimately show ?thesis by (intro exI [of _ h'] exI [of _ "xs @ ys"]) simp
  next
    case False
    with nd n(2) have "unlink_node (Nd n) h = Inr h" by (simp add: unlink_node_def)
    with False L n show ?thesis by (intro exI [of _ h] exI [of _ "L l"]) (simp add: fun_upd_idem)
  qed
qed

lemma linked_ct:
  assumes K: "linked R n K h" and i: "i < n"
  shows "ct h (Nd (fnode i)) = (if K i = None then None else Some free_list)"
    and "ct h (Nd (hnode i)) = (case K i of None \<Rightarrow> None | Some k \<Rightarrow> Some (hash_list (hash_key k)))"
proof -
  from linked_lists [OF K] obtain L where L: "lists_ok (cdom R) h L" "\<forall>l \<in> cdom R. set (L l) = on_list K n l" .
  have "K i = None \<longrightarrow> ct h (Nd (fnode i)) = None \<and> ct h (Nd (hnode i)) = None"
    using K i by (simp add: linked_def)
  moreover have "fnode i \<in> set (L free_list)" if "K i \<noteq> None" using L(2) i that by simp
  then have "K i \<noteq> None \<longrightarrow> ct h (Nd (fnode i)) = Some free_list"
    using lists_ok_D [OF L(1), of free_list] by (simp add: lrepr_ct)
  moreover have "hnode i \<in> set (L (hash_list (hash_key k)))" if "K i = Some k" for k
    using L(2) i that by (cases k) simp
  then have "K i = Some k \<longrightarrow> ct h (Nd (hnode i)) = Some (hash_list (hash_key k))" for k
    using lists_ok_D [OF L(1), of "hash_list (hash_key k)"] by (simp add: lrepr_ct)
  ultimately show "ct h (Nd (fnode i)) = (if K i = None then None else Some free_list)"
    and "ct h (Nd (hnode i)) = (case K i of None \<Rightarrow> None | Some k \<Rightarrow> Some (hash_list (hash_key k)))"
    by (auto split: option.splits)
qed

definition two_unlink :: "nat \<Rightarrow> list_heap \<Rightarrow> list_heap res" where
  "two_unlink i h = rbind (unlink_node (Nd (fnode i)) h) (unlink_node (Nd (hnode i)))"

lemma buffer_remove_heap: "buffer_remove i s = on_lists (two_unlink i) s"
  by (simp add: buffer_remove_def on_lists_def two_unlink_def rbind_assoc)

lemma linked_remove:
  assumes K: "linked R n K h" and i: "i < n"
  shows "\<exists>h'. two_unlink i h = Inr h' \<and> linked R n (K(i := None)) h'"
proof -
  from linked_lists [OF K] obtain L where L: "lists_ok (cdom R) h L" "\<forall>l \<in> cdom R. set (L l) = on_list K n l" .
  note al = linked_D(3) [OF K i]
  have "ct h (Nd (fnode i)) = (if fnode i \<in> set (L free_list) then Some free_list else None)"
    using L(2) i linked_ct(1) [OF K i] by (simp del: not_None_eq)
  with lists_unlink [OF L(1) in_cdom(1)] al obtain h1 ys where h1: "unlink_node (Nd (fnode i)) h = Inr h1"
    "lists_ok (cdom R) h1 (L(free_list := ys))" "set ys = set (L free_list) - {fnode i}" "ow h1 = ow h"
    "alive h1 = alive h" "ct h1 = (ct h)(Nd (fnode i) := None)" by blast
  define j where "j = (case K i of None \<Rightarrow> 0 | Some k \<Rightarrow> hash_key k)"
  have j: "j < HASH_CNT" by (simp add: j_def HASH_CNT_def [symmetric] split: option.split) (simp add: HASH_CNT_def)
  let ?L1 = "L(free_list := ys)"
  have al1: "alive h1 (Nd (hnode i))" using al h1(5) by simp
  have ct1: "ct h1 (Nd (hnode i)) = (if hnode i \<in> set (?L1 (hash_list j)) then Some (hash_list j) else None)"
    using L(2) i linked_ct(2) [OF K i] j by (auto simp: h1(6) j_def split: option.splits)
  from lists_unlink [OF h1(2) in_cdom(3) [OF j] al1 ct1] obtain h2 zs where
    h2: "unlink_node (Nd (hnode i)) h1 = Inr h2" "lists_ok (cdom R) h2 (?L1(hash_list j := zs))"
    "set zs = set (?L1 (hash_list j)) - {hnode i}" "ow h2 = ow h1"
    "alive h2 = alive h1" "ct h2 = (ct h1)(Nd (hnode i) := None)" by blast
  have "linked R n (K(i := None)) h2"
  proof (rule linked_upd [OF K h2(2)])
    show "\<forall>l \<in> cdom R. set ((?L1(hash_list j := zs)) l) = on_list (K(i := None)) n l"
    proof
      fix l assume l: "l \<in> cdom R"
      then have s: "set (L l) = on_list K n l" using L(2) by blast
      show "set ((?L1(hash_list j := zs)) l) = on_list (K(i := None)) n l"
      proof (cases "l = free_list")
        case True
        then show ?thesis using L(2) h1(3) by auto
      next
        case nf: False
        show ?thesis
        proof (cases "\<exists>m < HASH_CNT. l = hash_list m")
          case False
          then have "on_list K n l = {}" "on_list (K(i := None)) n l = {}" "l \<noteq> hash_list j"
            using nf j by (auto simp: on_list_def)
          with s nf show ?thesis by simp
        next
          case True
          then obtain m where m: "m < HASH_CNT" "l = hash_list m" by blast
          show ?thesis
            using s nf m j h2(3) by (cases "m = j") (auto simp: j_def split: option.splits)
        qed
      qed
    qed
    show "\<forall>k < n. (K(i := None)) k = None \<longrightarrow> ct h2 (Nd (fnode k)) = None \<and> ct h2 (Nd (hnode k)) = None"
      using linked_ct [OF K] by (auto simp: h2(6) h1(6))
  qed (simp_all add: h1 h2)
  with h1(1) h2(1) show ?thesis by (simp add: two_unlink_def)
qed

definition two_insert :: "int \<times> u32 \<Rightarrow> nat \<Rightarrow> list_heap \<Rightarrow> list_heap res" where
  "two_insert k i h = rbind (list_pushback h free_list (Nd (fnode i)))
     (\<lambda>h. list_push h (hash_list (hash_key k)) (Nd (hnode i)))"

definition key :: "'a bcache_scheme \<Rightarrow> nat \<Rightarrow> int \<times> u32" where
  "key s i = (b_dev (bufs s ! i), b_blknr (bufs s ! i))"

lemma buffer_insert_heap: "buffer_insert i s = on_lists (two_insert (key s i) i) s"
  by (simp add: buffer_insert_def on_lists_def two_insert_def rbind_assoc hash_key_def key_def)

lemma linked_insert:
  assumes K: "linked R n K h" and i: "i < n" and None: "K i = None"
  shows "\<exists>h'. two_insert k i h = Inr h' \<and> linked R n (K(i := Some k)) h'"
proof -
  from linked_lists [OF K] obtain L where L: "lists_ok (cdom R) h L" "\<forall>l \<in> cdom R. set (L l) = on_list K n l"
    "\<forall>l \<in> cdom R. Suc (length (L l)) < 2 ^ 32" .
  note al = linked_D(3) [OF K i] and ct = linked_ct [OF K i, unfolded None, simplified]
  have fr: "free_node h (fnode i)" using al ct by (simp add: free_node_def)
  from lists_pushback [OF L(1) in_cdom(1) this] L(3) obtain h1 where h1: "list_pushback h free_list (Nd (fnode i)) = Inr h1"
    "lists_ok (cdom R) h1 (L(free_list := L free_list @ [fnode i]))" "ow h1 = ow h" "alive h1 = alive h"
    "ct h1 = (ct h)(Nd (fnode i) := Some free_list)" by auto
  let ?L1 = "L(free_list := L free_list @ [fnode i])" and ?j = "hash_list (hash_key k)"
  have fr1: "free_node h1 (hnode i)" using al ct h1(4,5) by (simp add: free_node_def)
  have "Suc (length (?L1 ?j)) < 2 ^ 32" using L(3) by simp
  from lists_push [OF h1(2) in_cdom(3) [OF hash_key_less] fr1 this] obtain h2 where
    h2: "list_push h1 ?j (Nd (hnode i)) = Inr h2" "lists_ok (cdom R) h2 (?L1(?j := hnode i # ?L1 ?j))"
    "ow h2 = ow h1" "alive h2 = alive h1" "ct h2 = (ct h1)(Nd (hnode i) := Some ?j)" by blast
  have "linked R n (K(i := Some k)) h2"
  proof (rule linked_upd [OF K h2(2)])
    show "\<forall>l \<in> cdom R. set ((?L1(?j := hnode i # ?L1 ?j)) l) = on_list (K(i := Some k)) n l"
    proof
      fix l assume l: "l \<in> cdom R"
      then have s: "set (L l) = on_list K n l" using L(2) by blast
      show "set ((?L1(?j := hnode i # ?L1 ?j)) l) = on_list (K(i := Some k)) n l"
      proof (cases "l = free_list")
        case True
        then show ?thesis using s i by auto
      next
        case nf: False
        show ?thesis
        proof (cases "\<exists>m < HASH_CNT. l = hash_list m")
          case False
          then have "on_list K n l = {}" "on_list (K(i := Some k)) n l = {}" "l \<noteq> ?j"
            using nf by (auto simp: on_list_def)
          with s nf show ?thesis by simp
        next
          case True
          then obtain m where m: "m < HASH_CNT" "l = hash_list m" by blast
          show ?thesis
            using s nf m i None by (cases "m = hash_key k") (auto simp del: split_paired_Ex)
        qed
      qed
    qed
    show "\<forall>m < n. (K(i := Some k)) m = None \<longrightarrow> ct h2 (Nd (fnode m)) = None \<and> ct h2 (Nd (hnode m)) = None"
      using linked_ct [OF K] by (auto simp: h2(5) h1(5))
  qed (simp_all add: h1 h2)
  with h1(1) h2(1) show ?thesis by (simp add: two_insert_def)
qed

text \<open>A node that belongs to no buffer may be initialised.\<close>

lemma on_list_bound: "x \<in> on_list K n l \<Longrightarrow> x < 2 * n"
  using on_list_sub [of x K n l] by (auto simp: fnode_def hnode_def)

lemma linked_init:
  assumes "linked R n K h" "2 * n \<le> x"
  shows "linked R n K (node_init h x w v)"
proof -
  from linked_lists [OF assms(1)] obtain L where L: "lists_ok (cdom R) h L" "\<forall>l \<in> cdom R. set (L l) = on_list K n l" .
  have "\<forall>l \<in> cdom R. x \<notin> set (L l)" using L(2) on_list_bound assms(2) by fastforce
  with L(1) have L': "lists_ok (cdom R) (node_init h x w v) L" by (rule lists_node_init)
  have x: "x \<noteq> fnode i" "x \<noteq> hnode i" if "i < n" for i
    using that assms(2) by (auto simp: fnode_def hnode_def)
  show ?thesis
    by (rule linked_upd [OF assms(1) L' L(2)]) (use assms(2) linked_ct [OF assms(1)] x in auto)
qed

lemma linked_new:
  assumes K: "linked R n K h" and n: "Suc n < 4096"
  shows "linked R (Suc n) (K(n := None)) (node_init (node_init h (fnode n) (Suc n) 0) (hnode n) (Suc n) 0)"
proof -
  let ?h = "node_init (node_init h (fnode n) (Suc n) 0) (hnode n) (Suc n) 0"
  have "linked R n K ?h"
    using K by (intro linked_init) (simp_all add: fnode_def hnode_def)
  moreover from this obtain L where L: "lists_ok (cdom R) ?h L" "\<forall>l \<in> cdom R. set (L l) = on_list K n l"
    by (rule linked_lists)
  moreover have "on_list (K(n := None)) (Suc n) l = on_list K n l" for l
    by (auto simp: on_list_def less_Suc_eq)
  ultimately show ?thesis
    unfolding linked_def using n by (auto simp: less_Suc_eq simp del: node_init_fields) (simp_all add: fnode_def hnode_def)
qed

section \<open>The two searches\<close>

definition owned :: "'a bcache_scheme \<Rightarrow> nat list \<Rightarrow> bool" where
  "owned s xs \<longleftrightarrow> (\<forall>x \<in> set xs. alive (lheap s) (Nd x) \<and> ow (lheap s) (Nd x) = x div 2 + 1 \<and> x div 2 < length (bufs s))"

lemma owned_get:
  assumes "owned s (x # xs)"
  shows "rbind (get_node (lheap s) (Nd x)) (\<lambda>n. rbind (buf_of s n) (\<lambda>i. Inr (n_next n, i))) =
    Inr (nx (lheap s) (Nd x), x div 2)"
proof -
  from assms obtain nd where "get_node (lheap s) (Nd x) = Inr nd" "n_owner nd = x div 2 + 1"
    "n_next nd = nx (lheap s) (Nd x)" "x div 2 < length (bufs s)"
    using get_node_fields [of "lheap s" "Nd x"] by (auto simp: owned_def)
  then show ?thesis by (simp add: buf_of_def)
qed

lemma owned_Cons: "owned s (x # xs) \<Longrightarrow> owned s xs"
  by (simp add: owned_def)

lemma find_loop_chain:
  assumes "chain (nx (lheap s)) (pv (lheap s)) a xs (End l)" "owned s xs"
  shows "find_loop s (End l) dev blk (nx (lheap s) a) =
    Some (Inr (map_option (\<lambda>x. x div 2) (List.find (\<lambda>x. key s (x div 2) = (dev, blk)) xs)))"
  using assms
proof (induction xs arbitrary: a)
  case Nil
  then show ?case by (simp add: find_loop.simps)
next
  case (Cons x xs)
  from Cons.prems have c: "nx (lheap s) a = Nd x" "chain (nx (lheap s)) (pv (lheap s)) (Nd x) xs (End l)" by auto
  note IH = Cons.IH [OF c(2) owned_Cons [OF Cons.prems(2)]]
  have "find_loop s (End l) dev blk (Nd x) =
     (if key s (x div 2) = (dev, blk) then Some (Inr (Some (x div 2))) else find_loop s (End l) dev blk (nx (lheap s) (Nd x)))"
    by (subst find_loop.simps) (simp add: owned_get [OF Cons.prems(2)] key_def)
  with IH c(1) show ?case by simp
qed

definition candidate :: "'a bcache_scheme \<Rightarrow> nat \<Rightarrow> bool" where
  "candidate s i \<longleftrightarrow> b_count (bufs s ! i) = 0 \<and> \<not> b_waiter (bufs s ! i)"

lemma free_loop_chain:
  assumes "chain (nx (lheap s)) (pv (lheap s)) a xs (End free_list)" "owned s xs"
  shows "\<exists>r c. free_loop s bf (nx (lheap s) a) = Some (Inr (r, c)) \<and>
     (case r of None \<Rightarrow> bf = None \<and> (\<forall>x \<in> set xs. \<not> candidate s (x div 2))
      | Some i \<Rightarrow> bf = Some i \<or> candidate s i \<and> (\<exists>x \<in> set xs. i = x div 2)) \<and>
     (c \<longrightarrow> (\<exists>i. r = Some i \<and> SCORE (bufs s ! i) = 0))"
  using assms
proof (induction xs arbitrary: a bf)
  case Nil
  then show ?case by (intro exI [of _ bf] exI [of _ False]) (cases bf; simp add: free_loop.simps)
next
  case (Cons x xs)
  from Cons.prems have c: "nx (lheap s) a = Nd x" "chain (nx (lheap s)) (pv (lheap s)) (Nd x) xs (End free_list)" by auto
  note IH = Cons.IH [OF c(2) owned_Cons [OF Cons.prems(2)]]
  let ?i = "x div 2" and ?best = "case bf of None \<Rightarrow> x div 2 | Some b \<Rightarrow> b"
  let ?next = "\<lambda>bf. free_loop s bf (nx (lheap s) (Nd x))"
  have step: "free_loop s bf (Nd x) =
     (if \<not> candidate s ?i then ?next bf
      else if SCORE (bufs s ! ?best) = 0 then Some (Inr (Some ?best, True))
      else ?next (Some (if SCORE (bufs s ! ?i) < SCORE (bufs s ! ?best) then ?i else ?best)))"
    by (subst free_loop.simps) (simp add: owned_get [OF Cons.prems(2)] candidate_def Let_def)
  show ?case
  proof (cases "candidate s ?i")
    case False
    with IH [of bf] step c(1) show ?thesis by (force split: option.splits)
  next
    case cand: True
    show ?thesis
    proof (cases "SCORE (bufs s ! ?best) = 0")
      case True
      with step c(1) cand show ?thesis by (cases bf) auto
    next
      case False
      let ?bf = "if SCORE (bufs s ! ?i) < SCORE (bufs s ! ?best) then ?i else ?best"
      from IH [of "Some ?bf"] obtain r d where rd: "?next (Some ?bf) = Some (Inr (r, d))"
        "case r of None \<Rightarrow> False | Some i \<Rightarrow> i = ?bf \<or> candidate s i \<and> (\<exists>x \<in> set xs. i = x div 2)"
        "d \<longrightarrow> (\<exists>i. r = Some i \<and> SCORE (bufs s ! i) = 0)" by (force split: option.splits)
      from rd(2) obtain i where i: "r = Some i" "i = ?bf \<or> candidate s i \<and> (\<exists>x \<in> set xs. i = x div 2)"
        by (cases r) auto
      have "free_loop s bf (nx (lheap s) a) = Some (Inr (r, d))"
        using rd(1) step c(1) cand False by simp
      moreover have "bf = Some i \<or> candidate s i \<and> (\<exists>x \<in> set (x # xs). i = x div 2)"
        using i(2) cand by (cases bf) (auto split: if_splits)
      ultimately show ?thesis using i(1) rd(3) by (intro exI [of _ r] exI [of _ d]) simp
    qed
  qed
qed

lemma linked_owned:
  assumes K: "linked R (length (bufs s)) K (lheap s)" and xs: "set xs = on_list K (length (bufs s)) l"
  shows "owned s xs"
proof -
  have "alive (lheap s) (Nd x) \<and> ow (lheap s) (Nd x) = x div 2 + 1 \<and> x div 2 < length (bufs s)" if x: "x \<in> set xs" for x
  proof -
    from x xs on_list_sub [of x] obtain i where i: "i < length (bufs s)" "x = fnode i \<or> x = hnode i" by metis
    moreover from this(2) have "x div 2 = i" by (auto simp: fnode_def hnode_def)
    ultimately show ?thesis using linked_D(3) [OF K i(1)] by auto
  qed
  then show ?thesis by (simp add: owned_def)
qed

lemma find_from_hash_table_spec:
  assumes K: "linked R (length (bufs s)) (\<lambda>i. Some (key s i)) (lheap s)"
  shows "\<exists>r. find_from_hash_table dev blk s = Inr r \<and>
     (case r of None \<Rightarrow> \<forall>i < length (bufs s). key s i \<noteq> (dev, blk)
      | Some i \<Rightarrow> i < length (bufs s) \<and> key s i = (dev, blk))"
proof -
  let ?l = "hash_list (hash dev blk)" and ?n = "length (bufs s)" and ?K = "\<lambda>i. Some (key s i)"
  from linked_lists [OF K] obtain L where L: "lists_ok (cdom R) (lheap s) L"
    "\<forall>l \<in> cdom R. set (L l) = on_list ?K ?n l" .
  have l: "?l \<in> cdom R" by (simp add: hash_less)
  note r = lists_ok_D [OF L(1) l]
  have s: "set (L ?l) = on_list ?K ?n ?l" using L(2) l by blast
  let ?P = "\<lambda>x. key s (x div 2) = (dev, blk)"
  have eq: "find_from_hash_table dev blk s = Inr (map_option (\<lambda>x. x div 2) (List.find ?P (L ?l)))"
  proof -
    from r have "chain (nx (lheap s)) (pv (lheap s)) (End ?l) (L ?l) (End ?l)" by (simp add: lrepr_def)
    from find_loop_chain [OF this linked_owned [OF K s]] lrepr_get_end [OF r]
    show ?thesis by (auto simp: find_from_hash_table_def)
  qed
  show ?thesis
  proof (cases "List.find ?P (L ?l)")
    case None
    then have no: "\<forall>x \<in> set (L ?l). \<not> ?P x" by (simp add: find_None_iff)
    have "key s i \<noteq> (dev, blk)" if "i < ?n" for i
    proof
      assume k: "key s i = (dev, blk)"
      then have "hnode i \<in> set (L ?l)" using s that by (simp add: hash_less) (simp add: hash_key_def)
      with no k show False by (auto simp: hnode_def)
    qed
    with None eq show ?thesis by simp
  next
    case (Some x)
    then have x: "x \<in> set (L ?l)" "?P x" by (auto simp: find_Some_iff)
    with linked_owned [OF K s] have "x div 2 < ?n" by (simp add: owned_def)
    with Some eq x show ?thesis by simp
  qed
qed

end
