(* ===== verification/Request_Proofs.thy ===== *)
theory Request_Proofs
  imports Buffer_Base
begin

text \<open>
  A block request as one step: it transfers the two sectors of a block between memory and
  disk and leaves the lists and, but for the direction of the elevator, the devices alone.
\<close>

section \<open>Where a block is on disk\<close>

lemma device_get_Inr [simp]:
  "device_get dev s = Inr d \<longleftrightarrow> dev < 64 \<and> 0 \<le> dev \<and> nat dev < length (devices s) \<and> d = devices s ! nat dev"
  by (auto simp: device_get_def DEVICE_NR_def)

text \<open>
  \<open>ready R s dev blk D l st\<close>: block \<open>blk\<close> of the device starts \<open>st\<close> sectors later on the disk
  device \<open>D\<close>, whose request list \<open>l\<close> is one of \<open>R\<close> and whose controller works.
\<close>

definition ready :: "nat set \<Rightarrow> 'a dsys_scheme \<Rightarrow> int \<Rightarrow> u32 \<Rightarrow> device_t \<Rightarrow> nat \<Rightarrow> int \<Rightarrow> bool" where
  "ready R s dev blk D l st \<longleftrightarrow>
     (\<exists>d. device_get dev s = Inr d \<and> d_type d = DEV_BLOCK \<and> d_dev D = (if d_parent d \<noteq> 0 then d_parent d else dev)) \<and>
     device_ioctl dev DEV_CMD_SECTOR_START s = Inr st \<and> device_get (d_dev D) s = Inr D \<and> d_read D = SataFn \<and> d_write D = SataFn \<and>
     request_list D = Some l \<and> l \<in> R \<and> \<not> do_request_flag D \<and>
     d_ptr D < length (disks s) \<and> dk_ok (disks s ! d_ptr D) \<and>
     0 \<le> st \<and> 2 * uint blk + st < 2 ^ 31 \<and> 2 * uint blk + st < dk_max_lba (disks s ! d_ptr D) \<and>
     (dk_lba48 (disks s ! d_ptr D) \<or> 2 * uint blk + st < 2 ^ 24)"

definition byte_of :: "u32 \<Rightarrow> int \<Rightarrow> nat" where
  "byte_of blk st = nat (2 * uint blk + st) * SECTOR_SIZE"

text \<open>What a request may change of the devices and disks.\<close>

definition same_dev :: "device_t \<Rightarrow> device_t \<Rightarrow> bool" where
  "same_dev d d' \<longleftrightarrow> d'\<lparr>req_direct := False\<rparr> = d\<lparr>req_direct := False\<rparr>"

lemma same_dev_fields:
  assumes "same_dev d d'"
  shows "d_name d' = d_name d" "d_type d' = d_type d" "d_subtype d' = d_subtype d" "d_dev d' = d_dev d"
    "d_parent d' = d_parent d" "do_request_flag d' = do_request_flag d" "d_ptr d' = d_ptr d"
    "request_list d' = request_list d" "d_ioctl d' = d_ioctl d" "d_read d' = d_read d" "d_write d' = d_write d"
  using assms by (cases d; cases d'; simp add: same_dev_def)+

definition dsame :: "'a dsys_scheme \<Rightarrow> 'a dsys_scheme \<Rightarrow> bool" where
  "dsame s s' \<longleftrightarrow> list_all2 same_dev (devices s) (devices s') \<and> parts s' = parts s \<and>
     map (\<lambda>d. (dk_ok d, dk_max_lba d, dk_lba48 d)) (disks s') = map (\<lambda>d. (dk_ok d, dk_max_lba d, dk_lba48 d)) (disks s)"

lemma same_dev_refl [simp]: "same_dev d d" "same_dev d (d\<lparr>req_direct := b\<rparr>)"
  by (simp_all add: same_dev_def)

lemma same_dev_trans: "same_dev a b \<Longrightarrow> same_dev b c \<Longrightarrow> same_dev a c"
  by (simp add: same_dev_def)

lemma dsame_refl [simp]: "dsame s s"
  by (simp add: dsame_def list_all2_refl)

lemma dsame_trans: "dsame a b \<Longrightarrow> dsame b c \<Longrightarrow> dsame a c"
  by (auto simp: dsame_def intro: list_all2_trans [where ?P1.0 = same_dev and ?P2.0 = same_dev] same_dev_trans)

lemma dsame_cong: "devices s' = devices s \<Longrightarrow> parts s' = parts s \<Longrightarrow> disks s' = disks s \<Longrightarrow> dsame s s'"
  by (simp add: dsame_def list_all2_refl)

lemma dsame_get:
  assumes "dsame s s'" "device_get dev s = Inr d"
  shows "\<exists>d'. device_get dev s' = Inr d' \<and> same_dev d d'"
  using assms by (auto simp: dsame_def list_all2_conv_all_nth)

lemma dsame_ioctl:
  assumes "dsame s s'" "device_ioctl dev cmd s = Inr v"
  shows "device_ioctl dev cmd s' = Inr v"
proof -
  from assms(2) obtain d where d: "device_get dev s = Inr d" by (auto simp: device_ioctl_def)
  with dsame_get [OF assms(1)] obtain d' where d': "device_get dev s' = Inr d'" "same_dev d d'" by blast
  have "parts s' = parts s" using assms(1) by (simp add: dsame_def)
  with assms(2) d d' same_dev_fields [OF d'(2)] show ?thesis
    by (auto simp: device_ioctl_def simp del: device_get_Inr split: driver_fn.splits)
qed

lemma dsame_disk:
  assumes "dsame s s'"
  shows "length (disks s') = length (disks s)" "k < length (disks s) \<Longrightarrow> dk_ok (disks s' ! k) = dk_ok (disks s ! k)"
    "k < length (disks s) \<Longrightarrow> dk_max_lba (disks s' ! k) = dk_max_lba (disks s ! k)"
    "k < length (disks s) \<Longrightarrow> dk_lba48 (disks s' ! k) = dk_lba48 (disks s ! k)"
proof -
  from assms have eq: "map (\<lambda>d. (dk_ok d, dk_max_lba d, dk_lba48 d)) (disks s') = map (\<lambda>d. (dk_ok d, dk_max_lba d, dk_lba48 d)) (disks s)"
    by (simp add: dsame_def)
  from arg_cong [OF eq, of length] show l: "length (disks s') = length (disks s)" by simp
  from arg_cong [OF eq, of "\<lambda>xs. xs ! k"] l
  show "k < length (disks s) \<Longrightarrow> dk_ok (disks s' ! k) = dk_ok (disks s ! k)"
    "k < length (disks s) \<Longrightarrow> dk_max_lba (disks s' ! k) = dk_max_lba (disks s ! k)"
    "k < length (disks s) \<Longrightarrow> dk_lba48 (disks s' ! k) = dk_lba48 (disks s ! k)" by auto
qed

lemma ready_dsame:
  assumes same: "dsame s s'" and r: "ready R s dev blk D l st"
  shows "\<exists>D'. ready R s' dev blk D' l st \<and> d_ptr D' = d_ptr D"
proof -
  from r have r1: "device_get (d_dev D) s = Inr D" and r2: "device_ioctl dev DEV_CMD_SECTOR_START s = Inr st"
    by (simp_all add: ready_def del: device_get_Inr)
  from r obtain d where d: "device_get dev s = Inr d" "d_type d = DEV_BLOCK"
    "d_dev D = (if d_parent d \<noteq> 0 then d_parent d else dev)" unfolding ready_def by blast
  from dsame_get [OF same d(1)] obtain d' where d': "device_get dev s' = Inr d'" "same_dev d d'" by blast
  from dsame_get [OF same r1] obtain D' where D': "device_get (d_dev D) s' = Inr D'" "same_dev D D'" by blast
  note f = same_dev_fields [OF d'(2)] same_dev_fields [OF D'(2)]
  have "\<exists>e. device_get dev s' = Inr e \<and> d_type e = DEV_BLOCK \<and>
     d_dev D' = (if d_parent e \<noteq> 0 then d_parent e else dev)"
    using d d'(1) f by (intro exI [of _ d']) (simp del: device_get_Inr)
  moreover have "device_get (d_dev D') s' = Inr D'" using D'(1) f by (simp del: device_get_Inr)
  ultimately show ?thesis
    using r dsame_ioctl [OF same r2] dsame_disk [OF same] f unfolding ready_def
    by (intro exI [of _ D']) (simp del: device_get_Inr)
qed

section \<open>The request\<close>

lemma block_sector:
  assumes "0 \<le> st" "2 * uint blk + st < 2 ^ 31"
  shows "sint (blk * word_of_nat SECS_PER_BLOCK :: u32) = 2 * uint blk"
proof -
  have "uint (blk * 2 :: u32) = uint blk * 2"
    using assms by (simp add: uint_word_ariths)
  then have "unat (blk * 2) = nat (uint blk * 2)" by (metis unat_eq_nat_uint)
  moreover from this assms have "unat (blk * 2) < 2 ^ 31" by simp
  ultimately show ?thesis by (simp add: sint_small block_consts)
qed

text \<open>The transfer of \<open>n\<close> sectors.\<close>

definition transfer :: "req_type \<Rightarrow> nat \<Rightarrow> nat \<Rightarrow> nat \<Rightarrow> nat \<Rightarrow> 'a dsys_scheme \<Rightarrow> 'a dsys_scheme" where
  "transfer ty k a data n s = (case ty of
     REQ_READ \<Rightarrow> s\<lparr>mem := blit (mem s) data (dk_bytes (disks s ! k)) a n\<rparr>
   | REQ_WRITE \<Rightarrow> s\<lparr>disks := (disks s)[k := (disks s ! k)\<lparr>dk_bytes := blit (dk_bytes (disks s ! k)) a (mem s) data n\<rparr>]\<rparr>)"

lemma do_request_disk:
  assumes "device_get (d_dev D) s = Inr D" "d_read D = SataFn" "d_write D = SataFn"
    and "d_ptr D < length (disks s)" "dk_ok (disks s ! d_ptr D)"
    and "0 \<le> i" "i < 2 ^ 31" "i < dk_max_lba (disks s ! d_ptr D)" "dk_lba48 (disks s ! d_ptr D) \<or> i < 2 ^ 24"
  shows "do_request \<lparr>r_dev = d_dev D, r_type = ty, r_idx = i, r_count = c, r_buf = data\<rparr> s =
    Inr (transfer ty (d_ptr D) (nat i * SECTOR_SIZE) data (c * SECTOR_SIZE) s)"
proof -
  have io: "device_io DEVICE_NR rd (d_dev D) data c i s = sata_io rd (d_ptr D) data c i s" for rd
    using assms(1-3) by (simp add: DEVICE_NR_def numeral_eq_Suc del: device_get_Inr)
  have "i mod 2 ^ 32 = i" "sent_sector (dk_lba48 (disks s ! d_ptr D)) i = nat i"
    using assms by (auto simp: sent_sector_def)
  then show ?thesis
    using assms(4,5,8) by (cases ty) (simp_all add: do_request_def device_read_def device_write_def io sata_io_def
      transfer_def EOF_def Let_def)
qed

lemma transfer_fields [simp]:
  "devices (transfer ty k a data n s) = devices s" "parts (transfer ty k a data n s) = parts s"
  "lheap (transfer ty k a data n s) = lheap s"
  "map (\<lambda>d. (dk_ok d, dk_max_lba d, dk_lba48 d)) (disks (transfer ty k a data n s)) = map (\<lambda>d. (dk_ok d, dk_max_lba d, dk_lba48 d)) (disks s)"
proof -
  show "map (\<lambda>d. (dk_ok d, dk_max_lba d, dk_lba48 d)) (disks (transfer ty k a data n s)) = map (\<lambda>d. (dk_ok d, dk_max_lba d, dk_lba48 d)) (disks s)"
    by (cases ty; cases "k < length (disks s)") (simp_all add: transfer_def map_update list_update_same_conv list_update_beyond)
qed (cases ty; simp add: transfer_def)+

lemma list_insert_empty:
  assumes "lrepr h l []" "free_node h n"
  shows "\<exists>h'. list_insert h l (Nd n) cmp = Inr h' \<and> lrepr h' l [n] \<and> lstep h h' l n (Some l)"
  using list_insert_spec [OF assms, of cmp] by (simp add: ordered_place_def)

lemma single_request:
  assumes "lrepr h l [n]"
  shows "nx h (Nd n) = End l" "pv h (Nd n) = End l" "ct h (Nd n) = Some l" "ow h (End l) = 0" "alive h (Nd n)" "alive h (End l)"
  using assms lrepr_alive [OF assms] by (auto simp: lrepr_def)

text \<open>
  The elevator: the direction is turned at an end of the list, so that with a single
  request the neighbour is the sentinel, which has no owner.
\<close>

lemma get_next_req_single:
  assumes "lrepr (lheap s) l [n]" "device_get dev s = Inr D" "request_list D = Some l"
  shows "\<exists>dir. get_next_req dev (Nd n) s = Inr (0, set_device dev (\<lambda>d. d\<lparr>req_direct := dir\<rparr>) s)"
proof -
  note o = single_request [OF assms(1)]
  from get_node_fields [OF o(5)] o obtain rn where rn: "get_node (lheap s) (Nd n) = Inr rn" "n_container rn = Some l"
    "n_next rn = End l" "n_previous rn = End l" by auto
  from get_node_fields [OF o(6)] o obtain en where en: "get_node (lheap s) (End l) = Inr en" "n_owner en = 0" by auto
  have "lheap (set_device dev f s) = lheap s" for f by (simp add: set_device_def)
  with assms(2,3) rn en show ?thesis by (simp add: get_next_req_def Let_def del: device_get_Inr) blast
qed

lemma device_request_spec:
  fixes s :: "'a dsys_scheme"
  assumes L: "lists_ok D (lheap s) L" "l \<in> D" "L l = []" "\<forall>m \<in> D. req_node \<notin> set (L m)"
    and R: "ready R s dev blk dd l st"
  shows "\<exists>h ds. device_request dev data SECS_PER_BLOCK (sint (blk * word_of_nat SECS_PER_BLOCK)) ty s =
      Inr (transfer ty (d_ptr dd) (byte_of blk st) data BLOCK_SIZE s\<lparr>lheap := h, devices := ds\<rparr>) \<and>
    lists_ok D h L \<and> (\<forall>x. x \<noteq> req_node \<longrightarrow> ow h (Nd x) = ow (lheap s) (Nd x) \<and>
       alive h (Nd x) = alive (lheap s) (Nd x) \<and> ct h (Nd x) = ct (lheap s) (Nd x)) \<and>
    list_all2 same_dev (devices s) ds"
proof -
  let ?D = "d_dev dd" and ?i = "2 * uint blk + st"
  from R have g: "device_get ?D s = Inr dd" and r: "d_read dd = SataFn" "d_write dd = SataFn" "request_list dd = Some l"
     "\<not> do_request_flag dd" "d_ptr dd < length (disks s)" "dk_ok (disks s ! d_ptr dd)" "0 \<le> st" "?i < 2 ^ 31"
     "?i < dk_max_lba (disks s ! d_ptr dd)" "dk_lba48 (disks s ! d_ptr dd) \<or> ?i < 2 ^ 24" and io: "device_ioctl dev DEV_CMD_SECTOR_START s = Inr st"
    by (simp_all add: ready_def del: device_get_Inr)
  from R obtain d where d: "device_get dev s = Inr d" "d_type d = DEV_BLOCK"
    "?D = (if d_parent d \<noteq> 0 then d_parent d else dev)" unfolding ready_def by blast
  have par: "(if d_parent d \<noteq> 0 then device_get (d_parent d) s else Inr d) = Inr dd"
    using d g by (auto simp del: device_get_Inr split: if_splits)
  let ?h0 = "node_init (lheap s) req_node 1 (word_of_int ?i)"
  have L0: "lists_ok D ?h0 L" using L by (intro lists_node_init) auto
  have "free_node ?h0 req_node" by (simp add: node_init_free)
  from lists_ok_D [OF L0 L(2)] L(3) have "lrepr ?h0 l []" by simp
  from list_insert_empty [OF this \<open>free_node ?h0 req_node\<close>, of greater_u32] obtain h1 where
    h1: "list_insert ?h0 l (Nd req_node) greater_u32 = Inr h1" "lrepr h1 l [req_node]" "lstep ?h0 h1 l req_node (Some l)" by blast
  then have L1: "lists_ok D h1 (L(l := [req_node]))" using L0 by (simp add: lists_ok_def lstep_def)
  from lists_remove [OF L1 L(2), of "[]" req_node "[]"] obtain h2 where
    h2: "remove_node h1 (Nd req_node) = Inr h2" "lists_ok D h2 (L(l := []))" "ow h2 = ow h1" "alive h2 = alive h1"
      "ct h2 = (ct h1)(Nd req_node := None)" by auto
  let ?s1 = "s\<lparr>lheap := h1\<rparr>"
  let ?s2 = "set_device ?D (\<lambda>d. d\<lparr>do_request_flag := True\<rparr>) ?s1"
  let ?dd2 = "dd\<lparr>do_request_flag := True\<rparr>"
  from g have Di: "?D < 64" "0 \<le> ?D" "nat ?D < length (devices s)" "devices s ! nat ?D = dd" by auto
  have g2: "device_get (d_dev ?dd2) ?s2 = Inr ?dd2" using Di by (simp add: set_device_def)
  have req: "do_request \<lparr>r_dev = ?D, r_type = ty, r_idx = ?i, r_count = SECS_PER_BLOCK, r_buf = data\<rparr> ?s2 =
      Inr (transfer ty (d_ptr dd) (byte_of blk st) data BLOCK_SIZE ?s2)"
    using do_request_disk [OF g2, of ?i ty SECS_PER_BLOCK data] r
    by (simp add: set_device_def byte_of_def block_consts)
  let ?s3 = "transfer ty (d_ptr dd) (byte_of blk st) data BLOCK_SIZE ?s2"
  let ?s4 = "set_device ?D (\<lambda>d. d\<lparr>do_request_flag := False\<rparr>) ?s3"
  have "lrepr (lheap ?s4) l [req_node]" using h1(2) by (simp add: set_device_def)
  moreover have "device_get ?D ?s4 = Inr dd" using Di r(4) by (simp add: set_device_def)
  ultimately obtain dir where nxt: "get_next_req ?D (Nd req_node) ?s4 = Inr (0, set_device ?D (\<lambda>d. d\<lparr>req_direct := dir\<rparr>) ?s4)"
    using get_next_req_single [of ?s4 l req_node ?D dd] r(3) by blast
  let ?s5 = "set_device ?D (\<lambda>d. d\<lparr>req_direct := dir\<rparr>) ?s4"
  have off: "dd\<lparr>do_request_flag := False, req_direct := dir\<rparr> = dd\<lparr>req_direct := dir\<rparr>"
    using r(4) by (cases dd) simp
  let ?ds = "(devices s)[nat ?D := dd\<lparr>req_direct := dir\<rparr>]"
  have "?s5 = transfer ty (d_ptr dd) (byte_of blk st) data BLOCK_SIZE s\<lparr>lheap := h1, devices := ?ds\<rparr>"
    using Di off by (cases ty) (simp_all add: set_device_def transfer_def)
  then have s6: "?s5\<lparr>lheap := h2\<rparr> = transfer ty (d_ptr dd) (byte_of blk st) data BLOCK_SIZE s\<lparr>lheap := h2, devices := ?ds\<rparr>"
    by simp
  have "lheap ?s5 = h1" by (simp add: set_device_def)
  with d(1,2) io par r(3,4) block_sector [OF r(7,8)] h1(1) req nxt h2(1)
  have "device_request dev data SECS_PER_BLOCK (sint (blk * word_of_nat SECS_PER_BLOCK)) ty s = Inr (?s5\<lparr>lheap := h2\<rparr>)"
    unfolding device_request_def by (simp add: Let_def del: device_get_Inr)
  moreover have "lists_ok D h2 L" using h2(2) L(3) by (simp add: fun_upd_idem)
  moreover have "list_all2 same_dev (devices s) ?ds"
    using Di by (auto simp: list_all2_conv_all_nth nth_list_update)
  moreover have "\<forall>x. x \<noteq> req_node \<longrightarrow> ow h2 (Nd x) = ow (lheap s) (Nd x) \<and>
       alive h2 (Nd x) = alive (lheap s) (Nd x) \<and> ct h2 (Nd x) = ct (lheap s) (Nd x)"
    using h1(3) by (simp add: h2 lstep_def)
  ultimately show ?thesis unfolding s6 by blast
qed

end
