(* ===== verification/Buffer_Proofs.thy ===== *)
theory Buffer_Proofs
  imports Request_Proofs
begin

text \<open>
  The buffer cache is transparent: \<open>view\<close> is the contents of the blocks of a set \<open>B\<close> as the
  cache's users see them, and the operations of the cache keep it. \<open>cache_inv\<close> is the
  invariant: the lists hold the buffers, no block is in two buffers, and a clean valid
  buffer agrees with the disk.
\<close>

section \<open>Contents of blocks\<close>

definition slice :: "(nat \<Rightarrow> u8) \<Rightarrow> nat \<Rightarrow> u8 list" where
  "slice m a = map (\<lambda>j. m (a + j)) [0..<BLOCK_SIZE]"

lemma slice_blit:
  "slice (blit dst d src p BLOCK_SIZE) d = slice src p"
  "e + BLOCK_SIZE \<le> d \<or> d + BLOCK_SIZE \<le> e \<Longrightarrow> slice (blit dst d src p BLOCK_SIZE) e = slice dst e"
  by (auto simp: slice_def blit_def)

text \<open>\<open>addr x\<close> is the disk of a block and the address of its first byte there.\<close>

definition dblock :: "(int \<times> u32 \<Rightarrow> nat \<times> nat) \<Rightarrow> 'a dsys_scheme \<Rightarrow> int \<times> u32 \<Rightarrow> u8 list" where
  "dblock addr s x = slice (dk_bytes (disks s ! fst (addr x))) (snd (addr x))"

definition bblock :: "'a bcache_scheme \<Rightarrow> nat \<Rightarrow> u8 list" where
  "bblock s i = slice (mem s) (b_data (bufs s ! i))"

definition view :: "(int \<times> u32 \<Rightarrow> nat \<times> nat) \<Rightarrow> 'a bcache_scheme \<Rightarrow> int \<times> u32 \<Rightarrow> u8 list" where
  "view addr s x = (case List.find (\<lambda>i. key s i = x \<and> b_vaild (bufs s ! i)) [0..<length (bufs s)] of
     Some i \<Rightarrow> bblock s i | None \<Rightarrow> dblock addr s x)"

definition disks_ok :: "nat set \<Rightarrow> (int \<times> u32) set \<Rightarrow> (int \<times> u32 \<Rightarrow> nat \<times> nat) \<Rightarrow> 'a dsys_scheme \<Rightarrow> bool" where
  "disks_ok R B addr s \<longleftrightarrow>
     (\<forall>x \<in> B. \<exists>D l st. ready R s (fst x) (snd x) D l st \<and> addr x = (d_ptr D, byte_of (snd x) st)) \<and>
     (\<forall>x \<in> B. \<forall>y \<in> B. x \<noteq> y \<longrightarrow> fst (addr x) \<noteq> fst (addr y) \<or> snd (addr x) + BLOCK_SIZE \<le> snd (addr y) \<or>
        snd (addr y) + BLOCK_SIZE \<le> snd (addr x))"

definition buf_ok :: "(int \<times> u32) set \<Rightarrow> (int \<times> u32 \<Rightarrow> nat \<times> nat) \<Rightarrow> 'a bcache_scheme \<Rightarrow> nat \<Rightarrow> bool" where
  "buf_ok B addr s i \<longleftrightarrow> key s i \<in> B \<and> (b_dirty (bufs s ! i) \<longrightarrow> b_vaild (bufs s ! i)) \<and>
     (b_vaild (bufs s ! i) \<and> \<not> b_dirty (bufs s ! i) \<longrightarrow> bblock s i = dblock addr s (key s i))"

definition placed :: "'a bcache_scheme \<Rightarrow> bool" where
  "placed s \<longleftrightarrow> (sizeof_buffer + BLOCK_SIZE) * length (bufs s) \<le> BUFFER_M_END - BUFFER_M_START \<and>
     (\<forall>i < length (bufs s). b_data (bufs s ! i) = BUFFER_M_END - BLOCK_SIZE * (i + 1) \<and>
        b_lock (bufs s ! i) \<and> \<not> b_waiter (bufs s ! i))"

definition cache_inv :: "nat set \<Rightarrow> (int \<times> u32) set \<Rightarrow> (int \<times> u32 \<Rightarrow> nat \<times> nat) \<Rightarrow> 'a bcache_scheme \<Rightarrow> bool" where
  "cache_inv R B addr s \<longleftrightarrow> disks_ok R B addr s \<and> placed s \<and>
     linked R (length (bufs s)) (\<lambda>i. Some (key s i)) (lheap s) \<and> inj_on (key s) {..<length (bufs s)} \<and>
     (\<forall>i < length (bufs s). buf_ok B addr s i)"

lemma cache_invD:
  assumes "cache_inv R B addr s"
  shows "disks_ok R B addr s" "placed s" "linked R (length (bufs s)) (\<lambda>i. Some (key s i)) (lheap s)"
    "inj_on (key s) {..<length (bufs s)}" "i < length (bufs s) \<Longrightarrow> buf_ok B addr s i"
  using assms by (auto simp: cache_inv_def)

lemma sub_le: "a + n \<le> b \<Longrightarrow> b \<le> c \<Longrightarrow> c - b + n \<le> c - a" for a b c n :: nat
  by simp

lemma placed_below:
  assumes "placed s" "i < j" "j < length (bufs s)"
  shows "b_data (bufs s ! j) + BLOCK_SIZE \<le> b_data (bufs s ! i)"
proof -
  have len: "137 * length (bufs s) \<le> 524288" and d: "b_data (bufs s ! i) = 0xC00000 - 1024 * (i + 1)"
    "b_data (bufs s ! j) = 0xC00000 - 1024 * (j + 1)"
    using assms by (simp_all add: placed_def BUFFER_M_END_def BUFFER_M_START_def BLOCK_SIZE_def sizeof_buffer_def)
  have "length (bufs s) \<le> 3826" using len by presburger
  then have "1024 * (j + 1) \<le> (0xC00000 :: nat)" using assms(3) by simp
  moreover from assms(2) have "1024 * (i + 1) + 1024 \<le> 1024 * (j + 1)" by simp
  ultimately show ?thesis unfolding d BLOCK_SIZE_def by (rule sub_le [rotated])
qed

lemma placed_disjoint:
  assumes "placed s" "i < length (bufs s)" "j < length (bufs s)" "i \<noteq> j"
  shows "b_data (bufs s ! i) + BLOCK_SIZE \<le> b_data (bufs s ! j) \<or> b_data (bufs s ! j) + BLOCK_SIZE \<le> b_data (bufs s ! i)"
  using placed_below [OF assms(1), of i j] placed_below [OF assms(1), of j i] assms by (cases "i < j") auto

section \<open>The view\<close>

lemma view_hit:
  assumes "inj_on (key s) {..<length (bufs s)}" "i < length (bufs s)" "b_vaild (bufs s ! i)"
  shows "view addr s (key s i) = bblock s i"
proof -
  let ?P = "\<lambda>j. key s j = key s i \<and> b_vaild (bufs s ! j)"
  have "List.find ?P [0..<length (bufs s)] \<noteq> None"
    using assms(2,3) by (auto simp: find_None_iff)
  then obtain j where j: "List.find ?P [0..<length (bufs s)] = Some j" by auto
  then have "j < length (bufs s)" "key s j = key s i" by (auto simp: find_Some_iff)
  with assms(1,2) have "j = i" by (auto dest: inj_onD)
  with j show ?thesis by (simp add: view_def)
qed

lemma view_miss:
  assumes "\<And>i. i < length (bufs s) \<Longrightarrow> key s i = x \<Longrightarrow> \<not> b_vaild (bufs s ! i)"
  shows "view addr s x = dblock addr s x"
proof -
  have "List.find (\<lambda>j. key s j = x \<and> b_vaild (bufs s ! j)) [0..<length (bufs s)] = None"
    using assms by (auto simp: find_None_iff)
  then show ?thesis by (simp add: view_def)
qed

lemma view_cases:
  assumes "inj_on (key s) {..<length (bufs s)}"
    and "\<And>i. i < length (bufs s) \<Longrightarrow> key s i = x \<Longrightarrow> b_vaild (bufs s ! i) \<Longrightarrow> bblock s i = v"
    and "(\<And>i. i < length (bufs s) \<Longrightarrow> key s i = x \<Longrightarrow> \<not> b_vaild (bufs s ! i)) \<Longrightarrow> dblock addr s x = v"
  shows "view addr s x = v"
proof (cases "\<exists>i < length (bufs s). key s i = x \<and> b_vaild (bufs s ! i)")
  case True
  with assms(1,2) view_hit show ?thesis by metis
next
  case False
  with assms(3) view_miss [of s x] show ?thesis by blast
qed

text \<open>A clean buffer agrees with the disk, so its contents may be dropped.\<close>

lemma view_clean:
  assumes "cache_inv R B addr s" "i < length (bufs s)" "\<not> b_dirty (bufs s ! i)"
  shows "view addr s (key s i) = dblock addr s (key s i)"
proof (cases "b_vaild (bufs s ! i)")
  case True
  with view_hit [OF cache_invD(4) [OF assms(1)] assms(2)] cache_invD(5) [OF assms(1,2)] assms(3)
  show ?thesis by (simp add: buf_ok_def)
next
  case False
  show ?thesis
    using cache_invD(4) [OF assms(1)] assms(2) False by (intro view_miss) (auto dest: inj_onD)
qed

section \<open>Requests for buffers\<close>

lemma disks_ok_dsame: "disks_ok R B addr s \<Longrightarrow> dsame s s' \<Longrightarrow> disks_ok R B addr s'"
  unfolding disks_ok_def using ready_dsame by metis

lemma key_cong: "bufs s' = bufs s \<Longrightarrow> key s' = key s"
  by (simp add: key_def fun_eq_iff)

lemma upd_buf_simps [simp]:
  "lheap (upd_buf i f s) = lheap s" "mem (upd_buf i f s) = mem s" "disks (upd_buf i f s) = disks s"
  "devices (upd_buf i f s) = devices s" "parts (upd_buf i f s) = parts s"
  "bufs (upd_buf i f s) = (bufs s)[i := f (bufs s ! i)]"
  by (simp_all add: upd_buf_def)

lemma ready_cong:
  assumes "devices s' = devices s" "parts s' = parts s" "disks s' = disks s"
  shows "ready R s' = ready R s"
proof -
  have g: "device_get dev s' = device_get dev s" for dev unfolding device_get_def assms ..
  have "device_ioctl dev c s' = device_ioctl dev c s" for dev c unfolding device_ioctl_def g assms ..
  then show ?thesis unfolding ready_def g assms by (intro ext) simp
qed

lemma linked_request:
  assumes K: "linked R n K h" and L': "lists_ok (cdom R) h' L" "\<forall>l \<in> cdom R. set (L l) = on_list K n l"
    and f: "\<forall>x. x \<noteq> req_node \<longrightarrow> ow h' (Nd x) = ow h (Nd x) \<and> alive h' (Nd x) = alive h (Nd x) \<and> ct h' (Nd x) = ct h (Nd x)"
  shows "linked R n K h'"
proof -
  have n: "2 * n < req_node" using linked_D(2) [OF K] by (simp add: req_node_def)
  then have x: "fnode i \<noteq> req_node" "hnode i \<noteq> req_node" if "i < n" for i
    using that by (auto simp: fnode_def hnode_def)
  show ?thesis
    by (rule linked_upd [OF K L']) (use f n x linked_ct [OF K] in auto)
qed

lemma request_bufs [simp]: "bufs (transfer ty k a data n s) = bufs s"
  by (cases ty) (simp_all add: transfer_def)

text \<open>What a request for a buffer changes: memory when it reads, the disk when it writes.\<close>

definition out_same :: "'a dsys_scheme \<Rightarrow> 'a dsys_scheme \<Rightarrow> bool" where
  "out_same s s' \<longleftrightarrow> (\<forall>a. a < BUFFER_M_START \<or> BUFFER_M_END \<le> a \<longrightarrow> mem s' a = mem s a)"

lemma placed_region:
  assumes "placed s" "i < length (bufs s)"
  shows "BUFFER_M_START \<le> b_data (bufs s ! i)" "b_data (bufs s ! i) + BLOCK_SIZE \<le> BUFFER_M_END"
proof -
  have len: "137 * length (bufs s) \<le> 524288" and d: "b_data (bufs s ! i) = 0xC00000 - 1024 * (i + 1)"
    using assms by (simp_all add: placed_def BUFFER_M_END_def BUFFER_M_START_def BLOCK_SIZE_def sizeof_buffer_def)
  have "length (bufs s) \<le> 3826" using len by presburger
  then have "1024 * (i + 1) \<le> (0x400000 :: nat)" using assms(2) by simp
  then show "BUFFER_M_START \<le> b_data (bufs s ! i)" "b_data (bufs s ! i) + BLOCK_SIZE \<le> BUFFER_M_END"
    unfolding d BUFFER_M_START_def BUFFER_M_END_def BLOCK_SIZE_def by simp_all
qed

definition io_effect ::
    "(int \<times> u32) set \<Rightarrow> (int \<times> u32 \<Rightarrow> nat \<times> nat) \<Rightarrow> nat \<Rightarrow> req_type \<Rightarrow> 'a bcache_scheme \<Rightarrow> 'a bcache_scheme \<Rightarrow> bool" where
  "io_effect B addr i ty s s' \<longleftrightarrow> (case ty of
     REQ_READ \<Rightarrow> disks s' = disks s \<and> bblock s' i = dblock addr s (key s i) \<and>
       (\<forall>j < length (bufs s). j \<noteq> i \<longrightarrow> bblock s' j = bblock s j) \<and> out_same s s'
   | REQ_WRITE \<Rightarrow> mem s' = mem s \<and> (\<forall>x \<in> B. dblock addr s' x = (if x = key s i then bblock s i else dblock addr s x)))"

lemma transfer_effect:
  assumes inv: "disks_ok R B addr s" "placed s" and i: "i < length (bufs s)" "key s i \<in> B"
    and a: "addr (key s i) = (k, a)" "k < length (disks s)"
    and s': "mem s' = mem (transfer ty k a (b_data (bufs s ! i)) BLOCK_SIZE s)"
      "disks s' = disks (transfer ty k a (b_data (bufs s ! i)) BLOCK_SIZE s)" "bufs s' = bufs s"
  shows "io_effect B addr i ty s s'"
proof (cases ty)
  case REQ_READ
  have "slice (mem s') (b_data (bufs s ! j)) = slice (mem s) (b_data (bufs s ! j))" if "j < length (bufs s)" "j \<noteq> i" for j
    using s'(1) REQ_READ slice_blit(2) [OF placed_disjoint [OF inv(2) that(1) i(1) that(2)]]
    by (simp add: transfer_def)
  moreover have "out_same s s'"
    using placed_region [OF inv(2) i(1)] s'(1) REQ_READ by (auto simp: out_same_def transfer_def blit_def)
  ultimately show ?thesis
    using s' a REQ_READ by (simp add: io_effect_def transfer_def bblock_def dblock_def slice_blit)
next
  case REQ_WRITE
  have "dblock addr s' x = (if x = key s i then bblock s i else dblock addr s x)" if "x \<in> B" for x
  proof (cases "x = key s i")
    case True
    with REQ_WRITE s' a show ?thesis by (simp add: transfer_def bblock_def dblock_def slice_blit)
  next
    case False
    with that i(2) inv(1) a(1) have "fst (addr x) \<noteq> k \<or> snd (addr x) + BLOCK_SIZE \<le> a \<or> a + BLOCK_SIZE \<le> snd (addr x)"
      unfolding disks_ok_def by fastforce
    with False REQ_WRITE s' a show ?thesis
      by (cases "fst (addr x) = k") (auto simp: transfer_def bblock_def dblock_def slice_blit)
  qed
  with REQ_WRITE s' show ?thesis by (simp add: io_effect_def transfer_def)
qed

lemma buf_request_spec:
  fixes s :: "'a bcache_scheme"
  assumes inv: "disks_ok R B addr s" "placed s" and K: "linked R (length (bufs s)) K (lheap s)"
    and i: "i < length (bufs s)" "key s i \<in> B"
  shows "\<exists>s'. buf_request i ty s = Inr s' \<and> bufs s' = bufs s \<and> disks_ok R B addr s' \<and>
    linked R (length (bufs s)) K (lheap s') \<and> io_effect B addr i ty s s'"
proof -
  let ?dev = "fst (key s i)" and ?blk = "snd (key s i)" and ?data = "b_data (bufs s ! i)"
  from inv(1) i(2) obtain D l st where R: "ready R s ?dev ?blk D l st" "addr (key s i) = (d_ptr D, byte_of ?blk st)"
    unfolding disks_ok_def by blast
  from linked_lists [OF K] obtain L where L: "lists_ok (cdom R) (lheap s) L" "\<forall>l \<in> cdom R. set (L l) = on_list K (length (bufs s)) l" .
  have l: "l \<in> R" "d_ptr D < length (disks s)" using R(1) by (simp_all add: ready_def del: device_get_Inr)
  then have "l \<in> cdom R" by simp
  then have Ll: "l \<in> cdom R" "L l = []" using L(2) on_list_request [OF linked_D(1) [OF K] l(1)] by auto
  have no: "\<forall>m \<in> cdom R. req_node \<notin> set (L m)"
    using L(2) on_list_bound [of req_node K "length (bufs s)"] linked_D(2) [OF K] by (fastforce simp: req_node_def)
  let ?b = "bufs s ! i" and ?s1 = "upd_buf i (\<lambda>b. b\<lparr>b_lock := False\<rparr>) s"
  have lock: "b_lock ?b" using inv(2) i(1) by (simp add: placed_def)
  have eq1: "lheap ?s1 = lheap s" "ready R ?s1 ?dev ?blk D l st"
    using R(1) ready_cong [of ?s1 s] by simp_all
  from device_request_spec [OF L(1)[folded eq1(1)] Ll no eq1(2), of ?data ty] obtain h ds where
    h: "device_request ?dev ?data SECS_PER_BLOCK (sint (?blk * word_of_nat SECS_PER_BLOCK)) ty ?s1 =
       Inr (transfer ty (d_ptr D) (byte_of ?blk st) ?data BLOCK_SIZE ?s1\<lparr>lheap := h, devices := ds\<rparr>)"
      "lists_ok (cdom R) h L" "\<forall>x. x \<noteq> req_node \<longrightarrow> ow h (Nd x) = ow (lheap s) (Nd x) \<and>
       alive h (Nd x) = alive (lheap s) (Nd x) \<and> ct h (Nd x) = ct (lheap s) (Nd x)" "list_all2 same_dev (devices s) ds"
    by auto
  let ?s2 = "transfer ty (d_ptr D) (byte_of ?blk st) ?data BLOCK_SIZE ?s1\<lparr>lheap := h, devices := ds\<rparr>"
  let ?s' = "upd_buf i (\<lambda>b. b\<lparr>b_lock := True\<rparr>) ?s2"
  have "buf_request i ty s = Inr ?s'"
    using lock h(1) i(1) by (simp add: buf_request_def buffer_lock_def buffer_unlock_def key_def)
  moreover have b: "bufs ?s' = bufs s"
  proof -
    have "?b\<lparr>b_lock := False, b_lock := True\<rparr> = ?b" using lock by (cases ?b) simp
    then show ?thesis using i(1) by simp
  qed
  moreover have "dsame s ?s'"
    using h(4) transfer_fields(4) [of ty "d_ptr D" "byte_of ?blk st" ?data BLOCK_SIZE ?s1]
    by (simp add: dsame_def)
  then have "disks_ok R B addr ?s'" by (rule disks_ok_dsame [OF inv(1)])
  moreover have "linked R (length (bufs s)) K (lheap ?s')"
    using linked_request [OF K h(2) L(2) h(3)] by simp
  moreover have "io_effect B addr i ty s ?s'"
  proof (rule transfer_effect [OF inv i R(2) l(2) _ _ b])
    show "mem ?s' = mem (transfer ty (d_ptr D) (byte_of ?blk st) ?data BLOCK_SIZE s)"
      "disks ?s' = disks (transfer ty (d_ptr D) (byte_of ?blk st) ?data BLOCK_SIZE s)"
      by (cases ty; simp add: transfer_def)+
  qed
  ultimately show ?thesis by blast
qed

end
