(* ===== verification/Cache_Spec.thy ===== *)
theory Cache_Spec
  imports Buffer_Proofs
begin

text \<open>
  What the operations of the buffer cache do: each one keeps \<open>cache_inv\<close> and the view, and
  leaves the buffers that are in use alone.
\<close>

section \<open>bwrite\<close>

lemma key_upd:
  assumes "i < length (bufs s)" "bufs s' = (bufs s)[i := b]" "b_dev b = b_dev (bufs s ! i)" "b_blknr b = b_blknr (bufs s ! i)"
  shows "key s' = key s"
proof
  fix j show "key s' j = key s j" using assms by (cases "j = i") (simp_all add: key_def)
qed

lemma placed_upd:
  assumes "placed s" "i < length (bufs s)" "bufs s' = (bufs s)[i := b]" "b_data b = b_data (bufs s ! i)"
    and "b_lock b" "\<not> b_waiter b"
  shows "placed s'"
  using assms by (auto simp: placed_def nth_list_update)

definition undirty :: "buffer_t \<Rightarrow> buffer_t" where
  "undirty b = b\<lparr>b_dirty := False\<rparr>"

lemma undirty_simps [simp]:
  "b_data (undirty b) = b_data b" "b_dev (undirty b) = b_dev b" "b_blknr (undirty b) = b_blknr b"
  "b_lock (undirty b) = b_lock b" "b_waiter (undirty b) = b_waiter b" "b_vaild (undirty b) = b_vaild b"
  "b_count (undirty b) = b_count b" "\<not> b_dirty (undirty b)"
  by (simp_all add: undirty_def)

lemma undirty_same: "\<not> b_dirty b \<Longrightarrow> undirty b = b"
  by (cases b) (simp add: undirty_def)

definition same_view :: "(int \<times> u32) set \<Rightarrow> (int \<times> u32 \<Rightarrow> nat \<times> nat) \<Rightarrow> 'a bcache_scheme \<Rightarrow> 'a bcache_scheme \<Rightarrow> bool" where
  "same_view B addr s s' \<longleftrightarrow> (\<forall>x \<in> B. view addr s' x = view addr s x)"

lemma bwrite_spec:
  assumes inv: "cache_inv R B addr s" and i: "i < length (bufs s)"
  shows "\<exists>s'. bwrite i s = Inr s' \<and> cache_inv R B addr s' \<and> same_view B addr s s' \<and> mem s' = mem s \<and>
    bufs s' = (bufs s)[i := undirty (bufs s ! i)]"
proof (cases "b_dirty (bufs s ! i)")
  case False
  then have "bufs s = (bufs s)[i := undirty (bufs s ! i)]" by (metis (full_types) undirty_same list_update_id)
  with False inv show ?thesis by (auto simp: bwrite_def same_view_def)
next
  case True
  note d = cache_invD [OF inv]
  have ok: "key s i \<in> B" "b_vaild (bufs s ! i)" using d(5) [OF i] True by (simp_all add: buf_ok_def)
  from buf_request_spec [OF d(1,2,3) i ok(1), of REQ_WRITE] obtain s1 where s1: "buf_request i REQ_WRITE s = Inr s1"
    "bufs s1 = bufs s" "disks_ok R B addr s1" "linked R (length (bufs s)) (\<lambda>i. Some (key s i)) (lheap s1)"
    "mem s1 = mem s" "\<forall>x \<in> B. dblock addr s1 x = (if x = key s i then bblock s i else dblock addr s x)"
    by (auto simp: io_effect_def)
  let ?s' = "upd_buf i undirty s1"
  have b: "bufs ?s' = (bufs s)[i := undirty (bufs s ! i)]" "mem ?s' = mem s" "length (bufs ?s') = length (bufs s)"
    using s1(2,5) by simp_all
  have k: "key ?s' = key s" by (rule key_upd [OF i b(1)]) simp_all
  have bb: "bblock ?s' = bblock s" unfolding bblock_def b by (simp add: fun_eq_iff nth_upd_if)
  have db: "dblock addr ?s' = dblock addr s1" by (simp add: dblock_def fun_eq_iff)
  have va: "b_vaild (bufs ?s' ! j) = b_vaild (bufs s ! j)" for j
    unfolding b by (simp add: nth_upd_if)
  have "buf_ok B addr ?s' j" if j: "j < length (bufs s)" for j
    using d(5) [OF j] i j s1(6) inj_onD [OF d(4), of i j] ok b(1)
    unfolding buf_ok_def k bb db va by (auto simp: nth_upd_if)
  moreover have "placed ?s'" using d(2) i by (intro placed_upd [OF d(2) i b(1)]) (simp_all add: placed_def)
  moreover have "disks_ok R B addr ?s'" by (rule disks_ok_dsame [OF s1(3)]) (rule dsame_cong; simp)
  ultimately have inv': "cache_inv R B addr ?s'"
    using s1(4) d(4) unfolding cache_inv_def k b(3) by simp
  have "view addr ?s' x = view addr s x" if x: "x \<in> B" for x
  proof (rule view_cases)
    show "inj_on (key ?s') {..<length (bufs ?s')}" using d(4) unfolding k b(3) .
    show "bblock ?s' j = view addr s x" if "j < length (bufs ?s')" "key ?s' j = x" "b_vaild (bufs ?s' ! j)" for j
      using that view_hit [OF d(4), of j addr] unfolding k bb va b(3) by simp
    assume no: "\<not> b_vaild (bufs ?s' ! j)" if "j < length (bufs ?s')" "key ?s' j = x" for j
    have "x \<noteq> key s i" using no [of i] i ok(2) unfolding k va b(3) by blast
    then have "dblock addr ?s' x = dblock addr s x" using s1(6) x db by simp
    also have "\<dots> = view addr s x" using no unfolding k va b(3) by (intro view_miss [symmetric]) blast
    finally show "dblock addr ?s' x = view addr s x" .
  qed
  then have "same_view B addr s ?s'" by (simp add: same_view_def)
  moreover have "bwrite i s = Inr ?s'" using True s1(1) by (simp add: bwrite_def undirty_def [abs_def])
  ultimately show ?thesis using inv' b by blast
qed

section \<open>Giving a buffer to a block\<close>

text \<open>
  \<open>spare R B addr x i s\<close>: buffer \<open>i\<close> may be given to block \<open>x\<close>: it is new or its contents may
  be dropped, and no other buffer holds the block.
\<close>

definition spare :: "nat set \<Rightarrow> (int \<times> u32) set \<Rightarrow> (int \<times> u32 \<Rightarrow> nat \<times> nat) \<Rightarrow> int \<times> u32 \<Rightarrow> nat \<Rightarrow> 'a bcache_scheme \<Rightarrow> bool" where
  "spare R B addr x i s \<longleftrightarrow> disks_ok R B addr s \<and> placed s \<and> i < length (bufs s) \<and>
     (\<exists>k. linked R (length (bufs s)) ((\<lambda>j. Some (key s j))(i := k)) (lheap s)) \<and>
     inj_on (key s) ({..<length (bufs s)} - {i}) \<and>
     (\<forall>j < length (bufs s). j \<noteq> i \<longrightarrow> buf_ok B addr s j \<and> key s j \<noteq> x)"

definition given :: "int \<times> u32 \<Rightarrow> buffer_t \<Rightarrow> buffer_t" where
  "given x b = b\<lparr>b_count := 1, b_dirty := False, b_vaild := False, b_blknr := snd x, b_dev := fst x\<rparr>"

lemma given_simps [simp]:
  "b_data (given x b) = b_data b" "b_dev (given x b) = fst x" "b_blknr (given x b) = snd x"
  "b_lock (given x b) = b_lock b" "b_waiter (given x b) = b_waiter b" "\<not> b_vaild (given x b)"
  "b_count (given x b) = 1" "\<not> b_dirty (given x b)"
  by (simp_all add: given_def)

lemma find_new_spec:
  assumes sp: "spare R B addr x i s" and x: "x \<in> B"
  shows "\<exists>h. let s' = s\<lparr>bufs := (bufs s)[i := given x (bufs s ! i)], lheap := h\<rparr> in
    find_new i (fst x) (snd x) s = Inr (i, s') \<and> cache_inv R B addr s'"
proof -
  from sp obtain k where s: "disks_ok R B addr s" "placed s" and i: "i < length (bufs s)"
    and K: "linked R (length (bufs s)) ((\<lambda>j. Some (key s j))(i := k)) (lheap s)"
    and inj: "inj_on (key s) ({..<length (bufs s)} - {i})"
    and o: "\<And>j. j < length (bufs s) \<Longrightarrow> j \<noteq> i \<Longrightarrow> buf_ok B addr s j \<and> key s j \<noteq> x"
    by (auto simp: spare_def)
  let ?n = "length (bufs s)"
  let ?s1 = "upd_buf i (given x) s"
  have k1: "key ?s1 j = (if j = i then x else key s j)" for j
    using i by (simp add: key_def nth_upd_if)
  from linked_remove [OF K i] obtain h1 where h1: "two_unlink i (lheap s) = Inr h1"
    "linked R ?n ((\<lambda>j. Some (key s j))(i := None)) h1" by auto
  from linked_insert [OF h1(2) i, of x] obtain h2 where h2: "two_insert x i h1 = Inr h2"
    "linked R ?n ((\<lambda>j. Some (key s j))(i := Some x)) h2" by auto
  have k': "(\<lambda>j. Some (key ?s1 j)) = (\<lambda>j. Some (key s j))(i := Some x)" by (auto simp: k1)
  let ?s' = "s\<lparr>bufs := (bufs s)[i := given x (bufs s ! i)], lheap := h2\<rparr>"
  have s': "bufs ?s' = bufs ?s1" "mem ?s' = mem s" "disks ?s' = disks s" "lheap ?s' = h2" by simp_all
  have kk: "key ?s' = key ?s1" by (rule key_cong) simp
  have "find_new i (fst x) (snd x) s = Inr (i, ?s')"
  proof -
    have r: "buffer_remove i ?s1 = Inr (?s1\<lparr>lheap := h1\<rparr>)"
      using h1(1) by (simp add: buffer_remove_heap on_lists_def)
    have "key (?s1\<lparr>lheap := h1\<rparr>) i = x" using k1 [of i] key_cong [of "?s1\<lparr>lheap := h1\<rparr>" ?s1] by simp
    then have "buffer_insert i (?s1\<lparr>lheap := h1\<rparr>) = Inr (?s1\<lparr>lheap := h2\<rparr>)"
      using h2(1) by (simp add: buffer_insert_heap on_lists_def)
    moreover have "?s1\<lparr>lheap := h2\<rparr> = ?s'" by (simp add: upd_buf_def)
    ultimately show ?thesis using r by (simp add: find_new_def given_def [abs_def])
  qed
  moreover have "cache_inv R B addr ?s'"
    unfolding cache_inv_def
  proof (intro conjI allI impI)
    show "disks_ok R B addr ?s'" by (rule disks_ok_dsame [OF s(1)]) (rule dsame_cong; simp)
    show "placed ?s'" using s(2) i by (intro placed_upd [OF s(2) i, of ?s' "given x (bufs s ! i)"]) (simp_all add: placed_def)
    show "linked R (length (bufs ?s')) (\<lambda>j. Some (key ?s' j)) (lheap ?s')"
      using h2(2) unfolding kk k' by simp
    show "inj_on (key ?s') {..<length (bufs ?s')}"
      unfolding kk using inj o by (auto simp: inj_on_def k1)
    fix j assume j: "j < length (bufs ?s')"
    show "buf_ok B addr ?s' j"
    proof (cases "j = i")
      case True
      then show ?thesis using x i unfolding buf_ok_def kk by (simp add: k1)
    next
      case False
      then have "bufs ?s' ! j = bufs s ! j" "j < ?n" using j by simp_all
      then have "bblock ?s' j = bblock s j" "dblock addr ?s' (key s j) = dblock addr s (key s j)"
        by (simp_all add: bblock_def dblock_def)
      with False o [of j] \<open>bufs ?s' ! j = bufs s ! j\<close> \<open>j < ?n\<close> show ?thesis
        unfolding buf_ok_def kk by (simp add: k1)
    qed
  qed
  ultimately show ?thesis unfolding Let_def by blast
qed

text \<open>The view does not change when a clean buffer is given to a block that was not cached.\<close>

lemma given_view:
  assumes inj: "inj_on (key s) {..<length (bufs s)}" and inj': "inj_on (key s') {..<length (bufs s')}"
    and ms: "mem s' = mem s" "disks s' = disks s" and n: "length (bufs s) \<le> length (bufs s')" "i < length (bufs s')"
    and o: "\<And>j. j < length (bufs s') \<Longrightarrow> j \<noteq> i \<Longrightarrow> j < length (bufs s) \<and> bufs s' ! j = bufs s ! j"
    and x: "key s' i = x" "\<not> b_vaild (bufs s' ! i)" "\<And>j. j < length (bufs s) \<Longrightarrow> key s j \<noteq> x"
    and c: "i < length (bufs s) \<Longrightarrow> view addr s (key s i) = dblock addr s (key s i)"
  shows "view addr s' y = view addr s y"
proof -
  have k: "key s' j = key s j" "bblock s' j = bblock s j" if "j < length (bufs s')" "j \<noteq> i" for j
    using o [OF that] ms by (simp_all add: key_def bblock_def)
  have db: "dblock addr s' y = dblock addr s y" by (simp add: dblock_def ms)
  show ?thesis
  proof (rule view_cases [OF inj'])
    show "bblock s' j = view addr s y" if "j < length (bufs s')" "key s' j = y" "b_vaild (bufs s' ! j)" for j
    proof -
      from that x(2) have ji: "j \<noteq> i" by auto
      with that o [of j] view_hit [OF inj, of j addr] k [of j] show ?thesis by simp
    qed
    assume no: "\<not> b_vaild (bufs s' ! j)" if "j < length (bufs s')" "key s' j = y" for j
    have "view addr s y = dblock addr s y"
    proof (cases "i < length (bufs s) \<and> key s i = y")
      case True
      with c show ?thesis by blast
    next
      case False
      show ?thesis
      proof (rule view_miss)
        fix j assume j: "j < length (bufs s)" "key s j = y"
        with False n have "j \<noteq> i" "j < length (bufs s')" by auto
        with j no [of j] o [of j] k [of j] show "\<not> b_vaild (bufs s ! j)" by simp
      qed
    qed
    with db show "dblock addr s' y = view addr s y" by simp
  qed
qed

lemma linked_cong:
  assumes "\<And>i. i < n \<Longrightarrow> K i = K' i"
  shows "linked R n K h = linked R n K' h"
proof -
  have "on_list K n l = on_list K' n l" for l
  proof -
    have "{i. i < n \<and> K i \<noteq> None} = {i. i < n \<and> K' i \<noteq> None}"
      "{i. i < n \<and> map_option (hash_list \<circ> hash_key) (K i) = Some l} = {i. i < n \<and> map_option (hash_list \<circ> hash_key) (K' i) = Some l}"
      using assms by fastforce+
    then show ?thesis unfolding on_list_def by presburger
  qed
  then show ?thesis unfolding linked_def using assms by auto
qed

section \<open>getblk\<close>

text \<open>
  \<open>got x i s s'\<close>: buffer \<open>i\<close> has been obtained for block \<open>x\<close>. It is the buffer of the block if
  there is one, with its count increased; otherwise it is one that nobody used. The other
  buffers in use are as they were.
\<close>

definition got :: "nat set \<Rightarrow> (int \<times> u32) set \<Rightarrow> (int \<times> u32 \<Rightarrow> nat \<times> nat) \<Rightarrow> int \<times> u32 \<Rightarrow> nat \<Rightarrow> 'a bcache_scheme \<Rightarrow> 'a bcache_scheme \<Rightarrow> bool" where
  "got R B addr x i s s' \<longleftrightarrow> cache_inv R B addr s' \<and> out_same s s' \<and> same_view B addr s s' \<and> i < length (bufs s') \<and> key s' i = x \<and>
     length (bufs s) \<le> length (bufs s') \<and> length (bufs s') \<le> length (bufs s) + 1 \<and> (\<forall>j < length (bufs s). j \<noteq> i \<longrightarrow> b_count (bufs s' ! j) = b_count (bufs s ! j)) \<and>
     (\<forall>j < length (bufs s). b_count (bufs s ! j) \<noteq> 0 \<and> j \<noteq> i \<longrightarrow> bufs s' ! j = bufs s ! j \<and> bblock s' j = bblock s j) \<and>
     (\<forall>j < length (bufs s). key s j = x \<longrightarrow> i = j \<and> b_count (bufs s' ! i) = b_count (bufs s ! i) + 1) \<and>
     ((\<forall>j < length (bufs s). key s j \<noteq> x) \<longrightarrow> b_count (bufs s' ! i) = 1 \<and> (i < length (bufs s) \<longrightarrow> b_count (bufs s ! i) = 0))"

definition room :: "'a bcache_scheme \<Rightarrow> bool" where
  "room s \<longleftrightarrow> fst (get_new_buffer s) \<noteq> None"

definition available :: "'a bcache_scheme \<Rightarrow> int \<times> u32 \<Rightarrow> bool" where
  "available s x \<longleftrightarrow> room s \<or> (\<exists>j < length (bufs s). key s j = x \<or> b_count (bufs s ! j) = 0)"

lemma same_view_trans: "same_view B addr a b \<Longrightarrow> same_view B addr b c \<Longrightarrow> same_view B addr a c"
  by (simp add: same_view_def)

text \<open>Changing only the count of a buffer.\<close>

lemma count_upd:
  assumes inv: "cache_inv R B addr s" and i: "i < length (bufs s)"
    and s': "bufs s' = (bufs s)[i := (bufs s ! i)\<lparr>b_count := c\<rparr>]" "mem s' = mem s" "disks s' = disks s"
      "devices s' = devices s" "parts s' = parts s" "lheap s' = lheap s"
  shows "cache_inv R B addr s'" "same_view B addr s s'" "key s' = key s" "bblock s' = bblock s" "dblock addr s' = dblock addr s"
proof -
  note d = cache_invD [OF inv]
  show k: "key s' = key s" by (rule key_upd [OF i s'(1)]) simp_all
  show bb: "bblock s' = bblock s" unfolding bblock_def s' by (simp add: fun_eq_iff nth_upd_if)
  show db: "dblock addr s' = dblock addr s" by (simp add: dblock_def s' fun_eq_iff)
  have n: "length (bufs s') = length (bufs s)" by (simp add: s')
  have va: "b_vaild (bufs s' ! j) = b_vaild (bufs s ! j)" "b_dirty (bufs s' ! j) = b_dirty (bufs s ! j)" for j
    unfolding s' by (simp_all add: nth_upd_if)
  have "placed s'" using d(2) i by (intro placed_upd [OF d(2) i s'(1)]) (simp_all add: placed_def)
  moreover have "disks_ok R B addr s'" using d(1) s' by (intro disks_ok_dsame [OF d(1)] dsame_cong) simp_all
  ultimately show "cache_inv R B addr s'"
    using d unfolding cache_inv_def buf_ok_def k bb db va n s'(6) by blast
  show "same_view B addr s s'" unfolding same_view_def view_def k bb db va n by simp
qed

lemma got_cached:
  assumes inv: "cache_inv R B addr s" and i: "i < length (bufs s)" "key s i = x"
  shows "got R B addr x i s (upd_buf i (\<lambda>b. b\<lparr>b_count := b_count b + 1\<rparr>) s)"
proof -
  let ?s' = "upd_buf i (\<lambda>b. b\<lparr>b_count := b_count b + 1\<rparr>) s"
  have b: "bufs ?s' = (bufs s)[i := (bufs s ! i)\<lparr>b_count := b_count (bufs s ! i) + 1\<rparr>]" by simp
  note u = count_upd [OF inv i(1) b upd_buf_simps(2,3,4,5,1)]
  have eq: "i = j" if "j < length (bufs s)" "key s j = x" for j
    using cache_invD(4) [OF inv] i that by (auto dest: inj_onD)
  show ?thesis
    unfolding got_def
  proof (intro conjI allI impI)
    show "cache_inv R B addr ?s'" "same_view B addr s ?s'" by (rule u)+
    show "out_same s ?s'" by (simp add: out_same_def)
    show "key ?s' i = x" unfolding u(3) by (rule i(2))
    show "bufs ?s' ! j = bufs s ! j" if "b_count (bufs s ! j) \<noteq> 0 \<and> j \<noteq> i" for j using that by simp
    show "b_count (bufs ?s' ! j) = b_count (bufs s ! j)" if "j \<noteq> i" for j using that by simp
    show "bblock ?s' j = bblock s j" for j unfolding u(4) ..
    show "i = j" if "j < length (bufs s)" "key s j = x" for j using eq that .
  qed (use i in auto)
qed

text \<open>A new buffer.\<close>

definition fresh_buffer :: "nat \<Rightarrow> buffer_t" where
  "fresh_buffer n = \<lparr>b_data = BUFFER_M_END - BLOCK_SIZE * (n + 1), b_blknr = 0, b_dev = EOF, b_dirty = False,
     b_lock = True, b_count = 0, b_vaild = False, b_waiter = False\<rparr>"

lemma fresh_buffer_simps [simp]:
  "b_data (fresh_buffer n) = BUFFER_M_END - BLOCK_SIZE * (n + 1)" "b_lock (fresh_buffer n)" "\<not> b_waiter (fresh_buffer n)"
  by (simp_all add: fresh_buffer_def)

lemma get_new_buffer_Some:
  assumes "get_new_buffer s = (Some i, s1)"
  shows "i = length (bufs s)" "bufs s1 = bufs s @ [fresh_buffer i]"
    "lheap s1 = node_init (node_init (lheap s) (fnode i) (Suc i) 0) (hnode i) (Suc i) 0"
    "mem s1 = mem s" "disks s1 = disks s" "devices s1 = devices s" "parts s1 = parts s"
    "(sizeof_buffer + BLOCK_SIZE) * Suc i \<le> BUFFER_M_END - BUFFER_M_START"
  using assms by (auto simp: get_new_buffer_def Let_def fresh_buffer_def sizeof_buffer_def BLOCK_SIZE_def
    BUFFER_M_END_def BUFFER_M_START_def split: if_splits)

lemma get_new_spare:
  assumes inv: "cache_inv R B addr s" and x: "\<forall>j < length (bufs s). key s j \<noteq> x"
    and new: "get_new_buffer s = (Some i, s1)"
  shows "spare R B addr x i s1"
proof -
  note d = cache_invD [OF inv] and g = get_new_buffer_Some [OF new]
  let ?n = "length (bufs s)"
  have old: "bufs s1 ! j = bufs s ! j" if "j < ?n" for j using that by (simp add: g(2) nth_append)
  have k: "key s1 j = key s j" "bblock s1 j = bblock s j" if "j < ?n" for j
    using old [OF that] by (simp_all add: key_def bblock_def g(4))
  have n: "length (bufs s1) = Suc ?n" by (simp add: g(2))
  have "137 * Suc i \<le> 524288" using g(8) by (simp add: sizeof_buffer_def BLOCK_SIZE_def BUFFER_M_END_def BUFFER_M_START_def)
  then have "Suc i < 4096" by presburger
  then have "Suc ?n < 4096" using g(1) by simp
  from linked_new [OF d(3) this]
  have "linked R (Suc ?n) ((\<lambda>j. Some (key s j))(?n := None)) (lheap s1)" by (simp add: g(1,3))
  moreover have "linked R (Suc ?n) ((\<lambda>j. Some (key s j))(?n := None)) h = linked R (Suc ?n) ((\<lambda>j. Some (key s1 j))(?n := None)) h" for h
    by (rule linked_cong) (use k in \<open>auto simp: less_Suc_eq\<close>)
  ultimately have "linked R (Suc ?n) ((\<lambda>j. Some (key s1 j))(?n := None)) (lheap s1)" by simp
  moreover have "disks_ok R B addr s1" by (rule disks_ok_dsame [OF d(1)]) (rule dsame_cong; simp add: g)
  moreover have "placed s1"
    unfolding placed_def
  proof (intro conjI allI impI)
    show "(sizeof_buffer + BLOCK_SIZE) * length (bufs s1) \<le> BUFFER_M_END - BUFFER_M_START"
      using g(8) by (simp only: n g(1))
    fix j assume "j < length (bufs s1)"
    then have "j < ?n \<or> j = ?n" by (auto simp: n)
    then show "b_data (bufs s1 ! j) = BUFFER_M_END - BLOCK_SIZE * (j + 1)" "b_lock (bufs s1 ! j)" "\<not> b_waiter (bufs s1 ! j)"
      using d(2) old [of j] by (auto simp: placed_def g(1,2))
  qed
  moreover have "{..<Suc ?n} - {?n} = {..<?n}" by auto
  then have "inj_on (key s1) ({..<Suc ?n} - {?n})" using d(4) k by (simp add: inj_on_def)
  moreover have "buf_ok B addr s1 j \<and> key s1 j \<noteq> x" if "j < ?n" for j
    using d(5) [OF that] k [OF that] old [OF that] x that by (simp add: buf_ok_def) (simp add: dblock_def g(5))
  ultimately show ?thesis unfolding spare_def n g(1) by (auto simp: less_Suc_eq)
qed

lemma got_new:
  assumes inv: "cache_inv R B addr s" and x: "\<forall>j < length (bufs s). key s j \<noteq> x" "x \<in> B"
    and new: "get_new_buffer s = (Some i, s1)"
  shows "\<exists>s'. find_new i (fst x) (snd x) s1 = Inr (i, s') \<and> got R B addr x i s s'"
proof -
  note d = cache_invD [OF inv] and g = get_new_buffer_Some [OF new]
  from find_new_spec [OF get_new_spare [OF inv x(1) new] x(2)] obtain h where
    h: "find_new i (fst x) (snd x) s1 = Inr (i, s1\<lparr>bufs := (bufs s1)[i := given x (bufs s1 ! i)], lheap := h\<rparr>)"
      "cache_inv R B addr (s1\<lparr>bufs := (bufs s1)[i := given x (bufs s1 ! i)], lheap := h\<rparr>)"
    by (auto simp: Let_def)
  define s' where "s' = s1\<lparr>bufs := (bufs s1)[i := given x (bufs s1 ! i)], lheap := h\<rparr>"
  have b: "bufs s' = bufs s @ [given x (fresh_buffer i)]" "mem s' = mem s" "disks s' = disks s"
    by (simp_all add: s'_def g nth_append)
  have inv': "cache_inv R B addr s'" using h(2) by (simp add: s'_def)
  have old: "bufs s' ! j = bufs s ! j" if "j < length (bufs s)" for j using that by (simp add: b nth_append)
  have i: "bufs s' ! i = given x (fresh_buffer i)" by (simp add: b g(1) nth_append)
  have "view addr s' y = view addr s y" for y
  proof (rule given_view [OF d(4) cache_invD(4) [OF inv'] b(2,3), where i = i and x = x])
    show "j < length (bufs s) \<and> bufs s' ! j = bufs s ! j" if "j < length (bufs s')" "j \<noteq> i" for j
      using that old by (simp add: b g(1) less_Suc_eq)
  qed (use x(1) i in \<open>auto simp: b(1) g(1) key_def\<close>)
  then have sv: "same_view B addr s s'" by (simp add: same_view_def)
  have "got R B addr x i s s'"
    unfolding got_def
  proof (intro conjI allI impI)
    show "i < length (bufs s')" by (simp add: b g(1))
    show "bufs s' ! j = bufs s ! j" if "j < length (bufs s)" for j by (rule old [OF that])
    show "b_count (bufs s' ! j) = b_count (bufs s ! j)" if "j < length (bufs s)" for j by (simp add: old [OF that])
    show "bblock s' j = bblock s j" if "j < length (bufs s)" for j by (simp add: bblock_def old [OF that] b(2))
    show "key s' i = x" "b_count (bufs s' ! i) = 1" by (simp_all add: key_def i)
  qed (use inv' sv x(1) in \<open>simp_all add: b(1,2) g(1) out_same_def\<close>)
  with h(1) show ?thesis by (auto simp: s'_def)
qed

lemma spare_clean:
  assumes "cache_inv R B addr s" "i < length (bufs s)" "\<forall>j < length (bufs s). key s j \<noteq> x"
  shows "spare R B addr x i s"
proof -
  note d = cache_invD [OF assms(1)]
  have "linked R (length (bufs s)) ((\<lambda>j. Some (key s j))(i := Some (key s i))) (lheap s)"
    using d(3) fun_upd_triv [of "\<lambda>j. Some (key s j)" i] by simp
  moreover have "inj_on (key s) ({..<length (bufs s)} - {i})" using d(4) by (auto intro: inj_on_subset)
  ultimately show ?thesis using d assms(2,3) unfolding spare_def by blast
qed

lemma got_given:
  assumes inv: "cache_inv R B addr s" and x: "\<forall>j < length (bufs s). key s j \<noteq> x" "x \<in> B"
    and i: "i < length (bufs s)" "b_count (bufs s ! i) = 0"
    and s2: "cache_inv R B addr s2" "same_view B addr s s2" "mem s2 = mem s" "bufs s2 = (bufs s)[i := undirty (bufs s ! i)]"
  shows "\<exists>s'. find_new i (fst x) (snd x) s2 = Inr (i, s') \<and> got R B addr x i s s'"
proof -
  have k2: "key s2 = key s" by (rule key_upd [OF i(1) s2(4)]) simp_all
  have n2: "length (bufs s2) = length (bufs s)" by (simp add: s2(4))
  have x2: "\<forall>j < length (bufs s2). key s2 j \<noteq> x" using x(1) unfolding k2 n2 .
  have i2: "i < length (bufs s2)" "\<not> b_dirty (bufs s2 ! i)" using i(1) by (simp_all add: s2(4))
  note d = cache_invD [OF s2(1)]
  from find_new_spec [OF spare_clean [OF s2(1) i2(1) x2] x(2)] obtain h where
    h: "find_new i (fst x) (snd x) s2 = Inr (i, s2\<lparr>bufs := (bufs s2)[i := given x (bufs s2 ! i)], lheap := h\<rparr>)"
      "cache_inv R B addr (s2\<lparr>bufs := (bufs s2)[i := given x (bufs s2 ! i)], lheap := h\<rparr>)"
    by (auto simp: Let_def)
  define s' where "s' = s2\<lparr>bufs := (bufs s2)[i := given x (bufs s2 ! i)], lheap := h\<rparr>"
  have b: "bufs s' = (bufs s2)[i := given x (bufs s2 ! i)]" "mem s' = mem s2" "disks s' = disks s2"
    by (simp_all add: s'_def)
  have inv': "cache_inv R B addr s'" using h(2) by (simp add: s'_def)
  have old: "bufs s' ! j = bufs s2 ! j" "bufs s2 ! j = bufs s ! j" if "j \<noteq> i" for j
    using that unfolding b s2(4) by (simp_all add: nth_upd_if)
  have bi: "bufs s' ! i = given x (bufs s2 ! i)" using i2 by (simp add: b)
  have "view addr s' y = view addr s2 y" for y
  proof (rule given_view [OF d(4) cache_invD(4) [OF inv'] b(2,3), where i = i and x = x])
    show "j < length (bufs s2) \<and> bufs s' ! j = bufs s2 ! j" if "j < length (bufs s')" "j \<noteq> i" for j
      using that old by (simp add: b)
    show "view addr s2 (key s2 i) = dblock addr s2 (key s2 i)" by (rule view_clean [OF s2(1) i2])
  qed (use x2 i2 bi in \<open>auto simp: b(1) key_def\<close>)
  then have sv: "same_view B addr s s'" using s2(2) by (simp add: same_view_def)
  have "got R B addr x i s s'"
    unfolding got_def
  proof (intro conjI allI impI)
    show "bufs s' ! j = bufs s ! j" if "b_count (bufs s ! j) \<noteq> 0 \<and> j \<noteq> i" for j using old that by metis
    show "b_count (bufs s' ! j) = b_count (bufs s ! j)" if "j \<noteq> i" for j using old [OF that] by simp
    show "bblock s' j = bblock s j" if "b_count (bufs s ! j) \<noteq> 0 \<and> j \<noteq> i" for j
      using old [of j] that by (simp add: bblock_def b(2) s2(3))
    show "key s' i = x" "b_count (bufs s' ! i) = 1" by (simp_all add: key_def bi)
  qed (use inv' sv x(1) i i2(1) s2(3) in \<open>simp_all add: b(1,2) n2 out_same_def\<close>)
  with h(1) show ?thesis by (auto simp: s'_def)
qed

text \<open>The search of \<^verbatim>\<open>free_list\<close> finds a buffer nobody uses if there is one.\<close>

lemma free_search:
  assumes inv: "cache_inv R B addr s"
  shows "\<exists>r c. rbind (get_node (lheap s) (End free_list)) (\<lambda>e. run (free_loop s None (n_next e))) = Inr (r, c) \<and>
    (case r of None \<Rightarrow> \<forall>j < length (bufs s). b_count (bufs s ! j) \<noteq> 0
     | Some i \<Rightarrow> i < length (bufs s) \<and> b_count (bufs s ! i) = 0 \<and> (c \<longrightarrow> \<not> b_dirty (bufs s ! i)))"
proof -
  note d = cache_invD [OF inv]
  let ?n = "length (bufs s)" and ?K = "\<lambda>i. Some (key s i)"
  from linked_lists [OF d(3)] obtain L where L: "lists_ok (cdom R) (lheap s) L"
    "\<forall>l \<in> cdom R. set (L l) = on_list ?K ?n l" .
  note r = lists_ok_D [OF L(1) in_cdom(1)]
  have s: "set (L free_list) = on_list ?K ?n free_list" using L(2) in_cdom(1) by blast
  note o = linked_owned [OF d(3) s]
  from r have "chain (nx (lheap s)) (pv (lheap s)) (End free_list) (L free_list) (End free_list)" by (simp add: lrepr_def)
  from free_loop_chain [OF this o, of None] obtain q c where
    q: "free_loop s None (nx (lheap s) (End free_list)) = Some (Inr (q, c))"
    "case q of None \<Rightarrow> None = (None :: nat option) \<and> (\<forall>x \<in> set (L free_list). \<not> candidate s (x div 2))
      | Some i \<Rightarrow> None = Some i \<or> candidate s i \<and> (\<exists>x \<in> set (L free_list). i = x div 2)"
    "c \<longrightarrow> (\<exists>i. q = Some i \<and> SCORE (bufs s ! i) = 0)" by blast
  have "rbind (get_node (lheap s) (End free_list)) (\<lambda>e. run (free_loop s None (n_next e))) = Inr (q, c)"
    using q(1) lrepr_get_end [OF r] by auto
  moreover have "case q of None \<Rightarrow> \<forall>j < ?n. b_count (bufs s ! j) \<noteq> 0
     | Some i \<Rightarrow> i < ?n \<and> b_count (bufs s ! i) = 0 \<and> (c \<longrightarrow> \<not> b_dirty (bufs s ! i))"
  proof (cases q)
    case None
    have "\<not> candidate s j" if "j < ?n" for j
    proof -
      have "fnode j \<in> set (L free_list)" using s that by simp
      with q(2) None show ?thesis by (force simp: fnode_def)
    qed
    with None d(2) show ?thesis by (auto simp: candidate_def placed_def)
  next
    case (Some i)
    with q(2,3) o show ?thesis by (auto simp: candidate_def owned_def SCORE_def split: if_splits)
  qed
  ultimately show ?thesis by blast
qed

lemma getblk_one_round: "getblk_round dev blk s = Inr (Inr r) \<Longrightarrow> getblk dev blk s = Inr r"
  by (simp add: getblk_def getblk_loop.simps)

lemma getblk_spec:
  assumes inv: "cache_inv R B addr s" and x: "x \<in> B" and av: "available s x"
  shows "\<exists>i s'. getblk (fst x) (snd x) s = Inr (i, s') \<and> got R B addr x i s s'"
proof -
  note d = cache_invD [OF inv]
  from find_from_hash_table_spec [OF d(3), of "fst x" "snd x"] obtain r where
    r: "find_from_hash_table (fst x) (snd x) s = Inr r"
      "case r of None \<Rightarrow> \<forall>i < length (bufs s). key s i \<noteq> x | Some i \<Rightarrow> i < length (bufs s) \<and> key s i = x"
    by (auto split: option.splits)
  show ?thesis
  proof (cases r)
    case (Some i)
    with r have "getblk_round (fst x) (snd x) s = Inr (Inr (i, upd_buf i (\<lambda>b. b\<lparr>b_count := b_count b + 1\<rparr>) s))"
      by (simp add: getblk_round_def get_from_hash_table_def)
    from getblk_one_round [OF this] got_cached [OF inv, of i x] r(2) Some show ?thesis by auto
  next
    case None
    with r have no: "\<forall>i < length (bufs s). key s i \<noteq> x" by simp
    obtain bf s1 where new: "get_new_buffer s = (bf, s1)" by (cases "get_new_buffer s")
    show ?thesis
    proof (cases bf)
      case (Some i)
      from got_new [OF inv no x new [unfolded Some]] obtain s' where
        s': "find_new i (fst x) (snd x) s1 = Inr (i, s')" "got R B addr x i s s'" by blast
      have "getblk_round (fst x) (snd x) s = Inr (Inr (i, s'))"
        using r(1) None new Some s'(1) by (simp add: getblk_round_def get_from_hash_table_def)
      from getblk_one_round [OF this] s'(2) show ?thesis by blast
    next
      case bfN: None
      then have s1: "s1 = s" using new by (auto simp: get_new_buffer_def Let_def split: if_splits)
      from free_search [OF inv] obtain q c where
        q: "rbind (get_node (lheap s) (End free_list)) (\<lambda>e. run (free_loop s None (n_next e))) = Inr (q, c)"
        "case q of None \<Rightarrow> \<forall>j < length (bufs s). b_count (bufs s ! j) \<noteq> 0
         | Some i \<Rightarrow> i < length (bufs s) \<and> b_count (bufs s ! i) = 0 \<and> (c \<longrightarrow> \<not> b_dirty (bufs s ! i))" by blast
      from av no new bfN have "\<exists>j < length (bufs s). b_count (bufs s ! j) = 0"
        by (auto simp: available_def room_def)
      with q(2) obtain i where i: "q = Some i" "i < length (bufs s)" "b_count (bufs s ! i) = 0" "c \<longrightarrow> \<not> b_dirty (bufs s ! i)"
        by (cases q) auto
      from q(1) obtain e where e: "get_node (lheap s) (End free_list) = Inr e" "run (free_loop s None (n_next e)) = Inr (Some i, c)"
        using i(1) by auto
      have lock: "b_lock (bufs s ! i)" using d(2) i(2) by (simp add: placed_def)
      show ?thesis
      proof (cases c)
        case True
        then have "bufs s = (bufs s)[i := undirty (bufs s ! i)]" using i(4) by (metis undirty_same list_update_id)
        from got_given [OF inv no x i(2,3) inv _ refl this] obtain s' where
          s': "find_new i (fst x) (snd x) s = Inr (i, s')" "got R B addr x i s s'" by (auto simp: same_view_def)
        have "getblk_round (fst x) (snd x) s = Inr (Inr (i, s'))"
          using r(1) None new bfN s1 e True s'(1) by (simp add: getblk_round_def get_from_hash_table_def)
        from getblk_one_round [OF this] s'(2) show ?thesis by blast
      next
        case False
        from bwrite_spec [OF inv i(2)] obtain s2 where s2: "bwrite i s = Inr s2" "cache_inv R B addr s2"
          "same_view B addr s s2" "mem s2 = mem s" "bufs s2 = (bufs s)[i := undirty (bufs s ! i)]" by blast
        have k2: "key s2 = key s" by (rule key_upd [OF i(2) s2(5)]) simp_all
        have n2: "length (bufs s2) = length (bufs s)" by (simp add: s2(5))
        from find_from_hash_table_spec [OF cache_invD(3) [OF s2(2)], of "fst x" "snd x"] no
        have r2: "find_from_hash_table (fst x) (snd x) s2 = Inr None"
          unfolding k2 n2 by (auto split: option.splits)
        have c2: "b_count (bufs s2 ! i) = 0" using i(2,3) by (simp add: s2(5))
        from got_given [OF inv no x i(2,3) s2(2-5)] obtain s' where
          s': "find_new i (fst x) (snd x) s2 = Inr (i, s')" "got R B addr x i s s'" by blast
        have "getblk_round (fst x) (snd x) s = Inr (Inr (i, s'))"
          using r(1) None new bfN s1 e False lock s2(1) c2 r2 s'(1)
          by (simp add: getblk_round_def get_from_hash_table_def)
        from getblk_one_round [OF this] s'(2) show ?thesis by blast
      qed
    qed
  qed
qed

end
