(* ===== verification/Cache_Theorems.thy ===== *)
theory Cache_Theorems
  imports Cache_Spec
begin

text \<open>
  The properties of the buffer cache: what is read is what was written, whatever was read
  and evicted in between; released blocks are on disk; \<^verbatim>\<open>getblk\<close> returns exactly when a
  buffer can be had.
\<close>

section \<open>bread and brelse\<close>

lemma bread_spec:
  assumes inv: "cache_inv R B addr s" and x: "x \<in> B" and av: "available s x"
  shows "\<exists>i s'. bread (fst x) (snd x) s = Inr (i, s') \<and> got R B addr x i s s' \<and> b_vaild (bufs s' ! i) \<and>
    bblock s' i = view addr s x"
proof -
  from getblk_spec [OF inv x av] obtain i s1 where s1: "getblk (fst x) (snd x) s = Inr (i, s1)" "got R B addr x i s s1" by blast
  from s1(2) have inv1: "cache_inv R B addr s1" and sv1: "same_view B addr s s1" and i: "i < length (bufs s1)" "key s1 i = x"
    by (simp_all add: got_def)
  note d = cache_invD [OF inv1]
  show ?thesis
  proof (cases "b_vaild (bufs s1 ! i)")
    case True
    then have "bread (fst x) (snd x) s = Inr (i, s1)" using s1(1) by (simp add: bread_def)
    moreover have "bblock s1 i = view addr s x"
      using view_hit [OF d(4) i(1) True, of addr] sv1 x i(2) by (simp add: same_view_def)
    ultimately show ?thesis using s1(2) True by blast
  next
    case False
    from buf_request_spec [OF d(1,2,3) i(1), of REQ_READ] i x obtain s2 where s2: "buf_request i REQ_READ s1 = Inr s2"
      "bufs s2 = bufs s1" "disks_ok R B addr s2" "linked R (length (bufs s1)) (\<lambda>i. Some (key s1 i)) (lheap s2)"
      "disks s2 = disks s1" "bblock s2 i = dblock addr s1 x" "\<forall>j < length (bufs s1). j \<noteq> i \<longrightarrow> bblock s2 j = bblock s1 j"
      "out_same s1 s2"
      by (auto simp: io_effect_def)
    let ?b = "(bufs s1 ! i)\<lparr>b_vaild := True, b_dirty := False\<rparr>"
    let ?s' = "upd_buf i (\<lambda>b. b\<lparr>b_vaild := True, b_dirty := False\<rparr>) s2"
    have b: "bufs ?s' = (bufs s1)[i := ?b]" "length (bufs ?s') = length (bufs s1)" using s2(2) by simp_all
    have k: "key ?s' = key s1" by (rule key_upd [OF i(1) b(1)]) simp_all
    have da: "b_data (bufs ?s' ! j) = b_data (bufs s1 ! j)" for j unfolding b by (simp add: nth_upd_if)
    have bb: "bblock ?s' = bblock s2" using s2(2) by (simp add: bblock_def da fun_eq_iff del: upd_buf_simps(6))
    have db: "dblock addr ?s' = dblock addr s1" by (simp add: dblock_def fun_eq_iff s2(5))
    have o: "bufs ?s' ! j = bufs s1 ! j" if "j \<noteq> i" for j using that unfolding b by simp
    have bi: "bufs ?s' ! i = ?b" using i(1) unfolding b by simp
    have ok: "buf_ok B addr ?s' j" if j: "j < length (bufs s1)" for j
    proof (cases "j = i")
      case True
      show ?thesis unfolding buf_ok_def k bb db True bi using s2(6) x i(2) by simp
    next
      case False
      with d(5) [OF j] s2(7) j show ?thesis unfolding buf_ok_def k bb db o [OF False] by simp
    qed
    have "placed ?s'" using d(2) i(1) by (intro placed_upd [OF d(2) i(1) b(1)]) (simp_all add: placed_def)
    moreover have "disks_ok R B addr ?s'" by (rule disks_ok_dsame [OF s2(3)]) (rule dsame_cong; simp)
    ultimately have inv': "cache_inv R B addr ?s'"
      using s2(4) d(4) ok unfolding cache_inv_def k b(2) by simp
    have vx: "view addr s1 x = dblock addr s1 x"
      using d(4) i False by (intro view_miss) (auto dest: inj_onD)
    have "view addr ?s' y = view addr s1 y" for y
    proof (rule view_cases)
      show "inj_on (key ?s') {..<length (bufs ?s')}" using d(4) unfolding k b(2) .
      show "bblock ?s' j = view addr s1 y" if "j < length (bufs ?s')" "key ?s' j = y" "b_vaild (bufs ?s' ! j)" for j
      proof (cases "j = i")
        case True
        with that vx s2(6) i(2) show ?thesis unfolding k bb by simp
      next
        case False
        with that view_hit [OF d(4), of j addr] s2(7) show ?thesis unfolding k bb b(2) o [OF False] by simp
      qed
      assume no: "\<not> b_vaild (bufs ?s' ! j)" if "j < length (bufs ?s')" "key ?s' j = y" for j
      have "\<not> b_vaild (bufs s1 ! j)" if "j < length (bufs s1)" "key s1 j = y" for j
        using no [of j] that o [of j] False unfolding k b(2) by (cases "j = i") auto
      then show "dblock addr ?s' y = view addr s1 y" unfolding db by (rule view_miss [symmetric])
    qed
    then have sv: "same_view B addr s ?s'" using sv1 by (simp add: same_view_def)
    have "got R B addr x i s ?s'"
      unfolding got_def
    proof (intro conjI allI impI)
      show "i < length (bufs ?s')" "key ?s' i = x" using i unfolding k b(2) by simp_all
      show "length (bufs s) \<le> length (bufs ?s')" "length (bufs ?s') \<le> length (bufs s) + 1"
        using s1(2) unfolding b(2) got_def by blast+
      fix j assume j: "j < length (bufs s)"
      show "b_count (bufs ?s' ! j) = b_count (bufs s ! j)" if "j \<noteq> i"
        using s1(2) j that unfolding o [OF that] got_def by blast
      show "bufs ?s' ! j = bufs s ! j" if "b_count (bufs s ! j) \<noteq> 0 \<and> j \<noteq> i"
        using s1(2) j that o [of j] unfolding got_def by simp
      show "bblock ?s' j = bblock s j" if "b_count (bufs s ! j) \<noteq> 0 \<and> j \<noteq> i"
        using s1(2) j that s2(7) unfolding bb got_def by simp
      show "i = j" if "key s j = x" using s1(2) j that unfolding got_def by blast
      show "b_count (bufs ?s' ! i) = b_count (bufs s ! i) + 1" if "key s j = x"
      proof -
        have "b_count (bufs s1 ! i) = b_count (bufs s ! i) + 1" using s1(2) j that unfolding got_def by blast
        then show ?thesis unfolding bi by simp
      qed
    next
      assume "\<forall>j < length (bufs s). key s j \<noteq> x"
      then have "b_count (bufs s1 ! i) = 1 \<and> (i < length (bufs s) \<longrightarrow> b_count (bufs s ! i) = 0)"
        using s1(2) unfolding got_def by blast
      then show "b_count (bufs ?s' ! i) = 1" "i < length (bufs s) \<Longrightarrow> b_count (bufs s ! i) = 0" using bi by simp_all
    next
      show "out_same s ?s'" using s1(2) s2(8) unfolding got_def by (simp add: out_same_def)
    qed (rule inv' sv)+
    moreover have "bread (fst x) (snd x) s = Inr (i, ?s')"
      using s1(1) False s2(1) by (simp add: bread_def)
    moreover have "bblock ?s' i = view addr s x"
      using s2(6) vx sv1 x unfolding bb by (simp add: same_view_def)
    ultimately show ?thesis using bi by (intro exI [of _ i] exI [of _ ?s']) simp
  qed
qed

definition released :: "buffer_t \<Rightarrow> buffer_t" where
  "released b = (let b = b\<lparr>b_count := b_count b - 1\<rparr> in if b_count b \<noteq> 0 then b else undirty b)"

lemma brelse_spec:
  assumes inv: "cache_inv R B addr s" and i: "i < length (bufs s)"
  shows "\<exists>s'. brelse (Some i) s = Inr s' \<and> cache_inv R B addr s' \<and> same_view B addr s s' \<and> mem s' = mem s \<and>
    bufs s' = (bufs s)[i := released (bufs s ! i)]"
proof -
  let ?s1 = "upd_buf i (\<lambda>b. b\<lparr>b_count := b_count b - 1\<rparr>) s" and ?b = "(bufs s ! i)\<lparr>b_count := b_count (bufs s ! i) - 1\<rparr>"
  have b1: "bufs ?s1 = (bufs s)[i := ?b]" by simp
  note u = count_upd [OF inv i b1 upd_buf_simps(2,3,4,5,1)]
  show ?thesis
  proof (cases "b_count ?b = 0")
    case False
    then have "brelse (Some i) s = Inr ?s1" using i by (simp add: brelse_def Let_def)
    moreover have "bufs ?s1 = (bufs s)[i := released (bufs s ! i)]" using False by (simp add: released_def)
    ultimately show ?thesis using u(1,2) by (intro exI [of _ ?s1]) simp
  next
    case True
    have i1: "i < length (bufs ?s1)" using i by simp
    from bwrite_spec [OF u(1) i1] obtain s2 where s2: "bwrite i ?s1 = Inr s2" "cache_inv R B addr s2"
      "same_view B addr ?s1 s2" "mem s2 = mem ?s1" "bufs s2 = (bufs ?s1)[i := undirty (bufs ?s1 ! i)]" by blast
    from linked_lists [OF cache_invD(3) [OF s2(2)]] obtain L where L: "lists_ok (cdom R) (lheap s2) L"
      "\<forall>l \<in> cdom R. set (L l) = on_list (\<lambda>i. Some (key s2 i)) (length (bufs s2)) l" .
    have "L buf_wait_list = []" using L(2) in_cdom(2) by (metis on_list_simps(3) set_empty)
    with lists_ok_D [OF L(1) in_cdom(2)] have "list_isempty (lheap s2) buf_wait_list = Inr True"
      by (simp add: lrepr_number_0)
    then have "brelse (Some i) s = Inr s2" using i True s2(1) by (simp add: brelse_def Let_def)
    moreover have "bufs s2 = (bufs s)[i := released (bufs s ! i)]"
      using i True by (simp add: s2(5) released_def)
    ultimately show ?thesis using s2 u(2) by (intro exI [of _ s2]) (simp add: same_view_def)
  qed
qed

section \<open>sync\<close>

lemma sync_list:
  assumes "cache_inv R B addr s" "\<forall>i \<in> set is. i < length (bufs s)"
  shows "\<exists>s'. for_each bwrite is s = Inr s' \<and> cache_inv R B addr s' \<and> same_view B addr s s' \<and> mem s' = mem s \<and>
    length (bufs s') = length (bufs s) \<and>
    (\<forall>j < length (bufs s). bufs s' ! j = (if j \<in> set is then undirty (bufs s ! j) else bufs s ! j))"
  using assms
proof (induction "is" arbitrary: s)
  case Nil
  then show ?case by (simp add: same_view_def)
next
  case (Cons i "is")
  from bwrite_spec [OF Cons.prems(1), of i] Cons.prems(2) obtain s1 where s1: "bwrite i s = Inr s1" "cache_inv R B addr s1"
    "same_view B addr s s1" "mem s1 = mem s" "bufs s1 = (bufs s)[i := undirty (bufs s ! i)]" by auto
  have n: "length (bufs s1) = length (bufs s)" by (simp add: s1(5))
  from Cons.IH [OF s1(2)] Cons.prems(2) n obtain s' where s': "for_each bwrite is s1 = Inr s'" "cache_inv R B addr s'"
    "same_view B addr s1 s'" "mem s' = mem s1" "length (bufs s') = length (bufs s1)"
    "\<forall>j < length (bufs s1). bufs s' ! j = (if j \<in> set is then undirty (bufs s1 ! j) else bufs s1 ! j)" by auto
  have "undirty (undirty b) = undirty b" for b by (simp add: undirty_def)
  then have "\<forall>j < length (bufs s). bufs s' ! j = (if j \<in> set (i # is) then undirty (bufs s ! j) else bufs s ! j)"
    using s'(6) n by (simp add: s1(5) nth_upd_if)
  with s1 s' n same_view_trans [OF s1(3) s'(3)] show ?case by auto
qed

lemma sync_dev_spec:
  assumes inv: "cache_inv R B addr s"
  shows "\<exists>s'. sync_dev dev s = Inr s' \<and> cache_inv R B addr s' \<and> mem s' = mem s \<and>
    (\<forall>x \<in> B. view addr s' x = view addr s x \<and> dblock addr s' x = view addr s x)"
proof -
  from sync_list [OF inv, of "[0..<length (bufs s)]"] obtain s' where s': "sync_dev dev s = Inr s'" "cache_inv R B addr s'"
    "same_view B addr s s'" "mem s' = mem s" "length (bufs s') = length (bufs s)"
    "\<forall>j < length (bufs s). bufs s' ! j = undirty (bufs s ! j)" by (auto simp: sync_dev_def)
  have "dblock addr s' x = view addr s' x" for x
  proof (cases "\<exists>i < length (bufs s'). key s' i = x")
    case True
    then obtain i where i: "i < length (bufs s')" "key s' i = x" by blast
    from view_clean [OF s'(2) i(1)] s'(5,6) i show ?thesis by simp
  next
    case False
    then show ?thesis using view_miss [of s' x addr] by auto
  qed
  with s' show ?thesis by (auto simp: same_view_def)
qed

section \<open>Initialisation\<close>

lemma foldl_list_init:
  assumes "distinct ls"
  shows "\<lbrakk>\<And>l n. l \<in> set ls \<Longrightarrow> ct h (Nd n) \<noteq> Some l\<rbrakk> \<Longrightarrow> l \<in> set ls \<Longrightarrow> lrepr (foldl list_init h ls) l []"
    and "lrepr h m xs \<Longrightarrow> m \<notin> set ls \<Longrightarrow> lrepr (foldl list_init h ls) m xs"
    and "ct (foldl list_init h ls) (Nd n) = ct h (Nd n)"
proof -
  have ct: "ct (foldl list_init h ls) (Nd n) = ct h (Nd n)" for n
    by (induction ls arbitrary: h) simp_all
  have other: "lrepr h m xs \<Longrightarrow> m \<notin> set ls \<Longrightarrow> lrepr (foldl list_init h ls) m xs" for h ls m xs
    by (induction ls arbitrary: h) (simp_all add: list_init_other)
  show "ct (foldl list_init h ls) (Nd n) = ct h (Nd n)" by (rule ct)
  show "lrepr h m xs \<Longrightarrow> m \<notin> set ls \<Longrightarrow> lrepr (foldl list_init h ls) m xs" by (rule other)
  show "\<lbrakk>\<And>l n. l \<in> set ls \<Longrightarrow> ct h (Nd n) \<noteq> Some l\<rbrakk> \<Longrightarrow> l \<in> set ls \<Longrightarrow> lrepr (foldl list_init h ls) l []"
    using assms
  proof (induction ls arbitrary: h)
    case (Cons a ls)
    show ?case
    proof (cases "l = a")
      case True
      have "lrepr (list_init h a) a []" using Cons.prems(1) by (intro list_init_repr) auto
      with True Cons.prems(3) show ?thesis by (simp add: other)
    next
      case False
      with Cons.prems show ?thesis by (auto intro!: Cons.IH)
    qed
  qed simp
qed

definition cache_lists :: "nat list" where
  "cache_lists = [buf_wait_list, free_list] @ map hash_list [0..<HASH_CNT]"

lemma buffer_init_inv:
  assumes ok: "disks_ok R B addr s" and R: "other_lists R" "\<forall>l \<in> R. lrepr (lheap s) l []"
    and no: "\<And>l n. l \<in> set cache_lists \<Longrightarrow> ct (lheap s) (Nd n) \<noteq> Some l"
  shows "cache_inv R B addr (buffer_init s)"
proof -
  let ?s = "buffer_init s"
  have h: "lheap ?s = foldl list_init (lheap s) cache_lists" and b: "bufs ?s = []"
    by (simp_all add: buffer_init_def cache_lists_def foldl_map)
  have dist: "distinct cache_lists"
    by (simp add: cache_lists_def distinct_map inj_on_def) auto
  have "lrepr (lheap ?s) l []" if "l \<in> cdom R" for l
  proof (cases "l \<in> set cache_lists")
    case True
    with foldl_list_init(1) [OF dist no] show ?thesis unfolding h by blast
  next
    case False
    with that have "l \<in> R" by (auto simp: cache_lists_def cdom_def)
    with R(2) False foldl_list_init(2) [OF dist] show ?thesis unfolding h by blast
  qed
  then have "lists_ok (cdom R) (lheap ?s) (\<lambda>_. [])" by (simp add: lists_ok_def)
  moreover have "on_list K 0 l = {}" for K l by (auto simp: on_list_def)
  ultimately have "linked R 0 K (lheap ?s)" for K
    unfolding linked_def using R(1) by (intro conjI exI [of _ "\<lambda>_. []"]) auto
  moreover have "disks_ok R B addr ?s" by (rule disks_ok_dsame [OF ok]) (rule dsame_cong; simp add: buffer_init_def)
  moreover have "placed ?s" by (simp add: placed_def b)
  ultimately show ?thesis by (simp add: cache_inv_def b)
qed

section \<open>getblk waits only when it must\<close>

lemma getblk_waits:
  assumes inv: "cache_inv R B addr s" and av: "\<not> available s x"
  shows "getblk (fst x) (snd x) s = Inl Hang"
proof -
  note d = cache_invD [OF inv]
  have no: "\<forall>j < length (bufs s). key s j \<noteq> x" and busy: "\<forall>j < length (bufs s). b_count (bufs s ! j) \<noteq> 0"
    and full: "fst (get_new_buffer s) = None"
    using av by (auto simp: available_def room_def)
  from find_from_hash_table_spec [OF d(3), of "fst x" "snd x"] no
  have r: "find_from_hash_table (fst x) (snd x) s = Inr None" by (auto split: option.splits)
  have s1: "get_new_buffer s = (None, s)" using full by (auto simp: get_new_buffer_def Let_def split: if_splits)
  from free_search [OF inv] obtain q c where
    q: "rbind (get_node (lheap s) (End free_list)) (\<lambda>e. run (free_loop s None (n_next e))) = Inr (q, c)"
    "case q of None \<Rightarrow> \<forall>j < length (bufs s). b_count (bufs s ! j) \<noteq> 0
     | Some i \<Rightarrow> i < length (bufs s) \<and> b_count (bufs s ! i) = 0 \<and> (c \<longrightarrow> \<not> b_dirty (bufs s ! i))" by blast
  with busy have "q = None" by (cases q) auto
  with q(1) obtain e where e: "get_node (lheap s) (End free_list) = Inr e" "run (free_loop s None (n_next e)) = Inr (None, c)"
    by auto
  from r s1 e have "getblk_round (fst x) (snd x) s = Inl Hang"
    by (simp add: getblk_round_def get_from_hash_table_def)
  then show ?thesis by (simp add: getblk_def getblk_loop.simps)
qed

section \<open>A disk with one partition\<close>

text \<open>A state for the witnesses: disk device 1, partition device 2 from sector 64.\<close>

definition ex_disk :: device_t where
  "ex_disk = \<lparr>d_name = [], d_type = DEV_BLOCK, d_subtype = DEV_SATA_DISK, d_dev = 1, d_parent = 0,
     do_request_flag = False, req_direct = False, d_ptr = 0, request_list = Some 100, d_ioctl = SataFn,
     d_read = SataFn, d_write = SataFn\<rparr>"

definition ex_part :: device_t where
  "ex_part = \<lparr>d_name = [], d_type = DEV_BLOCK, d_subtype = DEV_DISK_PART, d_dev = 2, d_parent = 1,
     do_request_flag = False, req_direct = False, d_ptr = 0, request_list = None, d_ioctl = PartFn,
     d_read = PartFn, d_write = PartFn\<rparr>"

definition ex_sys :: "(nat \<Rightarrow> u8) \<Rightarrow> bcache" where
  "ex_sys img = buffer_init \<lparr>mem = (\<lambda>_. 0), disks = [\<lparr>dk_bytes = img, dk_max_lba = 10000, dk_lba48 = False, dk_ok = True\<rparr>],
     devices = [null_device 0, ex_disk, ex_part], parts = [\<lparr>part_name = [], part_disk = 1, part_system = 0,
       part_start = 64, part_count = 1000\<rparr>], lheap = list_init empty_heap 100, bufs = []\<rparr>"

definition ex_blocks :: "(int \<times> u32) set" where
  "ex_blocks = {x. fst x = 2 \<and> uint (snd x) < 8}"

definition ex_addr :: "int \<times> u32 \<Rightarrow> nat \<times> nat" where
  "ex_addr x = (0, byte_of (snd x) 64)"

lemma ex_fields: "bufs (ex_sys img) = []" "disks (ex_sys img) = [\<lparr>dk_bytes = img, dk_max_lba = 10000, dk_lba48 = False, dk_ok = True\<rparr>]"
  by (simp_all add: ex_sys_def buffer_init_def)

text \<open>The same devices in any state that extends the cache.\<close>

lemma ex_base_inv:
  assumes s: "disks s = [\<lparr>dk_bytes = img, dk_max_lba = 10000, dk_lba48 = False, dk_ok = True\<rparr>]" "devices s = [null_device 0, ex_disk, ex_part]"
    "parts s = [\<lparr>part_name = [], part_disk = 1, part_system = 0, part_start = 64, part_count = 1000\<rparr>]"
    "lheap s = list_init empty_heap 100"
  shows "cache_inv {100} ex_blocks ex_addr (buffer_init s)"
proof (rule buffer_init_inv)
  have r: "ready {100} s 2 b ex_disk 100 64" if "uint b < 8" for b
    using that by (auto simp: s ready_def device_ioctl_def device_get_def DEVICE_NR_def ex_disk_def ex_part_def part_ioctl_def)
  have "ready {100} s (fst x) (snd x) ex_disk 100 64 \<and> ex_addr x = (d_ptr ex_disk, byte_of (snd x) 64)"
    if "x \<in> ex_blocks" for x
    using that r [of "snd x"] by (auto simp: ex_blocks_def ex_addr_def) (simp_all add: ex_disk_def)
  moreover have "snd (ex_addr x) + BLOCK_SIZE \<le> snd (ex_addr y) \<or> snd (ex_addr y) + BLOCK_SIZE \<le> snd (ex_addr x)"
    if "x \<in> ex_blocks" "y \<in> ex_blocks" "x \<noteq> y" for x y
  proof -
    have b: "byte_of c 64 = (2 * unat c + 64) * 512" for c
      unfolding byte_of_def SECTOR_SIZE_def by (simp add: nat_add_distrib nat_mult_distrib)
    have "unat (snd x) \<noteq> unat (snd y)" using that by (cases x, cases y) (auto simp: ex_blocks_def dest: unsigned_word_eqI)
    moreover have "(2 * m + 64) * 512 + 1024 \<le> (2 * n + 64) * 512 \<or> (2 * n + 64) * 512 + 1024 \<le> (2 * m + 64) * 512"
      if "m \<noteq> n" for m n :: nat using that by (cases m n rule: linorder_cases) auto
    ultimately show ?thesis unfolding ex_addr_def snd_conv b BLOCK_SIZE_def by blast
  qed
  ultimately show "disks_ok {100} ex_blocks ex_addr s" unfolding disks_ok_def by blast
  show "other_lists {100}"
    by (auto simp: other_lists_def buf_wait_list_def free_list_def hash_list_def HASH_CNT_def)
  show "\<forall>l \<in> {100}. lrepr (lheap s) l []" by (simp add: s list_init_repr)
  show "ct (lheap s) (Nd n) \<noteq> Some l" for l n by (simp add: s)
qed

lemma ex_inv: "cache_inv {100} ex_blocks ex_addr (ex_sys img)"
  unfolding ex_sys_def by (rule ex_base_inv) simp_all

lemma ex_room: "available (ex_sys img) x"
  by (simp add: available_def room_def get_new_buffer_def ex_fields BUFFER_M_START_def BUFFER_M_END_def
      sizeof_buffer_def BLOCK_SIZE_def)

section \<open>Properties\<close>

text \<open>
  C7: \<^verbatim>\<open>bread\<close> returns a buffer of the block whose bytes are the contents of the block as the
  cache presents it. It keeps the invariant, changes the contents of no block, and leaves
  every other buffer in use, and its bytes, as they are, whatever it evicts.
\<close>

theorem bread_coherent:
  assumes "cache_inv R B addr s" "x \<in> B" "available s x"
  shows "\<exists>i s'. bread (fst x) (snd x) s = Inr (i, s') \<and> cache_inv R B addr s' \<and> key s' i = x \<and>
    bblock s' i = view addr s x \<and> (\<forall>y \<in> B. view addr s' y = view addr s y) \<and>
    (\<forall>j < length (bufs s). b_count (bufs s ! j) \<noteq> 0 \<and> j \<noteq> i \<longrightarrow> bufs s' ! j = bufs s ! j \<and> bblock s' j = bblock s j)"
  using bread_spec [OF assms] unfolding got_def same_view_def by blast

theorem bread_coherent_witness:
  "\<exists>i s'. bread 2 1 (ex_sys (\<lambda>a. if a = 66 * 512 then 7 else 0)) = Inr (i, s') \<and> hd (bblock s' i) = 7"
proof -
  let ?s = "ex_sys (\<lambda>a. if a = 66 * 512 then 7 else 0)"
  have "view ex_addr ?s (2, 1) = dblock ex_addr ?s (2, 1)" by (intro view_miss) (simp add: ex_fields)
  then have "hd (view ex_addr ?s (2, 1)) = 7"
    by (simp add: dblock_def slice_def ex_fields ex_addr_def byte_of_def SECTOR_SIZE_def BLOCK_SIZE_def hd_map upt_rec [of 0])
  moreover have "(2, 1) \<in> ex_blocks" by (simp add: ex_blocks_def)
  ultimately show ?thesis using bread_coherent [OF ex_inv _ ex_room, of "(2, 1)"] by fastforce
qed

text \<open>
  C12: Under the invariant of the cache \<^verbatim>\<open>getblk\<close> returns a buffer of the block exactly when the block is
  cached, a buffer is not in use, or the buffer region has room; otherwise it waits for another
  task and nothing else: no assertion or panic, no bad pointer.
\<close>

theorem getblk_returns:
  assumes "cache_inv R B addr s" "x \<in> B"
  shows "if available s x then \<exists>i s'. getblk (fst x) (snd x) s = Inr (i, s') \<and> key s' i = x
    else getblk (fst x) (snd x) s = Inl Hang"
  using getblk_spec [OF assms] getblk_waits [OF assms(1), of x] by (auto simp: got_def)

theorem getblk_returns_witness:
  "\<exists>r. getblk 2 0 (ex_sys (\<lambda>_. 0)) = Inr r"
proof -
  have "(2, 0) \<in> ex_blocks" by (simp add: ex_blocks_def)
  from getblk_returns [OF ex_inv this] ex_room show ?thesis by (simp del: split_paired_Ex) blast
qed

text \<open>\<^verbatim>\<open>sync_dev\<close> makes every block on disk equal to its contents in the cache.\<close>

theorem sync_dev_flushes:
  assumes "cache_inv R B addr s"
  shows "\<exists>s'. sync_dev dev s = Inr s' \<and> cache_inv R B addr s' \<and> mem s' = mem s \<and>
    (\<forall>x \<in> B. view addr s' x = view addr s x \<and> dblock addr s' x = view addr s x)"
  by (rule sync_dev_spec [OF assms])

text \<open>A user of a buffer writes its bytes and marks it dirty.\<close>

definition store :: "nat \<Rightarrow> (nat \<Rightarrow> u8) \<Rightarrow> 'a bcache_scheme \<Rightarrow> 'a bcache_scheme" where
  "store i m s = s\<lparr>mem := m, bufs := (bufs s)[i := (bufs s ! i)\<lparr>b_dirty := True\<rparr>]\<rparr>"

lemma store_spec:
  assumes inv: "cache_inv R B addr s" and i: "i < length (bufs s)" "b_vaild (bufs s ! i)"
    and m: "\<And>a. a < b_data (bufs s ! i) \<or> b_data (bufs s ! i) + BLOCK_SIZE \<le> a \<Longrightarrow> m a = mem s a"
  shows "cache_inv R B addr (store i m s)" "key (store i m s) = key s"
    "view addr (store i m s) x = (if x = key s i then slice m (b_data (bufs s ! i)) else view addr s x)"
proof -
  let ?s = "store i m s"
  note d = cache_invD [OF inv]
  have b: "bufs ?s = (bufs s)[i := (bufs s ! i)\<lparr>b_dirty := True\<rparr>]" "mem ?s = m" by (simp_all add: store_def)
  have n: "length (bufs ?s) = length (bufs s)" by (simp add: b)
  show k: "key ?s = key s" by (rule key_upd [OF i(1) b(1)]) simp_all
  have o: "bufs ?s ! j = bufs s ! j" if "j \<noteq> i" for j using that unfolding b by simp
  have bi: "bufs ?s ! i = (bufs s ! i)\<lparr>b_dirty := True\<rparr>" using i(1) unfolding b by simp
  have bb: "bblock ?s j = bblock s j" if "j < length (bufs s)" "j \<noteq> i" for j
  proof -
    have "m (b_data (bufs s ! j) + l) = mem s (b_data (bufs s ! j) + l)" if "l < BLOCK_SIZE" for l
      using placed_disjoint [OF d(2) i(1) \<open>j < length (bufs s)\<close>] \<open>j \<noteq> i\<close> that by (intro m) auto
    with o [OF that(2)] show ?thesis by (simp add: bblock_def slice_def b)
  qed
  have bbi: "bblock ?s i = slice m (b_data (bufs s ! i))" by (simp add: bblock_def bi b(2))
  have db: "dblock addr ?s = dblock addr s" by (simp add: dblock_def store_def fun_eq_iff)
  have "buf_ok B addr ?s j" if j: "j < length (bufs s)" for j
  proof (cases "j = i")
    case True
    then show ?thesis using d(5) [OF i(1)] i(2) bi unfolding buf_ok_def k True by simp
  next
    case False
    then show ?thesis using d(5) [OF j] unfolding buf_ok_def k db bb [OF j False] o [OF False] by simp
  qed
  moreover have "placed ?s" using d(2) i(1) by (intro placed_upd [OF d(2) i(1) b(1)]) (simp_all add: placed_def)
  moreover have "disks_ok R B addr ?s" by (rule disks_ok_dsame [OF d(1)]) (rule dsame_cong; simp add: store_def)
  ultimately show "cache_inv R B addr ?s"
    using d(3,4) unfolding cache_inv_def k n by (simp add: store_def)
  show "view addr ?s x = (if x = key s i then slice m (b_data (bufs s ! i)) else view addr s x)"
  proof (rule view_cases)
    show "inj_on (key ?s) {..<length (bufs ?s)}" using d(4) unfolding k n .
    show "bblock ?s j = (if x = key s i then slice m (b_data (bufs s ! i)) else view addr s x)"
      if "j < length (bufs ?s)" "key ?s j = x" "b_vaild (bufs ?s ! j)" for j
    proof (cases "j = i")
      case True
      with that bbi show ?thesis by (simp add: k)
    next
      case False
      then have "x \<noteq> key s i" using that inj_onD [OF d(4), of j i] i(1) unfolding k n by auto
      with False that view_hit [OF d(4), of j addr] bb [of j] o [OF False] show ?thesis unfolding k n by simp
    qed
    assume no: "\<not> b_vaild (bufs ?s ! j)" if "j < length (bufs ?s)" "key ?s j = x" for j
    have "x \<noteq> key s i" using no [of i] i bi unfolding k n by auto
    moreover have "\<not> b_vaild (bufs s ! j)" if "j < length (bufs s)" "key s j = x" for j
      using no [of j] that o [of j] calculation unfolding k n by (cases "j = i") auto
    then have "view addr s x = dblock addr s x" by (rule view_miss)
    ultimately show "dblock addr ?s x = (if x = key s i then slice m (b_data (bufs s ! i)) else view addr s x)"
      by (simp add: db)
  qed
qed

text \<open>Reading a block and releasing it.\<close>

definition touch :: "int \<times> u32 \<Rightarrow> 'a bcache_scheme \<Rightarrow> 'a bcache_scheme res" where
  "touch x s = rbind (bread (fst x) (snd x) s) (\<lambda>(i, s). brelse (Some i) s)"

definition idle :: "'a bcache_scheme \<Rightarrow> bool" where
  "idle s \<longleftrightarrow> (\<exists>j < length (bufs s). b_count (bufs s ! j) = 0)"

lemma idle_available: "idle s \<Longrightarrow> available s x"
  by (auto simp: idle_def available_def)

lemma released_count: "b_count (released b) = b_count b - 1"
  by (simp add: released_def Let_def)

lemma touch_spec:
  assumes inv: "cache_inv R B addr s" and x: "x \<in> B" and id: "idle s"
  shows "\<exists>s'. touch x s = Inr s' \<and> cache_inv R B addr s' \<and> same_view B addr s s' \<and> idle s'"
proof -
  from bread_spec [OF inv x idle_available [OF id]] obtain i s1 where s1: "bread (fst x) (snd x) s = Inr (i, s1)"
    "got R B addr x i s s1" by blast
  then have i: "cache_inv R B addr s1" "i < length (bufs s1)" "same_view B addr s s1" by (simp_all add: got_def)
  from brelse_spec [OF i(1,2)] obtain s2 where s2: "brelse (Some i) s1 = Inr s2" "cache_inv R B addr s2"
    "same_view B addr s1 s2" "bufs s2 = (bufs s1)[i := released (bufs s1 ! i)]" by blast
  from id obtain j where j: "j < length (bufs s)" "b_count (bufs s ! j) = 0" by (auto simp: idle_def)
  have n: "length (bufs s) \<le> length (bufs s1)" using s1(2) by (simp add: got_def)
  have "b_count (bufs s2 ! j) = 0"
  proof (cases "j = i")
    case True
    have "b_count (bufs s1 ! i) = 1"
    proof (cases "\<forall>k < length (bufs s). key s k \<noteq> x")
      case True
      with s1(2) show ?thesis by (simp add: got_def)
    next
      case False
      then obtain k where "k < length (bufs s)" "key s k = x" by blast
      with s1(2) have "b_count (bufs s1 ! i) = b_count (bufs s ! i) + 1" unfolding got_def by blast
      with j \<open>j = i\<close> show ?thesis by simp
    qed
    with True i(2) show ?thesis by (simp add: s2(4) released_count)
  next
    case False
    with s1(2) j have "b_count (bufs s1 ! j) = 0" unfolding got_def by metis
    with False show ?thesis by (simp add: s2(4))
  qed
  moreover have "j < length (bufs s2)" using j(1) n by (simp add: s2(4))
  ultimately have "idle s2" unfolding idle_def by blast
  with s1(1) s2 same_view_trans [OF i(3) s2(3)] show ?thesis by (auto simp: touch_def)
qed

lemma touch_all:
  assumes "cache_inv R B addr s" "set ys \<subseteq> B" "idle s"
  shows "\<exists>s'. for_each touch ys s = Inr s' \<and> cache_inv R B addr s' \<and> same_view B addr s s' \<and> idle s'"
  using assms
proof (induction ys arbitrary: s)
  case Nil
  then show ?case by (simp add: same_view_def)
next
  case (Cons y ys)
  from touch_spec [OF Cons.prems(1) _ Cons.prems(3), of y] Cons.prems(2) obtain s1 where
    s1: "touch y s = Inr s1" "cache_inv R B addr s1" "same_view B addr s s1" "idle s1" by auto
  from Cons.IH [OF s1(2) _ s1(4)] Cons.prems(2) obtain s2 where "for_each touch ys s1 = Inr s2"
    "cache_inv R B addr s2" "same_view B addr s1 s2" "idle s2" by auto
  with s1 same_view_trans [OF s1(3)] show ?case by auto
qed

text \<open>
  C6: what is written into a buffer is on disk once the last user has released it, and is
  read back later, however many other blocks have gone through the cache in between.
\<close>

theorem cache_roundtrip:
  assumes inv: "cache_inv R B addr s" and i: "i < length (bufs s)" "b_vaild (bufs s ! i)" "b_count (bufs s ! i) = 1"
    and m: "\<And>a. a < b_data (bufs s ! i) \<or> b_data (bufs s ! i) + BLOCK_SIZE \<le> a \<Longrightarrow> m a = mem s a"
    and ys: "set ys \<subseteq> B"
  shows "\<exists>s1 s2 j s3. brelse (Some i) (store i m s) = Inr s1 \<and> dblock addr s1 (key s i) = slice m (b_data (bufs s ! i)) \<and>
    for_each touch ys s1 = Inr s2 \<and> bread (fst (key s i)) (snd (key s i)) s2 = Inr (j, s3) \<and>
    bblock s3 j = slice m (b_data (bufs s ! i))"
proof -
  let ?s = "store i m s" and ?x = "key s i"
  note st = store_spec [OF inv i(1,2) m]
  have x: "?x \<in> B" using cache_invD(5) [OF inv i(1)] by (simp add: buf_ok_def)
  have i0: "i < length (bufs ?s)" "b_count (bufs ?s ! i) = 1" using i by (simp_all add: store_def)
  from brelse_spec [OF st(1) i0(1)] obtain s1 where s1: "brelse (Some i) ?s = Inr s1" "cache_inv R B addr s1"
    "same_view B addr ?s s1" "bufs s1 = (bufs ?s)[i := released (bufs ?s ! i)]" by blast
  have k1: "key s1 = key ?s"
    using i0(1) by (intro key_upd [OF i0(1) s1(4)]) (simp_all add: released_def Let_def)
  have b1: "i < length (bufs s1)" "bufs s1 ! i = released (bufs ?s ! i)" using i0(1) by (simp_all add: s1(4))
  have "\<not> b_dirty (bufs s1 ! i)" using i0(2) by (simp add: b1(2) released_def Let_def)
  with view_clean [OF s1(2) b1(1)] have "dblock addr s1 ?x = view addr s1 ?x" by (simp add: k1 st(2))
  then have d1: "dblock addr s1 ?x = slice m (b_data (bufs s ! i))"
    using s1(3) x st(3) [of ?x] by (simp add: same_view_def)
  have "b_count (bufs s1 ! i) = 0" using i0(2) by (simp add: b1(2) released_count)
  then have "idle s1" using b1(1) by (auto simp: idle_def)
  from touch_all [OF s1(2) ys this] obtain s2 where s2: "for_each touch ys s1 = Inr s2" "cache_inv R B addr s2"
    "same_view B addr s1 s2" "idle s2" by blast
  from bread_spec [OF s2(2) x idle_available [OF s2(4)]] obtain j s3 where
    s3: "bread (fst ?x) (snd ?x) s2 = Inr (j, s3)" "bblock s3 j = view addr s2 ?x" by blast
  have "view addr s2 ?x = slice m (b_data (bufs s ! i))"
    using s2(3) s1(3) x st(3) [of ?x] by (simp add: same_view_def)
  with s1(1) d1 s2(1) s3 show ?thesis by auto
qed

theorem cache_roundtrip_witness:
  "\<exists>i s s1 s2 j s3. bread 2 1 (ex_sys (\<lambda>_. 0)) = Inr (i, s) \<and>
    brelse (Some i) (store i ((mem s)(b_data (bufs s ! i) := 9)) s) = Inr s1 \<and> for_each touch [(2, 0)] s1 = Inr s2 \<and>
    bread 2 1 s2 = Inr (j, s3) \<and> hd (bblock s3 j) = 9"
proof -
  let ?s0 = "ex_sys (\<lambda>_. 0)"
  have B: "(2, 1) \<in> ex_blocks" "set [(2, 0)] \<subseteq> ex_blocks" by (simp_all add: ex_blocks_def)
  from bread_spec [OF ex_inv B(1) ex_room] obtain i s where
    s: "bread 2 1 ?s0 = Inr (i, s)" "got {100} ex_blocks ex_addr (2, 1) i ?s0 s" "b_vaild (bufs s ! i)"
    unfolding fst_conv snd_conv by blast
  have c: "b_count (bufs s ! i) = 1" using s(2) by (simp add: got_def ex_fields)
  have i: "cache_inv {100} ex_blocks ex_addr s" "i < length (bufs s)" "key s i = (2, 1)" using s(2) by (simp_all add: got_def)
  have out: "((mem s)(b_data (bufs s ! i) := 9)) a = mem s a"
    if "a < b_data (bufs s ! i) \<or> b_data (bufs s ! i) + BLOCK_SIZE \<le> a" for a using that by (auto simp: BLOCK_SIZE_def)
  have "hd (slice ((mem s)(b_data (bufs s ! i) := 9)) (b_data (bufs s ! i))) = 9"
    by (simp add: slice_def BLOCK_SIZE_def hd_map upt_rec [of 0])
  with cache_roundtrip [OF i(1,2) s(3) c out B(2)] s(1) i(3) show ?thesis by fastforce
qed

theorem sync_dev_flushes_witness:
  "\<exists>s'. sync_dev 2 (ex_sys (\<lambda>_. 5)) = Inr s' \<and> hd (dblock ex_addr s' (2, 0)) = 5"
proof -
  let ?s = "ex_sys (\<lambda>_. 5)"
  have "view ex_addr ?s (2, 0) = dblock ex_addr ?s (2, 0)" by (intro view_miss) (simp add: ex_fields)
  then have "hd (view ex_addr ?s (2, 0)) = 5"
    by (simp add: dblock_def slice_def ex_fields ex_addr_def byte_of_def SECTOR_SIZE_def BLOCK_SIZE_def hd_map upt_rec [of 0])
  moreover have "(2, 0) \<in> ex_blocks" by (simp add: ex_blocks_def)
  ultimately show ?thesis using sync_dev_flushes [OF ex_inv, of 2 "\<lambda>_. 5"] by fastforce
qed

end
