(* ===== verification/Minix_Frame.thy ===== *)
theory Minix_Frame
  imports Minix_Names Cache_Theorems
begin

text \<open>
  What the layers below a record leave alone: requests keep the buffers, the buffer cache
  keeps the tables of the file system, and the file system keeps the fields of the task.
\<close>

section \<open>Requests\<close>

lemma dsys_more_bufs: "dsys.more s' = dsys.more s \<Longrightarrow> bufs s' = bufs s \<and> bcache.more s' = bcache.more s"
  by (cases s; cases s'; simp)

lemma bcache_more_fs: "bcache.more s' = bcache.more s \<Longrightarrow>
    inode_table s' = inode_table s \<and> super_table s' = super_table s \<and> fs.more s' = fs.more s"
  by (cases s; cases s'; simp)

lemma fs_more_task: "fs.more s' = fs.more s \<Longrightarrow>
    i_root s' = i_root s \<and> i_pwd s' = i_pwd s \<and> pwd s' = pwd s \<and> files s' = files s"
  by (cases s; cases s'; simp)

lemma sata_io_more: "sata_io rd k buf c i s = Inr (v, s') \<Longrightarrow> dsys.more s' = dsys.more s"
  by (auto simp: sata_io_def Let_def split: if_splits)

lemma device_io_more: "device_io n rd dev buf c i s = Inr (v, s') \<Longrightarrow> dsys.more s' = dsys.more s"
proof (induction n arbitrary: dev i)
  case (Suc n)
  from Suc.prems obtain d where d: "device_get dev s = Inr d" unfolding device_io.simps rbind_eq_Inr by blast
  show ?case
    using Suc.prems d
    by (cases "if rd then d_read d else d_write d") (auto simp del: device_get_Inr dest: sata_io_more Suc.IH)
qed simp

lemma do_request_more: "do_request r s = Inr s' \<Longrightarrow> dsys.more s' = dsys.more s"
  by (auto simp: do_request_def device_read_def device_write_def split: req_type.splits if_splits dest: device_io_more)

lemma set_device_more [simp]: "dsys.more (set_device dev f s) = dsys.more s" "bufs (set_device dev f t) = bufs t"
  by (simp_all add: set_device_def)

lemma get_next_req_more: "get_next_req dev r s = Inr (v, s') \<Longrightarrow> dsys.more s' = dsys.more s"
  by (auto simp: get_next_req_def Let_def simp del: device_get_Inr split: option.splits)

lemma device_request_more: "device_request dev a c i ty s = Inr s' \<Longrightarrow> dsys.more s' = dsys.more s"
  by (auto simp: device_request_def Let_def simp del: device_get_Inr split: option.splits if_splits
      dest!: do_request_more get_next_req_more)

section \<open>The buffer cache\<close>

definition keeps :: "'a bcache_scheme \<Rightarrow> 'a bcache_scheme \<Rightarrow> bool" where
  "keeps s s' \<longleftrightarrow> bcache.more s' = bcache.more s"

lemma keeps_refl [simp]: "keeps s s"
  by (simp add: keeps_def)

lemma keeps_trans: "keeps a b \<Longrightarrow> keeps b c \<Longrightarrow> keeps a c"
  by (simp add: keeps_def)

lemma keeps_upd [simp]: "keeps s (upd_buf i f s)" "keeps s (mark i s)" "keeps s (wmem g s)"
  by (simp_all add: keeps_def upd_buf_def mark_def wmem_def)

text \<open>
  \<open>yields P m\<close>: if \<open>m\<close> returns, its result satisfies \<open>P\<close>. The rules follow the structure of an
  operation; the lemmas say of each operation that it yields a state that is kept.
\<close>

definition yields :: "('x \<Rightarrow> bool) \<Rightarrow> 'x res \<Rightarrow> bool" where
  "yields P m \<longleftrightarrow> (\<forall>x. m = Inr x \<longrightarrow> P x)"

lemma yields_simps [simp]: "yields P (Inr x) \<longleftrightarrow> P x" "yields P (Inl e)"
  by (simp_all add: yields_def)

lemma yields_bind: "yields Q m \<Longrightarrow> (\<And>x. Q x \<Longrightarrow> yields P (k x)) \<Longrightarrow> yields P (rbind m k)"
  by (auto simp: yields_def)

lemma yields_any: "(\<And>x. yields P (k x)) \<Longrightarrow> yields P (rbind m k)"
  by (auto simp: yields_def)

lemma yields_pair: "(\<And>x s. P (x, s) \<Longrightarrow> yields Q (f x s)) \<Longrightarrow> P p \<Longrightarrow> yields Q (case p of (x, s) \<Rightarrow> f x s)"
  by (cases p) simp

lemma yieldsD: "yields P m \<Longrightarrow> m = Inr x \<Longrightarrow> P x"
  by (simp add: yields_def)

lemma yieldsI: "(\<And>x. m = Inr x \<Longrightarrow> P x) \<Longrightarrow> yields P m"
  by (simp add: yields_def)

lemma keeps_step: "keeps t s \<Longrightarrow> keeps t (upd_buf i f s)" "keeps t s \<Longrightarrow> keeps t (mark i s)" "keeps t s \<Longrightarrow> keeps t (wmem g s)"
  by (simp_all add: keeps_def upd_buf_def mark_def wmem_def)

lemma buffer_lock_keeps: "keeps t s \<Longrightarrow> yields (keeps t) (buffer_lock i s)"
  unfolding buffer_lock_def by (intro yields_any) (simp add: keeps_step)

lemma buffer_unlock_keeps: "keeps t s \<Longrightarrow> yields (keeps t) (buffer_unlock i s)"
  by (simp add: buffer_unlock_def keeps_step)

lemma device_request_keeps: "keeps t s \<Longrightarrow> yields (keeps t) (device_request dev a c i ty s)"
  by (intro yieldsI) (auto simp: keeps_def dest!: device_request_more dsys_more_bufs)

lemma buf_request_keeps: "keeps t s \<Longrightarrow> yields (keeps t) (buf_request i ty s)"
  unfolding buf_request_def
  by (intro yields_bind [OF buffer_lock_keeps] yields_bind [OF device_request_keeps] buffer_unlock_keeps)

lemma bwrite_keeps: "keeps t s \<Longrightarrow> yields (keeps t) (bwrite i s)"
  unfolding bwrite_def by (auto intro!: yields_bind [OF buf_request_keeps] keeps_step)

lemma on_lists_keeps: "keeps t s \<Longrightarrow> yields (keeps t) (on_lists f s)"
  unfolding on_lists_def by (intro yields_any) (simp add: keeps_def)

abbreviation keeps2 :: "'a bcache_scheme \<Rightarrow> 'x \<times> 'a bcache_scheme \<Rightarrow> bool" where
  "keeps2 t r \<equiv> keeps t (snd r)"

lemma find_new_keeps: "keeps t s \<Longrightarrow> yields (keeps2 t) (find_new i dev blk s)"
  unfolding find_new_def buffer_remove_heap buffer_insert_heap
  by (intro yields_bind [OF on_lists_keeps]) (simp_all add: keeps_step)

lemma get_new_buffer_keeps: "keeps t s \<Longrightarrow> keeps2 t (get_new_buffer s)"
  by (simp add: get_new_buffer_def keeps_def Let_def)

lemma get_from_hash_table_keeps: "keeps t s \<Longrightarrow> yields (keeps2 t) (get_from_hash_table dev blk s)"
  unfolding get_from_hash_table_def by (intro yields_any) (simp add: keeps_step split: option.split)

definition round_keeps :: "'a bcache_scheme \<Rightarrow> 'a bcache_scheme + (nat \<times> 'a bcache_scheme) \<Rightarrow> bool" where
  "round_keeps t r \<longleftrightarrow> (case r of Inl s' \<Rightarrow> keeps t s' | Inr p \<Rightarrow> keeps2 t p)"

lemma find_new_round: "keeps t s \<Longrightarrow> yields (round_keeps t) (rbind (find_new i dev blk s) (\<lambda>r. Inr (Inr r)))"
  by (intro yields_bind [OF find_new_keeps]) (simp_all add: round_keeps_def)

lemma getblk_free_keeps:
  assumes "keeps t s"
  shows "yields (round_keeps t) (rbind (get_node (lheap s) (End free_list)) (\<lambda>e.
         rbind (run (free_loop s None (n_next e))) (\<lambda>(bf, clean).
         case bf of None \<Rightarrow> Inl Hang
         | Some i \<Rightarrow>
           if clean then rbind (find_new i dev blknr s) (\<lambda>r. Inr (Inr r))
           else
             rbind (ensure (b_lock (bufs s ! i)) Hang) (\<lambda>_.
             rbind (bwrite i s) (\<lambda>s'.
             if b_dirty (bufs s ! i) \<and> b_count (bufs s' ! i) \<noteq> 0 then Inr (Inl s')
             else
               rbind (find_from_hash_table dev blknr s') (\<lambda>r.
               if r \<noteq> None then Inr (Inl s')
               else rbind (find_new i dev blknr s') (\<lambda>r. Inr (Inr r))))))))"
proof (intro yields_any, clarify, split option.split, intro conjI allI impI)
  fix i clean
  have "yields (round_keeps t) (rbind (ensure (b_lock (bufs s ! i)) Hang) (\<lambda>_.
             rbind (bwrite i s) (\<lambda>s'.
             if b_dirty (bufs s ! i) \<and> b_count (bufs s' ! i) \<noteq> 0 then Inr (Inl s')
             else
               rbind (find_from_hash_table dev blknr s') (\<lambda>r.
               if r \<noteq> None then Inr (Inl s')
               else rbind (find_new i dev blknr s') (\<lambda>r. Inr (Inr r))))))"
  proof (rule yields_any, rule yields_bind [OF bwrite_keeps [OF assms]])
    fix s' assume k: "keeps t s'"
    show "yields (round_keeps t) (if b_dirty (bufs s ! i) \<and> b_count (bufs s' ! i) \<noteq> 0 then Inr (Inl s')
             else
               rbind (find_from_hash_table dev blknr s') (\<lambda>r.
               if r \<noteq> None then Inr (Inl s')
               else rbind (find_new i dev blknr s') (\<lambda>r. Inr (Inr r))))"
      using k find_new_round [OF k, of i dev blknr] by (auto simp: round_keeps_def intro!: yields_any)
  qed
  then show "yields (round_keeps t) (if clean then rbind (find_new i dev blknr s) (\<lambda>r. Inr (Inr r))
           else
             rbind (ensure (b_lock (bufs s ! i)) Hang) (\<lambda>_.
             rbind (bwrite i s) (\<lambda>s'.
             if b_dirty (bufs s ! i) \<and> b_count (bufs s' ! i) \<noteq> 0 then Inr (Inl s')
             else
               rbind (find_from_hash_table dev blknr s') (\<lambda>r.
               if r \<noteq> None then Inr (Inl s')
               else rbind (find_new i dev blknr s') (\<lambda>r. Inr (Inr r))))))"
    using find_new_round [OF assms] by (simp only: split: if_split) blast
qed simp

lemma getblk_round_keeps:
  assumes "keeps t s"
  shows "yields (round_keeps t) (getblk_round dev blk s)"
  unfolding getblk_round_def
proof (rule yields_bind [OF get_from_hash_table_keeps [OF assms]], clarify, split option.split, intro conjI allI impI)
  fix r :: "nat option" and s1 assume "keeps2 t (r, s1)"
  then have k: "keeps t s1" by simp
  obtain bf s2 where n: "get_new_buffer s1 = (bf, s2)" by (cases "get_new_buffer s1")
  with get_new_buffer_keeps [OF k] have k2: "keeps t s2" by simp
  show "yields (round_keeps t) (Inr (Inr (i, s1)))" for i using k by (simp add: round_keeps_def)
  show "yields (round_keeps t) (let (bf, s) = get_new_buffer s1 in
       case bf of Some i \<Rightarrow> rbind (find_new i dev blk s) (\<lambda>r. Inr (Inr r))
       | None \<Rightarrow>
         rbind (get_node (lheap s) (End free_list)) (\<lambda>e.
         rbind (run (free_loop s None (n_next e))) (\<lambda>(bf, clean).
         case bf of None \<Rightarrow> Inl Hang
         | Some i \<Rightarrow>
           if clean then rbind (find_new i dev blk s) (\<lambda>r. Inr (Inr r))
           else
             rbind (ensure (b_lock (bufs s ! i)) Hang) (\<lambda>_.
             rbind (bwrite i s) (\<lambda>s'.
             if b_dirty (bufs s ! i) \<and> b_count (bufs s' ! i) \<noteq> 0 then Inr (Inl s')
             else
               rbind (find_from_hash_table dev blk s') (\<lambda>r.
               if r \<noteq> None then Inr (Inl s')
               else rbind (find_new i dev blk s') (\<lambda>r. Inr (Inr r))))))))"
    unfolding n Let_def prod.case using find_new_round [OF k2] getblk_free_keeps [OF k2]
    by (simp only: split: option.split) blast
qed

lemma getblk_keeps: "keeps t s \<Longrightarrow> yields (keeps2 t) (getblk dev blk s)"
proof -
  have "getblk_loop dev blk s = Some r \<Longrightarrow> keeps t s \<longrightarrow> yields (keeps2 t) r" for r
  proof (erule getblk_loop.raw_induct [rotated], intro impI)
    fix loop dev blk s r
    assume IH: "\<And>dev blk s r. loop dev blk s = Some r \<Longrightarrow> keeps t s \<longrightarrow> yields (keeps2 t) r"
      and step: "(case getblk_round dev blk s of Inl stop \<Rightarrow> Some (Inl stop)
         | Inr r \<Rightarrow> (case r of Inl s' \<Rightarrow> loop dev blk s' | Inr x \<Rightarrow> Some (Inr x))) = Some r"
      and k: "keeps t s"
    show "yields (keeps2 t) r"
    proof (cases "getblk_round dev blk s")
      case (Inl e)
      with step show ?thesis by auto
    next
      case (Inr q)
      with getblk_round_keeps [OF k] have "round_keeps t q" by (rule yieldsD)
      with Inr step IH show ?thesis by (cases q) (auto simp: round_keeps_def)
    qed
  qed
  then show "keeps t s \<Longrightarrow> yields (keeps2 t) (getblk dev blk s)"
    by (auto simp: getblk_def run_def split: option.splits)
qed

lemma bread_keeps: "keeps t s \<Longrightarrow> yields (keeps2 t) (bread dev blk s)"
  unfolding bread_def
  by (rule yields_bind [OF getblk_keeps]) (auto intro!: yields_bind [OF buf_request_keeps] keeps_step)

lemma brelse_keeps:
  assumes "keeps t s"
  shows "yields (keeps t) (brelse b s)"
proof (cases b)
  case None
  with assms show ?thesis by (simp add: brelse_def)
next
  case (Some i)
  let ?s = "upd_buf i (\<lambda>b. b\<lparr>b_count := b_count b - 1\<rparr>) s"
  have "yields (keeps t) (rbind (bwrite i ?s) (\<lambda>s.
        rbind (list_isempty (lheap s) buf_wait_list) (\<lambda>e. rbind (ensure e Hang) (\<lambda>_. Inr s))))"
    by (rule yields_bind [OF bwrite_keeps [OF keeps_step(1) [OF assms]]]) (simp add: yields_any)
  with Some assms keeps_step(1) [OF assms] show ?thesis
    unfolding brelse_def Let_def by (simp only: option.case split: if_split) simp
qed

section \<open>The file system\<close>

definition fkeeps :: "'a fs_scheme \<Rightarrow> 'a fs_scheme \<Rightarrow> bool" where
  "fkeeps t s \<longleftrightarrow> fs.more s = fs.more t"

abbreviation fkeeps2 :: "'a fs_scheme \<Rightarrow> 'x \<times> 'a fs_scheme \<Rightarrow> bool" where
  "fkeeps2 t r \<equiv> fkeeps t (snd r)"

lemma keeps_fkeeps: "keeps s s' \<Longrightarrow> fkeeps t s \<Longrightarrow> fkeeps t s'"
  unfolding keeps_def fkeeps_def by (drule bcache_more_fs) simp

lemma fkeeps_step:
  "fkeeps t s \<Longrightarrow> fkeeps t (upd_buf i f s)" "fkeeps t s \<Longrightarrow> fkeeps t (mark i s)" "fkeeps t s \<Longrightarrow> fkeeps t (wmem g s)"
  "fkeeps t s \<Longrightarrow> fkeeps t (zset a k v s)" "fkeeps t s \<Longrightarrow> fkeeps t (put_map a mp s)"
  "fkeeps t s \<Longrightarrow> fkeeps t (upd_super i h s)" "fkeeps t s \<Longrightarrow> fkeeps t (set_size a z s)"
  by (simp_all add: fkeeps_def upd_buf_def mark_def wmem_def zset_def put_map_def upd_super_def set_size_def)

lemma yields_weak: "yields P m \<Longrightarrow> (\<And>x. P x \<Longrightarrow> Q x) \<Longrightarrow> yields Q m"
  by (auto simp: yields_def)

lemma bread_fkeeps: "fkeeps t s \<Longrightarrow> yields (fkeeps2 t) (bread dev blk s)"
  by (rule yields_weak [OF bread_keeps [OF keeps_refl]]) (rule keeps_fkeeps)

lemma brelse_fkeeps: "fkeeps t s \<Longrightarrow> yields (fkeeps t) (brelse b s)"
  by (rule yields_weak [OF brelse_keeps [OF keeps_refl]]) (rule keeps_fkeeps)

lemma buffer_lock_fkeeps: "fkeeps t s \<Longrightarrow> yields (fkeeps t) (buffer_lock i s)"
  by (rule yields_weak [OF buffer_lock_keeps [OF keeps_refl]]) (rule keeps_fkeeps)

lemma buffer_unlock_fkeeps: "fkeeps t s \<Longrightarrow> yields (fkeeps t) (buffer_unlock i s)"
  by (rule yields_weak [OF buffer_unlock_keeps [OF keeps_refl]]) (rule keeps_fkeeps)

lemma read_maps_fkeeps: "fkeeps t s \<Longrightarrow> yields (fkeeps2 t) (read_maps sb f limit dev is idx s)"
proof (induction "is" arbitrary: idx s)
  case (Cons i "is")
  then show ?case
    by (auto intro!: yields_any [where m = "ensure b e" for b e] yields_bind [OF bread_fkeeps] fkeeps_step Cons.IH)
qed simp

lemma read_super_fkeeps: "fkeeps t s \<Longrightarrow> yields (fkeeps2 t) (read_super dev s)"
  unfolding read_super_def Let_def
  by (rule yields_any, rule yields_bind [OF bread_fkeeps], erule fkeeps_step)
    (auto intro!: yields_any [where m = "ensure b e" for b e] yields_bind [OF read_maps_fkeeps] fkeeps_step)

lemma get_super_fkeeps: "fkeeps t s \<Longrightarrow> yields (fkeeps2 t) (get_super dev s)"
  unfolding get_super_def by (auto split: option.split intro: read_super_fkeeps)

lemma balloc_loop_fkeeps: "fkeeps t s \<Longrightarrow> yields (fkeeps2 t) (balloc_loop sb desc is s)"
proof (induction "is" arbitrary: s)
  case (Cons i "is")
  show ?case
    unfolding balloc_loop.simps Let_def
    by (intro yields_any) (use Cons in \<open>auto intro!: yields_any [where m = "ensure b e" for b e] fkeeps_step Cons.IH\<close>)
qed simp

lemma balloc_fkeeps: "fkeeps t s \<Longrightarrow> yields (fkeeps2 t) (balloc dev s)"
  unfolding balloc_def Let_def
  by (rule yields_bind [OF get_super_fkeeps], assumption)
    (auto intro!: yields_bind [OF balloc_loop_fkeeps] yields_any [where m = "ensure b e" for b e])

lemma new_zone_fkeeps: "fkeeps t s \<Longrightarrow> yields (fkeeps t) (new_zone dev arr index buf s)"
  unfolding new_zone_def Let_def
  by (rule yields_bind [OF balloc_fkeeps], assumption)
    (auto intro!: yields_bind [OF bread_fkeeps] yields_bind [OF buffer_lock_fkeeps] yields_bind [OF buffer_unlock_fkeeps]
      yields_bind [OF brelse_fkeeps] fkeeps_step)

lemma bmap_loop_fkeeps:
  "fkeeps t s \<Longrightarrow> yields (fkeeps2 t) (bmap_loop level dev arr buf b1 b2 index block divider create s)"
proof (induction level arbitrary: arr buf b1 b2 index block divider s)
  case 0
  have z: "yields (fkeeps t) (if zget arr index s = 0 \<and> create then new_zone dev arr index buf s else Inr s)"
    using 0 new_zone_fkeeps by auto
  show ?case
    by (subst bmap_loop.simps, rule yields_bind [OF z]) (auto simp: Let_def intro!: yields_bind [OF brelse_fkeeps])
next
  case (Suc level)
  have z: "yields (fkeeps t) (if zget arr index s = 0 \<and> create then new_zone dev arr index buf s else Inr s)"
    using Suc.prems new_zone_fkeeps by auto
  show ?case
    by (subst bmap_loop.simps, rule yields_bind [OF z])
      (auto simp: Let_def simp del: bmap_loop.simps intro!: yields_bind [OF brelse_fkeeps] yields_bind [OF bread_fkeeps] Suc.IH)
qed

lemma bmap_fkeeps: "fkeeps t s \<Longrightarrow> yields (fkeeps2 t) (bmap inode block create s)"
  unfolding bmap_def Let_def
  by (rule yields_bind [OF get_super_fkeeps], assumption)
    (auto simp del: bmap_loop.simps intro!: yields_any [where m = "ensure b e" for b e] bmap_loop_fkeeps)

text \<open>What \<^verbatim>\<open>inode_write\<close> returns.\<close>

lemma inode_write_loop_fkeeps:
  "fkeeps t s \<Longrightarrow> yields (\<lambda>r. fst r = 0 \<and> fkeeps2 t r) (inode_write_loop fuel inode ubuf len offset s)"
proof (induction fuel arbitrary: ubuf len offset s)
  case (Suc fuel)
  show ?case
  proof (cases "len = 0")
    case True
    with Suc.prems show ?thesis by simp
  next
    case False
    then show ?thesis
      using Suc.prems
      by (auto simp: Let_def intro!: yields_bind [OF bmap_fkeeps] yields_bind [OF bread_fkeeps]
        yields_bind [OF buffer_lock_fkeeps] yields_bind [OF buffer_unlock_fkeeps]
        yields_bind [OF brelse_fkeeps] fkeeps_step Suc.IH)
  qed
qed simp

lemma inode_write_fkeeps: "fkeeps t s \<Longrightarrow> yields (\<lambda>r. fst r = 0 \<and> fkeeps2 t r) (inode_write inode ubuf len offset s)"
  unfolding inode_write_def Let_def
  by (rule yields_any, rule yields_any) (auto simp del: inode_write_loop.simps intro!: yields_bind [OF inode_write_loop_fkeeps] fkeeps_step)

end
