(* ===== verification/Minix_Theorems.thy ===== *)
theory Minix_Theorems
  imports Minix_Frame
begin

text \<open>
  Properties of files: what is written into a block of a file is read back through the
  cache, and what the code does not do.
\<close>

section \<open>Memory of buffers and users\<close>

lemma slice_nth: "slice m a = slice m' b \<Longrightarrow> k < BLOCK_SIZE \<Longrightarrow> m (a + k) = m' (b + k)"
  unfolding slice_def by (drule arg_cong [where f = "\<lambda>xs. xs ! k"]) simp

lemma mem_copy_nth:
  "d + n \<le> a \<or> a + n \<le> d \<Longrightarrow>
     mem_copy d a n m x = (if d \<le> x \<and> x < d + n then m (a + (x - d)) else m x)"
proof (induction n arbitrary: d a m)
  case (Suc n)
  then have *: "d + 1 + n \<le> a + 1 \<or> a + 1 + n \<le> d + 1" by auto
  show ?case
    unfolding mem_copy.simps Suc.IH [OF *] using Suc.prems by (auto simp: Suc_diff_Suc le_Suc_eq)
qed auto

text \<open>An address inside a buffer that is in use, and what is there after a step.\<close>

definition held :: "'a bcache_scheme \<Rightarrow> int \<times> u32 \<Rightarrow> nat \<Rightarrow> nat \<Rightarrow> nat \<Rightarrow> bool" where
  "held s x b a n \<longleftrightarrow> b < length (bufs s) \<and> b_count (bufs s ! b) \<noteq> 0 \<and> key s b \<noteq> x \<and>
     data b s \<le> a \<and> a + n \<le> data b s + BLOCK_SIZE"

lemma held_mem:
  assumes "held s x b a n" "bufs s' ! b = bufs s ! b" "bblock s' b = bblock s b" "k < n"
  shows "mem s' (a + k) = mem s (a + k)"
proof -
  define j where "j = a + k - data b s"
  have j: "a + k = data b s + j" "j < BLOCK_SIZE"
    using assms(1,4) unfolding held_def j_def by linarith+
  have "slice (mem s') (data b s) = slice (mem s) (data b s)"
    using assms(2,3) by (simp add: bblock_def data_def)
  from slice_nth [OF this j(2)] show ?thesis by (simp add: j(1))
qed

lemma held_rd:
  assumes "held s x b a n" "bufs s' ! b = bufs s ! b" "bblock s' b = bblock s b"
  shows "k + 2 \<le> n \<Longrightarrow> rd16 (mem s') (a + k) = rd16 (mem s) (a + k)"
    and "k + 4 \<le> n \<Longrightarrow> rd32 (mem s') (a + k) = rd32 (mem s) (a + k)"
  using held_mem [OF assms, of k] held_mem [OF assms, of "k + 1"] held_mem [OF assms, of "k + 2"]
    held_mem [OF assms, of "k + 3"]
  unfolding rd16_def rd32_def add.assoc by simp_all

text \<open>Memory outside the buffers may be changed freely.\<close>

lemma user_mem:
  assumes inv: "cache_inv R B addr s" and m: "\<And>a. BUFFER_M_START \<le> a \<Longrightarrow> a < BUFFER_M_END \<Longrightarrow> m a = mem s a"
  shows "cache_inv R B addr (s\<lparr>mem := m\<rparr>)" "view addr (s\<lparr>mem := m\<rparr>) = view addr s"
    "key (s\<lparr>mem := m\<rparr>) = key s"
proof -
  let ?s = "s\<lparr>mem := m\<rparr>"
  note d = cache_invD [OF inv]
  show k: "key ?s = key s" by (rule key_cong) simp
  have bb: "bblock ?s i = bblock s i" if "i < length (bufs s)" for i
  proof -
    note p = placed_region [OF d(2) that]
    have "m (b_data (bufs s ! i) + j) = mem s (b_data (bufs s ! i) + j)" if "j < BLOCK_SIZE" for j
      using p that by (intro m) auto
    then show ?thesis by (simp add: bblock_def slice_def)
  qed
  have db: "dblock addr ?s = dblock addr s" by (simp add: dblock_def fun_eq_iff)
  have "disks_ok R B addr ?s" by (rule disks_ok_dsame [OF d(1)]) (rule dsame_cong; simp)
  moreover have "placed ?s" using d(2) by (simp add: placed_def)
  ultimately show "cache_inv R B addr ?s"
    using d(3-5) bb by (simp add: cache_inv_def k buf_ok_def db)
  show "view addr ?s = view addr s"
  proof
    fix x
    show "view addr ?s x = view addr s x"
    proof (cases "List.find (\<lambda>i. key s i = x \<and> b_vaild (bufs s ! i)) [0..<length (bufs s)]")
      case None
      then show ?thesis by (simp add: view_def k db)
    next
      case (Some i)
      then have "i < length (bufs s)" by (auto simp: find_Some_iff)
      with Some bb show ?thesis by (simp add: view_def k)
    qed
  qed
qed

section \<open>A block of a file\<close>

text \<open>
  \<open>file_ready R B addr s i q x\<close>: the first level zone \<open>q\<close> of inode \<open>i\<close> is block \<open>x\<close>; the super block
  and the inode are in buffers in use.
\<close>

definition file_ready ::
    "nat set \<Rightarrow> (int \<times> u32) set \<Rightarrow> (int \<times> u32 \<Rightarrow> nat \<times> nat) \<Rightarrow> 'a fs_scheme \<Rightarrow> nat \<Rightarrow> nat \<Rightarrow> int \<times> u32 \<Rightarrow> bool" where
  "file_ready R B addr s i q x \<longleftrightarrow> cache_inv R B addr s \<and> x \<in> B \<and> available s x \<and> q < 7 \<and>
     fst x = mi_dev (mi i s) \<and> snd x = ucast (zget (di_zone (mdesc i s)) q s) \<and> zget (di_zone (mdesc i s)) q s \<noteq> 0 \<and>
     held s x (mi_buf (mi i s)) (mdesc i s) 32 \<and>
     (\<exists>sb. first_free sb_dev (fst x) (super_table s) = Some sb \<and>
        held s x (sb_buf (super_table s ! sb)) (sb_desc (super_table s ! sb)) 20 \<and>
        q < unat (su_zones (sb_desc (super_table s ! sb)) s))"

lemma bmap_loop_direct:
  "zget arr q s \<noteq> 0 \<Longrightarrow> bmap_loop 0 dev arr buf None None q b v c s = Inr (zget arr q s, s)"
  by (subst bmap_loop.simps) (simp add: brelse_def)

lemma bmap_direct:
  assumes "file_ready R B addr s i q x"
  shows "bmap i (int q) c s = Inr (zget (di_zone (mdesc i s)) q s, s)"
proof -
  from assms obtain sb where sb: "first_free sb_dev (mi_dev (mi i s)) (super_table s) = Some sb"
    "q < unat (su_zones (sb_desc (super_table s ! sb)) s)" and q: "q < 7" and z: "zget (di_zone (mdesc i s)) q s \<noteq> 0"
    by (auto simp: file_ready_def)
  have gs: "get_super (mi_dev (mi i s)) s = Inr (sb, s)" using sb(1) by (simp add: get_super_def)
  have "int q < uint (su_zones (sb_desc (super_table s ! sb)) s)" using sb(2) by (simp only: uint_nat of_nat_less_iff)
  then have en: "ensure (0 \<le> int q \<and> int q < uint (su_zones (sb_desc (super_table s ! sb)) s)) Assert = Inr ()" by simp
  have st: "bmap_loop 0 (mi_dev (mi i s)) (di_zone (mdesc i s)) (mi_buf (mi i s)) None None q q 1 c s =
      Inr (zget (di_zone (mdesc i s)) q s, s)" by (rule bmap_loop_direct [OF z])
  show ?thesis
    unfolding bmap_def mi_def [symmetric] Let_def gs rbind_simps prod.case en nat_int
    unfolding nat_int if_P [OF q] mdesc_def [symmetric] st ..
qed

text \<open>The file is as before after a step that keeps the tables and the buffers in use.\<close>

lemma file_ready_step:
  assumes r: "file_ready R B addr s i q x" and k: "keeps s s'" and inv: "cache_inv R B addr s'" and av: "available s' x"
    and n: "length (bufs s) \<le> length (bufs s')"
    and o: "\<And>b. b < length (bufs s) \<Longrightarrow> b_count (bufs s ! b) \<noteq> 0 \<Longrightarrow> key s b \<noteq> x \<Longrightarrow>
      bufs s' ! b = bufs s ! b \<and> bblock s' b = bblock s b"
  shows "file_ready R B addr s' i q x" "mi i s' = mi i s" "zget (di_zone (mdesc i s)) q s' = zget (di_zone (mdesc i s)) q s"
    "di_size (mdesc i s) s' = di_size (mdesc i s) s" "di_mode (mdesc i s) s' = di_mode (mdesc i s) s"
proof -
  from k have "bcache.more s' = bcache.more s" by (simp add: keeps_def)
  from bcache_more_fs [OF this] have t: "inode_table s' = inode_table s" "super_table s' = super_table s"
    by simp_all
  then show m: "mi i s' = mi i s" by (simp add: mi_def)
  from r obtain sb where sb: "first_free sb_dev (fst x) (super_table s) = Some sb"
    "held s x (sb_buf (super_table s ! sb)) (sb_desc (super_table s ! sb)) 20"
    "q < unat (su_zones (sb_desc (super_table s ! sb)) s)" and h: "held s x (mi_buf (mi i s)) (mdesc i s) 32" and q: "q < 7"
    by (auto simp: file_ready_def)
  have st: "held s' x b a l" "bufs s' ! b = bufs s ! b" "bblock s' b = bblock s b" if "held s x b a l" for b a l
    using that o [of b] n by (auto simp: held_def data_def key_def)
  note hr = held_rd [OF h st(2,3) [OF h]] and sr = held_rd [OF sb(2) st(2,3) [OF sb(2)]]
  have "14 + 2 * q + 2 \<le> 32" using q by simp
  from hr(1) [OF this] show z: "zget (di_zone (mdesc i s)) q s' = zget (di_zone (mdesc i s)) q s"
    by (simp add: zget_def di_zone_def add.assoc)
  from hr(2) [of 4] show "di_size (mdesc i s) s' = di_size (mdesc i s) s" by (simp add: di_size_def)
  from hr(1) [of 0] show "di_mode (mdesc i s) s' = di_mode (mdesc i s) s" by (simp add: di_mode_def)
  from sr(1) [of 2] have "su_zones (sb_desc (super_table s ! sb)) s' = su_zones (sb_desc (super_table s ! sb)) s"
    by (simp add: su_zones_def)
  then show "file_ready R B addr s' i q x"
    using r inv av sb st(1) [OF sb(2)] st(1) [OF h] z m by (simp add: file_ready_def mdesc_def t)
qed

text \<open>What a step leaves of the inode and its zone \<open>q\<close>.\<close>

definition same_file :: "nat \<Rightarrow> nat \<Rightarrow> 'a fs_scheme \<Rightarrow> 'a fs_scheme \<Rightarrow> bool" where
  "same_file i q s s' \<longleftrightarrow> mi i s' = mi i s \<and> zget (di_zone (mdesc i s)) q s' = zget (di_zone (mdesc i s)) q s \<and>
     di_size (mdesc i s) s' = di_size (mdesc i s) s \<and> di_mode (mdesc i s) s' = di_mode (mdesc i s) s"

lemma same_file_trans: "same_file i q a b \<Longrightarrow> same_file i q b c \<Longrightarrow> same_file i q a c"
  by (simp add: same_file_def mdesc_def)

lemma same_fileD: "same_file i q s s' \<Longrightarrow> mdesc i s' = mdesc i s" "same_file i q s s' \<Longrightarrow> mi i s' = mi i s"
  "same_file i q s s' \<Longrightarrow> di_size (mdesc i s) s' = di_size (mdesc i s) s"
  "same_file i q s s' \<Longrightarrow> di_mode (mdesc i s) s' = di_mode (mdesc i s) s"
  by (simp_all add: same_file_def mdesc_def)

lemmas file_readyD = file_ready_def [THEN iffD1, THEN conjunct1]
  file_ready_def [THEN iffD1, THEN conjunct2, THEN conjunct1]
  file_ready_def [THEN iffD1, THEN conjunct2, THEN conjunct2, THEN conjunct1]

lemma block_read:
  assumes r: "file_ready R B addr s i q x"
  shows "\<exists>b s1. bread (fst x) (snd x) s = Inr (b, s1) \<and> b < length (bufs s1) \<and> key s1 b = x \<and> b_vaild (bufs s1 ! b) \<and>
    bblock s1 b = view addr s x \<and> out_same s s1 \<and> same_view B addr s s1 \<and> keeps s s1 \<and>
    file_ready R B addr s1 i q x \<and> same_file i q s s1"
proof -
  from bread_spec [OF file_readyD [OF r]] obtain b s1 where s1: "bread (fst x) (snd x) s = Inr (b, s1)" "got R B addr x b s s1"
    "b_vaild (bufs s1 ! b)" "bblock s1 b = view addr s x" by blast
  then have g: "cache_inv R B addr s1" "out_same s s1" "same_view B addr s s1" "b < length (bufs s1)" "key s1 b = x"
    "length (bufs s) \<le> length (bufs s1)"
    and j: "\<And>j. j < length (bufs s) \<Longrightarrow> b_count (bufs s ! j) \<noteq> 0 \<Longrightarrow> j \<noteq> b \<Longrightarrow> bufs s1 ! j = bufs s ! j \<and> bblock s1 j = bblock s j"
    and eq: "\<And>j. j < length (bufs s) \<Longrightarrow> key s j = x \<Longrightarrow> b = j"
    and cnt: "b < length (bufs s) \<Longrightarrow> key s b \<noteq> x \<Longrightarrow> b_count (bufs s ! b) = 0"
    unfolding got_def by blast+
  from yieldsD [OF bread_keeps [OF keeps_refl] s1(1)] have k: "keeps s s1" by simp
  have av: "available s1 x" using g(4,5) unfolding available_def by blast
  have o: "bufs s1 ! c = bufs s ! c \<and> bblock s1 c = bblock s c"
    if "c < length (bufs s)" "b_count (bufs s ! c) \<noteq> 0" "key s c \<noteq> x" for c
    using that cnt j [OF that(1,2)] by (cases "c = b") auto
  from file_ready_step [OF r k g(1) av g(6) o] have "file_ready R B addr s1 i q x" "same_file i q s s1"
    unfolding same_file_def by blast+
  with s1 g k show ?thesis by blast
qed

lemma block_release:
  assumes r: "file_ready R B addr s i q x" and b: "b < length (bufs s)" "key s b = x"
  shows "\<exists>s1. brelse (Some b) s = Inr s1 \<and> mem s1 = mem s \<and> same_view B addr s s1 \<and> keeps s s1 \<and>
    file_ready R B addr s1 i q x \<and> same_file i q s s1"
proof -
  from brelse_spec [OF file_readyD(1) [OF r] b(1)] obtain s1 where s1: "brelse (Some b) s = Inr s1" "cache_inv R B addr s1"
    "same_view B addr s s1" "mem s1 = mem s" "bufs s1 = (bufs s)[b := released (bufs s ! b)]" by blast
  from yieldsD [OF brelse_keeps [OF keeps_refl] s1(1)] have k: "keeps s s1" .
  have ks: "key s1 = key s" by (rule key_upd [OF b(1) s1(5)]) (simp_all add: released_def Let_def undirty_def)
  have av: "available s1 x" using b by (auto simp: available_def ks s1(5))
  have o: "bufs s1 ! c = bufs s ! c \<and> bblock s1 c = bblock s c"
    if "c < length (bufs s)" "b_count (bufs s ! c) \<noteq> 0" "key s c \<noteq> x" for c
    using that b by (auto simp: s1(4,5) bblock_def nth_list_update)
  from file_ready_step [OF r k s1(2) av _ o] s1(5) have "file_ready R B addr s1 i q x" "same_file i q s s1"
    unfolding same_file_def by simp_all
  with s1 k show ?thesis by blast
qed

lemma block_store:
  assumes r: "file_ready R B addr s i q x" and b: "b < length (bufs s)" "key s b = x" "b_vaild (bufs s ! b)"
    and m: "\<And>a. a < b_data (bufs s ! b) \<or> b_data (bufs s ! b) + BLOCK_SIZE \<le> a \<Longrightarrow> m a = mem s a"
  shows "file_ready R B addr (store b m s) i q x" "same_file i q s (store b m s)" "keeps s (store b m s)"
    "view addr (store b m s) y = (if y = x then slice m (b_data (bufs s ! b)) else view addr s y)"
proof -
  let ?s = "store b m s"
  note st = store_spec [OF file_readyD(1) [OF r] b(1,3) m]
  from st(3) show "view addr ?s y = (if y = x then slice m (b_data (bufs s ! b)) else view addr s y)" by (simp add: b(2))
  show k: "keeps s ?s" by (simp add: keeps_def store_def)
  have n: "length (bufs ?s) = length (bufs s)" by (simp add: store_def)
  have av: "available ?s x" using b(1,2) n st(2) unfolding available_def by auto
  have o: "bufs ?s ! c = bufs s ! c \<and> bblock ?s c = bblock s c"
    if c: "c < length (bufs s)" "b_count (bufs s ! c) \<noteq> 0" "key s c \<noteq> x" for c
  proof -
    from c(3) b(2) have "c \<noteq> b" by auto
    then have "m (b_data (bufs s ! c) + l) = mem s (b_data (bufs s ! c) + l)" if "l < BLOCK_SIZE" for l
      using placed_disjoint [OF cache_invD(2) [OF file_readyD(1) [OF r]] b(1) c(1)] that by (intro m) auto
    with \<open>c \<noteq> b\<close> show ?thesis by (simp add: store_def bblock_def slice_def)
  qed
  from file_ready_step [OF r k st(1) av _ o] n show "file_ready R B addr ?s i q x" "same_file i q s ?s"
    unfolding same_file_def by simp_all
qed

lemma user_ready:
  assumes r: "file_ready R B addr s i q x"
    and m: "\<And>a. BUFFER_M_START \<le> a \<Longrightarrow> a < BUFFER_M_END \<Longrightarrow> m a = mem s a"
  shows "file_ready R B addr (s\<lparr>mem := m\<rparr>) i q x" "same_file i q s (s\<lparr>mem := m\<rparr>)"
proof -
  let ?s = "s\<lparr>mem := m\<rparr>"
  note u = user_mem [OF file_readyD(1) [OF r] m]
  have "available ?s x" using file_readyD(3) [OF r] by (simp add: available_def room_def get_new_buffer_def u(3) Let_def split: if_splits)
  moreover have "bufs ?s ! c = bufs s ! c \<and> bblock ?s c = bblock s c" if c: "c < length (bufs s)" for c
  proof -
    note p = placed_region [OF cache_invD(2) [OF file_readyD(1) [OF r]] c]
    have "m (b_data (bufs s ! c) + l) = mem s (b_data (bufs s ! c) + l)" if "l < BLOCK_SIZE" for l
      using p that by (intro m) auto
    then show ?thesis by (simp add: bblock_def slice_def)
  qed
  ultimately show "file_ready R B addr ?s i q x" "same_file i q s ?s"
    using file_ready_step [OF r _ u(1)] unfolding same_file_def by (simp_all add: keeps_def)
qed

section \<open>Reading and writing within a block\<close>

text \<open>The bytes of a file on the way: \<open>n\<close> bytes from index \<open>o'\<close> of the block are those at \<open>a\<close>.\<close>

definition patched :: "u8 list \<Rightarrow> nat \<Rightarrow> nat \<Rightarrow> (nat \<Rightarrow> u8) \<Rightarrow> nat \<Rightarrow> u8 list" where
  "patched bs o' n m a = map (\<lambda>k. if o' \<le> k \<and> k < o' + n then m (a + (k - o')) else bs ! k) [0..<BLOCK_SIZE]"

definition outside :: "nat \<Rightarrow> nat \<Rightarrow> bool" where
  "outside a n \<longleftrightarrow> a + n \<le> BUFFER_M_START \<or> BUFFER_M_END \<le> a"

lemma outside_same: "outside a n \<Longrightarrow> out_same s s' \<Longrightarrow> k < n \<Longrightarrow> mem s' (a + k) = mem s (a + k)"
  unfolding outside_def out_same_def by auto

lemma write_store:
  assumes "b_lock (bufs s ! b)" "b < length (bufs s)"
  shows "rbind (buffer_lock b s) (\<lambda>s. rbind (buffer_unlock b (mark b (wmem (f (data b s)) s))) k) =
    k (store b (f (b_data (bufs s ! b)) (mem s)) s)"
proof -
  have eq: "(bufs s ! b)\<lparr>b_dirty := True, b_lock := True\<rparr> = (bufs s ! b)\<lparr>b_dirty := True\<rparr>"
    using assms(1) by (cases "bufs s ! b") simp
  show ?thesis
    using assms
    by (simp add: buffer_lock_def buffer_unlock_def mark_def wmem_def store_def upd_buf_def data_def)
      (unfold eq, rule refl)
qed

lemma patch_slice:
  assumes p: "outside a n" "BUFFER_M_START \<le> d" "d + BLOCK_SIZE \<le> BUFFER_M_END" "o' + n \<le> BLOCK_SIZE"
  shows "slice (mem_copy (d + o') a n m) d = patched (slice m d) o' n m a"
    and "x < d \<or> d + BLOCK_SIZE \<le> x \<Longrightarrow> mem_copy (d + o') a n m x = m x"
proof -
  have "d + o' + n \<le> a \<or> a + n \<le> d + o'" using p unfolding outside_def by linarith
  note c = mem_copy_nth [OF this]
  show "slice (mem_copy (d + o') a n m) d = patched (slice m d) o' n m a"
    unfolding slice_def patched_def c by (auto intro!: nth_equalityI simp: add.assoc)
  show "mem_copy (d + o') a n m x = m x" if "x < d \<or> d + BLOCK_SIZE \<le> x"
    unfolding c using that p(4) by auto
qed

lemma write_loop_block:
  assumes r: "file_ready R B addr s i (off div BLOCK_SIZE) x"
    and n: "0 < n" "off mod BLOCK_SIZE + n \<le> BLOCK_SIZE" and u: "outside ubuf n"
  shows "\<exists>s'. inode_write_loop (Suc n) i ubuf n off s = Inr (0, s') \<and> file_ready R B addr s' i (off div BLOCK_SIZE) x \<and>
    same_file i (off div BLOCK_SIZE) s s' \<and> out_same s s' \<and>
    (\<forall>y \<in> B. view addr s' y = (if y = x then patched (view addr s x) (off mod BLOCK_SIZE) n (mem s) ubuf else view addr s y))"
proof -
  let ?q = "off div BLOCK_SIZE" and ?o = "off mod BLOCK_SIZE"
  from block_read [OF r] obtain b s1 where s1: "bread (fst x) (snd x) s = Inr (b, s1)" "b < length (bufs s1)" "key s1 b = x"
    "b_vaild (bufs s1 ! b)" "bblock s1 b = view addr s x" "out_same s s1" "same_view B addr s s1"
    "file_ready R B addr s1 i ?q x" "same_file i ?q s s1" by blast
  define m where "m = mem_copy (b_data (bufs s1 ! b) + ?o) ubuf n (mem s1)"
  note pl = cache_invD(2) [OF file_readyD(1) [OF s1(8)]]
  note reg = placed_region [OF pl s1(2)]
  note pa = patch_slice [OF u reg n(2), where m = "mem s1", folded m_def]
  have lk: "b_lock (bufs s1 ! b)" using pl s1(2) by (simp add: placed_def)
  note st = block_store [OF s1(8,2,3,4) pa(2)]
  have b2: "b < length (bufs (store b m s1))" "key (store b m s1) b = x"
    using s1(2,3) by (simp_all add: store_def key_def)
  from block_release [OF st(1) b2] obtain s2 where s2: "brelse (Some b) (store b m s1) = Inr s2" "mem s2 = mem (store b m s1)"
    "same_view B addr (store b m s1) s2" "file_ready R B addr s2 i ?q x" "same_file i ?q (store b m s1) s2" by blast
  have sf: "same_file i ?q s s2" by (rule same_file_trans [OF s1(9) same_file_trans [OF st(2) s2(5)]])
  have "mem s1 (ubuf + (k - ?o)) = mem s (ubuf + (k - ?o))" if "?o \<le> k \<and> k < ?o + n" for k
    using that by (intro outside_same [OF u s1(6)]) linarith
  then have "patched bs ?o n (mem s1) ubuf = patched bs ?o n (mem s) ubuf" for bs
    unfolding patched_def by (intro map_cong if_cong refl) blast
  moreover have "slice (mem s1) (b_data (bufs s1 ! b)) = view addr s x" using s1(5) by (simp add: bblock_def)
  ultimately have vx: "slice m (b_data (bufs s1 ! b)) = patched (view addr s x) ?o n (mem s) ubuf" using pa(1) by simp
  have vw: "\<forall>y \<in> B. view addr s2 y = (if y = x then patched (view addr s x) ?o n (mem s) ubuf else view addr s y)"
    using s2(3) s1(7) st(4) vx by (simp add: same_view_def)
  have os: "out_same s s2" using s1(6) reg pa(2) by (simp add: out_same_def s2(2) store_def)
  have fx: "fst x = mi_dev (mi i s)" "snd x = ucast (zget (di_zone (mdesc i s)) ?q s)"
    using r unfolding file_ready_def by blast+
  have "\<not> BLOCK_SIZE - ?o < n" using n(2) by simp
  then have sz1: "(if BLOCK_SIZE - ?o < n then BLOCK_SIZE - ?o else n) = n" by (rule if_not_P)
  have bm: "bmap i (int ?q) True s = Inr (zget (di_zone (mdesc i s)) ?q s, s)" by (rule bmap_direct [OF r])
  have br: "bread (mi_dev (mi i s)) (ucast (zget (di_zone (mdesc i s)) ?q s)) s = Inr (b, s1)"
    using s1(1) fx by simp
  have ws: "rbind (buffer_lock b s1) (\<lambda>s. rbind (buffer_unlock b (mark b (wmem (mem_copy (data b s + ?o) ubuf n) s))) k) =
    k (store b m s1)" for k
    using write_store [OF lk s1(2), where f = "\<lambda>d. mem_copy (d + ?o) ubuf n"] unfolding m_def .
  have "inode_write_loop (Suc n) i ubuf n off s = inode_write_loop n i (ubuf + n) 0 ((?q + 1) * BLOCK_SIZE) s2"
    unfolding inode_write_loop.simps(2) mi_def [symmetric] bm rbind_simps prod.case br Let_def sz1 ws s2(1) diff_self_eq_0
    using n(1) by (simp del: inode_write_loop.simps)
  also have "\<dots> = Inr (0, s2)" using n(1) by (cases n) simp_all
  finally have "inode_write_loop (Suc n) i ubuf n off s = Inr (0, s2)" .
  with s2(4) sf os vw show ?thesis by blast
qed

text \<open>
  A write that makes the file longer stores the new size into the inode. The inode's buffer is
  dirty once the file has been given a block, and is not the buffer of the super block.
\<close>

lemma wr32_far: "x < a \<or> a + 4 \<le> x \<Longrightarrow> wr32 a v m x = m x"
  by (auto simp: wr32_def wr16_def)

lemma unat_u16: "unat (w :: u16) < 65536"
  using unsigned_less [of w, where ?'a = nat] by simp

lemma rd16_wr16: "rd16 (wr16 a v m) a = v"
proof -
  have "unat v div 256 < 256" using unat_u16 [of v] by (simp add: less_mult_imp_div_less)
  then show ?thesis by (simp add: rd16_def wr16_def unat_of_nat add.commute)
qed

lemma rd16_far: "a + 2 \<le> b \<or> b + 2 \<le> a \<Longrightarrow> rd16 (wr16 b v m) a = rd16 m a"
proof -
  assume "a + 2 \<le> b \<or> b + 2 \<le> a"
  then have "wr16 b v m a = m a" "wr16 b v m (a + 1) = m (a + 1)" by (auto simp: wr16_def)
  then show ?thesis by (simp only: rd16_def)
qed

lemma rd32_wr32: "rd32 (wr32 a v m) a = v"
proof -
  have v: "unat v < 4294967296" using unsigned_less [of v, where ?'a = nat] by simp
  then have "unat v div 65536 < 65536" by (simp add: less_mult_imp_div_less)
  then have u: "unat (word_of_nat (unat v div 65536) :: u16) = unat v div 65536" "unat (word_of_nat (unat v mod 65536) :: u16) = unat v mod 65536"
    by (simp_all add: unat_of_nat)
  have "rd16 (wr32 a v m) a = word_of_nat (unat v mod 65536)" "rd16 (wr32 a v m) (a + 2) = word_of_nat (unat v div 65536)"
    by (simp_all only: wr32_def rd16_wr16 rd16_far le_refl simp_thms)
  then have "rd32 (wr32 a v m) a = word_of_nat (unat v mod 65536 + 65536 * (unat v div 65536))" by (simp only: rd32_def u)
  then show ?thesis unfolding mod_mult_div_eq by simp
qed

definition size_dirty :: "nat \<Rightarrow> 'a fs_scheme \<Rightarrow> bool" where
  "size_dirty i s \<longleftrightarrow> b_dirty (bufs s ! mi_buf (mi i s)) \<and>
     (\<forall>sb. first_free sb_dev (mi_dev (mi i s)) (super_table s) = Some sb \<longrightarrow> sb_buf (super_table s ! sb) \<noteq> mi_buf (mi i s))"

text \<open>The block of inode \<open>i\<close>, and the place of byte \<open>k\<close> of this block relative to the size field.\<close>

abbreviation inode_key :: "nat \<Rightarrow> 'a fs_scheme \<Rightarrow> int \<times> u32" where
  "inode_key i s \<equiv> key s (mi_buf (mi i s))"

definition size_byte :: "nat \<Rightarrow> 'a fs_scheme \<Rightarrow> nat \<Rightarrow> bool" where
  "size_byte i s k \<longleftrightarrow> mdesc i s + 4 \<le> data (mi_buf (mi i s)) s + k \<and> data (mi_buf (mi i s)) s + k < mdesc i s + 8"

definition store_size :: "nat \<Rightarrow> u32 \<Rightarrow> 'a fs_scheme \<Rightarrow> 'a fs_scheme" where
  "store_size i v s = store (mi_buf (mi i s)) (wr32 (mdesc i s + 4) v (mem s)) s"

lemma set_size_store: "size_dirty i s \<Longrightarrow> set_size (mdesc i s) v s = store_size i v s"
proof -
  assume "size_dirty i s"
  then have "(bufs s ! mi_buf (mi i s))\<lparr>b_dirty := True\<rparr> = bufs s ! mi_buf (mi i s)"
    by (cases "bufs s ! mi_buf (mi i s)") (simp add: size_dirty_def)
  then show ?thesis by (simp add: set_size_def wmem_def store_size_def store_def)
qed

lemma store_size_ready:
  fixes v :: u32
  assumes r: "file_ready R B addr s i q x" and vaild: "b_vaild (bufs s ! mi_buf (mi i s))"
    and d: "\<And>sb. first_free sb_dev (mi_dev (mi i s)) (super_table s) = Some sb \<Longrightarrow> sb_buf (super_table s ! sb) \<noteq> mi_buf (mi i s)"
    and s'_def: "s' = store_size i v s"
  shows "file_ready R B addr s' i q x" "mi i s' = mi i s" "di_size (mdesc i s) s' = v" "di_mode (mdesc i s) s' = di_mode (mdesc i s) s"
    "out_same s s'" "y \<noteq> inode_key i s \<Longrightarrow> view addr s' y = view addr s y"
    "k < BLOCK_SIZE \<Longrightarrow> \<not> size_byte i s k \<Longrightarrow> view addr s' (inode_key i s) ! k = view addr s (inode_key i s) ! k"
proof -
  let ?c = "mi_buf (mi i s)" and ?a = "mdesc i s"
  note inv = file_readyD(1) [OF r]
  note cd = cache_invD [OF inv]
  define m where "m = wr32 (?a + 4) v (mem s)"
  from r obtain sb where sb: "first_free sb_dev (fst x) (super_table s) = Some sb"
    "held s x (sb_buf (super_table s ! sb)) (sb_desc (super_table s ! sb)) 20"
    "q < unat (su_zones (sb_desc (super_table s ! sb)) s)" and h: "held s x ?c ?a 32"
    and q: "q < 7" "fst x = mi_dev (mi i s)" "snd x = ucast (zget (di_zone ?a) q s)" "zget (di_zone ?a) q s \<noteq> 0"
    by (auto simp: file_ready_def)
  have c: "?c < length (bufs s)" "data ?c s \<le> ?a" "?a + 32 \<le> data ?c s + BLOCK_SIZE" using h by (simp_all add: held_def)
  have ne: "sb_buf (super_table s ! sb) \<noteq> ?c" using d sb(1) q(2) by auto
  have m: "m z = mem s z" if "z < ?a + 4 \<or> ?a + 8 \<le> z" for z unfolding m_def using that by (intro wr32_far) auto
  have far: "m z = mem s z" if "z < b_data (bufs s ! ?c) \<or> b_data (bufs s ! ?c) + BLOCK_SIZE \<le> z" for z
    using that c by (intro m) (auto simp: data_def)
  have s': "s' = store ?c m s" by (simp add: s'_def store_size_def m_def)
  have f: "bufs s' = (bufs s)[?c := (bufs s ! ?c)\<lparr>b_dirty := True\<rparr>]" "mem s' = m" "inode_table s' = inode_table s" "super_table s' = super_table s"
    by (simp_all add: s' store_def)
  note st = store_spec [OF inv c(1) vaild far, folded s']
  have kk: "key s' = key s" by (rule st(2))
  show mi': "mi i s' = mi i s" using f(3) by (simp add: mi_def)
  have md: "mdesc i s' = ?a" by (simp add: mdesc_def mi')
  show "di_size ?a s' = v" by (simp add: di_size_def f(2) m_def rd32_wr32)
  show "di_mode ?a s' = di_mode ?a s" by (simp add: di_mode_def f(2) rd16_def m)
  have z: "zget (di_zone ?a) q s' = zget (di_zone ?a) q s" by (simp add: zget_def di_zone_def f(2) rd16_def m)
  have hs: "held s' x b a l = held s x b a l" for b a l using c(1) by (auto simp: held_def f(1) kk data_def nth_list_update)
  have sz: "su_zones (sb_desc (super_table s ! sb)) s' = su_zones (sb_desc (super_table s ! sb)) s"
  proof -
    have b: "sb_buf (super_table s ! sb) < length (bufs s)" using sb(2) by (simp add: held_def)
    have "m (sb_desc (super_table s ! sb) + l) = mem s (sb_desc (super_table s ! sb) + l)" if "l < 20" for l
      using placed_disjoint [OF cd(2) c(1) b] ne sb(2) that by (intro far) (auto simp: held_def data_def)
    from this [of 2] this [of 3] show ?thesis by (simp add: su_zones_def rd16_def f(2) numeral_3_eq_3)
  qed
  have "b_count (bufs s' ! j) = b_count (bufs s ! j)" for j using c(1) by (cases "j = ?c") (simp_all add: f(1))
  then have "available s' x"
    using file_readyD(3) [OF r] by (simp add: available_def room_def get_new_buffer_def f(1) kk Let_def split: if_splits)
  then show "file_ready R B addr s' i q x"
    using st(1) file_readyD(2) [OF r] sb h q z sz unfolding file_ready_def by (simp add: mi' md hs f(4))
  show "out_same s s'"
    unfolding out_same_def f(2) using placed_region [OF cd(2) c(1)] by (intro allI impI far) auto
  show "view addr s' y = view addr s y" if "y \<noteq> inode_key i s" using st(3) [of y] that by simp
  show "view addr s' (inode_key i s) ! k = view addr s (inode_key i s) ! k" if k: "k < BLOCK_SIZE" "\<not> size_byte i s k"
  proof -
    have "view addr s (inode_key i s) = bblock s ?c" by (rule view_hit [OF cd(4) c(1) vaild])
    moreover have "m (b_data (bufs s ! ?c) + k) = mem s (b_data (bufs s ! ?c) + k)"
      using k(2) by (intro m) (auto simp: size_byte_def data_def)
    ultimately show ?thesis using st(3) [of "inode_key i s"] k(1) by (simp add: bblock_def slice_def)
  qed
qed

lemma grow_ready:
  fixes v :: u32
  assumes r: "file_ready R B addr s i q x" and d: "size_dirty i s" and s': "s' = set_size (mdesc i s) v s"
  shows "file_ready R B addr s' i q x" "mi i s' = mi i s" "di_size (mdesc i s) s' = v" "di_mode (mdesc i s) s' = di_mode (mdesc i s) s"
    "out_same s s'" "y \<noteq> inode_key i s \<Longrightarrow> view addr s' y = view addr s y"
    "k < BLOCK_SIZE \<Longrightarrow> \<not> size_byte i s k \<Longrightarrow> view addr s' (inode_key i s) ! k = view addr s (inode_key i s) ! k"
proof -
  have "mi_buf (mi i s) < length (bufs s)" using r by (auto simp: file_ready_def held_def)
  then have v: "b_vaild (bufs s ! mi_buf (mi i s))"
    using cache_invD(5) [OF file_readyD(1) [OF r]] d by (simp add: size_dirty_def buf_ok_def)
  have n: "sb_buf (super_table s ! sb) \<noteq> mi_buf (mi i s)"
    if "first_free sb_dev (mi_dev (mi i s)) (super_table s) = Some sb" for sb using d that by (simp add: size_dirty_def)
  have "s' = store_size i v s" using s' set_size_store [OF d] by simp
  note G = store_size_ready [OF r v n this]
  show "file_ready R B addr s' i q x" "mi i s' = mi i s" "di_size (mdesc i s) s' = v" "di_mode (mdesc i s) s' = di_mode (mdesc i s) s"
    "out_same s s'" by (rule G; assumption)+
  show "view addr s' y = view addr s y" if "y \<noteq> inode_key i s" by (rule G(6); (assumption | fact that))
  show "view addr s' (inode_key i s) ! k = view addr s (inode_key i s) ! k" if "k < BLOCK_SIZE" "\<not> size_byte i s k"
    by (rule G(7); (assumption | fact that))
qed

lemma inode_write_block:
  assumes r: "file_ready R B addr s i (off div BLOCK_SIZE) x" and f: "ISFILE (di_mode (mdesc i s) s)"
    and n: "0 < n" "off mod BLOCK_SIZE + n \<le> BLOCK_SIZE" and u: "outside ubuf n"
    and g: "off + n \<le> unat (di_size (mdesc i s) s) \<or> size_dirty i s \<and> off + n < 2 ^ 32"
  shows "\<exists>s'. inode_write i ubuf (word_of_nat n) (int off) s = Inr (0, s') \<and> file_ready R B addr s' i (off div BLOCK_SIZE) x \<and>
    mi i s' = mi i s \<and> di_mode (mdesc i s) s' = di_mode (mdesc i s) s \<and>
    unat (di_size (mdesc i s) s') = max (unat (di_size (mdesc i s) s)) (off + n) \<and>
    view addr s' x = patched (view addr s x) (off mod BLOCK_SIZE) n (mem s) ubuf \<and>
    (\<forall>y \<in> B. y \<noteq> x \<longrightarrow> view addr s' y = view addr s y \<or> unat (di_size (mdesc i s) s) < off + n \<and> y = inode_key i s \<and>
       (\<forall>k < BLOCK_SIZE. \<not> size_byte i s k \<longrightarrow> view addr s' y ! k = view addr s y ! k))"
proof -
  let ?a = "mdesc i s" and ?w = "word_of_nat (off + n) :: u32"
  define s0 where "s0 = (if di_size ?a s < ?w then set_size ?a ?w s else s)"
  have lt: "off + n < 2 ^ 32" using g unsigned_less [of "di_size ?a s", where ?'a = nat] by auto
  have len: "unat (word_of_nat n :: u32) = n" and w: "unat ?w = off + n" using lt by (simp_all add: unat_of_nat del: of_nat_add)
  have ltw: "di_size ?a s < ?w \<longleftrightarrow> unat (di_size ?a s) < off + n" unfolding word_less_nat_alt w ..
  let ?kept = "\<lambda>s' y. view addr s' y = view addr s y \<or> unat (di_size ?a s) < off + n \<and> y = inode_key i s \<and>
    (\<forall>k < BLOCK_SIZE. \<not> size_byte i s k \<longrightarrow> view addr s' y ! k = view addr s y ! k)"
  have s0: "file_ready R B addr s0 i (off div BLOCK_SIZE) x \<and> mi i s0 = mi i s \<and> di_mode ?a s0 = di_mode ?a s \<and> out_same s s0 \<and>
      unat (di_size ?a s0) = max (unat (di_size ?a s)) (off + n) \<and> (\<forall>y. ?kept s0 y)"
  proof (cases "di_size ?a s < ?w")
    case True
    then have d: "size_dirty i s" "unat (di_size ?a s) < off + n" and e: "s0 = set_size ?a ?w s" using g ltw by (auto simp: s0_def)
    note G = grow_ready [OF r d(1) e]
    have "?kept s0 y" for y using G(6) [of y] G(7) d(2) by blast
    moreover have "unat (di_size ?a s0) = max (unat (di_size ?a s)) (off + n)" unfolding G(3) w using d(2) by simp
    ultimately show ?thesis using G(1,2,4,5) by blast
  next
    case False
    then have "s0 = s" "off + n \<le> unat (di_size ?a s)" using ltw by (simp_all add: s0_def)
    then show ?thesis using r by (simp add: out_same_def)
  qed
  then have s0: "file_ready R B addr s0 i (off div BLOCK_SIZE) x" "mi i s0 = mi i s" "di_mode ?a s0 = di_mode ?a s" "out_same s s0"
      "unat (di_size ?a s0) = max (unat (di_size ?a s)) (off + n)" and kept: "?kept s0 y" for y by blast+
  have key: "inode_key i s \<noteq> x" using r by (simp add: file_ready_def held_def)
  from write_loop_block [OF s0(1) n u] obtain s2 where
    s2: "inode_write_loop (Suc n) i ubuf n off s0 = Inr (0, s2)" "file_ready R B addr s2 i (off div BLOCK_SIZE) x"
      "same_file i (off div BLOCK_SIZE) s0 s2"
      "\<forall>y \<in> B. view addr s2 y = (if y = x then patched (view addr s0 x) (off mod BLOCK_SIZE) n (mem s0) ubuf else view addr s0 y)"
    by blast
  have md: "mdesc i s0 = ?a" by (simp add: mdesc_def s0(2))
  have "mem s0 (ubuf + (k - o')) = mem s (ubuf + (k - o'))" if "o' \<le> k \<and> k < o' + n" for k o'
    using that by (intro outside_same [OF u s0(4)]) linarith
  then have "patched bs o' n (mem s0) ubuf = patched bs o' n (mem s) ubuf" for bs o'
    unfolding patched_def by (intro map_cong if_cong refl) blast
  moreover have "view addr s0 x = view addr s x" using kept [of x] key by blast
  ultimately have vx: "view addr s2 x = patched (view addr s x) (off mod BLOCK_SIZE) n (mem s) ubuf"
    using s2(4) file_readyD(2) [OF r] by simp
  have dir: "\<not> ISDIR (di_mode ?a s)" using f by (simp add: ISDIR_def ISFILE_def IFREG_def IFDIR_def)
  have sz: "word_of_nat n + word_of_int (int off) = ?w" by simp
  have "inode_write i ubuf (word_of_nat n) (int off) s = Inr (0, s2)"
    unfolding inode_write_def mi_def [symmetric] mdesc_def [symmetric] Let_def sz len s0_def [symmetric]
    using dir s2(1) by simp
  moreover have "mi i s2 = mi i s" "di_mode ?a s2 = di_mode ?a s" "unat (di_size ?a s2) = max (unat (di_size ?a s)) (off + n)"
    using same_fileD(2-4) [OF s2(3)] s0(2,3,5) by (simp_all add: md)
  moreover have "view addr s2 y = view addr s y \<or> unat (di_size ?a s) < off + n \<and> y = inode_key i s \<and>
       (\<forall>k < BLOCK_SIZE. \<not> size_byte i s k \<longrightarrow> view addr s2 y ! k = view addr s y ! k)" if "y \<in> B" "y \<noteq> x" for y
  proof -
    have "view addr s2 y = view addr s0 y" using s2(4) that by simp
    with kept [of y] show ?thesis by (simp only:)
  qed
  ultimately show ?thesis using s2(2) vx by blast
qed

lemma inode_read_block:
  assumes r: "file_ready R B addr s i (off div BLOCK_SIZE) x" and f: "ISFILE (di_mode (mdesc i s) s)"
    and n: "0 < n" "off mod BLOCK_SIZE + n \<le> BLOCK_SIZE" "off + n \<le> unat (di_size (mdesc i s) s)" and u: "outside ubuf n"
  shows "\<exists>s'. inode_read i ubuf (word_of_nat n) (int off) s = Inr (int n, s') \<and> same_view B addr s s' \<and>
    (\<forall>k < n. mem s' (ubuf + k) = view addr s x ! (off mod BLOCK_SIZE + k))"
proof -
  let ?q = "off div BLOCK_SIZE" and ?o = "off mod BLOCK_SIZE" and ?sz = "di_size (mdesc i s) s"
  from block_read [OF r] obtain b s1 where s1: "bread (fst x) (snd x) s = Inr (b, s1)" "b < length (bufs s1)" "key s1 b = x"
    "bblock s1 b = view addr s x" "same_view B addr s s1"
    "file_ready R B addr s1 i ?q x" "same_file i ?q s s1" by blast
  define m where "m = mem_copy ubuf (b_data (bufs s1 ! b) + ?o) n (mem s1)"
  note reg = placed_region [OF cache_invD(2) [OF file_readyD(1) [OF s1(6)]] s1(2)]
  have "ubuf + n \<le> b_data (bufs s1 ! b) + ?o \<or> b_data (bufs s1 ! b) + ?o + n \<le> ubuf"
    using u reg n(2) unfolding outside_def by linarith
  note c = mem_copy_nth [OF this]
  have mb: "m a = mem s1 a" if "BUFFER_M_START \<le> a" "a < BUFFER_M_END" for a
    using that u unfolding m_def c outside_def by auto
  note us = user_ready [OF s1(6) mb] user_mem(2) [OF file_readyD(1) [OF s1(6)] mb]
  have w: "wmem (mem_copy ubuf (data b s1 + ?o) n) s1 = s1\<lparr>mem := m\<rparr>" by (simp add: wmem_def m_def data_def)
  have b2: "b < length (bufs (s1\<lparr>mem := m\<rparr>))" "key (s1\<lparr>mem := m\<rparr>) b = x" using s1(2,3) by (simp_all add: key_def)
  from block_release [OF us(1) b2] obtain s2 where s2: "brelse (Some b) (s1\<lparr>mem := m\<rparr>) = Inr s2" "mem s2 = m"
    "same_view B addr (s1\<lparr>mem := m\<rparr>) s2" by auto
  have sv: "same_view B addr s s2" using s1(5) s2(3) us(3) by (simp add: same_view_def)
  have cp: "mem s2 (ubuf + k) = view addr s x ! (?o + k)" if "k < n" for k
  proof -
    have "m (ubuf + k) = mem s1 (b_data (bufs s1 ! b) + (?o + k))" using that unfolding m_def c by (simp add: add.assoc)
    also have "\<dots> = view addr s x ! (?o + k)" using that n(2) s1(4) [symmetric] by (simp add: bblock_def slice_def)
    finally show ?thesis by (simp add: s2(2))
  qed
  have lt: "off + n < 2 ^ 32" using n(3) unsigned_less [of ?sz, where ?'a = nat] by simp
  have len: "unat (word_of_nat n :: u32) = n" using lt by (simp add: unat_of_nat)
  have "unat (word_of_nat off :: u32) = off" using lt by (simp add: unat_of_nat)
  then have ns: "(word_of_nat off :: u32) < ?sz" using n(1,3) unfolding word_less_nat_alt by simp
  then have rest: "\<not> unat (?sz - word_of_nat off) < n"
    using n(1,3) \<open>unat (word_of_nat off :: u32) = off\<close> by (simp add: unat_sub)
  have sz1: "\<not> BLOCK_SIZE - ?o < n" using n(2) by simp
  have fx: "fst x = mi_dev (mi i s)" "snd x = ucast (zget (di_zone (mdesc i s)) ?q s)" "zget (di_zone (mdesc i s)) ?q s \<noteq> 0"
    using r unfolding file_ready_def by blast+
  have bm: "bmap i (int ?q) False s = Inr (zget (di_zone (mdesc i s)) ?q s, s)" by (rule bmap_direct [OF r])
  have br: "bread (mi_dev (mi i s)) (ucast (zget (di_zone (mdesc i s)) ?q s)) s = Inr (b, s1)" using s1(1) fx by simp
  have m1: "mi i s1 = mi i s" "di_size (mdesc i s) s1 = ?sz" using s1(7) by (simp_all add: same_file_def)
  have "inode_read_loop (Suc n) i ubuf n off (word_of_int (int off)) 0 s =
    inode_read_loop n i (ubuf + n) 0 ((?q + 1) * BLOCK_SIZE) (word_of_int (int off)) n s2"
    unfolding inode_read_loop.simps(2) mi_def [symmetric] mdesc_def [symmetric] bm rbind_simps prod.case br Let_def m1
      of_nat_0 add_0_right of_int_of_nat_eq
    using n(1) ns fx(3) rest sz1 by (simp add: w s2(1) del: inode_read_loop.simps)
  also have "\<dots> = Inr (n, s2)" using n(1) by (cases n) (simp_all add: Let_def)
  finally have lp: "inode_read_loop (Suc n) i ubuf n off (word_of_int (int off)) 0 s = Inr (n, s2)" .
  have "inode_read i ubuf (word_of_nat n) (int off) s = Inr (int n, s2)"
    unfolding inode_read_def mi_def [symmetric] mdesc_def [symmetric] Let_def len nat_int lp
    using f ns by (auto dest: leD)
  with sv cp show ?thesis by blast
qed

end
