(* ===== verification/File_Theorems.thy ===== *)
theory File_Theorems
  imports Minix_Theorems
begin

text \<open>Properties of the file system calls, with an example of a file on a disk.\<close>

section \<open>A file on a disk\<close>

text \<open>
  Inode 1 is at the start of block 0 of the partition, which is at sector 64: a regular file
  of 100 bytes with its first zone in block 2 and an indirect zone 5. The super block in block 1 has 100 zones.
\<close>

definition ex_img :: "nat \<Rightarrow> u8" where
  "ex_img a = (if a = 32769 then 0x80 else if a = 32772 then 100 else if a = 32782 then 2 else if a = 32796 then 5 else if a = 33794 then 100 else 0)"

definition ex_base :: "fs_task" where
  "ex_base = buffer_init \<lparr>mem = word_of_nat, disks = [\<lparr>dk_bytes = ex_img, dk_max_lba = 10000, dk_lba48 = False, dk_ok = True\<rparr>],
     devices = [null_device 0, ex_disk, ex_part], parts = [\<lparr>part_name = [], part_disk = 1, part_system = 0,
       part_start = 64, part_count = 1000\<rparr>], lheap = list_init empty_heap 100, bufs = [], inode_table = [], super_table = [],
     i_root = None, i_pwd = None, pwd = [],
     files = [None, None, None, Some \<lparr>f_inode = 0, f_offset = 7, f_flags = 2, f_mode = 0x8000\<rparr>],
     t_umask = 0, t_uid = 0, t_gid = 0\<rparr>"

lemma ex_base_fields: "bufs ex_base = []" "disks ex_base = [\<lparr>dk_bytes = ex_img, dk_max_lba = 10000, dk_lba48 = False, dk_ok = True\<rparr>]"
  "mem ex_base = word_of_nat"
  "files ex_base = [None, None, None, Some \<lparr>f_inode = 0, f_offset = 7, f_flags = 2, f_mode = 0x8000\<rparr>]"
  by (simp_all add: ex_base_def buffer_init_def)

lemma few_room:
  assumes "length (bufs s) \<le> 10"
  shows "available s x"
proof -
  have "8388680 + 72 * length (bufs s) < 12581888 - 1024 * length (bufs s)" using assms by linarith
  then show ?thesis
    by (simp add: available_def room_def get_new_buffer_def Let_def BUFFER_M_START_def BUFFER_M_END_def
      sizeof_buffer_def BLOCK_SIZE_def)
qed

lemma table_inv:
  assumes inv: "cache_inv R B addr s"
  shows "cache_inv R B addr (s\<lparr>inode_table := it, super_table := st\<rparr>)"
proof -
  let ?s = "s\<lparr>inode_table := it, super_table := st\<rparr>"
  note d = cache_invD [OF inv]
  have k: "key ?s = key s" by (rule key_cong) simp
  have "bblock ?s = bblock s" "dblock addr ?s = dblock addr s" by (simp_all add: bblock_def dblock_def fun_eq_iff)
  moreover have "disks_ok R B addr ?s" by (rule disks_ok_dsame [OF d(1)]) (rule dsame_cong; simp)
  moreover have "placed ?s" using d(2) by (simp add: placed_def)
  ultimately show ?thesis using d(3-5) by (simp add: cache_inv_def k buf_ok_def)
qed

lemma ex_file:
  "\<exists>s :: fs_task. file_ready {100} ex_blocks ex_addr s 0 0 (2, 2) \<and> ISFILE (di_mode (mdesc 0 s) s) \<and>
     di_size (mdesc 0 s) s = 100 \<and> files s = files ex_base \<and> out_same ex_base s \<and>
     b_vaild (bufs s ! mi_buf (mi 0 s)) \<and> sb_buf (super_table s ! 0) \<noteq> mi_buf (mi 0 s) \<and> first_free sb_dev 2 (super_table s) = Some 0 \<and>
     get_super 2 s = Inr (0, s) \<and> mi_dev (mi 0 s) = 2 \<and> su_zones (sb_desc (super_table s ! 0)) s = 100 \<and>
     zget (di_zone (mdesc 0 s)) 0 s = 2 \<and> zget (di_zone (mdesc 0 s)) 7 s = 5"
proof -
  have B: "(2, 0) \<in> ex_blocks" "(2, 1) \<in> ex_blocks" "(2, 2) \<in> ex_blocks" by (simp_all add: ex_blocks_def)
  have inv: "cache_inv {100} ex_blocks ex_addr ex_base" unfolding ex_base_def by (rule ex_base_inv) simp_all
  have v: "view ex_addr ex_base x = slice ex_img (snd (ex_addr x))" for x
    using view_miss [of ex_base x ex_addr] by (simp add: ex_base_fields dblock_def ex_addr_def)
  from bread_spec [OF inv B(1) few_room] obtain i s1 where s1: "bread 2 0 ex_base = Inr (i, s1)"
    "got {100} ex_blocks ex_addr (2, 0) i ex_base s1" "b_vaild (bufs s1 ! i)" "bblock s1 i = view ex_addr ex_base (2, 0)"
    by (auto simp: ex_base_fields)
  then have g1: "cache_inv {100} ex_blocks ex_addr s1" "out_same ex_base s1" "same_view ex_blocks ex_addr ex_base s1"
    "i < length (bufs s1)" "key s1 i = (2, 0)" "length (bufs s1) \<le> 1" "b_count (bufs s1 ! i) = 1"
    unfolding got_def by (simp_all add: ex_base_fields)
  then have i0: "i = 0" "length (bufs s1) = 1" by simp_all
  from bread_spec [OF g1(1) B(2) few_room] i0(2) obtain j s2 where s2: "bread 2 1 s1 = Inr (j, s2)"
    "got {100} ex_blocks ex_addr (2, 1) j s1 s2" "bblock s2 j = view ex_addr s1 (2, 1)" by auto
  have "\<forall>c < length (bufs s1). key s1 c \<noteq> (2, 1)" using g1(5) i0 by simp
  with s2(2) have g2: "cache_inv {100} ex_blocks ex_addr s2" "out_same s1 s2" "j < length (bufs s2)" "key s2 j = (2, 1)"
    "length (bufs s2) \<le> 2" "b_count (bufs s2 ! j) = 1" "length (bufs s1) \<le> length (bufs s2)"
    and keep: "j \<noteq> i \<Longrightarrow> bufs s2 ! i = bufs s1 ! i \<and> bblock s2 i = bblock s1 i"
    and cnt: "j < length (bufs s1) \<Longrightarrow> b_count (bufs s1 ! j) = 0"
    unfolding got_def using i0 g1(7) by simp_all
  have ji: "j \<noteq> i" using cnt g1(7) i0 by auto
  have bi: "bblock s2 i = slice ex_img 32768"
    using keep [OF ji] s1(4) by (simp add: v ex_addr_def byte_of_def SECTOR_SIZE_def)
  have "view ex_addr s1 (2, 1) = view ex_addr ex_base (2, 1)" using g1(3) B(2) by (simp add: same_view_def)
  then have bj: "bblock s2 j = slice ex_img 33792"
    using s2(3) by (simp add: v ex_addr_def byte_of_def SECTOR_SIZE_def)
  have m0: "mem s2 (data i s2 + k) = ex_img (32768 + k)" "mem s2 (data j s2 + k) = ex_img (33792 + k)" if "k < BLOCK_SIZE" for k
    using slice_nth [OF _ that, of "mem s2" _ ex_img] bi bj by (simp_all add: bblock_def data_def)
  note mi = m0 m0 [unfolded add.commute [of "data _ s2"]]
  define s where "s = s2\<lparr>inode_table := [\<lparr>mi_desc = data i s2, mi_buf = i, mi_dev = 2, mi_nr = 1, mi_count = 1, mi_ctime = 0\<rparr>],
    super_table := [\<lparr>sb_desc = data j s2, sb_buf = j, imaps = [], zmaps = [], sb_dev = 2\<rparr>]\<rparr>"
  have s: "bufs s = bufs s2" "mem s = mem s2" "mi 0 s = \<lparr>mi_desc = data i s2, mi_buf = i, mi_dev = 2, mi_nr = 1, mi_count = 1, mi_ctime = 0\<rparr>"
    "super_table s = [\<lparr>sb_desc = data j s2, sb_buf = j, imaps = [], zmaps = [], sb_dev = 2\<rparr>]" "key s = key s2"
    by (simp_all add: s_def mi_def key_def fun_eq_iff)
  have md: "mdesc 0 s = data i s2" by (simp add: mdesc_def s)
  have bt: "rd16 (mem s) (data i s2 + 14) = 2" "rd16 (mem s) (data i s2) = 0x8000" "rd32 (mem s) (data i s2 + 4) = 100"
    "rd16 (mem s) (data j s2 + 2) = 100" "rd16 (mem s) (data i s2 + 14 + 2 * 7) = 5"
    using mi [of 0] mi [of 1] mi [of 4] mi [of 5] mi [of 6] mi [of 7] mi [of 14] mi [of 15] mi [of 28] mi [of 29] mi [of 2] mi [of "Suc (Suc (Suc 0))"]
    by (simp_all add: rd16_def rd32_def s(2) add.assoc ex_img_def BLOCK_SIZE_def)
  have zg: "zget (di_zone (data i s2)) 0 s = 2" "su_zones (data j s2) s = 100" "di_mode (data i s2) s = 0x8000"
    "di_size (data i s2) s = 100" "zget (di_zone (data i s2)) 7 s = 5"
    using bt by (simp_all add: zget_def di_zone_def su_zones_def di_mode_def di_size_def)
  have cv: "cache_inv {100} ex_blocks ex_addr s" unfolding s_def by (rule table_inv [OF g2(1)])
  have av: "available s (2, 2)" using g2(5) by (intro few_room) (simp add: s)
  have h: "held s (2, 2) i (data i s2) 32" "held s (2, 2) j (data j s2) 20"
    using g1(5,7) g2(3,4,6,7) i0 keep [OF ji] by (auto simp: held_def s data_def BLOCK_SIZE_def key_def)
  have "file_ready {100} ex_blocks ex_addr s 0 0 (2, 2)"
    using cv av B(3) h unfolding file_ready_def md by (simp add: s zg)
  moreover have "files s = files ex_base"
  proof -
    from yieldsD [OF bread_keeps [OF keeps_refl] s1(1)] yieldsD [OF bread_keeps [OF keeps_refl] s2(1)]
    have "bcache.more s2 = bcache.more ex_base" by (simp add: keeps_def)
    from bcache_more_fs [OF this] have "files s2 = files ex_base" using fs_more_task by blast
    then show ?thesis by (simp add: s_def)
  qed
  moreover have "out_same ex_base s" using g1(2) g2(2) by (simp add: out_same_def s(2))
  ultimately show ?thesis
    using s1(3) keep [OF ji] ji by (intro exI [of _ s]) (simp add: md zg s get_super_def ISFILE_def IFMT_def IFREG_def)
qed

section \<open>Properties\<close>



text \<open>
  C28: \<^verbatim>\<open>sys_write\<close> on a file never returns the number of bytes: it returns 0 or \<^verbatim>\<open>EOF\<close>, and the
  offset of the file stays, so that the next write overwrites the same bytes.
\<close>

theorem sys_write_returns_zero:
  assumes "fd \<noteq> 1" "fd \<noteq> 2" "sys_write fd buf count s = Inr (n, s')"
  shows "(n = 0 \<or> n = EOF) \<and> files s' = files s"
proof -
  from assms obtain f where f: "open_file fd s = Inr f" by (cases "open_file fd s") (auto simp: sys_write_def)
  then have fd: "nat fd < length (files s)" "files s ! nat fd = Some f"
    by (auto simp: open_file_def ensure_def arr_get_def split: if_splits option.splits)
  show ?thesis
  proof (cases "f_flags f AND O_ACCMODE = O_RDONLY")
    case True
    with assms f show ?thesis by (auto simp: sys_write_def)
  next
    case False
    with assms f obtain m s1 where w: "inode_write (f_inode f) buf (word_of_int count) (f_offset f) s = Inr (m, s1)"
      and r: "n = m" "s' = (if m \<noteq> EOF then set_offset fd (f_offset f + m) s1 else s1)"
      by (cases "inode_write (f_inode f) buf (word_of_int count) (f_offset f) s") (auto simp: sys_write_def)
    have "fkeeps s s" by (simp add: fkeeps_def)
    from yieldsD [OF inode_write_fkeeps [OF this] w] have m: "m = 0" and k: "fkeeps s s1" by simp_all
    from k have fl: "files s1 = files s" using fs_more_task [of s1 s] by (simp add: fkeeps_def)
    have "files (set_offset fd (f_offset f + 0) s1) = files s"
      using fd by (simp add: set_offset_def fl list_update_same_conv)
    with r m fl show ?thesis by simp
  qed
qed

theorem sys_write_returns_zero_witness:
  "\<exists>s s' :: fs_task. sys_write 3 0x1000 5 s = Inr (0, s') \<and> map_option f_offset (files s' ! 3) = Some 7"
proof -
  from ex_file obtain s :: fs_task where s: "file_ready {100} ex_blocks ex_addr s 0 0 (2, 2)" "ISFILE (di_mode (mdesc 0 s) s)"
    "di_size (mdesc 0 s) s = 100" "files s = files ex_base" by blast
  have o: "outside 0x1000 5" by (simp add: outside_def BUFFER_M_START_def)
  from inode_write_block [of "{100}" ex_blocks ex_addr s 0 7 "(2, 2)" 5 "0x1000", OF _ s(2)] s(1,3) o
  obtain s1 where "inode_write 0 0x1000 5 7 s = Inr (0, s1)" by (auto simp: BLOCK_SIZE_def)
  then have w: "sys_write 3 0x1000 5 s = Inr (0, set_offset 3 7 s1)"
    by (simp add: sys_write_def open_file_def arr_get_def s(4) ex_base_fields O_ACCMODE_def O_RDONLY_def EOF_def ensure_def)
  from sys_write_returns_zero [OF _ _ w] have "files (set_offset 3 7 s1) = files s" by simp
  then have "map_option f_offset (files (set_offset 3 7 s1) ! 3) = Some 7" by (simp add: s(4) ex_base_fields)
  with w show ?thesis by blast
qed

text \<open>
  block \<open>b\<close> of a file behind the direct ones is looked up in the data of block \<open>b - 7\<close>, not in
  the index block that zone 7 names.
\<close>

theorem bmap_indirect_misreads:
  assumes "get_super (mi_dev (mi i s)) s = Inr (sb, s)" "7 \<le> b" "b < 526"
    "b < unat (su_zones (sb_desc (super_table s ! sb)) s)" "zget (di_zone (mdesc i s)) 7 s \<noteq> 0"
    "bread (mi_dev (mi i s)) (ucast (zget (di_zone (mdesc i s)) (b - 7) s)) s = Inr (bf, s1)"
  shows "bmap i (int b) False s = rbind (brelse (Some bf) s1) (\<lambda>s2. Inr (zget (data bf s1) (b - 7) s1, s2))"
proof -
  have "int b < uint (su_zones (sb_desc (super_table s ! sb)) s)" using assms(4) by (simp only: uint_nat of_nat_less_iff)
  then have en: "ensure (0 \<le> int b \<and> int b < uint (su_zones (sb_desc (super_table s ! sb)) s)) Assert = Inr ()" by simp
  have r: "\<not> b < 7" "b - 7 < 7 + ZONES_IDX_PER_BLOCK" using assms(2,3) by (simp_all add: ZONES_IDX_PER_BLOCK_def BLOCK_SIZE_def)
  have ix: "(b - 7) div 1 mod 65536 = b - 7" using assms(3) by simp
  have last: "bmap_loop 0 dev arr buf (Some bf) None (b - 7) v w False s1 =
      rbind (brelse (Some bf) s1) (\<lambda>s2. Inr (zget arr (b - 7) s1, s2))" for dev arr buf v w
    by (subst bmap_loop.simps) (simp add: Let_def, simp add: brelse_def [of None])
  have "bmap_loop 1 (mi_dev (mi i s)) (di_zone (mdesc i s)) (mi_buf (mi i s)) None None 7 (b - 7) 1 False s =
      rbind (brelse (Some bf) s1) (\<lambda>s2. Inr (zget (data bf s1) (b - 7) s1, s2))"
    by (subst bmap_loop.simps) (simp add: assms(5) Let_def ix [simplified] assms(6) last del: bmap_loop.simps)
  then show ?thesis
    unfolding bmap_def mi_def [symmetric] Let_def assms(1) rbind_simps prod.case en nat_int if_not_P [OF r(1)] if_P [OF r(2)]
      mdesc_def [symmetric] .
qed

theorem bmap_indirect_misreads_witness:
  "\<exists>s s1 bf :: nat. bmap 0 7 False (s :: fs_task) = rbind (brelse (Some bf) s1) (\<lambda>s2. Inr (zget (data bf s1) 0 s1, s2)) \<and>
     zget (di_zone (mdesc 0 s)) 7 s = 5 \<and> key s1 bf = (2, 2)"
proof -
  from ex_file obtain s :: fs_task where s: "file_ready {100} ex_blocks ex_addr s 0 0 (2, 2)" "get_super 2 s = Inr (0, s)"
    "mi_dev (mi 0 s) = 2" "su_zones (sb_desc (super_table s ! 0)) s = 100" "zget (di_zone (mdesc 0 s)) 0 s = 2"
    "zget (di_zone (mdesc 0 s)) 7 s = 5" by blast
  from block_read [OF s(1)] obtain bf s1 where b: "bread 2 2 s = Inr (bf, s1)" "key s1 bf = (2, 2)" by auto
  from bmap_indirect_misreads [of 0 s 0 7 bf s1] s b show ?thesis by auto
qed

section \<open>Missing names\<close>

text \<open>
  removing a name that its directory does not hold calls \<^verbatim>\<open>iput\<close> on a null pointer.
\<close>

theorem unlink_missing_faults:
  assumes "namei_from path False s = Inr (Some dir, s1)" "filename path = Inr nm" "find_entry dir nm s1 = Inr (None, s2)"
  shows "sys_unlink path s = Inl Fault"
  using assms by (simp add: sys_unlink_def link_rollback_def brelse_def iput_def deref_def)

text \<open>A task whose root and working directory are an empty directory.\<close>

definition ex_empty :: fs_task where
  "ex_empty = ex_base\<lparr>mem := (\<lambda>a. if a = 1 then 0x40 else 0), inode_table := [\<lparr>mi_desc = 0, mi_buf = 0, mi_dev = 2, mi_nr = 1,
     mi_count = 1, mi_ctime = 0\<rparr>], i_root := Some 0, i_pwd := Some 0\<rparr>"

definition ex_open :: fs_task where
  "ex_open = upd_inode 0 (\<lambda>x. x\<lparr>mi_count := mi_count x + 1\<rparr>) ex_empty"

lemma ex_open_fields: "ISDIR (di_mode (mdesc 0 ex_open) ex_open)" "di_size (mdesc 0 ex_open) ex_open = 0"
  "i_pwd ex_empty = Some 0" "mi_count (inode_table ex_open ! 0) = 2"
  by (simp_all add: ex_open_def ex_empty_def upd_inode_def mdesc_def mi_def di_mode_def di_size_def rd16_def rd32_def
      ISDIR_def IFMT_def IFDIR_def)

lemma ex_empty_walk:
  "filename [0x61, 0] = Inr (Some [0x61, 0])"
  "find_entry 0 (Some [0x61, 0]) ex_open = Inr (None, ex_open)"
  "namei_from [0x61, 0] False ex_empty = Inr (Some 0, ex_open)"
proof -
  show "filename [0x61, 0] = Inr (Some [0x61, 0])" by code_simp
  show f: "find_entry 0 (Some [0x61, 0]) ex_open = Inr (None, ex_open)"
    using ex_open_fields by (simp add: find_entry_def ensure_def)
  have n: "next_name [0x61, 0] = Inr (Some [0])" by code_simp
  have "namei_loop False 0 [0x61, 0] ex_open = Inr (Some 0, ex_open)"
    using ex_open_fields(1) by (subst namei_loop.simps) (simp add: f n ensure_def del: namei_loop.simps next_name.simps)
  then show "namei_from [0x61, 0] False ex_empty = Inr (Some 0, ex_open)"
    by (simp add: namei_from_def IS_SEPARATOR_def ex_open_fields deref_def ex_open_def [symmetric] del: namei_loop.simps)
qed

theorem unlink_missing_faults_witness: "sys_unlink [0x61, 0] ex_empty = Inl Fault"
  by (rule unlink_missing_faults [OF ex_empty_walk(3,1,2)])

text \<open>
  \<^verbatim>\<open>sys_rmdir\<close> of any path with a name removes nothing: it walks to the parent, releases it and
  returns \<^verbatim>\<open>EOF\<close>.
\<close>

theorem rmdir_never_removes:
  assumes "filename path = Inr (Some nm)"
  shows "sys_rmdir path s = rbind (namei_from path False s) (\<lambda>(d, s). rbind (iput_opt d s) (\<lambda>s. Inr (EOF, s)))"
  using assms by (simp add: sys_rmdir_def rmdir_rollback_def iput_opt_def brelse_def)

theorem rmdir_never_removes_witness:
  "\<exists>s. sys_rmdir [0x61, 0] ex_empty = Inr (EOF, s)"
  unfolding rmdir_never_removes [OF ex_empty_walk(1)] ex_empty_walk(3)
  by (simp add: iput_opt_def iput_def deref_def ex_open_fields ensure_def)

end
