(* ===== verification/Task.thy ===== *)
theory Task
  imports Kernel_List Paging
begin

text \<open>
  Tasks and the scheduler, \<^verbatim>\<open>kernel/task.c\<close> and \<^verbatim>\<open>kernel/clock.c\<close>. Every operation that
  ends in \<^verbatim>\<open>schedule\<close> may return in another task. What is left to do in a task when it is
  switched out, the frames on its kernel stack, is data of the model: \<^verbatim>\<open>task_switch\<close> stores
  the frames of the outgoing task and runs those of the incoming one. The lists are the
  lists of \<^verbatim>\<open>list.c\<close> on the node heap, and the tasks' control blocks are kernel pages.
\<close>

section \<open>State\<close>

datatype task_state_t = TASK_INIT | TASK_RUNNING | TASK_READY | TASK_BLOCKED | TASK_SLEEPING
  | TASK_WAITING | TASK_DIED

text \<open>
  What a suspended routine does after \<^verbatim>\<open>schedule\<close> returns: restore the interrupt flag, or
  the part of \<^verbatim>\<open>sys_waitpid\<close> at \<^verbatim>\<open>freeTask\<close> for the child and node it had found.
\<close>

datatype frame = SetIF bool | FreeTask nat nref

record TCB_t =
  t_state :: task_state_t
  t_status :: int
  priority :: u32
  ticks :: u32
  t_jiffies :: u32
  t_name :: string
  uid :: u32
  gid :: u32
  pid :: int
  ppid :: int
  waitpid :: int
  t_pde :: u32
  vmap :: "bitmap_t option"
  vmap_page :: u32
  t_pwd :: string
  brk :: u32
  umask :: u32
  magic :: u32
  stack :: u32
  frames :: "frame list"
  wait_result :: "(int \<times> int) option"

text \<open>
  \<open>vmap = None\<close> is the kernel's bitmap, whose bytes are at \<open>0x6000\<close>. \<open>wait_result\<close> is what
  a finished \<^verbatim>\<open>sys_waitpid\<close> returned: the pid and the status it stored.
\<close>

record kernel = pmem +
  heap :: list_heap
  tcbs :: "nat \<Rightarrow> TCB_t option"
  task_bucket :: "nref list"
  running_task :: nref
  jiffies :: u32
  esp0 :: u32

definition block_list :: nat where "block_list = 0"
definition sleep_list :: nat where "sleep_list = 1"
definition ready_list :: nat where "ready_list = 2"
definition died_list :: nat where "died_list = 3"

lemmas list_ids = block_list_def sleep_list_def ready_list_def died_list_def

definition TASK_NUM :: nat where "TASK_NUM = 64"
definition RDIX_MAGIC :: u32 where "RDIX_MAGIC = 0x01011017"
definition KERNEL_UID :: u32 where "KERNEL_UID = 0"
definition USER_UID :: u32 where "USER_UID = 3"
definition JIFFY :: u32 where "JIFFY = 1000 div 100"

text \<open>The control block of a task node, and its update.\<close>

definition owner_of :: "'a kernel_scheme \<Rightarrow> nref \<Rightarrow> nat res" where
  "owner_of s r = rbind (get_node (heap s) r) (\<lambda>n. Inr (n_owner n))"

definition get_tcb :: "'a kernel_scheme \<Rightarrow> nat \<Rightarrow> TCB_t res" where
  "get_tcb s a = (case tcbs s a of None \<Rightarrow> Inl Fault | Some t \<Rightarrow> Inr t)"

definition upd_tcb :: "nat \<Rightarrow> (TCB_t \<Rightarrow> TCB_t) \<Rightarrow> 'a kernel_scheme \<Rightarrow> 'a kernel_scheme res" where
  "upd_tcb a f s = rbind (get_tcb s a) (\<lambda>t. Inr (s\<lparr>tcbs := (tcbs s)(a \<mapsto> f t)\<rparr>))"

text \<open>A list operation on the state.\<close>

definition on_heap :: "(list_heap \<Rightarrow> list_heap res) \<Rightarrow> 'a kernel_scheme \<Rightarrow> 'a kernel_scheme res" where
  "on_heap f s = rbind (f (heap s)) (\<lambda>h. Inr (s\<lparr>heap := h\<rparr>))"

section \<open>Switching\<close>

text \<open>
  \<^verbatim>\<open>freeTask\<close>: the control block \<open>child\<close> leaves the task table, its page and its node are
  freed. The node is removed from its list after its control block is gone.
\<close>

definition free_task :: "nat \<Rightarrow> nref \<Rightarrow> 'a kernel_scheme \<Rightarrow> (int \<times> int \<times> 'a kernel_scheme) res" where
  "free_task child child_node s =
     rbind (get_tcb s child) (\<lambda>c.
     rbind (ensure (0 \<le> pid c) Fault) (\<lambda>_.
     rbind (arr_set (task_bucket s) (nat (pid c)) Null) (\<lambda>b.
     rbind (free_kpage (word_of_nat child) 1 (s\<lparr>task_bucket := b\<rparr>)) (\<lambda>s.
     let s = s\<lparr>tcbs := (tcbs s)(child := None)\<rparr> in
     rbind (on_heap (\<lambda>h. remove_node h child_node) s) (\<lambda>s.
     let s = s\<lparr>heap := (heap s)\<lparr>nodes := (nodes (heap s))(child_node := None)\<rparr>\<rparr> in
     Inr (pid c, t_status c, s))))))"

fun run_frame :: "frame \<Rightarrow> 'a kernel_scheme \<Rightarrow> 'a kernel_scheme res" where
  "run_frame (SetIF b) s = Inr (set_IF b s)"
| "run_frame (FreeTask child child_node) s =
     rbind (free_task child child_node s) (\<lambda>(ret, status, s).
     rbind (owner_of s (running_task s)) (\<lambda>a.
     upd_tcb a (\<lambda>t. t\<lparr>wait_result := Some (ret, status)\<rparr>) s))"

definition run_frames :: "frame list \<Rightarrow> 'a kernel_scheme \<Rightarrow> 'a kernel_scheme res" where
  "run_frames k s = for_each run_frame k s"

text \<open>
  \<^verbatim>\<open>task_switch\<close>: the frames \<open>k\<close> of the outgoing task are saved on its stack, if there is
  an outgoing task, and the incoming task goes on with its own.
\<close>

definition task_switch :: "frame list \<Rightarrow> nat option \<Rightarrow> nat \<Rightarrow> 'a kernel_scheme \<Rightarrow> 'a kernel_scheme res" where
  "task_switch k current next s =
     rbind (case current of None \<Rightarrow> Inr s | Some c \<Rightarrow> upd_tcb c (\<lambda>t. t\<lparr>frames := k\<rparr>) s) (\<lambda>s.
     rbind (get_tcb s next) (\<lambda>n.
     rbind (upd_tcb next (\<lambda>t. t\<lparr>frames := []\<rparr>) s) (\<lambda>s.
     run_frames (frames n) s)))"

text \<open>\<^verbatim>\<open>schedule\<close>, called where \<open>k\<close> is left to do.\<close>

definition schedule :: "frame list \<Rightarrow> 'a kernel_scheme \<Rightarrow> 'a kernel_scheme res" where
  "schedule k s =
     rbind (ensure (get_IF s = False) Assert) (\<lambda>_.
     rbind (list_popback (heap s) ready_list) (\<lambda>(next, h).
     let s = s\<lparr>heap := h\<rparr> in
     if next = Null then
       rbind (ensure (running_task s \<noteq> Null) Assert) (\<lambda>_.
       rbind (owner_of s (running_task s)) (\<lambda>a.
       rbind (get_tcb s a) (\<lambda>t.
       rbind (ensure (t_state t = TASK_RUNNING) Assert) (\<lambda>_.
       run_frames k s))))
     else
       rbind (owner_of s next) (\<lambda>next_tcb.
       if running_task s = Null then
         task_switch k None next_tcb (s\<lparr>running_task := next\<rparr>)
       else
         rbind (owner_of s (running_task s)) (\<lambda>current_tcb.
         rbind (get_tcb s next_tcb) (\<lambda>nt.
         rbind (ensure (magic nt = RDIX_MAGIC) Assert) (\<lambda>_.
         rbind (upd_tcb next_tcb (\<lambda>t. t\<lparr>t_state := TASK_RUNNING\<rparr>) s) (\<lambda>s.
         rbind (get_node (heap s) (running_task s)) (\<lambda>rn.
         rbind (if n_container rn = None then
                  rbind (upd_tcb current_tcb (\<lambda>t. t\<lparr>t_state := TASK_READY\<rparr>) s) (\<lambda>s.
                  on_heap (\<lambda>h. list_push h ready_list (running_task s)) s)
                else Inr s) (\<lambda>s.
         let s = (if t_pde nt \<noteq> cr3 s then s\<lparr>cr3 := t_pde nt\<rparr> else s);
             s = (if uid nt = USER_UID
                  then s\<lparr>esp0 := (stack nt AND 0xfffff000) + PAGE_SIZE\<rparr> else s) in
         task_switch k (Some current_tcb) next_tcb (s\<lparr>running_task := next\<rparr>))))))))))"

section \<open>Blocking, sleeping, waking\<close>

definition block :: "nat option \<Rightarrow> nref \<Rightarrow> task_state_t \<Rightarrow> frame list \<Rightarrow> 'a kernel_scheme \<Rightarrow> 'a kernel_scheme res" where
  "block lst task task_state k s =
     (let (IF_stat, s) = get_and_disable_IF s;
          task = (if task \<noteq> Null then task else running_task s);
          lst = (case lst of Some l \<Rightarrow> l | None \<Rightarrow> block_list) in
      rbind (owner_of s task) (\<lambda>a.
      rbind (upd_tcb a (\<lambda>t. t\<lparr>t_state := task_state\<rparr>) s) (\<lambda>s.
      rbind (get_node (heap s) task) (\<lambda>n.
      rbind (if n_container n \<noteq> None then on_heap (\<lambda>h. remove_node h task) s else Inr s) (\<lambda>s.
      rbind (on_heap (\<lambda>h. list_push h lst task) s) (\<lambda>s.
      schedule (SetIF IF_stat # k) s))))))"

definition unblock :: "nref \<Rightarrow> 'a kernel_scheme \<Rightarrow> 'a kernel_scheme res" where
  "unblock task s =
     (let (IF_stat, s) = get_and_disable_IF s in
      rbind (if task = Null then
               rbind (list_popback (heap s) block_list) (\<lambda>(r, h). Inr (r, s\<lparr>heap := h\<rparr>))
             else Inr (task, s)) (\<lambda>(task, s).
      rbind (on_heap (\<lambda>h. remove_node h task) s) (\<lambda>s.
      rbind (on_heap (\<lambda>h. list_push h ready_list task) s) (\<lambda>s.
      rbind (owner_of s task) (\<lambda>a.
      rbind (upd_tcb a (\<lambda>t. t\<lparr>t_state := TASK_READY\<rparr>) s) (\<lambda>s.
      Inr (set_IF IF_stat s)))))))"

definition task_sleep :: "u32 \<Rightarrow> frame list \<Rightarrow> 'a kernel_scheme \<Rightarrow> 'a kernel_scheme res" where
  "task_sleep time k s =
     rbind (ensure (\<not> get_IF s) Assert) (\<lambda>_.
     let current = running_task s; tk = time div JIFFY;
         tk = (if time mod JIFFY \<noteq> 0 then tk + 1 else tk) in
     rbind (on_heap (\<lambda>h. upd_node h current (\<lambda>n. n\<lparr>n_value := jiffies s + tk\<rparr>)) s) (\<lambda>s.
     rbind (owner_of s current) (\<lambda>a.
     rbind (upd_tcb a (\<lambda>t. t\<lparr>t_state := TASK_SLEEPING\<rparr>) s) (\<lambda>s.
     rbind (on_heap (\<lambda>h. list_insert h sleep_list current greater_u32) s) (\<lambda>s.
     schedule k s)))))"

definition weakup :: "'a kernel_scheme \<Rightarrow> 'a kernel_scheme res" where
  "weakup s =
     rbind (ensure (\<not> get_IF s) Assert) (\<lambda>_.
     rbind (get_node (heap s) (End sleep_list)) (\<lambda>e.
     let iter = n_next e in
     rbind (get_node (heap s) iter) (\<lambda>n.
     if n_owner n \<noteq> 0 \<and> jiffies s \<ge> n_value n then
       rbind (on_heap (\<lambda>h. remove_node h iter) s) (\<lambda>s.
       rbind (upd_tcb (n_owner n) (\<lambda>t. t\<lparr>t_state := TASK_READY\<rparr>) s) (\<lambda>s.
       on_heap (\<lambda>h. list_push h ready_list iter) s))
     else Inr s)))"

definition sys_yield :: "frame list \<Rightarrow> 'a kernel_scheme \<Rightarrow> 'a kernel_scheme res" where
  "sys_yield k s = schedule k s"

section \<open>The clock interrupt\<close>

definition clock_handler :: "frame list \<Rightarrow> 'a kernel_scheme \<Rightarrow> 'a kernel_scheme res" where
  "clock_handler k s =
     (if running_task s = Null then schedule k s
      else
        rbind (owner_of s (running_task s)) (\<lambda>a.
        rbind (get_tcb s a) (\<lambda>current.
        rbind (ensure (magic current = RDIX_MAGIC) Assert) (\<lambda>_.
        let s = s\<lparr>jiffies := jiffies s + 1\<rparr> in
        rbind (upd_tcb a (\<lambda>t. t\<lparr>t_jiffies := jiffies s\<rparr>) s) (\<lambda>s.
        rbind (weakup s) (\<lambda>s.
        rbind (upd_tcb a (\<lambda>t. t\<lparr>ticks := ticks t - 1\<rparr>) s) (\<lambda>s.
        rbind (get_tcb s a) (\<lambda>current.
        if ticks current = 0 then
          rbind (upd_tcb a (\<lambda>t. t\<lparr>ticks := priority t\<rparr>) s) (schedule k)
        else run_frames k s))))))))"

text \<open>
  The processor clears the flag when it delivers an interrupt through a gate and \<^verbatim>\<open>iret\<close>
  restores it at the end.
\<close>

definition clock_interrupt :: "'a kernel_scheme \<Rightarrow> 'a kernel_scheme res" where
  "clock_interrupt s = (if get_IF s then clock_handler [SetIF True] (set_IF False s) else Inr s)"

section \<open>Creating tasks\<close>

text \<open>The first free slot of the task table, or its length.\<close>

fun first_null :: "nref list \<Rightarrow> nat" where
  "first_null [] = 0"
| "first_null (r # b) = (if r = Null then 0 else Suc (first_null b))"

text \<open>
  \<open>n\<close> is the node that \<^verbatim>\<open>malloc\<close> returns to \<^verbatim>\<open>new_listnode\<close> and \<open>g\<close> what the fresh page
  holds. A null page would be written through and fault on page 0.
\<close>

definition get_task :: "nat \<Rightarrow> TCB_t \<Rightarrow> 'a kernel_scheme \<Rightarrow> (nref \<times> 'a kernel_scheme) res" where
  "get_task n g s =
     (let p = first_null (task_bucket s) in
      if p \<ge> TASK_NUM then Inl Panic
      else
        rbind (alloc_kpage 1 s) (\<lambda>(page, s).
        let a = unat page; s = s\<lparr>heap := node_init (heap s) n a 0\<rparr>;
            (st, s) = get_and_disable_IF s in
        rbind (arr_set (task_bucket s) p (Nd n)) (\<lambda>b.
        let s = s\<lparr>task_bucket := b\<rparr> in
        rbind (ensure (page \<noteq> 0) Hang) (\<lambda>_.
        rbind (if running_task s = Null then Inr 0
               else rbind (owner_of s (running_task s)) (\<lambda>c. rbind (get_tcb s c) (\<lambda>t. Inr (pid t)))) (\<lambda>pp.
        let s = s\<lparr>tcbs := (tcbs s)(a \<mapsto> g\<lparr>pid := int p, ppid := pp\<rparr>)\<rparr> in
        Inr (Nd n, set_IF st s))))))"

definition task_create ::
    "string \<Rightarrow> u32 \<Rightarrow> u32 \<Rightarrow> nat \<Rightarrow> TCB_t \<Rightarrow> 'a kernel_scheme \<Rightarrow> (nref \<times> 'a kernel_scheme) res" where
  "task_create name prio user n g s =
     rbind (get_task n g s) (\<lambda>(node, s).
     rbind (owner_of s node) (\<lambda>a.
     rbind (on_heap (\<lambda>h. upd_node h node (\<lambda>x. x\<lparr>n_value := prio\<rparr>)) s) (\<lambda>s.
     rbind (ensure (length name < 16) Fault) (\<lambda>_.
     rbind (upd_tcb a (\<lambda>t. t\<lparr>stack := word_of_nat a + PAGE_SIZE - 20, t_state := TASK_READY, priority := prio,
          ticks := prio, t_jiffies := 0, t_name := name, uid := user, gid := 0, t_pde := 0x1000,
          vmap := None, vmap_page := 0x6000, brk := KERNEL_MEMERY_SIZE, magic := RDIX_MAGIC,
          waitpid := 0, umask := 18, t_pwd := ''/'', frames := []\<rparr>) s) (\<lambda>s.
     let (st, s) = get_and_disable_IF s in
     rbind (on_heap (\<lambda>h. list_push h ready_list node) s) (\<lambda>s.
     Inr (node, set_IF st s)))))))"

definition kernel_task_create ::
    "string \<Rightarrow> u32 \<Rightarrow> nat \<Rightarrow> TCB_t \<Rightarrow> 'a kernel_scheme \<Rightarrow> (nref \<times> 'a kernel_scheme) res" where
  "kernel_task_create name prio n g s = task_create name prio USER_UID n g s"

text \<open>
  \<open>ebp\<close> is the frame pointer of \<^verbatim>\<open>sys_fork\<close>; the child resumes in \<^verbatim>\<open>interrupt_exit\<close>, whose
  \<^verbatim>\<open>iret\<close> turns interrupts on.
\<close>

definition sys_fork :: "u32 \<Rightarrow> nat \<Rightarrow> TCB_t \<Rightarrow> 'a kernel_scheme \<Rightarrow> (int \<times> 'a kernel_scheme) res" where
  "sys_fork ebp n g s =
     rbind (ensure (\<not> get_IF s) Assert) (\<lambda>_.
     rbind (owner_of s (running_task s)) (\<lambda>task.
     rbind (get_task n g s) (\<lambda>(child_node, s).
     rbind (owner_of s child_node) (\<lambda>child.
     rbind (get_tcb s task) (\<lambda>t.
     rbind (get_tcb s child) (\<lambda>c.
     let child_frame = ebp + 4 * 6 - word_of_nat task + word_of_nat child in
     rbind (alloc_kpage 1 s) (\<lambda>(buf, s).
     rbind (ensure (buf \<noteq> 0) Hang) (\<lambda>_.
     rbind (copy_pde (t_pde t) s) (\<lambda>(pde, s).
     let child_tcb = t\<lparr>pid := pid c, ppid := ppid c, ticks := priority t, t_state := TASK_READY,
           vmap := Some (case vmap t of None \<Rightarrow> v_bit_map s | Some m \<Rightarrow> m), vmap_page := buf,
           t_pde := pde, stack := child_frame - 20, frames := [SetIF True]\<rparr> in
     rbind (upd_tcb child (\<lambda>_. child_tcb) s) (\<lambda>s.
     rbind (on_heap (\<lambda>h. list_push h ready_list child_node) s) (\<lambda>s.
     Inr (pid c, s))))))))))))"

section \<open>Ending and waiting\<close>

text \<open>The children of the dying task get its parent as parent.\<close>

definition reparent :: "int \<Rightarrow> int \<Rightarrow> 'a kernel_scheme \<Rightarrow> 'a kernel_scheme res" where
  "reparent dead parent s =
     for_each (\<lambda>r s.
       if r = Null then Inr s
       else rbind (owner_of s r) (\<lambda>a. rbind (get_tcb s a) (\<lambda>c.
         if ppid c = dead then upd_tcb a (\<lambda>t. t\<lparr>ppid := parent\<rparr>) s else Inr s)))
       (task_bucket s) s"

text \<open>The parent is woken when it waits for this task or for any.\<close>

definition wake_parent :: "nat \<Rightarrow> 'a kernel_scheme \<Rightarrow> 'a kernel_scheme res" where
  "wake_parent a s =
     rbind (get_tcb s a) (\<lambda>task.
     rbind (ensure (0 \<le> ppid task) Fault) (\<lambda>_.
     rbind (arr_get (task_bucket s) (nat (ppid task))) (\<lambda>pnode.
     rbind (owner_of s pnode) (\<lambda>pa.
     rbind (get_tcb s pa) (\<lambda>parent.
     if t_state parent = TASK_WAITING \<and> (waitpid parent = - 1 \<or> waitpid parent = pid task)
     then unblock pnode s else Inr s)))))"

definition kernel_thread_exit :: "nref \<Rightarrow> int \<Rightarrow> frame list \<Rightarrow> 'a kernel_scheme \<Rightarrow> 'a kernel_scheme res" where
  "kernel_thread_exit th status k s =
     (let th = (if th \<noteq> Null then th else running_task s) in
      rbind (owner_of s th) (\<lambda>a.
      rbind (upd_tcb a (\<lambda>t. t\<lparr>t_status := status\<rparr>) s) (\<lambda>s.
      let (IF_stat, s) = get_and_disable_IF s in
      rbind (get_tcb s a) (\<lambda>task.
      rbind (reparent (pid task) (ppid task) s) (\<lambda>s.
      rbind (if th \<noteq> running_task s then on_heap (\<lambda>h. remove_node h th) s else Inr s) (\<lambda>s.
      rbind (on_heap (\<lambda>h. list_push h died_list th) s) (\<lambda>s.
      rbind (upd_tcb a (\<lambda>t. t\<lparr>t_state := TASK_DIED\<rparr>) s) (\<lambda>s.
      rbind (wake_parent a s) (\<lambda>s.
      if th = running_task s then schedule (SetIF IF_stat # k) s
      else run_frames (SetIF IF_stat # k) s)))))))))"

text \<open>The release of the inodes and of the two small blocks on the heap is not part of this model.\<close>

definition sys_exit :: "int \<Rightarrow> 'a kernel_scheme \<Rightarrow> 'a kernel_scheme res" where
  "sys_exit status s =
     rbind (ensure (\<not> get_IF s) Assert) (\<lambda>_.
     rbind (owner_of s (running_task s)) (\<lambda>a.
     rbind (on_heap (\<lambda>h. list_push h died_list (running_task s)) s) (\<lambda>s.
     rbind (upd_tcb a (\<lambda>t. t\<lparr>t_state := TASK_DIED, t_status := status\<rparr>) s) (\<lambda>s.
     rbind (get_tcb s a) (\<lambda>task.
     rbind (free_kpage (vmap_page task) 1 s) (\<lambda>s.
     rbind (upd_tcb a (\<lambda>t. t\<lparr>t_pwd := []\<rparr>) s) (\<lambda>s.
     rbind (free_pde (uid task = KERNEL_UID) (t_pde task) s) (\<lambda>s.
     rbind (reparent (pid task) (ppid task) s) (\<lambda>s.
     rbind (wake_parent a s) (\<lambda>s.
     schedule [] s))))))))))"

text \<open>
  The loop of \<^verbatim>\<open>sys_waitpid\<close>: it stops at the first child that matches, dead or alive.
\<close>

datatype wait_search = NoChild | DeadChild nat nref | LiveChild nat nref

fun wait_scan :: "int \<Rightarrow> int \<Rightarrow> nref list \<Rightarrow> 'a kernel_scheme \<Rightarrow> wait_search res" where
  "wait_scan self p [] s = Inr NoChild"
| "wait_scan self p (r # rs) s =
     (if r = Null then wait_scan self p rs s
      else
        rbind (owner_of s r) (\<lambda>a.
        rbind (get_tcb s a) (\<lambda>child.
        if ppid child \<noteq> self then wait_scan self p rs s
        else if p \<noteq> pid child \<and> p \<noteq> - 1 then wait_scan self p rs s
        else if t_state child = TASK_DIED then Inr (DeadChild a r)
        else Inr (LiveChild a r))))"

definition sys_waitpid :: "int \<Rightarrow> frame list \<Rightarrow> 'a kernel_scheme \<Rightarrow> 'a kernel_scheme res" where
  "sys_waitpid p k s =
     rbind (ensure (\<not> get_IF s) Assert) (\<lambda>_.
     rbind (owner_of s (running_task s)) (\<lambda>a.
     rbind (get_tcb s a) (\<lambda>task.
     rbind (wait_scan (pid task) p (task_bucket s) s) (\<lambda>found.
     case found of
       NoChild \<Rightarrow>
         rbind (upd_tcb a (\<lambda>t. t\<lparr>wait_result := Some (- 1, 0)\<rparr>) s) (run_frames k)
     | DeadChild c r \<Rightarrow> run_frames (FreeTask c r # k) s
     | LiveChild c r \<Rightarrow>
         rbind (upd_tcb a (\<lambda>t. t\<lparr>waitpid := p\<rparr>) s)
           (block (Some block_list) Null TASK_WAITING (FreeTask c r # k))))))"

definition sys_getpid :: "'a kernel_scheme \<Rightarrow> int res" where
  "sys_getpid s = rbind (owner_of s (running_task s)) (\<lambda>a. rbind (get_tcb s a) (\<lambda>t. Inr (pid t)))"

definition sys_getppid :: "'a kernel_scheme \<Rightarrow> int res" where
  "sys_getppid s = rbind (owner_of s (running_task s)) (\<lambda>a. rbind (get_tcb s a) (\<lambda>t. Inr (ppid t)))"

text \<open>The task lists and the first three tasks; \<open>ns\<close> and \<open>g\<close> as in \<^verbatim>\<open>get_task\<close>.\<close>

definition task_init :: "nat \<Rightarrow> nat \<Rightarrow> nat \<Rightarrow> TCB_t \<Rightarrow> 'a kernel_scheme \<Rightarrow> (nref \<times> 'a kernel_scheme) res" where
  "task_init n0 n1 n2 g s =
     (let h = list_init (list_init (list_init (list_init (heap s) block_list) sleep_list) ready_list) died_list;
          s = s\<lparr>task_bucket := replicate TASK_NUM Null, heap := h, running_task := Null\<rparr> in
      rbind (kernel_task_create ''idle'' 1 n0 g s) (\<lambda>(_, s).
      rbind (task_create ''init'' 3 USER_UID n1 g s) (\<lambda>(_, s).
      kernel_task_create ''usb_enum'' 3 n2 g s)))"

end
