(* ===== verification/Task_Base.thy ===== *)
theory Task_Base
  imports Task
begin

text \<open>
  The shape of the scheduler's state: which task is on which list. \<open>base D T s L\<close> says
  that every list \<open>l\<close> of \<open>D\<close> holds the tasks \<open>L l\<close>, that all of them belong to \<open>T\<close>, and
  that each task of \<open>T\<close> has its own control block. The lemmas give the effect of the list
  operations and of control block updates on this shape; the proofs about the scheduler
  use only them.
\<close>

definition tcb_ok :: "TCB_t \<Rightarrow> bool" where
  "tcb_ok t \<longleftrightarrow> magic t = RDIX_MAGIC \<and> (\<forall>f \<in> set (frames t). \<exists>b. f = SetIF b)"

definition tcb_of :: "'a kernel_scheme \<Rightarrow> nat \<Rightarrow> TCB_t option" where
  "tcb_of s n = tcbs s (ow (heap s) (Nd n))"

definition st_of :: "'a kernel_scheme \<Rightarrow> nat \<Rightarrow> task_state_t" where
  "st_of s n = t_state (the (tcb_of s n))"

definition base :: "nat set \<Rightarrow> nat set \<Rightarrow> 'a kernel_scheme \<Rightarrow> (nat \<Rightarrow> nat list) \<Rightarrow> bool" where
  "base D T s L \<longleftrightarrow>
     {block_list, sleep_list, ready_list, died_list} \<subseteq> D \<and> finite T \<and> card T \<le> TASK_NUM \<and>
     inj_on (\<lambda>n. ow (heap s) (Nd n)) T \<and>
     (\<forall>l \<in> D. lrepr (heap s) l (L l) \<and> set (L l) \<subseteq> T) \<and>
     (\<forall>n \<in> T. alive (heap s) (Nd n) \<and> ow (heap s) (Nd n) \<noteq> 0 \<and> ct (heap s) (Nd n) \<in> insert None (Some ` D) \<and>
        (\<exists>t. tcb_of s n = Some t \<and> tcb_ok t))"

lemma base_lists:
  "base D T s L \<Longrightarrow> ready_list \<in> D" "base D T s L \<Longrightarrow> sleep_list \<in> D"
  "base D T s L \<Longrightarrow> block_list \<in> D" "base D T s L \<Longrightarrow> died_list \<in> D"
  by (simp_all add: base_def)

lemma base_lrepr: "base D T s L \<Longrightarrow> l \<in> D \<Longrightarrow> lrepr (heap s) l (L l)"
  by (simp add: base_def)

lemma base_sub: "base D T s L \<Longrightarrow> l \<in> D \<Longrightarrow> x \<in> set (L l) \<Longrightarrow> x \<in> T"
  by (auto simp: base_def)

lemma base_distinct: "base D T s L \<Longrightarrow> l \<in> D \<Longrightarrow> distinct (L l)"
  by (auto simp: base_def lrepr_def)

lemma base_one_list: "base D T s L \<Longrightarrow> l \<in> D \<Longrightarrow> m \<in> D \<Longrightarrow> x \<in> set (L l) \<Longrightarrow> x \<in> set (L m) \<Longrightarrow> l = m"
  by (meson base_lrepr lrepr_unique_container)

lemma base_length: "base D T s L \<Longrightarrow> l \<in> D \<Longrightarrow> length (L l) \<le> TASK_NUM"
  by (metis base_def base_distinct card_mono distinct_card le_trans)

lemma base_room: "base D T s L \<Longrightarrow> l \<in> D \<Longrightarrow> Suc (length (L l)) < 2 ^ 32"
  using base_length [of D T s L l] by (simp add: TASK_NUM_def)

lemma base_free:
  assumes "base D T s L" "n \<in> T"
  shows "free_node (heap s) n \<longleftrightarrow> (\<forall>l \<in> D. n \<notin> set (L l))"
proof -
  have "\<forall>l \<in> D. n \<in> set (L l) \<longleftrightarrow> ct (heap s) (Nd n) = Some l"
    using base_lrepr [OF assms(1)] lrepr_ct by blast
  moreover have "alive (heap s) (Nd n)" "ct (heap s) (Nd n) \<in> insert None (Some ` D)"
    using assms by (simp_all add: base_def)
  ultimately show ?thesis by (auto simp: free_node_def)
qed

lemma base_ct: "base D T s L \<Longrightarrow> n \<in> T \<Longrightarrow> \<exists>nd. get_node (heap s) (Nd n) = Inr nd \<and>
    n_owner nd = ow (heap s) (Nd n) \<and> n_container nd = ct (heap s) (Nd n) \<and> n_value nd = vl (heap s) (Nd n)"
  by (auto simp: base_def get_node_def fields)

lemma base_container: "base D T s L \<Longrightarrow> n \<in> T \<Longrightarrow> ct (heap s) (Nd n) = None \<longleftrightarrow> (\<forall>l \<in> D. n \<notin> set (L l))"
  using base_free [of D T s L n] by (auto simp: base_def free_node_def)

lemma base_owner: "base D T s L \<Longrightarrow> n \<in> T \<Longrightarrow> owner_of s (Nd n) = Inr (ow (heap s) (Nd n))"
  using base_ct [of D T s L n] by (auto simp: owner_of_def)

lemma base_tcb: "base D T s L \<Longrightarrow> n \<in> T \<Longrightarrow> \<exists>t. get_tcb s (ow (heap s) (Nd n)) = Inr t \<and>
    tcb_of s n = Some t \<and> t_state t = st_of s n \<and> tcb_ok t"
  by (force simp: base_def get_tcb_def st_of_def tcb_of_def)

text \<open>Frames that only restore the interrupt flag.\<close>

lemma run_frames_simple:
  assumes "\<forall>f \<in> set k. \<exists>b. f = SetIF b"
  shows "\<exists>b. run_frames k s = Inr (set_IF b s)"
  using assms
proof (induction k arbitrary: s)
  case Nil
  have "set_IF (iflag s) s = s" by (simp add: set_IF_def)
  then show ?case unfolding run_frames_def by (metis for_each.simps(1))
next
  case (Cons f k)
  then obtain b where "f = SetIF b" by auto
  with Cons.IH [of "set_IF b s"] Cons.prems show ?case by (auto simp: run_frames_def set_IF_def)
qed

lemma base_cong:
  "heap s' = heap s \<Longrightarrow> tcbs s' = tcbs s \<Longrightarrow> base D T s' L = base D T s L"
  "heap s' = heap s \<Longrightarrow> tcbs s' = tcbs s \<Longrightarrow> st_of s' = st_of s"
  by (simp_all add: base_def st_of_def tcb_of_def fun_eq_iff)

section \<open>Effects\<close>

lemma base_heap:
  assumes b: "base D T s L" and l: "l \<in> D" and n: "n \<in> T" and st: "lstep (heap s) h l n c"
    and c: "c \<in> insert None (Some ` D)" and r: "lrepr h l xs" "set xs \<subseteq> T"
  shows "base D T (s\<lparr>heap := h\<rparr>) (L(l := xs))" "st_of (s\<lparr>heap := h\<rparr>) = st_of s"
  using assms by (auto simp: base_def lstep_def tcb_of_def st_of_def fun_eq_iff)

lemma base_push:
  assumes b: "base D T s L" and l: "l \<in> D" and n: "n \<in> T" "\<forall>m \<in> D. n \<notin> set (L m)"
  shows "\<exists>h. on_heap (\<lambda>h. list_push h l (Nd n)) s = Inr (s\<lparr>heap := h\<rparr>) \<and>
     base D T (s\<lparr>heap := h\<rparr>) (L(l := n # L l)) \<and> st_of (s\<lparr>heap := h\<rparr>) = st_of s \<and>
     ow h = ow (heap s) \<and> vl h = vl (heap s)"
proof -
  from list_push_spec [OF base_lrepr [OF b l] _ base_room [OF b l], of n] base_free [OF b n(1)] n(2)
  obtain h where h: "list_push (heap s) l (Nd n) = Inr h" "lrepr h l (n # L l)" "lstep (heap s) h l n (Some l)"
    by auto
  moreover have "set (n # L l) \<subseteq> T" using b l n by (auto simp: base_def)
  ultimately show ?thesis
    using base_heap [OF b l n(1) h(3) _ h(2)] l
    by (intro exI [of _ h]) (auto simp: on_heap_def lstep_def)
qed

lemma base_insert:
  assumes b: "base D T s L" and l: "l \<in> D" and n: "n \<in> T" "\<forall>m \<in> D. n \<notin> set (L m)"
  shows "\<exists>h. on_heap (\<lambda>h. list_insert h l (Nd n) cmp) s = Inr (s\<lparr>heap := h\<rparr>) \<and>
     base D T (s\<lparr>heap := h\<rparr>) (L(l := ordered_place (\<lambda>x. vl (heap s) (Nd x)) cmp n (L l))) \<and>
     st_of (s\<lparr>heap := h\<rparr>) = st_of s \<and> ow h = ow (heap s) \<and> vl h = vl (heap s)"
proof -
  let ?xs = "ordered_place (\<lambda>x. vl (heap s) (Nd x)) cmp n (L l)"
  from list_insert_spec [OF base_lrepr [OF b l] _ base_room [OF b l], of n cmp] base_free [OF b n(1)] n(2)
  obtain h where h: "list_insert (heap s) l (Nd n) cmp = Inr h" "lrepr h l ?xs" "lstep (heap s) h l n (Some l)"
    by auto
  moreover have "set ?xs \<subseteq> T" using b l n by (auto simp: base_def ordered_place_set)
  ultimately show ?thesis
    using base_heap [OF b l n(1) h(3) _ h(2)] l
    by (intro exI [of _ h]) (auto simp: on_heap_def lstep_def)
qed

lemma base_remove:
  assumes b: "base D T s L" and l: "l \<in> D" and n: "n \<in> set (L l)"
  shows "\<exists>h. on_heap (\<lambda>h. remove_node h (Nd n)) s = Inr (s\<lparr>heap := h\<rparr>) \<and>
     base D T (s\<lparr>heap := h\<rparr>) (L(l := remove1 n (L l))) \<and> st_of (s\<lparr>heap := h\<rparr>) = st_of s \<and>
     ow h = ow (heap s) \<and> vl h = vl (heap s)"
proof -
  have nT: "n \<in> T" using base_sub [OF b l n] .
  from n obtain xs ys where xs: "L l = xs @ n # ys" "n \<notin> set xs" by (meson split_list_first)
  obtain h where h: "remove_node (heap s) (Nd n) = Inr h" "lrepr h l (xs @ ys)" "lstep (heap s) h l n None"
    by (rule remove_node_spec [of "heap s" l xs n ys]) (use base_lrepr [OF b l] xs in simp_all)
  moreover have "set (xs @ ys) \<subseteq> T" using base_sub [OF b l] xs by auto
  moreover have "remove1 n (L l) = xs @ ys" using xs by (simp add: remove1_append)
  ultimately show ?thesis
    using base_heap [OF b l nT h(3) _ h(2)] by (intro exI [of _ h]) (auto simp: on_heap_def lstep_def)
qed

lemma base_popback:
  assumes b: "base D T s L" and l: "l \<in> D" and x: "L l = xs @ [x]"
  shows "\<exists>h. list_popback (heap s) l = Inr (Nd x, h) \<and>
     base D T (s\<lparr>heap := h\<rparr>) (L(l := xs)) \<and> st_of (s\<lparr>heap := h\<rparr>) = st_of s \<and>
     ow h = ow (heap s) \<and> vl h = vl (heap s)"
proof -
  have xT: "x \<in> T" using base_sub [OF b l] x by simp
  from list_popback_spec [of "heap s" l xs x] base_lrepr [OF b l] x obtain h where
    h: "list_popback (heap s) l = Inr (Nd x, h)" "lrepr h l xs" "lstep (heap s) h l x None" by auto
  moreover have "set xs \<subseteq> T" using base_sub [OF b l] x by auto
  ultimately show ?thesis
    using base_heap [OF b l xT h(3) _ h(2)] by (intro exI [of _ h]) (auto simp: lstep_def)
qed

lemma base_popback_Nil: "base D T s L \<Longrightarrow> l \<in> D \<Longrightarrow> L l = [] \<Longrightarrow> list_popback (heap s) l = Inr (Null, heap s)"
  using base_lrepr list_popback_Nil by metis

text \<open>An update of a control block that keeps it well formed.\<close>

lemma base_upd:
  assumes b: "base D T s L" and n: "n \<in> T" and f: "\<And>t. tcb_ok t \<Longrightarrow> tcb_ok (f t)"
  shows "\<exists>t. tcb_of s n = Some t \<and> upd_tcb (ow (heap s) (Nd n)) f s =
       Inr (s\<lparr>tcbs := (tcbs s)(ow (heap s) (Nd n) \<mapsto> f t)\<rparr>) \<and>
     base D T (s\<lparr>tcbs := (tcbs s)(ow (heap s) (Nd n) \<mapsto> f t)\<rparr>) L \<and>
     (\<forall>m \<in> T. tcb_of (s\<lparr>tcbs := (tcbs s)(ow (heap s) (Nd n) \<mapsto> f t)\<rparr>) m =
         (if m = n then Some (f t) else tcb_of s m))"
proof -
  from base_tcb [OF b n] obtain t where t: "get_tcb s (ow (heap s) (Nd n)) = Inr t" "tcb_of s n = Some t"
      "tcb_ok t" by auto
  let ?s = "s\<lparr>tcbs := (tcbs s)(ow (heap s) (Nd n) \<mapsto> f t)\<rparr>"
  have inj: "ow (heap s) (Nd m) = ow (heap s) (Nd n) \<longleftrightarrow> m = n" if "m \<in> T" for m
    using b n that by (auto simp: base_def inj_on_def)
  then have "\<forall>m \<in> T. tcb_of ?s m = (if m = n then Some (f t) else tcb_of s m)"
    by (auto simp: tcb_of_def)
  moreover from this have "base D T ?s L" using b f [OF t(3)] by (auto simp: base_def)
  ultimately show ?thesis using t by (auto simp: upd_tcb_def)
qed

text \<open>The same with the new state only.\<close>

lemma base_upd_state:
  assumes b: "base D T s L" and n: "n \<in> T" and f: "\<And>t. tcb_ok t \<Longrightarrow> tcb_ok (f t)"
  shows "\<exists>tb. upd_tcb (ow (heap s) (Nd n)) f s = Inr (s\<lparr>tcbs := tb\<rparr>) \<and> base D T (s\<lparr>tcbs := tb\<rparr>) L \<and>
     (\<forall>m \<in> T. st_of (s\<lparr>tcbs := tb\<rparr>) m = (if m = n then t_state (f (the (tcb_of s n))) else st_of s m)) \<and>
     (\<forall>m \<in> T. m \<noteq> n \<longrightarrow> tcb_of (s\<lparr>tcbs := tb\<rparr>) m = tcb_of s m) \<and>
     tcb_of (s\<lparr>tcbs := tb\<rparr>) n = map_option f (tcb_of s n)"
proof -
  from base_upd [OF b n, of f] f obtain t where t: "tcb_of s n = Some t"
    "upd_tcb (ow (heap s) (Nd n)) f s = Inr (s\<lparr>tcbs := (tcbs s)(ow (heap s) (Nd n) \<mapsto> f t)\<rparr>)"
    "base D T (s\<lparr>tcbs := (tcbs s)(ow (heap s) (Nd n) \<mapsto> f t)\<rparr>) L"
    "\<forall>m \<in> T. tcb_of (s\<lparr>tcbs := (tcbs s)(ow (heap s) (Nd n) \<mapsto> f t)\<rparr>) m =
         (if m = n then Some (f t) else tcb_of s m)" by auto
  have "\<forall>m \<in> T. st_of (s\<lparr>tcbs := (tcbs s)(ow (heap s) (Nd n) \<mapsto> f t)\<rparr>) m =
      (if m = n then t_state (f t) else st_of s m)"
    unfolding st_of_def [of "s\<lparr>tcbs := X\<rparr>" for X] using t(4) by (simp add: st_of_def)
  moreover have "tcb_of (s\<lparr>tcbs := (tcbs s)(ow (heap s) (Nd n) \<mapsto> f t)\<rparr>) n = Some (f t)"
    using t(4) n by simp
  ultimately show ?thesis
    using t by (intro exI [of _ "(tcbs s)(ow (heap s) (Nd n) \<mapsto> f t)"]) (simp del: fun_upd_apply)
qed

text \<open>Setting the value of a node changes no list.\<close>

lemma base_value:
  assumes b: "base D T s L" and n: "n \<in> T"
  shows "\<exists>h. on_heap (\<lambda>h. upd_node h (Nd n) (\<lambda>x. x\<lparr>n_value := v\<rparr>)) s = Inr (s\<lparr>heap := h\<rparr>) \<and>
     base D T (s\<lparr>heap := h\<rparr>) L \<and> st_of (s\<lparr>heap := h\<rparr>) = st_of s \<and>
     ow h = ow (heap s) \<and> vl h = (vl (heap s))(Nd n := v)"
proof -
  from base_ct [OF b n] obtain nd where nd: "nodes (heap s) (Nd n) = Some nd"
    by (auto simp: get_node_def split: option.splits)
  define h where "h = (heap s)\<lparr>nodes := (nodes (heap s))(Nd n \<mapsto> nd\<lparr>n_value := v\<rparr>)\<rparr>"
  have f: "nx h = nx (heap s)" "pv h = pv (heap s)" "ct h = ct (heap s)" "ow h = ow (heap s)"
    "alive h = alive (heap s)" "vl h = (vl (heap s))(Nd n := v)" "numbers h = numbers (heap s)"
    using nd by (auto simp: h_def fields fun_eq_iff)
  then have "lrepr h = lrepr (heap s)" by (intro ext) (simp add: lrepr_def)
  with f b have "base D T (s\<lparr>heap := h\<rparr>) L" "st_of (s\<lparr>heap := h\<rparr>) = st_of s"
    by (simp_all add: base_def st_of_def [abs_def] tcb_of_def)
  moreover have "on_heap (\<lambda>h. upd_node h (Nd n) (\<lambda>x. x\<lparr>n_value := v\<rparr>)) s = Inr (s\<lparr>heap := h\<rparr>)"
    using nd by (simp add: on_heap_def upd_node_def h_def)
  ultimately show ?thesis using f by blast
qed

end
