(* ===== verification/Scheduler.thy ===== *)
theory Scheduler
  imports Task_Base
begin

text \<open>
  The scheduler refines queues: an abstract state has a queue per list and the running
  task. \<^verbatim>\<open>schedule\<close> and the operations that end in it move one task between the queues;
  the refinement lemmas say so for the code, every assertion of the code included.
\<close>

section \<open>The abstract scheduler\<close>

record asched =
  a_lists :: "nat \<Rightarrow> nat list"
  a_run :: nat

text \<open>The running task, already on a list, gives the processor to the oldest ready task.\<close>

definition a_switch :: "asched \<Rightarrow> asched" where
  "a_switch A = A\<lparr>a_lists := (a_lists A)(ready_list := butlast (a_lists A ready_list)),
     a_run := last (a_lists A ready_list)\<rparr>"

definition a_move :: "nat \<Rightarrow> nat \<Rightarrow> asched \<Rightarrow> asched" where
  "a_move l n A = A\<lparr>a_lists := (a_lists A)(l := n # a_lists A l)\<rparr>"

definition a_drop :: "nat \<Rightarrow> asched \<Rightarrow> asched" where
  "a_drop n A = A\<lparr>a_lists := \<lambda>l. remove1 n (a_lists A l)\<rparr>"

definition a_yield :: "asched \<Rightarrow> asched" where
  "a_yield A = (if a_lists A ready_list = [] then A else a_switch (a_move ready_list (a_run A) A))"

definition a_block :: "nat \<Rightarrow> asched \<Rightarrow> asched" where
  "a_block l A = a_switch (a_move l (a_run A) A)"

definition a_unblock :: "nat \<Rightarrow> asched \<Rightarrow> asched" where
  "a_unblock n A = a_move ready_list n (a_drop n A)"

definition a_sleep :: "(nat \<Rightarrow> u32) \<Rightarrow> asched \<Rightarrow> asched" where
  "a_sleep key A = a_switch (A\<lparr>a_lists := (a_lists A)(sleep_list :=
     ordered_place key greater_u32 (a_run A) (a_lists A sleep_list))\<rparr>)"

definition a_weakup :: "u32 \<Rightarrow> (nat \<Rightarrow> u32) \<Rightarrow> asched \<Rightarrow> asched" where
  "a_weakup now key A = (case a_lists A sleep_list of [] \<Rightarrow> A
     | n # _ \<Rightarrow> if now \<ge> key n then a_unblock n A else A)"

section \<open>The refinement relation\<close>

text \<open>The states a task may have on a list.\<close>

definition state_for :: "nat \<Rightarrow> task_state_t \<Rightarrow> bool" where
  "state_for l st \<longleftrightarrow>
     (if l = ready_list then st = TASK_READY
      else if l = sleep_list then st = TASK_SLEEPING
      else if l = died_list then st = TASK_DIED
      else st = TASK_BLOCKED \<or> st = TASK_WAITING)"

definition states_ok :: "nat set \<Rightarrow> 'a kernel_scheme \<Rightarrow> (nat \<Rightarrow> nat list) \<Rightarrow> bool" where
  "states_ok D s L \<longleftrightarrow> (\<forall>l \<in> D. \<forall>n \<in> set (L l). state_for l (st_of s n))"

text \<open>
  Every task is the running one or on exactly one list, in the state the list stands for.
  The first task ever switched to runs with state ready, and then others are ready too.
\<close>

definition sched_rel :: "nat set \<Rightarrow> nat set \<Rightarrow> 'a kernel_scheme \<Rightarrow> asched \<Rightarrow> bool" where
  "sched_rel D T s A \<longleftrightarrow>
     base D T s (a_lists A) \<and> states_ok D s (a_lists A) \<and>
     running_task s = Nd (a_run A) \<and> (\<forall>l \<in> D. a_run A \<notin> set (a_lists A l)) \<and>
     T = insert (a_run A) (\<Union>l \<in> D. set (a_lists A l)) \<and>
     (st_of s (a_run A) = TASK_RUNNING \<or>
      st_of s (a_run A) = TASK_READY \<and> a_lists A ready_list \<noteq> [])"

text \<open>\<open>simple k\<close>: the frames left by the callers only restore the interrupt flag.\<close>

definition simple :: "frame list \<Rightarrow> bool" where
  "simple k \<longleftrightarrow> (\<forall>f \<in> set k. \<exists>b. f = SetIF b)"

lemma simple_simps [simp]: "simple []" "simple (SetIF b # k) = simple k"
  by (simp_all add: simple_def)

lemma tcb_ok_upd [simp]:
  "tcb_ok t \<Longrightarrow> tcb_ok (t\<lparr>t_state := st\<rparr>)" "simple k \<Longrightarrow> tcb_ok t \<Longrightarrow> tcb_ok (t\<lparr>frames := k\<rparr>)"
  "tcb_ok t \<Longrightarrow> tcb_ok (t\<lparr>ticks := u\<rparr>)" "tcb_ok t \<Longrightarrow> tcb_ok (t\<lparr>t_jiffies := u\<rparr>)"
  by (simp_all add: tcb_ok_def simple_def)

lemma sched_rel_cong:
  "heap s' = heap s \<Longrightarrow> tcbs s' = tcbs s \<Longrightarrow> running_task s' = running_task s \<Longrightarrow>
    sched_rel D T s' A = sched_rel D T s A"
  using base_cong [of s' s] by (simp add: sched_rel_def states_ok_def)

lemma sched_rel_set_IF [simp]: "sched_rel D T (set_IF b s) A = sched_rel D T s A"
  by (rule sched_rel_cong) (simp_all add: set_IF_def)

text \<open>The tasks on the lists, after a change of one list.\<close>

lemma Union_split: "r \<in> D \<Longrightarrow> (\<Union>l \<in> D. set (L l)) = set (L r) \<union> (\<Union>l \<in> D - {r}. set (L l))"
  by blast

lemma Union_upd: "r \<in> D \<Longrightarrow> (\<Union>l \<in> D. set ((L(r := ys)) l)) = set ys \<union> (\<Union>l \<in> D - {r}. set (L l))"
  by (simp add: Union_split [of r D "L(r := ys)"] del: fun_upd_apply) (simp add: fun_upd_def)

section \<open>schedule\<close>

text \<open>The switch itself: both stacks are exchanged, then the incoming task's frames run.\<close>

lemma task_switch_base:
  assumes b: "base D T s L" and r: "r \<in> T" and x: "x \<in> T" and k: "simple k"
  shows "\<exists>tb f. task_switch k (Some (ow (heap s) (Nd r))) (ow (heap s) (Nd x)) s =
       Inr (set_IF f (s\<lparr>tcbs := tb\<rparr>)) \<and> base D T (s\<lparr>tcbs := tb\<rparr>) L \<and>
     (\<forall>m \<in> T. st_of (s\<lparr>tcbs := tb\<rparr>) m = st_of s m)"
proof -
  from base_upd_state [OF b r, of "\<lambda>t. t\<lparr>frames := k\<rparr>"] k obtain tb1 where
    s1: "upd_tcb (ow (heap s) (Nd r)) (\<lambda>t. t\<lparr>frames := k\<rparr>) s = Inr (s\<lparr>tcbs := tb1\<rparr>)"
      "base D T (s\<lparr>tcbs := tb1\<rparr>) L" "\<forall>m \<in> T. st_of (s\<lparr>tcbs := tb1\<rparr>) m = st_of s m"
    by (auto simp: st_of_def)
  from base_tcb [OF s1(2) x] obtain t where
    t: "get_tcb (s\<lparr>tcbs := tb1\<rparr>) (ow (heap s) (Nd x)) = Inr t" "tcb_ok t" by auto
  from base_upd_state [OF s1(2) x, of "\<lambda>t. t\<lparr>frames := []\<rparr>"] obtain tb2 where
    s2: "upd_tcb (ow (heap s) (Nd x)) (\<lambda>t. t\<lparr>frames := []\<rparr>) (s\<lparr>tcbs := tb1\<rparr>) = Inr (s\<lparr>tcbs := tb2\<rparr>)"
      "base D T (s\<lparr>tcbs := tb2\<rparr>) L" "\<forall>m \<in> T. st_of (s\<lparr>tcbs := tb2\<rparr>) m = st_of s m"
    using s1(3) by (auto simp: st_of_def)
  from t(2) have "simple (frames t)" by (simp add: tcb_ok_def simple_def)
  then obtain f where "run_frames (frames t) (s\<lparr>tcbs := tb2\<rparr>) = Inr (set_IF f (s\<lparr>tcbs := tb2\<rparr>))"
    using run_frames_simple [of "frames t"] by (auto simp: simple_def)
  with s1 s2 t show ?thesis by (auto simp: task_switch_def)
qed

text \<open>The part of \<^verbatim>\<open>schedule\<close> between the choice of the next task and the switch.\<close>

definition requeue :: "nat \<Rightarrow> 'a kernel_scheme \<Rightarrow> 'a kernel_scheme res" where
  "requeue current_tcb s =
     rbind (get_node (heap s) (running_task s)) (\<lambda>rn.
     if n_container rn = None then
       rbind (upd_tcb current_tcb (\<lambda>t. t\<lparr>t_state := TASK_READY\<rparr>) s) (\<lambda>s.
       on_heap (\<lambda>h. list_push h ready_list (running_task s)) s)
     else Inr s)"

lemma requeue_fold:
  "rbind (get_node (heap s) (running_task s)) (\<lambda>rn.
     rbind (if n_container rn = None then
              rbind (upd_tcb c (\<lambda>t. t\<lparr>t_state := TASK_READY\<rparr>) s) (\<lambda>s.
              on_heap (\<lambda>h. list_push h ready_list (running_task s)) s)
            else Inr s) K) = rbind (requeue c s) K"
  by (simp add: requeue_def rbind_assoc)

definition requeued :: "nat set \<Rightarrow> nat \<Rightarrow> (nat \<Rightarrow> nat list) \<Rightarrow> nat \<Rightarrow> nat list" where
  "requeued D r L = (if \<forall>l \<in> D. r \<notin> set (L l) then L(ready_list := r # L ready_list) else L)"

lemma requeue_base:
  assumes b: "base D T s L" and r: "r \<in> T" "running_task s = Nd r"
  shows "\<exists>h tb. requeue (ow (heap s) (Nd r)) s = Inr (s\<lparr>heap := h, tcbs := tb\<rparr>) \<and>
     base D T (s\<lparr>heap := h, tcbs := tb\<rparr>) (requeued D r L) \<and>
     (\<forall>m \<in> T. st_of (s\<lparr>heap := h, tcbs := tb\<rparr>) m =
        (if m = r \<and> (\<forall>l \<in> D. r \<notin> set (L l)) then TASK_READY else st_of s m)) \<and> ow h = ow (heap s)"
proof (cases "\<forall>l \<in> D. r \<notin> set (L l)")
  case True
  from base_upd_state [OF b r(1), of "\<lambda>t. t\<lparr>t_state := TASK_READY\<rparr>"] obtain tb where
    s1: "upd_tcb (ow (heap s) (Nd r)) (\<lambda>t. t\<lparr>t_state := TASK_READY\<rparr>) s = Inr (s\<lparr>tcbs := tb\<rparr>)"
      "base D T (s\<lparr>tcbs := tb\<rparr>) L"
      "\<forall>m \<in> T. st_of (s\<lparr>tcbs := tb\<rparr>) m = (if m = r then TASK_READY else st_of s m)" by auto
  from base_push [OF s1(2) base_lists(1) [OF b] r(1) True] obtain h where
    "on_heap (\<lambda>h. list_push h ready_list (Nd r)) (s\<lparr>tcbs := tb\<rparr>) = Inr (s\<lparr>tcbs := tb, heap := h\<rparr>)"
    "base D T (s\<lparr>tcbs := tb, heap := h\<rparr>) (L(ready_list := r # L ready_list))"
    "st_of (s\<lparr>tcbs := tb, heap := h\<rparr>) = st_of (s\<lparr>tcbs := tb\<rparr>)" "ow h = ow (heap s)" by auto
  moreover have "s\<lparr>tcbs := tb, heap := h\<rparr> = s\<lparr>heap := h, tcbs := tb\<rparr>" by simp
  ultimately show ?thesis
    using s1 True r(2) base_ct [OF b r(1)] base_container [OF b r(1)]
    by (intro exI [of _ h] exI [of _ tb]) (auto simp: requeue_def requeued_def)
next
  case False
  then show ?thesis
    using b r(2) base_ct [OF b r(1)] base_container [OF b r(1)]
    by (intro exI [of _ "heap s"] exI [of _ "tcbs s"]) (auto simp: requeue_def requeued_def)
qed

lemma schedule_base:
  assumes b: "base D T s L" and IF: "\<not> get_IF s" and run: "running_task s = Nd r" "r \<in> T"
    and x: "L ready_list = xs @ [x]" "r \<noteq> x" and k: "simple k"
  shows "\<exists>s'. schedule k s = Inr s' \<and> base D T s' (requeued D r (L(ready_list := xs))) \<and>
     running_task s' = Nd x \<and> jiffies s' = jiffies s \<and>
     (\<forall>m \<in> T. st_of s' m = (if m = x then TASK_RUNNING
        else if m = r \<and> (\<forall>l \<in> D. r \<notin> set (L l)) then TASK_READY else st_of s m))"
proof -
  note rD = base_lists(1) [OF b]
  have xT: "x \<in> T" using base_sub [OF b rD] x by simp
  from base_popback [OF b rD x(1)] obtain h1 where
    s1: "list_popback (heap s) ready_list = Inr (Nd x, h1)" "base D T (s\<lparr>heap := h1\<rparr>) (L(ready_list := xs))"
      "st_of (s\<lparr>heap := h1\<rparr>) = st_of s" "ow h1 = ow (heap s)" by auto
  from base_tcb [OF s1(2) xT] obtain nt where
    nt: "get_tcb (s\<lparr>heap := h1\<rparr>) (ow (heap s) (Nd x)) = Inr nt" "magic nt = RDIX_MAGIC"
    using s1(4) by (auto simp: tcb_ok_def)
  from base_upd_state [OF s1(2) xT, of "\<lambda>t. t\<lparr>t_state := TASK_RUNNING\<rparr>"] s1(3,4) obtain tb where
    s2: "upd_tcb (ow (heap s) (Nd x)) (\<lambda>t. t\<lparr>t_state := TASK_RUNNING\<rparr>) (s\<lparr>heap := h1\<rparr>) =
        Inr (s\<lparr>heap := h1, tcbs := tb\<rparr>)" "base D T (s\<lparr>heap := h1, tcbs := tb\<rparr>) (L(ready_list := xs))"
      "\<forall>m \<in> T. st_of (s\<lparr>heap := h1, tcbs := tb\<rparr>) m = (if m = x then TASK_RUNNING else st_of s m)"
    by auto
  let ?L = "requeued D r (L(ready_list := xs))"
  have "r \<in> set ((L(ready_list := xs)) l) \<longleftrightarrow> r \<in> set (L l)" for l
    using x by (cases "l = ready_list") auto
  then have fr: "(\<forall>l \<in> D. r \<notin> set ((L(ready_list := xs)) l)) \<longleftrightarrow> (\<forall>l \<in> D. r \<notin> set (L l))"
    by simp
  from requeue_base [OF s2(2) run(2), unfolded fr] run(1) s1(4) obtain h2 tb2 where
    s3: "requeue (ow (heap s) (Nd r)) (s\<lparr>heap := h1, tcbs := tb\<rparr>) = Inr (s\<lparr>heap := h2, tcbs := tb2\<rparr>)"
      "base D T (s\<lparr>heap := h2, tcbs := tb2\<rparr>) ?L"
      "\<forall>m \<in> T. st_of (s\<lparr>heap := h2, tcbs := tb2\<rparr>) m = (if m = r \<and> (\<forall>l \<in> D. r \<notin> set (L l)) then TASK_READY
         else st_of (s\<lparr>heap := h1, tcbs := tb\<rparr>) m)" "ow h2 = ow h1"
    by auto
  let ?s3 = "s\<lparr>heap := h2, tcbs := tb2\<rparr>"
  let ?s4 = "if t_pde nt \<noteq> cr3 ?s3 then ?s3\<lparr>cr3 := t_pde nt\<rparr> else ?s3"
  let ?s5 = "(if uid nt = USER_UID then ?s4\<lparr>esp0 := (stack nt AND 0xfffff000) + PAGE_SIZE\<rparr> else ?s4)
      \<lparr>running_task := Nd x\<rparr>"
  have b5: "base D T ?s5 ?L" "st_of ?s5 = st_of ?s3"
    using base_cong [of ?s5 ?s3] s3(2) by auto
  have ow5: "ow (heap ?s5) = ow (heap s)" using s3(4) s1(4) by auto
  from task_switch_base [OF b5(1) run(2) xT k] ow5 obtain tb5 f where
    s6: "task_switch k (Some (ow (heap s) (Nd r))) (ow (heap s) (Nd x)) ?s5 = Inr (set_IF f (?s5\<lparr>tcbs := tb5\<rparr>))"
      "base D T (?s5\<lparr>tcbs := tb5\<rparr>) ?L" "\<forall>m \<in> T. st_of (?s5\<lparr>tcbs := tb5\<rparr>) m = st_of ?s5 m"
    by auto
  let ?s' = "set_IF f (?s5\<lparr>tcbs := tb5\<rparr>)"
  have "heap ?s' = heap (?s5\<lparr>tcbs := tb5\<rparr>)" "tcbs ?s' = tcbs (?s5\<lparr>tcbs := tb5\<rparr>)"
    "running_task ?s' = Nd x" "jiffies ?s' = jiffies s"
    by (simp_all add: set_IF_def)
  then have final: "base D T ?s' ?L" "\<forall>m \<in> T. st_of ?s' m = st_of ?s5 m"
    "running_task ?s' = Nd x" "jiffies ?s' = jiffies s"
    using base_cong [of ?s' "?s5\<lparr>tcbs := tb5\<rparr>"] s6 by auto
  have ox: "owner_of (s\<lparr>heap := h1\<rparr>) (Nd x) = Inr (ow (heap s) (Nd x))"
    and or: "owner_of (s\<lparr>heap := h1\<rparr>) (Nd r) = Inr (ow (heap s) (Nd r))"
    using base_owner [OF s1(2) xT] base_owner [OF s1(2) run(2)] s1(4) by auto
  have "schedule k s = task_switch k (Some (ow (heap s) (Nd r))) (ow (heap s) (Nd x)) ?s5"
    using IF s1(1) nt s2(1) s3(1) run(1) ox or
    by (simp only: schedule_def requeue_fold) (simp add: Let_def)
  moreover have "\<forall>m \<in> T. st_of ?s' m = (if m = x then TASK_RUNNING
        else if m = r \<and> (\<forall>l \<in> D. r \<notin> set (L l)) then TASK_READY else st_of s m)"
    using final(2) b5(2) s3(3) s2(3) x(2) by (simp del: split_paired_All)
  ultimately show ?thesis using s6(1) final by (intro exI [of _ ?s']) simp
qed

text \<open>\<^verbatim>\<open>schedule\<close> after the running task has been put on a list, as in \<^verbatim>\<open>block\<close> and \<^verbatim>\<open>task_sleep\<close>.\<close>

lemma schedule_switch:
  assumes b: "base D T s (a_lists A)" and IF: "\<not> get_IF s" and run: "running_task s = Nd (a_run A)"
    and st: "states_ok D s (a_lists A)" and T: "T = (\<Union>l \<in> D. set (a_lists A l))"
    and r: "a_run A \<in> T" "a_run A \<notin> set (a_lists A ready_list)" and ne: "a_lists A ready_list \<noteq> []"
    and k: "simple k"
  shows "\<exists>s'. schedule k s = Inr s' \<and> sched_rel D T s' (a_switch A) \<and> jiffies s' = jiffies s"
proof -
  let ?L = "a_lists A" and ?r = "a_run A"
  from ne obtain xs x where x: "?L ready_list = xs @ [x]" by (metis rev_exhaust)
  with r have rx: "?r \<noteq> x" by auto
  note rD = base_lists(1) [OF b]
  have on: "\<not> (\<forall>l \<in> D. ?r \<notin> set (?L l))" using r(1) T by blast
  have on': "\<not> (\<forall>l \<in> D. ?r \<notin> set ((?L(ready_list := xs)) l))"
  proof -
    from on obtain l where "l \<in> D" "?r \<in> set (?L l)" by blast
    moreover from this r(2) have "l \<noteq> ready_list" by auto
    ultimately show ?thesis by auto
  qed
  have rq: "requeued D ?r (?L(ready_list := xs)) = ?L(ready_list := xs)"
    using on' by (simp only: requeued_def if_False)
  have on2: "(\<forall>l \<in> D. ?r \<notin> set (?L l)) = False" using on by blast
  from schedule_base [OF b IF run r(1) x rx k, unfolded rq on2 simp_thms if_False] obtain s' where
    s': "schedule k s = Inr s'" "base D T s' (?L(ready_list := xs))" "running_task s' = Nd x"
      "jiffies s' = jiffies s" "\<forall>m \<in> T. st_of s' m = (if m = x then TASK_RUNNING else st_of s m)"
    by blast
  have xT: "x \<in> T" using base_sub [OF b rD] x by simp
  have dis: "distinct (xs @ [x])" using base_distinct [OF b rD] x by simp
  have nx: "x \<notin> set ((?L(ready_list := xs)) l)" if "l \<in> D" for l
    using base_one_list [OF b that rD, of x] x dis by (cases "l = ready_list") auto
  have sub: "y \<in> T" if "l \<in> D" "y \<in> set ((?L(ready_list := xs)) l)" for l y
    using base_sub [OF s'(2) that] .
  have "states_ok D s' (?L(ready_list := xs))"
    unfolding states_ok_def
  proof (intro ballI)
    fix l n assume l: "l \<in> D" and n: "n \<in> set ((?L(ready_list := xs)) l)"
    then have "n \<noteq> x" using nx by blast
    moreover have "n \<in> set (?L l)" using n x by (cases "l = ready_list") auto
    ultimately show "state_for l (st_of s' n)" using s'(5) sub [OF l n] st l by (auto simp: states_ok_def)
  qed
  moreover have "T = insert x (\<Union>l \<in> D. set ((?L(ready_list := xs)) l))"
    unfolding Union_upd [OF rD] T Union_split [OF rD, of ?L] x by auto
  ultimately show ?thesis
    using s' xT nx x by (auto simp: sched_rel_def a_switch_def simp del: fun_upd_apply)
qed

text \<open>\<^verbatim>\<open>schedule\<close> called by a task that stays runnable: a yield.\<close>

lemma schedule_yield:
  assumes rel: "sched_rel D T s A" and IF: "\<not> get_IF s" and k: "simple k"
  shows "\<exists>s'. schedule k s = Inr s' \<and> sched_rel D T s' (a_yield A) \<and> jiffies s' = jiffies s"
proof (cases "a_lists A ready_list = []")
  case True
  from rel have b: "base D T s (a_lists A)" and run: "running_task s = Nd (a_run A)" "a_run A \<in> T"
      "st_of s (a_run A) = TASK_RUNNING" using True by (auto simp: sched_rel_def)
  from base_tcb [OF b run(2)] obtain t where "get_tcb s (ow (heap s) (Nd (a_run A))) = Inr t"
      "t_state t = TASK_RUNNING" using run(3) by auto
  moreover obtain f where "run_frames k s = Inr (set_IF f s)"
    using k run_frames_simple [of k s] by (auto simp: simple_def)
  ultimately have "schedule k s = Inr (set_IF f s)"
    using IF run base_popback_Nil [OF b base_lists(1) [OF b] True] base_owner [OF b run(2)]
    by (simp add: schedule_def)
  then show ?thesis using True rel by (simp add: a_yield_def) (simp add: set_IF_def)
next
  case False
  let ?L = "a_lists A" and ?r = "a_run A"
  from rel have b: "base D T s ?L" and run: "running_task s = Nd ?r" "?r \<in> T" "\<forall>l \<in> D. ?r \<notin> set (?L l)"
      and st: "states_ok D s ?L" and T: "T = insert ?r (\<Union>l \<in> D. set (?L l))"
    by (auto simp: sched_rel_def)
  note rD = base_lists(1) [OF b]
  from False obtain xs x where x: "?L ready_list = xs @ [x]" by (metis rev_exhaust)
  with run(3) rD have rx: "?r \<noteq> x" and rxs: "?r \<notin> set xs" by auto
  let ?L' = "?L(ready_list := ?r # xs)"
  have "requeued D ?r (?L(ready_list := xs)) = ?L'"
    using run(3) rxs by (auto simp: requeued_def)
  with schedule_base [OF b IF run(1,2) x rx k] run(3) obtain s' where
    s': "schedule k s = Inr s'" "base D T s' ?L'" "running_task s' = Nd x" "jiffies s' = jiffies s"
      "\<forall>m \<in> T. st_of s' m = (if m = x then TASK_RUNNING else if m = ?r then TASK_READY else st_of s m)"
    by auto
  have xT: "x \<in> T" using base_sub [OF b rD] x by simp
  have dis: "distinct (xs @ [x])" using base_distinct [OF b rD] x by simp
  have nx: "x \<notin> set (?L' l)" if "l \<in> D" for l
    using base_one_list [OF b that rD, of x] x dis rx by (cases "l = ready_list") auto
  have "states_ok D s' ?L'"
    unfolding states_ok_def
  proof (intro ballI)
    fix l n assume l: "l \<in> D" and n: "n \<in> set (?L' l)"
    then have nx': "n \<noteq> x" and nT: "n \<in> T" using nx base_sub [OF s'(2)] by blast+
    show "state_for l (st_of s' n)"
    proof (cases "n = ?r")
      case True
      with n run(3) l have "l = ready_list" by (auto split: if_splits)
      with True s'(5) nx' nT show ?thesis by (simp add: state_for_def)
    next
      case False
      with n x have "n \<in> set (?L l)" by (cases "l = ready_list") auto
      with False s'(5) nx' nT st l show ?thesis by (auto simp: states_ok_def)
    qed
  qed
  moreover have "T = insert x (\<Union>l \<in> D. set (?L' l))"
    unfolding Union_upd [OF rD] T Union_split [OF rD, of ?L] x by auto
  moreover have "a_yield A = A\<lparr>a_lists := ?L', a_run := x\<rparr>"
    using False x by (simp add: a_yield_def a_move_def a_switch_def)
  ultimately show ?thesis
    using s' xT nx by (simp add: sched_rel_def del: fun_upd_apply)
qed

end
