(* ===== verification/Sched_Ops.thy ===== *)
theory Sched_Ops
  imports Scheduler
begin

text \<open>
  The operations that block, wake and put tasks to sleep and the clock interrupt refine
  the abstract scheduler. From them: no assertion of these operations fails as long as
  the idle task does not block, and no task is ever lost.
\<close>

section \<open>Blocking\<close>

lemma put_states:
  assumes st: "states_ok D s L" and b: "base D T s L" and r: "\<forall>m \<in> D. r \<notin> set (L m)"
    and ys: "set ys = insert r (set (L l))" "state_for l (st_of s' r)"
    and eq: "\<forall>m \<in> T. m \<noteq> r \<longrightarrow> st_of s' m = st_of s m"
  shows "states_ok D s' (L(l := ys))"
  unfolding states_ok_def
proof (intro ballI)
  fix m n assume m: "m \<in> D" and n: "n \<in> set ((L(l := ys)) m)"
  show "state_for m (st_of s' n)"
  proof (cases "n = r")
    case True
    with n m r ys show ?thesis by (auto split: if_splits)
  next
    case False
    with n ys have "n \<in> set (L m)" by (auto split: if_splits)
    with False eq st m base_sub [OF b m] show ?thesis by (auto simp: states_ok_def)
  qed
qed

text \<open>The running task is put on list \<open>l\<close> as \<open>ys\<close>, then \<^verbatim>\<open>schedule\<close> switches.\<close>

lemma put_and_switch:
  assumes rel: "sched_rel D T s A" and l: "l \<in> D" "l \<noteq> ready_list"
    and b': "base D T s' ((a_lists A)(l := ys))" and ys: "set ys = insert (a_run A) (set (a_lists A l))"
    and st: "state_for l (st_of s' (a_run A))" "\<forall>m \<in> T. m \<noteq> a_run A \<longrightarrow> st_of s' m = st_of s m"
    and run: "running_task s' = running_task s" and IF: "\<not> get_IF s'"
    and ne: "a_lists A ready_list \<noteq> []" and k: "simple k"
  shows "\<exists>s''. schedule k s' = Inr s'' \<and>
     sched_rel D T s'' (a_switch (A\<lparr>a_lists := (a_lists A)(l := ys)\<rparr>)) \<and> jiffies s'' = jiffies s'"
proof (rule schedule_switch)
  from rel have b: "base D T s (a_lists A)" and r: "\<forall>l \<in> D. a_run A \<notin> set (a_lists A l)"
      and s: "states_ok D s (a_lists A)" and T: "T = insert (a_run A) (\<Union>l \<in> D. set (a_lists A l))"
      and rn: "running_task s = Nd (a_run A)"
    by (auto simp: sched_rel_def)
  let ?A = "A\<lparr>a_lists := (a_lists A)(l := ys)\<rparr>"
  show "base D T s' (a_lists ?A)" using b' by simp
  show "\<not> get_IF s'" "simple k" using IF k by simp_all
  show "running_task s' = Nd (a_run ?A)" using run rn by simp
  show "states_ok D s' (a_lists ?A)" using put_states [OF s b r ys st] by simp
  show "T = (\<Union>l \<in> D. set (a_lists ?A l))"
    using T ys Union_upd [OF l(1), of "a_lists A" ys] Union_split [OF l(1), of "a_lists A"]
    by (simp del: fun_upd_apply)
  show "a_run ?A \<in> T" using T by simp
  show "a_run ?A \<notin> set (a_lists ?A ready_list)" "a_lists ?A ready_list \<noteq> []"
    using r l base_lists(1) [OF b] ne by auto
qed

lemma wait_list_state:
  "l \<notin> {ready_list, sleep_list, died_list} \<Longrightarrow> st = TASK_BLOCKED \<or> st = TASK_WAITING \<Longrightarrow> state_for l st"
  by (simp add: state_for_def)

lemma set_IF_fields [simp]:
  "heap (set_IF b s) = heap s" "tcbs (set_IF b s) = tcbs s" "running_task (set_IF b s) = running_task s"
  "jiffies (set_IF b s) = jiffies s" "get_IF (set_IF b s) = b"
  by (simp_all add: set_IF_def get_IF_def)

lemma get_IF_fields [simp]:
  "get_IF (s\<lparr>heap := h\<rparr>) = get_IF s" "get_IF (s\<lparr>tcbs := tb\<rparr>) = get_IF s" "get_IF (s\<lparr>jiffies := j\<rparr>) = get_IF s"
  by (simp_all add: get_IF_def)

text \<open>\<^verbatim>\<open>block\<close> up to its call of \<^verbatim>\<open>schedule\<close>.\<close>

lemma block_steps:
  assumes rel: "sched_rel D T s A" and l: "l \<in> D" and lst: "(case lst of Some m \<Rightarrow> m | None \<Rightarrow> block_list) = l"
  shows "\<exists>s'. block lst Null st k s = schedule (SetIF (get_IF s) # k) s' \<and>
     base D T s' ((a_lists A)(l := a_run A # a_lists A l)) \<and> \<not> get_IF s' \<and>
     running_task s' = running_task s \<and> jiffies s' = jiffies s \<and>
     (\<forall>m \<in> T. st_of s' m = (if m = a_run A then st else st_of s m))"
proof -
  let ?s = "set_IF False s"
  from rel have "sched_rel D T ?s A" by simp
  then have b: "base D T ?s (a_lists A)" and r: "\<forall>l \<in> D. a_run A \<notin> set (a_lists A l)" "a_run A \<in> T"
      and rn: "running_task ?s = Nd (a_run A)" by (auto simp: sched_rel_def)
  from base_upd_state [OF b r(2), of "\<lambda>t. t\<lparr>t_state := st\<rparr>"] obtain tb where
    s1: "upd_tcb (ow (heap s) (Nd (a_run A))) (\<lambda>t. t\<lparr>t_state := st\<rparr>) ?s = Inr (?s\<lparr>tcbs := tb\<rparr>)"
      "base D T (?s\<lparr>tcbs := tb\<rparr>) (a_lists A)"
      "\<forall>m \<in> T. st_of (?s\<lparr>tcbs := tb\<rparr>) m = (if m = a_run A then st else st_of ?s m)" by auto
  from base_push [OF s1(2) l r(2,1)] obtain h where
    s2: "on_heap (\<lambda>h. list_push h l (Nd (a_run A))) (?s\<lparr>tcbs := tb\<rparr>) = Inr (?s\<lparr>tcbs := tb, heap := h\<rparr>)"
      "base D T (?s\<lparr>tcbs := tb, heap := h\<rparr>) ((a_lists A)(l := a_run A # a_lists A l))"
      "st_of (?s\<lparr>tcbs := tb, heap := h\<rparr>) = st_of (?s\<lparr>tcbs := tb\<rparr>)" by auto
  have "ct (heap s) (Nd (a_run A)) = None" using base_container [OF s1(2) r(2)] r(1) by simp
  then obtain nd where nd: "get_node (heap s) (Nd (a_run A)) = Inr nd" "n_container nd = None"
    using base_ct [OF s1(2) r(2)] by auto
  have "st_of ?s = st_of s" by (rule base_cong) simp_all
  moreover have "block lst Null st k s = schedule (SetIF (get_IF s) # k) (?s\<lparr>tcbs := tb, heap := h\<rparr>)"
    using base_owner [OF b r(2)] rn s1(1) s2(1) nd lst
    by (simp add: block_def get_and_disable_IF_def Let_def)
  ultimately show ?thesis
    using s1(3) s2(2,3) by (intro exI [of _ "?s\<lparr>tcbs := tb, heap := h\<rparr>"]) simp
qed

lemma block_refines:
  assumes rel: "sched_rel D T s A" and l: "l \<in> D" "l \<notin> {ready_list, sleep_list, died_list}"
    and lst: "(case lst of Some m \<Rightarrow> m | None \<Rightarrow> block_list) = l"
    and st: "st = TASK_BLOCKED \<or> st = TASK_WAITING"
    and ne: "a_lists A ready_list \<noteq> []" and k: "simple k"
  shows "\<exists>s'. block lst Null st k s = Inr s' \<and> sched_rel D T s' (a_block l A) \<and> jiffies s' = jiffies s"
proof -
  from block_steps [OF rel l(1) lst, of st k] obtain s1 where
    s1: "block lst Null st k s = schedule (SetIF (get_IF s) # k) s1"
      "base D T s1 ((a_lists A)(l := a_run A # a_lists A l))" "\<not> get_IF s1"
      "running_task s1 = running_task s" "jiffies s1 = jiffies s"
      "\<forall>m \<in> T. st_of s1 m = (if m = a_run A then st else st_of s m)" by auto
  have "a_run A \<in> T" using rel by (auto simp: sched_rel_def)
  with put_and_switch [OF rel l(1) _ s1(2) _ _ _ s1(4,3) ne, of "SetIF (get_IF s) # k"] l(2) s1(6) st k
    wait_list_state [OF l(2) st]
  show ?thesis using s1(1,5) by (auto simp: a_block_def a_move_def)
qed

text \<open>Without a ready task the assertion of \<^verbatim>\<open>schedule\<close> stops the kernel.\<close>

lemma schedule_dead:
  assumes b: "base D T s L" and IF: "\<not> get_IF s" and e: "L ready_list = []"
    and r: "running_task s = Nd r" "r \<in> T" "st_of s r \<noteq> TASK_RUNNING"
  shows "schedule k s = Inl Assert"
  using IF r base_popback_Nil [OF b base_lists(1) [OF b] e] base_owner [OF b r(2)] base_tcb [OF b r(2)]
  by (auto simp: schedule_def)

section \<open>Waking\<close>

text \<open>A task goes from its list to another one and gets the state that list stands for.\<close>

lemma move_refines:
  assumes rel: "sched_rel D T s A" and l: "l \<in> D" and n: "n \<in> set (a_lists A l)"
    and k: "k \<in> D" "state_for k st" and ne: "k = ready_list \<or> l \<noteq> ready_list"
  shows "\<exists>h1 h2 tb. on_heap (\<lambda>h. remove_node h (Nd n)) s = Inr (s\<lparr>heap := h1\<rparr>) \<and>
     on_heap (\<lambda>h. list_push h k (Nd n)) (s\<lparr>heap := h1\<rparr>) = Inr (s\<lparr>heap := h2\<rparr>) \<and>
     owner_of (s\<lparr>heap := h2\<rparr>) (Nd n) = Inr (ow (heap s) (Nd n)) \<and>
     upd_tcb (ow (heap s) (Nd n)) (\<lambda>t. t\<lparr>t_state := st\<rparr>) (s\<lparr>heap := h2\<rparr>) = Inr (s\<lparr>heap := h2, tcbs := tb\<rparr>) \<and>
     sched_rel D T (s\<lparr>heap := h2, tcbs := tb\<rparr>) (a_move k n (a_drop n A)) \<and> ow h2 = ow (heap s) \<and> vl h2 = vl (heap s) \<and>
     (\<forall>m \<in> T. tcb_of (s\<lparr>heap := h2, tcbs := tb\<rparr>) m = (if m = n then map_option (\<lambda>t. t\<lparr>t_state := st\<rparr>) (tcb_of s n) else tcb_of s m))"
proof -
  let ?L = "a_lists A"
  from rel have b: "base D T s ?L" and r: "\<forall>l \<in> D. a_run A \<notin> set (?L l)" "a_run A \<in> T"
      and st: "states_ok D s ?L" and T: "T = insert (a_run A) (\<Union>l \<in> D. set (?L l))"
      and rn: "running_task s = Nd (a_run A)"
      and rs: "st_of s (a_run A) = TASK_RUNNING \<or> st_of s (a_run A) = TASK_READY \<and> ?L ready_list \<noteq> []"
    by (auto simp: sched_rel_def)
  note rD = base_lists(1) [OF b]
  have nT: "n \<in> T" using base_sub [OF b l n] .
  have nr: "n \<noteq> a_run A" using r(1) l n by auto
  have only: "n \<notin> set (?L m)" if "m \<in> D" "m \<noteq> l" for m
    using base_one_list [OF b l that(1) n] that(2) by auto
  define L1 where "L1 = ?L(l := remove1 n (?L l))"
  have drop: "remove1 n (?L m) = L1 m" if "m \<in> D" for m
    using only [OF that] by (cases "m = l") (simp_all add: L1_def remove1_idem)
  from base_remove [OF b l n] obtain h1 where
    s1: "on_heap (\<lambda>h. remove_node h (Nd n)) s = Inr (s\<lparr>heap := h1\<rparr>)" "base D T (s\<lparr>heap := h1\<rparr>) L1"
      "st_of (s\<lparr>heap := h1\<rparr>) = st_of s" "ow h1 = ow (heap s)" "vl h1 = vl (heap s)" by (auto simp: L1_def)
  have off: "\<forall>m \<in> D. n \<notin> set (L1 m)"
    using only base_distinct [OF b l] by (auto simp: L1_def)
  from base_push [OF s1(2) k(1) nT off] obtain h2 where
    s2: "on_heap (\<lambda>h. list_push h k (Nd n)) (s\<lparr>heap := h1\<rparr>) = Inr (s\<lparr>heap := h2\<rparr>)"
      "base D T (s\<lparr>heap := h2\<rparr>) (L1(k := n # L1 k))"
      "st_of (s\<lparr>heap := h2\<rparr>) = st_of s" "ow h2 = ow (heap s)" "vl h2 = vl (heap s)"
    using s1(3-) by auto
  from base_upd_state [OF s2(2) nT, of "\<lambda>t. t\<lparr>t_state := st\<rparr>"] s2(3) obtain tb where
    s3: "upd_tcb (ow h2 (Nd n)) (\<lambda>t. t\<lparr>t_state := st\<rparr>) (s\<lparr>heap := h2\<rparr>) = Inr (s\<lparr>heap := h2, tcbs := tb\<rparr>)"
      "base D T (s\<lparr>heap := h2, tcbs := tb\<rparr>) (L1(k := n # L1 k))"
      "\<forall>m \<in> T. st_of (s\<lparr>heap := h2, tcbs := tb\<rparr>) m = (if m = n then st else st_of s m)"
      "\<forall>m \<in> T. m \<noteq> n \<longrightarrow> tcb_of (s\<lparr>heap := h2, tcbs := tb\<rparr>) m = tcb_of (s\<lparr>heap := h2\<rparr>) m"
      "tcb_of (s\<lparr>heap := h2, tcbs := tb\<rparr>) n = map_option (\<lambda>t. t\<lparr>t_state := st\<rparr>) (tcb_of (s\<lparr>heap := h2\<rparr>) n)" by auto
  let ?s3 = "s\<lparr>heap := h2, tcbs := tb\<rparr>" and ?L3 = "L1(k := n # L1 k)" and ?B = "a_move k n (a_drop n A)"
  have "states_ok D (s\<lparr>heap := h1\<rparr>) L1"
    using st s1(3) by (auto simp: states_ok_def L1_def dest: notin_set_remove1 split: if_splits)
  then have st3: "states_ok D ?s3 ?L3"
    using put_states [OF _ s1(2) off, of "n # L1 k" k ?s3] s3(3) s1(3) nT k(2) by simp
  have T3: "T = insert (a_run A) (\<Union>m \<in> D. set (?L3 m))"
  proof -
    have "(\<Union>m \<in> D. set (?L3 m)) = insert n (\<Union>m \<in> D. set (L1 m))"
      by (simp only: Union_upd [OF k(1)] Union_split [OF k(1), of L1] list.set Un_insert_left)
    also have "\<dots> = (\<Union>m \<in> D. set (?L m))"
      unfolding L1_def Union_upd [OF l] Union_split [OF l, of ?L]
      using base_distinct [OF b l] n by (auto simp: set_remove1_eq)
    finally show ?thesis using T by simp
  qed
  have eq: "a_lists ?B m = ?L3 m" if "m \<in> D" for m
    using drop that k(1) by (simp add: a_move_def a_drop_def)
  then have "base D T ?s3 (a_lists ?B) = base D T ?s3 ?L3" "states_ok D ?s3 (a_lists ?B) = states_ok D ?s3 ?L3"
    "(\<Union>m \<in> D. set (a_lists ?B m)) = (\<Union>m \<in> D. set (?L3 m))"
    unfolding base_def states_ok_def by (simp_all del: fun_upd_apply)
  moreover have "\<forall>m \<in> D. a_run A \<notin> set (a_lists ?B m)"
    using r(1) nr k(1) by (auto simp: a_move_def a_drop_def dest: notin_set_remove1)
  moreover have "st_of ?s3 (a_run A) = TASK_RUNNING \<or> st_of ?s3 (a_run A) = TASK_READY \<and> a_lists ?B ready_list \<noteq> []"
  proof -
    have "a_lists ?B ready_list = [] \<Longrightarrow> ?L ready_list = []"
      using ne only [OF rD] by (auto simp: a_move_def a_drop_def remove1_idem split: if_splits)
    with rs s3(3) r(2) nr show ?thesis by auto
  qed
  moreover have "a_run ?B = a_run A" by (simp add: a_move_def a_drop_def)
  ultimately have "sched_rel D T ?s3 ?B" using s3(2) st3 T3 rn by (simp add: sched_rel_def)
  moreover have "\<forall>m \<in> T. tcb_of ?s3 m = (if m = n then map_option (\<lambda>t. t\<lparr>t_state := st\<rparr>) (tcb_of s n) else tcb_of s m)"
    using s3(4,5) s2(4) by (auto simp: tcb_of_def)
  moreover have "owner_of (s\<lparr>heap := h2\<rparr>) (Nd n) = Inr (ow (heap s) (Nd n))" using base_owner [OF s2(2) nT] s2(4) by simp
  ultimately show ?thesis using s1(1) s2(1,4,5) s3(1) by metis
qed

lemma unblock_refines:
  assumes rel: "sched_rel D T s A" and l: "l \<in> D" and n: "n \<in> set (a_lists A l)"
  shows "\<exists>s'. unblock (Nd n) s = Inr s' \<and> sched_rel D T s' (a_unblock n A) \<and> jiffies s' = jiffies s \<and>
     get_IF s' = get_IF s \<and> tcb_of s' (a_run A) = tcb_of s (a_run A) \<and> vl (heap s') = vl (heap s) \<and>
     ow (heap s') = ow (heap s) \<and> (\<forall>m \<in> T. m \<noteq> n \<longrightarrow> tcb_of s' m = tcb_of s m)"
proof -
  let ?s = "set_IF False s"
  have rel': "sched_rel D T ?s A" using rel by simp
  then have rD: "ready_list \<in> D" and r: "a_run A \<in> T" "n \<noteq> a_run A" using l n by (auto simp: sched_rel_def base_def)
  from move_refines [OF rel' l n rD, of TASK_READY] obtain h1 h2 tb where
    m: "on_heap (\<lambda>h. remove_node h (Nd n)) ?s = Inr (?s\<lparr>heap := h1\<rparr>)"
      "on_heap (\<lambda>h. list_push h ready_list (Nd n)) (?s\<lparr>heap := h1\<rparr>) = Inr (?s\<lparr>heap := h2\<rparr>)"
      "owner_of (?s\<lparr>heap := h2\<rparr>) (Nd n) = Inr (ow (heap s) (Nd n))"
      "upd_tcb (ow (heap s) (Nd n)) (\<lambda>t. t\<lparr>t_state := TASK_READY\<rparr>) (?s\<lparr>heap := h2\<rparr>) = Inr (?s\<lparr>heap := h2, tcbs := tb\<rparr>)"
      "sched_rel D T (?s\<lparr>heap := h2, tcbs := tb\<rparr>) (a_unblock n A)" "ow h2 = ow (heap s)" "vl h2 = vl (heap s)"
      "\<forall>m \<in> T. m \<noteq> n \<longrightarrow> tcb_of (?s\<lparr>heap := h2, tcbs := tb\<rparr>) m = tcb_of ?s m"
    using r by (auto simp: state_for_def a_unblock_def)
  have "unblock (Nd n) s = Inr (set_IF (get_IF s) (?s\<lparr>heap := h2, tcbs := tb\<rparr>))"
    using m(1-4) by (simp add: unblock_def get_and_disable_IF_def Let_def)
  moreover have "\<forall>m \<in> T. m \<noteq> n \<longrightarrow> tcb_of (set_IF (get_IF s) (?s\<lparr>heap := h2, tcbs := tb\<rparr>)) m = tcb_of s m"
    using m(8) by (simp add: tcb_of_def)
  ultimately show ?thesis using m(5-7) r by simp
qed

section \<open>Sleeping\<close>

definition sleep_ticks :: "u32 \<Rightarrow> u32" where
  "sleep_ticks time = (if time mod JIFFY \<noteq> 0 then time div JIFFY + 1 else time div JIFFY)"

lemma task_sleep_refines:
  assumes rel: "sched_rel D T s A" and IF: "\<not> get_IF s" and ne: "a_lists A ready_list \<noteq> []" and k: "simple k"
  shows "\<exists>s'. task_sleep time k s = Inr s' \<and> jiffies s' = jiffies s \<and>
     sched_rel D T s' (a_sleep ((\<lambda>n. vl (heap s) (Nd n))(a_run A := jiffies s + sleep_ticks time)) A)"
proof -
  let ?v = "jiffies s + sleep_ticks time" and ?L = "a_lists A" and ?r = "a_run A"
  from rel have b: "base D T s ?L" and r: "\<forall>l \<in> D. ?r \<notin> set (?L l)" "?r \<in> T"
      and rn: "running_task s = Nd ?r" by (auto simp: sched_rel_def)
  note sD = base_lists(2) [OF b]
  from base_value [OF b r(2), of ?v] obtain h1 where
    s1: "on_heap (\<lambda>h. upd_node h (Nd ?r) (\<lambda>x. x\<lparr>n_value := ?v\<rparr>)) s = Inr (s\<lparr>heap := h1\<rparr>)"
      "base D T (s\<lparr>heap := h1\<rparr>) ?L" "st_of (s\<lparr>heap := h1\<rparr>) = st_of s"
      "vl h1 = (vl (heap s))(Nd ?r := ?v)" by auto
  from base_upd_state [OF s1(2) r(2), of "\<lambda>t. t\<lparr>t_state := TASK_SLEEPING\<rparr>"] s1(3) obtain tb where
    s2: "upd_tcb (ow h1 (Nd ?r)) (\<lambda>t. t\<lparr>t_state := TASK_SLEEPING\<rparr>) (s\<lparr>heap := h1\<rparr>) = Inr (s\<lparr>heap := h1, tcbs := tb\<rparr>)"
      "base D T (s\<lparr>heap := h1, tcbs := tb\<rparr>) ?L"
      "\<forall>m \<in> T. st_of (s\<lparr>heap := h1, tcbs := tb\<rparr>) m = (if m = ?r then TASK_SLEEPING else st_of s m)"
    by auto
  let ?key = "(\<lambda>n. vl (heap s) (Nd n))(?r := ?v)"
  have key: "(\<lambda>n. vl h1 (Nd n)) = ?key" using s1(4) by auto
  let ?ys = "ordered_place ?key greater_u32 ?r (?L sleep_list)"
  from base_insert [OF s2(2) sD r(2,1), of greater_u32] obtain h2 where
    s3: "on_heap (\<lambda>h. list_insert h sleep_list (Nd ?r) greater_u32) (s\<lparr>heap := h1, tcbs := tb\<rparr>) =
        Inr (s\<lparr>heap := h1, tcbs := tb, heap := h2\<rparr>)"
      "base D T (s\<lparr>heap := h1, tcbs := tb, heap := h2\<rparr>) (?L(sleep_list := ?ys))"
      "st_of (s\<lparr>heap := h1, tcbs := tb, heap := h2\<rparr>) = st_of (s\<lparr>heap := h1, tcbs := tb\<rparr>)"
    using key by auto
  let ?s3 = "s\<lparr>heap := h1, tcbs := tb, heap := h2\<rparr>"
  from put_and_switch [OF rel sD _ s3(2) _ _ _ _ _ ne k] obtain s' where
    "schedule k ?s3 = Inr s'" "sched_rel D T s' (a_switch (A\<lparr>a_lists := ?L(sleep_list := ?ys)\<rparr>))"
    "jiffies s' = jiffies s"
    using s3(3) s2(3) r(2) IF by (auto simp: list_ids ordered_place_set state_for_def)
  moreover have "task_sleep time k s = schedule k ?s3"
    using IF rn s1(1) s2(1) s3(1) base_owner [OF s1(2) r(2)]
    by (simp add: task_sleep_def Let_def sleep_ticks_def)
  ultimately show ?thesis by (auto simp: a_sleep_def)
qed

section \<open>The clock\<close>

lemma upd_push_commute:
  assumes "tcbs s a \<noteq> None"
  shows "rbind (upd_tcb a f s) (on_heap g) = rbind (on_heap g s) (upd_tcb a f)"
  using assms by (auto simp: upd_tcb_def get_tcb_def on_heap_def rbind_def split: sum.splits)

lemma list_push_ow: "base D T s L \<Longrightarrow> l \<in> D \<Longrightarrow> n \<in> T \<Longrightarrow> \<forall>m \<in> D. n \<notin> set (L m) \<Longrightarrow>
    on_heap (\<lambda>h. list_push h l (Nd n)) s = Inr s' \<Longrightarrow> ow (heap s') = ow (heap s) \<and> alive (heap s') (Nd n)"
  using base_push [of D T s L l n] by (force simp: base_def)

lemma set_IF_same: "\<not> get_IF s \<Longrightarrow> set_IF False s = s"
  by (simp add: get_IF_def set_IF_def)

text \<open>An interrupt handler wakes the first task of a list, if there is one.\<close>

definition a_wake_first :: "nat \<Rightarrow> asched \<Rightarrow> asched" where
  "a_wake_first l A = (case a_lists A l of [] \<Rightarrow> A | q # _ \<Rightarrow> a_unblock q A)"

lemma wake_first_refines:
  assumes rel: "sched_rel D T s A" and l: "l \<in> D"
  shows "\<exists>s'. rbind (list_isempty (heap s) l) (\<lambda>e. if e then Inr s
        else rbind (get_node (heap s) (End l)) (\<lambda>x. unblock (n_next x) s)) = Inr s' \<and>
     (s' = s \<or> (\<exists>q. unblock q s = Inr s')) \<and> sched_rel D T s' (a_wake_first l A) \<and> get_IF s' = get_IF s \<and>
     (\<forall>k \<in> D. \<forall>m \<in> set (a_lists A k). k \<noteq> l \<longrightarrow> m \<in> set (a_lists (a_wake_first l A) k) \<and> tcb_of s' m = tcb_of s m)"
proof -
  from rel have b: "base D T s (a_lists A)" unfolding sched_rel_def by blast
  note lr = base_lrepr [OF b l]
  show ?thesis
  proof (cases "a_lists A l")
    case Nil
    with lrepr_number_0 [OF lr] rel show ?thesis by (simp add: a_wake_first_def)
  next
    case (Cons q qs)
    from lrepr_get_end [OF lr] lrepr_first [OF lr] Cons obtain e where e: "get_node (heap s) (End l) = Inr e" "n_next e = Nd q" by auto
    from unblock_refines [OF rel l, of q] Cons obtain s' where
      s': "unblock (Nd q) s = Inr s'" "sched_rel D T s' (a_unblock q A)" "get_IF s' = get_IF s" "\<forall>m \<in> T. m \<noteq> q \<longrightarrow> tcb_of s' m = tcb_of s m"
      by auto
    have "m \<in> set (a_lists (a_unblock q A) k) \<and> tcb_of s' m = tcb_of s m" if m: "k \<in> D" "m \<in> set (a_lists A k)" "k \<noteq> l" for k m
    proof -
      have "m \<noteq> q" using base_one_list [OF b m(1) l, of m] m Cons by auto
      with m s'(4) base_sub [OF b m(1,2)] show ?thesis by (auto simp: a_unblock_def a_move_def a_drop_def)
    qed
    with s' e lrepr_number_0 [OF lr] Cons show ?thesis by (auto simp: a_wake_first_def)
  qed
qed

text \<open>\<^verbatim>\<open>weakup\<close> wakes the first sleeper when its time has come, exactly like \<^verbatim>\<open>unblock\<close>.\<close>

lemma weakup_unblock:
  assumes b: "base D T s L" and IF: "\<not> get_IF s" and n: "L sleep_list = n # ns"
  shows "weakup s = (if jiffies s \<ge> vl (heap s) (Nd n) then unblock (Nd n) s else Inr s)"
proof -
  note sD = base_lists(2) [OF b]
  have nT: "n \<in> T" using base_sub [OF b sD] n by simp
  from lrepr_get_end [OF base_lrepr [OF b sD]] lrepr_first [OF base_lrepr [OF b sD]] n obtain e where
    e: "get_node (heap s) (End sleep_list) = Inr e" "n_next e = Nd n" by auto
  from base_ct [OF b nT] obtain nd where nd: "get_node (heap s) (Nd n) = Inr nd"
      "n_owner nd = ow (heap s) (Nd n)" "n_value nd = vl (heap s) (Nd n)" by auto
  have o: "ow (heap s) (Nd n) \<noteq> 0" using b nT by (simp add: base_def)
  define L1 where "L1 = L(sleep_list := ns)"
  from base_remove [OF b sD, of n] n obtain h1 where
    s1: "on_heap (\<lambda>h. remove_node h (Nd n)) s = Inr (s\<lparr>heap := h1\<rparr>)"
      "base D T (s\<lparr>heap := h1\<rparr>) L1" "ow h1 = ow (heap s)" by (auto simp: L1_def)
  have off: "\<forall>m \<in> D. n \<notin> set (L1 m)"
  proof
    fix m assume "m \<in> D"
    then show "n \<notin> set (L1 m)"
      using base_one_list [OF b _ sD, of m n] base_distinct [OF b sD] n
      by (cases "m = sleep_list") (auto simp: L1_def)
  qed
  from base_push [OF s1(2) base_lists(1) [OF b] nT off] s1(3) obtain h2 where
    s2: "on_heap (\<lambda>h. list_push h ready_list (Nd n)) (s\<lparr>heap := h1\<rparr>) = Inr (s\<lparr>heap := h2\<rparr>)" "ow h2 = ow (heap s)"
      "base D T (s\<lparr>heap := h2\<rparr>) (L1(ready_list := n # L1 ready_list))" by auto
  have "owner_of (s\<lparr>heap := h2\<rparr>) (Nd n) = Inr (ow (heap s) (Nd n))"
    using base_owner [OF s2(3) nT] s2(2) by simp
  moreover have "tcbs (s\<lparr>heap := h1\<rparr>) (ow (heap s) (Nd n)) \<noteq> None"
    using b nT by (auto simp: base_def tcb_of_def)
  ultimately show ?thesis
    using e nd o IF s1(1) s2(1) set_IF_same [OF IF]
    by (auto simp: weakup_def unblock_def get_and_disable_IF_def Let_def upd_push_commute)
      (auto simp: upd_tcb_def get_tcb_def set_IF_same)
qed

lemma weakup_refines:
  assumes rel: "sched_rel D T s A" and IF: "\<not> get_IF s"
  shows "\<exists>s'. weakup s = Inr s' \<and> sched_rel D T s' (a_weakup (jiffies s) (\<lambda>n. vl (heap s) (Nd n)) A) \<and>
     jiffies s' = jiffies s \<and> \<not> get_IF s' \<and> tcb_of s' (a_run A) = tcb_of s (a_run A) \<and>
     ow (heap s') = ow (heap s)"
proof -
  from rel have b: "base D T s (a_lists A)" by (auto simp: sched_rel_def)
  note sD = base_lists(2) [OF b]
  show ?thesis
  proof (cases "a_lists A sleep_list")
    case Nil
    with lrepr_get_end [OF base_lrepr [OF b sD]] lrepr_first [OF base_lrepr [OF b sD]] obtain e where
      e: "get_node (heap s) (End sleep_list) = Inr e" "n_next e = End sleep_list" by auto
    have "ow (heap s) (End sleep_list) = 0" using base_lrepr [OF b sD] by (simp add: lrepr_def)
    with e(1) have "n_owner e = 0" by (simp add: ow_def get_node_def split: option.splits)
    with e Nil IF rel show ?thesis by (simp add: weakup_def a_weakup_def)
  next
    case (Cons n ns)
    with weakup_unblock [OF b IF Cons] unblock_refines [OF rel sD, of n] rel IF
    show ?thesis by (auto simp: a_weakup_def)
  qed
qed

text \<open>A clock tick: time advances, a due sleeper is woken, and a task at the end of its slice yields.\<close>

definition a_tick :: "u32 \<Rightarrow> (nat \<Rightarrow> u32) \<Rightarrow> bool \<Rightarrow> asched \<Rightarrow> asched" where
  "a_tick now key expired A =
     (let B = a_weakup now key A in if expired then a_yield B else B)"

lemma a_weakup_run [simp]: "a_run (a_weakup now key A) = a_run A"
  by (simp add: a_weakup_def a_unblock_def a_move_def a_drop_def split: list.split)

text \<open>An update of the running control block that keeps its state.\<close>

lemma rel_upd_running:
  assumes rel: "sched_rel D T s A" and f: "\<And>t. tcb_ok t \<Longrightarrow> tcb_ok (f t)" "\<And>t. t_state (f t) = t_state t"
  shows "\<exists>tb. upd_tcb (ow (heap s) (Nd (a_run A))) f s = Inr (s\<lparr>tcbs := tb\<rparr>) \<and> sched_rel D T (s\<lparr>tcbs := tb\<rparr>) A \<and>
     tcb_of (s\<lparr>tcbs := tb\<rparr>) (a_run A) = map_option f (tcb_of s (a_run A))"
proof -
  from rel have b: "base D T s (a_lists A)" and r: "a_run A \<in> T" by (auto simp: sched_rel_def)
  from base_upd_state [OF b r, of f] f obtain tb where
    tb: "upd_tcb (ow (heap s) (Nd (a_run A))) f s = Inr (s\<lparr>tcbs := tb\<rparr>)" "base D T (s\<lparr>tcbs := tb\<rparr>) (a_lists A)"
      "\<forall>m \<in> T. st_of (s\<lparr>tcbs := tb\<rparr>) m = st_of s m"
      "tcb_of (s\<lparr>tcbs := tb\<rparr>) (a_run A) = map_option f (tcb_of s (a_run A))"
    by (auto simp: st_of_def)
  have "states_ok D (s\<lparr>tcbs := tb\<rparr>) (a_lists A)"
    using rel tb(3) base_sub [OF b] by (auto simp: sched_rel_def states_ok_def)
  then have "sched_rel D T (s\<lparr>tcbs := tb\<rparr>) A"
    using rel tb(2) tb(3)[rule_format, OF r] unfolding sched_rel_def by (auto simp del: UN_simps)
  with tb show ?thesis by blast
qed

lemma clock_handler_refines:
  assumes rel: "sched_rel D T s A" and IF: "\<not> get_IF s" and k: "simple k"
  shows "\<exists>s' t. clock_handler k s = Inr s' \<and> jiffies s' = jiffies s + 1 \<and> tcb_of s (a_run A) = Some t \<and>
     sched_rel D T s' (a_tick (jiffies s + 1) (\<lambda>n. vl (heap s) (Nd n)) (ticks t = 1) A)"
proof -
  let ?a = "ow (heap s) (Nd (a_run A))"
  from rel have b: "base D T s (a_lists A)" and r: "a_run A \<in> T" "running_task s = Nd (a_run A)"
    by (auto simp: sched_rel_def)
  from base_tcb [OF b r(1)] obtain t where t: "get_tcb s ?a = Inr t" "magic t = RDIX_MAGIC"
      "tcb_of s (a_run A) = Some t" by (auto simp: tcb_ok_def)
  let ?s0 = "s\<lparr>jiffies := jiffies s + 1\<rparr>"
  have "sched_rel D T ?s0 A" using sched_rel_cong [of ?s0 s] rel by simp
  from rel_upd_running [OF this, of "\<lambda>t. t\<lparr>t_jiffies := jiffies s + 1\<rparr>"] t(3) obtain tb1 where
    s1: "upd_tcb ?a (\<lambda>t. t\<lparr>t_jiffies := jiffies s + 1\<rparr>) ?s0 = Inr (?s0\<lparr>tcbs := tb1\<rparr>)"
      "sched_rel D T (?s0\<lparr>tcbs := tb1\<rparr>) A"
      "tcb_of (?s0\<lparr>tcbs := tb1\<rparr>) (a_run A) = Some (t\<lparr>t_jiffies := jiffies s + 1\<rparr>)"
    by (auto simp: tcb_of_def)
  let ?B = "a_weakup (jiffies s + 1) (\<lambda>n. vl (heap s) (Nd n)) A"
  from weakup_refines [OF s1(2)] s1(3) IF obtain s2 where
    s2: "weakup (?s0\<lparr>tcbs := tb1\<rparr>) = Inr s2" "sched_rel D T s2 ?B" "jiffies s2 = jiffies s + 1" "\<not> get_IF s2"
      "tcb_of s2 (a_run A) = Some (t\<lparr>t_jiffies := jiffies s + 1\<rparr>)" "ow (heap s2) = ow (heap s)" by auto
  from rel_upd_running [OF s2(2), of "\<lambda>t. t\<lparr>ticks := ticks t - 1\<rparr>"] s2(5,6) obtain tb3 where
    s3: "upd_tcb ?a (\<lambda>t. t\<lparr>ticks := ticks t - 1\<rparr>) s2 = Inr (s2\<lparr>tcbs := tb3\<rparr>)"
      "sched_rel D T (s2\<lparr>tcbs := tb3\<rparr>) ?B"
      "tcb_of (s2\<lparr>tcbs := tb3\<rparr>) (a_run A) = Some (t\<lparr>t_jiffies := jiffies s + 1, ticks := ticks t - 1\<rparr>)"
    by auto
  then have g3: "get_tcb (s2\<lparr>tcbs := tb3\<rparr>) ?a = Inr (t\<lparr>t_jiffies := jiffies s + 1, ticks := ticks t - 1\<rparr>)"
    using s2(6) by (simp add: get_tcb_def tcb_of_def)
  have z: "ticks t - 1 = 0 \<longleftrightarrow> ticks t = 1" by simp
  show ?thesis
  proof (cases "ticks t = 1")
    case True
    from rel_upd_running [OF s3(2), of "\<lambda>t. t\<lparr>ticks := priority t\<rparr>"] s2(6) obtain tb4 where
      s4: "upd_tcb ?a (\<lambda>t. t\<lparr>ticks := priority t\<rparr>) (s2\<lparr>tcbs := tb3\<rparr>) = Inr (s2\<lparr>tcbs := tb4\<rparr>)"
        "sched_rel D T (s2\<lparr>tcbs := tb4\<rparr>) ?B" by auto
    from schedule_yield [OF s4(2) _ k] s2(3,4) obtain s' where
      "schedule k (s2\<lparr>tcbs := tb4\<rparr>) = Inr s'" "sched_rel D T s' (a_yield ?B)" "jiffies s' = jiffies s + 1" by auto
    with True t r(2) base_owner [OF b r(1)] s1(1) s2(1) s3(1) s4(1) g3 show ?thesis
      by (simp add: clock_handler_def Let_def a_tick_def)
  next
    case False
    obtain f where "run_frames k (s2\<lparr>tcbs := tb3\<rparr>) = Inr (set_IF f (s2\<lparr>tcbs := tb3\<rparr>))"
      using k run_frames_simple [of k] by (auto simp: simple_def)
    with False t r(2) base_owner [OF b r(1)] s1(1) s2(1,3) s3(1,2) g3 z show ?thesis
      by (simp add: clock_handler_def Let_def a_tick_def)
  qed
qed

end
