(* ===== verification/Sched_Machine.thy ===== *)
theory Sched_Machine
  imports Sched_Ops
begin

text \<open>
  The scheduler as a machine: the calls that tasks and the clock can issue, in any order.
  As long as the idle task never blocks, no call hits an assertion and no task is lost.
  The properties of the scheduler and of \<^verbatim>\<open>sys_waitpid\<close> are here.
\<close>

section \<open>Calls\<close>

text \<open>\<open>k\<close> are frames of the callers that only restore the flag, for example at \<^verbatim>\<open>iret\<close>.\<close>

datatype call =
  Cli | Sti | Tick | Yield "bool list" | Block nat task_state_t "bool list" | Unblock nat | Sleep u32 "bool list"

fun do_call :: "call \<Rightarrow> 'a kernel_scheme \<Rightarrow> 'a kernel_scheme res" where
  "do_call Cli s = Inr (set_IF False s)"
| "do_call Sti s = Inr (set_IF True s)"
| "do_call Tick s = clock_interrupt s"
| "do_call (Yield k) s = sys_yield (map SetIF k) s"
| "do_call (Block l st k) s = block (Some l) Null st (map SetIF k) s"
| "do_call (Unblock n) s = unblock (Nd n) s"
| "do_call (Sleep time k) s = task_sleep time (map SetIF k) s"

text \<open>
  When a call may be issued: \<^verbatim>\<open>sys_yield\<close> and \<^verbatim>\<open>task_sleep\<close> with interrupts off, blocking
  on a wait list and not by the idle task, waking a task that is on some list.
\<close>

fun may_call :: "nat set \<Rightarrow> nat \<Rightarrow> call \<Rightarrow> 'a kernel_scheme \<Rightarrow> bool" where
  "may_call D idle (Yield k) s = (\<not> get_IF s)"
| "may_call D idle (Block l st k) s =
     (running_task s \<noteq> Nd idle \<and> l \<in> D - {ready_list, sleep_list, died_list} \<and>
      (st = TASK_BLOCKED \<or> st = TASK_WAITING))"
| "may_call D idle (Unblock n) s = (\<exists>l \<in> D. ct (heap s) (Nd n) = Some l)"
| "may_call D idle (Sleep time k) s = (\<not> get_IF s \<and> running_task s \<noteq> Nd idle)"
| "may_call D idle c s = True"

definition idle_ok :: "nat \<Rightarrow> asched \<Rightarrow> bool" where
  "idle_ok idle A \<longleftrightarrow> a_run A = idle \<or> idle \<in> set (a_lists A ready_list)"

definition sched_inv :: "nat set \<Rightarrow> nat set \<Rightarrow> nat \<Rightarrow> 'a kernel_scheme \<Rightarrow> bool" where
  "sched_inv D T idle s \<longleftrightarrow> (\<exists>A. sched_rel D T s A \<and> idle_ok idle A)"

lemma simple_map [simp]: "simple (map SetIF k)"
  by (auto simp: simple_def)

lemma idle_switch: "idle \<in> set (a_lists A ready_list) \<Longrightarrow> idle_ok idle (a_switch A)"
  by (cases "a_lists A ready_list" rule: rev_cases) (auto simp: idle_ok_def a_switch_def)

lemma idle_yield: "idle_ok idle A \<Longrightarrow> idle_ok idle (a_yield A)"
  by (auto simp: a_yield_def a_move_def intro!: idle_switch) (simp add: idle_ok_def)

lemma idle_block: "idle_ok idle A \<Longrightarrow> a_run A \<noteq> idle \<Longrightarrow> l \<noteq> ready_list \<Longrightarrow> idle_ok idle (a_block l A)"
  by (auto simp: a_block_def a_move_def idle_ok_def [of _ A] intro!: idle_switch)

lemma idle_sleep: "idle_ok idle A \<Longrightarrow> a_run A \<noteq> idle \<Longrightarrow> idle_ok idle (a_sleep key A)"
  by (auto simp: a_sleep_def idle_ok_def [of _ A] list_ids intro!: idle_switch)

lemma idle_unblock: "idle_ok idle A \<Longrightarrow> idle_ok idle (a_unblock n A)"
  by (cases "idle = n") (auto simp: idle_ok_def a_unblock_def a_move_def a_drop_def)

lemma idle_weakup: "idle_ok idle A \<Longrightarrow> idle_ok idle (a_weakup now key A)"
  by (simp add: a_weakup_def idle_unblock split: list.split)

lemma idle_tick: "idle_ok idle A \<Longrightarrow> idle_ok idle (a_tick now key e A)"
  by (simp add: a_tick_def Let_def idle_weakup idle_yield)

lemma idle_ready: "idle_ok idle A \<Longrightarrow> a_run A \<noteq> idle \<Longrightarrow> a_lists A ready_list \<noteq> []"
  by (auto simp: idle_ok_def)

text \<open>The effect of each call on the queues.\<close>

fun a_call :: "call \<Rightarrow> 'a kernel_scheme \<Rightarrow> asched \<Rightarrow> asched" where
  "a_call Tick s A = (if get_IF s then a_tick (jiffies s + 1) (\<lambda>n. vl (heap s) (Nd n))
      (ticks (the (tcb_of s (a_run A))) = 1) A else A)"
| "a_call (Yield k) s A = a_yield A"
| "a_call (Block l st k) s A = a_block l A"
| "a_call (Unblock n) s A = a_unblock n A"
| "a_call (Sleep time k) s A =
     a_sleep ((\<lambda>n. vl (heap s) (Nd n))(a_run A := jiffies s + sleep_ticks time)) A"
| "a_call c s A = A"

lemma do_call_refines:
  assumes rel: "sched_rel D T s A" and idle: "idle_ok idle A" and may: "may_call D idle c s"
  shows "\<exists>s'. do_call c s = Inr s' \<and> sched_rel D T s' (a_call c s A) \<and> idle_ok idle (a_call c s A)"
proof -
  from rel have run: "running_task s = Nd (a_run A)" and b: "base D T s (a_lists A)" by (auto simp: sched_rel_def)
  show ?thesis
  proof (cases c)
    case Tick
    have "sched_rel D T (set_IF False s) A" using rel by simp
    from clock_handler_refines [OF this, of "[SetIF True]"] idle_tick [OF idle] Tick rel idle
    show ?thesis by (fastforce simp: clock_interrupt_def tcb_of_def)
  next
    case (Yield k)
    with may schedule_yield [OF rel, of "map SetIF k"] idle_yield [OF idle] show ?thesis
      by (fastforce simp: sys_yield_def)
  next
    case (Block l st k)
    with may run have l: "l \<in> D" "l \<notin> {ready_list, sleep_list, died_list}" "a_run A \<noteq> idle"
        "st = TASK_BLOCKED \<or> st = TASK_WAITING" by auto
    with block_refines [OF rel l(1,2), of "Some l" st "map SetIF k"] idle_ready [OF idle] idle_block [OF idle]
    show ?thesis using Block by fastforce
  next
    case (Unblock n)
    with may obtain l where l: "l \<in> D" "ct (heap s) (Nd n) = Some l" by auto
    then have "n \<in> set (a_lists A l)" using lrepr_ct [OF base_lrepr [OF b l(1)]] by simp
    with unblock_refines [OF rel l(1)] idle_unblock [OF idle] Unblock show ?thesis by fastforce
  next
    case (Sleep time k)
    with may run have "\<not> get_IF s" "a_run A \<noteq> idle" by auto
    with task_sleep_refines [OF rel, of "map SetIF k" time] idle_ready [OF idle] idle_sleep [OF idle] Sleep
    show ?thesis by fastforce
  qed (use rel idle in auto)
qed

lemma sched_inv_call:
  "sched_inv D T idle s \<Longrightarrow> may_call D idle c s \<Longrightarrow> \<exists>s'. do_call c s = Inr s' \<and> sched_inv D T idle s'"
  unfolding sched_inv_def using do_call_refines by blast

interpretation sched: machine "may_call D idle" do_call "sched_inv D T idle" for D T idle
  by unfold_locales (rule sched_inv_call)

text \<open>What the invariant says about a single task.\<close>

lemma sched_inv_task:
  assumes "sched_inv D T idle s" "n \<in> T"
  shows "running_task s = Nd n \<and> free_node (heap s) n \<or>
     running_task s \<noteq> Nd n \<and> (\<exists>l \<in> D. ct (heap s) (Nd n) = Some l \<and> state_for l (st_of s n))"
proof -
  from assms(1) obtain A where rel: "sched_rel D T s A" by (auto simp: sched_inv_def)
  then have b: "base D T s (a_lists A)" and T: "T = insert (a_run A) (\<Union>l \<in> D. set (a_lists A l))"
    by (auto simp: sched_rel_def)
  show ?thesis
  proof (cases "n = a_run A")
    case True
    with rel base_free [OF b assms(2)] show ?thesis by (auto simp: sched_rel_def)
  next
    case False
    with T assms(2) obtain l where "l \<in> D" "n \<in> set (a_lists A l)" by auto
    with False rel lrepr_ct [OF base_lrepr [OF b]] show ?thesis by (auto simp: sched_rel_def states_ok_def)
  qed
qed

section \<open>Round robin\<close>

text \<open>\<open>m\<close> times in a row the running task, whichever it is, calls \<^verbatim>\<open>sys_yield\<close>.\<close>

primrec yields :: "nat \<Rightarrow> 'a kernel_scheme \<Rightarrow> 'a kernel_scheme res" where
  "yields 0 s = Inr s"
| "yields (Suc m) s = rbind (sys_yield [] (set_IF False s)) (yields m)"

lemma yields_reach:
  assumes "sched_rel D T s A" "a_lists A ready_list = xs @ n # ys"
  shows "\<exists>s' B. yields (Suc (length ys)) s = Inr s' \<and> sched_rel D T s' B \<and> a_run B = n"
  using assms
proof (induction ys arbitrary: s A xs rule: rev_induct)
  case Nil
  from schedule_yield [of D T "set_IF False s" A "[]"] Nil show ?case
    by (fastforce simp: sys_yield_def a_yield_def a_switch_def a_move_def)
next
  case (snoc y ys)
  from schedule_yield [of D T "set_IF False s" A "[]"] snoc.prems obtain s1 where
    s1: "sys_yield [] (set_IF False s) = Inr s1" "sched_rel D T s1 (a_yield A)" by (auto simp: sys_yield_def)
  have "a_lists (a_yield A) ready_list = (a_run A # xs) @ n # ys"
    using snoc.prems(2) by (simp add: a_yield_def a_switch_def a_move_def butlast_append)
  from snoc.IH [OF s1(2) this] s1(1) show ?case by auto
qed

section \<open>An example\<close>

text \<open>Two tasks, nodes 0 and 1: the first runs, the second is ready.\<close>

definition ex_tcb :: "task_state_t \<Rightarrow> int \<Rightarrow> TCB_t" where
  "ex_tcb st p = \<lparr>t_state = st, t_status = 0, priority = 1, ticks = 1, t_jiffies = 0, t_name = ''t'', uid = 0, gid = 0,
     pid = p, ppid = 0, waitpid = 0, t_pde = 0x1000, vmap = None, vmap_page = 0x6000, t_pwd = ''/'', brk = 0, umask = 18,
     magic = RDIX_MAGIC, stack = 0, frames = [], wait_result = None\<rparr>"

definition ex_heap0 :: list_heap where
  "ex_heap0 = node_init (node_init (list_init (list_init (list_init (list_init empty_heap block_list) sleep_list)
     ready_list) died_list) 0 0x10000 0) 1 0x11000 0"

definition ex_kernel0 :: "pmem \<Rightarrow> task_state_t \<Rightarrow> kernel" where
  "ex_kernel0 pm st = pmem.extend pm (kernel.fields ex_heap0
     [0x10000 \<mapsto> ex_tcb TASK_RUNNING 0, 0x11000 \<mapsto> ex_tcb st 1] (Nd 0 # Nd 1 # replicate 62 Null) (Nd 0) 0 0)"

definition ex_kernel :: "pmem \<Rightarrow> nat \<Rightarrow> task_state_t \<Rightarrow> kernel" where
  "ex_kernel pm l st = (ex_kernel0 pm st)\<lparr>heap := (case list_push ex_heap0 l (Nd 1) of Inr h \<Rightarrow> h | Inl _ \<Rightarrow> ex_heap0)\<rparr>"

definition ex_lists :: "nat set" where
  "ex_lists = {block_list, sleep_list, ready_list, died_list}"

lemma ex_kernel0_fields [simp]:
  "heap (ex_kernel0 pm st) = ex_heap0" "running_task (ex_kernel0 pm st) = Nd 0" "jiffies (ex_kernel0 pm st) = 0"
  "tcbs (ex_kernel0 pm st) = [0x10000 \<mapsto> ex_tcb TASK_RUNNING 0, 0x11000 \<mapsto> ex_tcb st 1]"
  by (simp_all add: ex_kernel0_def pmem.defs kernel.defs)

lemma ex_heap0_repr: "l \<in> ex_lists \<Longrightarrow> lrepr ex_heap0 l []"
  by (auto simp: ex_lists_def ex_heap0_def list_ids lrepr_def)

lemma ex_kernel0_base: "base ex_lists {0, 1} (ex_kernel0 pm st) (\<lambda>_. [])"
  unfolding base_def
  by (auto simp: ex_heap0_repr tcb_of_def TASK_NUM_def) (auto simp: ex_lists_def ex_heap0_def tcb_ok_def ex_tcb_def)

lemma ex_kernel_rel:
  assumes "l \<in> ex_lists" "state_for l st"
  shows "sched_rel ex_lists {0, 1} (ex_kernel pm l st) \<lparr>a_lists = (\<lambda>_. [])(l := [1]), a_run = 0\<rparr>"
proof -
  from base_push [OF ex_kernel0_base assms(1), of 1 pm st] obtain h where
    h: "list_push ex_heap0 l (Nd 1) = Inr h" "base ex_lists {0, 1} (ex_kernel0 pm st\<lparr>heap := h\<rparr>) ((\<lambda>_. [])(l := [1]))"
      "st_of (ex_kernel0 pm st\<lparr>heap := h\<rparr>) = st_of (ex_kernel0 pm st)"
    by (auto simp: on_heap_def rbind_def split: sum.splits)
  have "st_of (ex_kernel0 pm st) 0 = TASK_RUNNING" "st_of (ex_kernel0 pm st) 1 = st"
    by (simp_all add: st_of_def tcb_of_def ex_heap0_def ex_tcb_def)
  with h assms show ?thesis
    by (auto simp: sched_rel_def ex_kernel_def states_ok_def)
qed

definition ex_pages :: pmem where
  "ex_pages = \<lparr>iflag = False, cr3 = 0x1000, v_bit_map = \<lparr>bm_start = [3, 0], bm_length = 2, bm_offset = 16\<rparr>,
     phys = (\<lambda>f i. 0), p_bit_map = [1, 0], total_pages = 2, free_pages = 1,
     start_available_p_page_idx = 1, start_io_memory = 0x1000000\<rparr>"

lemma ex_kernel_inv: "sched_inv ex_lists {0, 1} 1 (ex_kernel ex_pages ready_list TASK_READY)"
  unfolding sched_inv_def
  by (rule exI, rule conjI, rule ex_kernel_rel) (simp_all add: ex_lists_def state_for_def idle_ok_def)

lemma ex_kernel_fields [simp]:
  "running_task (ex_kernel pm l st) = Nd 0" "jiffies (ex_kernel pm l st) = 0"
  "get_IF (ex_kernel ex_pages l st) = False" "v_bit_map (ex_kernel ex_pages l st) = v_bit_map ex_pages"
  "task_bucket (ex_kernel pm l st) = Nd 0 # Nd 1 # replicate 62 Null"
  "tcbs (ex_kernel pm l st) = [0x10000 \<mapsto> ex_tcb TASK_RUNNING 0, 0x11000 \<mapsto> ex_tcb st 1]"
  by (simp_all add: ex_kernel_def ex_kernel0_def pmem.defs kernel.defs get_IF_def ex_pages_def)

section \<open>Properties of the scheduler\<close>


text \<open>
  C2: No task is ever lost or duplicated: after any sequence of such calls every task is
  the running one, on no list, or is on exactly one list of the scheduler, with the state
  that the list stands for.
\<close>

theorem no_task_lost:
  assumes "sched_inv D T idle s" "runs (may_call D idle) do_call s t" "n \<in> T"
  shows "running_task t = Nd n \<and> free_node (heap t) n \<or>
     running_task t \<noteq> Nd n \<and> (\<exists>l \<in> D. ct (heap t) (Nd n) = Some l \<and> state_for l (st_of t n))"
  using sched_inv_task sched.runs_inv assms by metis

text \<open>
  C4: The scheduler is round robin: a ready task with \<open>length ys\<close> tasks before it in the
  queue runs after \<open>length ys + 1\<close> calls of \<^verbatim>\<open>schedule\<close>, whichever tasks make them.
\<close>

theorem schedule_round_robin:
  assumes "sched_rel D T s A" "a_lists A ready_list = xs @ n # ys"
  shows "\<exists>s'. yields (length ys + 1) s = Inr s' \<and> running_task s' = Nd n"
  using yields_reach [OF assms] by (auto simp: sched_rel_def)

text \<open>
  A clock tick advances \<^verbatim>\<open>jiffies\<close>, wakes the first sleeper if its time has come, and
  takes the processor from the running task exactly when its slice is used up.
\<close>

theorem clock_tick:
  assumes "sched_rel D T s A" "get_IF s"
  shows "\<exists>s' t. clock_interrupt s = Inr s' \<and> jiffies s' = jiffies s + 1 \<and> tcb_of s (a_run A) = Some t \<and>
     sched_rel D T s' (a_tick (jiffies s + 1) (\<lambda>n. vl (heap s) (Nd n)) (ticks t = 1) A)"
  using clock_handler_refines [of D T "set_IF False s" A "[SetIF True]"] assms
  by (simp add: clock_interrupt_def tcb_of_def)

text \<open>
  If the last runnable task blocks, \<^verbatim>\<open>schedule\<close> finds no task to run and its assertion
  stops the kernel, instead of waiting for an interrupt that could wake one.
\<close>

theorem block_last_task_asserts:
  assumes rel: "sched_rel D T s A" and l: "l \<in> D" "l \<noteq> ready_list" and e: "a_lists A ready_list = []"
    and st: "st = TASK_BLOCKED \<or> st = TASK_WAITING"
  shows "block (Some l) Null st k s = Inl Assert"
proof -
  from block_steps [OF rel l(1), of "Some l" st k] obtain s1 where
    s1: "block (Some l) Null st k s = schedule (SetIF (get_IF s) # k) s1"
      "base D T s1 ((a_lists A)(l := a_run A # a_lists A l))" "\<not> get_IF s1" "running_task s1 = running_task s"
      "\<forall>m \<in> T. st_of s1 m = (if m = a_run A then st else st_of s m)" by auto
  have "a_run A \<in> T" "running_task s = Nd (a_run A)" using rel by (auto simp: sched_rel_def)
  with schedule_dead [OF s1(2,3)] s1(4,5) l(2) e st show ?thesis by (auto simp: s1(1))
qed

text \<open>
  \<^verbatim>\<open>unblock(NULL)\<close> never wakes anybody: on an empty \<^verbatim>\<open>block_list\<close> it dereferences the
  null pointer, otherwise the popped node is in no list any more and \<^verbatim>\<open>remove_node\<close> asserts.
\<close>

theorem unblock_null_stops:
  assumes rel: "sched_rel D T s A" and null: "nodes (heap s) Null = None"
  shows "unblock Null s = Inl (if a_lists A block_list = [] then Fault else Assert)"
proof -
  let ?s = "set_IF False s"
  have b: "base D T ?s (a_lists A)" using rel sched_rel_set_IF [of D T False s A] unfolding sched_rel_def by blast
  note bD = base_lists(3) [OF b]
  show ?thesis
  proof (cases "a_lists A block_list" rule: rev_cases)
    case Nil
    with base_popback_Nil [OF b bD Nil] null show ?thesis
      by (simp add: unblock_def get_and_disable_IF_def on_heap_def remove_node_def get_node_def)
  next
    case (snoc xs x)
    from base_popback [OF b bD snoc] obtain h where
      h: "list_popback (heap s) block_list = Inr (Nd x, h)" "base D T (?s\<lparr>heap := h\<rparr>) ((a_lists A)(block_list := xs))" by auto
    have xT: "x \<in> T" using base_sub [OF b bD] snoc by simp
    have "\<forall>l \<in> D. x \<notin> set (((a_lists A)(block_list := xs)) l)"
      using base_one_list [OF b _ bD, of _ x] base_distinct [OF b bD] snoc by auto
    with base_free [OF h(2) xT] have "remove_node h (Nd x) = Inl Assert" by (simp add: remove_unlinked)
    with h(1) snoc show ?thesis by (simp add: unblock_def get_and_disable_IF_def on_heap_def)
  qed
qed

section \<open>Waiting for children\<close>

text \<open>The children that \<^verbatim>\<open>sys_waitpid(p)\<close>, called by task number \<open>self\<close>, looks at.\<close>

definition child_of :: "int \<Rightarrow> int \<Rightarrow> TCB_t \<Rightarrow> bool" where
  "child_of self p c \<longleftrightarrow> ppid c = self \<and> (p = - 1 \<or> p = pid c)"

text \<open>Table entries that the loop passes over.\<close>

definition passed :: "int \<Rightarrow> int \<Rightarrow> 'a kernel_scheme \<Rightarrow> nref \<Rightarrow> bool" where
  "passed self p s r \<longleftrightarrow> r = Null \<or>
     (\<exists>n c. r = Nd n \<and> alive (heap s) r \<and> tcb_of s n = Some c \<and> \<not> child_of self p c)"

lemma wait_scan_passed:
  assumes "\<forall>r \<in> set rs. passed self p s r"
  shows "wait_scan self p (rs @ qs) s = wait_scan self p qs s"
  using assms
proof (induction rs)
  case (Cons r rs)
  then have "passed self p s r" by simp
  then consider "r = Null" | n nd c where "r = Nd n" "nodes (heap s) (Nd n) = Some nd"
      "tcbs s (n_owner nd) = Some c" "\<not> child_of self p c"
    by (auto simp: passed_def tcb_of_def alive_def ow_def)
  then show ?case
    by cases (use Cons in \<open>auto simp: owner_of_def get_node_def get_tcb_def child_of_def\<close>)
qed simp

lemma wait_scan_found:
  assumes "alive (heap s) (Nd n)" "tcb_of s n = Some c" "child_of self p c"
  shows "wait_scan self p (Nd n # qs) s =
    Inr ((if t_state c = TASK_DIED then DeadChild else LiveChild) (ow (heap s) (Nd n)) (Nd n))"
  using assms by (auto simp: owner_of_def get_node_def get_tcb_def child_of_def tcb_of_def alive_def ow_def)

text \<open>Freeing a node that is in no list.\<close>

lemma lrepr_delete:
  assumes "lrepr h l xs" "n \<notin> set xs"
  shows "lrepr (h\<lparr>nodes := (nodes h)(Nd n := None)\<rparr>) l xs"
proof -
  let ?h = "h\<lparr>nodes := (nodes h)(Nd n := None)\<rparr>"
  have "nx ?h = (nx h)(Nd n := Null)" "pv ?h = (pv h)(Nd n := Null)" "ct ?h = (ct h)(Nd n := None)"
    "ow ?h = (ow h)(Nd n := 0)" "numbers ?h = numbers h"
    by (auto simp: fields fun_eq_iff)
  with assms show ?thesis by (simp add: lrepr_def)
qed

lemma base_delete:
  assumes b: "base D T s L" and n: "n \<in> T" "\<forall>l \<in> D. n \<notin> set (L l)"
    and h: "heap s' = (heap s)\<lparr>nodes := (nodes (heap s))(Nd n := None)\<rparr>"
    and tb: "tcbs s' = (tcbs s)(ow (heap s) (Nd n) := None)"
  shows "base D (T - {n}) s' L" "m \<in> T - {n} \<Longrightarrow> tcb_of s' m = tcb_of s m"
proof -
  have inj: "inj_on (\<lambda>m. ow (heap s) (Nd m)) T" using b by (simp add: base_def)
  have f: "ow (heap s') (Nd m) = ow (heap s) (Nd m)" "alive (heap s') (Nd m) = alive (heap s) (Nd m)"
      "ct (heap s') (Nd m) = ct (heap s) (Nd m)" if "m \<noteq> n" for m
    using that h by (simp_all add: fields)
  show tcb: "tcb_of s' m = tcb_of s m" if "m \<in> T - {n}" for m
    using that f(1) [of m] tb inj n(1) by (auto simp: tcb_of_def inj_on_def)
  have "lrepr (heap s') l (L l) \<and> set (L l) \<subseteq> T - {n}" if "l \<in> D" for l
    using lrepr_delete [OF base_lrepr [OF b that]] n(2) that h base_sub [OF b that] by auto
  moreover have "inj_on (\<lambda>m. ow (heap s') (Nd m)) (T - {n})"
    using inj f(1) by (auto simp: inj_on_def)
  moreover have "card (T - {n}) \<le> TASK_NUM" using b n(1) by (auto simp: base_def card_Diff_singleton_if)
  ultimately show "base D (T - {n}) s' L"
    using b f tcb by (auto simp: base_def)
qed

lemma dead_on_died_list:
  assumes rel: "sched_rel D T s A" and n: "n \<in> T" "st_of s n = TASK_DIED"
  shows "n \<in> set (a_lists A died_list)" "n \<noteq> a_run A"
proof -
  from rel have T: "T = insert (a_run A) (\<Union>l \<in> D. set (a_lists A l))" and st: "states_ok D s (a_lists A)"
    by (auto simp: sched_rel_def)
  show r: "n \<noteq> a_run A" using rel n(2) by (auto simp: sched_rel_def)
  with T n(1) obtain l where l: "l \<in> D" "n \<in> set (a_lists A l)" by auto
  with st n(2) have "state_for l TASK_DIED" unfolding states_ok_def by metis
  then have "l = died_list" by (auto simp: state_for_def split: if_splits)
  with l show "n \<in> set (a_lists A died_list)" by simp
qed

lemma on_heap_Inr: "on_heap f s = Inr (s\<lparr>heap := h\<rparr>) \<longleftrightarrow> f (heap s) = Inr h"
proof -
  have "s\<lparr>heap := x\<rparr> = s\<lparr>heap := h\<rparr> \<Longrightarrow> x = h" for x by (drule arg_cong [where f = heap]) simp
  then show ?thesis by (auto simp: on_heap_def)
qed

text \<open>\<^verbatim>\<open>freeTask\<close> on a dead child.\<close>

lemma free_task_dead:
  assumes rel: "sched_rel D T s A" and n: "n \<in> T" "tcb_of s n = Some c" "t_state c = TASK_DIED"
    and bucket: "task_bucket s = rs @ Nd n # qs" "pid c = int (length rs)"
    and page: "vmap_wf (v_bit_map s)" "g \<in> pages_used (v_bit_map s)"
      "word_of_nat (ow (heap s) (Nd n)) = PAGE_ADDR (word_of_nat g)"
  shows "\<exists>s'. free_task (ow (heap s) (Nd n)) (Nd n) s = Inr (pid c, t_status c, s') \<and>
     sched_rel D (T - {n}) s' (a_drop n A) \<and> task_bucket s' = rs @ Null # qs \<and>
     tcbs s' (ow (heap s) (Nd n)) = None \<and> nodes (heap s') (Nd n) = None \<and>
     pages_used (v_bit_map s') = pages_used (v_bit_map s) - {g} \<and> get_IF s' = get_IF s \<and>
     tcb_of s' (a_run A) = tcb_of s (a_run A) \<and> ow (heap s') (Nd (a_run A)) = ow (heap s) (Nd (a_run A))"
proof -
  let ?a = "ow (heap s) (Nd n)" and ?L = "a_lists A"
  from rel have b: "base D T s ?L" and T: "T = insert (a_run A) (\<Union>l \<in> D. set (?L l))"
      and st: "states_ok D s ?L" and rn: "running_task s = Nd (a_run A)" by (auto simp: sched_rel_def)
  note dD = base_lists(4) [OF b]
  have dead: "n \<in> set (?L died_list)" "n \<noteq> a_run A"
    using dead_on_died_list [OF rel n(1)] n(2,3) by (simp_all add: st_of_def)
  from free_page_spec [OF page(1), of 1 g] page(2,3) obtain m where
    m: "free_page (word_of_nat ?a) 1 (v_bit_map s) = Inr m" "pages_used m = pages_used (v_bit_map s) - {g}" by auto
  define L1 where "L1 = ?L(died_list := remove1 n (?L died_list))"
  from base_remove [OF b dD dead(1)] obtain h where
    h: "remove_node (heap s) (Nd n) = Inr h" "base D T (s\<lparr>heap := h\<rparr>) L1" "st_of (s\<lparr>heap := h\<rparr>) = st_of s"
      "ow h = ow (heap s)" by (auto simp: L1_def on_heap_Inr)
  have only: "n \<notin> set (?L l)" if "l \<in> D" "l \<noteq> died_list" for l
    using base_one_list [OF b dD that(1) dead(1)] that(2) by auto
  have off: "\<forall>l \<in> D. n \<notin> set (L1 l)" using only base_distinct [OF b dD] by (auto simp: L1_def)
  let ?s' = "s\<lparr>task_bucket := rs @ Null # qs, v_bit_map := m, tcbs := (tcbs s)(?a := None),
      heap := h\<lparr>nodes := (nodes h)(Nd n := None)\<rparr>\<rparr>"
  have b': "base D (T - {n}) ?s' L1" and tcb: "k \<in> T - {n} \<Longrightarrow> tcb_of ?s' k = tcb_of (s\<lparr>heap := h\<rparr>) k" for k
    using base_delete [OF h(2) n(1) off, of ?s'] h(4) by auto
  have stn: "st_of ?s' k = st_of s k" if "k \<in> T - {n}" for k
    using tcb [OF that] h(3) by (simp add: st_of_def fun_eq_iff)
  have eq: "a_lists (a_drop n A) l = L1 l" if "l \<in> D" for l
    using only [OF that] by (cases "l = died_list") (simp_all add: L1_def a_drop_def remove1_idem)
  have run: "a_run (a_drop n A) = a_run A" by (simp add: a_drop_def)
  have "states_ok D ?s' L1"
    unfolding states_ok_def
  proof (intro ballI)
    fix l k assume l: "l \<in> D" and k: "k \<in> set (L1 l)"
    then have "k \<in> T - {n}" using base_sub [OF b'] by blast
    moreover have "k \<in> set (?L l)"
      using k set_remove1_subset [of n "?L l"] by (cases "l = died_list") (auto simp: L1_def)
    ultimately show "state_for l (st_of ?s' k)" using st l stn by (auto simp: states_ok_def simp del: Diff_iff)
  qed
  moreover have "T - {n} = insert (a_run A) (\<Union>l \<in> D. set (L1 l))"
    unfolding T L1_def Union_upd [OF dD] Union_split [OF dD, of ?L]
    using base_distinct [OF b dD] dead only by (auto simp: set_remove1_eq)
  moreover have "\<forall>l \<in> D. a_run A \<notin> set (L1 l)"
    using rel by (auto simp: sched_rel_def L1_def dest: notin_set_remove1)
  moreover have "st_of ?s' (a_run A) = st_of s (a_run A)"
    using stn [of "a_run A"] dead(2) T by blast
  moreover have "base D (T - {n}) ?s' (a_lists (a_drop n A)) = base D (T - {n}) ?s' L1"
    "states_ok D ?s' (a_lists (a_drop n A)) = states_ok D ?s' L1"
    "(\<Union>l \<in> D. set (a_lists (a_drop n A) l)) = (\<Union>l \<in> D. set (L1 l))"
    "(\<forall>l \<in> D. a_run A \<notin> set (a_lists (a_drop n A) l)) = (\<forall>l \<in> D. a_run A \<notin> set (L1 l))"
    unfolding base_def states_ok_def using eq by simp_all
  moreover have "L1 ready_list = ?L ready_list" by (simp add: L1_def list_ids)
  ultimately have rel': "sched_rel D (T - {n}) ?s' (a_drop n A)"
    using b' rn rel eq [OF base_lists(1) [OF b]] run unfolding sched_rel_def by simp
  have "free_task ?a (Nd n) s = Inr (pid c, t_status c, ?s')"
    using n(2) bucket m(1) h(1)
    by (simp add: free_task_def get_tcb_def tcb_of_def free_kpage_eq on_heap_def Let_def)
  moreover have "tcb_of ?s' (a_run A) = tcb_of s (a_run A)"
    using tcb [of "a_run A"] T dead(2) h(4) by (simp add: tcb_of_def)
  moreover have "ow (heap ?s') (Nd (a_run A)) = ow (heap s) (Nd (a_run A))"
    using h(4) dead(2) by (simp add: fields fun_eq_iff)
  ultimately show ?thesis
    using rel' m(2) by (intro exI [of _ ?s']) (simp add: get_IF_def)
qed


text \<open>
  \<^verbatim>\<open>sys_waitpid\<close> looks only at the first child that matches: if that child is alive,
  \<^verbatim>\<open>waitpid(-1)\<close> blocks, whatever other children are dead already, and after the wake-up
  it frees the child it had seen, whether or not that is the one that died.
\<close>

theorem waitpid_first_child_only:
  assumes rel: "sched_rel D T s A" and IF: "\<not> get_IF s" and self: "tcb_of s (a_run A) = Some t"
    and child: "n \<in> T" "tcb_of s n = Some c" "t_state c \<noteq> TASK_DIED" "child_of (pid t) p c"
    and bucket: "task_bucket s = rs @ Nd n # qs" "\<forall>r \<in> set rs. passed (pid t) p s r"
  shows "sys_waitpid p k s = rbind (upd_tcb (ow (heap s) (Nd (a_run A))) (\<lambda>t. t\<lparr>waitpid := p\<rparr>) s)
     (block (Some block_list) Null TASK_WAITING (FreeTask (ow (heap s) (Nd n)) (Nd n) # k))"
proof -
  from rel have b: "base D T s (a_lists A)" and rT: "a_run A \<in> T" "running_task s = Nd (a_run A)"
    by (auto simp: sched_rel_def)
  have "alive (heap s) (Nd n)" using b child(1) by (simp add: base_def)
  with wait_scan_passed [OF bucket(2), of "Nd n # qs"] wait_scan_found [of s n c "pid t" p qs] child bucket(1)
  have "wait_scan (pid t) p (task_bucket s) s = Inr (LiveChild (ow (heap s) (Nd n)) (Nd n))" by simp
  then show ?thesis
    using IF rT base_owner [OF b rT(1)] self by (simp add: sys_waitpid_def get_tcb_def tcb_of_def)
qed

section \<open>Witnesses\<close>


lemma ex_runs:
  "runs (may_call ex_lists 1) do_call (ex_kernel ex_pages ready_list TASK_READY)
     (set_IF True (ex_kernel ex_pages ready_list TASK_READY))"
  by (rule runs_step [OF runs_refl, of _ Sti]) simp_all

theorem no_task_lost_witness:
  "let t = set_IF True (ex_kernel ex_pages ready_list TASK_READY) in
   running_task t = Nd 1 \<and> free_node (heap t) 1 \<or>
     running_task t \<noteq> Nd 1 \<and> (\<exists>l \<in> ex_lists. ct (heap t) (Nd 1) = Some l \<and> state_for l (st_of t 1))"
  unfolding Let_def by (rule no_task_lost [OF ex_kernel_inv ex_runs]) simp

lemma ex_ready_rel: "sched_rel ex_lists {0, 1} (ex_kernel ex_pages ready_list TASK_READY)
    \<lparr>a_lists = (\<lambda>_. [])(ready_list := [1]), a_run = 0\<rparr>"
  by (rule ex_kernel_rel) (simp_all add: ex_lists_def state_for_def)

theorem schedule_round_robin_witness:
  "\<exists>s'. yields (length ([] :: nat list) + 1) (ex_kernel ex_pages ready_list TASK_READY) = Inr s' \<and> running_task s' = Nd 1"
  by (rule schedule_round_robin [OF ex_ready_rel, of "[]"]) simp

theorem clock_tick_witness:
  "\<exists>s' t. clock_interrupt (set_IF True (ex_kernel ex_pages ready_list TASK_READY)) = Inr s' \<and>
     jiffies s' = jiffies (set_IF True (ex_kernel ex_pages ready_list TASK_READY)) + 1"
  using clock_tick [of ex_lists "{0, 1}" "set_IF True (ex_kernel ex_pages ready_list TASK_READY)"
      "\<lparr>a_lists = (\<lambda>_. [])(ready_list := [1]), a_run = 0\<rparr>"] ex_ready_rel
  by auto

lemma ex_died_rel: "sched_rel ex_lists {0, 1} (ex_kernel ex_pages died_list TASK_DIED)
    \<lparr>a_lists = (\<lambda>_. [])(died_list := [1]), a_run = 0\<rparr>"
  by (rule ex_kernel_rel) (simp_all add: ex_lists_def state_for_def list_ids)

theorem block_last_task_asserts_witness:
  "block (Some block_list) Null TASK_BLOCKED [] (ex_kernel ex_pages died_list TASK_DIED) = Inl Assert"
  by (rule block_last_task_asserts [OF ex_died_rel]) (simp_all add: ex_lists_def list_ids)

lemma ex_kernel_null: "nodes (heap (ex_kernel ex_pages died_list TASK_DIED)) Null = None"
  by (simp add: ex_kernel_def ex_heap0_def list_push_def insert_after_anchor_def get_node_def upd_node_def
      upd_number_def list_init_def node_init_def empty_heap_def list_ids Let_def)

theorem unblock_null_stops_witness:
  "unblock Null (ex_kernel ex_pages died_list TASK_DIED) = Inl Fault"
  using unblock_null_stops [OF ex_died_rel ex_kernel_null] by (simp add: list_ids)

lemma ex_kernel_ow:
  assumes "l \<in> {ready_list, died_list}"
  shows "ow (heap (ex_kernel ex_pages l st)) (Nd 0) = 0x10000"
    and "ow (heap (ex_kernel ex_pages l st)) (Nd 1) = 0x11000"
    and "alive (heap (ex_kernel ex_pages l st)) (Nd 0)"
  using assms
  by (auto simp: ex_kernel_def ex_heap0_def list_push_def insert_after_anchor_def get_node_def upd_node_def
      upd_number_def list_init_def node_init_def empty_heap_def list_ids Let_def fields)

lemma ex_kernel_tcb:
  assumes "l \<in> {ready_list, died_list}"
  shows "tcb_of (ex_kernel ex_pages l st) 0 = Some (ex_tcb TASK_RUNNING 0)"
    and "tcb_of (ex_kernel ex_pages l st) 1 = Some (ex_tcb st 1)"
  using ex_kernel_ow [OF assms] by (simp_all add: tcb_of_def)

lemma ex_kernel_passed:
  assumes "l \<in> {ready_list, died_list}"
  shows "\<forall>r \<in> set [Nd 0]. passed (pid (ex_tcb TASK_RUNNING 0)) 1 (ex_kernel ex_pages l st) r"
  using ex_kernel_ow [OF assms] ex_kernel_tcb [OF assms]
  by (auto simp: passed_def child_of_def ex_tcb_def)

lemma ex_pages_used: "vmap_wf (v_bit_map ex_pages)" "17 \<in> pages_used (v_bit_map ex_pages)"
  by (simp_all add: vmap_wf_def bm_wf_def pages_used_def ex_pages_def bm_bits_def bm_bit_def)


theorem waitpid_first_child_only_witness:
  "sys_waitpid 1 [] (ex_kernel ex_pages ready_list TASK_READY) =
     rbind (upd_tcb 0x10000 (\<lambda>t. t\<lparr>waitpid := 1\<rparr>) (ex_kernel ex_pages ready_list TASK_READY))
       (block (Some block_list) Null TASK_WAITING [FreeTask 0x11000 (Nd 1)])"
proof -
  have r: "ready_list \<in> {ready_list, died_list}" by simp
  show ?thesis
    using waitpid_first_child_only [OF ex_ready_rel, of "ex_tcb TASK_RUNNING 0" 1 "ex_tcb TASK_READY 1" 1 "[Nd 0]"
        "replicate 62 Null" "[]"] ex_kernel_tcb [OF r] ex_kernel_passed [OF r] ex_kernel_ow [OF r]
    by (simp add: child_of_def ex_tcb_def)
qed

end
