(* ===== verification/Mutex.thy ===== *)
theory Mutex
  imports Sched_Machine
begin

text \<open>
  The mutex of \<^verbatim>\<open>kernel/mutex.c\<close> on top of the scheduler. A mutex has a flag and a wait list;
  unlocking with waiters hands the mutex to the oldest one without freeing it in between.
  The mutual exclusion proof runs the mutex together with all scheduler calls.
\<close>

section \<open>Operations\<close>

record mutex_t =
  m_value :: bool
  m_waiter :: nat

definition mutex_init :: "nat \<Rightarrow> 'a kernel_scheme \<Rightarrow> mutex_t \<times> 'a kernel_scheme" where
  "mutex_init w s = (\<lparr>m_value = True, m_waiter = w\<rparr>, s\<lparr>heap := list_init (heap s) w\<rparr>)"

definition test_lock :: "mutex_t \<Rightarrow> bool" where
  "test_lock mutex = (\<not> m_value mutex)"

definition mutex_lock :: "mutex_t \<Rightarrow> frame list \<Rightarrow> 'a kernel_scheme \<Rightarrow> (mutex_t \<times> 'a kernel_scheme) res" where
  "mutex_lock mutex k s =
     (let (st, s) = get_and_disable_IF s in
      rbind (list_isempty (heap s) (m_waiter mutex)) (\<lambda>e.
      if m_value mutex \<and> e then
        rbind (run_frames (SetIF st # k) s) (\<lambda>s. Inr (mutex\<lparr>m_value := False\<rparr>, s))
      else
        rbind (block (Some (m_waiter mutex)) Null TASK_BLOCKED (SetIF st # k) s) (\<lambda>s. Inr (mutex, s))))"

definition mutex_unlock :: "mutex_t \<Rightarrow> 'a kernel_scheme \<Rightarrow> (mutex_t \<times> 'a kernel_scheme) res" where
  "mutex_unlock mutex s =
     (let (st, s) = get_and_disable_IF s in
      rbind (list_isempty (heap s) (m_waiter mutex)) (\<lambda>e.
      if e then Inr (mutex\<lparr>m_value := True\<rparr>, set_IF st s)
      else
        rbind (get_node (heap s) (End (m_waiter mutex))) (\<lambda>n.
        rbind (unblock (n_previous n) s) (\<lambda>s. Inr (mutex, set_IF st s)))))"

section \<open>Effects\<close>

lemma mutex_lock_free:
  assumes rel: "sched_rel D T s A" and w: "m_waiter mu \<in> D" "a_lists A (m_waiter mu) = []" "m_value mu"
    and k: "simple k"
  shows "\<exists>s'. mutex_lock mu k s = Inr (mu\<lparr>m_value := False\<rparr>, s') \<and> sched_rel D T s' A"
proof -
  from rel have b: "base D T s (a_lists A)" by (auto simp: sched_rel_def)
  obtain f where "run_frames (SetIF (get_IF s) # k) (set_IF False s) = Inr (set_IF f (set_IF False s))"
    using run_frames_simple [of "SetIF (get_IF s) # k"] k by (auto simp: simple_def)
  with lrepr_number_0 [OF base_lrepr [OF b w(1)]] w rel show ?thesis
    by (auto simp: mutex_lock_def get_and_disable_IF_def)
qed

lemma mutex_lock_held:
  assumes rel: "sched_rel D T s A" and w: "m_waiter mu \<in> D" "m_waiter mu \<notin> {ready_list, sleep_list, died_list}"
    and held: "\<not> m_value mu \<or> a_lists A (m_waiter mu) \<noteq> []" and ne: "a_lists A ready_list \<noteq> []" and k: "simple k"
  shows "\<exists>s'. mutex_lock mu k s = Inr (mu, s') \<and> sched_rel D T s' (a_block (m_waiter mu) A)"
proof -
  have rel': "sched_rel D T (set_IF False s) A" using rel by simp
  from rel have b: "base D T s (a_lists A)" by (auto simp: sched_rel_def)
  from block_refines [OF rel' w, of "Some (m_waiter mu)" TASK_BLOCKED "SetIF (get_IF s) # k"] ne k
  obtain s' where "block (Some (m_waiter mu)) Null TASK_BLOCKED (SetIF (get_IF s) # k) (set_IF False s) = Inr s'"
    "sched_rel D T s' (a_block (m_waiter mu) A)" by auto
  with lrepr_number_0 [OF base_lrepr [OF b w(1)]] held show ?thesis
    by (auto simp: mutex_lock_def get_and_disable_IF_def)
qed

lemma mutex_unlock_free:
  assumes rel: "sched_rel D T s A" and w: "m_waiter mu \<in> D" "a_lists A (m_waiter mu) = []"
  shows "\<exists>s'. mutex_unlock mu s = Inr (mu\<lparr>m_value := True\<rparr>, s') \<and> sched_rel D T s' A"
proof -
  from rel have b: "base D T s (a_lists A)" by (auto simp: sched_rel_def)
  with lrepr_number_0 [OF base_lrepr [OF b w(1)]] w rel show ?thesis
    by (auto simp: mutex_unlock_def get_and_disable_IF_def)
qed

lemma mutex_unlock_wakes:
  assumes rel: "sched_rel D T s A" and w: "m_waiter mu \<in> D" "a_lists A (m_waiter mu) = xs @ [x]"
  shows "\<exists>s'. mutex_unlock mu s = Inr (mu, s') \<and> sched_rel D T s' (a_unblock x A)"
proof -
  have rel': "sched_rel D T (set_IF False s) A" using rel by simp
  from rel have b: "base D T s (a_lists A)" by (auto simp: sched_rel_def)
  note r = base_lrepr [OF b w(1)]
  from unblock_refines [OF rel' w(1), of x] w(2) obtain s' where
    "unblock (Nd x) (set_IF False s) = Inr s'" "sched_rel D T s' (a_unblock x A)" by auto
  with lrepr_number_0 [OF r] lrepr_get_end [OF r] lrepr_last [OF r] w(2) show ?thesis
    by (auto simp: mutex_unlock_def get_and_disable_IF_def)
qed

section \<open>Mutual exclusion\<close>

text \<open>
  What an observer of the tasks sees: the mutex, the kernel, the tasks \<open>W\<close> that have called
  \<^verbatim>\<open>mutex_lock\<close> and for which the call has not returned, and the tasks \<open>I\<close> for which it has
  returned and that have not unlocked since. A call has returned when its task runs again:
  \<open>settle\<close> looks at who runs after every step, and at nothing of the mutex.
\<close>

type_synonym mstate = "mutex_t \<times> kernel \<times> nat set \<times> nat set"

datatype mcall = MLock "bool list" | MUnlock | MSched call

definition run_of :: "'a kernel_scheme \<Rightarrow> nat set" where
  "run_of s = {n. running_task s = Nd n}"

definition settle :: "mutex_t \<Rightarrow> kernel \<Rightarrow> nat set \<Rightarrow> nat set \<Rightarrow> mstate" where
  "settle mu s W I = (mu, s, W - run_of s, I \<union> (W \<inter> run_of s))"

fun do_mcall :: "mcall \<Rightarrow> mstate \<Rightarrow> mstate res" where
  "do_mcall (MLock k) (mu, s, W, I) =
     rbind (mutex_lock mu (map SetIF k) s) (\<lambda>(mu', s'). Inr (settle mu' s' (W \<union> run_of s) I))"
| "do_mcall MUnlock (mu, s, W, I) =
     rbind (mutex_unlock mu s) (\<lambda>(mu', s'). Inr (settle mu' s' W (I - run_of s)))"
| "do_mcall (MSched c) (mu, s, W, I) = rbind (do_call c s) (\<lambda>s'. Inr (settle mu s' W I))"

text \<open>
  Only a task for which the lock call has returned unlocks, the idle task does not lock, and the
  other calls leave the wait list of the mutex alone.
\<close>

fun may_mcall :: "nat set \<Rightarrow> nat \<Rightarrow> mcall \<Rightarrow> mstate \<Rightarrow> bool" where
  "may_mcall D idle (MLock k) (mu, s, W, I) = (running_task s \<noteq> Nd idle)"
| "may_mcall D idle MUnlock (mu, s, W, I) = (\<exists>n \<in> I. running_task s = Nd n)"
| "may_mcall D idle (MSched c) (mu, s, W, I) =
     (may_call D idle c s \<and>
      (case c of Block l st k \<Rightarrow> l \<noteq> m_waiter mu | Unblock n \<Rightarrow> ct (heap s) (Nd n) \<noteq> Some (m_waiter mu) | _ \<Rightarrow> True))"

text \<open>
  While the mutex is locked, either one task is inside and the calls that have not returned are
  those of the wait list, or nobody is inside and one more task, to which the mutex has
  been handed, has yet to run.
\<close>

definition lock_state :: "bool \<Rightarrow> nat list \<Rightarrow> nat set \<Rightarrow> nat set \<Rightarrow> bool" where
  "lock_state free ws W I \<longleftrightarrow>
     (if free then ws = [] \<and> W = {} \<and> I = {}
      else (\<exists>o'. I = {o'}) \<and> W = set ws \<or> I = {} \<and> (\<exists>o'. o' \<notin> set ws \<and> W = insert o' (set ws)))"

lemma lock_state_wait:
  assumes "lock_state False ws W I" "r \<notin> W"
  shows "lock_state False (r # ws) (W \<union> {r}) I"
proof -
  from assms(1) consider (inside) o' where "I = {o'}" "W = set ws"
    | (handed) o' where "I = {}" "o' \<notin> set ws" "W = insert o' (set ws)" by (auto simp: lock_state_def)
  then show ?thesis
  proof cases
    case inside
    then show ?thesis by (auto simp: lock_state_def)
  next
    case handed
    then have "o' \<notin> set (r # ws)" "W \<union> {r} = insert o' (set (r # ws))" using assms(2) by auto
    then show ?thesis using handed(1) unfolding lock_state_def if_False by blast
  qed
qed

definition mutex_inv :: "nat set \<Rightarrow> nat set \<Rightarrow> nat \<Rightarrow> mstate \<Rightarrow> bool" where
  "mutex_inv D T idle = (\<lambda>(mu, s, W, I). \<exists>A. sched_rel D T s A \<and> idle_ok idle A \<and>
     m_waiter mu \<in> D - {ready_list, sleep_list, died_list} \<and> a_run A \<notin> W \<and>
     lock_state (m_value mu) (a_lists A (m_waiter mu)) W I)"

lemma mutex_inv_settle:
  assumes "sched_rel D T s A" "idle_ok idle A" "m_waiter mu \<in> D - {ready_list, sleep_list, died_list}"
    "lock_state (m_value mu) (a_lists A (m_waiter mu)) W I"
  shows "mutex_inv D T idle (settle mu s W I)"
proof -
  have r: "run_of s = {a_run A}" "a_run A \<notin> set (a_lists A (m_waiter mu))"
    using assms(1,3) by (auto simp: sched_rel_def run_of_def)
  then have "lock_state (m_value mu) (a_lists A (m_waiter mu)) (W - {a_run A}) (I \<union> (W \<inter> {a_run A}))"
    using assms(4) by (auto simp: lock_state_def split: if_splits)
  with assms r show ?thesis by (auto simp: mutex_inv_def settle_def)
qed

text \<open>Scheduler calls other than those on the wait list keep it.\<close>

lemma a_lists_other:
  "l \<noteq> ready_list \<Longrightarrow> a_lists (a_switch A) l = a_lists A l"
  "l \<noteq> ready_list \<Longrightarrow> a_lists (a_yield A) l = a_lists A l"
  "l \<noteq> m \<Longrightarrow> l \<noteq> ready_list \<Longrightarrow> a_lists (a_block m A) l = a_lists A l"
  "l \<noteq> sleep_list \<Longrightarrow> l \<noteq> ready_list \<Longrightarrow> a_lists (a_sleep key A) l = a_lists A l"
  "n \<notin> set (a_lists A l) \<Longrightarrow> l \<noteq> ready_list \<Longrightarrow> a_lists (a_unblock n A) l = a_lists A l"
  by (auto simp: a_switch_def a_yield_def a_block_def a_move_def a_sleep_def a_unblock_def a_drop_def remove1_idem)

lemma tick_other:
  assumes "l \<in> D" "l \<noteq> sleep_list" "l \<noteq> ready_list" "base D T s (a_lists A)"
  shows "a_lists (a_tick now key e A) l = a_lists A l"
proof -
  have "n \<notin> set (a_lists A l)" if "a_lists A sleep_list = n # ns" for n ns
    using base_one_list [OF assms(4) assms(1) base_lists(2) [OF assms(4)], of n] that assms(2) by auto
  then have "a_lists (a_weakup now key A) l = a_lists A l"
    using assms(3) by (auto simp: a_weakup_def a_lists_other split: list.split)
  then show ?thesis using assms(3) by (simp add: a_tick_def Let_def a_lists_other)
qed

lemma call_other:
  assumes "sched_rel D T s A" "l \<in> D - {ready_list, sleep_list, died_list}"
    and "case c of Block m st k \<Rightarrow> m \<noteq> l | Unblock n \<Rightarrow> ct (heap s) (Nd n) \<noteq> Some l | _ \<Rightarrow> True"
  shows "a_lists (a_call c s A) l = a_lists A l"
proof -
  have b: "base D T s (a_lists A)" using assms(1) by (auto simp: sched_rel_def)
  show ?thesis
    using assms(2,3) tick_other [of l D T s A] b lrepr_ct [OF base_lrepr [OF b, of l]]
    by (cases c) (auto simp: a_lists_other)
qed

lemma mutex_inv_call:
  assumes "mutex_inv D T idle ms" "may_mcall D idle c ms"
  shows "\<exists>ms'. do_mcall c ms = Inr ms' \<and> mutex_inv D T idle ms'"
proof -
  obtain mu s W I where ms: "ms = (mu, s, W, I)" by (cases ms)
  with assms(1) obtain A where rel: "sched_rel D T s A" and idle: "idle_ok idle A"
      and w: "m_waiter mu \<in> D - {ready_list, sleep_list, died_list}" and rW: "a_run A \<notin> W"
      and I: "lock_state (m_value mu) (a_lists A (m_waiter mu)) W I"
    by (auto simp: mutex_inv_def)
  let ?ws = "a_lists A (m_waiter mu)"
  from rel have b: "base D T s (a_lists A)" and run: "running_task s = Nd (a_run A)" "a_run A \<notin> set ?ws"
    using w by (auto simp: sched_rel_def)
  have ro: "run_of s = {a_run A}" using run by (auto simp: run_of_def)
  show ?thesis
  proof (cases c)
    case (MLock k)
    with assms(2) ms run have r: "a_run A \<noteq> idle" by simp
    show ?thesis
    proof (cases "m_value mu")
      case True
      with I w mutex_lock_free [OF rel, of mu "map SetIF k"] obtain s' where
        s': "mutex_lock mu (map SetIF k) s = Inr (mu\<lparr>m_value := False\<rparr>, s')" "sched_rel D T s' A" by (auto simp: lock_state_def)
      have "lock_state False ?ws (W \<union> {a_run A}) I" using True I by (auto simp: lock_state_def)
      then have "mutex_inv D T idle (settle (mu\<lparr>m_value := False\<rparr>) s' (W \<union> {a_run A}) I)"
        using w by (intro mutex_inv_settle [OF s'(2) idle]) simp_all
      with MLock ms ro s'(1) show ?thesis by simp
    next
      case False
      with w mutex_lock_held [OF rel, of mu "map SetIF k"] idle_ready [OF idle r] obtain s' where
        s': "mutex_lock mu (map SetIF k) s = Inr (mu, s')" "sched_rel D T s' (a_block (m_waiter mu) A)" by auto
      have "a_lists (a_block (m_waiter mu) A) (m_waiter mu) = a_run A # ?ws"
        using w run(2) by (auto simp: a_block_def a_move_def a_switch_def remove1_idem)
      moreover have "lock_state False (a_run A # ?ws) (W \<union> {a_run A}) I"
        using False I by (intro lock_state_wait rW) simp
      ultimately have "mutex_inv D T idle (settle mu s' (W \<union> {a_run A}) I)"
        using w False idle_block [OF idle r] by (intro mutex_inv_settle [OF s'(2)]) simp_all
      with MLock ms ro s'(1) show ?thesis by simp
    qed
  next
    case MUnlock
    with assms(2) ms run have "a_run A \<in> I" by auto
    with I have I1: "I = {a_run A}" "\<not> m_value mu" "W = set ?ws" by (auto simp: lock_state_def split: if_splits)
    show ?thesis
    proof (cases ?ws rule: rev_cases)
      case Nil
      with w mutex_unlock_free [OF rel, of mu] obtain s' where
        s': "mutex_unlock mu s = Inr (mu\<lparr>m_value := True\<rparr>, s')" "sched_rel D T s' A" by auto
      have "mutex_inv D T idle (settle (mu\<lparr>m_value := True\<rparr>) s' W {})"
        using w I1 Nil by (intro mutex_inv_settle [OF s'(2) idle]) (simp_all add: lock_state_def)
      with MUnlock ms ro s'(1) I1(1) show ?thesis by simp
    next
      case (snoc xs x)
      with w mutex_unlock_wakes [OF rel, of mu xs x] obtain s' where
        s': "mutex_unlock mu s = Inr (mu, s')" "sched_rel D T s' (a_unblock x A)" by auto
      have d: "distinct ?ws" using base_distinct [OF b] w by simp
      then have "a_lists (a_unblock x A) (m_waiter mu) = xs"
        using w snoc by (auto simp: a_unblock_def a_move_def a_drop_def remove1_append remove1_idem)
      moreover have "lock_state False xs W {}" using d snoc I1(3) by (auto simp: lock_state_def)
      ultimately have "mutex_inv D T idle (settle mu s' W {})"
        using w I1(2) idle_unblock [OF idle] by (intro mutex_inv_settle [OF s'(2)]) simp_all
      with MUnlock ms ro s'(1) I1(1) show ?thesis by simp
    qed
  next
    case (MSched d)
    with assms(2) ms do_call_refines [OF rel idle, of d] call_other [OF rel w, of d] obtain s' where
      s': "do_call d s = Inr s'" "sched_rel D T s' (a_call d s A)" "idle_ok idle (a_call d s A)"
      "a_lists (a_call d s A) (m_waiter mu) = ?ws"
      by (auto split: call.splits)
    have "mutex_inv D T idle (settle mu s' W I)" using I s'(4) w by (intro mutex_inv_settle [OF s'(2,3)]) simp_all
    with MSched ms s'(1) show ?thesis by simp
  qed
qed

interpretation mutex: machine "may_mcall D idle" do_mcall "mutex_inv D T idle" for D T idle
  by unfold_locales (rule mutex_inv_call)

text \<open>
  C3: Mutual exclusion: in any interleaving of lock and unlock calls with the calls of the scheduler
  and the clock, there is at most one task whose \<^verbatim>\<open>mutex_lock\<close> has returned, which is seen by
  the task running on, and that has not unlocked since; the flag is set while there is one. A
  free mutex has no pending call. No such call stops the kernel. Only a task inside unlocks, the idle task
  never locks, and the other calls leave the wait list of the mutex alone.
\<close>

theorem mutex_exclusion:
  assumes "mutex_inv D T idle ms" "runs (may_mcall D idle) do_mcall ms (mu, s, W, I)"
  shows "(\<forall>m \<in> I. \<forall>n \<in> I. m = n) \<and> (I \<noteq> {} \<longrightarrow> test_lock mu) \<and> (\<not> test_lock mu \<longrightarrow> W = {}) \<and>
     (\<forall>c. may_mcall D idle c (mu, s, W, I) \<longrightarrow> (\<exists>ms'. do_mcall c (mu, s, W, I) = Inr ms'))"
proof -
  have inv: "mutex_inv D T idle (mu, s, W, I)" using mutex.runs_inv [OF assms(2,1)] .
  then have "(\<forall>m \<in> I. \<forall>n \<in> I. m = n) \<and> (I \<noteq> {} \<longrightarrow> test_lock mu) \<and> (\<not> test_lock mu \<longrightarrow> W = {})"
    by (auto simp: mutex_inv_def test_lock_def lock_state_def split: if_splits)
  with mutex_inv_call [OF inv] show ?thesis by blast
qed

text \<open>
  Unlocking a mutex with waiters hands it to the task that has waited longest: that
  task becomes ready while the flag stays locked, so that no task can take the mutex in
  between; a task that locks a taken mutex becomes the youngest waiter.
\<close>

theorem mutex_handoff:
  assumes "sched_rel D T s A" "m_waiter mu \<in> D - {ready_list, sleep_list, died_list}" "\<not> m_value mu"
    "a_lists A ready_list \<noteq> []" "simple k"
  shows "(\<exists>s'. mutex_lock mu k s = Inr (mu, s') \<and> sched_rel D T s' (a_block (m_waiter mu) A)) \<and>
     (\<forall>xs x. a_lists A (m_waiter mu) = xs @ [x] \<longrightarrow>
        (\<exists>s'. mutex_unlock mu s = Inr (mu, s') \<and> sched_rel D T s' (a_unblock x A)))"
  using mutex_lock_held [OF assms(1)] mutex_unlock_wakes [OF assms(1)] assms(2-) by auto

section \<open>Witnesses\<close>

text \<open>The example of the scheduler, with a locked mutex whose wait list is \<open>block_list\<close>.\<close>

lemma ex_mutex_inv:
  "mutex_inv ex_lists {0, 1} 1 (\<lparr>m_value = True, m_waiter = block_list\<rparr>, ex_kernel ex_pages ready_list TASK_READY, {}, {})"
  unfolding mutex_inv_def prod.case
  by (rule exI [of _ "\<lparr>a_lists = (\<lambda>_. [])(ready_list := [1]), a_run = 0\<rparr>"])
    (use ex_ready_rel in \<open>simp add: idle_ok_def ex_lists_def list_ids lock_state_def\<close>)

text \<open>After the first lock the running task is inside.\<close>

theorem mutex_exclusion_witness:
  "\<exists>mu s. do_mcall (MLock []) (\<lparr>m_value = True, m_waiter = block_list\<rparr>,
      ex_kernel ex_pages ready_list TASK_READY, {}, {}) = Inr (mu, s, {}, {0}) \<and> test_lock mu"
proof -
  let ?mu = "\<lparr>m_value = True, m_waiter = block_list\<rparr>" and ?s = "ex_kernel ex_pages ready_list TASK_READY"
  let ?ms = "(?mu, ?s, {}, {}) :: mstate"
  from mutex_lock_free [OF ex_ready_rel, of ?mu "[]"] obtain s' where
    s': "mutex_lock ?mu [] ?s = Inr (?mu\<lparr>m_value := False\<rparr>, s')"
      "sched_rel ex_lists {0, 1} s' \<lparr>a_lists = (\<lambda>_. [])(ready_list := [1]), a_run = 0\<rparr>" by (auto simp: ex_lists_def list_ids)
  have "run_of ?s = {0}" "run_of s' = {0}" using s'(2) by (auto simp: run_of_def sched_rel_def)
  with s'(1) have m: "do_mcall (MLock []) ?ms = Inr (?mu\<lparr>m_value := False\<rparr>, s', {}, {0})" by (simp add: settle_def)
  have "runs (may_mcall ex_lists 1) do_mcall ?ms (?mu\<lparr>m_value := False\<rparr>, s', {}, {0})"
    by (rule runs_step [where c = "MLock []"], rule runs_refl) (use m in simp_all)
  from mutex_exclusion [OF ex_mutex_inv this] m show ?thesis by blast
qed

theorem mutex_handoff_witness:
  "\<exists>s'. mutex_lock \<lparr>m_value = False, m_waiter = block_list\<rparr> [] (ex_kernel ex_pages ready_list TASK_READY) =
      Inr (\<lparr>m_value = False, m_waiter = block_list\<rparr>, s')"
  using mutex_handoff [OF ex_ready_rel, of "\<lparr>m_value = False, m_waiter = block_list\<rparr>" "[]"]
  by (auto simp: ex_lists_def list_ids)

end
