(* ===== verification/Console.thy ===== *)
theory Console
  imports Kernel_Pages Vsprintf
begin

text \<open>
  The text console of \<^verbatim>\<open>kernel/console.c\<close>: the video memory of 16-bit cells from
  \<^verbatim>\<open>VEDIO_BASE_ADDR\<close> to \<^verbatim>\<open>VEDIO_END_ADDR\<close>, the positions of the cursor and of the visible
  window in it, and the two pairs of registers of the display controller. An access outside
  the video memory faults.
\<close>

section \<open>Constants and state\<close>

definition CRT_CURSOR_H :: u8 where "CRT_CURSOR_H = 0xe"
definition CRT_CURSOR_L :: u8 where "CRT_CURSOR_L = 0xf"
definition CRT_SCREEN_H :: u8 where "CRT_SCREEN_H = 0xc"
definition CRT_SCREEN_L :: u8 where "CRT_SCREEN_L = 0xd"
definition VEDIO_BASE_ADDR :: int where "VEDIO_BASE_ADDR = 0xb8000"
definition VEDIO_END_ADDR :: int where "VEDIO_END_ADDR = 0xc0000"
definition SCREEN_ROW_COUNT :: int where "SCREEN_ROW_COUNT = 80"
definition SCREEN_COL_COUNT :: int where "SCREEN_COL_COUNT = 25"
definition FULL_SCREEN_SIZE :: int where "FULL_SCREEN_SIZE = SCREEN_ROW_COUNT * SCREEN_COL_COUNT"
definition BLANK :: u16 where "BLANK = 0x0720"
definition WORD_TYPE_DEFAULT :: u8 where "WORD_TYPE_DEFAULT = 7"
definition COLOR_TYPE_BLINK :: u8 where "COLOR_TYPE_BLINK = 0x80"
definition COLOR_TYPE_HIGHLIGHT :: u8 where "COLOR_TYPE_HIGHLIGHT = 8"
definition TABLE_SIZE :: int where "TABLE_SIZE = 4"
definition CLR_LF :: u8 where "CLR_LF = 10"
definition BACKSPASE :: u8 where "BACKSPASE = 8"
definition TABLE :: u8 where "TABLE = 9"

lemmas screen_consts = VEDIO_BASE_ADDR_def VEDIO_END_ADDR_def SCREEN_ROW_COUNT_def SCREEN_COL_COUNT_def
  FULL_SCREEN_SIZE_def TABLE_SIZE_def

datatype Arrow_t = UP | DOWN | LEFT | RIGHT

record console = cpu +
  CPosition :: u16
  SPosition :: u16
  color :: u8
  c_end :: u16
  vedio :: "u16 list"
  crt :: "u8 \<Rightarrow> u8"

text \<open>A register is selected and then written or read.\<close>

definition crt_write :: "u8 \<Rightarrow> u8 \<Rightarrow> 'a console_scheme \<Rightarrow> 'a console_scheme" where
  "crt_write r v s = s\<lparr>crt := (crt s)(r := v)\<rparr>"

definition put_cell :: "nat \<Rightarrow> u16 \<Rightarrow> 'a console_scheme \<Rightarrow> 'a console_scheme res" where
  "put_cell i v s = rbind (arr_set (vedio s) i v) (\<lambda>m. Inr (s\<lparr>vedio := m\<rparr>))"

section \<open>Positions and scrolling\<close>

definition get_cursor_position :: "'a console_scheme \<Rightarrow> u16" where
  "get_cursor_position s = push_bit 8 (ucast (crt s CRT_CURSOR_H)) OR ucast (crt s CRT_CURSOR_L)"

definition get_screen_position :: "'a console_scheme \<Rightarrow> u16" where
  "get_screen_position s = push_bit 8 (ucast (crt s CRT_SCREEN_H)) OR ucast (crt s CRT_SCREEN_L)"

definition set_screen_position :: "u16 \<Rightarrow> 'a console_scheme \<Rightarrow> 'a console_scheme res" where
  "set_screen_position p s =
     rbind (ensure (p mod 80 = 0) Assert) (\<lambda>_.
     Inr (crt_write CRT_SCREEN_L (ucast p) (crt_write CRT_SCREEN_H (ucast (drop_bit 8 p)) s)))"

text \<open>\<^verbatim>\<open>memcpy\<close> of the window below the first row to the start of the video memory.\<close>

definition move_up :: "nat \<Rightarrow> nat \<Rightarrow> 'a console_scheme \<Rightarrow> 'a console_scheme res" where
  "move_up from n s =
     rbind (ensure (from + n \<le> length (vedio s)) Fault) (\<lambda>_.
     Inr (s\<lparr>vedio := take n (drop from (vedio s)) @ drop n (vedio s)\<rparr>))"

definition scroll_down :: "bool \<Rightarrow> 'a console_scheme \<Rightarrow> (u16 \<times> 'a console_scheme) res" where
  "scroll_down clean s =
     rbind (if VEDIO_BASE_ADDR + (uint (SPosition s) + FULL_SCREEN_SIZE) * 2 < VEDIO_END_ADDR - SCREEN_ROW_COUNT * 4 then
              Inr (s\<lparr>SPosition := SPosition s + word_of_int SCREEN_ROW_COUNT\<rparr>)
            else
              rbind (move_up (nat (uint (SPosition s) + SCREEN_ROW_COUNT)) (nat (FULL_SCREEN_SIZE - SCREEN_ROW_COUNT)) s) (\<lambda>s.
              let p = word_of_int (FULL_SCREEN_SIZE - SCREEN_ROW_COUNT) in
              Inr (s\<lparr>SPosition := 0, CPosition := p, c_end := p\<rparr>))) (\<lambda>s.
     rbind (set_screen_position (SPosition s) s) (\<lambda>s.
     rbind (if clean then
              for_each (\<lambda>i s. put_cell (nat (uint (SPosition s) + FULL_SCREEN_SIZE - SCREEN_ROW_COUNT) + i) BLANK s)
                [0..<nat SCREEN_ROW_COUNT] s
            else Inr s) (\<lambda>s.
     Inr (CPosition s, s))))"

definition scroll_up :: "'a console_scheme \<Rightarrow> 'a console_scheme res" where
  "scroll_up s =
     rbind (ensure (SPosition s mod word_of_int SCREEN_ROW_COUNT = 0) Assert) (\<lambda>_.
     let s = (if SPosition s > 0 then s\<lparr>SPosition := SPosition s - word_of_int SCREEN_ROW_COUNT\<rparr> else s) in
     set_screen_position (SPosition s) s)"

definition set_cursor_position :: "u16 \<Rightarrow> bool \<Rightarrow> 'a console_scheme \<Rightarrow> 'a console_scheme res" where
  "set_cursor_position cursor_position clean s =
     rbind (if uint cursor_position \<ge> uint (SPosition s) + SCREEN_ROW_COUNT * SCREEN_COL_COUNT then scroll_down clean s
            else Inr (cursor_position, s)) (\<lambda>(cursor_position, s).
     rbind (if cursor_position < SPosition s then scroll_up s else Inr s) (\<lambda>s.
     Inr (crt_write CRT_CURSOR_L (ucast cursor_position) (crt_write CRT_CURSOR_H (ucast (drop_bit 8 cursor_position)) s))))"

definition console_clean :: "'a console_scheme \<Rightarrow> 'a console_scheme res" where
  "console_clean s =
     rbind (set_screen_position 0 (s\<lparr>CPosition := 0, SPosition := 0, color := WORD_TYPE_DEFAULT, c_end := 0\<rparr>)) (\<lambda>s.
     rbind (set_cursor_position (CPosition s) False s) (\<lambda>s.
     for_each (\<lambda>i s. put_cell i BLANK s) [0..<nat FULL_SCREEN_SIZE] s))"

section \<open>Characters\<close>

definition proc_lf :: "'a console_scheme \<Rightarrow> 'a console_scheme res" where
  "proc_lf s =
     (let next_row = word_of_int (uint (CPosition s) div SCREEN_ROW_COUNT + 1) :: u16;
          s = s\<lparr>CPosition := word_of_int (uint next_row * SCREEN_ROW_COUNT)\<rparr> in
      set_cursor_position (CPosition s) True s)"

definition proc_table :: "'a console_scheme \<Rightarrow> 'a console_scheme res" where
  "proc_table s =
     (let s = s\<lparr>CPosition := word_of_int ((uint (CPosition s) + TABLE_SIZE) div TABLE_SIZE * TABLE_SIZE)\<rparr> in
      set_cursor_position (CPosition s) True s)"

text \<open>\<^verbatim>\<open>char\<close> is signed, so the colour of a character from 128 on is lost.\<close>

definition word_block :: "u8 \<Rightarrow> u8 \<Rightarrow> u16" where
  "word_block col ch = push_bit 8 (scast col) OR scast ch"

definition console_put_char :: "u8 \<Rightarrow> 'a console_scheme \<Rightarrow> 'a console_scheme res" where
  "console_put_char ch s =
     (let blk = word_block (color s) ch; (IF_stat, s) = get_and_disable_IF s in
      rbind (if ch = CLR_LF then proc_lf s
             else if ch = TABLE then proc_table s
             else if ch = BACKSPASE then
               let s = s\<lparr>CPosition := CPosition s - 1\<rparr> in
               rbind (put_cell (unat (CPosition s)) BLANK s) (\<lambda>s. set_cursor_position (CPosition s) False s)
             else
               rbind (put_cell (unat (CPosition s)) blk s) (\<lambda>s.
               let s = s\<lparr>CPosition := CPosition s + 1\<rparr> in
               set_cursor_position (CPosition s) True s)) (\<lambda>s.
      Inr (set_IF IF_stat (s\<lparr>c_end := CPosition s\<rparr>))))"

definition keyboard_arrow :: "Arrow_t \<Rightarrow> 'a console_scheme \<Rightarrow> 'a console_scheme res" where
  "keyboard_arrow arrow s =
     (case arrow of
       DOWN \<Rightarrow>
         let s = s\<lparr>CPosition := if uint (CPosition s) + SCREEN_ROW_COUNT \<le> uint (c_end s)
                then CPosition s + word_of_int SCREEN_ROW_COUNT else c_end s\<rparr> in
         set_cursor_position (CPosition s) False s
     | UP \<Rightarrow>
         if uint (CPosition s) - SCREEN_ROW_COUNT \<ge> 0 then
           let s = s\<lparr>CPosition := CPosition s - word_of_int SCREEN_ROW_COUNT\<rparr> in
           set_cursor_position (CPosition s) False s
         else Inr s
     | LEFT \<Rightarrow>
         if uint (CPosition s) - 1 \<ge> 0 then
           let s = s\<lparr>CPosition := CPosition s - 1\<rparr> in set_cursor_position (CPosition s) False s
         else Inr s
     | RIGHT \<Rightarrow>
         if uint (CPosition s) + 1 \<le> uint (c_end s) then
           let s = s\<lparr>CPosition := CPosition s + 1\<rparr> in set_cursor_position (CPosition s) False s
         else Inr s)"

section \<open>Colour sequences\<close>

definition fore_color :: "u8 \<Rightarrow> u8 option" where
  "fore_color c = map_of [(30, 0), (31, 4), (32, 2), (33, 6), (34, 1), (35, 5), (36, 3), (37, 7)] c"

definition back_color :: "u8 \<Rightarrow> u8 option" where
  "back_color c = map_of [(40, 0), (41, 0x40), (42, 0x20), (43, 0x60), (44, 0x10), (45, 0x50), (46, 0x30), (47, 0x70)] c"

definition gen_color :: "u8 \<Rightarrow> u8 \<Rightarrow> u8 option" where
  "gen_color c col =
     (if c = 0 then Some WORD_TYPE_DEFAULT
      else if c = 1 then Some (col OR COLOR_TYPE_HIGHLIGHT)
      else if c = 2 then Some (col AND NOT COLOR_TYPE_HIGHLIGHT)
      else if c = 5 then Some (col OR COLOR_TYPE_BLINK)
      else None)"

text \<open>The loop that copies the sequence up to the closing bracket, eight characters at most.\<close>

fun color_chars :: "nat \<Rightarrow> string \<Rightarrow> (string \<times> string) res" where
  "color_chars i [] = Inl Fault"
| "color_chars i (c # cs) =
     (if c \<noteq> CHR '']'' \<and> i < 8 then rbind (color_chars (i + 1) cs) (\<lambda>(code, rest). Inr (c # code, rest))
      else Inr ([], c # cs))"

text \<open>
  The results are the rest of the string and the colour. Copying eight characters puts the
  terminator outside the local array.
\<close>

definition color_proc :: "string \<Rightarrow> u8 \<Rightarrow> (string \<times> u8) res" where
  "color_proc fmt pre_color =
     rbind (arr_get fmt 0) (\<lambda>c0. if c0 \<noteq> CHR 0x1B then Inr (fmt, pre_color) else
     rbind (arr_get fmt 1) (\<lambda>c1. if c1 \<noteq> CHR ''['' then Inr (fmt, pre_color) else
     rbind (color_chars 0 (drop 2 fmt)) (\<lambda>(code, rest).
     if hd rest \<noteq> CHR '']'' then Inr (fmt, pre_color) else
     rbind (ensure (length code < 8) Fault) (\<lambda>_.
     rbind (skip_atoi (code @ [CHR 0x00])) (\<lambda>(gen_code, p).
     case gen_color (word_of_int gen_code) pre_color of None \<Rightarrow> Inr (fmt, pre_color)
     | Some col \<Rightarrow>
       if hd p = CHR 0x00 then Inr (tl rest, col)
       else if hd p \<noteq> CHR '';'' then Inr (fmt, pre_color)
       else
         rbind (skip_atoi (tl p)) (\<lambda>(fore_code, p).
         case fore_color (word_of_int fore_code) of None \<Rightarrow> Inr (fmt, col AND 0xf8)
         | Some f \<Rightarrow>
           let col = col AND 0xf8 OR f in
           if hd p = CHR 0x00 then Inr (tl rest, col)
           else if hd p \<noteq> CHR '';'' then Inr (fmt, pre_color)
           else
             rbind (skip_atoi (tl p)) (\<lambda>(back_code, p).
             case back_color (word_of_int back_code) of None \<Rightarrow> Inr (fmt, col AND 0x8f)
             | Some b \<Rightarrow> Inr (tl rest, col AND 0x8f OR b))))))))"

section \<open>Strings\<close>

text \<open>Both loops may go on for ever: a sequence \<^verbatim>\<open>_color_proc\<close> does not take is tried again.\<close>

partial_function (option) skip_escapes :: "string \<Rightarrow> u8 \<Rightarrow> (string \<times> u8) res option" where
  "skip_escapes str col =
     (case rbind (arr_get str 0) (\<lambda>c. if c = CHR 0x1B then rbind (arr_get str 1) (\<lambda>d. Inr (d = CHR ''['')) else Inr False) of
        Inl e \<Rightarrow> Some (Inl e)
      | Inr esc \<Rightarrow>
          if esc then
            (case color_proc str col of
               Inl e \<Rightarrow> Some (Inl e)
             | Inr q \<Rightarrow> skip_escapes (fst q) (snd q))
          else Some (Inr (str, col)))"

partial_function (option) put_string_loop :: "string \<Rightarrow> int \<Rightarrow> 'a console_scheme \<Rightarrow> 'a console_scheme res option" where
  "put_string_loop str count s =
     (case arr_get str 0 of
        Inl e \<Rightarrow> Some (Inl e)
      | Inr c \<Rightarrow>
          if c = CHR 0x00 \<or> count = 0 then Some (Inr s)
          else
            (case rbind (run (skip_escapes str (color s))) (\<lambda>(str, col).
                    rbind (arr_get str 0) (\<lambda>c.
                    rbind (console_put_char (of_char c) (s\<lparr>color := col\<rparr>)) (\<lambda>s. Inr (tl str, s)))) of
               Inl e \<Rightarrow> Some (Inl e)
             | Inr q \<Rightarrow> put_string_loop (fst q) (count - 1) (snd q)))"

definition console_put_string :: "string \<Rightarrow> int \<Rightarrow> 'a console_scheme \<Rightarrow> 'a console_scheme res" where
  "console_put_string str count s =
     (let (IF_stat, s) = get_and_disable_IF s in
      rbind (run (put_string_loop str count s)) (\<lambda>s.
      Inr (set_IF IF_stat (s\<lparr>color := WORD_TYPE_DEFAULT\<rparr>))))"

end
