(* ===== verification/Console_Theorems.thy ===== *)
theory Console_Theorems
  imports Console
begin

text \<open>
  The console keeps the cursor inside the visible window and the window inside the video
  memory, whatever is printed and however the arrow keys are used.
\<close>

section \<open>Positions\<close>

lemma u16_add: "0 \<le> n \<Longrightarrow> uint w + n < 65536 \<Longrightarrow> uint (w + word_of_int n) = uint w + n" for w :: u16
  by (simp add: uint_word_ariths uint_word_of_int mod_simps)

lemma u16_sub: "0 \<le> n \<Longrightarrow> n \<le> uint w \<Longrightarrow> uint (w - word_of_int n) = uint w - n" for w :: u16
proof -
  assume "0 \<le> n" "n \<le> uint w"
  moreover have "uint w < 65536" using unsigned_less [of w, where ?'a = int] by simp
  ultimately show ?thesis by (simp add: uint_word_ariths uint_word_of_int mod_simps)
qed

lemma u16_of_int: "0 \<le> n \<Longrightarrow> n < 65536 \<Longrightarrow> uint (word_of_int n :: u16) = n"
  by (simp add: uint_word_of_int)

lemma two_bytes: "push_bit 8 (ucast (ucast (drop_bit 8 p) :: u8)) OR ucast (ucast p :: u8) = (p :: u16)"
  by (rule bit_word_eqI) (auto simp: bit_simps)

lemma row_int:
  fixes x :: int
  shows "x mod 80 = 0 \<Longrightarrow> x < 14224 \<Longrightarrow> x \<le> 14160" and "x mod 80 = 0 \<Longrightarrow> x \<noteq> 0 \<Longrightarrow> 0 \<le> x \<Longrightarrow> 80 \<le> x"
  by presburger+

lemma tab_int:
  fixes c :: int
  shows "c < (c div 80 + 1) * 80" "(c div 80 + 1) * 80 \<le> c + 80" "c < (c + 4) div 4 * 4" "(c + 4) div 4 * 4 \<le> c + 4"
  by presburger+

lemma unat_lt: "uint w < int n \<Longrightarrow> unat w < n"
  by (simp only: uint_nat of_nat_less_iff)

definition regs_ok :: "'a console_scheme \<Rightarrow> bool" where
  "regs_ok s \<longleftrightarrow> get_screen_position s = SPosition s"

text \<open>The window lies in the video memory at the start of a row.\<close>

definition window_ok :: "'a console_scheme \<Rightarrow> bool" where
  "window_ok s \<longleftrightarrow> length (vedio s) = 16384 \<and> uint (SPosition s) mod 80 = 0 \<and> uint (SPosition s) \<le> 14240 \<and> regs_ok s"

definition con_ok :: "'a console_scheme \<Rightarrow> bool" where
  "con_ok s \<longleftrightarrow> window_ok s \<and> uint (SPosition s) \<le> uint (CPosition s) \<and> uint (CPosition s) < uint (SPosition s) + 2000 \<and>
     uint (CPosition s) \<le> uint (c_end s) \<and> get_cursor_position s = CPosition s"

lemma set_screen_ok:
  assumes "uint p mod 80 = 0"
  shows "\<exists>s'. set_screen_position p s = Inr s' \<and> get_screen_position s' = p \<and> get_cursor_position s' = get_cursor_position s \<and>
    s' = s\<lparr>crt := crt s'\<rparr>"
proof -
  have "p mod 80 = 0" using assms by (simp add: word_uint_eq_iff uint_mod)
  then show ?thesis
    by (simp add: set_screen_position_def crt_write_def get_screen_position_def get_cursor_position_def two_bytes
        CRT_SCREEN_L_def CRT_SCREEN_H_def CRT_CURSOR_L_def CRT_CURSOR_H_def)
qed

lemma erase_row:
  "(\<And>i. i \<in> set is \<Longrightarrow> nat (uint (SPosition s) + FULL_SCREEN_SIZE - SCREEN_ROW_COUNT) + i < length (vedio s)) \<Longrightarrow>
    \<exists>v. for_each (\<lambda>i s. put_cell (nat (uint (SPosition s) + FULL_SCREEN_SIZE - SCREEN_ROW_COUNT) + i) BLANK s) is s =
      Inr (s\<lparr>vedio := v\<rparr>) \<and> length v = length (vedio s)"
proof (induction "is" arbitrary: s)
  case Nil
  then show ?case by (intro exI [of _ "vedio s"]) simp
next
  case (Cons i "is")
  let ?b = "nat (uint (SPosition s) + FULL_SCREEN_SIZE - SCREEN_ROW_COUNT)"
  let ?s = "s\<lparr>vedio := (vedio s)[?b + i := BLANK]\<rparr>"
  have "put_cell (?b + i) BLANK s = Inr ?s" using Cons.prems [of i] by (simp add: put_cell_def)
  with Cons.IH [of ?s] Cons.prems show ?case by auto
qed

lemma scroll_down_ok:
  assumes "window_ok s"
  shows "\<exists>s'. scroll_down clean s = Inr (CPosition s', s') \<and> window_ok s' \<and> color s' = color s \<and> iflag s' = iflag s \<and>
    (uint (SPosition s') = uint (SPosition s) + 80 \<and> CPosition s' = CPosition s \<and> c_end s' = c_end s \<or>
     SPosition s' = 0 \<and> uint (CPosition s') = 1920 \<and> c_end s' = CPosition s')"
proof -
  let ?fits = "uint (SPosition s) < 14224"
  define s1 where "s1 = (if ?fits then s\<lparr>SPosition := SPosition s + word_of_int SCREEN_ROW_COUNT\<rparr>
     else s\<lparr>vedio := take 1920 (drop (nat (uint (SPosition s) + 80)) (vedio s)) @ drop 1920 (vedio s), SPosition := 0,
       CPosition := 1920, c_end := 1920\<rparr>)"
  note w = assms [unfolded window_ok_def]
  have sp: "nat (uint (SPosition s) + 80) + 1920 \<le> 16384" using w by linarith
  have first: "(if VEDIO_BASE_ADDR + (uint (SPosition s) + FULL_SCREEN_SIZE) * 2 < VEDIO_END_ADDR - SCREEN_ROW_COUNT * 4 then
              Inr (s\<lparr>SPosition := SPosition s + word_of_int SCREEN_ROW_COUNT\<rparr>)
            else
              rbind (move_up (nat (uint (SPosition s) + SCREEN_ROW_COUNT)) (nat (FULL_SCREEN_SIZE - SCREEN_ROW_COUNT)) s) (\<lambda>s.
              let p = word_of_int (FULL_SCREEN_SIZE - SCREEN_ROW_COUNT) in
              Inr (s\<lparr>SPosition := 0, CPosition := p, c_end := p\<rparr>))) = Inr s1"
    using w sp by (auto simp: s1_def move_up_def screen_consts)
  have "SPosition s1 = (if ?fits then SPosition s + word_of_int 80 else 0)" by (simp add: s1_def screen_consts)
  then have u1: "uint (SPosition s1) = (if ?fits then uint (SPosition s) + 80 else 0)"
    using u16_add [of 80 "SPosition s"] by auto
  have l1: "length (vedio s1) = 16384" using w sp by (simp add: s1_def)
  have m1: "uint (SPosition s1) mod 80 = 0" using w by (auto simp: u1)
  have b1: "uint (SPosition s1) \<le> 14240"
  proof (cases ?fits)
    case True
    have "uint (SPosition s) \<le> 14160" using row_int(1) [of "uint (SPosition s)"] True w by simp
    with True show ?thesis by (simp add: u1)
  qed (simp add: u1)
  from set_screen_ok [OF m1, of s1] obtain s2 where s2: "set_screen_position (SPosition s1) s1 = Inr s2"
    "get_screen_position s2 = SPosition s1" "s2 = s1\<lparr>crt := crt s2\<rparr>" by blast
  have f2: "SPosition s2 = SPosition s1" "CPosition s2 = CPosition s1" "c_end s2 = c_end s1" "vedio s2 = vedio s1"
    "color s2 = color s1" "iflag s2 = iflag s1"
    by (subst s2(3), simp)+
  have "unat (SPosition s1) < 14241" using b1 by (intro unat_lt) simp
  then have "nat (uint (SPosition s2) + FULL_SCREEN_SIZE - SCREEN_ROW_COUNT) + i < length (vedio s2)" if "i \<in> set [0..<nat SCREEN_ROW_COUNT]" for i
    using that by (simp add: f2 l1 screen_consts nat_add_distrib)
  from erase_row [OF this] obtain v where v: "for_each (\<lambda>i s. put_cell (nat (uint (SPosition s) + FULL_SCREEN_SIZE - SCREEN_ROW_COUNT) + i) BLANK s)
      [0..<nat SCREEN_ROW_COUNT] s2 = Inr (s2\<lparr>vedio := v\<rparr>)" "length v = length (vedio s2)" by blast
  define s3 where "s3 = (if clean then s2\<lparr>vedio := v\<rparr> else s2)"
  have "scroll_down clean s = Inr (CPosition s3, s3)"
    unfolding scroll_down_def first rbind_simps s2(1) v(1) by (simp add: s3_def)
  moreover have f3: "SPosition s3 = SPosition s1" "CPosition s3 = CPosition s1" "c_end s3 = c_end s1" "length (vedio s3) = 16384"
    "color s3 = color s1" "iflag s3 = iflag s1" "crt s3 = crt s2"
    using v(2) by (simp_all add: s3_def f2 l1)
  moreover have "window_ok s3"
    using m1 b1 f3 s2(2) by (simp add: window_ok_def regs_ok_def get_screen_position_def)
  moreover have "color s1 = color s" "iflag s1 = iflag s" by (simp_all add: s1_def)
  moreover have "uint (SPosition s1) = uint (SPosition s) + 80 \<and> CPosition s1 = CPosition s \<and> c_end s1 = c_end s \<or>
     SPosition s1 = 0 \<and> uint (CPosition s1) = 1920 \<and> c_end s1 = CPosition s1"
    using u1 by (simp add: s1_def)
  ultimately show ?thesis by (intro exI [of _ s3]) simp
qed

lemma scroll_up_ok:
  assumes "window_ok s"
  shows "\<exists>s'. scroll_up s = Inr s' \<and> window_ok s' \<and> uint (SPosition s') = (if uint (SPosition s) = 0 then 0 else uint (SPosition s) - 80) \<and>
    s' = s\<lparr>SPosition := SPosition s', crt := crt s'\<rparr>"
proof -
  note w = assms [unfolded window_ok_def]
  let ?s = "if SPosition s > 0 then s\<lparr>SPosition := SPosition s - word_of_int SCREEN_ROW_COUNT\<rparr> else s"
  have pos: "SPosition s > 0 \<longleftrightarrow> uint (SPosition s) \<noteq> 0" by (simp add: word_gt_0 word_uint_eq_iff)
  have ge: "uint (SPosition s) \<noteq> 0 \<Longrightarrow> 80 \<le> uint (SPosition s)" using w row_int(2) [of "uint (SPosition s)"] by simp
  have u: "uint (SPosition ?s) = (if uint (SPosition s) = 0 then 0 else uint (SPosition s) - 80)"
    using pos u16_sub [of 80 "SPosition s"] ge by (auto simp: SCREEN_ROW_COUNT_def)
  have m: "uint (SPosition ?s) mod 80 = 0" using w by (auto simp: u)
  from set_screen_ok [OF m, of ?s] obtain s' where s': "set_screen_position (SPosition ?s) ?s = Inr s'"
    "get_screen_position s' = SPosition ?s" "s' = ?s\<lparr>crt := crt s'\<rparr>" by blast
  have "SPosition s mod word_of_int SCREEN_ROW_COUNT = 0" using w by (simp add: word_uint_eq_iff uint_mod SCREEN_ROW_COUNT_def)
  then have "scroll_up s = Inr s'" using s'(1) by (simp add: scroll_up_def Let_def)
  moreover have f: "SPosition s' = SPosition ?s" "vedio s' = vedio s" by (subst s'(3), simp)+
  moreover have "window_ok s'" using w m u s'(2) f by (simp add: window_ok_def regs_ok_def)
  moreover have "s' = s\<lparr>SPosition := SPosition s', crt := crt s'\<rparr>" unfolding f(1) by (subst s'(3)) simp
  ultimately show ?thesis using u by (intro exI [of _ s']) simp
qed

text \<open>The cursor may be up to a row outside the window before it is set.\<close>

lemma set_cursor_ok:
  assumes w: "window_ok s" and lo: "uint (SPosition s) \<le> uint (CPosition s) + 80" and hi: "uint (CPosition s) < uint (SPosition s) + 2080"
  shows "\<exists>s'. set_cursor_position (CPosition s) clean s = Inr s' \<and> window_ok s' \<and> uint (SPosition s') \<le> uint (CPosition s') \<and>
    uint (CPosition s') < uint (SPosition s') + 2000 \<and> get_cursor_position s' = CPosition s' \<and> color s' = color s \<and> iflag s' = iflag s \<and>
    (CPosition s' = CPosition s \<and> c_end s' = c_end s \<or> c_end s' = CPosition s') \<and>
    (uint (SPosition s) \<le> uint (CPosition s) \<and> uint (CPosition s) < uint (SPosition s) + 2000 \<longrightarrow>
       vedio s' = vedio s \<and> SPosition s' = SPosition s \<and> CPosition s' = CPosition s)"
proof -
  let ?reg = "\<lambda>p s. crt_write CRT_CURSOR_L (ucast p) (crt_write CRT_CURSOR_H (ucast (drop_bit 8 p)) s)"
  have reg: "get_cursor_position (?reg p t) = p" "window_ok (?reg p t) = window_ok t" for p t
    by (simp_all add: get_cursor_position_def crt_write_def two_bytes window_ok_def regs_ok_def get_screen_position_def
        CRT_SCREEN_L_def CRT_SCREEN_H_def CRT_CURSOR_L_def CRT_CURSOR_H_def)
  have sel: "SPosition (?reg p t) = SPosition t" "CPosition (?reg p t) = CPosition t" "c_end (?reg p t) = c_end t"
    "color (?reg p t) = color t" "iflag (?reg p t) = iflag t" "vedio (?reg p t) = vedio t" for p t
    by (simp_all add: crt_write_def)
  have lt: "CPosition t < SPosition t \<longleftrightarrow> uint (CPosition t) < uint (SPosition t)" for t :: "'a console_scheme"
    by (simp add: word_less_def)
  show ?thesis
  proof (cases "uint (CPosition s) \<ge> uint (SPosition s) + 2000")
    case True
    from scroll_down_ok [OF w, of clean] obtain t where t: "scroll_down clean s = Inr (CPosition t, t)" "window_ok t"
      "color t = color s" "iflag t = iflag s"
      "uint (SPosition t) = uint (SPosition s) + 80 \<and> CPosition t = CPosition s \<and> c_end t = c_end s \<or>
       SPosition t = 0 \<and> uint (CPosition t) = 1920 \<and> c_end t = CPosition t" by blast
    have in_win: "uint (SPosition t) \<le> uint (CPosition t)" "uint (CPosition t) < uint (SPosition t) + 2000"
      using t(5) True hi by auto
    then have "set_cursor_position (CPosition s) clean s = Inr (?reg (CPosition t) t)"
      using True t(1) lt [of t] by (simp add: set_cursor_position_def screen_consts)
    with t in_win True show ?thesis by (intro exI [of _ "?reg (CPosition t) t"]) (auto simp: reg sel)
  next
    case False
    show ?thesis
    proof (cases "uint (CPosition s) < uint (SPosition s)")
      case True
      from scroll_up_ok [OF w] obtain t where t: "scroll_up s = Inr t" "window_ok t"
        "uint (SPosition t) = (if uint (SPosition s) = 0 then 0 else uint (SPosition s) - 80)"
        "t = s\<lparr>SPosition := SPosition t, crt := crt t\<rparr>" by blast
      have f: "CPosition t = CPosition s" "c_end t = c_end s" "color t = color s" "iflag t = iflag s" by (subst t(4), simp)+
      have "set_cursor_position (CPosition s) clean s = Inr (?reg (CPosition s) t)"
        using True False t(1) lt [of s] by (simp add: set_cursor_position_def screen_consts)
      with t(2,3) f True lo show ?thesis
        by (intro exI [of _ "?reg (CPosition s) t"]) (auto simp: reg sel)
    next
      case inside: False
      have "set_cursor_position (CPosition s) clean s = Inr (?reg (CPosition s) s)"
        using inside False lt [of s] by (simp add: set_cursor_position_def screen_consts)
      with w inside False show ?thesis
        by (intro exI [of _ "?reg (CPosition s) s"]) (auto simp: reg sel)
    qed
  qed
qed

section \<open>Events\<close>

datatype con_event = Put u8 | Arrow Arrow_t

fun con_step :: "con_event \<Rightarrow> 'a console_scheme \<Rightarrow> 'a console_scheme res" where
  "con_step (Put ch) s = console_put_char ch s"
| "con_step (Arrow a) s = keyboard_arrow a s"

text \<open>A backspace at the start of the video memory is the only event that is excluded.\<close>

definition may_step :: "con_event \<Rightarrow> 'a console_scheme \<Rightarrow> bool" where
  "may_step e s \<longleftrightarrow> \<not> (e = Put BACKSPASE \<and> CPosition s = 0)"

lemma put_char_ok:
  assumes ok: "con_ok s" and b: "\<not> (ch = BACKSPASE \<and> CPosition s = 0)"
  shows "\<exists>s'. console_put_char ch s = Inr s' \<and> con_ok s' \<and> iflag s' = iflag s \<and> color s' = color s"
proof -
  let ?s = "set_IF False s" and ?c = "uint (CPosition s)" and ?p = "uint (SPosition s)"
  note o = ok [unfolded con_ok_def window_ok_def]
  have fin: "\<exists>s'. rbind (set_cursor_position (CPosition t) clean t) (\<lambda>u. Inr (set_IF (iflag s) (u\<lparr>c_end := CPosition u\<rparr>))) = Inr s' \<and>
      con_ok s' \<and> iflag s' = iflag s \<and> color s' = color s"
    if t: "SPosition t = SPosition s" "length (vedio t) = 16384" "crt t = crt s" "color t = color s"
      "?p \<le> uint (CPosition t) + 80" "uint (CPosition t) < ?p + 2080" for t clean
  proof -
    have "window_ok t" using o t by (simp add: window_ok_def regs_ok_def get_screen_position_def)
    from set_cursor_ok [OF this, of clean] t obtain u where "set_cursor_position (CPosition t) clean t = Inr u" "window_ok u"
      "uint (SPosition u) \<le> uint (CPosition u)" "uint (CPosition u) < uint (SPosition u) + 2000"
      "get_cursor_position u = CPosition u" "color u = color s" by auto
    then show ?thesis
      by (simp add: con_ok_def window_ok_def regs_ok_def set_IF_def get_screen_position_def get_cursor_position_def)
  qed
  have c16: "?c < 16384" using o by linarith
  have put: "put_cell (unat (CPosition t)) v t = Inr (t\<lparr>vedio := (vedio t)[unat (CPosition t) := v]\<rparr>)"
    if "uint (CPosition t) < 16384" "length (vedio t) = 16384" for t :: "'a console_scheme" and v
  proof -
    have "unat (CPosition t) < 16384" using that(1) by (intro unat_lt) simp
    with that(2) show ?thesis by (simp add: put_cell_def)
  qed
  consider "ch = CLR_LF" | "ch = TABLE" | "ch = BACKSPASE" | "ch \<notin> {CLR_LF, TABLE, BACKSPASE}" by blast
  then show ?thesis
  proof cases
    case 1
    let ?n = "word_of_int (?c div SCREEN_ROW_COUNT + 1) :: u16" and ?q = "(?c div 80 + 1) * 80"
    have b: "?c < ?q" "?q \<le> ?c + 80" by (rule tab_int)+
    have "0 \<le> ?c div 80 + 1" "?c div 80 + 1 < 65536" using b c16 uint_nonnegative [of "CPosition s"] by linarith+
    then have q: "uint ?n = ?c div 80 + 1" unfolding SCREEN_ROW_COUNT_def by (rule u16_of_int)
    have "0 \<le> ?q" "?q < 65536" using b c16 uint_nonnegative [of "CPosition s"] by linarith+
    then have r: "uint (word_of_int ?q :: u16) = ?q" by (rule u16_of_int)
    have "uint ?n * SCREEN_ROW_COUNT = ?q" by (simp only: q) (simp only: SCREEN_ROW_COUNT_def)
    with r have "uint (word_of_int (uint ?n * SCREEN_ROW_COUNT) :: u16) = ?q" by (simp only:)
    with b 1 show ?thesis
      using fin [of "?s\<lparr>CPosition := word_of_int (uint ?n * SCREEN_ROW_COUNT)\<rparr>" True] o
      by (simp add: console_put_char_def get_and_disable_IF_def get_IF_def proc_lf_def Let_def set_IF_def)
  next
    case 2
    let ?q = "(?c + TABLE_SIZE) div TABLE_SIZE * TABLE_SIZE"
    have b: "?c < ?q" "?q \<le> ?c + 4" unfolding TABLE_SIZE_def by (rule tab_int)+
    have "0 \<le> ?q" "?q < 65536" using b c16 uint_nonnegative [of "CPosition s"] by linarith+
    then have "uint (word_of_int ?q :: u16) = ?q" by (rule u16_of_int)
    with b 2 show ?thesis
      using fin [of "?s\<lparr>CPosition := word_of_int ?q\<rparr>" True] o
      by (simp add: console_put_char_def get_and_disable_IF_def get_IF_def proc_table_def Let_def set_IF_def TABLE_def CLR_LF_def)
  next
    case 3
    with b have "?c \<noteq> 0" by (simp add: word_uint_eq_iff)
    then have "1 \<le> ?c" using uint_nonnegative [of "CPosition s"] by linarith
    from u16_sub [OF _ this] have u: "uint (CPosition s - 1) = ?c - 1" by simp
    with 3 show ?thesis
      using fin [of "?s\<lparr>CPosition := CPosition s - 1, vedio := (vedio s)[unat (CPosition s - 1) := BLANK]\<rparr>" False] o
        put [of "?s\<lparr>CPosition := CPosition s - 1\<rparr>" BLANK] c16
      by (simp add: console_put_char_def get_and_disable_IF_def get_IF_def Let_def set_IF_def TABLE_def CLR_LF_def BACKSPASE_def)
  next
    case 4
    have u: "uint (CPosition s + 1) = ?c + 1" using u16_add [of 1 "CPosition s"] c16 by simp
    with 4 show ?thesis
      using fin [of "?s\<lparr>vedio := (vedio s)[unat (CPosition s) := word_block (color s) ch], CPosition := CPosition s + 1\<rparr>" True] o
        put [of ?s "word_block (color s) ch"] c16
      by (simp add: console_put_char_def get_and_disable_IF_def get_IF_def Let_def set_IF_def)
  qed
qed

lemma arrow_ok:
  assumes ok: "con_ok s"
  shows "\<exists>s'. keyboard_arrow a s = Inr s' \<and> con_ok s'"
proof -
  let ?c = "uint (CPosition s)" and ?p = "uint (SPosition s)"
  note o = ok [unfolded con_ok_def]
  have fin: "\<exists>s'. set_cursor_position (CPosition t) False t = Inr s' \<and> con_ok s'"
    if t: "t = s\<lparr>CPosition := c\<rparr>" "?p \<le> uint c + 80" "uint c < ?p + 2080" "uint c \<le> uint (c_end s)" for t c
  proof -
    have "window_ok t" using o by (simp add: t(1) window_ok_def regs_ok_def get_screen_position_def)
    from set_cursor_ok [OF this, of False] t obtain u where u: "set_cursor_position (CPosition t) False t = Inr u" "window_ok u"
      "uint (SPosition u) \<le> uint (CPosition u)" "uint (CPosition u) < uint (SPosition u) + 2000"
      "get_cursor_position u = CPosition u" "CPosition u = CPosition t \<and> c_end u = c_end t \<or> c_end u = CPosition u" by auto
    then have "uint (CPosition u) \<le> uint (c_end u)" using t(1,4) by auto
    with u show ?thesis by (simp add: con_ok_def)
  qed
  have c16: "?c < 16384" using o by (simp add: window_ok_def)
  show ?thesis
  proof (cases a)
    case UP
    have "uint (CPosition s - 80) = ?c - 80" if "80 \<le> ?c" using u16_sub [OF _ that] by simp
    with UP show ?thesis
      using fin [of "s\<lparr>CPosition := CPosition s - 80\<rparr>" "CPosition s - 80"] o ok
      by (auto simp: keyboard_arrow_def Let_def SCREEN_ROW_COUNT_def)
  next
    case DOWN
    have "uint (CPosition s + 80) = ?c + 80" using u16_add [of 80 "CPosition s"] c16 by simp
    with DOWN show ?thesis
      using fin [of "s\<lparr>CPosition := CPosition s + 80\<rparr>" "CPosition s + 80"]
        fin [of "s\<lparr>CPosition := c_end s\<rparr>" "c_end s"] o
      by (auto simp: keyboard_arrow_def Let_def SCREEN_ROW_COUNT_def)
  next
    case LEFT
    have "uint (CPosition s - 1) = ?c - 1" if "1 \<le> ?c" using u16_sub [OF _ that] by simp
    with LEFT show ?thesis
      using fin [of "s\<lparr>CPosition := CPosition s - 1\<rparr>" "CPosition s - 1"] o ok
      by (auto simp: keyboard_arrow_def Let_def)
  next
    case RIGHT
    have "uint (CPosition s + 1) = ?c + 1" using u16_add [of 1 "CPosition s"] c16 by simp
    with RIGHT show ?thesis
      using fin [of "s\<lparr>CPosition := CPosition s + 1\<rparr>" "CPosition s + 1"] o ok
      by (auto simp: keyboard_arrow_def Let_def)
  qed
qed

lemma console_clean_ok:
  assumes "length (vedio s) = 16384"
  shows "\<exists>s'. console_clean s = Inr s' \<and> con_ok s' \<and> CPosition s' = 0"
proof -
  let ?s = "s\<lparr>CPosition := 0, SPosition := 0, color := WORD_TYPE_DEFAULT, c_end := 0\<rparr>"
  have fill: "\<exists>v. for_each (\<lambda>i s. put_cell i BLANK s) is t = Inr (t\<lparr>vedio := v\<rparr>) \<and> length v = length (vedio t)"
    if "\<And>i. i \<in> set is \<Longrightarrow> i < length (vedio t)" for "is" and t :: "'a console_scheme"
    using that
  proof (induction "is" arbitrary: t)
    case Nil
    then show ?case by (intro exI [of _ "vedio t"]) simp
  next
    case (Cons i "is")
    let ?t = "t\<lparr>vedio := (vedio t)[i := BLANK]\<rparr>"
    have "put_cell i BLANK t = Inr ?t" using Cons.prems [of i] by (simp add: put_cell_def)
    with Cons.IH [of ?t] Cons.prems show ?case by auto
  qed
  from set_screen_ok [of 0 ?s] obtain s1 where s1: "set_screen_position 0 ?s = Inr s1" "get_screen_position s1 = 0"
    "s1 = ?s\<lparr>crt := crt s1\<rparr>" by auto
  have f1: "CPosition s1 = 0" "SPosition s1 = 0" "c_end s1 = 0" "vedio s1 = vedio s" by (subst s1(3), simp)+
  have "window_ok s1" using assms s1(2) f1 by (simp add: window_ok_def regs_ok_def)
  from set_cursor_ok [OF this, of False] f1 obtain s2 where s2: "set_cursor_position (CPosition s1) False s1 = Inr s2" "window_ok s2"
    "get_cursor_position s2 = CPosition s2" "CPosition s2 = 0" "SPosition s2 = 0" by auto
  from fill [of "[0..<nat FULL_SCREEN_SIZE]" s2] s2(2) obtain v where
    v: "for_each (\<lambda>i s. put_cell i BLANK s) [0..<nat FULL_SCREEN_SIZE] s2 = Inr (s2\<lparr>vedio := v\<rparr>)" "length v = 16384"
    by (auto simp: window_ok_def screen_consts)
  have "console_clean s = Inr (s2\<lparr>vedio := v\<rparr>)" using s1(1) s2(1) v(1) by (simp add: console_clean_def)
  moreover have "con_ok (s2\<lparr>vedio := v\<rparr>)"
    using s2 v(2) by (simp add: con_ok_def window_ok_def regs_ok_def get_screen_position_def get_cursor_position_def)
  ultimately show ?thesis using s2(4) by auto
qed

lemma con_step_ok: "con_ok s \<Longrightarrow> may_step e s \<Longrightarrow> \<exists>s'. con_step e s = Inr s' \<and> con_ok s'"
  using put_char_ok [of s] arrow_ok [of s] by (cases e) (auto simp: may_step_def)

fun legal :: "con_event list \<Rightarrow> 'a console_scheme \<Rightarrow> bool" where
  "legal [] s = True"
| "legal (e # es) s = (may_step e s \<and> (case con_step e s of Inl _ \<Rightarrow> True | Inr s' \<Rightarrow> legal es s'))"

section \<open>Text\<close>

definition plain :: "char \<Rightarrow> bool" where
  "plain c \<longleftrightarrow> c \<noteq> CHR 0x00 \<and> c \<noteq> CHR 0x1B \<and> (of_char c :: u8) \<notin> {CLR_LF, TABLE, BACKSPASE}"

lemma put_plain:
  assumes ok: "con_ok s" and ch: "ch \<notin> {CLR_LF, TABLE, BACKSPASE}" and room: "uint (CPosition s) + 1 < uint (SPosition s) + 2000"
  shows "\<exists>s'. console_put_char ch s = Inr s' \<and> con_ok s' \<and> iflag s' = iflag s \<and> color s' = color s \<and>
    CPosition s' = CPosition s + 1 \<and> SPosition s' = SPosition s \<and>
    vedio s' = (vedio s)[unat (CPosition s) := word_block (color s) ch]"
proof -
  let ?t = "(set_IF False s)\<lparr>vedio := (vedio s)[unat (CPosition s) := word_block (color s) ch], CPosition := CPosition s + 1\<rparr>"
  note o = ok [unfolded con_ok_def window_ok_def]
  from put_char_ok [OF ok, of ch] ch obtain s' where s': "console_put_char ch s = Inr s'" "con_ok s'" "iflag s' = iflag s"
    "color s' = color s" by auto
  have c: "unat (CPosition s) < 16384" using o by (intro unat_lt) simp
  have u: "uint (CPosition s + 1) = uint (CPosition s) + 1" using u16_add [of 1 "CPosition s"] o by simp
  have "window_ok ?t" using o by (simp add: window_ok_def regs_ok_def get_screen_position_def set_IF_def)
  from set_cursor_ok [OF this, of True] o u room obtain v where v: "set_cursor_position (CPosition ?t) True ?t = Inr v"
    "vedio v = vedio ?t" "SPosition v = SPosition s" "CPosition v = CPosition s + 1" by (auto simp: set_IF_def)
  have "console_put_char ch s = Inr (set_IF (iflag s) (v\<lparr>c_end := CPosition v\<rparr>))"
    using ch o c v(1) by (simp add: console_put_char_def get_and_disable_IF_def get_IF_def put_cell_def set_IF_def Let_def)
  with s' v show ?thesis by (auto simp: set_IF_def)
qed

lemma put_string_plain:
  "con_ok s \<Longrightarrow> \<forall>c \<in> set w. plain c \<Longrightarrow> int (length w) \<le> count \<Longrightarrow> uint (CPosition s) + int (length w) < uint (SPosition s) + 2000 \<Longrightarrow>
    \<exists>s'. put_string_loop (w @ [CHR 0x00]) count s = Some (Inr s') \<and> con_ok s' \<and> iflag s' = iflag s \<and>
      CPosition s' = CPosition s + word_of_nat (length w) \<and> SPosition s' = SPosition s \<and>
      (\<forall>k. vedio s' ! k = (if unat (CPosition s) \<le> k \<and> k < unat (CPosition s) + length w
         then word_block (color s) (of_char (w ! (k - unat (CPosition s)))) else vedio s ! k))"
proof (induction w arbitrary: s count)
  case Nil
  then show ?case by (subst put_string_loop.simps) auto
next
  case (Cons c w)
  have p: "plain c" using Cons.prems by simp
  from put_plain [OF Cons.prems(1), of "of_char c"] p Cons.prems(4) obtain s1 where
    s1: "console_put_char (of_char c) s = Inr s1" "con_ok s1" "iflag s1 = iflag s" "color s1 = color s"
      "CPosition s1 = CPosition s + 1" "SPosition s1 = SPosition s"
      "vedio s1 = (vedio s)[unat (CPosition s) := word_block (color s) (of_char c)]"
    by (auto simp: plain_def)
  note o = Cons.prems(1) [unfolded con_ok_def window_ok_def]
  have u: "uint (CPosition s1) = uint (CPosition s) + 1" using u16_add [of 1 "CPosition s"] o s1(5) by simp
  then have "int (unat (CPosition s1)) = int (unat (CPosition s)) + 1" by (simp only: uint_nat)
  then have n: "unat (CPosition s1) = unat (CPosition s) + 1" by linarith
  have l: "unat (CPosition s) < length (vedio s)" using o unat_lt [of "CPosition s" 16384] by simp
  have room: "uint (CPosition s1) + int (length w) < uint (SPosition s1) + 2000" using Cons.prems(4) u s1(6) by simp
  have "\<forall>c \<in> set w. plain c" "int (length w) \<le> count - 1" using Cons.prems(2,3) by simp_all
  from Cons.IH [OF s1(2) this room] obtain s2 where
    s2: "put_string_loop (w @ [CHR 0x00]) (count - 1) s1 = Some (Inr s2)" "con_ok s2" "iflag s2 = iflag s1"
      "CPosition s2 = CPosition s1 + word_of_nat (length w)" "SPosition s2 = SPosition s1"
      "\<forall>k. vedio s2 ! k = (if unat (CPosition s1) \<le> k \<and> k < unat (CPosition s1) + length w
         then word_block (color s1) (of_char (w ! (k - unat (CPosition s1)))) else vedio s1 ! k)" by blast
  have esc: "skip_escapes ((c # w) @ [CHR 0x00]) (color s) = Some (Inr ((c # w) @ [CHR 0x00], color s))"
    using p by (subst skip_escapes.simps) (simp add: plain_def)
  have "put_string_loop ((c # w) @ [CHR 0x00]) count s = put_string_loop (w @ [CHR 0x00]) (count - 1) s1"
    using p Cons.prems(3) s1(1) by (subst put_string_loop.simps) (simp add: plain_def esc [simplified])
  moreover have "vedio s2 ! k = (if unat (CPosition s) \<le> k \<and> k < unat (CPosition s) + length (c # w)
         then word_block (color s) (of_char ((c # w) ! (k - unat (CPosition s)))) else vedio s ! k)" for k
    using s2(6) l by (cases "k = unat (CPosition s)") (auto simp: n s1(4,7) nth_Cons' Suc_diff_le)
  ultimately show ?case
    using s2(1-5) s1 by (intro exI [of _ s2]) (simp add: ac_simps)
qed

lemma skip_escapes_hangs:
  assumes "color_proc (CHR 0x1B # CHR ''['' # r) col = Inr (CHR 0x1B # CHR ''['' # r, col)"
  shows "skip_escapes (CHR 0x1B # CHR ''['' # r) col = None"
proof -
  have "skip_escapes str c = Some v \<Longrightarrow> str \<noteq> CHR 0x1B # CHR ''['' # r \<or> c \<noteq> col" for str c v
    by (erule skip_escapes.raw_induct [rotated]) (use assms in fastforce)
  then show ?thesis by (cases "skip_escapes (CHR 0x1B # CHR ''['' # r) col") auto
qed

lemma color_chars_code: "CHR '']'' \<notin> set code \<Longrightarrow> i + length code \<le> 8 \<Longrightarrow>
    color_chars i (code @ CHR '']'' # rest) = Inr (code, CHR '']'' # rest)"
  by (induction code arbitrary: i) auto

section \<open>Properties\<close>

text \<open>
  C24: after \<^verbatim>\<open>console_clean\<close> no sequence of characters and arrow keys, other than a backspace at
  the very first position, stops the kernel or writes outside the video memory, and the
  cursor stays inside the visible window, where the controller shows it.
\<close>

theorem console_stays_in_window:
  assumes "length (vedio s) = 16384" "console_clean s = Inr s0" "legal es s0"
  shows "\<exists>s'. for_each con_step es s0 = Inr s' \<and> con_ok s'"
proof -
  from console_clean_ok [OF assms(1)] assms(2) have "con_ok s0" by auto
  then show ?thesis
    using assms(3)
  proof (induction es arbitrary: s0)
    case (Cons e es)
    then obtain s1 where "con_step e s0 = Inr s1" "con_ok s1" using con_step_ok [of s0 e] by auto
    with Cons show ?case by simp
  qed simp
qed

text \<open>
  a backspace at the start of the video memory writes outside it.
\<close>

theorem backspace_at_start_faults:
  assumes "length (vedio s) \<le> 65535" "CPosition s = 0"
  shows "console_put_char BACKSPASE s = Inl Fault"
proof -
  have "unat (- 1 :: u16) = 65535" by (simp add: unsigned_minus_1_eq_mask mask_eq_exp_minus_1)
  with assms show ?thesis
    by (simp add: console_put_char_def get_and_disable_IF_def set_IF_def Let_def put_cell_def arr_set_def TABLE_def CLR_LF_def BACKSPASE_def)
qed

text \<open>
  C29: text without control characters that fits into the window appears in the video memory at
  the cursor, character by character in the current colour; nothing else changes, the
  cursor ends behind it and the interrupt flag is as before.
\<close>

theorem console_prints_text:
  assumes "con_ok s" "\<forall>c \<in> set w. plain c" "int (length w) \<le> count"
    "uint (CPosition s) + int (length w) < uint (SPosition s) + 2000"
  shows "\<exists>s'. console_put_string (w @ [CHR 0x00]) count s = Inr s' \<and> con_ok s' \<and> iflag s' = iflag s \<and>
    CPosition s' = CPosition s + word_of_nat (length w) \<and> SPosition s' = SPosition s \<and> color s' = WORD_TYPE_DEFAULT \<and>
    (\<forall>k. vedio s' ! k = (if unat (CPosition s) \<le> k \<and> k < unat (CPosition s) + length w
       then word_block (color s) (of_char (w ! (k - unat (CPosition s)))) else vedio s ! k))"
proof -
  have ok: "con_ok (set_IF b t) = con_ok t" "con_ok (t\<lparr>color := c\<rparr>) = con_ok t" for b c and t :: "'a console_scheme"
    by (simp_all add: con_ok_def window_ok_def regs_ok_def get_screen_position_def get_cursor_position_def set_IF_def)
  have f: "CPosition (set_IF False s) = CPosition s" "SPosition (set_IF False s) = SPosition s"
    "vedio (set_IF False s) = vedio s" "color (set_IF False s) = color s" by (simp_all add: set_IF_def)
  from assms(1) have "con_ok (set_IF False s)" by (simp only: ok)
  from put_string_plain [OF this assms(2,3), unfolded f, OF assms(4)] obtain s' where
    "put_string_loop (w @ [CHR 0x00]) count (set_IF False s) = Some (Inr s')" "con_ok s'"
    "CPosition s' = CPosition s + word_of_nat (length w)" "SPosition s' = SPosition s"
    "\<forall>k. vedio s' ! k = (if unat (CPosition s) \<le> k \<and> k < unat (CPosition s) + length w
       then word_block (color s) (of_char (w ! (k - unat (CPosition s)))) else vedio s ! k)"
    by blast
  then show ?thesis
    by (intro exI [of _ "set_IF (iflag s) (s'\<lparr>color := WORD_TYPE_DEFAULT\<rparr>)"])
      (simp add: console_put_string_def get_and_disable_IF_def get_IF_def ok, simp add: set_IF_def)
qed

text \<open>
  an escape sequence whose first number is not 0, 1, 2 or 5 makes \<^verbatim>\<open>console_put_string\<close> loop
  for ever, with interrupts off.
\<close>

theorem unknown_escape_hangs:
  assumes "CHR '']'' \<notin> set code" "length code < 8" "skip_atoi (code @ [CHR 0x00]) = Inr (g, p)"
    "(word_of_int g :: u8) \<notin> {0, 1, 2, 5}" "count \<noteq> 0"
  shows "console_put_string (CHR 0x1B # CHR ''['' # code @ CHR '']'' # rest) count s = Inl Hang"
proof -
  let ?r = "code @ CHR '']'' # rest"
  have "color_proc (CHR 0x1B # CHR ''['' # ?r) col = Inr (CHR 0x1B # CHR ''['' # ?r, col)" for col
    using assms color_chars_code [OF assms(1), of 0 rest] by (simp add: color_proc_def gen_color_def)
  from skip_escapes_hangs [OF this] have "put_string_loop (CHR 0x1B # CHR ''['' # ?r) count t = Some (Inl Hang)" for t :: "'a console_scheme"
    using assms(5) by (subst put_string_loop.simps) simp
  then show ?thesis by (simp add: console_put_string_def get_and_disable_IF_def)
qed

section \<open>Examples\<close>

definition ex_con :: console where
  "ex_con = \<lparr>iflag = True, cr3 = 0, CPosition = 5, SPosition = 3, color = 0, c_end = 0, vedio = replicate 16384 0, crt = (\<lambda>_. 0)\<rparr>"

lemma ex_con_clean: "\<exists>s0. console_clean ex_con = Inr s0 \<and> con_ok s0 \<and> CPosition s0 = 0"
  by (rule console_clean_ok) (simp add: ex_con_def)

lemma legal_no_backspace: "Put BACKSPASE \<notin> set es \<Longrightarrow> legal es s"
  by (induction es arbitrary: s) (auto simp: may_step_def split: sum.splits)

theorem console_stays_in_window_witness:
  "\<exists>s0 s'. console_clean ex_con = Inr s0 \<and> for_each con_step (replicate 3000 (Put 65) @ [Put 10, Put 9, Arrow UP, Arrow LEFT]) s0 = Inr s' \<and>
     con_ok s'"
proof -
  let ?es = "replicate 3000 (Put 65) @ [Put 10, Put 9, Arrow UP, Arrow LEFT]"
  from ex_con_clean obtain s0 where s0: "console_clean ex_con = Inr s0" by blast
  have "length (vedio ex_con) = 16384" by (simp add: ex_con_def)
  moreover have "legal ?es s0" by (rule legal_no_backspace) (simp add: BACKSPASE_def)
  ultimately show ?thesis using console_stays_in_window [OF _ s0, of ?es] s0 by blast
qed

theorem backspace_at_start_faults_witness:
  "\<exists>s0. console_clean ex_con = Inr s0 \<and> console_put_char BACKSPASE s0 = Inl Fault"
proof -
  from ex_con_clean obtain s0 where "console_clean ex_con = Inr s0" "con_ok s0" "CPosition s0 = 0" by blast
  with backspace_at_start_faults [of s0] show ?thesis by (auto simp: con_ok_def window_ok_def)
qed

theorem console_prints_text_witness:
  "\<exists>s0 s'. console_clean ex_con = Inr s0 \<and> console_put_string (''RDIX'' @ [CHR 0x00]) 10 s0 = Inr s' \<and>
     CPosition s' = 4 \<and> vedio s' ! 3 = word_block (color s0) 0x58"
proof -
  from ex_con_clean obtain s0 where s0: "console_clean ex_con = Inr s0" "con_ok s0" "CPosition s0 = 0" by blast
  have "\<forall>c \<in> set ''RDIX''. plain c" by (simp add: plain_def CLR_LF_def TABLE_def BACKSPASE_def)
  from console_prints_text [OF s0(2) this, of 10] s0 show ?thesis
    by (force simp: con_ok_def window_ok_def)
qed

theorem unknown_escape_hangs_witness:
  "console_put_string ([CHR 0x1B, CHR ''['', CHR ''9'', CHR '']'', CHR ''x'', CHR 0x00]) 6 ex_con = Inl Hang"
proof -
  have "skip_atoi (''9'' @ [CHR 0x00]) = Inr (9, [CHR 0x00])" by code_simp
  from unknown_escape_hangs [OF _ _ this, of 6 "[CHR ''x'', CHR 0x00]" ex_con] show ?thesis by simp
qed

end
