(* ===== verification/Char_Queue.thy ===== *)
theory Char_Queue
  imports Contracts
begin

text \<open>
  The character ring of \<^verbatim>\<open>kernel/queue.c\<close>, the buffer between the keyboard interrupt and
  its readers. The slot at \<^verbatim>\<open>head\<close> is never occupied, so a ring of \<^verbatim>\<open>size\<close> slots holds
  \<open>size - 1\<close> characters. It is an instance of the FIFO contract.
\<close>

section \<open>Data and operations\<close>

record que_char_t =
  q_head :: u32
  q_tail :: u32
  q_size :: u32
  q_que :: "u8 list"

text \<open>\<open>buf\<close> is the block \<^verbatim>\<open>malloc(size)\<close> returned, whatever it holds.\<close>

definition new_char_que :: "u32 \<Rightarrow> u8 list \<Rightarrow> que_char_t" where
  "new_char_que sz buf = \<lparr>q_head = 0, q_tail = 1, q_size = sz, q_que = buf\<rparr>"

definition que_isempty :: "que_char_t \<Rightarrow> bool" where
  "que_isempty que = ((q_head que + 1) mod q_size que = q_tail que)"

definition que_isfull :: "que_char_t \<Rightarrow> bool" where
  "que_isfull que = (q_head que = q_tail que)"

definition que_push :: "que_char_t \<Rightarrow> u8 \<Rightarrow> que_char_t res" where
  "que_push que v =
     rbind (ensure (\<not> que_isfull que) Assert) (\<lambda>_.
     rbind (arr_set (q_que que) (unat (q_tail que)) v) (\<lambda>b.
     Inr (que\<lparr>q_que := b, q_tail := (q_tail que + 1) mod q_size que\<rparr>)))"

definition que_pop :: "que_char_t \<Rightarrow> (u8 \<times> que_char_t) res" where
  "que_pop que =
     rbind (ensure (\<not> que_isempty que) Assert) (\<lambda>_.
     let que = que\<lparr>q_head := (q_head que + 1) mod q_size que\<rparr> in
     rbind (arr_get (q_que que) (unat (q_head que))) (\<lambda>c. Inr (c, que)))"

section \<open>The queue a ring holds\<close>

definition que_rep :: "nat \<Rightarrow> que_char_t \<Rightarrow> u8 list \<Rightarrow> bool" where
  "que_rep n q xs \<longleftrightarrow> 2 \<le> n \<and> unat (q_size q) = n \<and> length (q_que q) = n \<and>
     unat (q_head q) < n \<and> length xs < n \<and>
     unat (q_tail q) = (unat (q_head q) + 1 + length xs) mod n \<and>
     (\<forall>i < length xs. q_que q ! ((unat (q_head q) + 1 + i) mod n) = xs ! i)"

lemma mod_add_cancel_less: "(h + a) mod n = (h + b) mod n \<longleftrightarrow> a = b" if "a < n" "b < n" for h a b n :: nat
proof
  assume "(h + a) mod n = (h + b) mod n"
  then have "a mod n = b mod n"
    by (simp add: nat_mod_eq_iff)
  with that show "a = b" by simp
qed simp

lemma unat_ring_next:
  fixes x s :: u32
  assumes "unat s = n" "unat x < n"
  shows "unat ((x + 1) mod s) = (unat x + 1) mod n"
proof -
  have "x < s" using assms by (simp add: word_less_nat_alt)
  then show ?thesis by (simp add: unat_mod unat_plus_one assms)
qed

lemma que_rep_empty: "que_rep n q xs \<Longrightarrow> que_isempty q \<longleftrightarrow> xs = []"
proof -
  assume r: "que_rep n q xs"
  then have "que_isempty q \<longleftrightarrow> (unat (q_head q) + 1 + 0) mod n = (unat (q_head q) + 1 + length xs) mod n"
    by (simp add: que_rep_def que_isempty_def unat_ring_next word_unat_eq_iff)
  with r show ?thesis
    using mod_add_cancel_less [of 0 n "length xs" "unat (q_head q) + 1"] by (auto simp: que_rep_def)
qed

lemma que_rep_full: "que_rep n q xs \<Longrightarrow> que_isfull q \<longleftrightarrow> Suc (length xs) = n"
proof -
  assume r: "que_rep n q xs"
  then have "que_isfull q \<longleftrightarrow> unat (q_head q) mod n = (unat (q_head q) + 1 + length xs) mod n"
    by (simp add: que_rep_def que_isfull_def word_unat_eq_iff)
  also have "\<dots> \<longleftrightarrow> (unat (q_head q) + 1 + (n - 1)) mod n = (unat (q_head q) + 1 + length xs) mod n"
    using r by (simp add: que_rep_def)
  finally show ?thesis
    using r mod_add_cancel_less [of "n - 1" n "length xs" "unat (q_head q) + 1"] by (auto simp: que_rep_def)
qed

lemma que_push_rep:
  assumes r: "que_rep n q xs" and room: "Suc (length xs) < n"
  shows "\<exists>q'. que_push q v = Inr q' \<and> que_rep n q' (xs @ [v])"
proof -
  let ?t = "unat (q_tail q)" and ?h = "unat (q_head q)"
  have t: "?t < n" "?t = (?h + 1 + length xs) mod n" using r by (auto simp: que_rep_def)
  have "?t \<noteq> (?h + 1 + i) mod n" if "i < length xs" for i
    using mod_add_cancel_less [of i n "length xs" "?h + 1"] that t room by simp
  moreover have "((?h + 1 + length xs) mod n + 1) mod n = (?h + 1 + Suc (length xs)) mod n"
    by (simp add: mod_simps ac_simps)
  ultimately have "que_rep n (q\<lparr>q_que := (q_que q)[?t := v], q_tail := (q_tail q + 1) mod q_size q\<rparr>) (xs @ [v])"
    using r t room by (auto simp: que_rep_def unat_ring_next nth_append less_Suc_eq nth_list_update_neq)
  then show ?thesis
    using r t room que_rep_full [OF r] by (simp add: que_push_def que_rep_def)
qed

lemma que_pop_rep:
  assumes r: "que_rep n q (x # xs)"
  shows "\<exists>q'. que_pop q = Inr (x, q') \<and> que_rep n q' xs"
proof -
  let ?h = "unat (q_head q)"
  have h: "unat ((q_head q + 1) mod q_size q) = (?h + 1) mod n"
    using r by (simp add: que_rep_def unat_ring_next)
  have x: "q_que q ! ((?h + 1) mod n) = x"
    using r unfolding que_rep_def by (metis add.right_neutral length_greater_0_conv list.simps(3) nth_Cons_0)
  have "((?h + 1) mod n + 1 + i) mod n = (?h + 1 + Suc i) mod n" for i
    using mod_add_left_eq [of "?h + 1" n "1 + i"] by (simp add: ac_simps)
  moreover have "\<forall>i < length xs. q_que q ! ((?h + 1 + Suc i) mod n) = xs ! i"
    using r by (auto simp: que_rep_def)
  ultimately have "que_rep n (q\<lparr>q_head := (q_head q + 1) mod q_size q\<rparr>) xs"
    using r h by (simp add: que_rep_def)
  then show ?thesis
    using r h x que_rep_empty [OF r] by (auto simp: que_pop_def Let_def que_rep_def)
qed

lemma new_char_que_rep:
  "2 \<le> unat sz \<Longrightarrow> length buf = unat sz \<Longrightarrow> que_rep (unat sz) (new_char_que sz buf) []"
  by (simp add: que_rep_def new_char_que_def)

text \<open>What a reader does: take a character if there is one.\<close>

definition que_take :: "que_char_t \<Rightarrow> (u8 option \<times> que_char_t) res" where
  "que_take q = (if que_isempty q then Inr (None, q)
     else rbind (que_pop q) (\<lambda>(c, q). Inr (Some c, q)))"

interpretation ring: fifo que_push que_take "que_rep n" "\<lambda>_ _. True" "\<lambda>_ _. True" "n - 1" for n
proof
  fix q xs x assume "que_rep n q xs" "length xs < n - 1"
  then show "\<exists>q'. que_push q x = Inr q' \<and> que_rep n q' (xs @ [x]) \<and> (\<forall>y. True \<longrightarrow> True \<longrightarrow> True)"
    using que_push_rep [of n q xs x] by auto
next
  fix q x xs assume "que_rep n q (x # xs)"
  then show "\<exists>q'. que_take q = Inr (Some x, q') \<and> que_rep n q' xs \<and> True \<and> (\<forall>y. True \<longrightarrow> True)"
    using que_pop_rep [of n q x xs] que_rep_empty [of n q "x # xs"] by (auto simp: que_take_def)
qed (simp add: que_take_def que_rep_empty)

section \<open>Properties\<close>

text \<open>
  A new ring of \<open>size\<close> slots takes \<open>size - 1\<close> characters without failing and gives
  them back in order, wrapping indices included; after that it is empty.
\<close>

theorem char_que_in_order:
  assumes "2 \<le> unat sz" "length buf = unat sz" "length cs \<le> unat sz - 1"
  shows "\<exists>q q'. enq_all que_push (new_char_que sz buf) cs = Inr q \<and>
     deq_n que_take (length cs) q = Inr (map Some cs, q') \<and> que_isempty q'"
proof -
  have "sorted_wrt (\<lambda>_ _. True) cs" by (induction cs) auto
  with ring.drained_in_order [OF new_char_que_rep [OF assms(1,2)], of cs] assms(3)
  show ?thesis by (auto simp: que_rep_empty)
qed

text \<open>
  A full ring, and only a full ring, refuses a character, by the assertion of
  \<^verbatim>\<open>que_push\<close>; an empty ring, and only an empty one, refuses \<^verbatim>\<open>que_pop\<close>. A ring that holds
  \<open>size - 1\<close> characters is full.
\<close>

theorem char_que_bounds:
  assumes "que_rep n q xs"
  shows "(que_push q c = Inl Assert \<longleftrightarrow> Suc (length xs) = n) \<and> (que_pop q = Inl Assert \<longleftrightarrow> xs = [])"
proof
  show "que_push q c = Inl Assert \<longleftrightarrow> Suc (length xs) = n"
  proof (cases "Suc (length xs) = n")
    case True
    then show ?thesis using que_rep_full [OF assms] by (simp add: que_push_def)
  next
    case False
    moreover have "Suc (length xs) \<le> n" using assms by (simp add: que_rep_def)
    ultimately show ?thesis using que_push_rep [OF assms, of c] by auto
  qed
  show "que_pop q = Inl Assert \<longleftrightarrow> xs = []"
    using que_rep_empty [OF assms] que_pop_rep [of n q] assms by (cases xs) (auto simp: que_pop_def)
qed

theorem char_que_in_order_witness:
  "\<exists>q q'. enq_all que_push (new_char_que 3 [0, 0, 0]) [65, 66] = Inr q \<and>
     deq_n que_take (length [65, 66 :: u8]) q = Inr ([Some 65, Some 66], q') \<and> que_isempty q'"
  using char_que_in_order [of 3 "[0, 0, 0]" "[65, 66]"] by simp

theorem char_que_bounds_witness:
  "que_pop (new_char_que 4 [0, 0, 0, 0]) = Inl Assert"
  using char_que_bounds [OF new_char_que_rep [of 4 "[0, 0, 0, 0]"]] by simp

end
