(* ===== verification/Keyboard.thy ===== *)
theory Keyboard
  imports Mutex Console_Theorems Char_Queue
begin

text \<open>
  The keyboard of \<^verbatim>\<open>kernel/keyboard.c\<close>: the interrupt handler turns scan codes into characters
  and puts them into the ring, from which \<^verbatim>\<open>keyboard_read\<close> takes them. The console is a field of
  the state for the arrow keys. The end-of-interrupt signal has no state here. A reader that
  must wait is suspended in \<^verbatim>\<open>mutex_lock\<close> or \<^verbatim>\<open>block\<close>; \<open>keyboard_resume\<close> is what it does when it
  runs again.
\<close>

section \<open>State\<close>

definition INV :: u8 where "INV = 0"
definition KEY_BUF_SIZE :: u32 where "KEY_BUF_SIZE = 256"
definition KEY_SHIFT_L :: nat where "KEY_SHIFT_L = 0x2A"
definition KEY_SHIFT_R :: nat where "KEY_SHIFT_R = 0x36"
definition KEY_CAPSLOCK :: nat where "KEY_CAPSLOCK = 0x3A"
definition KEY_PAD_8 :: nat where "KEY_PAD_8 = 0x48"
definition KEY_PAD_4 :: nat where "KEY_PAD_4 = 0x4B"
definition KEY_PAD_6 :: nat where "KEY_PAD_6 = 0x4D"
definition KEY_PAD_2 :: nat where "KEY_PAD_2 = 0x50"
definition KEY_PRINT_SCREEN :: nat where "KEY_PRINT_SCREEN = 0x5F"

lemmas key_consts = KEY_SHIFT_L_def KEY_SHIFT_R_def KEY_CAPSLOCK_def KEY_PAD_8_def KEY_PAD_4_def
  KEY_PAD_6_def KEY_PAD_2_def KEY_PRINT_SCREEN_def

text \<open>The first two columns of \<^verbatim>\<open>keymap\<close>; the other two say whether the key is down.\<close>

definition key_chars :: "(u8 \<times> u8) list" where
  "key_chars = [(0, 0), (27, 27), (49, 33), (50, 64), (51, 35), (52, 36), (53, 37), (54, 94),
     (55, 38), (56, 42), (57, 40), (48, 41), (45, 95), (61, 43), (8, 8), (9, 9), (113, 81),
     (119, 87), (101, 69), (114, 82), (116, 84), (121, 89), (117, 85), (105, 73), (111, 79),
     (112, 80), (91, 123), (93, 125), (10, 10), (0, 0), (97, 65), (115, 83), (100, 68), (102, 70),
     (103, 71), (104, 72), (106, 74), (107, 75), (108, 76), (59, 58), (39, 34), (96, 126), (0, 0),
     (92, 124), (122, 90), (120, 88), (99, 67), (118, 86), (98, 66), (110, 78), (109, 77),
     (44, 60), (46, 62), (47, 63), (0, 0), (42, 42), (0, 0), (32, 32), (0, 0), (0, 0), (0, 0),
     (0, 0), (0, 0), (0, 0), (0, 0), (0, 0), (0, 0), (0, 0), (0, 0), (0, 0), (0, 0), (55, 0),
     (56, 0), (57, 0), (45, 45), (52, 0), (53, 0), (54, 0), (43, 43), (49, 0), (50, 0), (51, 0),
     (48, 0), (46, 127), (0, 0), (0, 0), (0, 0), (0, 0), (0, 0), (0, 0), (0, 0), (0, 0), (0, 0),
     (0, 0), (0, 0), (0, 0)]"

definition keymap_init :: "u8 list list" where
  "keymap_init = map (\<lambda>(a, b). [a, b, 0, 0]) key_chars"

record kbd = kernel +
  keymap :: "u8 list list"
  key_buf :: que_char_t
  kb_waiter :: nat
  kb_lock :: mutex_t
  capslock_state :: bool
  extcode_state :: bool
  screen :: console

definition get_key :: "nat \<Rightarrow> nat \<Rightarrow> 'a kbd_scheme \<Rightarrow> u8 res" where
  "get_key i j s = rbind (arr_get (keymap s) i) (\<lambda>row. arr_get row j)"

definition set_key :: "nat \<Rightarrow> nat \<Rightarrow> u8 \<Rightarrow> 'a kbd_scheme \<Rightarrow> 'a kbd_scheme res" where
  "set_key i j v s =
     rbind (arr_get (keymap s) i) (\<lambda>row.
     rbind (arr_set row j v) (\<lambda>row.
     Inr (s\<lparr>keymap := (keymap s)[i := row]\<rparr>)))"

definition shift_state :: "'a kbd_scheme \<Rightarrow> bool res" where
  "shift_state s =
     rbind (get_key KEY_SHIFT_L 2 s) (\<lambda>l. if l \<noteq> 0 then Inr True else
     rbind (get_key KEY_SHIFT_R 2 s) (\<lambda>r. Inr (r \<noteq> 0)))"

section \<open>The interrupt handler\<close>

definition on_screen :: "(console \<Rightarrow> console res) \<Rightarrow> 'a kbd_scheme \<Rightarrow> 'a kbd_scheme res" where
  "on_screen f s = rbind (f (screen s)) (\<lambda>c. Inr (s\<lparr>screen := c\<rparr>))"

definition key_arrow :: "nat \<Rightarrow> 'a kbd_scheme \<Rightarrow> 'a kbd_scheme res" where
  "key_arrow code s =
     (if code = KEY_PAD_8 then on_screen (keyboard_arrow UP) s
      else if code = KEY_PAD_2 then on_screen (keyboard_arrow DOWN) s
      else if code = KEY_PAD_4 then on_screen (keyboard_arrow LEFT) s
      else if code = KEY_PAD_6 then on_screen (keyboard_arrow RIGHT) s
      else Inr s)"

definition key_press :: "nat \<Rightarrow> 'a kbd_scheme \<Rightarrow> 'a kbd_scheme res" where
  "key_press code s =
     (let s = (if code = KEY_CAPSLOCK then s\<lparr>capslock_state := \<not> capslock_state s\<rparr> else s) in
      rbind (shift_state s) (\<lambda>shift.
      let shift = (if capslock_state s then \<not> shift else shift) in
      rbind (get_key code (if shift then 1 else 0) s) (\<lambda>ch.
      if ch = INV then Inr s
      else
        rbind (ensure (\<not> que_isfull (key_buf s)) Assert) (\<lambda>_.
        rbind (que_push (key_buf s) ch) (\<lambda>q.
        let s = s\<lparr>key_buf := q\<rparr> in
        rbind (list_isempty (heap s) (kb_waiter s)) (\<lambda>e.
        if e then Inr s
        else rbind (get_node (heap s) (End (kb_waiter s))) (\<lambda>n. unblock (n_next n) s)))))))"

definition keyboard_hander :: "u8 \<Rightarrow> 'a kbd_scheme \<Rightarrow> 'a kbd_scheme res" where
  "keyboard_hander scancode s =
     (if scancode = 0xe0 then Inr (s\<lparr>extcode_state := True\<rparr>)
      else
        let ext = (if extcode_state s then 3 else 2); s = s\<lparr>extcode_state := False\<rparr> in
        if unat (scancode AND 0x7f) > KEY_PRINT_SCREEN then Inr s
        else if scancode AND 0x80 \<noteq> 0 then set_key (unat (scancode AND 0x7f)) ext 0 s
        else
          rbind (set_key (unat scancode) ext 1 s) (\<lambda>s.
          if ext = 3 then key_arrow (unat scancode) s else key_press (unat scancode) s))"

section \<open>Readers\<close>

datatype reader = Wait_Lock nat | Wait_Key "u8 list" nat | Read "u8 list"

definition keyboard_pop :: "'a kbd_scheme \<Rightarrow> (u8 \<times> 'a kbd_scheme) res" where
  "keyboard_pop s =
     (let IF_stat = get_IF s; s = set_IF False s in
      rbind (que_pop (key_buf s)) (\<lambda>(c, q). Inr (c, set_IF IF_stat (s\<lparr>key_buf := q\<rparr>))))"

text \<open>The loop, with the characters read so far and the number still to come.\<close>

primrec keyboard_chars :: "nat \<Rightarrow> u8 list \<Rightarrow> 'a kbd_scheme \<Rightarrow> (reader \<times> 'a kbd_scheme) res" where
  "keyboard_chars 0 buf s = rbind (mutex_unlock (kb_lock s) s) (\<lambda>(mu, s). Inr (Read buf, s\<lparr>kb_lock := mu\<rparr>))"
| "keyboard_chars (Suc n) buf s =
     (if que_isempty (key_buf s) then
        rbind (block (Some (kb_waiter s)) Null TASK_BLOCKED [] s) (\<lambda>s. Inr (Wait_Key buf n, s))
      else rbind (keyboard_pop s) (\<lambda>(c, s). keyboard_chars n (buf @ [c]) s))"

definition keyboard_read :: "nat \<Rightarrow> 'a kbd_scheme \<Rightarrow> (reader \<times> 'a kbd_scheme) res" where
  "keyboard_read count s =
     rbind (list_isempty (heap s) (m_waiter (kb_lock s))) (\<lambda>e.
     let granted = (m_value (kb_lock s) \<and> e) in
     rbind (mutex_lock (kb_lock s) [] s) (\<lambda>(mu, s).
     let s = s\<lparr>kb_lock := mu\<rparr> in
     if granted then keyboard_chars count [] s else Inr (Wait_Lock count, s)))"

fun keyboard_resume :: "reader \<Rightarrow> 'a kbd_scheme \<Rightarrow> (reader \<times> 'a kbd_scheme) res" where
  "keyboard_resume (Wait_Lock count) s = keyboard_chars count [] s"
| "keyboard_resume (Wait_Key buf n) s = rbind (keyboard_pop s) (\<lambda>(c, s). keyboard_chars n (buf @ [c]) s)"
| "keyboard_resume (Read buf) s = Inr (Read buf, s)"

text \<open>\<open>buf\<close>, \<open>w\<close> and \<open>l\<close> are the blocks of the ring, the wait list and the mutex.\<close>

definition keyboard_init :: "u8 list \<Rightarrow> nat \<Rightarrow> nat \<Rightarrow> 'a kbd_scheme \<Rightarrow> 'a kbd_scheme" where
  "keyboard_init buf w l s =
     (let s = s\<lparr>capslock_state := False, extcode_state := False, key_buf := new_char_que KEY_BUF_SIZE buf,
          heap := list_init (heap s) w, kb_waiter := w\<rparr>;
          (mu, s) = mutex_init l s in
      s\<lparr>kb_lock := mu\<rparr>)"

section \<open>The key table\<close>

definition key_row :: "u8 \<times> u8 \<Rightarrow> u8 list \<Rightarrow> bool" where
  "key_row p row \<longleftrightarrow> (\<exists>d e. row = [fst p, snd p, d, e] \<and> d \<in> {0, 1} \<and> e \<in> {0, 1})"

definition keymap_ok :: "u8 list list \<Rightarrow> bool" where
  "keymap_ok m \<longleftrightarrow> list_all2 key_row key_chars m"

lemma key_chars_length: "length key_chars = 96"
  by (simp add: key_chars_def)

lemma keymap_init_ok: "keymap_ok keymap_init"
  by (auto simp: keymap_ok_def keymap_init_def list_all2_conv_all_nth key_row_def split: prod.splits)

lemma get_key_ok:
  assumes "keymap_ok (keymap s)" "i < 96"
  shows "get_key i 0 s = Inr (fst (key_chars ! i))" "get_key i (Suc 0) s = Inr (snd (key_chars ! i))"
    "\<exists>d. get_key i 2 s = Inr d"
proof -
  from assms have "length (keymap s) = 96" "key_row (key_chars ! i) (keymap s ! i)"
    by (auto simp: keymap_ok_def list_all2_conv_all_nth key_chars_length)
  with assms(2) show "get_key i 0 s = Inr (fst (key_chars ! i))" "get_key i (Suc 0) s = Inr (snd (key_chars ! i))"
    "\<exists>d. get_key i 2 s = Inr d"
    by (auto simp: get_key_def key_row_def arr_get_def)
qed

lemma set_key_ok:
  assumes m: "keymap_ok (keymap s)" "i < 96" "j \<in> {2, 3}" "v \<in> {0, 1}"
  shows "\<exists>m. set_key i j v s = Inr (s\<lparr>keymap := m\<rparr>) \<and> keymap_ok m \<and>
    (\<forall>i' j'. (i', j') \<noteq> (i, j) \<longrightarrow> get_key i' j' (s\<lparr>keymap := m\<rparr>) = get_key i' j' s)"
proof -
  from m have l: "length (keymap s) = 96" and k: "key_row (key_chars ! i) (keymap s ! i)"
    by (auto simp: keymap_ok_def list_all2_conv_all_nth key_chars_length)
  let ?r = "(keymap s ! i)[j := v]"
  have r: "key_row (key_chars ! i) ?r" "j < length (keymap s ! i)"
    using k m(3,4) by (auto simp: key_row_def numeral_2_eq_2 numeral_3_eq_3)
  have "keymap_ok ((keymap s)[i := ?r])"
    using m(1,2) r by (auto simp: keymap_ok_def list_all2_conv_all_nth nth_upd_if)
  moreover have "get_key i' j' (s\<lparr>keymap := (keymap s)[i := ?r]\<rparr>) = get_key i' j' s" if "(i', j') \<noteq> (i, j)" for i' j'
    using that l m(2) by (auto simp: get_key_def arr_get_def nth_list_update)
  ultimately show ?thesis using l m(2) r(2) by (auto simp: set_key_def)
qed

end
