(* ===== verification/Keyboard_Theorems.thy ===== *)
theory Keyboard_Theorems
  imports Keyboard
begin

text \<open>
  The handler keeps the types of its state and touches no memory outside it; what is typed is
  what a reader gets.
\<close>

section \<open>Well-formed states\<close>

text \<open>The ring has \<open>n\<close> slots and holds \<open>xs\<close>.\<close>

definition kbd_ok :: "nat \<Rightarrow> u8 list \<Rightarrow> 'a kbd_scheme \<Rightarrow> bool" where
  "kbd_ok n xs s \<longleftrightarrow> keymap_ok (keymap s) \<and> con_ok (screen s) \<and> que_rep n (key_buf s) xs"

definition shift_down :: "'a kbd_scheme \<Rightarrow> bool" where
  "shift_down s \<longleftrightarrow> shift_state s = Inr True"

lemma shift_state_ok: "keymap_ok (keymap s) \<Longrightarrow> shift_state s = Inr (shift_down s)"
  using get_key_ok(3) [of s KEY_SHIFT_L] get_key_ok(3) [of s KEY_SHIFT_R]
  by (auto simp: shift_state_def shift_down_def key_consts)

definition key_char :: "nat \<Rightarrow> bool \<Rightarrow> u8" where
  "key_char i shift = (if shift then snd (key_chars ! i) else fst (key_chars ! i))"

text \<open>The state after the caps lock key has been looked at.\<close>

definition capsed :: "nat \<Rightarrow> 'a kbd_scheme \<Rightarrow> 'a kbd_scheme" where
  "capsed code s = (if code = KEY_CAPSLOCK then s\<lparr>capslock_state := \<not> capslock_state s\<rparr> else s)"

lemma capsed_simps [simp]: "keymap (capsed c s) = keymap s" "screen (capsed c s) = screen s" "key_buf (capsed c s) = key_buf s"
  "heap (capsed c s) = heap s" "kb_waiter (capsed c s) = kb_waiter s" "kb_lock (capsed c s) = kb_lock s"
  "extcode_state (capsed c s) = extcode_state s" "shift_down (capsed c s) = shift_down s"
  by (simp_all add: capsed_def shift_down_def shift_state_def get_key_def)

lemma key_press_ok:
  assumes ok: "kbd_ok n xs s" and i: "i < 96" and w: "list_isempty (heap s) (kb_waiter s) = Inr True"
  defines "ch \<equiv> key_char i (shift_down s \<noteq> capslock_state (capsed i s))"
  shows "ch = INV \<Longrightarrow> key_press i s = Inr (capsed i s)"
    and "ch \<noteq> INV \<Longrightarrow> Suc (length xs) < n \<Longrightarrow>
      \<exists>q. key_press i s = Inr ((capsed i s)\<lparr>key_buf := q\<rparr>) \<and> que_rep n q (xs @ [ch])"
    and "ch \<noteq> INV \<Longrightarrow> Suc (length xs) = n \<Longrightarrow> key_press i s = Inl Assert"
proof -
  let ?t = "capsed i s"
  have m: "keymap_ok (keymap ?t)" and q: "que_rep n (key_buf ?t) xs" using ok by (simp_all add: kbd_ok_def)
  have sh: "(if capslock_state ?t then \<not> shift_down ?t else shift_down ?t) = (shift_down s \<noteq> capslock_state ?t)" by auto
  have ch: "get_key i (if shift_down s \<noteq> capslock_state ?t then 1 else 0) ?t = Inr ch"
    using get_key_ok [OF m i] by (simp add: ch_def key_char_def)
  have k: "key_press i s = (if ch = INV then Inr ?t else
      rbind (ensure (\<not> que_isfull (key_buf ?t)) Assert) (\<lambda>_. rbind (que_push (key_buf ?t) ch) (\<lambda>q. Inr (?t\<lparr>key_buf := q\<rparr>))))"
    unfolding key_press_def capsed_def [symmetric] Let_def shift_state_ok [OF m] rbind_simps sh ch
    using w by simp
  show "ch = INV \<Longrightarrow> key_press i s = Inr ?t" by (simp add: k)
  show "\<exists>q. key_press i s = Inr (?t\<lparr>key_buf := q\<rparr>) \<and> que_rep n q (xs @ [ch])" if "ch \<noteq> INV" "Suc (length xs) < n"
    using that que_rep_full [OF q] que_push_rep [OF q that(2), of ch] by (auto simp: k)
  show "key_press i s = Inl Assert" if "ch \<noteq> INV" "Suc (length xs) = n"
    using that que_rep_full [OF q] by (simp add: k)
qed

lemma key_arrow_ok: "kbd_ok n xs s \<Longrightarrow> \<exists>c. key_arrow i s = Inr (s\<lparr>screen := c\<rparr>) \<and> kbd_ok n xs (s\<lparr>screen := c\<rparr>)"
proof -
  assume ok: "kbd_ok n xs s"
  have "key_arrow i s = Inr s \<or> (\<exists>a. key_arrow i s = on_screen (keyboard_arrow a) s)"
    unfolding key_arrow_def by (simp, blast)
  then show ?thesis
  proof
    assume "key_arrow i s = Inr s"
    with ok show ?thesis by (intro exI [of _ "screen s"]) simp
  next
    assume "\<exists>a. key_arrow i s = on_screen (keyboard_arrow a) s"
    then obtain a where a: "key_arrow i s = on_screen (keyboard_arrow a) s" by blast
    from arrow_ok [of "screen s" a] ok obtain c where "keyboard_arrow a (screen s) = Inr c" "con_ok c"
      by (auto simp: kbd_ok_def)
    with a ok show ?thesis by (intro exI [of _ c]) (simp add: on_screen_def kbd_ok_def)
  qed
qed

lemma set_key_state:
  assumes "kbd_ok n xs s" "i < 96" "j \<in> {2, 3}" "v \<in> {0, 1}"
  shows "\<exists>m. set_key i j v s = Inr (s\<lparr>keymap := m\<rparr>) \<and> kbd_ok n xs (s\<lparr>keymap := m\<rparr>) \<and>
    (i \<notin> {KEY_SHIFT_L, KEY_SHIFT_R} \<longrightarrow> shift_down (s\<lparr>keymap := m\<rparr>) = shift_down s)"
proof -
  from set_key_ok [of s i j v] assms obtain m where m: "set_key i j v s = Inr (s\<lparr>keymap := m\<rparr>)" "keymap_ok m"
    "\<forall>i' j'. (i', j') \<noteq> (i, j) \<longrightarrow> get_key i' j' (s\<lparr>keymap := m\<rparr>) = get_key i' j' s" by (auto simp: kbd_ok_def)
  with assms(1) show ?thesis
    by (intro exI [of _ m]) (auto simp: kbd_ok_def shift_down_def shift_state_def)
qed

lemma scan_bound: "\<not> KEY_PRINT_SCREEN < unat (scancode AND 0x7f) \<Longrightarrow> unat (scancode AND 0x7f) < 96" for scancode :: u8
  by (simp add: KEY_PRINT_SCREEN_def)

lemma scan_press: "scancode AND 0x80 = 0 \<Longrightarrow> scancode AND 0x7f = scancode" for scancode :: u8
proof -
  assume z: "scancode AND 0x80 = 0"
  have "(0x7f OR 0x80 :: u8) = - 1" by (simp add: word_uint_eq_iff unsigned_minus_1_eq_mask mask_eq_exp_minus_1)
  then have "scancode = scancode AND (0x7f OR 0x80)" by (simp only: bit.conj_one_right)
  also have "\<dots> = (scancode AND 0x7f) OR (scancode AND 0x80)" by (rule bit.conj_disj_distrib)
  finally show ?thesis using z by simp
qed

section \<open>One scan code\<close>

text \<open>What a scan code does apart from waking: the state and the character that enters the ring, if any.\<close>

lemma key_press_cases:
  assumes ok: "kbd_ok n xs s" and i: "i < 96"
  obtains (none) "key_press i s = Inr (capsed i s)"
    | (full) "key_press i s = Inl Assert" "Suc (length xs) = n"
    | (entered) q c where "c \<noteq> INV" "que_rep n q (xs @ [c])"
      "key_press i s = (let s = (capsed i s)\<lparr>key_buf := q\<rparr> in rbind (list_isempty (heap s) (kb_waiter s)) (\<lambda>e.
        if e then Inr s else rbind (get_node (heap s) (End (kb_waiter s))) (\<lambda>n. unblock (n_next n) s)))"
proof -
  let ?t = "capsed i s"
  define ch where "ch = key_char i (shift_down s \<noteq> capslock_state ?t)"
  have m: "keymap_ok (keymap ?t)" and q: "que_rep n (key_buf ?t) xs" using ok by (simp_all add: kbd_ok_def)
  have sh: "(if capslock_state ?t then \<not> shift_down ?t else shift_down ?t) = (shift_down s \<noteq> capslock_state ?t)" by auto
  have ch: "get_key i (if shift_down s \<noteq> capslock_state ?t then 1 else 0) ?t = Inr ch"
    using get_key_ok [OF m i] by (simp add: ch_def key_char_def)
  have k: "key_press i s = (if ch = INV then Inr ?t else
      rbind (ensure (\<not> que_isfull (key_buf ?t)) Assert) (\<lambda>_. rbind (que_push (key_buf ?t) ch) (\<lambda>q.
      let s = ?t\<lparr>key_buf := q\<rparr> in rbind (list_isempty (heap s) (kb_waiter s)) (\<lambda>e.
        if e then Inr s else rbind (get_node (heap s) (End (kb_waiter s))) (\<lambda>n. unblock (n_next n) s)))))"
    unfolding key_press_def capsed_def [symmetric] Let_def shift_state_ok [OF m] rbind_simps sh ch ..
  have "Suc (length xs) \<le> n" using q by (simp add: que_rep_def)
  then consider "ch = INV" | "ch \<noteq> INV" "Suc (length xs) = n" | "ch \<noteq> INV" "Suc (length xs) < n" by linarith
  then show thesis
  proof cases
    case 1
    then show thesis by (intro none) (simp add: k)
  next
    case 2
    then show thesis using que_rep_full [OF q] by (intro full) (simp_all add: k)
  next
    case 3
    from que_push_rep [OF q 3(2), of ch] obtain q' where q': "que_push (key_buf ?t) ch = Inr q'" "que_rep n q' (xs @ [ch])" by blast
    have "\<not> que_isfull (key_buf ?t)" using que_rep_full [OF q] 3(2) by simp
    then show thesis using 3 q' by (intro entered [of ch q']) (simp_all add: k)
  qed
qed

text \<open>The fields of the scheduler are left alone except for the waking.\<close>

lemma screen_iflag [simp]: "screen (s\<lparr>iflag := b\<rparr>) = screen s"
  by (cases s) simp

lemma unblock_kbd:
  "unblock r s = Inr s' \<Longrightarrow> keymap s' = keymap s \<and> key_buf s' = key_buf s \<and> screen s' = screen s"
  by (auto simp: unblock_def get_and_disable_IF_def set_IF_def on_heap_def upd_tcb_def Let_def split: if_splits prod.splits)

lemma key_press_wakes:
  assumes ok: "kbd_ok n xs s" and i: "i < 96" and rel: "sched_rel D T s A" and w: "kb_waiter s \<in> D"
  shows "(\<exists>s'. key_press i s = Inr s' \<and> kbd_ok n xs s' \<and> sched_rel D T s' A) \<or>
    (\<exists>s' c. key_press i s = Inr s' \<and> kbd_ok n (xs @ [c]) s' \<and> c \<noteq> INV \<and> sched_rel D T s' (a_wake_first (kb_waiter s) A)) \<or>
    key_press i s = Inl Assert \<and> Suc (length xs) = n"
  using ok i
proof (cases rule: key_press_cases)
  case none
  have "sched_rel D T (capsed i s) A" using rel by (subst sched_rel_cong [of _ s]) (simp_all add: capsed_def)
  with none ok show ?thesis by (simp add: kbd_ok_def)
next
  case (entered q c)
  let ?s = "(capsed i s)\<lparr>key_buf := q\<rparr>"
  have rel': "sched_rel D T ?s A" using rel by (subst sched_rel_cong [of _ s]) (simp_all add: capsed_def)
  have w': "kb_waiter ?s \<in> D" using w by simp
  from wake_first_refines [OF rel' w'] obtain s' where
    s': "key_press i s = Inr s'" "s' = ?s \<or> (\<exists>q. unblock q ?s = Inr s')" "sched_rel D T s' (a_wake_first (kb_waiter s) A)"
    unfolding entered(3) Let_def by auto
  then have "keymap s' = keymap s \<and> key_buf s' = q \<and> screen s' = screen s" using unblock_kbd [of _ ?s s'] by auto
  then have "kbd_ok n (xs @ [c]) s'" using ok entered(2) by (simp add: kbd_ok_def)
  with s' entered(1) show ?thesis by blast
qed simp

section \<open>Properties\<close>

text \<open>
  C30: every scan code byte is handled without access outside the key table, the ring or the
  video memory, and the state stays well typed: the table keeps its characters and its flags
  are 0 or 1. Either no character enters the ring and no task is woken, or one character enters it and the first
  task that waits for a key, if there is one, becomes ready. The only stop is the assertion for a full ring.
\<close>

theorem keyboard_well_typed:
  assumes "kbd_ok n xs s" "sched_rel D T s A" "kb_waiter s \<in> D"
  shows "(\<exists>s'. keyboard_hander scancode s = Inr s' \<and> kbd_ok n xs s' \<and> sched_rel D T s' A) \<or>
    (\<exists>s' c. keyboard_hander scancode s = Inr s' \<and> kbd_ok n (xs @ [c]) s' \<and> c \<noteq> INV \<and>
       sched_rel D T s' (a_wake_first (kb_waiter s) A)) \<or>
    keyboard_hander scancode s = Inl Assert \<and> Suc (length xs) = n"
proof -
  let ?ext = "if extcode_state s then 3 else 2 :: nat" and ?s = "s\<lparr>extcode_state := False\<rparr>"
  have e: "?ext \<in> {2, 3}" by simp
  have ok: "kbd_ok n xs ?s" using assms(1) by (simp add: kbd_ok_def)
  have rel: "sched_rel D T (s\<lparr>extcode_state := b\<rparr>) A" "sched_rel D T (?s\<lparr>keymap := m\<rparr>) A" "sched_rel D T (?s\<lparr>keymap := m, screen := c\<rparr>) A"
    for b m c using assms(2) by (subst sched_rel_cong [of _ s]; simp)+
  consider "scancode = 0xe0" | "scancode \<noteq> 0xe0" "unat (scancode AND 0x7f) > KEY_PRINT_SCREEN"
    | "scancode \<noteq> 0xe0" "\<not> unat (scancode AND 0x7f) > KEY_PRINT_SCREEN" "scancode AND 0x80 \<noteq> 0"
    | "scancode \<noteq> 0xe0" "\<not> unat (scancode AND 0x7f) > KEY_PRINT_SCREEN" "scancode AND 0x80 = 0" by blast
  then show ?thesis
  proof cases
    case 1
    then show ?thesis using assms(1) rel(1) by (auto simp: keyboard_hander_def kbd_ok_def)
  next
    case 2
    then show ?thesis using ok rel(1) by (auto simp: keyboard_hander_def)
  next
    case 3
    from set_key_state [OF ok scan_bound [OF 3(2)] e, of 0] obtain m where
      "set_key (unat (scancode AND 0x7f)) ?ext 0 ?s = Inr (?s\<lparr>keymap := m\<rparr>)" "kbd_ok n xs (?s\<lparr>keymap := m\<rparr>)" by auto
    with 3 rel(2) show ?thesis by (auto simp: keyboard_hander_def Let_def)
  next
    case 4
    have i: "unat scancode < 96" using scan_bound [OF 4(2)] scan_press [OF 4(3)] by simp
    from set_key_state [OF ok i e, of 1] obtain m where
      m: "set_key (unat scancode) ?ext 1 ?s = Inr (?s\<lparr>keymap := m\<rparr>)" "kbd_ok n xs (?s\<lparr>keymap := m\<rparr>)" by auto
    let ?t = "?s\<lparr>keymap := m\<rparr>"
    have h: "keyboard_hander scancode s = (if extcode_state s then key_arrow (unat scancode) ?t else key_press (unat scancode) ?t)"
      using 4 m(1) by (simp add: keyboard_hander_def Let_def)
    have w: "kb_waiter ?t \<in> D" using assms(3) by simp
    show ?thesis
    proof (cases "extcode_state s")
      case True
      from key_arrow_ok [OF m(2), of "unat scancode"] obtain c where
        "key_arrow (unat scancode) ?t = Inr (?t\<lparr>screen := c\<rparr>)" "kbd_ok n xs (?t\<lparr>screen := c\<rparr>)" by blast
      with h True rel(3) show ?thesis by auto
    next
      case False
      with h key_press_wakes [OF m(2) i rel(2) w] show ?thesis by simp
    qed
  qed
qed

section \<open>Typing and reading\<close>

text \<open>No modifier is active and nobody waits for a key.\<close>

definition idle_keys :: "'a kbd_scheme \<Rightarrow> bool" where
  "idle_keys s \<longleftrightarrow> \<not> extcode_state s \<and> \<not> capslock_state s \<and> \<not> shift_down s \<and>
     list_isempty (heap s) (kb_waiter s) = Inr True \<and> m_value (kb_lock s) \<and>
     list_isempty (heap s) (m_waiter (kb_lock s)) = Inr True"

definition typable :: "nat \<Rightarrow> bool" where
  "typable i \<longleftrightarrow> i < 96 \<and> fst (key_chars ! i) \<noteq> INV"

lemma key_type_ok:
  assumes ok: "kbd_ok n xs s" "idle_keys s" and i: "typable i" and room: "Suc (length xs) < n"
  shows "\<exists>s'. keyboard_hander (word_of_nat i) s = Inr s' \<and> kbd_ok n (xs @ [fst (key_chars ! i)]) s' \<and> idle_keys s'"
proof -
  let ?c = "word_of_nat i :: u8"
  have i96: "i < 96" "fst (key_chars ! i) \<noteq> INV" using i by (simp_all add: typable_def)
  have mods: "i \<noteq> KEY_SHIFT_L" "i \<noteq> KEY_SHIFT_R" "i \<noteq> KEY_CAPSLOCK"
    using i96(2) by (auto simp: key_consts key_chars_def INV_def)
  have u: "unat ?c = i" using i96(1) by (simp add: unat_of_nat)
  have c: "?c < 0x60" using i96(1) u by (simp add: word_less_nat_alt)
  have ne: "?c \<noteq> 0xe0" using c by auto
  have seven: "?c AND 0x7f = ?c"
  proof -
    have "?c = take_bit 7 ?c" using i96(1) by (simp add: word_unat_eq_iff unsigned_take_bit_eq u take_bit_nat_eq_self)
    then show ?thesis by (simp add: take_bit_eq_mask mask_eq_exp_minus_1)
  qed
  then have "?c AND 0x80 = ?c AND (0x7f AND 0x80)" by (metis and.assoc)
  then have z: "?c AND 0x80 = 0" "unat (?c AND 0x7f) = i" using seven by (simp_all add: u)
  let ?s = "s\<lparr>extcode_state := False\<rparr>"
  have s: "?s = s" using ok(2) by (simp add: idle_keys_def)
  from set_key_state [OF ok(1) i96(1), of 2 1] mods obtain m where
    m: "set_key i 2 1 s = Inr (s\<lparr>keymap := m\<rparr>)" "kbd_ok n xs (s\<lparr>keymap := m\<rparr>)" "shift_down (s\<lparr>keymap := m\<rparr>) = shift_down s" by auto
  let ?t = "s\<lparr>keymap := m\<rparr>"
  have cap: "capsed i ?t = ?t" using mods by (simp add: capsed_def)
  have nx: "\<not> extcode_state s" "\<not> shift_down s" "\<not> capslock_state s" using ok(2) by (simp_all add: idle_keys_def)
  have h: "keyboard_hander ?c s = key_press i ?t"
    unfolding keyboard_hander_def Let_def s
    using ne z i96(1) m(1) nx(1) u by (simp add: KEY_PRINT_SCREEN_def)
  have "key_char i (shift_down ?t \<noteq> capslock_state (capsed i ?t)) = fst (key_chars ! i)"
    unfolding cap m(3) using nx by (simp add: key_char_def)
  with key_press_ok(2) [OF m(2) i96(1)] i96(2) room ok(2) obtain q where
    q: "key_press i ?t = Inr (?t\<lparr>key_buf := q\<rparr>)" "que_rep n q (xs @ [fst (key_chars ! i)])"
    by (auto simp: cap idle_keys_def)
  have "shift_down (?t\<lparr>key_buf := q\<rparr>) = shift_down ?t" by (simp add: shift_down_def shift_state_def get_key_def)
  then have "idle_keys (?t\<lparr>key_buf := q\<rparr>)" using ok(2) m(3) by (simp add: idle_keys_def)
  with q m(2) h show ?thesis by (auto simp: kbd_ok_def)
qed

text \<open>The release of such a key only clears its flag.\<close>

lemma release_code:
  assumes "i < 96"
  shows "unat ((word_of_nat (i + 128) :: u8) AND 0x7f) = i" "(word_of_nat (i + 128) :: u8) AND 0x80 \<noteq> 0"
    "(word_of_nat (i + 128) :: u8) \<noteq> 0xe0"
proof -
  let ?c = "word_of_nat (i + 128) :: u8"
  have u: "unat ?c = i + 128" using assms by (simp only: unat_of_nat) simp
  have "?c AND 0x7f = take_bit 7 ?c" by (simp add: take_bit_eq_mask mask_eq_exp_minus_1)
  then have "unat (?c AND 0x7f) = (i + 128) mod 128" by (simp only: unsigned_take_bit_eq u) (simp add: take_bit_eq_mod)
  then show "unat (?c AND 0x7f) = i" using assms by simp
  have "(i + 128) div 128 = i div 128 + 1" by (rule div_add_self2) simp
  then have "(i + 128) div 128 = 1" using assms by simp
  then have "bit (unat ?c) 7" unfolding u by (simp add: bit_iff_odd)
  then have "bit ?c 7" by (simp only: bit_unsigned_iff)
  then have "bit (?c AND 0x80) 7" by (simp add: bit_and_iff)
  then show "?c AND 0x80 \<noteq> 0" by auto
  show "?c \<noteq> 0xe0"
  proof
    assume "?c = 0xe0"
    then have "unat ?c = 0xe0" by simp
    with u assms show False by simp
  qed
qed

lemma key_release_ok:
  assumes ok: "kbd_ok n xs s" "idle_keys s" and i: "typable i"
  shows "\<exists>s'. keyboard_hander (word_of_nat (i + 128)) s = Inr s' \<and> kbd_ok n xs s' \<and> idle_keys s'"
proof -
  have i96: "i < 96" using i by (simp add: typable_def)
  note c = release_code [OF i96]
  have mods: "i \<noteq> KEY_SHIFT_L" "i \<noteq> KEY_SHIFT_R" using i by (auto simp: typable_def key_consts key_chars_def INV_def)
  have s: "s\<lparr>extcode_state := False\<rparr> = s" "\<not> extcode_state s" using ok(2) by (simp_all add: idle_keys_def)
  from set_key_state [OF ok(1) i96, of 2 0] mods obtain m where
    m: "set_key i 2 0 s = Inr (s\<lparr>keymap := m\<rparr>)" "kbd_ok n xs (s\<lparr>keymap := m\<rparr>)" "shift_down (s\<lparr>keymap := m\<rparr>) = shift_down s" by auto
  have "keyboard_hander (word_of_nat (i + 128)) s = Inr (s\<lparr>keymap := m\<rparr>)"
    unfolding keyboard_hander_def Let_def s(1) c(1) using c(2,3) i96 m(1) s(2) by (simp add: KEY_PRINT_SCREEN_def del: of_nat_add)
  moreover have "idle_keys (s\<lparr>keymap := m\<rparr>)" using ok(2) m(3) by (simp add: idle_keys_def)
  ultimately show ?thesis using m(2) by blast
qed

text \<open>Strokes are presses (\<open>True\<close>) and releases of keys; the presses enter characters.\<close>

definition stroke_code :: "nat \<times> bool \<Rightarrow> u8" where
  "stroke_code = (\<lambda>(i, press). word_of_nat (if press then i else i + 128))"

definition typed_text :: "(nat \<times> bool) list \<Rightarrow> u8 list" where
  "typed_text ks = map (\<lambda>k. fst (key_chars ! fst k)) (filter snd ks)"

lemma strokes_ok:
  "kbd_ok n xs s \<Longrightarrow> idle_keys s \<Longrightarrow> \<forall>k \<in> set ks. typable (fst k) \<Longrightarrow> length xs + length (typed_text ks) < n \<Longrightarrow>
    \<exists>s'. for_each keyboard_hander (map stroke_code ks) s = Inr s' \<and> kbd_ok n (xs @ typed_text ks) s' \<and> idle_keys s'"
proof (induction ks arbitrary: xs s)
  case (Cons k ks)
  obtain i p where k: "k = (i, p)" by (cases k)
  show ?case
  proof (cases p)
    case True
    from key_type_ok [OF Cons.prems(1,2), of i] Cons.prems(3,4) k True obtain s1 where
      s1: "keyboard_hander (word_of_nat i) s = Inr s1" "kbd_ok n (xs @ [fst (key_chars ! i)]) s1" "idle_keys s1" by (auto simp: typed_text_def)
    from Cons.IH [OF s1(2,3)] Cons.prems(3,4) s1(1) k True show ?thesis by (auto simp: typed_text_def stroke_code_def)
  next
    case False
    from key_release_ok [OF Cons.prems(1,2), of i] Cons.prems(3) k obtain s1 where
      s1: "keyboard_hander (word_of_nat (i + 128)) s = Inr s1" "kbd_ok n xs s1" "idle_keys s1" by auto
    from Cons.IH [OF s1(2,3)] Cons.prems(3,4) s1(1) k False show ?thesis by (auto simp: typed_text_def stroke_code_def simp del: of_nat_add)
  qed
qed (simp add: typed_text_def)

lemma keyboard_chars_ok:
  "que_rep n (key_buf s) (cs @ xs) \<Longrightarrow> list_isempty (heap s) (m_waiter (kb_lock s)) = Inr True \<Longrightarrow>
    \<exists>s'. keyboard_chars (length cs) buf s = Inr (Read (buf @ cs), s') \<and> que_rep n (key_buf s') xs \<and> m_value (kb_lock s')"
proof (induction cs arbitrary: buf s)
  case Nil
  then show ?case by (auto simp: mutex_unlock_def get_and_disable_IF_def set_IF_def)
next
  case (Cons c cs)
  from que_pop_rep [of n "key_buf s" c "cs @ xs"] Cons.prems(1) obtain q where
    q: "que_pop (key_buf s) = Inr (c, q)" "que_rep n q (cs @ xs)" by auto
  let ?s = "set_IF (get_IF s) ((set_IF False s)\<lparr>key_buf := q\<rparr>)"
  have "keyboard_pop s = Inr (c, ?s)" using q(1) by (simp add: keyboard_pop_def Let_def set_IF_def)
  moreover have "\<not> que_isempty (key_buf s)" using que_rep_empty [OF Cons.prems(1)] by simp
  ultimately have "keyboard_chars (length (c # cs)) buf s = keyboard_chars (length cs) (buf @ [c]) ?s" by simp
  with Cons.IH [of ?s "buf @ [c]"] Cons.prems(2) q(2) show ?case by (simp add: set_IF_def)
qed


section \<open>Examples\<close>

lemma keyboard_init_ok:
  assumes "keymap s = keymap_init" "con_ok (screen s)" "length buf = 256" "w \<noteq> l"
  shows "kbd_ok 256 [] (keyboard_init buf w l s)" "idle_keys (keyboard_init buf w l s)"
proof -
  let ?s = "keyboard_init buf w l s"
  have f: "keymap ?s = keymap_init" "screen ?s = screen s" "key_buf ?s = new_char_que KEY_BUF_SIZE buf" "kb_waiter ?s = w"
    "kb_lock ?s = \<lparr>m_value = True, m_waiter = l\<rparr>" "heap ?s = list_init (list_init (heap s) w) l" "\<not> extcode_state ?s" "\<not> capslock_state ?s"
    using assms(1) by (simp_all add: keyboard_init_def mutex_init_def Let_def)
  have "que_rep 256 (key_buf ?s) []"
    using new_char_que_rep [of KEY_BUF_SIZE buf] assms(3) by (simp add: f KEY_BUF_SIZE_def)
  then show "kbd_ok 256 [] ?s" using keymap_init_ok assms(2) by (simp add: kbd_ok_def f)
  have "get_key i 2 ?s = Inr 0" if "i \<in> {KEY_SHIFT_L, KEY_SHIFT_R}" for i
    using that key_chars_length by (auto simp: get_key_def f keymap_init_def key_consts arr_get_def split: prod.splits)
  then have "\<not> shift_down ?s" by (simp add: shift_down_def shift_state_def)
  then show "idle_keys ?s"
    using assms(4) by (simp add: idle_keys_def f list_init_def list_isempty_def)
qed

definition ex_kbd :: "console \<Rightarrow> kbd" where
  "ex_kbd c = keyboard_init (replicate 256 0) 5 6 \<lparr>iflag = True, cr3 = 0,
     v_bit_map = \<lparr>bm_start = [], bm_length = 0, bm_offset = 0\<rparr>, phys = (\<lambda>_ _. 0), p_bit_map = [], total_pages = 0, free_pages = 0,
     start_available_p_page_idx = 0, start_io_memory = 0, heap = empty_heap, tcbs = (\<lambda>_. None), task_bucket = [],
     running_task = Null, jiffies = 0, esp0 = 0, keymap = keymap_init, key_buf = new_char_que 2 [], kb_waiter = 0,
     kb_lock = \<lparr>m_value = True, m_waiter = 0\<rparr>, capslock_state = True, extcode_state = True, screen = c\<rparr>"

lemma ex_kbd_ok: "con_ok c \<Longrightarrow> kbd_ok 256 [] (ex_kbd c) \<and> idle_keys (ex_kbd c)"
  unfolding ex_kbd_def by (intro conjI keyboard_init_ok) simp_all

text \<open>The two tasks of the scheduler's example, the second waiting for a key.\<close>

definition ex_kbd_wait :: "console \<Rightarrow> kbd" where
  "ex_kbd_wait c = kernel.extend (ex_kernel ex_pages block_list TASK_BLOCKED)
     (kbd.fields keymap_init (new_char_que KEY_BUF_SIZE (replicate 256 0)) block_list \<lparr>m_value = True, m_waiter = 6\<rparr> False False c)"

lemma ex_kbd_wait_fields [simp]:
  "heap (ex_kbd_wait c) = heap (ex_kernel ex_pages block_list TASK_BLOCKED)"
  "tcbs (ex_kbd_wait c) = tcbs (ex_kernel ex_pages block_list TASK_BLOCKED)"
  "running_task (ex_kbd_wait c) = running_task (ex_kernel ex_pages block_list TASK_BLOCKED)"
  "keymap (ex_kbd_wait c) = keymap_init" "key_buf (ex_kbd_wait c) = new_char_que KEY_BUF_SIZE (replicate 256 0)"
  "kb_waiter (ex_kbd_wait c) = block_list" "screen (ex_kbd_wait c) = c"
  by (simp_all add: ex_kbd_wait_def kernel.defs kbd.defs)

theorem keyboard_well_typed_witness:
  "\<exists>c s'. keyboard_hander 0x48 (ex_kbd_wait c) = Inr s' \<and> keymap_ok (keymap s')"
proof -
  from ex_con_clean obtain c :: console where c: "con_ok c" by blast
  have "que_rep 256 (new_char_que KEY_BUF_SIZE (replicate 256 0)) []"
    using new_char_que_rep [of KEY_BUF_SIZE "replicate 256 0"] by (simp add: KEY_BUF_SIZE_def)
  then have k: "kbd_ok 256 [] (ex_kbd_wait c)" using c keymap_init_ok by (simp add: kbd_ok_def)
  have b: "block_list \<in> ex_lists" "state_for block_list TASK_BLOCKED" by (simp_all add: ex_lists_def state_for_def list_ids)
  have r: "sched_rel ex_lists {0, 1} (ex_kbd_wait c) \<lparr>a_lists = (\<lambda>_. [])(block_list := [1]), a_run = 0\<rparr>"
    by (subst sched_rel_cong [OF ex_kbd_wait_fields(1-3)]) (rule ex_kernel_rel [OF b])
  have w: "kb_waiter (ex_kbd_wait c) \<in> ex_lists" using b(1) by simp
  from keyboard_well_typed [OF k r w, where scancode = "0x48"] show ?thesis by (auto simp: kbd_ok_def)
qed


end
