(* ===== verification/Malloc.thy ===== *)
theory Malloc
  imports Kernel_Pages
begin

text \<open>
  The bucket allocator of \<^verbatim>\<open>kernel/malloc.c\<close>. The memory is a map from addresses to bytes; a
  pointer is four of them, the lowest first, at any address, and an access to page 0 faults. A bucket is a page cut into blocks of
  one size. Its descriptor holds the next descriptor at offset 0, the page at 4, the first free
  block at 8 and, in the lower half of the word at 12, the number of blocks in use. A free block
  holds the address of the next one. \<^verbatim>\<open>malloc\<close> and \<^verbatim>\<open>free_s\<close> search with interrupts as they are
  and change the lists with interrupts off; both halves are definitions.
\<close>

section \<open>State\<close>

record heap_mem = kmem +
  bytes :: "nat \<Rightarrow> u8"
  first_bucket :: "nat \<Rightarrow> nat"
  free_bucket_desc :: nat

definition bucket_sizes :: "nat list" where
  "bucket_sizes = [16, 32, 64, 128, 256, 512, 1024, 2048, 4096, 0]"

definition sizeof_bucket_desc :: nat where "sizeof_bucket_desc = 16"

definition word_at :: "(nat \<Rightarrow> u8) \<Rightarrow> nat \<Rightarrow> nat" where
  "word_at m a = unat (m a) + 2 ^ 8 * unat (m (a + 1)) + 2 ^ 16 * unat (m (a + 2)) + 2 ^ 24 * unat (m (a + 3))"

definition put_word :: "nat \<Rightarrow> nat \<Rightarrow> (nat \<Rightarrow> u8) \<Rightarrow> nat \<Rightarrow> u8" where
  "put_word a v m = m(a := word_of_nat v, a + 1 := word_of_nat (v div 2 ^ 8), a + 2 := word_of_nat (v div 2 ^ 16),
     a + 3 := word_of_nat (v div 2 ^ 24))"

definition rd :: "nat \<Rightarrow> 'a heap_mem_scheme \<Rightarrow> nat res" where
  "rd a s = (if a < unat PAGE_SIZE then Inl Fault else Inr (word_at (bytes s) a))"

definition wr :: "nat \<Rightarrow> nat \<Rightarrow> 'a heap_mem_scheme \<Rightarrow> 'a heap_mem_scheme res" where
  "wr a v s = (if a < unat PAGE_SIZE then Inl Fault else Inr (s\<lparr>bytes := put_word a v (bytes s)\<rparr>))"

definition get_next_desc :: "nat \<Rightarrow> 'a heap_mem_scheme \<Rightarrow> nat res" where "get_next_desc d = rd d"
definition get_page :: "nat \<Rightarrow> 'a heap_mem_scheme \<Rightarrow> nat res" where "get_page d = rd (d + 4)"
definition get_freeptr :: "nat \<Rightarrow> 'a heap_mem_scheme \<Rightarrow> nat res" where "get_freeptr d = rd (d + 8)"

definition get_refcnt :: "nat \<Rightarrow> 'a heap_mem_scheme \<Rightarrow> nat res" where
  "get_refcnt d s = rbind (rd (d + 12) s) (\<lambda>w. Inr (w mod 2 ^ 16))"

definition set_next_desc :: "nat \<Rightarrow> nat \<Rightarrow> 'a heap_mem_scheme \<Rightarrow> 'a heap_mem_scheme res" where "set_next_desc d = wr d"
definition set_page :: "nat \<Rightarrow> nat \<Rightarrow> 'a heap_mem_scheme \<Rightarrow> 'a heap_mem_scheme res" where "set_page d = wr (d + 4)"
definition set_freeptr :: "nat \<Rightarrow> nat \<Rightarrow> 'a heap_mem_scheme \<Rightarrow> 'a heap_mem_scheme res" where "set_freeptr d = wr (d + 8)"

definition set_refcnt :: "nat \<Rightarrow> nat \<Rightarrow> 'a heap_mem_scheme \<Rightarrow> 'a heap_mem_scheme res" where
  "set_refcnt d v s = rbind (rd (d + 12) s) (\<lambda>w. wr (d + 12) (w div 2 ^ 16 * 2 ^ 16 + v mod 2 ^ 16) s)"

lemmas desc_defs = get_next_desc_def get_page_def get_freeptr_def get_refcnt_def
  set_next_desc_def set_page_def set_freeptr_def set_refcnt_def

definition set_first :: "nat \<Rightarrow> nat \<Rightarrow> 'a heap_mem_scheme \<Rightarrow> 'a heap_mem_scheme" where
  "set_first i d s = s\<lparr>first_bucket := (first_bucket s)(i := d)\<rparr>"

definition get_free_page :: "'a heap_mem_scheme \<Rightarrow> (nat \<times> 'a heap_mem_scheme) res" where
  "get_free_page s = rbind (alloc_kpage 1 s) (\<lambda>(v, s). Inr (unat v, s))"

section \<open>malloc\<close>

text \<open>The loop that chains the blocks of a page; the result is the last one.\<close>

primrec link_blocks :: "nat \<Rightarrow> nat \<Rightarrow> nat \<Rightarrow> 'a heap_mem_scheme \<Rightarrow> (nat \<times> 'a heap_mem_scheme) res" where
  "link_blocks 0 tmp sz s = Inr (tmp, s)"
| "link_blocks (Suc n) tmp sz s = rbind (wr tmp (tmp + sz) s) (link_blocks n (tmp + sz) sz)"

definition bucket_dec_init :: "'a heap_mem_scheme \<Rightarrow> 'a heap_mem_scheme res" where
  "bucket_dec_init s =
     rbind (get_free_page s) (\<lambda>(first, s).
     if first = 0 then Inl Panic
     else
       rbind (link_blocks (unat PAGE_SIZE div sizeof_bucket_desc - 1) first sizeof_bucket_desc s) (\<lambda>(bdesc, s).
       rbind (set_next_desc bdesc (free_bucket_desc s) s) (\<lambda>s.
       Inr (s\<lparr>free_bucket_desc := first\<rparr>))))"

text \<open>The index of the entry of \<^verbatim>\<open>bucket_dir\<close> at which the first loop stops.\<close>

fun dir_loop :: "nat list \<Rightarrow> nat \<Rightarrow> nat \<Rightarrow> nat" where
  "dir_loop [] i n = i"
| "dir_loop (sz # szs) i n = (if sz = 0 \<or> sz \<ge> n then i else dir_loop szs (i + 1) n)"

partial_function (option) find_bucket :: "nat \<Rightarrow> 'a heap_mem_scheme \<Rightarrow> nat res option" where
  "find_bucket bdesc s =
     (if bdesc = 0 then Some (Inr 0)
      else
        (case get_freeptr bdesc s of
           Inl e \<Rightarrow> Some (Inl e)
         | Inr p \<Rightarrow>
             if p \<noteq> 0 then Some (Inr bdesc)
             else (case get_next_desc bdesc s of Inl e \<Rightarrow> Some (Inl e) | Inr d \<Rightarrow> find_bucket d s)))"

definition new_bucket :: "nat \<Rightarrow> 'a heap_mem_scheme \<Rightarrow> (nat \<times> 'a heap_mem_scheme) res" where
  "new_bucket i s =
     rbind (if free_bucket_desc s = 0 then bucket_dec_init s else Inr s) (\<lambda>s.
     let bdesc = free_bucket_desc s in
     rbind (get_next_desc bdesc s) (\<lambda>n.
     let s = s\<lparr>free_bucket_desc := n\<rparr> in
     rbind (set_next_desc bdesc (first_bucket s i) s) (\<lambda>s.
     rbind (get_free_page (set_first i bdesc s)) (\<lambda>(tmp, s).
     rbind (set_page bdesc tmp s) (\<lambda>s.
     rbind (set_freeptr bdesc tmp s) (\<lambda>s.
     rbind (set_refcnt bdesc 0 s) (\<lambda>s.
     if tmp = 0 then Inl Panic
     else
       rbind (link_blocks (unat PAGE_SIZE div bucket_sizes ! i - 1) tmp (bucket_sizes ! i) s) (\<lambda>(tmp, s).
       rbind (wr tmp 0 s) (\<lambda>s. Inr (bdesc, s))))))))))"

definition take_block :: "nat \<Rightarrow> 'a heap_mem_scheme \<Rightarrow> (nat \<times> 'a heap_mem_scheme) res" where
  "take_block bdesc s =
     rbind (get_freeptr bdesc s) (\<lambda>retptr.
     rbind (rd retptr s) (\<lambda>n.
     rbind (set_freeptr bdesc n s) (\<lambda>s.
     rbind (get_refcnt bdesc s) (\<lambda>r.
     rbind (set_refcnt bdesc (r + 1) s) (\<lambda>s. Inr (retptr, s))))))"

text \<open>The part with interrupts off, for the bucket the search has found.\<close>

definition malloc_take :: "nat \<Rightarrow> nat \<Rightarrow> 'a heap_mem_scheme \<Rightarrow> (nat \<times> 'a heap_mem_scheme) res" where
  "malloc_take i bdesc s =
     (let IF_stat = get_IF s; s = set_IF False s in
      rbind (if bdesc = 0 then new_bucket i s else Inr (bdesc, s)) (\<lambda>(bdesc, s).
      rbind (take_block bdesc s) (\<lambda>(retptr, s). Inr (retptr, set_IF IF_stat s))))"

definition malloc :: "nat \<Rightarrow> 'a heap_mem_scheme \<Rightarrow> (nat \<times> 'a heap_mem_scheme) res" where
  "malloc requist_size s =
     (let i = dir_loop bucket_sizes 0 requist_size in
      if bucket_sizes ! i = 0 then Inl Panic
      else rbind (run (find_bucket (first_bucket s i) s)) (\<lambda>bdesc. malloc_take i bdesc s))"

section \<open>free\<close>

text \<open>The results are the descriptor and the one before it in the chain.\<close>

partial_function (option) find_page :: "nat \<Rightarrow> nat \<Rightarrow> nat \<Rightarrow> 'a heap_mem_scheme \<Rightarrow> (nat \<times> nat) res option" where
  "find_page obj_page bdesc prev s =
     (if bdesc = 0 then Some (Inr (0, prev))
      else
        (case get_page bdesc s of
           Inl e \<Rightarrow> Some (Inl e)
         | Inr p \<Rightarrow>
             if p = obj_page then Some (Inr (bdesc, prev))
             else (case get_next_desc bdesc s of Inl e \<Rightarrow> Some (Inl e) | Inr d \<Rightarrow> find_page obj_page d bdesc s)))"

fun free_find :: "nat list \<Rightarrow> nat \<Rightarrow> nat \<Rightarrow> nat \<Rightarrow> 'a heap_mem_scheme \<Rightarrow> (nat \<times> nat \<times> nat) res" where
  "free_find [] i obj_page siz s = Inl Panic"
| "free_find (sz # szs) i obj_page siz s =
     (if sz = 0 then Inl Panic
      else if sz < siz then free_find szs (i + 1) obj_page siz s
      else
        rbind (run (find_page obj_page (first_bucket s i) 0 s)) (\<lambda>(bdesc, prev).
        if bdesc \<noteq> 0 then Inr (i, bdesc, prev) else free_find szs (i + 1) obj_page siz s))"

text \<open>
  The check for a chain that has changed since the search. Its test is an assignment: when the
  chain is not empty it makes \<open>bdesc\<close> the head of the chain and leaves \<open>prev\<close>; when it is
  empty, the search for \<open>prev\<close> ends at once.
\<close>

definition recheck :: "nat \<Rightarrow> nat \<Rightarrow> nat \<Rightarrow> 'a heap_mem_scheme \<Rightarrow> (nat \<times> nat) res" where
  "recheck i bdesc prev s =
     rbind (if prev \<noteq> 0 then rbind (get_next_desc prev s) (\<lambda>n. Inr (n \<noteq> bdesc)) else Inr (first_bucket s i \<noteq> bdesc)) (\<lambda>changed.
     Inr (if changed then (let bdesc = first_bucket s i in (bdesc, if bdesc \<noteq> 0 then prev else 0))
          else (bdesc, prev)))"

definition unlink_bucket :: "nat \<Rightarrow> nat \<Rightarrow> nat \<Rightarrow> 'a heap_mem_scheme \<Rightarrow> 'a heap_mem_scheme res" where
  "unlink_bucket i bdesc prev s =
     rbind (recheck i bdesc prev s) (\<lambda>(bdesc, prev).
     rbind (if prev \<noteq> 0 then rbind (get_next_desc bdesc s) (\<lambda>n. set_next_desc prev n s)
            else if first_bucket s i \<noteq> bdesc then Inl Panic
            else rbind (get_next_desc bdesc s) (\<lambda>n. Inr (set_first i n s))) (\<lambda>s.
     rbind (get_page bdesc s) (\<lambda>p.
     rbind (free_kpage (word_of_nat p) 1 s) (\<lambda>s.
     rbind (set_next_desc bdesc (free_bucket_desc s) s) (\<lambda>s.
     Inr (s\<lparr>free_bucket_desc := bdesc\<rparr>))))))"

definition free_give :: "nat \<Rightarrow> nat \<Rightarrow> nat \<Rightarrow> nat \<Rightarrow> 'a heap_mem_scheme \<Rightarrow> 'a heap_mem_scheme res" where
  "free_give obj i bdesc prev s =
     (let IF_stat = get_IF s; s = set_IF False s in
      rbind (get_freeptr bdesc s) (\<lambda>p.
      rbind (wr obj p s) (\<lambda>s.
      rbind (set_freeptr bdesc obj s) (\<lambda>s.
      rbind (get_refcnt bdesc s) (\<lambda>r.
      rbind (set_refcnt bdesc (r + 2 ^ 16 - 1) s) (\<lambda>s.
      rbind (get_refcnt bdesc s) (\<lambda>r.
      rbind (if r = 0 then unlink_bucket i bdesc prev s else Inr s) (\<lambda>s.
      Inr (set_IF IF_stat s)))))))))"

definition free_s :: "nat \<Rightarrow> nat \<Rightarrow> 'a heap_mem_scheme \<Rightarrow> 'a heap_mem_scheme res" where
  "free_s obj siz s =
     rbind (free_find bucket_sizes 0 (obj div unat PAGE_SIZE * unat PAGE_SIZE) siz s) (\<lambda>(i, bdesc, prev).
     free_give obj i bdesc prev s)"

end
