(* ===== verification/Malloc_Proofs.thy ===== *)
theory Malloc_Proofs
  imports Malloc
begin

text \<open>
  The invariant of the bucket allocator and its preservation. The lists the memory holds are
  given explicitly: the descriptors \<open>bk\<close> with their directory entry, page number and free
  blocks, the chain \<open>C i\<close> of each entry, the free descriptors \<open>F\<close> and the pages \<open>DP\<close> that
  hold descriptors. A block is live when it belongs to a bucket and is not free.
\<close>

section \<open>The words of the memory\<close>

text \<open>
  The allocator only accesses words at multiples of 4. \<open>wm\<close> is the memory as these words, with 0
  at the other addresses, and \<open>set_wm\<close> is a memory with given words. Bytes and words
  determine each other.
\<close>

definition wm :: "'a heap_mem_scheme \<Rightarrow> nat \<Rightarrow> nat" where
  "wm s = (\<lambda>a. if 4 dvd a then word_at (bytes s) a else 0)"

definition bytes_of :: "(nat \<Rightarrow> nat) \<Rightarrow> nat \<Rightarrow> u8" where
  "bytes_of m = (\<lambda>x. word_of_nat (m (x - x mod 4) div 2 ^ (8 * (x mod 4))))"

definition set_wm :: "(nat \<Rightarrow> nat) \<Rightarrow> 'a heap_mem_scheme \<Rightarrow> 'a heap_mem_scheme" where
  "set_wm m s = s\<lparr>bytes := bytes_of m\<rparr>"

text \<open>The functions that are words of a memory.\<close>

definition words_ok :: "(nat \<Rightarrow> nat) \<Rightarrow> bool" where
  "words_ok m \<longleftrightarrow> (\<forall>a. m a < 4294967296 \<and> (\<not> 4 dvd a \<longrightarrow> m a = 0))"

lemma digits_sum: "256 * q + a = v \<Longrightarrow> 256 * r + b = q \<Longrightarrow> 256 * t + c = r \<Longrightarrow> a + 256 * b + 65536 * c + 16777216 * t = v"
  for v :: nat by linarith

lemma byte_digits:
  fixes v :: nat
  assumes "v < 4294967296"
  shows "v mod 256 + 256 * (v div 256 mod 256) + 65536 * (v div 65536 mod 256) + 16777216 * (v div 16777216 mod 256) = v"
proof -
  define q where "q = v div 256"
  define r where "r = q div 256"
  define t where "t = r div 256"
  have "v div 65536 = r" "v div 16777216 = t" by (simp_all add: q_def r_def t_def flip: div_mult2_eq)
  moreover have "256 * q + v mod 256 = v" "256 * r + q mod 256 = q" "256 * t + r mod 256 = r"
    by (simp_all only: q_def r_def t_def mult_div_mod_eq)
  moreover have "t mod 256 = t" using assms calculation(2) by (simp add: less_mult_imp_div_less)
  moreover have "v div 256 = q" by (simp only: q_def)
  ultimately show ?thesis using digits_sum [of q "v mod 256" v r "q mod 256" t "r mod 256"] by (simp only:)
qed

text \<open>Bytes put together, and taken apart again.\<close>

lemma byte_of_digits:
  fixes a b c e :: nat
  assumes "a < 256" "b < 256" "c < 256" "e < 256"
  defines "w \<equiv> a + 256 * b + 65536 * c + 16777216 * e"
  shows "w mod 256 = a" "w div 256 mod 256 = b" "w div 65536 mod 256 = c" "w div 16777216 mod 256 = e"
proof -
  have s: "(x + 256 * y) mod 256 = x" "(x + 256 * y) div 256 = y" if "x < 256" for x y :: nat
    using that by simp_all
  have w: "w = a + 256 * (b + 256 * (c + 256 * e))" by (simp add: w_def)
  have d: "w div 65536 = w div 256 div 256" "w div 16777216 = w div 256 div 256 div 256" by (simp_all flip: div_mult2_eq)
  show "w mod 256 = a" "w div 256 mod 256 = b" "w div 65536 mod 256 = c" "w div 16777216 mod 256 = e"
    unfolding d unfolding w using assms(1-4) by (simp_all only: s mod_less)
qed

lemma unat_byte_of [simp]: "unat (word_of_nat v :: u8) = v mod 256"
  by (simp add: unat_of_nat)

lemma unat_u8: "unat (b :: u8) < 256"
  using unsigned_less [of b, where ?'a = nat] by simp

lemma word_at_less: "word_at m a < 4294967296"
  using unat_u8 [of "m a"] unat_u8 [of "m (a + 1)"] unat_u8 [of "m (a + 2)"] unat_u8 [of "m (a + 3)"]
  by (simp add: word_at_def)

lemma word_at_put: "v < 4294967296 \<Longrightarrow> word_at (put_word a v m) a = v"
  using byte_digits [of v] by (simp add: word_at_def put_word_def)

lemma word_at_far: "a + 4 \<le> b \<or> b + 4 \<le> a \<Longrightarrow> word_at (put_word a v m) b = word_at m b"
  by (auto simp: word_at_def put_word_def)

lemma wm_ok [simp]: "words_ok (wm s)"
  by (simp add: words_ok_def wm_def word_at_less)

lemma wm_less [simp]: "wm s a < 4294967296"
  using word_at_less [of "bytes s" a] by (simp add: wm_def)

lemma words_ok_upd [simp]: "words_ok m \<Longrightarrow> 4 dvd a \<Longrightarrow> v < 4294967296 \<Longrightarrow> words_ok (m(a := v))"
  by (simp add: words_ok_def)

lemma wm_put: "4 dvd a \<Longrightarrow> v < 4294967296 \<Longrightarrow> wm (s\<lparr>bytes := put_word a v (bytes s)\<rparr>) = (wm s)(a := v)"
proof
  fix b assume h: "4 dvd a" "v < 4294967296"
  have "a + 4 \<le> b \<or> b + 4 \<le> a" if "4 dvd b" "b \<noteq> a"
    using h(1) that by (elim dvdE) auto
  with h show "wm (s\<lparr>bytes := put_word a v (bytes s)\<rparr>) b = ((wm s)(a := v)) b"
    by (auto simp: wm_def word_at_put word_at_far)
qed

text \<open>A byte out of its word.\<close>

lemma word_at_byte:
  assumes "k < 4"
  shows "word_of_nat (word_at m a div 2 ^ (8 * k)) = m (a + k)"
proof -
  note d = byte_of_digits [OF unat_u8 [of "m a"] unat_u8 [of "m (a + 1)"] unat_u8 [of "m (a + 2)"] unat_u8 [of "m (a + 3)"]]
  have w: "word_at m a = unat (m a) + 256 * unat (m (a + 1)) + 65536 * unat (m (a + 2)) + 16777216 * unat (m (a + 3))"
    by (simp add: word_at_def)
  consider "k = 0" | "k = 1" | "k = 2" | "k = 3" using assms by linarith
  then have "word_at m a div 2 ^ (8 * k) mod 256 = unat (m (a + k))"
    by cases (simp_all only: w, use d in simp_all)
  then show ?thesis by (simp add: word_unat_eq_iff)
qed

lemma bytes_of_wm: "bytes_of (wm s) = bytes s"
proof
  fix x :: nat
  have "4 dvd x - x mod 4" "x mod 4 < 4" "x - x mod 4 + x mod 4 = x" by (simp_all add: dvd_minus_mod)
  with word_at_byte [of "x mod 4" "bytes s" "x - x mod 4"] show "bytes_of (wm s) x = bytes s x"
    by (simp add: bytes_of_def wm_def)
qed

lemma set_wm_same [simp]: "set_wm (wm s) s = s"
  by (simp add: set_wm_def bytes_of_wm)

lemma wm_set_wm [simp]: "words_ok m \<Longrightarrow> wm (set_wm m s) = m"
proof
  fix a assume m: "words_ok m"
  show "wm (set_wm m s) a = m a"
  proof (cases "4 dvd a")
    case True
    have k: "(a + k) mod 4 = k" "a + k - k = a" if "k < 4" for k using True that by (auto elim!: dvdE)
    have "m a < 4294967296" using m by (simp add: words_ok_def)
    with byte_digits [of "m a"] k [of 0] k [of 1] k [of 2] k [of 3] True show ?thesis
      by (simp add: wm_def set_wm_def bytes_of_def word_at_def)
  next
    case False
    with m show ?thesis by (simp add: wm_def words_ok_def)
  qed
qed

lemma set_wm_fields [simp]:
  "first_bucket (set_wm m s) = first_bucket s" "free_bucket_desc (set_wm m s) = free_bucket_desc s"
  "v_bit_map (set_wm m s) = v_bit_map s" "iflag (set_wm m s) = iflag s" "bytes (set_wm m s) = bytes_of m"
  "set_wm m (set_wm m' s) = set_wm m s"
  "(set_wm m s)\<lparr>first_bucket := f\<rparr> = set_wm m (s\<lparr>first_bucket := f\<rparr>)"
  "(set_wm m s)\<lparr>free_bucket_desc := p\<rparr> = set_wm m (s\<lparr>free_bucket_desc := p\<rparr>)"
  "(set_wm m s)\<lparr>v_bit_map := v\<rparr> = set_wm m (s\<lparr>v_bit_map := v\<rparr>)" "(set_wm m s)\<lparr>iflag := b\<rparr> = set_wm m (s\<lparr>iflag := b\<rparr>)"
  by (simp_all add: set_wm_def)

lemma wm_fields [simp]:
  "wm (s\<lparr>first_bucket := f\<rparr>) = wm s" "wm (s\<lparr>free_bucket_desc := p\<rparr>) = wm s" "wm (s\<lparr>v_bit_map := v\<rparr>) = wm s" "wm (s\<lparr>iflag := b\<rparr>) = wm s"
  by (simp_all add: wm_def fun_eq_iff)

lemma rd_ok [simp]: "4096 \<le> a \<Longrightarrow> 4 dvd a \<Longrightarrow> rd a s = Inr (wm s a)"
  by (simp add: rd_def wm_def PAGE_SIZE_def)

lemma wr_ok [simp]: "4096 \<le> a \<Longrightarrow> 4 dvd a \<Longrightarrow> v < 4294967296 \<Longrightarrow> wr a v s = Inr (set_wm ((wm s)(a := v)) s)"
proof -
  assume h: "4096 \<le> a" "4 dvd a" "v < 4294967296"
  let ?s = "s\<lparr>bytes := put_word a v (bytes s)\<rparr>"
  have "bytes_of ((wm s)(a := v)) = bytes ?s" using wm_put [OF h(2), of v s] h(3) bytes_of_wm [of ?s] by simp
  with h(1) show ?thesis by (simp add: wr_def set_wm_def PAGE_SIZE_def)
qed

text \<open>The bytes of a word that is kept are kept.\<close>

lemma bytes_eq: "wm s' (x - x mod 4) = wm s (x - x mod 4) \<Longrightarrow> bytes s' x = bytes s x"
proof -
  assume "wm s' (x - x mod 4) = wm s (x - x mod 4)"
  then have "bytes_of (wm s') x = bytes_of (wm s) x" unfolding bytes_of_def by (simp only:)
  then show ?thesis by (simp only: bytes_of_wm)
qed

lemma wm_eq: "(\<And>k. k < 4 \<Longrightarrow> bytes s' (a + k) = bytes s (a + k)) \<Longrightarrow> wm s' a = wm s a"
proof -
  assume h: "\<And>k. k < 4 \<Longrightarrow> bytes s' (a + k) = bytes s (a + k)"
  show ?thesis using h [of 0] h [of 1] h [of 2] h [of 3] by (simp add: wm_def word_at_def)
qed

section \<open>Lists threaded through the memory\<close>

definition addr_ok :: "nat \<Rightarrow> bool" where
  "addr_ok x \<longleftrightarrow> 4096 \<le> x \<and> 4 dvd x \<and> x < 4294967296"

lemma addr_okD: "addr_ok x \<Longrightarrow> 4096 \<le> x" "addr_ok x \<Longrightarrow> 4 dvd x" "addr_ok x \<Longrightarrow> x < 4294967296"
  by (simp_all add: addr_ok_def)

primrec chain :: "(nat \<Rightarrow> nat) \<Rightarrow> nat \<Rightarrow> nat list \<Rightarrow> bool" where
  "chain m p [] \<longleftrightarrow> p = 0"
| "chain m p (x # xs) \<longleftrightarrow> p = x \<and> addr_ok x \<and> chain m (m x) xs"

lemma chain_cong: "\<forall>x \<in> set xs. m' x = m x \<Longrightarrow> chain m' p xs = chain m p xs"
  by (induction xs arbitrary: p) auto

lemma chain_upd [simp]: "x \<notin> set xs \<Longrightarrow> chain (m(x := v)) p xs = chain m p xs"
  by (rule chain_cong) auto

lemma chain_0: "chain m 0 xs \<longleftrightarrow> xs = []"
  by (cases xs) (auto simp: addr_ok_def)

lemma chain_Cons: "chain m p xs \<Longrightarrow> p \<noteq> 0 \<Longrightarrow> \<exists>ys. xs = p # ys \<and> addr_ok p \<and> chain m (m p) ys"
  by (cases xs) auto

lemma chain_split: "chain m p (xs @ y # ys) \<Longrightarrow> chain m y (y # ys) \<and> (xs = [] \<longrightarrow> p = y) \<and> (xs \<noteq> [] \<longrightarrow> m (last xs) = y)"
proof (induction xs arbitrary: p)
  case (Cons x xs)
  then have "chain m (m x) (xs @ y # ys)" by simp
  from Cons.IH [OF this] show ?case by simp
qed simp

lemma chain_remove:
  "chain m p (xs @ y # ys) \<Longrightarrow> distinct (xs @ y # ys) \<Longrightarrow> xs \<noteq> [] \<Longrightarrow> chain (m(last xs := m y)) p (xs @ ys)"
proof (induction xs arbitrary: p)
  case (Cons x xs)
  show ?case
  proof (cases "xs = []")
    case True
    with Cons.prems have c: "p = x" "addr_ok x" "m x = y" "chain m (m y) ys" "x \<notin> set ys" by simp_all
    have "chain (m(x := m y)) (m y) ys" using c(4,5) by (simp only: chain_upd not_False_eq_True)
    moreover have "(m(last (x # xs) := m y)) = m(x := m y)" "(m(x := m y)) x = m y" using True by simp_all
    ultimately show ?thesis using c True by (simp only: append_Nil append_Cons chain.simps(2))
  next
    case False
    from Cons.prems have c: "chain m (m x) (xs @ y # ys)" "distinct (xs @ y # ys)" "p = x" "addr_ok x" by simp_all
    have IH: "chain (m(last xs := m y)) (m x) (xs @ ys)" by (rule Cons.IH [OF c(1,2) False])
    have l: "last (x # xs) = last xs" "(m(last xs := m y)) x = m x"
      using False Cons.prems by auto
    show ?thesis using IH c(3,4) by (simp only: l append_Cons chain.simps(2) simp_thms)
  qed
qed simp

section \<open>Addresses\<close>

lemma page_size [simp]: "unat PAGE_SIZE = 4096"
  by (simp add: PAGE_SIZE_def)

lemma desc_apart: "16 dvd d \<Longrightarrow> 16 dvd d' \<Longrightarrow> d \<noteq> d' \<Longrightarrow> a < 16 \<Longrightarrow> b < 16 \<Longrightarrow> d + a \<noteq> d' + b" for d :: nat
  by (auto elim!: dvdE)

lemma desc_page: "16 dvd d \<Longrightarrow> a < 16 \<Longrightarrow> (d + a) div 4096 = d div 4096" for d :: nat
proof (elim dvdE)
  fix k assume "a < 16" "d = 16 * k"
  then have "(d + a) div (16 * 256) = d div (16 * 256)" by (simp only: div_mult2_eq) simp
  then show ?thesis by simp
qed

definition bsize :: "nat \<Rightarrow> nat" where
  "bsize i = 16 * 2 ^ i"

lemma less_9: "i < 9 \<longleftrightarrow> i \<in> {0, 1, 2, 3, 4, 5, 6, 7, 8 :: nat}"
  by auto

lemma bucket_sizes_nth [simp]: "i < 9 \<Longrightarrow> bucket_sizes ! i = bsize i"
  by (auto simp: less_9 bucket_sizes_def bsize_def)

lemma bsize_simps: "0 < bsize i" "i < 9 \<Longrightarrow> bsize i dvd 4096" "i < 9 \<Longrightarrow> 0 < 4096 div bsize i" "i < 9 \<Longrightarrow> bsize i \<le> 4096"
  "i < 9 \<Longrightarrow> 4096 div bsize i \<le> 256"
  by (auto simp: less_9 bsize_def)

text \<open>The blocks of size \<open>z\<close> in page \<open>P\<close>.\<close>

definition blocks_of :: "nat \<Rightarrow> nat \<Rightarrow> nat set" where
  "blocks_of z P = {a. a div 4096 = P \<and> z dvd a}"

lemma blocks_of_eq:
  assumes "z dvd 4096" "0 < z"
  shows "blocks_of z P = (\<lambda>k. P * 4096 + k * z) ` {..<4096 div z}"
proof -
  from assms obtain n where n: "4096 = z * n" "4096 div z = n" "0 < n" by (metis dvdE gr0I mult_0_right nonzero_mult_div_cancel_left zero_neq_numeral neq0_conv)
  have 1: "\<exists>k<n. a = P * 4096 + k * z" if "a div 4096 = P" "z dvd a" for a
  proof -
    have "a = P * 4096 + a mod 4096" using that(1) by (metis div_mult_mod_eq)
    moreover have "z dvd a mod 4096" using that(2) assms(1) by (simp add: dvd_mod)
    then obtain k where k: "a mod 4096 = k * z" by (metis dvdE mult.commute)
    moreover have "k * z < n * z" using k mod_less_divisor [of 4096 a] n(1) by (simp add: mult.commute)
    ultimately show ?thesis by (intro exI [of _ k]) auto
  qed
  have 2: "(P * 4096 + k * z) div 4096 = P \<and> z dvd P * 4096 + k * z" if "k < n" for k
  proof -
    have "k * z < 4096" unfolding n(1) using that assms(2) by (simp add: mult.commute)
    then show ?thesis using assms(1) by (simp add: dvd_add)
  qed
  show ?thesis using 1 2 by (auto simp: blocks_of_def n(2) image_iff)
qed

lemma card_blocks_of: "z dvd 4096 \<Longrightarrow> 0 < z \<Longrightarrow> card (blocks_of z P) = 4096 div z"
  by (simp add: blocks_of_eq card_image inj_on_def)

lemma finite_blocks_of: "z dvd 4096 \<Longrightarrow> 0 < z \<Longrightarrow> finite (blocks_of z P)"
  by (simp add: blocks_of_eq)

text \<open>A block stays within its page, and blocks of one size overlap only if they are equal.\<close>

lemma block_page:
  assumes "a \<in> blocks_of z P" "z dvd 4096" "x \<in> {a..<a + z}"
  shows "x div 4096 = P"
proof -
  have "0 < z" using assms(3) by simp
  with assms obtain k where k: "a = P * 4096 + k * z" "k < 4096 div z" by (auto simp: blocks_of_eq)
  have "(k + 1) * z \<le> 4096 div z * z" using k(2) by (intro mult_right_mono) auto
  also have "\<dots> = 4096" using assms(2) by simp
  finally have "x - P * 4096 < 4096" "P * 4096 \<le> x" using assms(3) k(1) by auto
  then show ?thesis by (metis add.commute div_mult_self3 le_add_diff_inverse div_less add_0 zero_neq_numeral)
qed

lemma block_apart:
  assumes "a \<in> blocks_of z P" "b \<in> blocks_of z P'" "a \<noteq> b" "0 < z"
  shows "{a..<a + z} \<inter> {b..<b + z} = {}"
proof -
  have d: "x div z = c div z" if "x \<in> {c..<c + z}" "z dvd c" for x c
  proof -
    from that(2) obtain k where "c = z * k" by (elim dvdE)
    with that(1) assms(4) show ?thesis by (auto intro!: div_nat_eqI)
  qed
  show ?thesis
  proof (rule ccontr)
    assume "{a..<a + z} \<inter> {b..<b + z} \<noteq> {}"
    then obtain x where "x \<in> {a..<a + z}" "x \<in> {b..<b + z}" by blast
    with d [of x a] d [of x b] assms(1,2) have "a div z = b div z" by (simp add: blocks_of_def)
    with assms(1-3) show False by (metis (mono_tags, lifting) blocks_of_def dvd_div_mult_self mem_Collect_eq)
  qed
qed

section \<open>The invariant\<close>

type_synonym bucket_map = "nat \<Rightarrow> (nat \<times> nat \<times> nat list) option"

definition bucket_ok :: "(nat \<Rightarrow> nat) \<Rightarrow> nat \<Rightarrow> nat \<Rightarrow> nat \<Rightarrow> nat list \<Rightarrow> bool" where
  "bucket_ok m d i P fs \<longleftrightarrow> m (d + 4) = P * 4096 \<and> chain m (m (d + 8)) fs \<and> distinct fs \<and>
     set fs \<subseteq> blocks_of (bsize i) P \<and> m (d + 12) mod 2 ^ 16 + length fs = 4096 div bsize i"

abbreviation used_pages :: "'a heap_mem_scheme \<Rightarrow> nat set" where
  "used_pages s \<equiv> pages_used (v_bit_map s)"

definition desc_at :: "nat set \<Rightarrow> nat \<Rightarrow> bool" where
  "desc_at DP d \<longleftrightarrow> 16 dvd d \<and> d div 4096 \<in> DP"

definition chains_ok :: "(nat \<Rightarrow> nat) \<Rightarrow> (nat \<Rightarrow> nat) \<Rightarrow> bucket_map \<Rightarrow> (nat \<Rightarrow> nat list) \<Rightarrow> bool" where
  "chains_ok m first bk C \<longleftrightarrow> (\<forall>i<9. chain m (first i) (C i) \<and> distinct (C i) \<and>
     set (C i) = {d. \<exists>P fs. bk d = Some (i, P, fs)})"

lemma chains_okD:
  assumes "chains_ok m first bk C" "i < 9"
  shows "chain m (first i) (C i)" "distinct (C i)" "set (C i) = {d. \<exists>P fs. bk d = Some (i, P, fs)}"
  using assms by (auto simp: chains_ok_def)

definition buckets_ok :: "(nat \<Rightarrow> nat) \<Rightarrow> nat set \<Rightarrow> nat set \<Rightarrow> bucket_map \<Rightarrow> bool" where
  "buckets_ok m U DP bk \<longleftrightarrow>
     (\<forall>d i P fs. bk d = Some (i, P, fs) \<longrightarrow> i < 9 \<and> bucket_ok m d i P fs \<and> P \<in> U \<and> P \<notin> DP \<and> desc_at DP d) \<and>
     (\<forall>d d' i i' P fs fs'. bk d = Some (i, P, fs) \<longrightarrow> bk d' = Some (i', P, fs') \<longrightarrow> d = d')"

definition free_ok :: "(nat \<Rightarrow> nat) \<Rightarrow> nat \<Rightarrow> nat set \<Rightarrow> bucket_map \<Rightarrow> nat list \<Rightarrow> bool" where
  "free_ok m p DP bk F \<longleftrightarrow> chain m p F \<and> distinct F \<and> (\<forall>d \<in> set F. bk d = None \<and> desc_at DP d)"

definition heap_inv :: "'a heap_mem_scheme \<Rightarrow> bucket_map \<Rightarrow> (nat \<Rightarrow> nat list) \<Rightarrow> nat list \<Rightarrow> nat set \<Rightarrow> bool" where
  "heap_inv s bk C F DP \<longleftrightarrow> vmap_wf (v_bit_map s) \<and> chains_ok (wm s) (first_bucket s) bk C \<and>
     buckets_ok (wm s) (used_pages s) DP bk \<and> free_ok (wm s) (free_bucket_desc s) DP bk F \<and> DP \<subseteq> used_pages s"

definition live :: "bucket_map \<Rightarrow> (nat \<times> nat) set" where
  "live bk = {(a, bsize i) |a i. \<exists>d P fs. bk d = Some (i, P, fs) \<and> a \<in> blocks_of (bsize i) P \<and> a \<notin> set fs}"

lemma in_live: "(a, z) \<in> live bk \<longleftrightarrow>
    (\<exists>d i P fs. bk d = Some (i, P, fs) \<and> z = bsize i \<and> a \<in> blocks_of (bsize i) P \<and> a \<notin> set fs)"
  by (auto simp: live_def)

lemma in_live_page: "(x, z) \<in> live bk \<longleftrightarrow>
    (\<exists>d i fs. bk d = Some (i, x div 4096, fs) \<and> z = bsize i \<and> bsize i dvd x \<and> x \<notin> set fs)"
  by (auto simp: in_live blocks_of_def)

lemma live_upd:
  assumes h: "bk d = Some (i, P, fs)" "a \<in> blocks_of (bsize i) P" "a \<notin> set fs"
    "\<And>d' i' fs'. bk d' = Some (i', P, fs') \<Longrightarrow> d' = d"
  shows "live (bk(d \<mapsto> (i, P, a # fs))) = live bk - {(a, bsize i)}"
proof -
  have "(x, z) \<in> live (bk(d \<mapsto> (i, P, a # fs))) \<longleftrightarrow> (x, z) \<in> live bk - {(a, bsize i)}" for x z
  proof (cases "x div 4096 = P")
    case True
    have 1: "(x, z) \<in> live b \<longleftrightarrow> z = bsize i \<and> x \<in> blocks_of (bsize i) P \<and> x \<notin> set gs"
      if "b d = Some (i, P, gs)" "\<And>d' i' fs'. b d' = Some (i', P, fs') \<Longrightarrow> d' = d" for b gs
    proof -
      have "(x, z) \<in> live b \<longleftrightarrow> (\<exists>d' j hs. b d' = Some (j, P, hs) \<and> z = bsize j \<and> bsize j dvd x \<and> x \<notin> set hs)"
        using True by (simp add: in_live_page)
      also have "\<dots> \<longleftrightarrow> z = bsize i \<and> bsize i dvd x \<and> x \<notin> set gs"
      proof -
        have "b d' = Some (j, P, hs) \<longleftrightarrow> d' = d \<and> j = i \<and> hs = gs" for d' j hs
          using that(1) that(2) [of d' j hs] by auto
        then show ?thesis by auto
      qed
      finally show ?thesis using True by (simp add: blocks_of_def)
    qed
    have 2: "d' = d" if "(bk(d \<mapsto> (i, P, a # fs))) d' = Some (i', P, fs')" for d' i' fs'
      using that h(4) by (auto split: if_splits)
    show ?thesis using h(1,3) 1 [of bk fs, OF h(1) h(4)] 1 [of "bk(d \<mapsto> (i, P, a # fs))" "a # fs", OF _ 2] by auto
  next
    case False
    then have "a \<noteq> x" using h(2) by (auto simp: blocks_of_def)
    moreover have "(x, z) \<in> live (bk(d \<mapsto> (i, P, gs))) \<longleftrightarrow> (x, z) \<in> live bk" for gs
    proof -
      have "(bk(d \<mapsto> (i, P, gs))) d' = Some (j, x div 4096, hs) \<longleftrightarrow> bk d' = Some (j, x div 4096, hs)" for d' j hs
        using False h(1) by auto
      then show ?thesis by (simp only: in_live_page)
    qed
    ultimately show ?thesis by auto
  qed
  then show ?thesis by auto
qed

section \<open>Frames\<close>

lemma chains_cong:
  assumes "chains_ok m first bk C" "\<And>d j P fs. bk d = Some (j, P, fs) \<Longrightarrow> m' d = m d"
  shows "chains_ok m' first bk C"
  unfolding chains_ok_def
proof (intro allI impI)
  fix i :: nat assume "i < 9"
  with assms(1) have c: "chain m (first i) (C i)" "distinct (C i)" "set (C i) = {d. \<exists>P fs. bk d = Some (i, P, fs)}"
    by (auto simp: chains_ok_def)
  then have "\<forall>x \<in> set (C i). m' x = m x" using assms(2) by auto
  with c chain_cong [of "C i" m' m] show "chain m' (first i) (C i) \<and> distinct (C i) \<and>
    set (C i) = {d. \<exists>P fs. bk d = Some (i, P, fs)}" by simp
qed

lemma bucket_ok_cong:
  assumes "\<And>k. 0 < k \<Longrightarrow> k < 16 \<Longrightarrow> m' (d + k) = m (d + k)" "\<And>x. x div 4096 = P \<Longrightarrow> m' x = m x"
  shows "bucket_ok m' d i P fs = bucket_ok m d i P fs"
proof (cases "set fs \<subseteq> blocks_of (bsize i) P")
  case True
  then have "chain m' p fs = chain m p fs" for p
    by (intro chain_cong) (auto simp: blocks_of_def intro!: assms(2))
  then show ?thesis by (simp add: bucket_ok_def assms(1))
qed (simp add: bucket_ok_def)

text \<open>Writes to the descriptor \<open>d\<close> and to the page \<open>P\<close>.\<close>

definition touches :: "nat \<Rightarrow> nat \<Rightarrow> (nat \<Rightarrow> nat) \<Rightarrow> (nat \<Rightarrow> nat) \<Rightarrow> bool" where
  "touches d P m m' \<longleftrightarrow> (\<forall>x. m' x = m x \<or> (d \<le> x \<and> x < d + 16) \<or> x div 4096 = P)"

lemma touches_trans: "touches d P m m1 \<Longrightarrow> touches d P m1 m2 \<Longrightarrow> touches d P m m2"
  by (simp add: touches_def) metis

lemma touches_upd: "touches d P m m' \<Longrightarrow> (d \<le> a \<and> a < d + 16) \<or> a div 4096 = P \<Longrightarrow> touches d P m (m'(a := v))"
  by (auto simp: touches_def)

lemma touches_desc:
  assumes "touches d P m m'" "desc_at DP d" "desc_at DP d'" "d' \<noteq> d" "P \<notin> DP" "k < 16"
  shows "m' (d' + k) = m (d' + k)"
proof -
  from assms have "(d' + k) div 4096 \<noteq> P" by (auto simp: desc_at_def desc_page)
  moreover have "d' + k \<noteq> d + j" if "j < 16" for j
    using assms desc_apart [of d' d k j] that by (auto simp: desc_at_def)
  then have "\<not> (d \<le> d' + k \<and> d' + k < d + 16)" by (metis add_less_cancel_left le_iff_add)
  ultimately show ?thesis using assms(1) by (auto simp: touches_def)
qed

lemma touches_page:
  assumes "touches d P m m'" "desc_at DP d" "Q \<notin> DP" "Q \<noteq> P" "x div 4096 = Q"
  shows "m' x = m x"
proof -
  have "x div 4096 = d div 4096" if "d \<le> x" "x < d + 16"
    using desc_page [of d "x - d"] that assms(2) by (simp add: desc_at_def)
  with assms show ?thesis by (auto simp: touches_def desc_at_def)
qed

lemma touches_buckets:
  assumes "buckets_ok m U DP bk" "touches d P m m'" "desc_at DP d" "P \<notin> DP"
    "bk d' = Some (i', P', fs')" "d' \<noteq> d" "P' \<noteq> P"
  shows "bucket_ok m' d' i' P' fs'"
proof -
  from assms(1,5) have b: "bucket_ok m d' i' P' fs'" "desc_at DP d'" "P' \<notin> DP" by (auto simp: buckets_ok_def)
  have "m' (d' + k) = m (d' + k)" if "k < 16" for k
    by (rule touches_desc [OF assms(2,3) b(2) assms(6,4) that])
  moreover have "m' x = m x" if "x div 4096 = P'" for x
    by (rule touches_page [OF assms(2,3) b(3) assms(7) that])
  ultimately show ?thesis using b(1) bucket_ok_cong [of m' d' m P'] by blast
qed

section \<open>Changes of the lists\<close>

text \<open>A change of the free blocks of one bucket, for taking and for releasing a block.\<close>

lemma heap_inv_bucket:
  assumes inv: "heap_inv s bk C F DP" and b: "bk d = Some (i, P, fs)"
    and w: "touches d P (wm s) (wm s')" "wm s' d = wm s d" "bucket_ok (wm s') d i P fs'"
    and e: "first_bucket s' = first_bucket s" "free_bucket_desc s' = free_bucket_desc s" "v_bit_map s' = v_bit_map s"
  shows "heap_inv s' (bk(d \<mapsto> (i, P, fs'))) C F DP"
proof -
  let ?bk = "bk(d \<mapsto> (i, P, fs'))"
  from inv have B: "buckets_ok (wm s) (used_pages s) DP bk" by (simp add: heap_inv_def)
  with b have d: "i < 9" "P \<in> used_pages s" "P \<notin> DP" "desc_at DP d" by (auto simp: buckets_ok_def)
  have next_eq: "wm s' d' = wm s d'" if "desc_at DP d'" for d'
    using w(2) touches_desc [OF w(1) d(4) that _ d(3), of 0] by (cases "d' = d") auto
  have dom: "desc_at DP d'" if "bk d' = Some (j, Q, gs)" for d' j Q gs using B that by (auto simp: buckets_ok_def)
  have "chains_ok (wm s') (first_bucket s') ?bk C"
  proof -
    have "chains_ok (wm s) (first_bucket s) ?bk C" using inv b by (fastforce simp: heap_inv_def chains_ok_def)
    moreover have "wm s' x = wm s x" if "?bk x = Some (j, Q, gs)" for x j Q gs
      using that dom next_eq d(4) by (auto split: if_splits)
    ultimately show ?thesis unfolding e by (rule chains_cong)
  qed
  moreover have "buckets_ok (wm s') (used_pages s') DP ?bk"
    unfolding buckets_ok_def
  proof (intro conjI allI impI)
    fix d1 d2 i1 i2 P1 fs1 fs2 assume "?bk d1 = Some (i1, P1, fs1)" "?bk d2 = Some (i2, P1, fs2)"
    then show "d1 = d2" using B b by (auto simp: buckets_ok_def split: if_splits)
  next
    fix d' i' P' gs assume h: "?bk d' = Some (i', P', gs)"
    show "i' < 9" "P' \<in> used_pages s'" "P' \<notin> DP" "desc_at DP d'"
      using h B d e(3) by (auto simp: buckets_ok_def split: if_splits)
    show "bucket_ok (wm s') d' i' P' gs"
    proof (cases "d' = d")
      case True
      with h w(3) show ?thesis by simp
    next
      case False
      with h have "bk d' = Some (i', P', gs)" by simp
      moreover have "P' \<noteq> P" using calculation B b False unfolding buckets_ok_def by blast
      ultimately show ?thesis using touches_buckets [OF B w(1) d(4,3) _ False] by simp
    qed
  qed
  moreover have "free_ok (wm s') (free_bucket_desc s') DP ?bk F"
  proof -
    from inv have f: "chain (wm s) (free_bucket_desc s) F" "distinct F" "\<forall>d \<in> set F. bk d = None \<and> desc_at DP d"
      by (auto simp: heap_inv_def free_ok_def)
    then have "chain (wm s') (free_bucket_desc s) F" using chain_cong [of F "wm s'" "wm s"] next_eq by blast
    with f b show ?thesis by (auto simp: free_ok_def e(2))
  qed
  ultimately show ?thesis using inv e(3) by (simp add: heap_inv_def)
qed

text \<open>Writes into pages that were not in use.\<close>

lemma heap_inv_fresh:
  assumes inv: "heap_inv s bk C F DP"
    and w: "\<And>x. x div 4096 \<in> used_pages s \<Longrightarrow> wm s' x = wm s x"
    and e: "first_bucket s' = first_bucket s" "free_bucket_desc s' = free_bucket_desc s"
      "vmap_wf (v_bit_map s')" "used_pages s \<subseteq> used_pages s'"
  shows "heap_inv s' bk C F DP"
proof -
  from inv have B: "buckets_ok (wm s) (used_pages s) DP bk" and DP: "DP \<subseteq> used_pages s" by (auto simp: heap_inv_def)
  have desc: "wm s' (d + k) = wm s (d + k)" if "desc_at DP d" "k < 16" for d k
    using that DP w by (auto simp: desc_at_def desc_page)
  have "wm s' d = wm s d" if "bk d = Some (j, P, fs)" for d j P fs
    using that B desc [of d 0] by (auto simp: buckets_ok_def)
  then have "chains_ok (wm s') (first_bucket s') bk C"
    using inv chains_cong [of "wm s"] by (auto simp: heap_inv_def e)
  moreover have "free_ok (wm s') (free_bucket_desc s') DP bk F"
  proof -
    from inv have f: "chain (wm s) (free_bucket_desc s) F" "distinct F" "\<forall>d \<in> set F. bk d = None \<and> desc_at DP d"
      by (auto simp: heap_inv_def free_ok_def)
    then have "\<forall>d \<in> set F. wm s' d = wm s d" using desc [of _ 0] by simp
    with f chain_cong [of F "wm s'" "wm s"] show ?thesis by (simp add: free_ok_def e)
  qed
  moreover have "bucket_ok (wm s') d i P fs" if "bk d = Some (i, P, fs)" for d i P fs
  proof -
    from that B have "bucket_ok (wm s) d i P fs" "desc_at DP d" "P \<in> used_pages s" by (auto simp: buckets_ok_def)
    then show ?thesis using bucket_ok_cong [of "wm s'" d "wm s" P, OF desc w] by simp
  qed
  then have "buckets_ok (wm s') (used_pages s') DP bk"
    using B e(4) unfolding buckets_ok_def by blast
  ultimately show ?thesis using DP e by (auto simp: heap_inv_def)
qed

text \<open>The head of the free descriptors becomes the head of the chain of an entry.\<close>

lemma heap_inv_new:
  assumes inv: "heap_inv s bk C (d # F) DP" and i: "i < 9" and P: "P \<notin> used_pages s"
    and w: "touches d P (wm s) (wm s')" "wm s' d = first_bucket s i" "bucket_ok (wm s') d i P fs"
    and e: "first_bucket s' = (first_bucket s)(i := d)" "free_bucket_desc s' = wm s d"
      "vmap_wf (v_bit_map s')" "used_pages s' = insert P (used_pages s)"
  shows "heap_inv s' (bk(d \<mapsto> (i, P, fs))) (C(i := d # C i)) F DP"
proof -
  let ?bk = "bk(d \<mapsto> (i, P, fs))" and ?C = "C(i := d # C i)"
  from inv have B: "buckets_ok (wm s) (used_pages s) DP bk" and DP: "DP \<subseteq> used_pages s"
    and f: "chain (wm s) (free_bucket_desc s) (d # F)" "distinct (d # F)" "\<forall>x \<in> set (d # F). bk x = None \<and> desc_at DP x"
    by (auto simp: heap_inv_def free_ok_def)
  with P have d: "desc_at DP d" "bk d = None" "P \<notin> DP" "addr_ok d" by auto
  have next_eq: "wm s' d' = wm s d'" if "desc_at DP d'" "d' \<noteq> d" for d'
    using touches_desc [OF w(1) d(1) that d(3), of 0] by simp
  have dom: "desc_at DP d' \<and> d' \<noteq> d" if "bk d' = Some (j, Q, gs)" for d' j Q gs
    using B that d(2) by (auto simp: buckets_ok_def)
  have "chains_ok (wm s') (first_bucket s') ?bk ?C"
    unfolding chains_ok_def
  proof (intro allI impI)
    fix j :: nat assume j: "j < 9"
    with inv have c: "chain (wm s) (first_bucket s j) (C j)" "distinct (C j)"
        "set (C j) = {d. \<exists>P fs. bk d = Some (j, P, fs)}"
      by (auto simp: heap_inv_def chains_ok_def)
    have "\<forall>x \<in> set (C j). wm s' x = wm s x" using c(3) dom next_eq by blast
    with c(1) chain_cong have "chain (wm s') (first_bucket s j) (C j)" by blast
    with c d(2,4) w(2) show "chain (wm s') (first_bucket s' j) (?C j) \<and> distinct (?C j) \<and>
        set (?C j) = {d. \<exists>P fs. ?bk d = Some (j, P, fs)}" by (auto simp: e(1))
  qed
  moreover have "buckets_ok (wm s') (used_pages s') DP ?bk"
    unfolding buckets_ok_def
  proof (intro conjI allI impI)
    fix d1 d2 i1 i2 P1 fs1 fs2 assume "?bk d1 = Some (i1, P1, fs1)" "?bk d2 = Some (i2, P1, fs2)"
    then show "d1 = d2" using B P by (auto simp: buckets_ok_def split: if_splits)
  next
    fix d' i' P' gs assume h: "?bk d' = Some (i', P', gs)"
    show "i' < 9" "P' \<in> used_pages s'" "P' \<notin> DP" "desc_at DP d'"
      using h B d(1,3) i e(4) by (auto simp: buckets_ok_def split: if_splits)
    show "bucket_ok (wm s') d' i' P' gs"
    proof (cases "d' = d")
      case True
      with h w(3) show ?thesis by simp
    next
      case False
      with h have "bk d' = Some (i', P', gs)" by simp
      moreover have "P' \<noteq> P" using calculation B P unfolding buckets_ok_def by blast
      ultimately show ?thesis using touches_buckets [OF B w(1) d(1,3) _ False] by simp
    qed
  qed
  moreover have "free_ok (wm s') (free_bucket_desc s') DP ?bk F"
  proof -
    have "chain (wm s) (wm s d) F" using f(1) by simp
    moreover have "\<forall>x \<in> set F. wm s' x = wm s x" using f next_eq by auto
    ultimately show ?thesis using f chain_cong [of F "wm s'" "wm s"] by (auto simp: free_ok_def e(2))
  qed
  ultimately show ?thesis using DP e(3,4) by (auto simp: heap_inv_def)
qed

text \<open>A descriptor leaves the chain of its entry and becomes the head of the free ones.\<close>

lemma heap_inv_unlink:
  assumes inv: "heap_inv s bk C F DP" and b: "bk d = Some (i, P, fs)" and C: "C i = xs @ d # ys"
    and w: "wm s' = (if xs = [] then wm s else (wm s)(last xs := wm s d))(d := free_bucket_desc s)"
    and e: "first_bucket s' = (if xs = [] then (first_bucket s)(i := wm s d) else first_bucket s)"
      "free_bucket_desc s' = d" "vmap_wf (v_bit_map s')" "used_pages s' = used_pages s - {P}"
  shows "heap_inv s' (bk(d := None)) (C(i := xs @ ys)) (d # F) DP"
proof -
  let ?bk = "bk(d := None)" and ?C = "C(i := xs @ ys)"
  from inv have B: "buckets_ok (wm s) (used_pages s) DP bk" and DP: "DP \<subseteq> used_pages s"
    and f: "chain (wm s) (free_bucket_desc s) F" "distinct F" "\<forall>x \<in> set F. bk x = None \<and> desc_at DP x"
    by (auto simp: heap_inv_def free_ok_def)
  with b have d: "desc_at DP d" "i < 9" "P \<notin> DP" by (auto simp: buckets_ok_def)
  from inv have ch: "chains_ok (wm s) (first_bucket s) bk C" by (simp add: heap_inv_def)
  note ci = chains_okD [OF ch d(2), unfolded C]
  have l: "desc_at DP (last xs) \<and> (\<exists>Q gs. bk (last xs) = Some (i, Q, gs))" if "xs \<noteq> []"
    using ci(3) last_in_set [OF that] B by (fastforce simp: buckets_ok_def)
  have same: "wm s' x = wm s x" if "x \<noteq> d" "xs = [] \<or> x \<noteq> last xs" for x
    using that w by auto
  have other: "wm s' (d' + k) = wm s (d' + k)" if "desc_at DP d'" "0 < k" "k < 16" for d' k
  proof (rule same)
    have "d' + k \<noteq> e" if "desc_at DP e" for e
    proof
      assume "d' + k = e"
      with \<open>desc_at DP d'\<close> \<open>desc_at DP e\<close> have "16 dvd k" by (metis desc_at_def dvd_add_right_iff)
      with \<open>0 < k\<close> \<open>k < 16\<close> show False by (auto dest: dvd_imp_le)
    qed
    with d(1) l show "d' + k \<noteq> d" "xs = [] \<or> d' + k \<noteq> last xs" by auto
  qed
  have page: "wm s' x = wm s x" if "x div 4096 \<notin> DP" for x
    using that d(1) l by (intro same) (auto simp: desc_at_def)
  have "chain (wm s') (first_bucket s' i) (xs @ ys)"
  proof (cases "xs = []")
    case True
    with ci have "chain (wm s) (wm s d) ys" "d \<notin> set ys" by auto
    with True show ?thesis by (simp only: w e append_Nil simp_thms if_True fun_upd_same chain_upd not_False_eq_True)
  next
    case False
    have "chain ((wm s)(last xs := wm s d)) (first_bucket s i) (xs @ ys)" by (rule chain_remove [OF ci(1,2) False])
    moreover have "d \<notin> set (xs @ ys)" using ci(2) by auto
    ultimately show ?thesis using False by (simp only: w e simp_thms if_False chain_upd not_False_eq_True)
  qed
  note own = this
  have "chains_ok (wm s') (first_bucket s') ?bk ?C"
    unfolding chains_ok_def
  proof (intro allI impI)
    fix j :: nat assume j: "j < 9"
    with inv have c: "chain (wm s) (first_bucket s j) (C j)" "distinct (C j)"
        "set (C j) = {d. \<exists>P fs. bk d = Some (j, P, fs)}"
      by (auto simp: heap_inv_def chains_ok_def)
    show "chain (wm s') (first_bucket s' j) (?C j) \<and> distinct (?C j) \<and>
        set (?C j) = {d. \<exists>P fs. ?bk d = Some (j, P, fs)}"
    proof (cases "j = i")
      case True
      have "set (xs @ ys) = {x. \<exists>P fs. ?bk x = Some (i, P, fs)}" using ci(2,3) by auto
      with True own ci(2) show ?thesis by auto
    next
      case False
      with c(3) b l have "\<forall>x \<in> set (C j). x \<noteq> d \<and> (xs = [] \<or> x \<noteq> last xs)" by auto
      then have "\<forall>x \<in> set (C j). wm s' x = wm s x" using same by blast
      with chain_cong c(1) have "chain (wm s') (first_bucket s j) (C j)" by blast
      with False c b show ?thesis by (auto simp: e(1))
    qed
  qed
  moreover have "bucket_ok (wm s') d' i' P' gs" if "bk d' = Some (i', P', gs)" for d' i' P' gs
  proof -
    from that B have h: "bucket_ok (wm s) d' i' P' gs" "desc_at DP d'" "P' \<notin> DP" by (auto simp: buckets_ok_def)
    then show ?thesis using bucket_ok_cong [of "wm s'" d' "wm s" P', OF other [OF h(2)] page] by simp
  qed
  then have "buckets_ok (wm s') (used_pages s') DP ?bk"
    using B b unfolding buckets_ok_def e(4) by (auto split: if_splits)
  moreover have "free_ok (wm s') (free_bucket_desc s') DP ?bk (d # F)"
  proof -
    have "\<forall>x \<in> set F. x \<noteq> d \<and> (xs = [] \<or> x \<noteq> last xs)" using f(3) b l by auto
    then have "\<forall>x \<in> set F. wm s' x = wm s x" using same by blast
    then have "chain (wm s') (free_bucket_desc s) F" using f(1) chain_cong by blast
    moreover have "wm s' d = free_bucket_desc s" "d \<notin> set F" using w f(3) b by auto
    moreover have "addr_ok d"
      using chain_split [OF ci(1)] by simp
    ultimately show ?thesis using f d(1) by (auto simp: free_ok_def e(2))
  qed
  moreover have "DP \<subseteq> used_pages s'" using DP d(3) e(4) by auto
  ultimately show ?thesis using e(3) by (simp add: heap_inv_def)
qed

end
