(* ===== verification/Malloc_Ops.thy ===== *)
theory Malloc_Ops
  imports Malloc_Proofs
begin

text \<open>
  What the steps of \<^verbatim>\<open>malloc\<close> and \<^verbatim>\<open>free_s\<close> do to the lists of the allocator: getting a page,
  linking its blocks, making descriptors and buckets, taking a block and searching a chain.
\<close>

section \<open>Memory accesses and pages\<close>

text \<open>The accesses to the fields of a descriptor.\<close>

lemma dvd4: "4 dvd d \<Longrightarrow> 4 dvd d + 4" "4 dvd d \<Longrightarrow> 4 dvd d + 8" "4 dvd d \<Longrightarrow> 4 dvd d + 12" for d :: nat
  by simp_all

lemma refcnt_less: "w < 4294967296 \<Longrightarrow> w div 65536 * 65536 + v mod 65536 < 4294967296" for w v :: nat
proof -
  assume "w < 4294967296"
  then have "w div 65536 < 65536" by (simp add: less_mult_imp_div_less)
  moreover have "v mod 65536 < 65536" by simp
  ultimately show ?thesis by linarith
qed

lemma desc_ops:
  assumes "4096 \<le> d" "4 dvd d"
  shows "get_next_desc d s = Inr (wm s d)" "get_page d s = Inr (wm s (d + 4))" "get_freeptr d s = Inr (wm s (d + 8))"
    "get_refcnt d s = Inr (wm s (d + 12) mod 65536)"
    "v < 4294967296 \<Longrightarrow> set_next_desc d v s = Inr (set_wm ((wm s)(d := v)) s)"
    "v < 4294967296 \<Longrightarrow> set_page d v s = Inr (set_wm ((wm s)(d + 4 := v)) s)"
    "v < 4294967296 \<Longrightarrow> set_freeptr d v s = Inr (set_wm ((wm s)(d + 8 := v)) s)"
    "set_refcnt d v s = Inr (set_wm ((wm s)(d + 12 := wm s (d + 12) div 65536 * 65536 + v mod 65536)) s)"
  using assms by (simp_all add: desc_defs dvd4 refcnt_less)

lemma desc_frame [simp]:
  "set_first i d (set_wm m s) = set_wm m (set_first i d s)" "set_IF b (set_wm m s) = set_wm m (set_IF b s)"
  "wm (set_first i d s) = wm s" "wm (set_IF b s) = wm s"
  by (simp_all add: set_first_def set_IF_def set_wm_def wm_def fun_eq_iff)

lemma chain_less: "chain m p xs \<Longrightarrow> p < 4294967296"
  by (cases xs) (auto simp: addr_ok_def)

definition unused_pages :: "'a heap_mem_scheme \<Rightarrow> nat set" where
  "unused_pages s = {unat (bm_offset (v_bit_map s))..<unat (bm_offset (v_bit_map s)) + bm_bits (v_bit_map s)} - used_pages s"

lemma get_free_page_spec:
  assumes "vmap_wf (v_bit_map s)"
  shows "unused_pages s = {} \<and> get_free_page s = Inr (0, s) \<or>
    (\<exists>P m. get_free_page s = Inr (P * 4096, s\<lparr>v_bit_map := m\<rparr>) \<and> P \<in> unused_pages s \<and> 0 < P \<and> P < 1048576 \<and> vmap_wf m \<and>
       pages_used m = insert P (used_pages s) \<and> unused_pages (s\<lparr>v_bit_map := m\<rparr>) = unused_pages s - {P})"
proof -
  let ?m = "v_bit_map s" let ?o = "unat (bm_offset ?m)"
  consider t m' where "bitmap_scan ?m 1 = Inr (int (t + ?o), m')" "free_run ?m 1 t" "bm_upd ?m m' {t..<t + 1} True"
    | "bitmap_scan ?m 1 = Inr (EOF, ?m)" "\<forall>t. \<not> free_run ?m 1 t"
    using bitmap_scan_spec [of ?m 1] assms by (auto simp: vmap_wf_def)
  then show ?thesis
  proof cases
    case 1
    have b: "t < bm_bits ?m" "\<not> bm_bit ?m t" using 1(2) by (auto simp: free_run_def)
    then have small: "t + ?o < 2 ^ 20" "0 < t + ?o" using assms by (auto simp: vmap_wf_def)
    have "int (t + ?o) \<noteq> EOF" by (simp only: EOF_def)
    then have "get_free_page s = Inr (unat (PAGE_ADDR (word_of_nat (t + ?o))), s\<lparr>v_bit_map := m'\<rparr>)"
      using 1(1) by (simp add: get_free_page_def alloc_kpage_eq alloc_page_def)
    moreover have "unat (PAGE_ADDR (word_of_nat (t + ?o))) = (t + ?o) * 4096"
    proof -
      have "PAGE_ADDR (word_of_nat (t + ?o)) = word_of_nat ((t + ?o) * 4096)"
        by (simp add: PAGE_ADDR_def push_bit_eq_mult)
      moreover have "(t + ?o) * 4096 < 2 ^ 32" using small(1) by simp
      ultimately show ?thesis by (simp only: unat_u32)
    qed
    moreover have "t + ?o \<in> unused_pages s" using b by (auto simp: unused_pages_def pages_used_def)
    moreover have u: "pages_used m' = insert (t + ?o) (used_pages s)" using bm_upd_used [OF 1(3)] b(1) by (auto simp: add.commute)
    moreover have "unused_pages (s\<lparr>v_bit_map := m'\<rparr>) = unused_pages s - {t + ?o}"
      using u bm_upd_wf(2) [OF 1(3)] 1(3) by (auto simp: unused_pages_def bm_upd_def)
    ultimately show ?thesis using assms bm_upd_vmap_wf [OF 1(3)] small by (auto simp del: add_gr_0)
  next
    case 2
    from 2(2) have "unused_pages s = {}"
      using assms by (fastforce simp: unused_pages_def pages_used_def free_run_def)
    with 2(1) show ?thesis by (simp add: get_free_page_def alloc_kpage_eq alloc_page_def)
  qed
qed

section \<open>Linking the blocks of a page\<close>

lemma link_blocks_spec:
  "4096 \<le> tmp \<Longrightarrow> 4 dvd tmp \<Longrightarrow> 4 dvd sz \<Longrightarrow> 0 < sz \<Longrightarrow> tmp + n * sz < 4294967296 \<Longrightarrow>
     \<exists>m. link_blocks n tmp sz s = Inr (tmp + n * sz, set_wm m s) \<and> words_ok m \<and>
       (\<forall>k < n. m (tmp + k * sz) = tmp + Suc k * sz) \<and> (\<forall>x. (\<forall>k < n. x \<noteq> tmp + k * sz) \<longrightarrow> m x = wm s x)"
proof (induction n arbitrary: tmp s)
  case (Suc n)
  let ?m = "(wm s)(tmp := tmp + sz)"
  let ?s = "set_wm ?m s"
  have sz: "tmp + sz < 4294967296" using Suc.prems(5) by simp
  have ok: "words_ok ?m" using Suc.prems(2) sz by simp
  from Suc.IH [of "tmp + sz" ?s] Suc.prems ok obtain m where
    m: "link_blocks n (tmp + sz) sz ?s = Inr (tmp + sz + n * sz, set_wm m s)" "words_ok m"
      "\<forall>k < n. m (tmp + sz + k * sz) = tmp + sz + Suc k * sz" "\<forall>x. (\<forall>k < n. x \<noteq> tmp + sz + k * sz) \<longrightarrow> m x = ?m x"
    by auto
  have "m (tmp + k * sz) = tmp + Suc k * sz" if "k < Suc n" for k
  proof (cases k)
    case 0
    with m(4) Suc.prems show ?thesis by auto
  next
    case (Suc j)
    with m(3) that show ?thesis by (auto simp: ac_simps)
  qed
  moreover have "m x = wm s x" if x: "\<forall>k < Suc n. x \<noteq> tmp + k * sz" for x
  proof -
    have "x \<noteq> tmp" using x by (auto dest: spec [of _ 0])
    moreover have "x \<noteq> tmp + sz + k * sz" if "k < n" for k using x that by (auto dest: spec [of _ "Suc k"])
    ultimately show ?thesis using m(4) by simp
  qed
  ultimately show ?case using m(1,2) Suc.prems sz by (auto simp: ac_simps)
next
  case 0
  then show ?case by (intro exI [of _ "wm s"]) simp
qed

lemma chain_blocks:
  assumes "\<forall>k < n. m (p + k * z) = p + Suc k * z" "chain m (m (p + n * z)) xs" "\<forall>k < Suc n. addr_ok (p + k * z)"
  shows "chain m p (map (\<lambda>k. p + k * z) [0..<Suc n] @ xs)"
proof -
  have "chain m (p + a * z) (map (\<lambda>k. p + k * z) [a..<Suc n] @ xs)" if "a \<le> n" for a
    using that
  proof (induction rule: inc_induct)
    case base
    then show ?case using assms(2,3) by simp
  next
    case (step a)
    with assms(1,3) show ?case by (simp add: upt_conv_Cons [of a "Suc n"] del: upt_Suc)
  qed
  from this [of 0] show ?thesis by simp
qed

text \<open>A fresh page cut into blocks.\<close>

lemma page_blocks:
  assumes z: "z dvd 4096" "0 < z" "4 dvd z" and P: "0 < P" "P < 1048576"
  shows "\<exists>t m. link_blocks (4096 div z - 1) (P * 4096) z s = Inr (t, set_wm m s) \<and> words_ok m \<and> addr_ok t \<and>
    (\<forall>x. x div 4096 \<noteq> P \<longrightarrow> (m(t := v)) x = wm s x) \<and>
    (\<exists>fs. set fs = blocks_of z P \<and> distinct fs \<and> length fs = 4096 div z \<and>
       (\<forall>xs m'. (\<forall>x. x div 4096 = P \<longrightarrow> m' x = (m(t := v)) x) \<longrightarrow> chain m' v xs \<longrightarrow> chain m' (P * 4096) (fs @ xs)))"
proof -
  define n where "n = 4096 div z - 1"
  have n: "Suc n = 4096 div z" using z dvd_imp_le [of z 4096] by (simp add: n_def div_greater_zero_iff)
  have p: "4096 \<le> P * 4096" "4 dvd P * 4096" using P by simp_all
  have b: "blocks_of z P = (\<lambda>k. P * 4096 + k * z) ` {..<Suc n}" using blocks_of_eq [OF z(1,2)] n by simp
  have page: "(P * 4096 + k * z) div 4096 = P" if "k < Suc n" for k
  proof -
    have "P * 4096 + k * z \<in> blocks_of z P" unfolding b using that by (intro imageI) simp
    then show ?thesis by (simp only: blocks_of_def mem_Collect_eq)
  qed
  have ok: "addr_ok (P * 4096 + k * z)" if "k < Suc n" for k
  proof -
    have "P * 4096 + k * z < (P + 1) * 4096" using page [OF that] by (metis Suc_eq_plus1 dividend_less_times_div less_add_same_cancel1 mult.commute mult_Suc_right zero_less_numeral add.commute)
    also have "\<dots> \<le> 1048576 * 4096" using P(2) by (intro mult_right_mono) auto
    finally have "P * 4096 + k * z < 4294967296" by simp
    with p z(3) show ?thesis by (simp add: addr_ok_def)
  qed
  have top: "P * 4096 + n * z < 4294967296" using ok [of n] by (simp add: addr_ok_def)
  from link_blocks_spec [OF p z(3,2) top] obtain m where
    m: "link_blocks n (P * 4096) z s = Inr (P * 4096 + n * z, set_wm m s)" "words_ok m"
      "\<forall>k < n. m (P * 4096 + k * z) = P * 4096 + Suc k * z" "\<forall>x. (\<forall>k < n. x \<noteq> P * 4096 + k * z) \<longrightarrow> m x = wm s x"
    by blast
  let ?m = "m(P * 4096 + n * z := v)"
  define fs where "fs = map (\<lambda>k. P * 4096 + k * z) [0..<Suc n]"
  have "?m x = wm s x" if "x div 4096 \<noteq> P" for x
  proof -
    have "x \<noteq> P * 4096 + k * z" if "k < Suc n" for k using page [OF that] \<open>x div 4096 \<noteq> P\<close> by blast
    with m(4) show ?thesis by simp
  qed
  moreover have "set fs = blocks_of z P" "distinct fs" "length fs = 4096 div z"
    using b z(2) n unfolding fs_def by (auto simp: distinct_map inj_on_def lessThan_atLeast0)
  moreover have "chain m' (P * 4096) (fs @ xs)" if "\<forall>x. x div 4096 = P \<longrightarrow> m' x = ?m x" "chain m' v xs" for xs m'
    unfolding fs_def
  proof (rule chain_blocks)
    show "\<forall>k < n. m' (P * 4096 + k * z) = P * 4096 + Suc k * z" using that(1) page m(3) z(2) by simp
    show "chain m' (m' (P * 4096 + n * z)) xs" using that page by simp
    show "\<forall>k < Suc n. addr_ok (P * 4096 + k * z)" using ok by blast
  qed
  moreover have "addr_ok (P * 4096 + n * z)" using ok by simp
  ultimately show ?thesis using m(1,2) unfolding n_def [symmetric] by blast
qed

section \<open>New descriptors and new buckets\<close>

lemma unused_frame [simp]:
  "unused_pages (set_wm m s) = unused_pages s" "unused_pages (s\<lparr>first_bucket := f\<rparr>) = unused_pages s"
  "unused_pages (s\<lparr>free_bucket_desc := p\<rparr>) = unused_pages s" "unused_pages (s\<lparr>iflag := b\<rparr>) = unused_pages s"
  by (simp_all add: unused_pages_def)

lemma bucket_page_used: "heap_inv s bk C F DP \<Longrightarrow> bk d = Some (i, P, fs) \<Longrightarrow> P \<in> used_pages s \<and> P \<notin> DP \<and> desc_at DP d \<and> i < 9"
  by (auto simp: heap_inv_def buckets_ok_def)

lemma heap_inv_descs:
  assumes inv: "heap_inv s bk C [] DP" and Q: "Q \<in> used_pages s" "Q \<notin> DP" "\<And>d i P fs. bk d = Some (i, P, fs) \<Longrightarrow> P \<noteq> Q"
    and F: "chain (wm s) p F" "distinct F" "set F = blocks_of 16 Q"
  shows "heap_inv (s\<lparr>free_bucket_desc := p\<rparr>) bk C F (insert Q DP)"
proof -
  have "bk d = None \<and> desc_at (insert Q DP) d" if "d \<in> set F" for d
  proof -
    have "d div 4096 = Q" "16 dvd d" using that F(3) by (auto simp: blocks_of_def)
    then show ?thesis using bucket_page_used [OF inv, of d] Q(2) by (cases "bk d") (auto simp: desc_at_def)
  qed
  moreover have "buckets_ok (wm s) (used_pages s) (insert Q DP) bk"
    using inv Q unfolding heap_inv_def buckets_ok_def by (auto simp: desc_at_def)
  ultimately show ?thesis using inv Q(1) F(1,2) by (simp add: heap_inv_def free_ok_def)
qed

lemma bucket_dec_init_spec:
  assumes inv: "heap_inv s bk C [] DP"
  shows "unused_pages s = {} \<and> bucket_dec_init s = Inl Panic \<or>
    (\<exists>s' Q F. bucket_dec_init s = Inr s' \<and> heap_inv s' bk C F (insert Q DP) \<and> F \<noteq> [] \<and> Q \<in> unused_pages s \<and>
       used_pages s' = insert Q (used_pages s) \<and> unused_pages s' = unused_pages s - {Q} \<and> (\<forall>x. x div 4096 \<noteq> Q \<longrightarrow> wm s' x = wm s x))"
proof -
  have wf: "vmap_wf (v_bit_map s)" and f0: "free_bucket_desc s = 0" and DP: "DP \<subseteq> used_pages s"
    using inv by (auto simp: heap_inv_def free_ok_def)
  from get_free_page_spec [OF wf] show ?thesis
  proof (elim disjE exE conjE)
    assume "unused_pages s = {}" "get_free_page s = Inr (0, s)"
    then show ?thesis by (simp add: bucket_dec_init_def)
  next
    fix Q m assume g: "get_free_page s = Inr (Q * 4096, s\<lparr>v_bit_map := m\<rparr>)" "Q \<in> unused_pages s" "0 < Q" "Q < 1048576" "vmap_wf m"
      "pages_used m = insert Q (used_pages s)" "unused_pages (s\<lparr>v_bit_map := m\<rparr>) = unused_pages s - {Q}"
    let ?s = "s\<lparr>v_bit_map := m\<rparr>"
    obtain t m1 fs where l: "link_blocks 255 (Q * 4096) 16 ?s = Inr (t, set_wm m1 ?s)" "words_ok m1" "addr_ok t"
        "\<forall>x. x div 4096 \<noteq> Q \<longrightarrow> (m1(t := 0)) x = wm s x"
        "set fs = blocks_of 16 Q" "distinct fs" "length fs = 256"
        "\<forall>xs m'. (\<forall>x. x div 4096 = Q \<longrightarrow> m' x = (m1(t := 0)) x) \<longrightarrow> chain m' 0 xs \<longrightarrow> chain m' (Q * 4096) (fs @ xs)"
      using page_blocks [of 16 Q ?s 0] g(3,4) by auto
    have ok: "words_ok (m1(t := 0))" "4096 \<le> t" "4 dvd t" using l(2,3) by (simp_all add: addr_ok_def)
    let ?s1 = "set_wm (m1(t := 0)) ?s"
    let ?s2 = "?s1\<lparr>free_bucket_desc := Q * 4096\<rparr>"
    have Q: "Q \<notin> used_pages s" using g(2) by (simp add: unused_pages_def)
    have wm1: "wm ?s1 = m1(t := 0)" by (rule wm_set_wm [OF ok(1)])
    have "heap_inv ?s1 bk C [] DP" using Q g(5,6) l(4) by (intro heap_inv_fresh [OF inv]) (auto simp: wm1)
    then have "heap_inv ?s2 bk C fs (insert Q DP)"
    proof (rule heap_inv_descs)
      show "Q \<in> used_pages ?s1" using g(6) by simp
      show "Q \<notin> DP" using Q DP by auto
      show "P \<noteq> Q" if "bk d = Some (i, P, gs)" for d i P gs using bucket_page_used [OF inv that] Q by auto
      show "chain (wm ?s1) (Q * 4096) fs" using l(8) [rule_format, of "m1(t := 0)" "[]"] unfolding wm1 by simp
      show "distinct fs" "set fs = blocks_of 16 Q" using l by simp_all
    qed
    moreover have "bucket_dec_init s = Inr ?s2"
      using g(1,3) l(1,2) ok f0 by (simp add: bucket_dec_init_def sizeof_bucket_desc_def desc_ops)
    moreover have "fs \<noteq> []" using l(7) by auto
    moreover have "wm ?s2 = m1(t := 0)" using wm1 by (simp only: wm_fields)
    ultimately show ?thesis using g(2,6,7) l(4) by (intro disjI2 exI [of _ ?s2] exI [of _ Q] exI [of _ fs]) simp
  qed
qed

lemma desc_addr:
  assumes "heap_inv s bk C F DP" "desc_at DP d"
  shows "4096 \<le> d" "4 dvd d" "d < 4294967296"
proof -
  from assms have "vmap_wf (v_bit_map s)" "d div 4096 \<in> used_pages s" and d: "16 dvd d" by (auto simp: heap_inv_def desc_at_def)
  then have "0 < d div 4096" "d div 4096 < 1048576" by (auto simp: vmap_wf_def pages_used_def)
  then show "4096 \<le> d" "d < 4294967296" by (simp_all add: div_greater_zero_iff div_less_iff_less_mult)
  show "4 dvd d" using d by (rule dvd_trans [rotated]) simp
qed

text \<open>Pages that neither are fresh nor hold descriptors keep their contents.\<close>

definition keeps :: "nat set \<Rightarrow> 'a heap_mem_scheme \<Rightarrow> 'a heap_mem_scheme \<Rightarrow> bool" where
  "keeps DP s s' \<longleftrightarrow> (\<forall>x. x div 4096 \<in> used_pages s \<longrightarrow> x div 4096 \<notin> DP \<longrightarrow> wm s' x = wm s x)"

lemma new_bucket_tail:
  assumes inv: "heap_inv s bk C (d # F) DP" and i: "i < 9"
  shows "unused_pages s = {} \<and> new_bucket i s = Inl Panic \<or>
    (\<exists>s' P fs C'. new_bucket i s = Inr (d, s') \<and> heap_inv s' (bk(d \<mapsto> (i, P, fs))) C' F DP \<and> bk d = None \<and>
       set fs = blocks_of (bsize i) P \<and> fs \<noteq> [] \<and> P \<notin> used_pages s \<and> keeps DP s s')"
proof -
  have wf: "vmap_wf (v_bit_map s)" and f: "free_bucket_desc s = d" "bk d = None" "desc_at DP d" and DP: "DP \<subseteq> used_pages s"
    using inv by (auto simp: heap_inv_def free_ok_def)
  note d = desc_addr [OF inv f(3)]
  have "chain (wm s) (first_bucket s i) (C i)" using inv i by (auto simp: heap_inv_def chains_ok_def)
  then have fb: "first_bucket s i < 4294967296" by (rule chain_less)
  define ms where "ms = (wm s)(d := first_bucket s i)"
  have ms: "words_ok ms" unfolding ms_def using d(2) fb by simp
  let ?s2 = "set_wm ms (set_first i d (s\<lparr>free_bucket_desc := wm s d\<rparr>))"
  have s2: "unused_pages ?s2 = unused_pages s" "v_bit_map ?s2 = v_bit_map s" by (simp_all add: set_first_def unused_pages_def)
  have new: "new_bucket i s = rbind (get_free_page ?s2) (\<lambda>(tmp, s).
     rbind (set_page d tmp s) (\<lambda>s. rbind (set_freeptr d tmp s) (\<lambda>s. rbind (set_refcnt d 0 s) (\<lambda>s.
     if tmp = 0 then Inl Panic
     else
       rbind (link_blocks (4096 div bsize i - 1) tmp (bsize i) s) (\<lambda>(tmp, s).
       rbind (wr tmp 0 s) (\<lambda>s. Inr (d, s)))))))"
    using d f(1) i fb by (simp add: new_bucket_def desc_ops Let_def ms_def cong: if_cong)
  have "vmap_wf (v_bit_map ?s2)" using wf s2(2) by simp
  from get_free_page_spec [OF this] show ?thesis
  proof (elim disjE exE conjE)
    assume "unused_pages ?s2 = {}" "get_free_page ?s2 = Inr (0, ?s2)"
    then show ?thesis using d s2 unfolding new by (simp add: desc_ops)
  next
    fix P m assume g: "get_free_page ?s2 = Inr (P * 4096, ?s2\<lparr>v_bit_map := m\<rparr>)" "P \<in> unused_pages ?s2" "0 < P" "P < 1048576" "vmap_wf m"
      "pages_used m = insert P (used_pages ?s2)"
    have P: "P \<notin> used_pages s" "P \<notin> DP" using g(2) s2 DP by (auto simp: unused_pages_def)
    define m0 where "m0 = (wm s)(d := first_bucket s i, d + 4 := P * 4096, d + 8 := P * 4096, d + 12 := wm s (d + 12) div 65536 * 65536)"
    let ?s3 = "set_wm m0 (?s2\<lparr>v_bit_map := m\<rparr>)"
    have p: "P * 4096 < 4294967296" using g(4) by simp
    have w12: "wm s (d + 12) div 65536 * 65536 < 4294967296" using refcnt_less [of "wm s (d + 12)" 0] by simp
    have ok0: "words_ok m0" unfolding m0_def using d fb p w12 by (intro words_ok_upd dvd4) simp_all
    have ok1: "words_ok (ms(d + 4 := P * 4096))" "words_ok (ms(d + 4 := P * 4096, d + 8 := P * 4096))"
      using ms d(2) p by (simp_all add: dvd4)
    have st: "new_bucket i s = rbind (link_blocks (4096 div bsize i - 1) (P * 4096) (bsize i) ?s3) (\<lambda>(tmp, s).
       rbind (wr tmp 0 s) (\<lambda>s. Inr (d, s)))"
      using d g(1,3) p ok1 ms unfolding new by (simp add: desc_ops m0_def ms_def)
    have z4: "4 dvd bsize i" by (simp add: bsize_def)
    obtain t m1 fs where l: "link_blocks (4096 div bsize i - 1) (P * 4096) (bsize i) ?s3 = Inr (t, set_wm m1 ?s3)" "words_ok m1" "addr_ok t"
        "\<forall>x. x div 4096 \<noteq> P \<longrightarrow> (m1(t := 0)) x = wm ?s3 x"
        "set fs = blocks_of (bsize i) P" "distinct fs" "length fs = 4096 div bsize i"
        "\<forall>xs m'. (\<forall>x. x div 4096 = P \<longrightarrow> m' x = (m1(t := 0)) x) \<longrightarrow> chain m' 0 xs \<longrightarrow> chain m' (P * 4096) (fs @ xs)"
      using page_blocks [OF bsize_simps(2) [OF i] bsize_simps(1) z4 g(3,4), of ?s3 0] by blast
    define m2 where "m2 = m1(t := 0)"
    let ?s' = "set_wm m2 ?s3"
    have ok2: "words_ok m2" "4096 \<le> t" "4 dvd t" using l(2,3) by (simp_all add: m2_def addr_ok_def)
    have wms: "wm ?s3 = m0" "wm ?s' = m2" using ok0 ok2(1) by simp_all
    have m2: "m2 x = m0 x" if "x div 4096 \<noteq> P" for x using l(4) that by (simp add: m2_def ok0)
    have dm: "m2 (d + k) = m0 (d + k)" if "k < 16" for k
    proof (rule m2)
      show "(d + k) div 4096 \<noteq> P" using desc_page [of d k] that f(3) P(2) by (auto simp: desc_at_def)
    qed
    have "heap_inv ?s' (bk(d \<mapsto> (i, P, fs))) (C(i := d # C i)) F DP"
    proof (rule heap_inv_new [OF inv i P(1)])
      have "touches d P (wm s) m0" by (auto simp: touches_def m0_def)
      then show "touches d P (wm s) (wm ?s')" unfolding wms using m2 by (simp add: touches_def) metis
      show "wm ?s' d = first_bucket s i" unfolding wms using dm [of 0] by (simp add: m0_def)
      show "bucket_ok (wm ?s') d i P fs"
        unfolding wms using l(5-7) l(8) [rule_format, of m2 "[]"] dm [of 4] dm [of 8] dm [of 12] by (simp add: bucket_ok_def m0_def m2_def)
      show "first_bucket ?s' = (first_bucket s)(i := d)" "free_bucket_desc ?s' = wm s d" "vmap_wf (v_bit_map ?s')"
        "used_pages ?s' = insert P (used_pages s)" using g(5,6) by (simp_all add: set_first_def)
    qed
    moreover have "new_bucket i s = Inr (d, ?s')" using l(1,2) ok2 unfolding st by (simp add: m2_def)
    moreover have "fs \<noteq> []" using l(7) bsize_simps(3) [OF i] by auto
    moreover have "keeps DP s ?s'"
      unfolding keeps_def
    proof (intro allI impI)
      fix x assume x: "x div 4096 \<in> used_pages s" "x div 4096 \<notin> DP"
      then have "x div 4096 \<noteq> P" using P by auto
      moreover have "x \<noteq> d + k" if "k < 16" for k using x(2) f(3) desc_page [of d k] that by (auto simp: desc_at_def)
      from this [of 0] this [of 4] this [of 8] this [of 12] have "m0 x = wm s x" by (simp add: m0_def)
      ultimately show "wm ?s' x = wm s x" unfolding wms using m2 by simp
    qed
    ultimately show ?thesis using f(2) P(1) l(5) by blast
  qed
qed

lemma live_new:
  assumes "bk d = None" "set fs = blocks_of (bsize i) P"
  shows "live (bk(d \<mapsto> (i, P, fs))) = live bk"
proof (intro equalityI subrelI)
  fix a z assume "(a, z) \<in> live bk"
  then obtain e j Q gs where "bk e = Some (j, Q, gs)" "z = bsize j" "a \<in> blocks_of (bsize j) Q" "a \<notin> set gs"
    by (auto simp: in_live)
  moreover from this(1) assms(1) have "(bk(d \<mapsto> (i, P, fs))) e = Some (j, Q, gs)" by auto
  ultimately show "(a, z) \<in> live (bk(d \<mapsto> (i, P, fs)))" unfolding in_live by blast
next
  fix a z assume "(a, z) \<in> live (bk(d \<mapsto> (i, P, fs)))"
  with assms show "(a, z) \<in> live bk" by (auto simp: in_live split: if_splits)
qed

lemma new_bucket_spec:
  assumes inv: "heap_inv s bk C F DP" and i: "i < 9"
  shows "card (unused_pages s) \<le> 1 \<and> new_bucket i s = Inl Panic \<or>
    (\<exists>d s' P fs C' F' DP'. new_bucket i s = Inr (d, s') \<and> heap_inv s' (bk(d \<mapsto> (i, P, fs))) C' F' DP' \<and> bk d = None \<and>
       set fs = blocks_of (bsize i) P \<and> fs \<noteq> [] \<and> P \<notin> used_pages s \<and> keeps DP s s')"
proof (cases F)
  case (Cons d F')
  from new_bucket_tail [OF inv [unfolded Cons] i] show ?thesis
  proof (elim disjE exE conjE)
    assume "unused_pages s = {}" "new_bucket i s = Inl Panic"
    then show ?thesis by simp
  qed blast
next
  case Nil
  have f: "free_bucket_desc s = 0" using inv by (simp add: Nil heap_inv_def free_ok_def)
  from bucket_dec_init_spec [OF inv [unfolded Nil]] show ?thesis
  proof (elim disjE exE conjE)
    assume "unused_pages s = {}" "bucket_dec_init s = Inl Panic"
    then show ?thesis using f by (simp add: new_bucket_def)
  next
    fix s1 Q F1 assume h: "bucket_dec_init s = Inr s1" "heap_inv s1 bk C F1 (insert Q DP)" "F1 \<noteq> []" "Q \<in> unused_pages s"
      "used_pages s1 = insert Q (used_pages s)" "unused_pages s1 = unused_pages s - {Q}" "\<forall>x. x div 4096 \<noteq> Q \<longrightarrow> wm s1 x = wm s x"
    then obtain d F2 where F1: "F1 = d # F2" by (cases F1) auto
    have "free_bucket_desc s1 = d" "d \<noteq> 0" using h(2) by (auto simp: F1 heap_inv_def free_ok_def addr_ok_def)
    then have eq: "new_bucket i s = new_bucket i s1" using h(1) f by (simp add: new_bucket_def)
    have k: "keeps DP s s'" if "keeps (insert Q DP) s1 s'" for s'
      using that h(4,5,7) by (auto simp: keeps_def unused_pages_def)
    from new_bucket_tail [OF h(2) [unfolded F1] i] show ?thesis
    proof (elim disjE exE conjE)
      assume "unused_pages s1 = {}" "new_bucket i s1 = Inl Panic"
      moreover have "card (unused_pages s) \<le> 1"
        using h(4,6) calculation(1) by (metis card_1_singleton_iff Diff_eq_empty_iff empty_iff le_numeral_extra(4) subset_singletonD card.empty One_nat_def)
      ultimately show ?thesis by (simp add: eq)
    next
      fix s' P fs C' assume "new_bucket i s1 = Inr (d, s')" "heap_inv s' (bk(d \<mapsto> (i, P, fs))) C' F2 (insert Q DP)" "bk d = None"
        "set fs = blocks_of (bsize i) P" "fs \<noteq> []" "P \<notin> used_pages s1" "keeps (insert Q DP) s1 s'"
      then show ?thesis using h(5) k unfolding eq by blast
    qed
  qed
qed

section \<open>Taking a block\<close>

lemma heap_inv_flag [simp]: "heap_inv (set_IF b s) = heap_inv s" "unused_pages (set_IF b s) = unused_pages s"
  "first_bucket (set_IF b s) = first_bucket s" "v_bit_map (set_IF b s) = v_bit_map s"
  "bytes (set_IF b s) = bytes s"
  by (simp_all add: heap_inv_def fun_eq_iff) (simp_all add: set_IF_def unused_pages_def)

lemma heap_inv_bucketD:
  assumes "heap_inv s bk C F DP" "bk d = Some (i, P, fs)"
  shows "i < 9" "bucket_ok (wm s) d i P fs" "P \<in> used_pages s" "P \<notin> DP" "desc_at DP d" "4096 \<le> d" "4 dvd d" "d < 4294967296"
    "\<And>d' i' fs'. bk d' = Some (i', P, fs') \<Longrightarrow> d' = d"
proof -
  from assms have B: "buckets_ok (wm s) (used_pages s) DP bk" by (simp add: heap_inv_def)
  then show "i < 9" "bucket_ok (wm s) d i P fs" "P \<in> used_pages s" "P \<notin> DP" "desc_at DP d"
    using assms(2) by (auto simp: buckets_ok_def)
  then show "4096 \<le> d" "4 dvd d" "d < 4294967296" using desc_addr assms(1) by blast+
  show "d' = d" if "bk d' = Some (i', P, fs')" for d' i' fs' using B that assms(2) unfolding buckets_ok_def by blast
qed

lemma take_block_spec:
  assumes inv: "heap_inv s bk C F DP" and b: "bk d = Some (i, P, a # fs)"
  shows "\<exists>s'. take_block d s = Inr (a, s') \<and> heap_inv s' (bk(d \<mapsto> (i, P, fs))) C F DP \<and>
    (\<forall>x. x div 4096 \<notin> DP \<longrightarrow> wm s' x = wm s x)"
proof -
  note D = heap_inv_bucketD [OF inv b]
  from D(2) have ok: "wm s (d + 4) = P * 4096" "wm s (d + 8) = a" "addr_ok a" "chain (wm s) (wm s a) fs" "distinct (a # fs)"
      "set (a # fs) \<subseteq> blocks_of (bsize i) P" "wm s (d + 12) mod 2 ^ 16 + Suc (length fs) = 4096 div bsize i"
    by (auto simp: bucket_ok_def)
  let ?w = "wm s (d + 12)"
  let ?m = "(wm s)(d + 8 := wm s a, d + 12 := ?w div 65536 * 65536 + (?w mod 65536 + 1) mod 65536)"
  let ?s = "set_wm ?m s"
  have m: "words_ok ((wm s)(d + 8 := wm s a))" "words_ok ?m"
    using D(7) refcnt_less [of ?w "?w mod 65536 + 1"] by (simp_all add: dvd4)
  have page: "?m x = wm s x" if "x div 4096 \<notin> DP" for x
    using that D(5) desc_page [of d 8] desc_page [of d 12] by (auto simp: desc_at_def)
  have "\<forall>x \<in> set fs. ?m x = wm s x"
  proof
    fix x assume "x \<in> set fs"
    with ok(6) D(4) have "x div 4096 \<notin> DP" by (auto simp: blocks_of_def)
    then show "?m x = wm s x" by (rule page)
  qed
  then have "chain ?m (wm s a) fs" using ok(4) chain_cong by blast
  moreover have "?w mod 2 ^ 16 + 1 < 2 ^ 16" using ok(7) bsize_simps(5) [OF D(1)] by simp
  ultimately have "bucket_ok ?m d i P fs" using ok by (simp add: bucket_ok_def mod_Suc)
  moreover have "touches d P (wm s) ?m" by (auto simp: touches_def)
  ultimately have "heap_inv ?s (bk(d \<mapsto> (i, P, fs))) C F DP" using inv b m by (intro heap_inv_bucket) auto
  moreover have "take_block d s = Inr (a, ?s)"
    using D(6,7) ok(2) addr_okD [OF ok(3)] m by (simp add: take_block_def desc_ops)
  moreover have "wm ?s = ?m" by (rule wm_set_wm [OF m(2)])
  ultimately show ?thesis using page by metis
qed

lemma live_take:
  assumes "heap_inv s bk C F DP" "bk d = Some (i, P, a # fs)"
  shows "(a, bsize i) \<notin> live bk" "live (bk(d \<mapsto> (i, P, fs))) = insert (a, bsize i) (live bk)"
proof -
  note D = heap_inv_bucketD [OF assms]
  let ?bk = "bk(d \<mapsto> (i, P, fs))"
  from D(2) have ok: "a \<in> blocks_of (bsize i) P" "a \<notin> set fs" by (auto simp: bucket_ok_def)
  have "live (?bk(d \<mapsto> (i, P, a # fs))) = live ?bk - {(a, bsize i)}"
  proof (rule live_upd)
    show "d' = d" if "?bk d' = Some (i', P, fs')" for d' i' fs' using D(9) [of d' i' fs'] that by (auto split: if_splits)
  qed (use ok in auto)
  moreover have "?bk(d \<mapsto> (i, P, a # fs)) = bk" using assms(2) by auto
  moreover have "(a, bsize i) \<in> live ?bk" using ok by (auto simp: in_live intro!: exI [of _ d])
  ultimately show "(a, bsize i) \<notin> live bk" "live ?bk = insert (a, bsize i) (live bk)" by auto
qed

section \<open>Searching a chain\<close>

lemma find_bucket_spec:
  assumes "chain (wm s) p ds"
  shows "\<exists>d. find_bucket p s = Some (Inr d) \<and> (d \<noteq> 0 \<longrightarrow> d \<in> set ds \<and> wm s (d + 8) \<noteq> 0)"
  using assms
proof (induction ds arbitrary: p)
  case Nil
  then show ?case by (simp add: find_bucket.simps)
next
  case (Cons d ds)
  then have d: "p = d" "4096 \<le> d" "4 dvd d" "d \<noteq> 0" "chain (wm s) (wm s d) ds" by (auto simp: addr_ok_def)
  from Cons.IH [OF d(5)] obtain e where e: "find_bucket (wm s d) s = Some (Inr e)"
      "e \<noteq> 0 \<longrightarrow> e \<in> set ds \<and> wm s (e + 8) \<noteq> 0" by auto
  show ?case
  proof (cases "wm s (d + 8) = 0")
    case True
    with d e have "find_bucket p s = Some (Inr e)"
      by (subst find_bucket.simps) (simp add: desc_ops)
    with e(2) show ?thesis by auto
  next
    case False
    with d have "find_bucket p s = Some (Inr d)"
      by (subst find_bucket.simps) (simp add: desc_ops)
    with False show ?thesis by auto
  qed
qed

lemma find_page_spec:
  assumes "chain (wm s) p ds" "pr = 0 \<or> 4096 \<le> pr"
  shows "if \<exists>d \<in> set ds. wm s (d + 4) = q
    then \<exists>xs d ys. ds = xs @ d # ys \<and> wm s (d + 4) = q \<and> find_page q p pr s = Some (Inr (d, if xs = [] then pr else last xs))
    else \<exists>pr'. find_page q p pr s = Some (Inr (0, pr'))"
  using assms
proof (induction ds arbitrary: p pr)
  case Nil
  then show ?case by (simp add: find_page.simps)
next
  case (Cons d ds)
  then have d: "p = d" "4096 \<le> d" "4 dvd d" "d \<noteq> 0" "chain (wm s) (wm s d) ds" by (auto simp: addr_ok_def)
  show ?case
  proof (cases "wm s (d + 4) = q")
    case True
    with d have "find_page q p pr s = Some (Inr (d, pr))"
      by (subst find_page.simps) (simp add: desc_ops)
    then show ?thesis using True by (auto intro!: exI [of _ "[]"])
  next
    case False
    with d have eq: "find_page q p pr s = find_page q (wm s d) d s"
      by (subst find_page.simps) (simp add: desc_ops)
    have IH: "if \<exists>d \<in> set ds. wm s (d + 4) = q
      then \<exists>xs e ys. ds = xs @ e # ys \<and> wm s (e + 4) = q \<and> find_page q (wm s d) d s = Some (Inr (e, if xs = [] then d else last xs))
      else \<exists>pr'. find_page q (wm s d) d s = Some (Inr (0, pr'))"
      using Cons.IH [OF d(5), of d] d(2) by simp
    show ?thesis
    proof (cases "\<exists>d \<in> set ds. wm s (d + 4) = q")
      case True
      with IH obtain xs e ys where "ds = xs @ e # ys" "wm s (e + 4) = q"
          "find_page q (wm s d) d s = Some (Inr (e, if xs = [] then d else last xs))" by auto
      then have "d # ds = (d # xs) @ e # ys \<and> wm s (e + 4) = q \<and>
          find_page q p pr s = Some (Inr (e, if d # xs = [] then pr else last (d # xs)))" by (auto simp: eq)
      then have "\<exists>xs e ys. d # ds = xs @ e # ys \<and> wm s (e + 4) = q \<and>
          find_page q p pr s = Some (Inr (e, if xs = [] then pr else last xs))" by blast
      with True show ?thesis by auto
    next
      case False2: False
      with IH False show ?thesis unfolding eq by auto
    qed
  qed
qed

end
