(* ===== verification/Malloc_Theorems.thy ===== *)
theory Malloc_Theorems
  imports Malloc_Ops
begin

text \<open>
  \<^verbatim>\<open>malloc\<close> and \<^verbatim>\<open>free_s\<close> as a heap of blocks: what they promise to their callers, and what
  happens when a caller breaks the contract or is interrupted between the search and the
  change of the lists.
\<close>

section \<open>Releasing a block\<close>

lemma free_count:
  assumes "set fs \<subseteq> blocks_of (bsize i) P" "distinct fs" "i < 9"
  shows "length fs \<le> 4096 div bsize i" "length fs = 4096 div bsize i \<longleftrightarrow> set fs = blocks_of (bsize i) P"
proof -
  note z = bsize_simps(2) [OF assms(3)] bsize_simps(1) [of i]
  have "card (set fs) = length fs" using assms(2) by (rule distinct_card)
  then show "length fs \<le> 4096 div bsize i" "length fs = 4096 div bsize i \<longleftrightarrow> set fs = blocks_of (bsize i) P"
    using card_mono [OF finite_blocks_of [OF z] assms(1)] card_subset_eq [OF finite_blocks_of [OF z] assms(1)]
      card_blocks_of [OF z, of P] by auto
qed

lemma free_find_spec:
  assumes inv: "heap_inv s bk C F DP" and b: "bk d = Some (i, P, fs)" and siz: "siz \<le> bsize i" and j: "j \<le> i"
  shows "\<exists>xs ys. C i = xs @ d # ys \<and>
    free_find (drop j bucket_sizes) j (P * 4096) siz s = Inr (i, d, if xs = [] then 0 else last xs)"
  using j
proof (induction rule: inc_induct)
  note D = heap_inv_bucketD [OF inv b]
  have ch: "chains_ok (wm s) (first_bucket s) bk C" using inv by (simp add: heap_inv_def)
  have page: "wm s (e + 4) = P * 4096 \<longleftrightarrow> e = d \<and> k = i" if "k < 9" "e \<in> set (C k)" for e k
  proof -
    from chains_okD(3) [OF ch that(1)] that(2) obtain Q gs where e: "bk e = Some (k, Q, gs)" by auto
    have "wm s (e + 4) = Q * 4096" using heap_inv_bucketD(2) [OF inv e] by (simp add: bucket_ok_def)
    then have "wm s (e + 4) = P * 4096 \<longleftrightarrow> Q = P" by simp
    also have "\<dots> \<longleftrightarrow> e = d \<and> k = i"
    proof
      assume "Q = P"
      with D(9) [of e k gs] e have "e = d" by simp
      with e b show "e = d \<and> k = i" by simp
    next
      assume "e = d \<and> k = i"
      with e b show "Q = P" by simp
    qed
    finally show ?thesis .
  qed
  have len: "drop k bucket_sizes = bsize k # drop (Suc k) bucket_sizes" if "k < 9" for k
    using that Cons_nth_drop_Suc [of k bucket_sizes] by (simp add: bucket_sizes_def [THEN arg_cong [of _ _ length]])
  {
    case base
    have "d \<in> set (C i)" using chains_okD(3) [OF ch D(1)] b by auto
    with page [OF D(1)] have ex: "\<exists>d \<in> set (C i). wm s (d + 4) = P * 4096" by auto
    with find_page_spec [OF chains_okD(1) [OF ch D(1)], of 0 "P * 4096"] obtain xs e ys where
      e: "C i = xs @ e # ys" "wm s (e + 4) = P * 4096"
        "find_page (P * 4096) (first_bucket s i) 0 s = Some (Inr (e, if xs = [] then 0 else last xs))" by auto
    then have "e = d" using page [OF D(1), of e] by auto
    with e D(6) siz bsize_simps(1) [of i] show ?case by (auto simp: len [OF D(1)])
  next
    case (step k)
    then have k: "k < 9" using D(1) by simp
    have "\<not> (\<exists>e \<in> set (C k). wm s (e + 4) = P * 4096)" using page [OF k] step.hyps by auto
    with find_page_spec [OF chains_okD(1) [OF ch k], of 0 "P * 4096"] obtain pr where
      "find_page (P * 4096) (first_bucket s k) 0 s = Some (Inr (0, pr))" by auto
    with step.IH bsize_simps(1) [of k] show ?case by (auto simp: len [OF k])
  }
qed

lemma block_addr:
  assumes inv: "heap_inv s bk C F DP" and b: "bk d = Some (i, P, fs)" and a: "a \<in> blocks_of (bsize i) P"
  shows "4096 \<le> a" "4 dvd a" "a < 4294967296"
proof -
  have "P \<in> used_pages s" "vmap_wf (v_bit_map s)" using heap_inv_bucketD(3) [OF inv b] inv by (auto simp: heap_inv_def)
  then have "0 < P" "P < 1048576" by (auto simp: vmap_wf_def pages_used_def)
  then show "4096 \<le> a" "a < 4294967296" using a by (auto simp: blocks_of_def div_greater_zero_iff div_less_iff_less_mult)
  have "4 dvd bsize i" by (simp add: bsize_def)
  then show "4 dvd a" using a by (auto simp: blocks_of_def intro: dvd_trans)
qed

lemma unlink_bucket_spec:
  assumes inv: "heap_inv s bk C F DP" and b: "bk d = Some (i, P, fs)" and C: "C i = xs @ d # ys"
  shows "\<exists>s'. unlink_bucket i d (if xs = [] then 0 else last xs) s = Inr s' \<and>
    heap_inv s' (bk(d := None)) (C(i := xs @ ys)) (d # F) DP \<and> used_pages s' = used_pages s - {P} \<and>
    (\<forall>x. x div 4096 \<notin> DP \<longrightarrow> wm s' x = wm s x)"
proof -
  note D = heap_inv_bucketD [OF inv b]
  have ch: "chains_ok (wm s) (first_bucket s) bk C" and wf: "vmap_wf (v_bit_map s)" using inv by (auto simp: heap_inv_def)
  note c = chains_okD [OF ch D(1), unfolded C]
  have l: "desc_at DP (last xs)" "4096 \<le> last xs" "4 dvd last xs" "last xs \<noteq> d" "wm s (last xs) = d" if xs: "xs \<noteq> []"
  proof -
    have "last xs \<in> set (xs @ d # ys)" using last_in_set [OF xs] by simp
    then obtain Q gs where e: "bk (last xs) = Some (i, Q, gs)" unfolding c(3) by blast
    note E = heap_inv_bucketD [OF inv e]
    show "desc_at DP (last xs)" "4096 \<le> last xs" "4 dvd last xs" using E by auto
    show "last xs \<noteq> d" using c(2) last_in_set [OF xs] by auto
    show "wm s (last xs) = d" using chain_split [OF c(1)] xs by simp
  qed
  have f: "xs = [] \<Longrightarrow> first_bucket s i = d" using chain_split [OF c(1)] by simp
  have n4: "xs \<noteq> [] \<Longrightarrow> last xs \<noteq> d + 4" using desc_apart [of d "last xs" 4 0] D(5) l by (auto simp: desc_at_def)
  have p: "wm s (d + 4) = P * 4096" using D(2) by (simp add: bucket_ok_def)
  from free_page_spec [OF wf, of 1 P] D(3) obtain m where
    m: "free_page (PAGE_ADDR (word_of_nat P)) 1 (v_bit_map s) = Inr m" "vmap_wf m" "pages_used m = used_pages s - {P}" by auto
  have pa: "PAGE_ADDR (word_of_nat P) = word_of_nat (P * 4096)" by (simp add: PAGE_ADDR_def push_bit_eq_mult)
  let ?m = "(if xs = [] then wm s else (wm s)(last xs := wm s d))(d := free_bucket_desc s)"
  let ?f = "if xs = [] then (first_bucket s)(i := wm s d) else first_bucket s"
  have fd: "free_bucket_desc s < 4294967296" using inv chain_less by (auto simp: heap_inv_def free_ok_def)
  have ok: "words_ok ?m" "xs \<noteq> [] \<Longrightarrow> words_ok ((wm s)(last xs := wm s d))" using fd D(7) l(3) by simp_all
  let ?s = "set_wm ?m (s\<lparr>first_bucket := ?f, v_bit_map := m, free_bucket_desc := d\<rparr>)"
  have wms: "wm ?s = ?m" by (rule wm_set_wm [OF ok(1)])
  have "heap_inv ?s (bk(d := None)) (C(i := xs @ ys)) (d # F) DP"
    using m(2,3) wms by (intro heap_inv_unlink [OF inv b C]) auto
  moreover have "unlink_bucket i d (if xs = [] then 0 else last xs) s = Inr ?s"
  proof (cases "xs = []")
    case True
    then have "recheck i d 0 s = Inr (d, 0)" using f by (simp add: recheck_def)
    with True f D(6,7) p m(1) fd show ?thesis
      by (simp add: unlink_bucket_def desc_ops set_first_def free_kpage_eq pa)
  next
    case False
    then have "recheck i d (last xs) s = Inr (d, last xs)" "last xs \<noteq> 0" using l by (auto simp: recheck_def desc_ops)
    with False D(6,7) l [OF False] n4 p m(1) fd ok(2) show ?thesis
      by (simp add: unlink_bucket_def desc_ops free_kpage_eq pa)
  qed
  moreover have "wm ?s x = wm s x" if "x div 4096 \<notin> DP" for x
    unfolding wms using that D(5) l(1) by (auto simp: desc_at_def)
  ultimately show ?thesis using m(3) by auto
qed

lemma give_block_spec:
  assumes inv: "heap_inv s bk C F DP" and b: "bk d = Some (i, P, fs)" and a: "a \<in> blocks_of (bsize i) P" "a \<notin> set fs"
    and w: "w = wm s (d + 12)"
    and m: "m = (wm s)(a := wm s (d + 8), d + 8 := a, d + 12 := w div 65536 * 65536 + (65535 + w mod 65536) mod 65536)"
  shows "words_ok m" "heap_inv (set_wm m s) (bk(d \<mapsto> (i, P, a # fs))) C F DP"
    "m (d + 12) mod 2 ^ 16 = 0 \<longleftrightarrow> set (a # fs) = blocks_of (bsize i) P"
    "\<And>x. x div 4096 \<notin> DP \<Longrightarrow> x \<noteq> a \<Longrightarrow> m x = wm s x"
proof -
  note D = heap_inv_bucketD [OF inv b]
  from D(2) have ok: "wm s (d + 4) = P * 4096" "chain (wm s) (wm s (d + 8)) fs" "distinct (a # fs)"
      "set (a # fs) \<subseteq> blocks_of (bsize i) P" "w mod 2 ^ 16 + length fs = 4096 div bsize i"
    using a by (auto simp: bucket_ok_def w)
  have P: "a div 4096 = P" "0 < P" using a(1) D(3) inv by (auto simp: blocks_of_def heap_inv_def vmap_wf_def pages_used_def)
  note a4 = block_addr [OF inv b a(1)]
  show m_ok: "words_ok m" unfolding m using a4 D(7) refcnt_less [of w "65535 + w mod 65536"]
    by (intro words_ok_upd dvd4) (simp_all add: w)
  have ad: "a \<noteq> d + k" if "k < 16" for k using that P(1) D(4,5) desc_page [of d k] by (auto simp: desc_at_def)
  show page: "m x = wm s x" if "x div 4096 \<notin> DP" "x \<noteq> a" for x
    using that D(5) desc_page [of d 8] desc_page [of d 12] by (auto simp: desc_at_def m)
  have "\<forall>x \<in> set fs. m x = wm s x"
  proof
    fix x assume "x \<in> set fs"
    with ok(3,4) D(4) have "x div 4096 \<notin> DP" "x \<noteq> a" by (auto simp: blocks_of_def)
    then show "m x = wm s x" by (rule page)
  qed
  then have c: "chain m (wm s (d + 8)) fs" using ok(2) chain_cong by blast
  note cnt = free_count [OF ok(4,3) D(1)]
  have r: "0 < w mod 2 ^ 16" using cnt(1) ok(5) by (simp del: One_nat_def)
  then obtain r' where r': "w mod 2 ^ 16 = Suc r'" by (metis gr0_implies_Suc)
  then have r'': "r' < 65536" using mod_less_divisor [of "2 ^ 16" w] by simp
  have m12: "m (d + 12) mod 2 ^ 16 = r'" using r' r'' by (simp add: m)
  have m0: "m d = wm s d" "m (d + 4) = wm s (d + 4)" "m (d + 8) = a" "m a = wm s (d + 8)"
    using ad [of 0] ad [of 4] ad [of 8] ad [of 12] by (simp_all add: m)
  show "m (d + 12) mod 2 ^ 16 = 0 \<longleftrightarrow> set (a # fs) = blocks_of (bsize i) P"
    using cnt(2) m12 r' ok(5) by auto
  have "bucket_ok m d i P (a # fs)" using ok c m0 m12 r' a4 by (simp add: bucket_ok_def addr_ok_def)
  moreover have "touches d P (wm s) m" using P(1) by (auto simp: touches_def m)
  ultimately show "heap_inv (set_wm m s) (bk(d \<mapsto> (i, P, a # fs))) C F DP"
    using m0(1) m_ok by (intro heap_inv_bucket [OF inv b]) auto
qed

lemma free_give_spec:
  assumes inv: "heap_inv s bk C F DP" and b: "bk d = Some (i, P, fs)" and a: "a \<in> blocks_of (bsize i) P" "a \<notin> set fs"
    and C: "C i = xs @ d # ys"
  shows "\<exists>s' bk' C' F'. free_give a i d (if xs = [] then 0 else last xs) s = Inr s' \<and> heap_inv s' bk' C' F' DP \<and>
    live bk' = live bk - {(a, bsize i)} \<and> iflag s' = iflag s \<and> (\<forall>x. x div 4096 \<notin> DP \<longrightarrow> x \<noteq> a \<longrightarrow> wm s' x = wm s x)"
proof -
  note D = heap_inv_bucketD [OF inv b]
  let ?s0 = "set_IF False s"
  let ?bk = "bk(d \<mapsto> (i, P, a # fs))"
  define m where "m = (wm s)(a := wm s (d + 8), d + 8 := a, d + 12 := wm s (d + 12) div 65536 * 65536 +
    (65535 + wm s (d + 12) mod 65536) mod 65536)"
  let ?s1 = "set_wm m ?s0"
  have inv0: "heap_inv ?s0 bk C F DP" using inv by simp
  have m': "m = (wm ?s0)(a := wm ?s0 (d + 8), d + 8 := a, d + 12 := wm s (d + 12) div 65536 * 65536 +
    (65535 + wm s (d + 12) mod 65536) mod 65536)" "wm s (d + 12) = wm ?s0 (d + 12)" by (simp_all add: m_def)
  note G = give_block_spec [OF inv0 b a m'(2,1)]
  have live: "live ?bk = live bk - {(a, bsize i)}" by (rule live_upd [of bk d i P fs, OF b a]) (rule D(9))
  note a4 = block_addr [OF inv b a(1)]
  have "a div 4096 \<notin> DP" using a(1) D(4) by (simp add: blocks_of_def)
  then have ad: "a \<noteq> d + k" if "k < 16" for k using that D(5) desc_page [of d k] by (auto simp: desc_at_def)
  have ok: "words_ok ((wm s)(a := wm s (d + 8)))" "words_ok ((wm s)(a := wm s (d + 8), d + 8 := a))"
    using a4 D(7) by (simp_all add: dvd4)
  note wms = wm_set_wm [OF G(1), of ?s0]
  have st: "free_give a i d pr s = rbind (if m (d + 12) mod 2 ^ 16 = 0 then unlink_bucket i d pr ?s1 else Inr ?s1) (\<lambda>s'. Inr (set_IF (iflag s) s'))" for pr
    using D(6,7) a4 ad [of 8] ad [of 12] ok G(1) by (simp add: free_give_def desc_ops get_IF_def m_def Let_def)
  show ?thesis
  proof (cases "m (d + 12) mod 2 ^ 16 = 0")
    case False
    then have "free_give a i d (if xs = [] then 0 else last xs) s = Inr (set_IF (iflag s) ?s1)" by (simp add: st)
    moreover have "heap_inv (set_IF (iflag s) ?s1) ?bk C F DP" using G(2) by (simp only: heap_inv_flag(1))
    moreover have "iflag (set_IF (iflag s) ?s1) = iflag s" by (simp add: set_IF_def)
    moreover have "wm (set_IF (iflag s) ?s1) x = wm s x" if "x div 4096 \<notin> DP" "x \<noteq> a" for x using G(4) [OF that] wms by (simp del: desc_frame(2) add: desc_frame(4))
    ultimately show ?thesis using live by blast
  next
    case True
    with G(3) have full: "set (a # fs) = blocks_of (bsize i) P" by simp
    from unlink_bucket_spec [OF G(2) _ C, of P "a # fs"] obtain s' where
      s': "unlink_bucket i d (if xs = [] then 0 else last xs) ?s1 = Inr s'" "heap_inv s' (?bk(d := None)) (C(i := xs @ ys)) (d # F) DP"
        "\<forall>x. x div 4096 \<notin> DP \<longrightarrow> wm s' x = wm ?s1 x" by auto
    have "live ((?bk(d := None))(d \<mapsto> (i, P, a # fs))) = live (?bk(d := None))" by (rule live_new) (use full in auto)
    then have "live (?bk(d := None)) = live bk - {(a, bsize i)}" using live by simp
    moreover have "free_give a i d (if xs = [] then 0 else last xs) s = Inr (set_IF (iflag s) s')" using True s'(1) by (simp add: st)
    moreover have "heap_inv (set_IF (iflag s) s') (?bk(d := None)) (C(i := xs @ ys)) (d # F) DP" using s'(2) by simp
    moreover have "iflag (set_IF (iflag s) s') = iflag s" by (simp add: set_IF_def)
    moreover have "wm (set_IF (iflag s) s') x = wm s x" if "x div 4096 \<notin> DP" "x \<noteq> a" for x using s'(3) G(4) [OF that] that(1) wms by simp
    ultimately show ?thesis by blast
  qed
qed

section \<open>The heap as a set of blocks\<close>

definition heap_rep :: "'a heap_mem_scheme \<Rightarrow> (nat \<times> nat) set \<Rightarrow> bool" where
  "heap_rep s L \<longleftrightarrow> (\<exists>bk C F DP. heap_inv s bk C F DP \<and> L = live bk)"

definition granted_size :: "nat \<Rightarrow> nat" where
  "granted_size n = bucket_sizes ! dir_loop bucket_sizes 0 n"

lemma dir_loop_size: "if n \<le> 4096 then dir_loop bucket_sizes 0 n < 9 \<and> n \<le> granted_size n else granted_size n = 0"
  by (simp add: granted_size_def bucket_sizes_def)

lemma live_cells:
  assumes "heap_inv s bk C F DP" "(b, y) \<in> live bk" "x \<in> block_cells b y"
  shows "x div 4096 \<in> used_pages s" "x div 4096 \<notin> DP" "x div 4096 = b div 4096"
proof -
  from assms(2) obtain d i P fs where b: "bk d = Some (i, P, fs)" "y = bsize i" "b \<in> blocks_of (bsize i) P" by (auto simp: in_live)
  note D = heap_inv_bucketD [OF assms(1) b(1)]
  have "x div 4096 = P" using block_page [OF b(3) bsize_simps(2) [OF D(1)]] assms(3) b(2) by (simp add: block_cells_def)
  then show "x div 4096 \<in> used_pages s" "x div 4096 \<notin> DP" "x div 4096 = b div 4096" using D(3,4) b(3) by (auto simp: blocks_of_def)
qed

lemma live_apart:
  assumes inv: "heap_inv s bk C F DP" and L: "(a, z) \<in> live bk" "(b, y) \<in> live bk" "(a, z) \<noteq> (b, y)"
  shows "block_cells a z \<inter> block_cells b y = {}"
proof (cases "a div 4096 = b div 4096")
  case True
  from L(1) obtain d i fs where a: "bk d = Some (i, a div 4096, fs)" "z = bsize i" "a \<in> blocks_of (bsize i) (a div 4096)"
    by (auto simp: in_live_page blocks_of_def)
  from L(2) obtain e j gs where b: "bk e = Some (j, a div 4096, gs)" "y = bsize j" "b \<in> blocks_of (bsize j) (a div 4096)"
    by (auto simp: in_live_page blocks_of_def True)
  from heap_inv_bucketD(9) [OF inv a(1) b(1)] a(1) b(1) have "i = j" by simp
  then show ?thesis using block_apart [OF a(3) b(3) [folded \<open>i = j\<close>]] bsize_simps(1) a(2) b(2) L(3) by (simp add: block_cells_def)
next
  case False
  then show ?thesis using live_cells(3) [OF inv L(1)] live_cells(3) [OF inv L(2)] by (metis disjoint_iff)
qed

text \<open>The words of a block in use determine its bytes.\<close>

lemma cell_word:
  assumes inv: "heap_inv s bk C F DP" and L: "(b, y) \<in> live bk" and x: "x \<in> block_cells b y"
  shows "x - x mod 4 \<in> block_cells b y"
proof -
  from L obtain d i P fs where "bk d = Some (i, P, fs)" "b \<in> blocks_of (bsize i) P" by (auto simp: in_live)
  then have "4 dvd b" by (rule block_addr(2) [OF inv])
  moreover have "b \<le> x" using x by (simp add: block_cells_def)
  ultimately have "x mod 4 = (x - b) mod 4" by (metis dvd_imp_mod_0 mod_0_imp_dvd dvdE le_add_diff_inverse mod_mult_self4)
  then have "x mod 4 \<le> x - b" by simp
  with x show ?thesis by (auto simp: block_cells_def)
qed

lemma rep_bytes:
  assumes "heap_rep s L" "L' \<subseteq> L" "\<forall>(b, y) \<in> L'. \<forall>x \<in> block_cells b y. wm s' x = wm s x"
  shows "\<forall>(b, y) \<in> L'. \<forall>x \<in> block_cells b y. bytes s' x = bytes s x"
proof -
  from assms(1) obtain bk C F DP where inv: "heap_inv s bk C F DP" and L: "L = live bk" by (auto simp: heap_rep_def)
  have "bytes s' x = bytes s x" if h: "(b, y) \<in> L'" "x \<in> block_cells b y" for b y x
  proof (rule bytes_eq)
    have "x - x mod 4 \<in> block_cells b y" using cell_word [OF inv _ h(2)] h(1) assms(2) L by auto
    with assms(3) h(1) show "wm s' (x - x mod 4) = wm s (x - x mod 4)" by auto
  qed
  then show ?thesis by auto
qed

lemma malloc_spec:
  assumes rep: "heap_rep s L"
  shows "malloc n s = Inl Panic \<and> (4096 < n \<or> card (unused_pages s) \<le> 1) \<or>
    (\<exists>a s'. malloc n s = Inr (a, s') \<and> n \<le> granted_size n \<and> granted_size n dvd a \<and> (a, granted_size n) \<notin> L \<and>
      heap_rep s' (insert (a, granted_size n) L) \<and> iflag s' = iflag s \<and> (\<forall>(b, y) \<in> L. \<forall>x \<in> block_cells b y. bytes s' x = bytes s x))"
proof (cases "n \<le> 4096")
  case False
  then have "malloc n s = Inl Panic" using dir_loop_size [of n] by (simp add: malloc_def granted_size_def Let_def)
  with False show ?thesis by simp
next
  case True
  from rep obtain bk C F DP where inv: "heap_inv s bk C F DP" and L: "L = live bk" by (auto simp: heap_rep_def)
  define i where "i = dir_loop bucket_sizes 0 n"
  have i: "i < 9" "n \<le> bsize i" "granted_size n = bsize i" using dir_loop_size [of n] True by (auto simp: i_def granted_size_def)
  have ch: "chains_ok (wm s) (first_bucket s) bk C" using inv by (simp add: heap_inv_def)
  from find_bucket_spec [OF chains_okD(1) [OF ch i(1)]] obtain d where
    d: "find_bucket (first_bucket s i) s = Some (Inr d)" "d \<noteq> 0 \<longrightarrow> d \<in> set (C i) \<and> wm s (d + 8) \<noteq> 0" by auto
  have st: "malloc n s = malloc_take i d s" using d(1) i bsize_simps(1) [of i] by (simp add: malloc_def Let_def i_def [symmetric])
  have take: ?thesis if s1: "malloc_take i d s = rbind (take_block e s1) (\<lambda>(a, s'). Inr (a, set_IF (iflag s) s'))"
    and inv1: "heap_inv s1 bk1 C1 F1 DP1" "bk1 e = Some (i, P, f # fs)" and live: "live bk1 = L"
    and k: "\<And>b y x. (b, y) \<in> L \<Longrightarrow> x \<in> block_cells b y \<Longrightarrow> wm s1 x = wm s x" for e s1 bk1 C1 F1 DP1 P f fs
  proof -
    from take_block_spec [OF inv1] obtain s2 where
      s2: "take_block e s1 = Inr (f, s2)" "heap_inv s2 (bk1(e \<mapsto> (i, P, fs))) C1 F1 DP1" "\<forall>x. x div 4096 \<notin> DP1 \<longrightarrow> wm s2 x = wm s1 x" by auto
    let ?s = "set_IF (iflag s) s2"
    have "heap_rep ?s (insert (f, bsize i) L)" "(f, bsize i) \<notin> L"
      using live_take [OF inv1] s2(2) live by (auto simp: heap_rep_def)
    moreover have "bsize i dvd f" using heap_inv_bucketD(2) [OF inv1] by (auto simp: bucket_ok_def blocks_of_def)
    moreover have "\<forall>(b, y) \<in> L. \<forall>x \<in> block_cells b y. wm ?s x = wm s x"
      using live_cells(2) [OF inv1(1)] live s2(3) k by fastforce
    then have "\<forall>(b, y) \<in> L. \<forall>x \<in> block_cells b y. bytes ?s x = bytes s x" by (rule rep_bytes [OF rep order.refl])
    moreover have "malloc n s = Inr (f, ?s)" using s1 s2(1) st by simp
    moreover have "iflag ?s = iflag s" by (simp add: set_IF_def)
    ultimately show ?thesis using i by (intro disjI2 exI [of _ f] exI [of _ ?s]) simp
  qed
  show ?thesis
  proof (cases "d = 0")
    case False
    then have "d \<in> set (C i)" "wm s (d + 8) \<noteq> 0" using d(2) by auto
    then obtain P fs where b: "bk d = Some (i, P, fs)" using chains_okD(3) [OF ch i(1)] by auto
    with \<open>wm s (d + 8) \<noteq> 0\<close> obtain f gs where "fs = f # gs"
      using heap_inv_bucketD(2) [OF inv b] by (cases fs) (auto simp: bucket_ok_def)
    show ?thesis
    proof (rule take)
      show "malloc_take i d s = rbind (take_block d (set_IF False s)) (\<lambda>(a, s'). Inr (a, set_IF (iflag s) s'))"
        using False by (simp add: malloc_take_def get_IF_def)
      show "heap_inv (set_IF False s) bk C F DP" using inv by simp
      show "bk d = Some (i, P, f # gs)" using b \<open>fs = f # gs\<close> by simp
    qed (simp_all add: L)
  next
    case True
    have "heap_inv (set_IF False s) bk C F DP" using inv by simp
    from new_bucket_spec [OF this i(1)] show ?thesis
    proof (elim disjE exE conjE)
      assume "card (unused_pages (set_IF False s)) \<le> 1" "new_bucket i (set_IF False s) = Inl Panic"
      then show ?thesis using True st by (simp add: malloc_take_def)
    next
      fix e s1 P fs C1 F1 DP1 assume h: "new_bucket i (set_IF False s) = Inr (e, s1)" "heap_inv s1 (bk(e \<mapsto> (i, P, fs))) C1 F1 DP1"
        "bk e = None" "set fs = blocks_of (bsize i) P" "fs \<noteq> []" "keeps DP (set_IF False s) s1"
      obtain f gs where f: "fs = f # gs" using h(5) by (cases fs) auto
      show ?thesis
      proof (rule take)
        show "malloc_take i d s = rbind (take_block e s1) (\<lambda>(a, s'). Inr (a, set_IF (iflag s) s'))"
          using True h(1) by (simp add: malloc_take_def get_IF_def)
        show "heap_inv s1 (bk(e \<mapsto> (i, P, f # gs))) C1 F1 DP1" "(bk(e \<mapsto> (i, P, f # gs))) e = Some (i, P, f # gs)" using h(2) f by simp_all
        show "live (bk(e \<mapsto> (i, P, f # gs))) = L" using live_new [of bk e fs i P, OF h(3,4)] f L by simp
        show "wm s1 x = wm s x" if "(b, y) \<in> L" "x \<in> block_cells b y" for b y x
          using h(6) live_cells [OF inv _ that(2)] that(1) L by (simp add: keeps_def)
      qed
    qed
  qed
qed

lemma free_s_spec:
  assumes rep: "heap_rep s L" and a: "(a, z) \<in> L" and siz: "siz \<le> z"
  shows "\<exists>s'. free_s a siz s = Inr s' \<and> heap_rep s' (L - {(a, z)}) \<and> iflag s' = iflag s \<and>
    (\<forall>(b, y) \<in> L - {(a, z)}. \<forall>x \<in> block_cells b y. bytes s' x = bytes s x)"
proof -
  from rep obtain bk C F DP where inv: "heap_inv s bk C F DP" and L: "L = live bk" by (auto simp: heap_rep_def)
  from a L obtain d i P fs where b: "bk d = Some (i, P, fs)" "z = bsize i" "a \<in> blocks_of (bsize i) P" "a \<notin> set fs"
    by (auto simp: in_live)
  from free_find_spec [OF inv b(1) siz [unfolded b(2)], of 0] obtain xs ys where
    f: "C i = xs @ d # ys" "free_find bucket_sizes 0 (P * 4096) siz s = Inr (i, d, if xs = [] then 0 else last xs)" by auto
  from free_give_spec [OF inv b(1,3,4) f(1)] obtain s' bk' C' F' where
    s': "free_give a i d (if xs = [] then 0 else last xs) s = Inr s'" "heap_inv s' bk' C' F' DP"
      "live bk' = live bk - {(a, bsize i)}" "iflag s' = iflag s" "\<forall>x. x div 4096 \<notin> DP \<longrightarrow> x \<noteq> a \<longrightarrow> wm s' x = wm s x" by auto
  have "a div 4096 = P" using b(3) by (simp add: blocks_of_def)
  then have "free_s a siz s = Inr s'" using f(2) s'(1) by (simp add: free_s_def)
  moreover have "heap_rep s' (L - {(a, z)})" using s'(2,3) b(2) L by (auto simp: heap_rep_def)
  moreover have "wm s' x = wm s x" if "(c, y) \<in> L - {(a, z)}" "x \<in> block_cells c y" for c y x
  proof -
    have c: "(c, y) \<in> live bk" "(a, z) \<in> live bk" "(c, y) \<noteq> (a, z)" using that(1) L a by auto
    have "a \<in> block_cells a z" using bsize_simps(1) b(2) by (simp add: block_cells_def)
    then have "x \<noteq> a" using live_apart [OF inv c] that(2) by auto
    with live_cells(2) [OF inv c(1) that(2)] s'(5) show ?thesis by simp
  qed
  then have "\<forall>(b, y) \<in> L - {(a, z)}. \<forall>x \<in> block_cells b y. bytes s' x = bytes s x"
    by (intro rep_bytes [OF rep]) auto
  ultimately show ?thesis using s'(4) by blast
qed

text \<open>A user stores a byte into a block.\<close>

definition store_cell :: "nat \<Rightarrow> u8 \<Rightarrow> 'a heap_mem_scheme \<Rightarrow> 'a heap_mem_scheme" where
  "store_cell x v s = s\<lparr>bytes := (bytes s)(x := v)\<rparr>"

lemma store_cell_words: "a \<noteq> x - x mod 4 \<Longrightarrow> wm (store_cell x v s) a = wm s a"
proof -
  assume a: "a \<noteq> x - x mod 4"
  have "a + k \<noteq> x" if "4 dvd a" "k < 4" for k
  proof
    assume "a + k = x"
    with that have "x mod 4 = k" by (auto elim!: dvdE)
    with \<open>a + k = x\<close> a show False by simp
  qed
  from this [of 0] this [of 1] this [of 2] this [of 3] show ?thesis by (simp add: wm_def word_at_def store_cell_def)
qed

lemma store_cell_spec:
  assumes rep: "heap_rep s L" and a: "(a, z) \<in> L" "x \<in> block_cells a z"
  shows "heap_rep (store_cell x v s) L"
proof -
  from rep obtain bk C F DP where inv: "heap_inv s bk C F DP" and L: "L = live bk" by (auto simp: heap_rep_def)
  from a L obtain d i P fs where b: "bk d = Some (i, P, fs)" "z = bsize i" "a \<in> blocks_of (bsize i) P" "a \<notin> set fs"
    by (auto simp: in_live)
  note D = heap_inv_bucketD [OF inv b(1)]
  define w where "w = x - x mod 4"
  have wc: "w \<in> block_cells a z" unfolding w_def using cell_word [OF inv _ a(2)] a(1) L by simp
  have w: "w div 4096 = P" using live_cells(3) [OF inv _ wc] a(1) L b(3) by (simp add: blocks_of_def)
  then have wd: "d + k \<noteq> w" if "k < 16" for k using that D(4,5) desc_page [of d k] by (auto simp: desc_at_def)
  have "w \<notin> set fs"
  proof
    assume f: "w \<in> set fs"
    then have "w \<in> blocks_of (bsize i) P" using D(2) by (auto simp: bucket_ok_def)
    moreover have "a \<noteq> w" using f b(4) by auto
    ultimately have "{a..<a + bsize i} \<inter> {w..<w + bsize i} = {}" using block_apart b(3) bsize_simps(1) by blast
    then show False using wc b(2) bsize_simps(1) [of i] by (auto simp: block_cells_def)
  qed
  let ?s = "store_cell x v s"
  have same: "wm ?s y = wm s y" if "y \<noteq> w" for y using that store_cell_words by (simp add: w_def)
  have "chain (wm ?s) p fs = chain (wm s) p fs" for p using \<open>w \<notin> set fs\<close> by (intro chain_cong) (auto intro: same)
  then have "bucket_ok (wm ?s) d i P fs"
    using D(2) same [OF wd [of 4]] same [OF wd [of 8]] same [OF wd [of 12]] by (simp add: bucket_ok_def)
  moreover have "touches d P (wm s) (wm ?s)" using w same unfolding touches_def by metis
  moreover have "wm ?s d = wm s d" using same wd [of 0] by simp
  ultimately have "heap_inv ?s (bk(d \<mapsto> (i, P, fs))) C F DP"
    by (intro heap_inv_bucket [OF inv b(1)]) (auto simp: store_cell_def)
  moreover have "bk(d \<mapsto> (i, P, fs)) = bk" using b(1) by auto
  ultimately show ?thesis using L by (auto simp: heap_rep_def)
qed

lemma heap_rep_apart: "heap_rep s L \<Longrightarrow> (a, z) \<in> L \<Longrightarrow> (b, y) \<in> L \<Longrightarrow> (a, z) \<noteq> (b, y) \<Longrightarrow> block_cells a z \<inter> block_cells b y = {}"
  by (auto simp: heap_rep_def dest: live_apart)

interpretation kheap: block_heap malloc "\<lambda>a. free_s a 0" store_cell granted_size bytes heap_rep
proof
  fix s :: "'a heap_mem_scheme" and L assume rep: "heap_rep s L"
  show "malloc n s = Inl Panic \<or>
      (\<exists>a s'. malloc n s = Inr (a, s') \<and> n \<le> granted_size n \<and> (a, granted_size n) \<notin> L \<and> heap_rep s' (insert (a, granted_size n) L) \<and>
        (\<forall>(b, y) \<in> L. \<forall>x \<in> block_cells b y. bytes s' x = bytes s x))" for n
    using malloc_spec [OF rep, of n] by blast
  show "\<exists>s'. free_s a 0 s = Inr s' \<and> heap_rep s' (L - {(a, z)}) \<and>
      (\<forall>(b, y) \<in> L - {(a, z)}. \<forall>x \<in> block_cells b y. bytes s' x = bytes s x)" if "(a, z) \<in> L" for a z
    using free_s_spec [OF rep that, of 0] by blast
  show "heap_rep (store_cell x v s) L \<and> bytes (store_cell x v s) = (bytes s)(x := v)" if "(a, z) \<in> L" "x \<in> block_cells a z" for a z x v
    using store_cell_spec [OF rep that] by (simp add: store_cell_def)
qed (rule heap_rep_apart)

lemma heap_rep_start:
  assumes "vmap_wf (v_bit_map s)" "first_bucket s = (\<lambda>_. 0)" "free_bucket_desc s = 0"
  shows "heap_rep s {}"
proof -
  have "heap_inv s (\<lambda>_. None) (\<lambda>_. []) [] {}"
    using assms by (simp add: heap_inv_def chains_ok_def buckets_ok_def free_ok_def)
  moreover have "live (\<lambda>_. None) = {}" by (simp add: live_def)
  ultimately show ?thesis unfolding heap_rep_def by metis
qed

section \<open>Properties\<close>


text \<open>
  \<^verbatim>\<open>free_s\<close> of a block in use, with any size hint up to the size of the block, takes exactly
  this block out of use, changes no other block in use and restores the interrupt flag.
\<close>

theorem free_s_releases:
  assumes "heap_rep s L" "(a, z) \<in> L" "siz \<le> z"
  shows "\<exists>s'. free_s a siz s = Inr s' \<and> heap_rep s' (L - {(a, z)}) \<and> iflag s' = iflag s \<and>
    (\<forall>(b, y) \<in> L - {(a, z)}. \<forall>x \<in> block_cells b y. bytes s' x = bytes s x)"
  using free_s_spec [OF assms] .

text \<open>
  C5: Whatever sequence of allocations, releases and stores into blocks in use follows the boot,
  the blocks in use stay apart, every byte stored into a block in use is read back, every block
  in use can be released, and \<^verbatim>\<open>malloc\<close> only ever returns a block that is not in use, or panics.
\<close>

theorem malloc_heap_safe:
  fixes s0 :: "'a heap_mem_scheme"
  assumes "vmap_wf (v_bit_map s0)" "first_bucket s0 = (\<lambda>_. 0)" "free_bucket_desc s0 = 0"
    and run: "heap_run malloc (\<lambda>a. free_s a 0) store_cell granted_size s0 s L sh"
  shows "(\<forall>(a, z) \<in> L. \<forall>(b, y) \<in> L. (a, z) \<noteq> (b, y) \<longrightarrow> block_cells a z \<inter> block_cells b y = {}) \<and>
    (\<forall>x v. sh x = Some v \<longrightarrow> bytes s x = v) \<and> (\<forall>(a, z) \<in> L. \<exists>s'. free_s a 0 s = Inr s') \<and>
    (\<forall>n. malloc n s = Inl Panic \<or> (\<exists>a s'. malloc n s = Inr (a, s') \<and> (a, granted_size n) \<notin> L))"
proof -
  note S = kheap.run_safe [OF run heap_rep_start [OF assms(1-3)]]
  have "block_cells (fst p) (snd p) \<inter> block_cells (fst q) (snd q) = {}" if "p \<in> L" "q \<in> L" "p \<noteq> q" for p q
    using S(1) [of "fst p" "snd p" "fst q" "snd q"] that by simp
  then show ?thesis unfolding case_prod_beta prod.collapse using S(2) S(3) [of "fst _" "snd _"] S(4) by auto
qed

text \<open>
  C31: The search of \<^verbatim>\<open>malloc\<close> runs with interrupts on. When it has found a bucket whose last free
  block another task then allocates, the rest of the call reads through a null pointer.
\<close>

theorem malloc_race_faults:
  assumes "find_bucket (first_bucket s i) s = Some (Inr d)" "d \<noteq> 0" "i = dir_loop bucket_sizes 0 n"
    and last: "word_at (bytes s) (word_at (bytes s) (d + 8)) = 0"
    and other: "malloc n s = Inr (a, s')"
  shows "malloc_take i d s' = Inl Fault"
proof -
  have n: "bucket_sizes ! i \<noteq> 0" using other assms(3) by (auto simp: malloc_def Let_def split: if_splits)
  have t: "malloc n s = malloc_take i d s" using n assms(1,3) by (simp add: malloc_def Let_def)
  with other assms(2) obtain s1 where s1: "take_block d (set_IF False s) = Inr (a, s1)" "s' = set_IF (iflag s) s1"
    by (auto simp: malloc_take_def get_IF_def)
  have d: "4096 \<le> d + 8" "4096 \<le> d + 12"
    using s1(1) by (auto simp: take_block_def desc_defs rd_def split: if_splits)
  have "word_at (bytes s1) (d + 8) = 0"
    using s1(1) d last by (auto simp: take_block_def desc_defs rd_def wr_def Let_def word_at_far word_at_put set_IF_def split: if_splits)
  then show ?thesis using assms(2) d s1(2) by (simp add: malloc_take_def take_block_def desc_defs rd_def)
qed

text \<open>
  When another bucket has become the head of the chain since the search of \<^verbatim>\<open>free_s\<close>, the
  test that is an assignment makes the emptied bucket's place be taken by that head: its page is
  given back although blocks in it are in use.
\<close>

theorem free_race_frees_used_page:
  assumes rep: "heap_rep s L" and i: "i < 9" and h: "first_bucket s i \<noteq> 0" "first_bucket s i \<noteq> d"
    and b: "(b, y) \<in> L" "wm s (first_bucket s i + 4) = b div 4096 * 4096"
  shows "\<exists>s'. unlink_bucket i d 0 s = Inr s' \<and> b div 4096 \<in> used_pages s \<and> b div 4096 \<notin> used_pages s'"
proof -
  let ?h = "first_bucket s i"
  from rep obtain bk C F DP where inv: "heap_inv s bk C F DP" and L: "L = live bk" by (auto simp: heap_rep_def)
  have ch: "chains_ok (wm s) (first_bucket s) bk C" using inv by (simp add: heap_inv_def)
  note c = chains_okD [OF ch i]
  obtain ys where C: "C i = [] @ ?h # ys" using chain_Cons [OF c(1) h(1)] by auto
  then have "?h \<in> set (C i)" by simp
  then obtain P fs where bh: "bk ?h = Some (i, P, fs)" unfolding c(3) by blast
  have P: "P = b div 4096" using heap_inv_bucketD(2) [OF inv bh] b(2) by (simp add: bucket_ok_def)
  have "unlink_bucket i d 0 s = unlink_bucket i ?h 0 s" using h by (simp add: unlink_bucket_def recheck_def)
  then show ?thesis using unlink_bucket_spec [OF inv bh C] heap_inv_bucketD(3) [OF inv bh] P by auto
qed

section \<open>Witnesses\<close>

definition ex_heap :: heap_mem where
  "ex_heap = \<lparr>iflag = True, cr3 = 0x1000, v_bit_map = \<lparr>bm_start = [0x03, 0], bm_length = 2, bm_offset = 256\<rparr>,
     bytes = (\<lambda>_. 0), first_bucket = (\<lambda>_. 0), free_bucket_desc = 0\<rparr>"

lemma ex_heap_start: "vmap_wf (v_bit_map ex_heap)" "first_bucket ex_heap = (\<lambda>_. 0)" "free_bucket_desc ex_heap = 0"
  by (simp_all add: ex_heap_def vmap_wf_def bm_wf_def bm_bits_def)

lemma ex_heap_malloc: "\<exists>a s'. malloc 20 ex_heap = Inr (a, s')"
proof -
  have "{260, 261} \<subseteq> unused_pages ex_heap"
    by (simp add: unused_pages_def pages_used_def ex_heap_def bm_bits_def bm_bit_def)
  moreover have "finite (unused_pages ex_heap)" by (simp add: unused_pages_def)
  ultimately have "\<not> card (unused_pages ex_heap) \<le> 1" using card_mono [of "unused_pages ex_heap" "{260, 261}"] by simp
  then show ?thesis using malloc_spec [OF heap_rep_start [OF ex_heap_start], of 20] by auto
qed


theorem free_s_releases_witness:
  "\<exists>a s' s''. malloc 20 ex_heap = Inr (a, s') \<and> free_s a 20 s' = Inr s'' \<and> heap_rep s'' {}"
proof -
  obtain a s' where m: "malloc 20 ex_heap = Inr (a, s')" using ex_heap_malloc by blast
  with malloc_spec [OF heap_rep_start [OF ex_heap_start], of 20] have
    "heap_rep s' {(a, granted_size 20)}" "20 \<le> granted_size 20" by auto
  from free_s_releases [OF this(1) _ this(2), of a] m show ?thesis by auto
qed

theorem malloc_heap_safe_witness:
  "\<exists>a s1 s2. malloc 20 ex_heap = Inr (a, s1) \<and> bytes (store_cell a 7 s1) a = 7 \<and> free_s a 0 (store_cell a 7 s1) = Inr s2"
proof -
  obtain a s1 where m: "malloc 20 ex_heap = Inr (a, s1)" using ex_heap_malloc by blast
  have "heap_run malloc (\<lambda>a. free_s a 0) store_cell granted_size ex_heap s1 {(a, granted_size 20)} (\<lambda>_. None)"
    by (rule run_alloc) (rule run_start, rule m)
  moreover have "a \<in> block_cells a (granted_size 20)" using dir_loop_size [of 20] by (simp add: block_cells_def)
  ultimately have "heap_run malloc (\<lambda>a. free_s a 0) store_cell granted_size ex_heap (store_cell a 7 s1)
      {(a, granted_size 20)} ((\<lambda>_. None)(a := Some 7))" by (intro run_store) auto
  from malloc_heap_safe [OF ex_heap_start this] m show ?thesis by auto
qed

text \<open>One bucket of 4096 bytes whose only block is free.\<close>

definition ex_last :: heap_mem where
  "ex_last = ex_heap\<lparr>bytes := put_word 0x101004 0x102000 (put_word 0x101008 0x102000 (\<lambda>_. 0)), first_bucket := (\<lambda>_. 0)(8 := 0x101000)\<rparr>"

lemma word_at_zero: "word_at (\<lambda>_. 0) a = 0"
  by (simp add: word_at_def)

theorem malloc_race_faults_witness:
  "\<exists>a s'. malloc 4096 ex_last = Inr (a, s') \<and> malloc_take 8 0x101000 s' = Inl Fault"
proof -
  have f: "find_bucket (first_bucket ex_last 8) ex_last = Some (Inr 0x101000)"
    by (subst find_bucket.simps) (simp add: ex_last_def get_freeptr_def rd_def word_at_put word_at_far)
  have i: "8 = dir_loop bucket_sizes 0 4096" by (simp add: bucket_sizes_def)
  have m: "\<exists>s'. malloc 4096 ex_last = Inr (0x102000, s')"
    using f unfolding malloc_def Let_def i [symmetric]
    by (simp add: bucket_sizes_def malloc_take_def take_block_def desc_defs rd_def wr_def ex_last_def set_IF_def word_at_put word_at_far word_at_zero)
  then obtain s' where s': "malloc 4096 ex_last = Inr (0x102000, s')" by blast
  from malloc_race_faults [OF f _ i _ s'] s' show ?thesis by (simp add: ex_last_def word_at_put word_at_far word_at_zero)
qed

text \<open>Two buckets of 4096 bytes, both blocks in use.\<close>

definition ex_two :: heap_mem where
  "ex_two = ex_heap\<lparr>v_bit_map := \<lparr>bm_start = [0x0e, 0], bm_length = 2, bm_offset = 256\<rparr>,
     bytes := bytes_of ((\<lambda>_. 0)(0x101000 := 0x101010, 0x101004 := 0x102000, 0x10100c := 1, 0x101014 := 0x103000, 0x10101c := 1)),
     first_bucket := (\<lambda>_. 0)(8 := 0x101000)\<rparr>"

lemma ex_two_words: "wm ex_two = (\<lambda>_. 0)(0x101000 := 0x101010, 0x101004 := 0x102000, 0x10100c := 1, 0x101014 := 0x103000, 0x10101c := 1)"
proof -
  let ?m = "(\<lambda>_. 0 :: nat)(0x101000 := 0x101010, 0x101004 := 0x102000, 0x10100c := 1, 0x101014 := 0x103000, 0x10101c := 1)"
  have "words_ok (\<lambda>_. 0)" by (simp add: words_ok_def)
  then have "words_ok ?m" by (intro words_ok_upd) simp_all
  then have "wm (set_wm ?m ex_heap) = ?m" by (rule wm_set_wm)
  moreover have "wm ex_two = wm (set_wm ?m ex_heap)" by (simp add: wm_def ex_two_def set_wm_def cong: if_cong)
  ultimately show ?thesis by (simp only:)
qed

lemma ex_two_rep: "heap_rep ex_two {(0x102000, 4096), (0x103000, 4096)}"
proof -
  define bk :: bucket_map where "bk = (\<lambda>_. None)(0x101000 \<mapsto> (8, 0x102, []), 0x101010 \<mapsto> (8, 0x103, []))"
  let ?C = "(\<lambda>_. [])(8 := [0x101000, 0x101010])"
  have "chains_ok (wm ex_two) (first_bucket ex_two) bk ?C"
    unfolding ex_two_words by (auto simp: chains_ok_def ex_two_def bk_def addr_ok_def split: if_splits)
  moreover have "buckets_ok (wm ex_two) (used_pages ex_two) {0x101} bk"
    unfolding ex_two_words by (auto simp: buckets_ok_def ex_two_def bk_def bucket_ok_def bsize_def desc_at_def pages_used_def bm_bits_def bm_bit_def
        split: if_splits)
  moreover have "vmap_wf (v_bit_map ex_two)" by (simp add: ex_two_def vmap_wf_def bm_wf_def bm_bits_def)
  moreover have "{0x101} \<subseteq> used_pages ex_two" by (simp add: ex_two_def pages_used_def bm_bits_def bm_bit_def)
  ultimately have "heap_inv ex_two bk ?C [] {0x101}"
    by (simp add: heap_inv_def free_ok_def) (simp add: ex_two_def ex_heap_def)
  moreover have "live bk = {(0x102000, 4096), (0x103000, 4096)}"
  proof -
    have "a div 4096 = P \<and> 4096 dvd a \<longleftrightarrow> a = P * 4096" for a P :: nat by (auto elim!: dvdE)
    moreover have "bk d = Some (i, P, fs) \<longleftrightarrow> d = 0x101000 \<and> i = 8 \<and> P = 0x102 \<and> fs = [] \<or> d = 0x101010 \<and> i = 8 \<and> P = 0x103 \<and> fs = []"
      for d i P fs by (auto simp: bk_def)
    ultimately have "(a, z) \<in> live bk \<longleftrightarrow> (a, z) \<in> {(0x102000, 4096), (0x103000, 4096)}" for a z
      by (auto simp: in_live blocks_of_def bsize_def)
    then show ?thesis by auto
  qed
  ultimately show ?thesis unfolding heap_rep_def by metis
qed

theorem free_race_frees_used_page_witness:
  "\<exists>s'. unlink_bucket 8 0x101010 0 ex_two = Inr s' \<and> 0x102 \<in> used_pages ex_two \<and> 0x102 \<notin> used_pages s'"
  using free_race_frees_used_page [OF ex_two_rep, of 8 "0x101010" "0x102000" 4096] ex_two_words by (simp add: ex_two_def)

end
