(* ===== verification/Pci.thy ===== *)
theory Pci
  imports Rdix_Prelude
begin

text \<open>
  The PCI bus of \<^verbatim>\<open>kernel/pci.c\<close>: the scan of the configuration space, the search of devices and
  capabilities and the set-up of message signalled interrupts. The hardware is the documented
  configuration mechanism: an address written to \<^verbatim>\<open>PCI_CONFIG_ADDRESS\<close> selects a register, of
  which a write to \<^verbatim>\<open>PCI_CONFIG_DATA\<close> changes the writable bits. The device list of a bus is the
  list of its devices, in the order in which \<^verbatim>\<open>list_pushback\<close> appends them; \<open>None\<close> is the null
  pointer. Blocks from \<^verbatim>\<open>malloc\<close> are the records themselves.
\<close>

section \<open>The configuration space\<close>

record pci_ports =
  cfg_addr :: u32
  cfg :: "u32 \<Rightarrow> u32"
  cfg_writable :: "u32 \<Rightarrow> u32"

definition PCI_CONFIG_SPACE_CMD :: u8 where "PCI_CONFIG_SPACE_CMD = 0x4"
definition PCI_CONFIG_SPACE_CAP_PTR :: u8 where "PCI_CONFIG_SPACE_CAP_PTR = 0x34"
definition PCI_CAP_ID_MSI :: u8 where "PCI_CAP_ID_MSI = 5"
definition PCI_CAP_END_PTR :: u8 where "PCI_CAP_END_PTR = 0"
definition PCI_CS_CMD_BUS_INT_DISABLE :: u32 where "PCI_CS_CMD_BUS_INT_DISABLE = push_bit 10 1"

definition outd_address :: "u32 \<Rightarrow> 'a pci_ports_scheme \<Rightarrow> 'a pci_ports_scheme" where
  "outd_address a s = s\<lparr>cfg_addr := a\<rparr>"

definition reg_of :: "u32 \<Rightarrow> u32" where
  "reg_of a = a AND NOT 3"

definition ind_data :: "'a pci_ports_scheme \<Rightarrow> u32" where
  "ind_data s = cfg s (reg_of (cfg_addr s))"

definition outd_data :: "u32 \<Rightarrow> 'a pci_ports_scheme \<Rightarrow> 'a pci_ports_scheme" where
  "outd_data v s =
     (let r = reg_of (cfg_addr s); w = cfg_writable s r in
      s\<lparr>cfg := (cfg s)(r := cfg s r AND NOT w OR v AND w)\<rparr>)"

definition GET_TRANSCATION :: "u32 \<Rightarrow> u8 \<Rightarrow> u8 \<Rightarrow> u8 \<Rightarrow> u8 \<Rightarrow> u32" where
  "GET_TRANSCATION bus device function register type =
     0x80000000 OR push_bit 16 bus OR push_bit 11 (ucast (device AND 0x1f)) OR push_bit 8 (ucast (function AND 7))
     OR ucast (register AND 0xFC) OR ucast (type AND 3)"

definition DEVICE_EXIST :: "u16 \<Rightarrow> bool" where
  "DEVICE_EXIST vectorID = (vectorID \<noteq> 0xffff)"

definition read_register :: "u32 \<Rightarrow> u8 \<Rightarrow> u8 \<Rightarrow> u8 \<Rightarrow> 'a pci_ports_scheme \<Rightarrow> u32 \<times> 'a pci_ports_scheme" where
  "read_register bus dev_num function reg s =
     (let type = if bus > 0 then 1 else 0;
          s = outd_address (GET_TRANSCATION bus dev_num function reg type) s in
      (ind_data s, s))"

definition write_register :: "u32 \<Rightarrow> u8 \<Rightarrow> u8 \<Rightarrow> u8 \<Rightarrow> u32 \<Rightarrow> 'a pci_ports_scheme \<Rightarrow> 'a pci_ports_scheme" where
  "write_register bus dev_num function reg v s =
     (let type = if bus > 0 then 1 else 0 in
      outd_data v (outd_address (GET_TRANSCATION bus dev_num function reg type) s))"

section \<open>Devices\<close>

record bar_entry =
  base_addr :: u32
  bar_size :: u32
  bar_type :: u8

record pci_device_t =
  pd_bus :: u32
  pd_dev_num :: u8
  pd_function :: u8
  vectorID :: u16
  deviceID :: u16
  revisionID :: u8
  Ccode :: u32
  header_type :: u8
  BAR :: "bar_entry list"

record PCI_bus_t =
  bus_num :: int
  dev_list :: "pci_device_t list option"

definition pci_dev_reg_read :: "pci_device_t \<Rightarrow> u8 \<Rightarrow> 'a pci_ports_scheme \<Rightarrow> u32 \<times> 'a pci_ports_scheme" where
  "pci_dev_reg_read dev reg = read_register (pd_bus dev) (pd_dev_num dev) (pd_function dev) reg"

definition pci_dev_reg_write :: "pci_device_t \<Rightarrow> u8 \<Rightarrow> u32 \<Rightarrow> 'a pci_ports_scheme \<Rightarrow> 'a pci_ports_scheme" where
  "pci_dev_reg_write dev reg v = write_register (pd_bus dev) (pd_dev_num dev) (pd_function dev) reg v"

text \<open>The address and the mask read back for the size, split by the lowest bit.\<close>

definition decode_bar :: "u32 \<Rightarrow> u32 \<Rightarrow> bar_entry" where
  "decode_bar base sz =
     (if base AND 1 \<noteq> 0 then
        \<lparr>base_addr = base AND 0xfffffffc, bar_size = NOT (sz AND 0xfffffffc) + 1, bar_type = ucast (base AND 3)\<rparr>
      else
        \<lparr>base_addr = base AND 0xfffffff0, bar_size = NOT (sz AND 0xfffffff0) + 1, bar_type = ucast (base AND 0xf)\<rparr>)"

definition get_bar_and_size :: "u32 \<Rightarrow> u8 \<Rightarrow> u8 \<Rightarrow> u8 \<Rightarrow> 'a pci_ports_scheme \<Rightarrow> bar_entry \<times> 'a pci_ports_scheme" where
  "get_bar_and_size bus dev_num function bar_idx s =
     (let reg = 0x10 + bar_idx * 4;
          s = outd_address (GET_TRANSCATION bus dev_num function reg (if bus > 0 then 1 else 0)) s;
          base = ind_data s;
          s = outd_data 0xffffffff s;
          sz = ind_data s;
          s = outd_data base s in
      (decode_bar base sz, s))"

primrec read_bars :: "u8 list \<Rightarrow> u32 \<Rightarrow> u8 \<Rightarrow> u8 \<Rightarrow> 'a pci_ports_scheme \<Rightarrow> bar_entry list \<times> 'a pci_ports_scheme" where
  "read_bars [] bus dev_num function s = ([], s)"
| "read_bars (b # bs) bus dev_num function s =
     (let (e, s) = get_bar_and_size bus dev_num function b s; (es, s) = read_bars bs bus dev_num function s in (e # es, s))"

definition device_probe :: "pci_device_t list option \<Rightarrow> u8 \<Rightarrow> u8 \<Rightarrow> u8 \<Rightarrow> 'a pci_ports_scheme \<Rightarrow>
    pci_device_t option \<times> pci_device_t list option \<times> 'a pci_ports_scheme" where
  "device_probe list bus dev_num function s =
     (let (d, s) = read_register (ucast bus) dev_num function 0 s in
      if \<not> DEVICE_EXIST (ucast d) then (None, list, s)
      else
        let devs = (case list of None \<Rightarrow> [] | Some l \<Rightarrow> l);
            (d8, s) = read_register (ucast bus) dev_num function 0x8 s;
            (dc, s) = read_register (ucast bus) dev_num function 0xc s;
            (bars, s) = read_bars [0, 1, 2, 3, 4, 5] (ucast bus) dev_num function s;
            dev = \<lparr>pd_bus = ucast bus, pd_dev_num = dev_num, pd_function = function,
              vectorID = ucast d, deviceID = ucast (drop_bit 16 d), revisionID = ucast d8,
              Ccode = drop_bit 8 d8 AND 0xffffff, header_type = ucast (drop_bit 16 dc), BAR = bars\<rparr> in
        (Some dev, Some (devs @ [dev]), s))"

fun probe_all :: "u8 list \<Rightarrow> u8 \<Rightarrow> u8 \<Rightarrow> pci_device_t list option \<Rightarrow> 'a pci_ports_scheme \<Rightarrow>
    pci_device_t list option \<times> 'a pci_ports_scheme" where
  "probe_all [] bus dev_num list s = (list, s)"
| "probe_all (f # fs) bus dev_num list s =
     (let (_, list, s) = device_probe list bus dev_num f s in probe_all fs bus dev_num list s)"

fun scan_devices :: "u8 list \<Rightarrow> u8 \<Rightarrow> pci_device_t list option \<Rightarrow> 'a pci_ports_scheme \<Rightarrow>
    pci_device_t list option \<times> 'a pci_ports_scheme" where
  "scan_devices [] bus list s = (list, s)"
| "scan_devices (d # ds) bus list s =
     (let (device, list, s) = device_probe list bus d 0 s in
      case device of
        None \<Rightarrow> scan_devices ds bus list s
      | Some dev \<Rightarrow>
          let (list, s) = (if header_type dev AND 0x80 \<noteq> 0 then probe_all [1, 2, 3, 4, 5, 6, 7] bus d list s else (list, s)) in
          scan_devices ds bus list s)"

definition get_all_device :: "PCI_bus_t \<Rightarrow> 'a pci_ports_scheme \<Rightarrow> PCI_bus_t \<times> 'a pci_ports_scheme" where
  "get_all_device bus s =
     (let (l, s) = scan_devices (map word_of_nat [0..<32]) (word_of_int (bus_num bus)) (dev_list bus) s in
      (bus\<lparr>dev_list := l\<rparr>, s))"

definition new_pci_bus :: PCI_bus_t where
  "new_pci_bus = \<lparr>bus_num = - 1, dev_list = None\<rparr>"

text \<open>The finished buses and the one the loop works on.\<close>

fun scan_buses :: "nat list \<Rightarrow> PCI_bus_t list \<Rightarrow> PCI_bus_t \<Rightarrow> 'a pci_ports_scheme \<Rightarrow>
    PCI_bus_t list \<times> PCI_bus_t \<times> 'a pci_ports_scheme" where
  "scan_buses [] fin p s = (fin, p, s)"
| "scan_buses (i # is) fin p s =
     (let (p, s) = get_all_device (p\<lparr>bus_num := int i\<rparr>) s in
      if dev_list p \<noteq> None \<and> i < 255 then scan_buses is (fin @ [p]) new_pci_bus s
      else scan_buses is fin p s)"

text \<open>\<^verbatim>\<open>PCI_info\<close> walks over the device list of every bus to print it.\<close>

definition PCI_info :: "PCI_bus_t list \<Rightarrow> unit res" where
  "PCI_info bus_list = ensure (\<forall>b \<in> set bus_list. dev_list b \<noteq> None) Fault"

definition PCI_init :: "'a pci_ports_scheme \<Rightarrow> (PCI_bus_t list \<times> 'a pci_ports_scheme) res" where
  "PCI_init s =
     (let (fin, p, s) = scan_buses [0..<256] [] new_pci_bus s;
          bus_list = (if dev_list p = None \<and> fin \<noteq> [] then fin else fin @ [p]) in
      rbind (PCI_info bus_list) (\<lambda>_. Inr (bus_list, s)))"

fun get_device_info :: "u32 \<Rightarrow> PCI_bus_t list \<Rightarrow> pci_device_t option res" where
  "get_device_info dev_cc [] = Inr None"
| "get_device_info dev_cc (b # bs) =
     (case dev_list b of
        None \<Rightarrow> Inl Fault
      | Some devs \<Rightarrow>
          (case find (\<lambda>d. Ccode d = dev_cc) devs of
             Some d \<Rightarrow> Inr (Some d)
           | None \<Rightarrow> get_device_info dev_cc bs))"

section \<open>Capabilities and message signalled interrupts\<close>

partial_function (option) cap_loop :: "pci_device_t \<Rightarrow> u8 \<Rightarrow> u8 \<Rightarrow> u32 \<Rightarrow> 'a pci_ports_scheme \<Rightarrow>
    (u8 \<times> 'a pci_ports_scheme) res option" where
  "cap_loop dev cap_id cap_ptr cap_reg s =
     (if ucast cap_reg = cap_id then Some (Inr (cap_ptr, s))
      else
        let cap_ptr = ucast (drop_bit 8 cap_reg) in
        if cap_ptr = PCI_CAP_END_PTR then Some (Inr (PCI_CAP_END_PTR, s))
        else
          let (cap_reg, s) = pci_dev_reg_read dev cap_ptr s in cap_loop dev cap_id cap_ptr cap_reg s)"

definition capability_search :: "pci_device_t \<Rightarrow> u8 \<Rightarrow> 'a pci_ports_scheme \<Rightarrow> (u8 \<times> 'a pci_ports_scheme) res" where
  "capability_search dev cap_id s =
     (let (c, s) = pci_dev_reg_read dev PCI_CONFIG_SPACE_CAP_PTR s; cap_ptr = ucast c in
      if cap_ptr = PCI_CAP_END_PTR then Inr (PCI_CAP_END_PTR, s)
      else let (cap_reg, s) = pci_dev_reg_read dev cap_ptr s in run (cap_loop dev cap_id cap_ptr cap_reg s))"

definition device_MSI_init :: "pci_device_t \<Rightarrow> u8 \<Rightarrow> 'a pci_ports_scheme \<Rightarrow> (int \<times> 'a pci_ports_scheme) res" where
  "device_MSI_init dev vector s =
     (let (cmd, s) = pci_dev_reg_read dev PCI_CONFIG_SPACE_CMD s;
          s = pci_dev_reg_write dev PCI_CONFIG_SPACE_CMD (cmd OR PCI_CS_CMD_BUS_INT_DISABLE) s in
      rbind (capability_search dev PCI_CAP_ID_MSI s) (\<lambda>(cap_p, s).
      if cap_p = PCI_CAP_END_PTR then Inr (EOF, s)
      else
        let (reg, s) = pci_dev_reg_read dev cap_p s in
        rbind (ensure (reg AND 0xff = ucast PCI_CAP_ID_MSI) Assert) (\<lambda>_.
        let reg = reg OR push_bit 16 1;
            s = pci_dev_reg_write dev cap_p reg s;
            msg_addr_p = cap_p + 4;
            wide = bit reg 23;
            msg_data_p = cap_p + (if wide then 0xc else 0x8);
            mask_bit_map = cap_p + 0xc + (if wide then 4 else 0);
            s = (if wide then pci_dev_reg_write dev 0x8 0 s else s);
            s = (if drop_bit 24 reg AND 1 \<noteq> 0 then pci_dev_reg_write dev mask_bit_map 0 s else s);
            (msg_data, s) = pci_dev_reg_read dev msg_data_p s;
            s = pci_dev_reg_write dev msg_data_p (ucast vector) s;
            s = pci_dev_reg_write dev msg_addr_p 0xfee00000 s in
        Inr (0, s))))"

end
