(* ===== verification/Pci_Theorems.thy ===== *)
theory Pci_Theorems
  imports Pci
begin

text \<open>
  The scan of the PCI buses as a pure function of the configuration space, which it leaves as it
  was, the search of the capability list, and the message address of a 64-bit device.
\<close>

section \<open>Configuration addresses\<close>

lemma bit_fields:
  "bit ((w :: u8) AND 0xFC) n \<longleftrightarrow> bit w n \<and> 2 \<le> n"
  "bit ((w :: u8) AND 3) n \<longleftrightarrow> bit w n \<and> n < 2"
  "bit ((v :: u32) AND NOT 3) n \<longleftrightarrow> bit v n \<and> 2 \<le> n"
proof -
  have "(0xFC :: u8) = NOT (mask 2)" "(3 :: u8) = mask 2" "(3 :: u32) = mask 2" by (simp_all add: mask_eq_exp_minus_1)
  then show "bit (w AND 0xFC) n \<longleftrightarrow> bit w n \<and> 2 \<le> n" "bit (w AND 3) n \<longleftrightarrow> bit w n \<and> n < 2"
      "bit (v AND NOT 3) n \<longleftrightarrow> bit v n \<and> 2 \<le> n"
    by (auto simp only: bit_and_iff bit_not_iff bit_mask_iff not_less simp flip: not_less dest: bit_imp_possible_bit)
qed

text \<open>The register a function sees, and its writable bits.\<close>

definition conf_reg :: "u32 \<Rightarrow> u8 \<Rightarrow> u8 \<Rightarrow> u8 \<Rightarrow> u32" where
  "conf_reg bus d f r = reg_of (GET_TRANSCATION bus d f r (if bus > 0 then 1 else 0))"

definition creg :: "'a pci_ports_scheme \<Rightarrow> u32 \<Rightarrow> u8 \<Rightarrow> u8 \<Rightarrow> u8 \<Rightarrow> u32" where
  "creg s bus d f r = cfg s (conf_reg bus d f r)"

definition same_cfg :: "'a pci_ports_scheme \<Rightarrow> 'a pci_ports_scheme \<Rightarrow> bool" where
  "same_cfg s s' \<longleftrightarrow> cfg s' = cfg s \<and> cfg_writable s' = cfg_writable s"

lemma same_cfg_refl [simp]: "same_cfg s s" and same_cfg_trans: "same_cfg s s1 \<Longrightarrow> same_cfg s1 s2 \<Longrightarrow> same_cfg s s2"
  by (simp_all add: same_cfg_def)

lemma conf_reg_bit: "2 \<le> n \<Longrightarrow> n < 8 \<Longrightarrow> bit (conf_reg bus d f r) n = bit r n"
proof -
  assume n: "2 \<le> n" "n < 8"
  then have "\<not> bit (0x80000000 :: u32) n" by (auto simp: numeral_eq_Suc less_Suc_eq bit_Suc)
  then show ?thesis unfolding conf_reg_def reg_of_def GET_TRANSCATION_def bit_fields(3)
    using n by (simp add: bit_or_iff bit_push_bit_iff bit_unsigned_iff bit_fields(1,2))
qed

lemma conf_reg_inj: "conf_reg bus d f r = conf_reg bus d f r' \<Longrightarrow> drop_bit 2 r = drop_bit 2 r'"
proof (rule bit_word_eqI)
  fix n assume "conf_reg bus d f r = conf_reg bus d f r'" "n < LENGTH(8)"
  then show "bit (drop_bit 2 r) n = bit (drop_bit 2 r') n"
    using conf_reg_bit [of "n + 2" bus d f r] conf_reg_bit [of "n + 2" bus d f r']
    by (cases "n + 2 < 8") (auto simp: bit_drop_bit_eq dest: bit_imp_le_length)
qed

section \<open>What the configuration space describes\<close>

definition bar_of :: "'a pci_ports_scheme \<Rightarrow> u32 \<Rightarrow> u8 \<Rightarrow> u8 \<Rightarrow> u8 \<Rightarrow> bar_entry" where
  "bar_of s bus d f i = (let r = 0x10 + i * 4; base = creg s bus d f r in
     decode_bar base (base OR cfg_writable s (conf_reg bus d f r)))"

definition existing :: "'a pci_ports_scheme \<Rightarrow> u32 \<Rightarrow> u8 \<Rightarrow> u8 \<Rightarrow> bool" where
  "existing s bus d f \<longleftrightarrow> (ucast (creg s bus d f 0) :: u16) \<noteq> 0xffff"

definition describe :: "'a pci_ports_scheme \<Rightarrow> u32 \<Rightarrow> u8 \<Rightarrow> u8 \<Rightarrow> pci_device_t" where
  "describe s bus d f = \<lparr>pd_bus = bus, pd_dev_num = d, pd_function = f,
     vectorID = ucast (creg s bus d f 0), deviceID = ucast (drop_bit 16 (creg s bus d f 0)),
     revisionID = ucast (creg s bus d f 8), Ccode = drop_bit 8 (creg s bus d f 8) AND 0xffffff,
     header_type = ucast (drop_bit 16 (creg s bus d f 0xc)), BAR = map (bar_of s bus d f) [0, 1, 2, 3, 4, 5]\<rparr>"

text \<open>The functions of a device: the others are looked at only when function 0 says there are more.\<close>

definition functions_of :: "'a pci_ports_scheme \<Rightarrow> u32 \<Rightarrow> u8 \<Rightarrow> u8 list" where
  "functions_of s bus d =
     (if existing s bus d 0 then
        0 # (if header_type (describe s bus d 0) AND 0x80 \<noteq> 0 then filter (existing s bus d) [1, 2, 3, 4, 5, 6, 7] else [])
      else [])"

definition devices_in :: "'a pci_ports_scheme \<Rightarrow> u32 \<Rightarrow> u8 list \<Rightarrow> pci_device_t list" where
  "devices_in s bus ds = concat (map (\<lambda>d. map (describe s bus d) (functions_of s bus d)) ds)"

definition bus_devices :: "'a pci_ports_scheme \<Rightarrow> nat \<Rightarrow> pci_device_t list" where
  "bus_devices s i = devices_in s (word_of_nat i) (map word_of_nat [0..<32])"

definition buses_from :: "'a pci_ports_scheme \<Rightarrow> nat \<Rightarrow> PCI_bus_t list" where
  "buses_from s k = map (\<lambda>i. \<lparr>bus_num = int i, dev_list = Some (bus_devices s i)\<rparr>) (filter (\<lambda>i. bus_devices s i \<noteq> []) [k..<256])"

lemma same_cfg_views:
  "same_cfg s s' \<Longrightarrow> creg s' = creg s \<and> bar_of s' = bar_of s \<and> existing s' = existing s \<and> describe s' = describe s \<and>
     functions_of s' = functions_of s \<and> devices_in s' = devices_in s \<and> bus_devices s' = bus_devices s \<and> buses_from s' = buses_from s"
proof -
  assume c: "same_cfg s s'"
  then have 1: "creg s' = creg s" "bar_of s' = bar_of s"
    by (simp_all add: fun_eq_iff same_cfg_def creg_def bar_of_def)
  then have 2: "existing s' = existing s" "describe s' = describe s" by (simp_all add: fun_eq_iff existing_def describe_def)
  then have 3: "functions_of s' = functions_of s" by (intro ext) (simp only: functions_of_def)
  from 2 3 have 4: "devices_in s' = devices_in s" by (intro ext) (simp only: devices_in_def)
  then have 5: "bus_devices s' = bus_devices s" by (simp add: fun_eq_iff bus_devices_def)
  then have "buses_from s' = buses_from s" by (simp add: fun_eq_iff buses_from_def)
  with 1 2 3 4 5 show ?thesis by simp
qed

section \<open>The scan\<close>

lemma read_register_eq: "\<exists>s'. read_register bus d f r s = (creg s bus d f r, s') \<and> same_cfg s s'"
  by (simp add: read_register_def creg_def conf_reg_def outd_address_def ind_data_def same_cfg_def)

lemma get_bar_eq: "\<exists>s'. get_bar_and_size bus d f i s = (bar_of s bus d f i, s') \<and> same_cfg s s'"
proof -
  have 1: "b AND NOT w OR 0xffffffff AND w = b OR w" for b w :: u32
  proof -
    have "(0xffffffff :: u32) = - 1" by simp
    then show ?thesis by (simp only:) (auto intro!: bit_word_eqI simp: bit_simps)
  qed
  have 2: "(b OR w) AND NOT w OR b AND w = b" for b w :: u32
    by (auto intro!: bit_word_eqI simp: bit_simps)
  show ?thesis
    by (simp add: get_bar_and_size_def outd_address_def ind_data_def outd_data_def Let_def bar_of_def creg_def conf_reg_def
        1 2 same_cfg_def fun_upd_idem_iff)
qed

lemma read_bars_eq: "\<exists>s'. read_bars is bus d f s = (map (bar_of s bus d f) is, s') \<and> same_cfg s s'"
proof (induction "is" arbitrary: s)
  case (Cons i "is")
  obtain s1 where s1: "get_bar_and_size bus d f i s = (bar_of s bus d f i, s1)" "same_cfg s s1" using get_bar_eq by blast
  obtain s2 where s2: "read_bars is bus d f s1 = (map (bar_of s1 bus d f) is, s2)" "same_cfg s1 s2" using Cons.IH by blast
  show ?case using s1 s2 same_cfg_trans [OF s1(2) s2(2)] same_cfg_views [OF s1(2)] by simp
qed simp

definition add_devs :: "pci_device_t list option \<Rightarrow> pci_device_t list \<Rightarrow> pci_device_t list option" where
  "add_devs l ds = (if ds = [] then l else Some ((case l of None \<Rightarrow> [] | Some xs \<Rightarrow> xs) @ ds))"

lemma add_devs_simps: "add_devs l [] = l" "add_devs (add_devs l xs) ys = add_devs l (xs @ ys)"
  by (auto simp: add_devs_def split: option.splits)

lemma device_probe_eq:
  "\<exists>s'. device_probe l bus d f s =
     (if existing s (ucast bus) d f then (Some (describe s (ucast bus) d f), add_devs l [describe s (ucast bus) d f], s')
      else (None, l, s')) \<and> same_cfg s s'"
proof -
  let ?b = "ucast bus :: u32"
  obtain s1 where s1: "read_register ?b d f 0 s = (creg s ?b d f 0, s1)" "same_cfg s s1" using read_register_eq by blast
  obtain s2 where s2: "read_register ?b d f 8 s1 = (creg s1 ?b d f 8, s2)" "same_cfg s1 s2" using read_register_eq by blast
  obtain s3 where s3: "read_register ?b d f 0xc s2 = (creg s2 ?b d f 0xc, s3)" "same_cfg s2 s3" using read_register_eq by blast
  obtain s4 where s4: "read_bars [0, 1, 2, 3, 4, 5] ?b d f s3 = (map (bar_of s3 ?b d f) [0, 1, 2, 3, 4, 5], s4)" "same_cfg s3 s4"
    using read_bars_eq by blast
  have c: "same_cfg s s2" "same_cfg s s3" "same_cfg s s4"
    using s1(2) s2(2) s3(2) s4(2) same_cfg_trans by blast+
  note v = same_cfg_views [OF s1(2)] same_cfg_views [OF c(1)] same_cfg_views [OF c(2)]
  show ?thesis
  proof (cases "existing s ?b d f")
    case True
    then have "DEVICE_EXIST (ucast (creg s ?b d f 0))" by (simp add: existing_def DEVICE_EXIST_def)
    then show ?thesis using True s1(1) s2(1) s3(1) s4(1) v c(3)
      by (simp add: device_probe_def describe_def add_devs_def Let_def)
  next
    case False
    then have "\<not> DEVICE_EXIST (ucast (creg s ?b d f 0))" by (simp add: existing_def DEVICE_EXIST_def)
    then show ?thesis using False s1 by (simp add: device_probe_def)
  qed
qed

lemma probe_all_eq:
  "\<exists>s'. probe_all fs bus d l s = (add_devs l (map (describe s (ucast bus) d) (filter (existing s (ucast bus) d) fs)), s') \<and> same_cfg s s'"
proof (induction fs arbitrary: l s)
  case (Cons f fs)
  obtain s1 where s1: "device_probe l bus d f s =
     (if existing s (ucast bus) d f then (Some (describe s (ucast bus) d f), add_devs l [describe s (ucast bus) d f], s1)
      else (None, l, s1))" "same_cfg s s1" using device_probe_eq by blast
  let ?l = "if existing s (ucast bus) d f then add_devs l [describe s (ucast bus) d f] else l"
  obtain s2 where s2: "probe_all fs bus d ?l s1 =
      (add_devs ?l (map (describe s1 (ucast bus) d) (filter (existing s1 (ucast bus) d) fs)), s2)" "same_cfg s1 s2"
    using Cons.IH by blast
  show ?case using s1 s2 same_cfg_trans [OF s1(2) s2(2)] same_cfg_views [OF s1(2)] by (auto simp: add_devs_simps)
qed (simp add: add_devs_simps)

lemma scan_devices_eq:
  "\<exists>s'. scan_devices ds bus l s = (add_devs l (devices_in s (ucast bus) ds), s') \<and> same_cfg s s'"
proof (induction ds arbitrary: l s)
  case (Cons d ds)
  let ?b = "ucast bus :: u32"
  obtain s1 where s1: "device_probe l bus d 0 s =
     (if existing s ?b d 0 then (Some (describe s ?b d 0), add_devs l [describe s ?b d 0], s1) else (None, l, s1))" "same_cfg s s1"
    using device_probe_eq by blast
  let ?l = "if existing s ?b d 0 then add_devs l [describe s ?b d 0] else l"
  obtain s2 where s2: "probe_all [1, 2, 3, 4, 5, 6, 7] bus d ?l s1 =
      (add_devs ?l (map (describe s1 ?b d) (filter (existing s1 ?b d) [1, 2, 3, 4, 5, 6, 7])), s2)" "same_cfg s1 s2"
    using probe_all_eq by blast
  let ?multi = "existing s ?b d 0 \<and> header_type (describe s ?b d 0) AND 0x80 \<noteq> 0"
  let ?s3 = "if ?multi then s2 else s1"
  have c: "same_cfg s ?s3" using s1(2) s2(2) same_cfg_trans by auto
  let ?l3 = "add_devs l (map (describe s ?b d) (functions_of s ?b d))"
  obtain s4 where s4: "scan_devices ds bus ?l3 ?s3 = (add_devs ?l3 (devices_in ?s3 ?b ds), s4)" "same_cfg ?s3 s4"
    using Cons.IH by blast
  have "scan_devices (d # ds) bus l s = scan_devices ds bus ?l3 ?s3"
  proof (cases "existing s ?b d 0")
    case True
    have "probe_all [1, 2, 3, 4, 5, 6, 7] bus d (add_devs l [describe s ?b d 0]) s1 =
        (add_devs l (describe s ?b d 0 # map (describe s ?b d) (filter (existing s ?b d) [1, 2, 3, 4, 5, 6, 7])), s2)"
      using s2(1) True same_cfg_views [OF s1(2)] by (simp add: add_devs_simps del: filter.simps probe_all.simps)
    with True s1(1) show ?thesis by (simp add: functions_of_def del: filter.simps probe_all.simps)
  next
    case False
    with s1(1) show ?thesis by (simp add: functions_of_def add_devs_simps)
  qed
  moreover have "devices_in s ?b (d # ds) = map (describe s ?b d) (functions_of s ?b d) @ devices_in s ?b ds"
    by (simp add: devices_in_def)
  ultimately show ?case using s4 same_cfg_views [OF c] same_cfg_trans [OF c s4(2)] by (simp add: add_devs_simps)
qed (simp add: devices_in_def add_devs_simps)

lemma get_all_device_eq:
  assumes "dev_list p = None" "bus_num p = int i" "i < 256"
  shows "\<exists>s'. get_all_device p s =
    (\<lparr>bus_num = int i, dev_list = if bus_devices s i = [] then None else Some (bus_devices s i)\<rparr>, s') \<and> same_cfg s s'"
proof -
  obtain s' where "scan_devices (map word_of_nat [0..<32]) (word_of_nat i) None s =
      (add_devs None (devices_in s (ucast (word_of_nat i :: u8)) (map word_of_nat [0..<32])), s')" "same_cfg s s'"
    using scan_devices_eq by blast
  moreover have "ucast (word_of_nat i :: u8) = (word_of_nat i :: u32)"
    using assms(3) by (simp add: word_unat_eq_iff unsigned_ucast_eq unsigned_of_nat take_bit_nat_eq_self)
  ultimately show ?thesis using assms(1,2)
    by (cases p) (simp add: get_all_device_def bus_devices_def add_devs_def)
qed

lemma buses_from_Cons: "i < 256 \<Longrightarrow> buses_from s i =
    (if bus_devices s i = [] then [] else [\<lparr>bus_num = int i, dev_list = Some (bus_devices s i)\<rparr>]) @ buses_from s (Suc i)"
  by (simp add: buses_from_def upt_conv_Cons del: upt_Suc)

lemma scan_buses_eq:
  assumes "k \<le> 256" "dev_list p = None"
  shows "\<exists>fin' p' s'. scan_buses [k..<256] fin p s = (fin', p', s') \<and> same_cfg s s' \<and>
    fin' @ (if dev_list p' = None then [] else [p']) = fin @ buses_from s k"
  using assms
proof (induction arbitrary: fin p s rule: inc_induct)
  case base
  then show ?case by (simp add: buses_from_def)
next
  case (step i)
  from step.hyps have i: "i < 256" by simp
  let ?p = "\<lparr>bus_num = int i, dev_list = if bus_devices s i = [] then None else Some (bus_devices s i)\<rparr> :: PCI_bus_t"
  obtain s1 where s1: "get_all_device (p\<lparr>bus_num := int i\<rparr>) s = (?p, s1)" "same_cfg s s1"
    using get_all_device_eq [of "p\<lparr>bus_num := int i\<rparr>" i s] i step.prems by auto
  have st: "scan_buses [i..<256] fin p s = (if bus_devices s i \<noteq> [] \<and> i < 255 then scan_buses [Suc i..<256] (fin @ [?p]) new_pci_bus s1
      else scan_buses [Suc i..<256] fin ?p s1)"
    using i s1(1) by (simp add: upt_conv_Cons del: upt_Suc)
  note v = same_cfg_views [OF s1(2)]
  show ?case
  proof (cases "bus_devices s i \<noteq> [] \<and> i = 255")
    case True
    then have i255: "i = 255" and ne: "bus_devices s 255 \<noteq> []" by auto
    have "buses_from s 256 = []" by (simp add: buses_from_def)
    with ne have "buses_from s i = [?p]" by (simp add: i255 buses_from_Cons [of 255])
    moreover have "scan_buses [i..<256] fin p s = (fin, ?p, s1)" using st by (simp add: i255)
    ultimately show ?thesis using s1(2) ne by (simp add: i255)
  next
    case False
    let ?d = "if bus_devices s i = [] then fin else fin @ [?p]"
    let ?q = "if bus_devices s i = [] then ?p else new_pci_bus"
    have "dev_list ?q = None" by (simp add: new_pci_bus_def)
    from step.IH [OF this, of ?d s1] obtain fin' p' s' where
      s': "scan_buses [Suc i..<256] ?d ?q s1 = (fin', p', s')" "same_cfg s1 s'"
        "fin' @ (if dev_list p' = None then [] else [p']) = ?d @ buses_from s1 (Suc i)" by auto
    have "scan_buses [i..<256] fin p s = (fin', p', s')" using False i s'(1) st by (auto split: if_splits)
    moreover have "?d @ buses_from s1 (Suc i) = fin @ buses_from s i" using v by (simp add: buses_from_Cons [OF i])
    ultimately show ?thesis using s'(2,3) same_cfg_trans [OF s1(2)] by auto
  qed
qed

lemma PCI_init_eq:
  "\<exists>s'. PCI_init s = (if buses_from s 0 = [] then Inl Fault else Inr (buses_from s 0, s')) \<and> same_cfg s s'"
proof -
  obtain fin p s' where h: "scan_buses [0..<256] [] new_pci_bus s = (fin, p, s')" "same_cfg s s'"
      "fin @ (if dev_list p = None then [] else [p]) = buses_from s 0"
    using scan_buses_eq [of 0 new_pci_bus "[]" s] by (auto simp: new_pci_bus_def)
  have ok: "\<forall>b \<in> set (buses_from s 0). dev_list b \<noteq> None" by (auto simp: buses_from_def)
  show ?thesis
  proof (cases "buses_from s 0 = []")
    case True
    with h(3) have "fin = []" "dev_list p = None" by (auto split: if_splits)
    with True h(1,2) show ?thesis by (auto simp: PCI_init_def PCI_info_def)
  next
    case False
    with h(3) have "(if dev_list p = None \<and> fin \<noteq> [] then fin else fin @ [p]) = buses_from s 0"
      by (auto split: if_splits)
    with False h(1,2) ok show ?thesis by (auto simp: PCI_init_def PCI_info_def)
  qed
qed

section \<open>Capabilities\<close>

text \<open>The capability list of a device: the pointers from \<open>p\<close> to the end.\<close>

primrec cap_chain :: "'a pci_ports_scheme \<Rightarrow> pci_device_t \<Rightarrow> u8 \<Rightarrow> u8 list \<Rightarrow> bool" where
  "cap_chain s dev p [] \<longleftrightarrow> p = 0"
| "cap_chain s dev p (q # qs) \<longleftrightarrow> p = q \<and> q \<noteq> 0 \<and>
     cap_chain s dev (ucast (drop_bit 8 (creg s (pd_bus dev) (pd_dev_num dev) (pd_function dev) q))) qs"

definition cap_id_at :: "'a pci_ports_scheme \<Rightarrow> pci_device_t \<Rightarrow> u8 \<Rightarrow> u8" where
  "cap_id_at s dev p = ucast (creg s (pd_bus dev) (pd_dev_num dev) (pd_function dev) p)"

lemma cap_chain_agree:
  "\<forall>q \<in> set ps. creg t (pd_bus dev) (pd_dev_num dev) (pd_function dev) q = creg s (pd_bus dev) (pd_dev_num dev) (pd_function dev) q \<Longrightarrow>
    cap_chain t dev p ps = cap_chain s dev p ps"
  by (induction ps arbitrary: p) auto

lemma cap_chain_cfg: "same_cfg s s' \<Longrightarrow> cap_chain s' dev p ps = cap_chain s dev p ps"
  by (induction ps arbitrary: p) (auto simp: same_cfg_views)

lemma cap_id_cfg: "same_cfg s s' \<Longrightarrow> cap_id_at s' dev = cap_id_at s dev"
  by (simp add: fun_eq_iff cap_id_at_def same_cfg_views)

lemma cap_loop_eq:
  "cap_chain s dev p (p # ps) \<Longrightarrow> \<exists>s'. cap_loop dev cid p (creg s (pd_bus dev) (pd_dev_num dev) (pd_function dev) p) s =
     Some (Inr (case find (\<lambda>q. cap_id_at s dev q = cid) (p # ps) of None \<Rightarrow> 0 | Some q \<Rightarrow> q, s')) \<and> same_cfg s s'"
proof (induction ps arbitrary: p s)
  case Nil
  then show ?case by (subst cap_loop.simps) (auto simp: cap_id_at_def PCI_CAP_END_PTR_def)
next
  case (Cons q qs)
  let ?r = "\<lambda>s p. creg s (pd_bus dev) (pd_dev_num dev) (pd_function dev) p"
  obtain s1 where s1: "read_register (pd_bus dev) (pd_dev_num dev) (pd_function dev) q s = (?r s q, s1)" "same_cfg s s1"
    using read_register_eq by blast
  from Cons.prems have q: "ucast (drop_bit 8 (?r s p)) = q" "q \<noteq> 0" "cap_chain s1 dev q (q # qs)"
    by (auto simp: cap_chain_cfg [OF s1(2)] same_cfg_views [OF s1(2)])
  have "?r s1 q = ?r s q" using same_cfg_views [OF s1(2)] by simp
  with Cons.IH [OF q(3)] cap_id_cfg [OF s1(2)] obtain s' where
    s': "cap_loop dev cid q (?r s q) s1 = Some (Inr (case find (\<lambda>q. cap_id_at s dev q = cid) (q # qs) of None \<Rightarrow> 0 | Some q \<Rightarrow> q, s'))"
      "same_cfg s1 s'" by auto
  have "cap_loop dev cid p (?r s p) s = (if cap_id_at s dev p = cid then Some (Inr (p, s)) else cap_loop dev cid q (?r s q) s1)"
    using q(1,2) s1(1) by (subst cap_loop.simps) (simp add: cap_id_at_def PCI_CAP_END_PTR_def pci_dev_reg_read_def)
  then show ?case using s' same_cfg_trans [OF s1(2) s'(2)] by auto
qed

text \<open>A set of pointers the list never leaves and that holds no capability of the kind sought.\<close>

lemma cap_loop_hangs:
  assumes S: "0 \<notin> S" "\<And>q. q \<in> S \<Longrightarrow> cap_id_at s dev q \<noteq> cid \<and>
    ucast (drop_bit 8 (creg s (pd_bus dev) (pd_dev_num dev) (pd_function dev) q)) \<in> S"
  shows "cap_loop d c p r t = Some v \<Longrightarrow>
    \<not> (d = dev \<and> c = cid \<and> same_cfg s t \<and> p \<in> S \<and> r = creg s (pd_bus dev) (pd_dev_num dev) (pd_function dev) p)"
proof (erule cap_loop.raw_induct [rotated], rule notI, elim conjE)
  fix cl d c p r and t :: "'a pci_ports_scheme" and v
  assume IH: "\<And>d c p r t v. cl d c p r t = Some v \<Longrightarrow>
      \<not> (d = dev \<and> c = cid \<and> same_cfg s t \<and> p \<in> S \<and> r = creg s (pd_bus dev) (pd_dev_num dev) (pd_function dev) p)"
    and body: "(if ucast r = c then Some (Inr (p, t))
      else let cap_ptr = ucast (drop_bit 8 r)
        in if cap_ptr = PCI_CAP_END_PTR then Some (Inr (PCI_CAP_END_PTR, t))
          else let (cap_reg, t) = pci_dev_reg_read d cap_ptr t in cl d c cap_ptr cap_reg t) = Some v"
    and h: "d = dev" "c = cid" "same_cfg s t" "p \<in> S" "r = creg s (pd_bus dev) (pd_dev_num dev) (pd_function dev) p"
  let ?q = "ucast (drop_bit 8 r) :: u8"
  obtain t1 where t1: "read_register (pd_bus dev) (pd_dev_num dev) (pd_function dev) ?q t =
      (creg t (pd_bus dev) (pd_dev_num dev) (pd_function dev) ?q, t1)" "same_cfg t t1" using read_register_eq by blast
  have q: "?q \<in> S" "ucast r \<noteq> cid" using S(2) [OF h(4)] h(5) by (auto simp: cap_id_at_def)
  then have "?q \<noteq> 0" using S(1) by metis
  note q = q this
  have "cl dev cid ?q (creg s (pd_bus dev) (pd_dev_num dev) (pd_function dev) ?q) t1 = Some v"
    using body h(1,2) q(2,3) t1(1) same_cfg_views [OF h(3)] by (simp add: PCI_CAP_END_PTR_def pci_dev_reg_read_def Let_def)
  with IH q(1) same_cfg_trans [OF h(3) t1(2)] show False by blast
qed

lemma capability_search_eq:
  assumes "cap_chain s dev (ucast (creg s (pd_bus dev) (pd_dev_num dev) (pd_function dev) 0x34)) ps"
  shows "\<exists>s'. capability_search dev cid s = Inr (case find (\<lambda>q. cap_id_at s dev q = cid) ps of None \<Rightarrow> 0 | Some q \<Rightarrow> q, s') \<and> same_cfg s s'"
proof -
  let ?r = "\<lambda>s. creg s (pd_bus dev) (pd_dev_num dev) (pd_function dev)"
  obtain s1 where s1: "read_register (pd_bus dev) (pd_dev_num dev) (pd_function dev) 0x34 s = (?r s 0x34, s1)" "same_cfg s s1"
    using read_register_eq by blast
  show ?thesis
  proof (cases ps)
    case Nil
    with assms s1 show ?thesis by (simp add: capability_search_def pci_dev_reg_read_def PCI_CONFIG_SPACE_CAP_PTR_def PCI_CAP_END_PTR_def)
  next
    case (Cons q qs)
    obtain s2 where s2: "read_register (pd_bus dev) (pd_dev_num dev) (pd_function dev) q s1 = (?r s1 q, s2)" "same_cfg s1 s2"
      using read_register_eq by blast
    note c = same_cfg_trans [OF s1(2) s2(2)]
    have q: "ucast (?r s 0x34) = q" "q \<noteq> 0" "cap_chain s2 dev q (q # qs)" using assms Cons unfolding cap_chain_cfg [OF c] by auto
    from cap_loop_eq [OF q(3), of cid] obtain s3 where
      s3: "cap_loop dev cid q (?r s2 q) s2 = Some (Inr (case find (\<lambda>q. cap_id_at s2 dev q = cid) (q # qs) of None \<Rightarrow> 0 | Some q \<Rightarrow> q, s3))"
        "same_cfg s2 s3" by blast
    have e: "?r s1 q = ?r s2 q" using same_cfg_views [OF s2(2)] by simp
    have "capability_search dev cid s = run (cap_loop dev cid q (?r s2 q) s2)"
      using q(1,2) s1(1) s2(1) e by (simp add: capability_search_def pci_dev_reg_read_def PCI_CONFIG_SPACE_CAP_PTR_def PCI_CAP_END_PTR_def Let_def)
    then show ?thesis using s3 same_cfg_trans [OF c s3(2)] Cons cap_id_cfg [OF c] by simp
  qed
qed

section \<open>Writes\<close>

lemma creg_write:
  "drop_bit 2 r \<noteq> drop_bit 2 x \<Longrightarrow> creg (pci_dev_reg_write dev r v s) (pd_bus dev) (pd_dev_num dev) (pd_function dev) x =
     creg s (pd_bus dev) (pd_dev_num dev) (pd_function dev) x"
  using conf_reg_inj [of "pd_bus dev" "pd_dev_num dev" "pd_function dev" x r]
  by (auto simp: pci_dev_reg_write_def write_register_def outd_data_def outd_address_def creg_def Let_def
      simp flip: conf_reg_def [of "pd_bus dev" "pd_dev_num dev" "pd_function dev" r])

lemma unat_drop_2: "unat (drop_bit 2 x) = unat x div 4" for x :: u8
  by (simp add: drop_bit_eq_div unat_div)

lemma drop_2_neq: "unat x div 4 \<noteq> unat y div 4 \<Longrightarrow> drop_bit 2 x \<noteq> (drop_bit 2 y :: u8)"
  by (metis unat_drop_2)

lemma drop_2_add: "unat c + 16 < 256 \<Longrightarrow> unat c mod 4 = 0 \<Longrightarrow> k \<in> {4, 8, 12, 16} \<Longrightarrow>
    unat (drop_bit 2 (c + word_of_nat k :: u8)) = unat c div 4 + k div 4"
proof -
  assume h: "unat c + 16 < 256" "unat c mod 4 = 0" "k \<in> {4, 8, 12, 16}"
  have "unat (c + word_of_nat k) = unat c + k"
  proof -
    have "unat (word_of_nat k :: u8) = k" using h(3) by (auto simp: unat_of_nat)
    moreover have "unat c + k < 256" using h by auto
    ultimately show ?thesis by (simp add: unat_word_ariths)
  qed
  then show ?thesis using h(2,3) by (auto simp: unat_drop_2)
qed

definition dev_reg :: "'a pci_ports_scheme \<Rightarrow> pci_device_t \<Rightarrow> u8 \<Rightarrow> u32" where
  "dev_reg s dev = creg s (pd_bus dev) (pd_dev_num dev) (pd_function dev)"

lemma capability_search_hangs:
  assumes S: "ucast (dev_reg s dev 0x34) \<in> S" "0 \<notin> S"
    "\<forall>q \<in> S. cap_id_at s dev q \<noteq> cid \<and> ucast (drop_bit 8 (dev_reg s dev q)) \<in> S"
  shows "capability_search dev cid s = Inl Hang"
proof -
  let ?r = "dev_reg s dev"
  let ?p = "ucast (?r 0x34) :: u8"
  have p: "?p \<noteq> 0" using S(1,2) by metis
  obtain s1 where s1: "read_register (pd_bus dev) (pd_dev_num dev) (pd_function dev) 0x34 s = (?r 0x34, s1)" "same_cfg s s1"
    using read_register_eq unfolding dev_reg_def by blast
  obtain s2 where s2: "read_register (pd_bus dev) (pd_dev_num dev) (pd_function dev) ?p s1 = (?r ?p, s2)" "same_cfg s1 s2"
    using read_register_eq [of "pd_bus dev" "pd_dev_num dev" "pd_function dev" ?p s1] same_cfg_views [OF s1(2)] by (auto simp: dev_reg_def)
  have "cap_loop dev cid ?p (?r ?p) s2 = None"
    using cap_loop_hangs [of S s dev cid dev cid ?p "?r ?p" s2] S same_cfg_trans [OF s1(2) s2(2)]
    by (cases "cap_loop dev cid ?p (?r ?p) s2") (auto simp: dev_reg_def)
  then show "capability_search dev cid s = Inl Hang"
    using p s1(1) s2(1) by (simp add: capability_search_def pci_dev_reg_read_def PCI_CONFIG_SPACE_CAP_PTR_def PCI_CAP_END_PTR_def Let_def)
qed

section \<open>Properties\<close>

text \<open>
  C16: \<^verbatim>\<open>PCI_init\<close> returns one entry per bus that has a device, in order, with the devices the
  configuration space describes: function 0 of every device slot that answers, and its other
  functions when it says it has several. The configuration space is left as it was, although the
  sizes are found by writing to it. Without any device the listing that follows dereferences the
  null device list.
\<close>

theorem pci_init_enumerates:
  "\<exists>s'. PCI_init s = (if buses_from s 0 = [] then Inl Fault else Inr (buses_from s 0, s')) \<and>
     cfg s' = cfg s \<and> cfg_writable s' = cfg_writable s"
  using PCI_init_eq [of s] by (simp add: same_cfg_def)

text \<open>
  When the capability list of the device ends, \<^verbatim>\<open>capability_search\<close> returns the first
  capability with the identifier, or the end pointer; when the list runs in a circle without one,
  it never returns.
\<close>

theorem capability_search_finds:
  "(cap_chain s dev (ucast (dev_reg s dev 0x34)) ps \<longrightarrow>
      (\<exists>s'. capability_search dev cid s = Inr (case find (\<lambda>q. cap_id_at s dev q = cid) ps of None \<Rightarrow> 0 | Some q \<Rightarrow> q, s'))) \<and>
   (ucast (dev_reg s dev 0x34) \<in> S \<longrightarrow> 0 \<notin> S \<longrightarrow>
      (\<forall>q \<in> S. cap_id_at s dev q \<noteq> cid \<and> ucast (drop_bit 8 (dev_reg s dev q)) \<in> S) \<longrightarrow>
      capability_search dev cid s = Inl Hang)"
  using capability_search_eq [of s dev ps cid] capability_search_hangs [of s dev S cid] by (auto simp: dev_reg_def)

text \<open>
  For a device with 64-bit message addresses the set-up of the interrupt succeeds without
  ever writing the upper half of the message address, at offset 8 of the capability: the zero
  meant for it goes to register 8 of the device.
\<close>

theorem msi_upper_address_kept:
  fixes s :: "'a pci_ports_scheme"
  assumes ps: "cap_chain s dev (ucast (dev_reg s dev 0x34)) ps" "\<forall>q \<in> set ps. 0x40 \<le> unat q"
    and c: "find (\<lambda>q. cap_id_at s dev q = PCI_CAP_ID_MSI) ps = Some c" "unat c + 16 < 256" "unat c mod 4 = 0" "bit (dev_reg s dev c) 23"
  shows "\<exists>s'. device_MSI_init dev vector s = Inr (0, s') \<and> dev_reg s' dev (c + 8) = dev_reg s dev (c + 8)"
proof -
  define r :: "'a pci_ports_scheme \<Rightarrow> u8 \<Rightarrow> u32" where "r s = creg s (pd_bus dev) (pd_dev_num dev) (pd_function dev)" for s
  have rr: "dev_reg s dev = r s" for s :: "'a pci_ports_scheme" by (simp add: dev_reg_def r_def)
  note ps = ps [unfolded rr] and c = c [unfolded rr]
  have cp: "c \<in> set ps" "cap_id_at s dev c = PCI_CAP_ID_MSI"
    using c(1) by (auto simp: find_Some_iff)
  then have c40: "0x40 \<le> unat c" using ps(2) by simp
  note d = unat_drop_2
  obtain s1 where s1: "read_register (pd_bus dev) (pd_dev_num dev) (pd_function dev) 4 s = (r s 4, s1)" "same_cfg s s1"
    using read_register_eq unfolding r_def by blast
  define s2 where "s2 = pci_dev_reg_write dev 4 (r s 4 OR PCI_CS_CMD_BUS_INT_DISABLE) s1"
  have keep: "r s2 q = r s q" if "0x34 \<le> unat q" for q
  proof -
    have n: "drop_bit 2 4 \<noteq> drop_bit 2 q" using that by (intro drop_2_neq) auto
    have "r s2 q = r s1 q" unfolding r_def s2_def by (rule creg_write [OF n])
    then show ?thesis using same_cfg_views [OF s1(2)] by (simp add: r_def)
  qed
  have keep': "\<forall>q \<in> set ps. r s2 q = r s q" using keep ps(2) by fastforce
  have id: "cap_id_at s2 dev q = cap_id_at s dev q" if "q \<in> set ps" for q
    using keep' that by (simp add: cap_id_at_def r_def)
  have "find (\<lambda>q. cap_id_at s2 dev q = PCI_CAP_ID_MSI) ps = Some c"
    using c(1) id find_cong [of ps ps "\<lambda>q. cap_id_at s2 dev q = PCI_CAP_ID_MSI" "\<lambda>q. cap_id_at s dev q = PCI_CAP_ID_MSI"] by simp
  moreover have "cap_chain s2 dev (ucast (r s2 0x34)) ps" using ps(1) keep [of "0x34"] cap_chain_agree [OF keep' [unfolded r_def]] by (simp add: r_def)
  ultimately obtain s3 where s3: "capability_search dev PCI_CAP_ID_MSI s2 = Inr (c, s3)" "same_cfg s2 s3"
    using capability_search_eq [of s2 dev ps PCI_CAP_ID_MSI] by (auto simp: r_def)
  obtain s4 where s4: "read_register (pd_bus dev) (pd_dev_num dev) (pd_function dev) c s3 = (r s3 c, s4)" "same_cfg s3 s4"
    using read_register_eq unfolding r_def by blast
  have rc: "r s3 c = r s c" using keep [of c] c40 same_cfg_views [OF s3(2)] by (simp add: r_def)
  have "r s c AND 0xff = 5"
  proof -
    have "ucast (r s c) = (5 :: u8)" using cp(2) by (simp add: cap_id_at_def r_def PCI_CAP_ID_MSI_def)
    then have "ucast (ucast (r s c) :: u8) = (5 :: u32)" by simp
    moreover have "v AND mask 8 = ucast (ucast v :: u8)" for v :: u32 by (rule bit_word_eqI) (auto simp: bit_simps)
    moreover have "mask 8 = (0xff :: u32)" by (simp add: mask_eq_exp_minus_1)
    ultimately show ?thesis by metis
  qed
  note reg = this
  have e: "r (pci_dev_reg_write dev x v t) (c + 8) = r t (c + 8)" if "unat (drop_bit 2 x) \<noteq> unat c div 4 + 2" for x v t
  proof -
    have "drop_bit 2 x \<noteq> drop_bit 2 (c + 8)" using that drop_2_add [OF c(2,3), of 8] by auto
    then show ?thesis using creg_write unfolding r_def by blast
  qed
  have x: "unat (drop_bit 2 (8 :: u8)) \<noteq> unat c div 4 + 2" "unat (drop_bit 2 c) \<noteq> unat c div 4 + 2"
    "unat (drop_bit 2 (c + 16)) \<noteq> unat c div 4 + 2" "unat (drop_bit 2 (c + 12)) \<noteq> unat c div 4 + 2" "unat (drop_bit 2 (c + 4)) \<noteq> unat c div 4 + 2"
    using drop_2_add [OF c(2,3), of 4] drop_2_add [OF c(2,3), of 12] drop_2_add [OF c(2,3), of 16] c40 by (auto simp: d)
  have cne: "c \<noteq> 0" using c40 by auto
  define reg' where "reg' = r s c OR push_bit 16 1"
  have b: "bit reg' 23" using c(4) by (simp add: reg'_def bit_simps)
  let ?s5 = "pci_dev_reg_write dev 8 0 (pci_dev_reg_write dev c reg' s4)"
  let ?s6 = "if drop_bit 24 reg' AND 1 \<noteq> 0 then pci_dev_reg_write dev (c + 12 + 4) 0 ?s5 else ?s5"
  obtain m s7 where s7: "read_register (pd_bus dev) (pd_dev_num dev) (pd_function dev) (c + 12) ?s6 = (m, s7)" "same_cfg ?s6 s7"
    using read_register_eq by blast
  let ?s' = "pci_dev_reg_write dev (c + 4) 0xfee00000 (pci_dev_reg_write dev (c + 12) (ucast vector) s7)"
  have a: "c + 12 + 4 = c + 16" by (simp add: add.assoc)
  have "device_MSI_init dev vector s = Inr (0, ?s')"
    unfolding device_MSI_init_def
    using s1(1) s3(1) [unfolded s2_def] s4(1) s7(1) rc reg b cne
    by (cases "drop_bit 24 (r s c) AND 1 = 0")
      (simp_all add: pci_dev_reg_read_def PCI_CONFIG_SPACE_CMD_def PCI_CAP_END_PTR_def PCI_CAP_ID_MSI_def Let_def reg'_def)
  moreover have "r ?s' (c + 8) = r s (c + 8)"
  proof -
    have "r ?s' (c + 8) = r ?s6 (c + 8)" using e x(4,5) same_cfg_views [OF s7(2)] by (simp add: r_def)
    also have "\<dots> = r s4 (c + 8)" unfolding a using e x(1-3) by simp
    also have "\<dots> = r s2 (c + 8)" using same_cfg_views [OF s3(2)] same_cfg_views [OF s4(2)] by (simp add: r_def)
    also have "\<dots> = r s (c + 8)"
    proof (rule keep)
      have "unat (c + 8) div 4 = unat c div 4 + 2" using drop_2_add [OF c(2,3), of 8] by (simp add: d)
      then show "0x34 \<le> unat (c + 8)" using c40 by linarith
    qed
    finally show ?thesis .
  qed
  ultimately show ?thesis unfolding rr by blast
qed

section \<open>Witnesses\<close>

text \<open>A device with the capabilities 1 and 5, the second with 64-bit addresses; and one whose list is a circle.\<close>

definition ex_dev :: pci_device_t where
  "ex_dev = \<lparr>pd_bus = 0, pd_dev_num = 3, pd_function = 0, vectorID = 0x8086, deviceID = 1, revisionID = 0, Ccode = 0,
     header_type = 0, BAR = []\<rparr>"

definition ex_pci :: "u32 \<Rightarrow> pci_ports" where
  "ex_pci v = \<lparr>cfg_addr = 0, cfg = (\<lambda>_. 0)(0x80001834 := 0x40, 0x80001840 := v, 0x80001850 := 0x800005, 0x80001858 := 0x1234),
     cfg_writable = (\<lambda>_. 0xffffffff)\<rparr>"

lemma ex_regs: "dev_reg (ex_pci v) ex_dev 0x34 = 0x40" "dev_reg (ex_pci v) ex_dev 0x40 = v" "dev_reg (ex_pci v) ex_dev 0x50 = 0x800005"
  "dev_reg (ex_pci v) ex_dev 0x58 = 0x1234"
  by (simp_all add: dev_reg_def creg_def ex_pci_def ex_dev_def conf_reg_def GET_TRANSCATION_def reg_of_def)

lemma ex_caps: "cap_chain (ex_pci 0x5001) ex_dev 0x40 [0x40, 0x50]" "cap_id_at (ex_pci v) ex_dev 0x40 = ucast v"
  "cap_id_at (ex_pci v) ex_dev 0x50 = 5"
  using ex_regs [of "0x5001"] ex_regs [of v] by (simp_all add: dev_reg_def cap_id_at_def)

theorem capability_search_finds_witness:
  "(\<exists>s'. capability_search ex_dev 5 (ex_pci 0x5001) = Inr (0x50, s')) \<and> capability_search ex_dev 5 (ex_pci 0x4001) = Inl Hang"
  using capability_search_finds [of "ex_pci 0x5001" ex_dev "[0x40, 0x50]" 5 "{}"]
    capability_search_finds [of "ex_pci 0x4001" ex_dev "[]" 5 "{0x40}"] by (simp add: ex_regs ex_caps del: cap_chain.simps)

theorem msi_upper_address_kept_witness:
  "\<exists>s'. device_MSI_init ex_dev 0x31 (ex_pci 0x5001) = Inr (0, s') \<and> dev_reg s' ex_dev 0x58 = 0x1234"
  using msi_upper_address_kept [of "ex_pci 0x5001" ex_dev "[0x40, 0x50]" "0x50" "0x31"]
  by (simp add: ex_regs ex_caps PCI_CAP_ID_MSI_def del: cap_chain.simps)

end
