(* ===== verification/Shell.thy ===== *)
theory Shell
  imports Minix_Names Vsprintf
begin

text \<open>
  The shell of \<^verbatim>\<open>buildin/buildin_shell.c\<close>: the line editor, the splitting of a line into
  arguments and the built-in commands, which make the system calls of the file system.
  What the keyboard delivers is a list of read results, \<open>None\<close> being \<open>-1\<close>; an empty list
  is waiting for a key that never comes. What the console receives is the list of the bytes
  written. A pointer into \<^verbatim>\<open>cmd\<close> is its offset, \<open>None\<close> the null pointer.
\<close>

section \<open>State\<close>

definition MAX_CMD_LEN :: nat where "MAX_CMD_LEN = 256"
definition MAX_ARG_NR :: nat where "MAX_ARG_NR = 16"
definition MAX_PATH_LEN :: nat where "MAX_PATH_LEN = 1024"
definition BUFLEN :: nat where "BUFLEN = 1024"

record shell = fs_task +
  sh_cwd :: "u8 list"
  sh_cmd :: "u8 list"
  sh_argv :: "nat option list"
  sh_buf :: nat
  sh_entry :: nat
  printf_buf :: string
  key_in :: "u8 option list"
  console_out :: "u8 list"

datatype sh_next = Next | Exited int

definition onix_logo :: string where
  "onix_logo =
     ''                                ____       _       '' @ CHR 0x0A #
     ''                               / __ '' @ CHR 0x5C # ''___  (_)_ __  '' @ CHR 0x0A #
     ''                              / /_/ / _ '' @ CHR 0x5C # ''/ /'' @ CHR 0x5C # '' '' @ CHR 0x5C # '' /  '' @ CHR 0x0A #
     ''                              '' @ CHR 0x5C # ''____/_//_/_//_'' @ CHR 0x5C # ''_'' @ CHR 0x5C # ''  '' @ [CHR 0x0A]"

section \<open>Reading a line\<close>

text \<open>
  \<^verbatim>\<open>readline\<close>: the buffer, the index in it, what has been read and what has been echoed.
  The index is a \<^verbatim>\<open>u32\<close> and wraps.
\<close>

fun readline_loop :: "u32 \<Rightarrow> u8 list \<Rightarrow> u32 \<Rightarrow> u8 option list \<Rightarrow> u8 list \<Rightarrow> (u8 list \<times> u8 option list \<times> u8 list) res" where
  "readline_loop count buf idx keys out =
     (if idx < count then
        (case keys of
           [] \<Rightarrow> Inl Hang
         | None # keys \<Rightarrow> rbind (arr_set buf (unat idx) 0) (\<lambda>buf. Inr (buf, keys, out))
         | Some c # keys \<Rightarrow>
             rbind (arr_set buf (unat idx) c) (\<lambda>buf.
             if c = 10 \<or> c = 13 then
               rbind (arr_set buf (unat idx) 0) (\<lambda>buf. Inr (buf, keys, out @ [10]))
             else if c = 8 then
               rbind (arr_get buf 0) (\<lambda>b.
               if b \<noteq> 8 then readline_loop count buf (idx - 1) keys (out @ [8])
               else readline_loop count buf idx keys out)
             else if c = 9 then readline_loop count buf idx keys out
             else readline_loop count buf (idx + 1) keys (out @ [c])))
      else rbind (arr_set buf (unat idx) 0) (\<lambda>buf. Inr (buf, keys, out)))"

declare readline_loop.simps [simp del]

definition readline :: "u8 list \<Rightarrow> u32 \<Rightarrow> u8 option list \<Rightarrow> u8 list \<Rightarrow> (u8 list \<times> u8 option list \<times> u8 list) res" where
  "readline buf count keys out = readline_loop count buf 0 keys out"

section \<open>Splitting a line\<close>

text \<open>\<^verbatim>\<open>while (*next == token) next++\<close> and \<^verbatim>\<open>while (*next && *next != token) next++\<close>.\<close>

function skip_token :: "u8 \<Rightarrow> u8 list \<Rightarrow> nat \<Rightarrow> nat res" where
  "skip_token token buf p =
     (if p < length buf then if buf ! p = token then skip_token token buf (Suc p) else Inr p else Inl Fault)"
  by pat_completeness auto
termination by (relation "measure (\<lambda>(token, buf, p). length buf - p)") auto

function skip_word :: "u8 \<Rightarrow> u8 list \<Rightarrow> nat \<Rightarrow> nat res" where
  "skip_word token buf p =
     (if p < length buf then if buf ! p \<noteq> 0 \<and> buf ! p \<noteq> token then skip_word token buf (Suc p) else Inr p else Inl Fault)"
  by pat_completeness auto
termination by (relation "measure (\<lambda>(token, buf, p). length buf - p)") auto

declare skip_token.simps [simp del] skip_word.simps [simp del]

function parse_loop :: "u8 \<Rightarrow> u8 list \<Rightarrow> nat option list \<Rightarrow> nat \<Rightarrow> nat \<Rightarrow> (u8 list \<times> nat option list \<times> nat) res" where
  "parse_loop token buf argv p argc =
     rbind (arr_get buf p) (\<lambda>c.
     if c \<noteq> 0 \<and> argc < MAX_ARG_NR then
       rbind (skip_token token buf p) (\<lambda>p.
       if buf ! p = 0 then Inr (buf, argv, argc)
       else
         rbind (arr_set argv argc (Some p)) (\<lambda>argv.
         rbind (skip_word token buf p) (\<lambda>p.
         if buf ! p \<noteq> 0 then parse_loop token (buf[p := 0]) argv (Suc p) (Suc argc)
         else parse_loop token buf argv p (Suc argc))))
     else Inr (buf, argv, argc))"
  by pat_completeness auto
termination by (relation "measure (\<lambda>(token, buf, argv, p, argc). MAX_ARG_NR - argc)") auto

declare parse_loop.simps [simp del]

definition cmd_parse :: "u8 list \<Rightarrow> nat option list \<Rightarrow> u8 \<Rightarrow> (u8 list \<times> nat option list \<times> nat) res" where
  "cmd_parse cmd argv token =
     rbind (parse_loop token cmd argv 0 0) (\<lambda>(cmd, argv, argc).
     rbind (arr_set argv argc None) (\<lambda>argv. Inr (cmd, argv, argc)))"

section \<open>Output\<close>

definition chars :: "u8 list \<Rightarrow> string" where
  "chars b = map (\<lambda>c. char_of (unat c)) b"

definition bytes :: "string \<Rightarrow> u8 list" where
  "bytes t = map (\<lambda>c. of_nat (of_char c)) t"

definition put :: "u8 list \<Rightarrow> 'a shell_scheme \<Rightarrow> 'a shell_scheme" where
  "put b s = s\<lparr>console_out := console_out s @ b\<rparr>"

definition printf :: "string \<Rightarrow> va list \<Rightarrow> 'a shell_scheme \<Rightarrow> 'a shell_scheme res" where
  "printf fmt arg s =
     rbind (vsprintf (printf_buf s) (fmt @ [NUL]) arg) (\<lambda>(n, b).
     Inr (put (bytes (take n b)) (s\<lparr>printf_buf := b\<rparr>)))"

text \<open>A string argument: the bytes from a pointer into \<^verbatim>\<open>cmd\<close>, or from an address in memory.\<close>

definition arg_bytes :: "nat option \<Rightarrow> 'a shell_scheme \<Rightarrow> u8 list res" where
  "arg_bytes p s = (case p of None \<Rightarrow> Inl Fault | Some p \<Rightarrow> Inr (drop p (sh_cmd s)))"

partial_function (option) mem_string :: "nat \<Rightarrow> 'a dsys_scheme \<Rightarrow> u8 list option" where
  "mem_string a s = (if mem s a = 0 then Some [0] else Option.bind (mem_string (a + 1) s) (\<lambda>r. Some (mem s a # r)))"

section \<open>Built-in commands\<close>

definition getpwd :: "'a shell_scheme \<Rightarrow> 'a shell_scheme res" where
  "getpwd s = rbind (sys_getpwd (sh_cwd s) (of_nat MAX_PATH_LEN) s) (\<lambda>cwd. Inr (s\<lparr>sh_cwd := cwd\<rparr>))"

definition print_prompt :: "'a shell_scheme \<Rightarrow> 'a shell_scheme res" where
  "print_prompt s =
     rbind (getpwd s) (\<lambda>s.
     printf (CHR 0x1B # ''[0;37;44][root]'' @ CHR 0x1B # ''[0;30;45]%s>'' @ CHR 0x1B # ''[0] '') [VStr (chars (sh_cwd s))] s)"

definition builtin_logo :: "'a shell_scheme \<Rightarrow> 'a shell_scheme res" where
  "builtin_logo = printf onix_logo []"

definition builtin_pwd :: "'a shell_scheme \<Rightarrow> 'a shell_scheme res" where
  "builtin_pwd s = rbind (getpwd s) (\<lambda>s. printf (''%s'' @ [CHR 0x0A]) [VStr (chars (sh_cwd s))] s)"

definition builtin_clear :: "'a shell_scheme \<Rightarrow> 'a shell_scheme" where
  "builtin_clear s = s"

partial_function (option) ls_loop :: "int \<Rightarrow> 'a shell_scheme \<Rightarrow> 'a shell_scheme res option" where
  "ls_loop fd s =
     (case sys_readdir fd (sh_entry s) s of
        Inl e \<Rightarrow> Some (Inl e)
      | Inr (len, s) \<Rightarrow>
          if len = EOF then Some (Inr s)
          else if rd16 (mem s) (sh_entry s) = 0 then ls_loop fd s
          else
            (case mem_string (sh_entry s + 2) s of
               None \<Rightarrow> Some (Inl Fault)
             | Some name \<Rightarrow>
                 (case printf ''%s '' [VStr (chars name)] s of
                    Inl e \<Rightarrow> Some (Inl e)
                  | Inr s \<Rightarrow> ls_loop fd s)))"

definition builtin_ls :: "'a shell_scheme \<Rightarrow> 'a shell_scheme res" where
  "builtin_ls s =
     rbind (sys_open (sh_cwd s) O_RDONLY 0 s) (\<lambda>(fd, s).
     if fd = EOF then Inr s
     else
       rbind (sys_lseek fd 0 (Some SEEK_SET) s) (\<lambda>(_, s).
       rbind (run (ls_loop fd s)) (\<lambda>s.
       rbind (printf [CHR 0x0A] [] s) (\<lambda>s. sys_close fd s))))"

definition builtin_cd :: "nat option \<Rightarrow> 'a shell_scheme \<Rightarrow> 'a shell_scheme res" where
  "builtin_cd arg s =
     rbind (arg_bytes arg s) (\<lambda>path.
     rbind (sys_chdir path s) (\<lambda>(r, s).
     if r = EOF then printf (''directory %s not exist'' @ [CHR 0x0A]) [VStr (chars path)] s else Inr s))"

partial_function (option) cat_loop :: "int \<Rightarrow> 'a shell_scheme \<Rightarrow> 'a shell_scheme res option" where
  "cat_loop fd s =
     (case sys_read fd (sh_buf s) (int BUFLEN) s of
        Inl e \<Rightarrow> Some (Inl e)
      | Inr (len, s) \<Rightarrow>
          if len = EOF then Some (Inr s)
          else cat_loop fd (put (map (mem s) [sh_buf s..<sh_buf s + nat len]) s))"

definition builtin_cat :: "nat option \<Rightarrow> 'a shell_scheme \<Rightarrow> 'a shell_scheme res" where
  "builtin_cat arg s =
     rbind (arg_bytes arg s) (\<lambda>path.
     rbind (sys_open path O_RDONLY 0 s) (\<lambda>(fd, s).
     if fd = EOF then printf (''file %s not exists.'' @ [CHR 0x0A]) [VStr (chars path)] s
     else rbind (run (cat_loop fd s)) (\<lambda>s. sys_close fd s)))"

text \<open>The three commands that check the number of their arguments.\<close>

definition builtin_mkdir :: "nat \<Rightarrow> nat option \<Rightarrow> 'a shell_scheme \<Rightarrow> 'a shell_scheme res" where
  "builtin_mkdir argc arg s =
     (if argc < 2 then Inr s
      else rbind (arg_bytes arg s) (\<lambda>path. rbind (sys_mkdir path 0x1ED s) (\<lambda>(_, s). Inr s)))"

definition builtin_rmdir :: "nat \<Rightarrow> nat option \<Rightarrow> 'a shell_scheme \<Rightarrow> 'a shell_scheme res" where
  "builtin_rmdir argc arg s =
     (if argc < 2 then Inr s
      else rbind (arg_bytes arg s) (\<lambda>path. rbind (sys_rmdir path s) (\<lambda>(_, s). Inr s)))"

definition builtin_rm :: "nat \<Rightarrow> nat option \<Rightarrow> 'a shell_scheme \<Rightarrow> 'a shell_scheme res" where
  "builtin_rm argc arg s =
     (if argc < 2 then Inr s
      else rbind (arg_bytes arg s) (\<lambda>path. rbind (sys_unlink path s) (\<lambda>(_, s). Inr s)))"

section \<open>The main loop\<close>

text \<open>A literal of C.\<close>

definition lit :: "string \<Rightarrow> u8 list" where
  "lit t = bytes t @ [0]"

text \<open>
  The chain of comparisons, each with a bound of 10 characters. \<^verbatim>\<open>builtin_test\<close> is left to
  its caller's state: the system call it makes maps a page and unmaps it.
\<close>

datatype builtin = B_test | B_logo | B_pwd | B_clear | B_exit | B_ls | B_cd | B_cat | B_mkdir | B_rmdir | B_rm

definition builtin_table :: "(string \<times> builtin) list" where
  "builtin_table =
     [(''test'', B_test), (''logo'', B_logo), (''pwd'', B_pwd), (''clear'', B_clear), (''exit'', B_exit),
      (''ls'', B_ls), (''cd'', B_cd), (''cat'', B_cat), (''mkdir'', B_mkdir), (''rmdir'', B_rmdir), (''rm'', B_rm)]"

fun which_builtin :: "u8 list \<Rightarrow> (string \<times> builtin) list \<Rightarrow> builtin option res" where
  "which_builtin line [] = Inr None"
| "which_builtin line ((t, b) # bs) =
     rbind (strcmp line (lit t) 10) (\<lambda>e. if e then Inr (Some b) else which_builtin line bs)"

definition execute :: "nat \<Rightarrow> 'a shell_scheme \<Rightarrow> (sh_next \<times> 'a shell_scheme) res" where
  "execute argc s =
     (let arg1 = sh_argv s ! 1; go = (\<lambda>r. rbind r (\<lambda>s. Inr (Next, s))) in
     rbind (arg_bytes (sh_argv s ! 0) s) (\<lambda>line.
     rbind (which_builtin line builtin_table) (\<lambda>b.
     case b of
       None \<Rightarrow> go (printf (''osh: command not found: %s'' @ [CHR 0x0A]) [VStr (chars line)] s)
     | Some B_test \<Rightarrow> Inr (Next, s)
     | Some B_logo \<Rightarrow> go (builtin_logo s)
     | Some B_pwd \<Rightarrow> go (builtin_pwd s)
     | Some B_clear \<Rightarrow> Inr (Next, builtin_clear s)
     | Some B_exit \<Rightarrow> Inr (Exited 0, s)
     | Some B_ls \<Rightarrow> go (builtin_ls s)
     | Some B_cd \<Rightarrow> go (builtin_cd arg1 s)
     | Some B_cat \<Rightarrow> go (builtin_cat arg1 s)
     | Some B_mkdir \<Rightarrow> go (builtin_mkdir argc arg1 s)
     | Some B_rmdir \<Rightarrow> go (builtin_rmdir argc arg1 s)
     | Some B_rm \<Rightarrow> go (builtin_rm argc arg1 s))))"

text \<open>One round of \<^verbatim>\<open>osh_main\<close>, then the loop.\<close>

definition osh_step :: "'a shell_scheme \<Rightarrow> (sh_next \<times> 'a shell_scheme) res" where
  "osh_step s =
     rbind (print_prompt s) (\<lambda>s.
     rbind (readline (sh_cmd s) (of_nat MAX_CMD_LEN) (key_in s) (console_out s)) (\<lambda>(cmd, keys, out).
     let s = s\<lparr>sh_cmd := cmd, key_in := keys, console_out := out\<rparr> in
     rbind (arr_get cmd 0) (\<lambda>c.
     if c = 0 then Inr (Next, s)
     else
       rbind (cmd_parse cmd (sh_argv s) 0x20) (\<lambda>(cmd, argv, argc).
       let s = s\<lparr>sh_cmd := cmd, sh_argv := argv\<rparr> in
       if argc \<ge> MAX_ARG_NR then Inr (Next, s) else execute argc s))))"

partial_function (option) osh_loop :: "'a shell_scheme \<Rightarrow> (int \<times> 'a shell_scheme) res option" where
  "osh_loop s =
     (case osh_step s of
        Inl e \<Rightarrow> Some (Inl e)
      | Inr (Exited code, s) \<Rightarrow> Some (Inr (code, s))
      | Inr (Next, s) \<Rightarrow> osh_loop s)"

definition osh_main :: "'a shell_scheme \<Rightarrow> (int \<times> 'a shell_scheme) res" where
  "osh_main s =
     rbind (memset (sh_cmd s) 0 MAX_CMD_LEN) (\<lambda>cmd.
     rbind (memset (sh_cwd s) 0 MAX_PATH_LEN) (\<lambda>cwd.
     rbind (builtin_logo (s\<lparr>sh_cmd := cmd, sh_cwd := cwd\<rparr>)) (\<lambda>s. run (osh_loop s))))"

end
