(* ===== verification/Shell_Theorems.thy ===== *)
theory Shell_Theorems
  imports Shell
begin

text \<open>
  The shell's parser against a reference that splits at every token and drops the empty
  fields, and its line editor against a line kept as a list.
\<close>

section \<open>Splitting\<close>

text \<open>The reference: the fields between the tokens, and those that are not empty.\<close>

fun fields :: "'a \<Rightarrow> 'a list \<Rightarrow> 'a list list" where
  "fields t [] = [[]]"
| "fields t (x # xs) =
     (if x = t then [] # fields t xs else (case fields t xs of [] \<Rightarrow> [[x]] | f # fs \<Rightarrow> (x # f) # fs))"

definition words :: "'a \<Rightarrow> 'a list \<Rightarrow> 'a list list" where
  "words t xs = filter (\<lambda>w. w \<noteq> []) (fields t xs)"

lemma fields_append: "t \<notin> set w \<Longrightarrow> fields t (w @ zs) = (w @ hd (fields t zs)) # tl (fields t zs)"
proof (induction w)
  case Nil
  have "fields t zs \<noteq> []" by (cases zs) (simp_all split: list.splits)
  then show ?case by simp
qed (auto split: list.splits)

lemma words_skip: "words t (takeWhile (\<lambda>x. x = t) xs @ ys) = words t ys"
  by (induction xs) (auto simp: words_def)

lemma words_word:
  assumes "t \<notin> set w" "w \<noteq> []" "zs = [] \<or> hd zs = t"
  shows "words t (w @ zs) = w # words t zs"
proof (cases zs)
  case Nil
  with assms fields_append [of t w "[]"] show ?thesis by (simp add: words_def)
next
  case (Cons z zs')
  with assms show ?thesis by (simp add: words_def fields_append)
qed

lemma skip_token_spec: "0 \<notin> set xs \<Longrightarrow> t \<noteq> 0 \<Longrightarrow>
    skip_token t (pre @ xs @ 0 # rest) (length pre) = Inr (length pre + length (takeWhile (\<lambda>x. x = t) xs))"
proof (induction xs arbitrary: pre)
  case Nil
  then show ?case by (subst skip_token.simps) simp
next
  case (Cons x xs)
  with Cons.IH [of "pre @ [x]"] show ?case by (cases "x = t"; subst skip_token.simps) simp_all
qed

lemma skip_word_spec: "0 \<notin> set xs \<Longrightarrow>
    skip_word t (pre @ xs @ 0 # rest) (length pre) = Inr (length pre + length (takeWhile (\<lambda>x. x \<noteq> t) xs))"
proof (induction xs arbitrary: pre)
  case Nil
  then show ?case by (subst skip_word.simps) simp
next
  case (Cons x xs)
  with Cons.IH [of "pre @ [x]"] show ?case by (cases "x = t"; subst skip_word.simps) simp_all
qed

text \<open>
  What the loop has done from position \<open>length pre\<close> on, having found the words \<open>ws\<close>.
\<close>

definition parsed :: "u8 list \<Rightarrow> u8 list \<Rightarrow> u8 list \<Rightarrow> u8 list list \<Rightarrow> nat option list \<Rightarrow> nat \<Rightarrow>
    u8 list \<Rightarrow> nat option list \<Rightarrow> bool" where
  "parsed pre xs rest ws argv argc buf' argv' \<longleftrightarrow>
     (\<exists>zs. buf' = pre @ zs @ 0 # rest \<and> length zs = length xs) \<and> length argv' = length argv \<and>
     (\<forall>i < argc. argv' ! i = argv ! i) \<and>
     (\<forall>i < length ws. \<exists>q. argv' ! (argc + i) = Some q \<and> cstr (drop q buf') = ws ! i)"

lemma parsed_Nil: "parsed pre xs rest [] argv argc (pre @ xs @ 0 # rest) argv"
  by (auto simp: parsed_def)

lemma parsed_Cons:
  assumes "parsed (pre @ sp @ w @ [0]) xs rest ws (argv[argc := Some (length pre + length sp)]) (Suc argc) buf' argv'"
    "argc < length argv" "0 \<notin> set w"
  shows "parsed pre (sp @ w @ x # xs) rest (w # ws) argv argc buf' argv'"
proof -
  from assms(1) obtain zs where zs: "buf' = (pre @ sp @ w @ [0]) @ zs @ 0 # rest" "length zs = length xs"
    and len: "length argv' = length argv"
    and low: "\<And>i. i < Suc argc \<Longrightarrow> argv' ! i = argv[argc := Some (length pre + length sp)] ! i"
    and ws: "\<And>i. i < length ws \<Longrightarrow> \<exists>q. argv' ! (Suc argc + i) = Some q \<and> cstr (drop q buf') = ws ! i"
    by (auto simp: parsed_def)
  have first: "argv' ! argc = Some (length pre + length sp)" using low [of argc] assms(2) by simp
  have "buf' = pre @ (sp @ w @ 0 # zs) @ 0 # rest" using zs(1) by simp
  moreover have "cstr (drop (length pre + length sp) buf') = w" using zs(1) assms(3) by (simp add: cstr_append)
  moreover have "\<exists>q. argv' ! (argc + i) = Some q \<and> cstr (drop q buf') = (w # ws) ! i" if "i < length (w # ws)" for i
    using that ws [of "i - 1"] first calculation(2) by (cases i) auto
  ultimately show ?thesis using len low zs(2) unfolding parsed_def
    by (intro conjI exI [of _ "sp @ w @ 0 # zs"]) auto
qed

lemma parsed_last:
  assumes "argc < length argv" "0 \<notin> set w"
  shows "parsed pre (sp @ w) rest [w] argv argc (pre @ (sp @ w) @ 0 # rest) (argv[argc := Some (length pre + length sp)])"
  using assms by (auto simp: parsed_def cstr_append)

lemma parse_loop_spec:
  assumes "0 \<notin> set xs" "t \<noteq> 0" "length argv = MAX_ARG_NR" "argc \<le> MAX_ARG_NR"
  shows "\<exists>buf' argv'. parse_loop t (pre @ xs @ 0 # rest) argv (length pre) argc =
      Inr (buf', argv', argc + min (length (words t xs)) (MAX_ARG_NR - argc)) \<and>
    parsed pre xs rest (take (MAX_ARG_NR - argc) (words t xs)) argv argc buf' argv'"
  using assms
proof (induction "length xs" arbitrary: xs pre argv argc rule: less_induct)
  case less
  let ?buf = "pre @ xs @ 0 # rest"
  define sp ys where "sp = takeWhile (\<lambda>x. x = t) xs" and "ys = dropWhile (\<lambda>x. x = t) xs"
  have xs: "xs = sp @ ys" by (simp add: sp_def ys_def)
  have sk: "skip_token t ?buf (length pre) = Inr (length pre + length sp)"
    unfolding sp_def by (rule skip_token_spec) (use less.prems in auto)
  have "words t (sp @ ys) = words t ys" unfolding sp_def by (rule words_skip)
  then have ws: "words t xs = words t ys" by (simp add: xs)
  have hd_nz: "?buf ! length pre \<noteq> 0 \<longleftrightarrow> xs \<noteq> []" using less.prems(1) by (cases xs) auto
  show ?case
  proof (cases "xs = [] \<or> argc = MAX_ARG_NR")
    case True
    with less.prems hd_nz have "parse_loop t ?buf argv (length pre) argc = Inr (?buf, argv, argc)"
      by (subst parse_loop.simps) auto
    with True parsed_Nil [of pre xs rest argv argc] show ?thesis by (auto simp: words_def)
  next
    case False
    with less.prems have c: "xs \<noteq> []" "argc < MAX_ARG_NR" by auto
    show ?thesis
    proof (cases "ys = []")
      case True
      then have "?buf ! (length pre + length sp) = 0" by (simp add: xs nth_append)
      with c hd_nz sk have "parse_loop t ?buf argv (length pre) argc = Inr (?buf, argv, argc)"
        by (subst parse_loop.simps) auto
      with True ws parsed_Nil [of pre xs rest argv argc] show ?thesis by (auto simp: words_def)
    next
      case ys: False
      define w zs where "w = takeWhile (\<lambda>x. x \<noteq> t) ys" and "zs = dropWhile (\<lambda>x. x \<noteq> t) ys"
      have yz: "ys = w @ zs" by (simp add: w_def zs_def)
      have "hd ys \<noteq> t" using ys hd_dropWhile [of "\<lambda>x. x = t" xs] by (auto simp: ys_def)
      then have w: "w \<noteq> []" "t \<notin> set w" "0 \<notin> set w"
        using ys less.prems(1) by (auto simp: w_def xs dest: set_takeWhileD) (cases ys; simp)+
      have z: "zs = [] \<or> hd zs = t" using hd_dropWhile [of "\<lambda>x. x \<noteq> t" ys] by (auto simp: zs_def)
      have ww: "words t xs = w # words t zs" using words_word [OF w(2,1) z] by (simp add: ws yz)
      have sw: "skip_word t ?buf (length pre + length sp) = Inr (length pre + length sp + length w)"
        using skip_word_spec [of ys t "pre @ sp" rest] less.prems(1) by (simp add: w_def xs)
      have b0: "?buf ! (length pre + length sp) \<noteq> 0" using w less.prems(1) by (cases w) (simp_all add: xs yz nth_append)
      let ?argv = "argv[argc := Some (length pre + length sp)]"
      let ?q = "length pre + length sp + length w"
      have st: "parse_loop t ?buf argv (length pre) argc =
          (if ?buf ! ?q \<noteq> 0 then parse_loop t (?buf[?q := 0]) ?argv (Suc ?q) (Suc argc)
           else parse_loop t ?buf ?argv ?q (Suc argc))"
        using c hd_nz sk sw b0 less.prems(3) by (subst parse_loop.simps) auto
      show ?thesis
      proof (cases zs)
        case Nil
        then have q0: "?buf ! ?q = 0" "arr_get ?buf ?q = Inr 0" by (simp_all add: xs yz nth_append)
        have "parse_loop t ?buf ?argv ?q (Suc argc) = Inr (?buf, ?argv, Suc argc)"
          by (subst parse_loop.simps) (simp only: q0(2) rbind_simps, simp)
        moreover have "parsed pre xs rest [w] argv argc ?buf ?argv"
          using parsed_last [of argc argv w pre sp rest] c(2) less.prems(3) w(3) Nil by (simp add: xs yz)
        moreover have "words t xs = [w]" using ww Nil by (simp add: words_def)
        ultimately show ?thesis using st q0 c(2) by (auto simp: take_Cons' min_def)
      next
        case (Cons x us)
        have nz: "?buf ! ?q \<noteq> 0" "x = t" "0 \<notin> set us" using Cons less.prems(1) z by (auto simp: xs yz nth_append)
        have b: "?buf[?q := 0] = (pre @ sp @ w @ [0]) @ us @ 0 # rest" "Suc ?q = length (pre @ sp @ w @ [0])"
          by (simp_all add: xs yz Cons list_update_append)
        have "words t zs = words t us" using Cons nz(2) by (simp add: words_def)
        with ww have wu: "words t xs = w # words t us" by simp
        have "length us < length xs" by (simp add: xs yz Cons)
        from less.hyps [OF this nz(3) less.prems(2), of ?argv "Suc argc" "pre @ sp @ w @ [0]"] c(2) less.prems(3)
        obtain buf' argv' where r: "parse_loop t (?buf[?q := 0]) ?argv (Suc ?q) (Suc argc) =
            Inr (buf', argv', Suc argc + min (length (words t us)) (MAX_ARG_NR - Suc argc))"
          "parsed (pre @ sp @ w @ [0]) us rest (take (MAX_ARG_NR - Suc argc) (words t us)) ?argv (Suc argc) buf' argv'"
          unfolding b by auto
        have tk: "take (MAX_ARG_NR - argc) (w # words t us) = w # take (MAX_ARG_NR - Suc argc) (words t us)"
          using c(2) by (simp add: take_Cons')
        have "parsed pre (sp @ w @ x # us) rest (w # take (MAX_ARG_NR - Suc argc) (words t us)) argv argc buf' argv'"
          using c(2) less.prems(3) w(3) by (intro parsed_Cons [OF r(2)]) simp_all
        then have "parsed pre xs rest (take (MAX_ARG_NR - argc) (words t xs)) argv argc buf' argv'"
          unfolding wu tk by (simp add: xs yz Cons)
        with r(1) st nz(1) c(2) wu show ?thesis by (auto simp: min_def)
      qed
    qed
  qed
qed

text \<open>
  C22: \<^verbatim>\<open>cmd_parse\<close> finds exactly the non-empty fields between the tokens, in order, each as a C
  string inside the line, and ends the vector with a null pointer. A line of
  \<^verbatim>\<open>MAX_ARG_NR\<close> words or more makes it write the null pointer behind the array.
\<close>

theorem cmd_parse_words:
  assumes "terminated cmd" "token \<noteq> 0" "length argv = MAX_ARG_NR"
  shows "(length (words token (cstr cmd)) < MAX_ARG_NR \<longrightarrow>
      (\<exists>cmd' argv'. cmd_parse cmd argv token = Inr (cmd', argv', length (words token (cstr cmd))) \<and>
        length cmd' = length cmd \<and> argv' ! length (words token (cstr cmd)) = None \<and>
        (\<forall>i < length (words token (cstr cmd)).
          \<exists>q. argv' ! i = Some q \<and> cstr (drop q cmd') = words token (cstr cmd) ! i))) \<and>
    (MAX_ARG_NR \<le> length (words token (cstr cmd)) \<longrightarrow> cmd_parse cmd argv token = Inl Fault)"
proof -
  let ?ws = "words token (cstr cmd)"
  from terminated_cstr [OF assms(1)] obtain rest where c: "cmd = cstr cmd @ 0 # rest" by auto
  from parse_loop_spec [of "cstr cmd" token argv 0 "[]" rest] assms(2,3) cstr_nonzero [of cmd]
  obtain cmd' argv' where r: "parse_loop token cmd argv 0 0 = Inr (cmd', argv', min (length ?ws) MAX_ARG_NR)"
    "parsed [] (cstr cmd) rest (take MAX_ARG_NR ?ws) argv 0 cmd' argv'"
    by (auto simp flip: c)
  from r(2) obtain zs where zs: "cmd' = zs @ 0 # rest" "length zs = length (cstr cmd)" by (auto simp: parsed_def)
  have "length cmd' = length cmd" by (subst c) (simp add: zs)
  moreover from r(2) assms(3) have "length argv' = MAX_ARG_NR" by (simp add: parsed_def)
  ultimately show ?thesis using r by (auto simp: cmd_parse_def parsed_def arr_set_def)
qed

definition ex_line :: "u8 list" where "ex_line = [0x20, 0x6C, 0x73, 0x20, 0x20, 0x61, 0]"
definition ex_long :: "u8 list" where "ex_long = concat (replicate 16 [0x61, 0x20]) @ [0]"

lemma ex_lines:
  "terminated ex_line" "words 0x20 (cstr ex_line) = [[0x6C, 0x73], [0x61]]"
  "terminated ex_long" "length (words 0x20 (cstr ex_long)) = 16"
  by code_simp+

theorem cmd_parse_words_witness:
  "(\<exists>cmd' argv'. cmd_parse ex_line (replicate 16 None) 0x20 = Inr (cmd', argv', 2) \<and>
      (\<exists>q. argv' ! 1 = Some q \<and> cstr (drop q cmd') = [0x61])) \<and>
   cmd_parse ex_long (replicate 16 None) 0x20 = Inl Fault"
proof
  from cmd_parse_words [OF ex_lines(1), of "0x20" "replicate 16 None"]
  obtain cmd' argv' where "cmd_parse ex_line (replicate 16 None) 0x20 = Inr (cmd', argv', 2)"
      "\<forall>i < 2. \<exists>q. argv' ! i = Some q \<and> cstr (drop q cmd') = [[0x6C, 0x73], [0x61]] ! i"
    by (auto simp: ex_lines MAX_ARG_NR_def)
  then show "\<exists>cmd' argv'. cmd_parse ex_line (replicate 16 None) 0x20 = Inr (cmd', argv', 2) \<and>
      (\<exists>q. argv' ! 1 = Some q \<and> cstr (drop q cmd') = [0x61])"
    by (metis nth_Cons_0 nth_Cons_Suc One_nat_def lessI numeral_2_eq_2)
  show "cmd_parse ex_long (replicate 16 None) 0x20 = Inl Fault"
    using cmd_parse_words [OF ex_lines(3), of "0x20" "replicate 16 None"] by (simp add: ex_lines MAX_ARG_NR_def)
qed

section \<open>Editing a line\<close>

text \<open>A key on the line kept as a list, and what it echoes.\<close>

definition edit :: "u8 list \<Rightarrow> u8 \<Rightarrow> u8 list" where
  "edit line c = (if c = 8 then butlast line else if c = 9 then line else line @ [c])"

definition echo :: "u8 list \<Rightarrow> u8 \<Rightarrow> u8 list" where
  "echo line c = (if c = 8 then if line = [] then [] else [8] else if c = 9 then [] else [c])"

fun type_keys :: "u8 list \<Rightarrow> u8 list \<Rightarrow> u8 list \<Rightarrow> u8 list \<times> u8 list" where
  "type_keys [] line out = (line, out)"
| "type_keys (c # ks) line out = type_keys ks (edit line c) (out @ echo line c)"

text \<open>The line stays shorter than \<open>n\<close> while the keys are typed.\<close>

fun fits :: "nat \<Rightarrow> u8 list \<Rightarrow> u8 list \<Rightarrow> bool" where
  "fits n [] line \<longleftrightarrow> length line < n"
| "fits n (c # ks) line \<longleftrightarrow> length line < n \<and> fits n ks (edit line c)"

definition editing :: "u8 list \<Rightarrow> u32 \<Rightarrow> u8 list \<Rightarrow> bool" where
  "editing buf idx line \<longleftrightarrow> unat idx = length line \<and> length line \<le> length buf \<and> take (length line) buf = line \<and> 8 \<notin> set line"

lemma editing_char:
  assumes "editing buf idx line" "length line < length buf" "c \<noteq> 8" "length buf < 2 ^ 32"
  shows "editing (buf[unat idx := c]) (idx + 1) (line @ [c])"
proof -
  from assms have l: "unat idx = length line" by (simp add: editing_def)
  moreover have "unat (idx + 1) = Suc (length line)" using l assms(2,4) by (simp add: unat_word_ariths)
  ultimately show ?thesis using assms by (auto simp: editing_def take_Suc_conv_app_nth)
qed

lemma editing_keep:
  assumes "editing buf idx line"
  shows "editing (buf[unat idx := c]) idx line"
  using assms by (simp add: editing_def)

lemma editing_back:
  assumes "editing buf idx line" "line \<noteq> []"
  shows "editing (buf[unat idx := 8]) (idx - 1) (butlast line)" "buf[unat idx := 8] ! 0 \<noteq> 8"
proof -
  from assms have l: "unat idx = length line" "take (length line) buf = line" "8 \<notin> set line"
    by (auto simp: editing_def)
  from l(1) assms(2) have z: "idx \<noteq> 0" by auto
  then have "1 \<le> idx" by (simp add: word_le_nat_alt Suc_leI unat_gt_0)
  then have "unat (idx - 1) = length line - 1" using l(1) by (simp add: unat_sub)
  moreover have "take (length line - 1) (buf[length line := 8]) = butlast line"
    by (metis l(2) butlast_take diff_le_self assms(1) editing_def take_update_cancel)
  ultimately show "editing (buf[unat idx := 8]) (idx - 1) (butlast line)"
    using assms(1) l by (auto simp: editing_def dest: in_set_butlastD)
  have "buf ! 0 = line ! 0" using l(2) assms(2) by (metis length_greater_0_conv nth_take)
  moreover have "line ! 0 \<in> set line" using assms(2) by simp
  ultimately show "buf[unat idx := 8] ! 0 \<noteq> 8" using l(1,3) assms(2) by (metis length_greater_0_conv less_not_refl nth_list_update_neq)
qed

lemma readline_key:
  assumes e: "editing buf idx line" and n: "length buf = unat count" "length line < unat count"
    and c: "c \<noteq> 10" "c \<noteq> 13"
  shows "\<exists>buf' idx'. readline_loop count buf idx (Some c # keys) out = readline_loop count buf' idx' keys (out @ echo line c) \<and>
    editing buf' idx' (edit line c) \<and> length buf' = length buf"
proof -
  from e have l: "unat idx = length line" by (simp add: editing_def)
  then have i: "idx < count" "unat idx < length buf" using n by (simp_all add: word_less_nat_alt)
  have b: "length buf < 2 ^ 32" using n(1) unsigned_less [of count] by simp
  show ?thesis
  proof (cases "c = 8")
    case True
    show ?thesis
    proof (cases "line = []")
      case True
      then have "idx = 0" "buf[unat idx := 8] ! 0 = 8" using l i by (auto simp: unat_eq_0)
      then have "readline_loop count buf idx (Some c # keys) out = readline_loop count (buf[unat idx := 8]) idx keys out"
        using i \<open>c = 8\<close> by (subst readline_loop.simps) auto
      with True \<open>c = 8\<close> editing_keep [OF e, of 8] show ?thesis
        by (intro exI [of _ "buf[unat idx := 8]"] exI [of _ idx]) (simp add: echo_def edit_def)
    next
      case False
      have "0 < length buf" using i(2) by linarith
      then have g: "arr_get (buf[unat idx := 8]) 0 = Inr (buf[unat idx := 8] ! 0)" by simp
      have "readline_loop count buf idx (Some c # keys) out =
          readline_loop count (buf[unat idx := 8]) (idx - 1) keys (out @ [8])"
        using i \<open>c = 8\<close> editing_back(2) [OF e False] by (subst readline_loop.simps) (simp add: g)
      with False \<open>c = 8\<close> editing_back(1) [OF e False] show ?thesis
        by (intro exI [of _ "buf[unat idx := 8]"] exI [of _ "idx - 1"]) (simp add: echo_def edit_def)
    qed
  next
    case False
    have "readline_loop count buf idx (Some c # keys) out =
        (if c = 9 then readline_loop count (buf[unat idx := c]) idx keys out
         else readline_loop count (buf[unat idx := c]) (idx + 1) keys (out @ [c]))"
      using i c False by (subst readline_loop.simps) auto
    with False editing_keep [OF e, of 9] editing_char [OF e _ False b] n show ?thesis
      by (intro exI [of _ "buf[unat idx := c]"] exI [of _ "if c = 9 then idx else idx + 1"]) (simp add: echo_def edit_def)
  qed
qed

lemma readline_keys:
  assumes "editing buf idx line" "length buf = unat count" "set ks \<inter> {10, 13} = {}"
  shows "(fits (unat count) ks line \<longrightarrow> (\<exists>buf'. readline_loop count buf idx (map Some ks @ Some 10 # keys) out =
        Inr (buf', keys, snd (type_keys ks line out) @ [10]) \<and> length buf' = length buf \<and>
        take (Suc (length (fst (type_keys ks line out)))) buf' = fst (type_keys ks line out) @ [0])) \<and>
    (\<not> fits (unat count) ks line \<longrightarrow> readline_loop count buf idx (map Some ks @ Some 10 # keys) out = Inl Fault)"
proof -
  have full: "readline_loop count b i ks' o' = Inl Fault"
    if "editing b i l" "length b = unat count" "\<not> length l < unat count" for b i l ks' o'
    using that by (subst readline_loop.simps) (auto simp: editing_def word_less_nat_alt arr_set_def)
  from assms show ?thesis
  proof (induction ks arbitrary: buf idx line out)
    case Nil
    show ?case
    proof (cases "length line < unat count")
      case True
      with Nil have i: "idx < count" "unat idx < length buf" by (auto simp: editing_def word_less_nat_alt)
      then have "readline_loop count buf idx (Some 10 # keys) out = Inr (buf[unat idx := 0], keys, out @ [10])"
        by (subst readline_loop.simps) auto
      with Nil i show ?thesis by (auto simp: editing_def take_Suc_conv_app_nth)
    next
      case False
      with full [of buf idx line] Nil show ?thesis by auto
    qed
  next
    case (Cons c ks)
    show ?case
    proof (cases "length line < unat count")
      case True
      from readline_key [OF Cons.prems(1,2) True, of c "map Some ks @ Some 10 # keys" out] Cons.prems(3)
      obtain buf' idx' where r: "readline_loop count buf idx (map Some (c # ks) @ Some 10 # keys) out =
          readline_loop count buf' idx' (map Some ks @ Some 10 # keys) (out @ echo line c)"
        "editing buf' idx' (edit line c)" "length buf' = length buf" by auto
      from Cons.IH [OF r(2), of "out @ echo line c"] r Cons.prems True show ?thesis by auto
    next
      case False
      with full [of buf idx line] Cons.prems show ?thesis by auto
    qed
  qed
qed

text \<open>
  C32: \<^verbatim>\<open>readline\<close> with a buffer of \<^verbatim>\<open>count\<close> bytes returns the edited line, terminated, and
  has echoed the keys; a line that grows to \<^verbatim>\<open>count\<close> characters makes it write its
  terminator behind the buffer.
\<close>

theorem readline_edits:
  assumes "length buf = unat count" "set ks \<inter> {0, 10, 13} = {}"
  shows "(fits (unat count) ks [] \<longrightarrow>
      (\<exists>buf'. readline buf count (map Some ks @ Some 10 # keys) out = Inr (buf', keys, snd (type_keys ks [] out) @ [10]) \<and>
        length buf' = length buf \<and> terminated buf' \<and> cstr buf' = fst (type_keys ks [] out))) \<and>
    (\<not> fits (unat count) ks [] \<longrightarrow> readline buf count (map Some ks @ Some 10 # keys) out = Inl Fault)"
proof -
  have "editing buf 0 []" by (simp add: editing_def)
  from readline_keys [OF this assms(1), of ks keys out] assms(2)
  have r: "(fits (unat count) ks [] \<longrightarrow> (\<exists>buf'. readline buf count (map Some ks @ Some 10 # keys) out =
        Inr (buf', keys, snd (type_keys ks [] out) @ [10]) \<and> length buf' = length buf \<and>
        take (Suc (length (fst (type_keys ks [] out)))) buf' = fst (type_keys ks [] out) @ [0])) \<and>
    (\<not> fits (unat count) ks [] \<longrightarrow> readline buf count (map Some ks @ Some 10 # keys) out = Inl Fault)"
    by (auto simp: readline_def)
  have nz: "0 \<notin> set (fst (type_keys ks line out'))" if "0 \<notin> set line" "0 \<notin> set ks" for line out'
    using that by (induction ks arbitrary: line out') (auto simp: edit_def dest: in_set_butlastD)
  have "terminated b \<and> cstr b = l" if "take (Suc (length l)) b = l @ [0]" "0 \<notin> set l" for b l :: "u8 list"
  proof -
    from that(1) have "b = l @ 0 # drop (Suc (length l)) b" by (metis append.assoc append_Cons append_Nil append_take_drop_id)
    with cstr_append(1) [OF that(2)] cstr_append(2) [of l] show ?thesis by metis
  qed
  with r nz [of "[]" out] assms(2) show ?thesis by auto
qed

theorem readline_edits_witness:
  "(\<exists>buf'. readline [7, 7, 7, 7] 4 [Some 0x6C, Some 8, Some 8, Some 0x70, Some 10] [] = Inr (buf', [], [0x6C, 8, 0x70, 10]) \<and>
      cstr buf' = [0x70]) \<and>
   readline [7, 7] 2 [Some 0x6C, Some 0x73, Some 10] [] = Inl Fault"
  using readline_edits [of "[7, 7, 7, 7]" 4 "[0x6C, 8, 8, 0x70]" "[]" "[]"] readline_edits [of "[7, 7]" 2 "[0x6C, 0x73]" "[]" "[]"]
  by (auto simp: edit_def echo_def)

section \<open>Commands\<close>

lemma which_builtin_spec:
  assumes "terminated line"
    and "\<forall>(t, b) \<in> set tab. terminated (lit t) \<and> cstr (lit t) = bytes t \<and> length (bytes t) < 10"
  shows "which_builtin line tab = Inr (map_of (map (\<lambda>(t, b). (bytes t, b)) tab) (cstr line))"
  using assms(2)
proof (induction tab)
  case (Cons e tab)
  obtain t b where e: "e = (t, b)" by force
  with Cons.prems have t: "terminated (lit t)" "cstr (lit t) = bytes t" "length (bytes t) < 10" by auto
  have "take 10 (cstr line) = take 10 (bytes t) \<longleftrightarrow> cstr line = bytes t"
  proof
    assume eq: "take 10 (cstr line) = take 10 (bytes t)"
    then have "length (take 10 (cstr line)) < 10" using t(3) by simp
    then have "length (cstr line) < 10" by simp
    with eq t(3) show "cstr line = bytes t" by simp
  qed simp
  with strcmp_spec [OF assms(1) t(1), of 10] t(2) Cons e show ?case by auto
qed simp

lemma builtin_literals:
  "\<forall>(t, b) \<in> set builtin_table. terminated (lit t) \<and> cstr (lit t) = bytes t \<and> length (bytes t) < 10"
  by code_simp

text \<open>
  The chain of comparisons finds exactly the built-in command of that name: none of the
  names is a prefix that the bound of 10 characters would confuse.
\<close>

lemma which_builtin_exact:
  assumes "terminated line"
  shows "which_builtin line builtin_table = Inr (map_of (map (\<lambda>(t, b). (bytes t, b)) builtin_table) (cstr line))"
  by (rule which_builtin_spec [OF assms builtin_literals])

text \<open>A line of spaces leaves no word, and the null pointer is compared with the names.\<close>

lemma execute_no_word:
  assumes "sh_argv s ! 0 = None"
  shows "execute argc s = Inl Fault"
  by (simp add: execute_def arg_bytes_def assms Let_def)

lemma words_blank: "set xs \<subseteq> {t} \<Longrightarrow> words t xs = []"
  by (induction xs) (auto simp: words_def)

lemma parse_blank:
  assumes "terminated cmd" "set (cstr cmd) \<subseteq> {0x20}" "length argv = MAX_ARG_NR"
  shows "\<exists>cmd' argv'. cmd_parse cmd argv 0x20 = Inr (cmd', argv', 0) \<and> argv' ! 0 = None"
proof -
  from terminated_cstr [OF assms(1)] obtain rest where c: "cmd = cstr cmd @ 0 # rest" by auto
  from parse_loop_spec [of "cstr cmd" "0x20" argv 0 "[]" rest] assms(3) cstr_nonzero [of cmd] words_blank [OF assms(2)]
  obtain cmd' argv' where "parse_loop 0x20 cmd argv 0 0 = Inr (cmd', argv', 0)" "length argv' = length argv"
    by (auto simp: parsed_def simp flip: c)
  with assms(3) show ?thesis by (simp add: cmd_parse_def MAX_ARG_NR_def)
qed

end
