(* ===== verification/Hba.thy ===== *)
theory Hba
  imports CString
begin

text \<open>
  The AHCI driver of \<^verbatim>\<open>kernel/hba.c\<close>: the command structures it builds in memory, the ports
  and their registers, the sending of a command by polling and the identification of the
  disk. The controller is a parameter: \<open>mm_rd\<close> and \<open>mm_wr\<close> read and write one of its
  registers, by byte offset, and may change its state. Sending with interrupts, which needs
  tasks, is in \<open>Hba_Irq\<close>.
\<close>

section \<open>Constants\<close>

definition HBA_REG_CAP :: nat where "HBA_REG_CAP = 0x0"
definition HBA_REG_GHC :: nat where "HBA_REG_GHC = 0x4"
definition HBA_REG_IS :: nat where "HBA_REG_IS = 0x8"
definition HBA_REG_PI :: nat where "HBA_REG_PI = 0xc"
definition HBA_REG_VS :: nat where "HBA_REG_VS = 0x10"

definition HBA_PORT_BASE :: nat where "HBA_PORT_BASE = 0x100"
definition HBA_PORT_SIZE :: nat where "HBA_PORT_SIZE = 0x80"

datatype port_reg = PxCLB | PxCLBU | PxFB | PxFBU | PxIS | PxIE | PxCMD | PxTFD | PxSIG | PxSSTS | PxSERR | PxCI

fun HBA_PORT_REG :: "port_reg \<Rightarrow> nat" where
  "HBA_PORT_REG PxCLB = 0x0"
| "HBA_PORT_REG PxCLBU = 0x4"
| "HBA_PORT_REG PxFB = 0x8"
| "HBA_PORT_REG PxFBU = 0xc"
| "HBA_PORT_REG PxIS = 0x10"
| "HBA_PORT_REG PxIE = 0x14"
| "HBA_PORT_REG PxCMD = 0x18"
| "HBA_PORT_REG PxTFD = 0x20"
| "HBA_PORT_REG PxSIG = 0x24"
| "HBA_PORT_REG PxSSTS = 0x28"
| "HBA_PORT_REG PxSERR = 0x30"
| "HBA_PORT_REG PxCI = 0x38"

definition SATA_DEV_SIG :: u32 where "SATA_DEV_SIG = 0x0101"
definition HBA_GHC_AE :: u32 where "HBA_GHC_AE = push_bit 31 1"
definition HBA_GHC_IE :: u32 where "HBA_GHC_IE = push_bit 1 1"
definition HBA_PORT_CMD_ST :: u32 where "HBA_PORT_CMD_ST = 1"
definition HBA_PORT_CMD_FRE :: u32 where "HBA_PORT_CMD_FRE = push_bit 4 1"
definition HBA_PORT_CMD_FR :: u32 where "HBA_PORT_CMD_FR = push_bit 14 1"
definition HBA_PORT_CMD_CR :: u32 where "HBA_PORT_CMD_CR = push_bit 15 1"
definition HBA_PORT_TFD_BSY :: u32 where "HBA_PORT_TFD_BSY = push_bit 7 1"
definition HBA_PORT_IE_DPE :: u32 where "HBA_PORT_IE_DPE = push_bit 5 1"

definition FIS_RH2D :: u8 where "FIS_RH2D = 0x27"
definition SATA_LBA_48_ENABLE :: u32 where "SATA_LBA_48_ENABLE = 1"

definition ATA_CMD_IDENTIFY_DEVICE :: u8 where "ATA_CMD_IDENTIFY_DEVICE = 0xec"
definition ATA_CMD_READ_DMA :: u8 where "ATA_CMD_READ_DMA = 0xc8"
definition ATA_CMD_READ_DMA_EXT :: u8 where "ATA_CMD_READ_DMA_EXT = 0x25"
definition ATA_CMD_WRITE_DMA :: u8 where "ATA_CMD_WRITE_DMA = 0xca"
definition ATA_CMD_WRITE_DMA_EXT :: u8 where "ATA_CMD_WRITE_DMA_EXT = 0x35"

lemmas ata_cmds = ATA_CMD_IDENTIFY_DEVICE_def ATA_CMD_READ_DMA_def ATA_CMD_READ_DMA_EXT_def
  ATA_CMD_WRITE_DMA_def ATA_CMD_WRITE_DMA_EXT_def

datatype send_status_t = SUCCESSFUL | NOT_SATA | BUSY | GENERAL_ERROR

section \<open>Command structures\<close>

text \<open>\<open>h2d_c\<close> is the bit-field \<^verbatim>\<open>c\<close>; the reserved bytes at the end are left out of the record.\<close>

record FIS_REG_H2D =
  fis_type :: u8
  pmport :: u8
  h2d_c :: u8
  fis_command :: u8
  featurel :: u8
  lba0 :: u8
  lba1 :: u8
  lba2 :: u8
  fis_device :: u8
  lba3 :: u8
  lba4 :: u8
  lba5 :: u8
  featureh :: u8
  countl :: u8
  counth :: u8
  icc :: u8
  fis_control :: u8

text \<open>The bit-fields hold the value modulo their width.\<close>

record cmd_list_slot =
  CFL :: u8
  flag_pwa :: u8
  flag_rcbr :: u8
  PMP :: u8
  PRDTL :: u16
  PRDBC :: u32
  CTBA :: u32
  CTBAU :: u32

record cmd_tab_item =
  dba :: u32
  dbau :: u32
  dbc :: u32
  item_i :: bool

definition zero_fis :: FIS_REG_H2D where
  "zero_fis = \<lparr>fis_type = 0, pmport = 0, h2d_c = 0, fis_command = 0, featurel = 0, lba0 = 0, lba1 = 0, lba2 = 0,
     fis_device = 0, lba3 = 0, lba4 = 0, lba5 = 0, featureh = 0, countl = 0, counth = 0, icc = 0, fis_control = 0\<rparr>"

definition build_cmd_tab_fis :: "u8 \<Rightarrow> u64 \<Rightarrow> u16 \<Rightarrow> FIS_REG_H2D" where
  "build_cmd_tab_fis cmd startlba count =
     (let fis = zero_fis\<lparr>fis_type := FIS_RH2D, h2d_c := 1, fis_command := cmd\<rparr>;
          fis = (if cmd = ATA_CMD_IDENTIFY_DEVICE then fis\<lparr>fis_device := 0\<rparr> else fis);
          fis = (if cmd = ATA_CMD_READ_DMA_EXT \<or> cmd = ATA_CMD_READ_DMA \<or>
                    cmd = ATA_CMD_WRITE_DMA_EXT \<or> cmd = ATA_CMD_WRITE_DMA
                 then fis\<lparr>fis_device := push_bit 6 1\<rparr> else fis);
          fis = fis\<lparr>lba0 := ucast startlba, lba1 := ucast (drop_bit 8 startlba),
                    lba2 := ucast (drop_bit 16 startlba), lba3 := ucast (drop_bit 24 startlba)\<rparr>;
          fis = fis\<lparr>lba4 := ucast (drop_bit 32 startlba)\<rparr>;
          fis = fis\<lparr>lba4 := ucast (drop_bit 40 startlba)\<rparr> in
      fis\<lparr>countl := ucast count, counth := ucast (drop_bit 8 count)\<rparr>)"

definition build_cmd_head :: "u8 \<Rightarrow> u16 \<Rightarrow> u32 \<Rightarrow> u8 \<Rightarrow> cmd_list_slot res" where
  "build_cmd_head cfl prdtl base cmd =
     rbind (ensure (cfl \<le> 0x10) Assert) (\<lambda>_.
     rbind (ensure (base AND 0x7f = 0) Assert) (\<lambda>_.
     Inr \<lparr>CFL = take_bit 5 cfl,
       flag_pwa = (if cmd = ATA_CMD_WRITE_DMA_EXT \<or> cmd = ATA_CMD_WRITE_DMA then 2 else 0),
       flag_rcbr = 0, PMP = 0, PRDTL = prdtl, PRDBC = 0, CTBA = take_bit 25 (drop_bit 7 base), CTBAU = 0\<rparr>))"

text \<open>\<open>phy\<close> is \<^verbatim>\<open>get_phy_addr\<close>, the translation of a mapped address.\<close>

definition build_cmd_tab_item :: "(u32 \<Rightarrow> u32) \<Rightarrow> u32 \<Rightarrow> u32 \<Rightarrow> cmd_tab_item res" where
  "build_cmd_tab_item phy buffer count =
     (let sz = push_bit 9 count in
      rbind (ensure (buffer AND 1 = 0) Assert) (\<lambda>_.
      Inr \<lparr>dba = phy buffer, dbau = 0, dbc = take_bit 22 (sz - 1), item_i = True\<rparr>))"

section \<open>Ports and devices\<close>

record 'h mmio =
  mm_rd :: "nat \<Rightarrow> 'h \<Rightarrow> u32 \<times> 'h"
  mm_wr :: "nat \<Rightarrow> u32 \<Rightarrow> 'h \<Rightarrow> 'h"

text \<open>\<open>r |= x\<close> and \<open>r &= ~x\<close>: a read and a write.\<close>

definition mm_upd :: "'h mmio \<Rightarrow> nat \<Rightarrow> (u32 \<Rightarrow> u32) \<Rightarrow> 'h \<Rightarrow> 'h" where
  "mm_upd io a f h = (let (v, h) = mm_rd io a h in mm_wr io a (f v) h)"

definition port_at :: "nat \<Rightarrow> port_reg \<Rightarrow> nat" where
  "port_at n r = HBA_PORT_BASE + HBA_PORT_SIZE * n + HBA_PORT_REG r"

text \<open>
  \<open>last_status = None\<close> is the initial \<open>-1\<close>. The command list is the array of heads, a table
  is what its head points to.
\<close>

record hba_port_t =
  port_num :: nat
  vPxCLB :: u32
  vPxFB :: u32
  last_status :: "send_status_t option"
  cmd_list :: "cmd_list_slot list"
  cmd_tabs :: "u32 \<Rightarrow> (FIS_REG_H2D \<times> cmd_tab_item) option"

record hba_dev_t =
  sata_serial :: "u8 list"
  sata_model :: "u8 list"
  dev_flags :: u32
  max_lba :: u64
  block_size :: u32
  block_per_sec :: u32
  wwn :: u64
  spd :: u8
  dev_data :: u32

definition hba_GHC_init :: "'h mmio \<Rightarrow> 'h \<Rightarrow> (u8 \<times> 'h) res" where
  "hba_GHC_init io h =
     (let (version, h) = mm_rd io HBA_REG_VS h; (g, h) = mm_rd io HBA_REG_GHC h in
      rbind (ensure (g AND HBA_GHC_AE \<noteq> 0) Assert) (\<lambda>_.
      let h = mm_upd io HBA_REG_GHC (\<lambda>v. v AND NOT HBA_GHC_IE) h;
          h = mm_wr io HBA_REG_IS (- 1) h;
          (cap, h) = mm_rd io HBA_REG_CAP h in
      Inr (ucast ((drop_bit 8 cap AND 0x1f) + 1), h)))"

text \<open>The wait for the engines of the port to stop.\<close>

partial_function (option) stop_wait :: "'h mmio \<Rightarrow> nat \<Rightarrow> 'h \<Rightarrow> 'h res option" where
  "stop_wait io n h =
     (let (c, h) = mm_rd io (port_at n PxCMD) h in
      if c AND HBA_PORT_CMD_FR \<noteq> 0 then stop_wait io n h
      else
        let (c, h) = mm_rd io (port_at n PxCMD) h in
        if c AND HBA_PORT_CMD_CR \<noteq> 0 then stop_wait io n h else Some (Inr h))"

text \<open>\<open>clb\<close> and \<open>fb\<close> are the blocks from \<^verbatim>\<open>malloc\<close>, \<open>heads\<close> what the first holds.\<close>

definition new_port :: "'h mmio \<Rightarrow> (u32 \<Rightarrow> u32) \<Rightarrow> nat \<Rightarrow> u32 \<Rightarrow> u32 \<Rightarrow> cmd_list_slot list \<Rightarrow> 'h \<Rightarrow> (hba_port_t \<times> 'h) res" where
  "new_port io phy n clb fb heads h =
     (let h = mm_upd io (port_at n PxCMD) (\<lambda>v. v AND NOT HBA_PORT_CMD_ST) h;
          h = mm_upd io (port_at n PxCMD) (\<lambda>v. v AND NOT HBA_PORT_CMD_FRE) h in
      rbind (run (stop_wait io n h)) (\<lambda>h.
      let h = mm_wr io (port_at n PxCI) 0 h;
          h = mm_wr io (port_at n PxCLB) (phy clb) h;
          h = mm_wr io (port_at n PxCLBU) 0 h;
          h = mm_wr io (port_at n PxFB) (phy fb) h;
          h = mm_wr io (port_at n PxFBU) 0 h;
          h = mm_wr io (port_at n PxSERR) (- 1) h;
          h = mm_wr io (port_at n PxIS) (- 1) h;
          h = mm_upd io (port_at n PxCMD) (\<lambda>v. v OR HBA_PORT_CMD_FRE) h;
          h = mm_upd io (port_at n PxIE) (\<lambda>v. v OR HBA_PORT_IE_DPE) h;
          h = mm_upd io (port_at n PxCMD) (\<lambda>v. v OR HBA_PORT_CMD_ST) h in
      Inr (\<lparr>port_num = n, vPxCLB = clb, vPxFB = fb, last_status = None, cmd_list = heads, cmd_tabs = (\<lambda>_. None)\<rparr>, h)))"

section \<open>Sending a command\<close>

text \<open>The search for a free slot reads the register in every round.\<close>

fun free_slot_loop :: "'h mmio \<Rightarrow> nat \<Rightarrow> nat list \<Rightarrow> 'h \<Rightarrow> nat \<times> 'h" where
  "free_slot_loop io n [] h = (32, h)"
| "free_slot_loop io n (slot # slots) h =
     (let (ci, h) = mm_rd io (port_at n PxCI) h in
      if drop_bit slot ci AND 1 = 0 then (slot, h) else free_slot_loop io n slots h)"

text \<open>\<open>tab\<close> is the block \<^verbatim>\<open>malloc\<close> returns for the table.\<close>

definition load_ata_cmd :: "'h mmio \<Rightarrow> (u32 \<Rightarrow> u32) \<Rightarrow> u32 \<Rightarrow> hba_dev_t \<Rightarrow> u8 \<Rightarrow> u64 \<Rightarrow> u16 \<Rightarrow> hba_port_t \<Rightarrow> 'h \<Rightarrow>
    (nat \<times> hba_port_t \<times> 'h) res" where
  "load_ata_cmd io phy tab dev cmd startlba count port h =
     (let (free_slot, h) = free_slot_loop io (port_num port) [0..<32] h in
      if free_slot = 32 then Inr (32, port, h)
      else
        rbind (ensure (dev_data dev \<noteq> 0) Assert) (\<lambda>_.
        rbind (build_cmd_head (20 div 4) 1 (phy tab) cmd) (\<lambda>head.
        rbind (arr_set (cmd_list port) free_slot head) (\<lambda>heads.
        rbind (build_cmd_tab_item phy (dev_data dev) (ucast count)) (\<lambda>item.
        Inr (free_slot, port\<lparr>cmd_list := heads,
          cmd_tabs := (cmd_tabs port)(phy tab \<mapsto> (build_cmd_tab_fis cmd startlba count, item))\<rparr>, h))))))"

text \<open>
  The first wait of \<^verbatim>\<open>try_send_cmd\<close> counts \<open>limit\<close> down but does not look at it; the second
  one does. \<^verbatim>\<open>limit\<close> is a \<^verbatim>\<open>time_t\<close>, 32 bits.
\<close>

partial_function (option) busy_wait :: "'h mmio \<Rightarrow> nat \<Rightarrow> u32 \<Rightarrow> 'h \<Rightarrow> (u32 \<times> 'h) res option" where
  "busy_wait io n limit h =
     (let (t, h) = mm_rd io (port_at n PxTFD) h in
      if t AND HBA_PORT_TFD_BSY \<noteq> 0 then busy_wait io n (limit - 1) h else Some (Inr (limit, h)))"

function done_wait :: "'h mmio \<Rightarrow> nat \<Rightarrow> u32 \<Rightarrow> u32 \<Rightarrow> 'h \<Rightarrow> u32 \<times> 'h" where
  "done_wait io n m limit h =
     (let (ci, h) = mm_rd io (port_at n PxCI) h in
      if ci AND m \<noteq> 0 \<and> limit \<noteq> 0 then done_wait io n m (limit - 1) h else (limit, h))"
  by pat_completeness auto
termination
  by (relation "measure (\<lambda>(io, n, m, limit, h). unat limit)") (auto simp: unat_minus_one unat_gt_0)

declare done_wait.simps [simp del]

definition set_status :: "send_status_t \<Rightarrow> hba_port_t \<Rightarrow> hba_port_t" where
  "set_status st port = port\<lparr>last_status := Some st\<rparr>"

text \<open>\<open>1 << slot\<close> on an \<^verbatim>\<open>int\<close>: for slot 32, no free slot, the processor shifts by 0.\<close>

definition slot_mask :: "nat \<Rightarrow> u32" where
  "slot_mask slot = push_bit (slot mod 32) 1"

definition send_polled :: "'h mmio \<Rightarrow> nat \<Rightarrow> hba_port_t \<Rightarrow> 'h \<Rightarrow> (send_status_t \<times> hba_port_t \<times> 'h) res" where
  "send_polled io slot port h =
     (let n = port_num port in
      rbind (run (busy_wait io n 0x100000 h)) (\<lambda>(limit, h).
      if limit = 0 then Inr (BUSY, set_status BUSY port, h)
      else
        let h = mm_wr io (port_at n PxIS) (- 1) h;
            h = mm_upd io (port_at n PxCI) (\<lambda>v. v OR (slot_mask slot)) h;
            (limit, h) = done_wait io n (slot_mask slot) 0x100000 h in
        if limit = 0 then
          let h = mm_upd io (port_at n PxCI) (\<lambda>v. v AND NOT (slot_mask slot)) h in
          Inr (GENERAL_ERROR, set_status GENERAL_ERROR port, h)
        else
          let h = mm_wr io (port_at n PxIS) (- 1) h; h = mm_wr io HBA_REG_IS (- 1) h in
          Inr (SUCCESSFUL, set_status SUCCESSFUL port, h)))"

text \<open>
  \<^verbatim>\<open>try_send_cmd\<close> where it polls: before the first task runs, and always on the disks of QEMU,
  whose serial number begins with \<^verbatim>\<open>QM00\<close>.
\<close>

definition try_send_cmd :: "'h mmio \<Rightarrow> nat \<Rightarrow> hba_port_t \<Rightarrow> 'h \<Rightarrow> (send_status_t \<times> hba_port_t \<times> 'h) res" where
  "try_send_cmd io slot port h =
     (let (sig, h) = mm_rd io (port_at (port_num port) PxSIG) h in
      if sig \<noteq> SATA_DEV_SIG then Inr (NOT_SATA, set_status NOT_SATA port, h) else send_polled io slot port h)"

definition sata_send_cmd :: "'h mmio \<Rightarrow> (u32 \<Rightarrow> u32) \<Rightarrow> u32 \<Rightarrow> hba_dev_t \<Rightarrow> u8 \<Rightarrow> u64 \<Rightarrow> u16 \<Rightarrow> hba_port_t \<Rightarrow> 'h \<Rightarrow>
    (send_status_t \<times> hba_port_t \<times> 'h) res" where
  "sata_send_cmd io phy tab dev cmd startlba count port h =
     rbind (load_ata_cmd io phy tab dev cmd startlba count port h) (\<lambda>(slot, port, h). try_send_cmd io slot port h)"

text \<open>\<^verbatim>\<open>__sata_io\<close> on the controller; the count reaches the command as 16 bits.\<close>

definition hba_io_cmd :: "hba_dev_t \<Rightarrow> bool \<Rightarrow> u8" where
  "hba_io_cmd dev RorW =
     (if dev_flags dev AND SATA_LBA_48_ENABLE \<noteq> 0
      then (if RorW then ATA_CMD_READ_DMA_EXT else ATA_CMD_WRITE_DMA_EXT)
      else (if RorW then ATA_CMD_READ_DMA else ATA_CMD_WRITE_DMA))"

definition hba_sata_io :: "'h mmio \<Rightarrow> (u32 \<Rightarrow> u32) \<Rightarrow> u32 \<Rightarrow> hba_dev_t \<Rightarrow> u32 \<Rightarrow> u64 \<Rightarrow> u32 \<Rightarrow> bool \<Rightarrow> hba_port_t \<Rightarrow> 'h \<Rightarrow>
    (int \<times> hba_dev_t \<times> hba_port_t \<times> 'h) res" where
  "hba_sata_io io phy tab dev buffer startlba sz RorW port h =
     rbind (ensure (startlba < max_lba dev) Assert) (\<lambda>_.
     let dev' = dev\<lparr>dev_data := buffer\<rparr> in
     rbind (sata_send_cmd io phy tab dev' (hba_io_cmd dev RorW) startlba (ucast sz) port h) (\<lambda>(_, port, h).
     Inr (if last_status port = Some SUCCESSFUL then 0 else EOF, dev', port, h)))"

section \<open>Identifying the disk\<close>

text \<open>The bytes of the 16-bit words, and words of 32 and 64 bits at a word index.\<close>

definition le_bytes :: "u16 list \<Rightarrow> u8 list" where
  "le_bytes ws = concat (map (\<lambda>w. [ucast w, ucast (drop_bit 8 w)]) ws)"

definition id32 :: "u16 list \<Rightarrow> nat \<Rightarrow> u32" where
  "id32 d i = ucast (d ! i) OR push_bit 16 (ucast (d ! (i + 1)))"

definition id64 :: "u16 list \<Rightarrow> nat \<Rightarrow> u64" where
  "id64 d i = ucast (id32 d i) OR push_bit 32 (ucast (id32 d (i + 2)))"

text \<open>The swap of the bytes \<open>i\<close> and \<open>i + 1\<close> of a string.\<close>

definition swap_at :: "nat \<Rightarrow> u8 list \<Rightarrow> u8 list res" where
  "swap_at i b =
     rbind (arr_get b i) (\<lambda>x. rbind (arr_get b (i + 1)) (\<lambda>y.
     rbind (swap_mem [x] [y] 1) (\<lambda>(x, y). Inr (b[i := hd x, i + 1 := hd y]))))"

definition id_string :: "u8 list \<Rightarrow> u16 list \<Rightarrow> nat \<Rightarrow> nat \<Rightarrow> u8 list res" where
  "id_string dest d first n =
     rbind (memcpy dest (drop (2 * first) (le_bytes d)) n) (\<lambda>b.
     rbind (for_each swap_at (map (\<lambda>i. 2 * i) [0..<n div 2]) b) (\<lambda>b. arr_set b n 0))"

definition prase_deviceinfo :: "hba_dev_t \<Rightarrow> u16 list \<Rightarrow> hba_dev_t res" where
  "prase_deviceinfo dev d =
     rbind (id_string (sata_serial dev) d 10 20) (\<lambda>serial.
     rbind (id_string (sata_model dev) d 27 40) (\<lambda>model.
     let bs = id32 d 117;
         dev = dev\<lparr>sata_serial := serial, sata_model := model, max_lba := ucast (id32 d 60),
           wwn := id64 d 108, block_per_sec := push_bit (unat (d ! 106 AND 0xf)) 1,
           block_size := (if bs = 0 then 512 else bs)\<rparr> in
     Inr (if d ! 83 AND 0x400 \<noteq> 0 then
            dev\<lparr>max_lba := (if d ! 69 AND 8 \<noteq> 0 then id64 d 230 else id64 d 100),
              dev_flags := dev_flags dev OR SATA_LBA_48_ENABLE\<rparr>
          else dev)))"

text \<open>
  \<open>idblock\<close> reads the block the controller has transferred into the buffer
  of 1024 bytes, \<open>raw\<close> is what the block for the device holds.
\<close>

definition new_hba_device :: "'h mmio \<Rightarrow> (u32 \<Rightarrow> u32) \<Rightarrow> u32 \<Rightarrow> u32 \<Rightarrow> ('h \<Rightarrow> u16 list) \<Rightarrow> hba_dev_t \<Rightarrow> u8 \<Rightarrow> hba_port_t \<Rightarrow> 'h \<Rightarrow>
    (hba_dev_t \<times> hba_port_t \<times> 'h) res" where
  "new_hba_device io phy tab buffer idblock raw speed port h =
     (let dev = raw\<lparr>spd := speed, dev_flags := 0, dev_data := buffer\<rparr> in
      rbind (sata_send_cmd io phy tab dev ATA_CMD_IDENTIFY_DEVICE 0 0 port h) (\<lambda>(_, port, h).
      rbind (prase_deviceinfo dev (idblock h)) (\<lambda>dev. Inr (dev\<lparr>dev_data := 0\<rparr>, port, h))))"

text \<open>
  The ports that \<^verbatim>\<open>hba_devices_init\<close> takes: \<^verbatim>\<open>pxssts & 0x3 == 3\<close> is \<^verbatim>\<open>pxssts & (0x3 == 3)\<close>.
\<close>

definition port_present :: "u32 \<Rightarrow> bool" where
  "port_present pxssts = (pxssts AND (if (0x3 :: int) = 3 then 1 else 0) \<noteq> 0 \<and> (ucast (drop_bit 4 pxssts AND 0xf) :: u8) \<noteq> 0)"

text \<open>\<open>mk\<close> sets up one device, \<^verbatim>\<open>new_hba_device(new_port(port), spd)\<close>.\<close>

fun devices_loop :: "'h mmio \<Rightarrow> (nat \<Rightarrow> u8 \<Rightarrow> 'h \<Rightarrow> ('d \<times> 'h) res) \<Rightarrow> u32 \<Rightarrow> nat list \<Rightarrow> 'd list \<Rightarrow> 'h \<Rightarrow> ('d list \<times> 'h) res" where
  "devices_loop io mk enable [] devs h = Inr (devs, h)"
| "devices_loop io mk enable (p # ps) devs h =
     (if drop_bit p enable AND 1 \<noteq> 0 then
        let (pxssts, h) = mm_rd io (port_at p PxSSTS) h in
        if port_present pxssts then
          rbind (mk p (ucast (drop_bit 4 pxssts AND 0xf)) h) (\<lambda>(d, h). devices_loop io mk enable ps (devs @ [d]) h)
        else devices_loop io mk enable ps devs h
      else devices_loop io mk enable ps devs h)"

definition hba_devices_init :: "'h mmio \<Rightarrow> (nat \<Rightarrow> u8 \<Rightarrow> 'h \<Rightarrow> ('d \<times> 'h) res) \<Rightarrow> 'h \<Rightarrow> ('d list \<times> 'h) res" where
  "hba_devices_init io mk h =
     (let (enable, h) = mm_rd io HBA_REG_PI h in devices_loop io mk enable [0..<32] [] h)"

end
