(* ===== verification/Hba_Theorems.thy ===== *)
theory Hba_Theorems
  imports Block_Device Hba
begin

text \<open>
  What the controller and the disk read out of the structures the driver builds, the
  identification data, and the wait for a busy disk.
\<close>

section \<open>Commands as the disk reads them\<close>

definition fis_lba48 :: "FIS_REG_H2D \<Rightarrow> nat" where
  "fis_lba48 f = unat (lba0 f) + 2 ^ 8 * unat (lba1 f) + 2 ^ 16 * unat (lba2 f) + 2 ^ 24 * unat (lba3 f)
     + 2 ^ 32 * unat (lba4 f) + 2 ^ 40 * unat (lba5 f)"

text \<open>A 28-bit command has the highest four bits in the device register.\<close>

definition fis_lba28 :: "FIS_REG_H2D \<Rightarrow> nat" where
  "fis_lba28 f = unat (lba0 f) + 2 ^ 8 * unat (lba1 f) + 2 ^ 16 * unat (lba2 f) + 2 ^ 24 * unat (fis_device f AND 0xf)"

text \<open>
  The count of a 48-bit command has 16 bits, that of a 28-bit command only the lower 8; a count
  of 0 stands for the largest one.
\<close>

definition fis_count48 :: "FIS_REG_H2D \<Rightarrow> nat" where
  "fis_count48 f = (let n = unat (countl f) + 2 ^ 8 * unat (counth f) in if n = 0 then 65536 else n)"

definition fis_count28 :: "FIS_REG_H2D \<Rightarrow> nat" where
  "fis_count28 f = (let n = unat (countl f) in if n = 0 then 256 else n)"

text \<open>The number of bytes a table entry transfers.\<close>

definition prd_bytes :: "cmd_tab_item \<Rightarrow> nat" where
  "prd_bytes it = unat (dbc it) + 1"

lemma unat_drop: "unat (drop_bit k x) = unat x div 2 ^ k" for x :: "'a::len word"
proof -
  have "unat x < 2 ^ LENGTH('a)" by simp
  then have "unat (drop_bit k x) = drop_bit k (unat x)" by (simp add: unsigned_drop_bit_eq take_bit_nat_eq_self)
  then show ?thesis using drop_bit_eq_div [of k "unat x"] by metis
qed

lemma unat_take: "unat (take_bit k x) = unat x mod 2 ^ k"
  by (metis take_bit_eq_mod unsigned_take_bit_eq)

lemma unat_byte: "unat (ucast x :: u8) = unat x mod 2 ^ 8"
  by (simp add: unsigned_ucast_eq take_bit_eq_mod)

lemma mod_plus_eq_iff: "x mod P + P * d = x \<longleftrightarrow> d = x div P" if "0 < P" for x P d :: nat
  by (metis add_left_cancel mod_mult_div_eq mult_left_cancel nat_neq_iff that)

lemma digits: "x mod 2 ^ 8 + 2 ^ 8 * (x div 2 ^ 8 mod 2 ^ 8) + 2 ^ 16 * (x div 2 ^ 16 mod 2 ^ 8) = x mod 2 ^ 24"
    "x mod 2 ^ 24 + 2 ^ 24 * (x div 2 ^ 24 mod 2 ^ 8) = x mod 2 ^ 32"
  for x :: nat
proof -
  have c: "x mod (a * b) = a * (x div a mod b) + x mod a" for a b :: nat by (rule mod_mult2_eq)
  show "x mod 2 ^ 8 + 2 ^ 8 * (x div 2 ^ 8 mod 2 ^ 8) + 2 ^ 16 * (x div 2 ^ 16 mod 2 ^ 8) = x mod 2 ^ 24"
    using c [of "2 ^ 16" "2 ^ 8"] c [of "2 ^ 8" "2 ^ 8"] by simp
  show "x mod 2 ^ 24 + 2 ^ 24 * (x div 2 ^ 24 mod 2 ^ 8) = x mod 2 ^ 32"
    using c [of "2 ^ 24" "2 ^ 8"] by simp
qed

lemma fis_fields:
  "lba0 (build_cmd_tab_fis cmd lba count) = ucast lba"
  "lba1 (build_cmd_tab_fis cmd lba count) = ucast (drop_bit 8 lba)"
  "lba2 (build_cmd_tab_fis cmd lba count) = ucast (drop_bit 16 lba)"
  "lba3 (build_cmd_tab_fis cmd lba count) = ucast (drop_bit 24 lba)"
  "lba4 (build_cmd_tab_fis cmd lba count) = ucast (drop_bit 40 lba)"
  "lba5 (build_cmd_tab_fis cmd lba count) = 0"
  "countl (build_cmd_tab_fis cmd lba count) = ucast count"
  "counth (build_cmd_tab_fis cmd lba count) = ucast (drop_bit 8 count)"
  "fis_command (build_cmd_tab_fis cmd lba count) = cmd"
  by (simp_all add: build_cmd_tab_fis_def Let_def zero_fis_def)

lemma fis_lba48_eq: "fis_lba48 (build_cmd_tab_fis cmd lba count) = unat lba mod 2 ^ 32 + 2 ^ 32 * (unat lba div 2 ^ 40 mod 2 ^ 8)"
  using digits [of "unat lba"] by (simp add: fis_lba48_def fis_fields unat_byte unat_drop)

lemma fis_lba48_iff: "fis_lba48 (build_cmd_tab_fis cmd lba count) = unat lba \<longleftrightarrow> unat lba < 2 ^ 32"
proof -
  let ?x = "unat lba"
  have "fis_lba48 (build_cmd_tab_fis cmd lba count) = ?x \<longleftrightarrow> ?x div 2 ^ 40 mod 2 ^ 8 = ?x div 2 ^ 32"
    unfolding fis_lba48_eq by (rule mod_plus_eq_iff) simp
  also have "\<dots> \<longleftrightarrow> ?x div 2 ^ 32 = 0"
  proof
    let ?y = "?x div 2 ^ 32"
    have d: "?x div 2 ^ 40 = ?y div 2 ^ 8" by (simp flip: div_mult2_eq)
    assume "?x div 2 ^ 40 mod 2 ^ 8 = ?y"
    then have e: "?y div 2 ^ 8 mod 2 ^ 8 = ?y" by (simp add: d)
    then have "?y < 2 ^ 8" by (metis mod_less_divisor zero_less_numeral zero_less_power)
    then have "?y div 2 ^ 8 = 0" by simp
    with e show "?y = 0" by simp
  qed simp
  finally show ?thesis by (simp add: div_eq_0_iff)
qed

lemma fis_lba28_eq:
  assumes "cmd \<in> {ATA_CMD_READ_DMA, ATA_CMD_WRITE_DMA}"
  shows "fis_lba28 (build_cmd_tab_fis cmd lba count) = unat lba mod 2 ^ 24"
proof -
  have "fis_device (build_cmd_tab_fis cmd lba count) = 0x40"
    using assms by (auto simp: build_cmd_tab_fis_def Let_def ata_cmds)
  then show ?thesis
    using digits(1) [of "unat lba"] by (simp add: fis_lba28_def fis_fields unat_byte unat_drop)
qed

lemma fis_lba28_iff:
  assumes "cmd \<in> {ATA_CMD_READ_DMA, ATA_CMD_WRITE_DMA}"
  shows "fis_lba28 (build_cmd_tab_fis cmd lba count) = unat lba \<longleftrightarrow> unat lba < 2 ^ 24"
  unfolding fis_lba28_eq [OF assms] by (metis mod_less mod_less_divisor zero_less_numeral zero_less_power)

text \<open>The sectors \<open>sata_io\<close> of \<open>Block_Device\<close> copies are those in the commands for the disk.\<close>

lemma sent_sector_commands:
  assumes "0 \<le> lba" "lba < 2 ^ 32"
  shows "fis_lba48 (build_cmd_tab_fis cmd (word_of_int lba) count) = sent_sector True lba"
    "cmd \<in> {ATA_CMD_READ_DMA, ATA_CMD_WRITE_DMA} \<Longrightarrow>
       fis_lba28 (build_cmd_tab_fis cmd (word_of_int lba) count) = sent_sector False lba"
proof -
  have u: "unat (word_of_int lba :: u64) = nat lba"
    using assms by (simp add: unsigned_of_int take_bit_int_eq_self)
  have n: "nat lba < 2 ^ 32" using assms(2) by (simp add: nat_less_iff)
  then have "nat lba div 2 ^ 40 = 0" by simp
  then show "fis_lba48 (build_cmd_tab_fis cmd (word_of_int lba) count) = sent_sector True lba"
    using n unfolding fis_lba48_eq u sent_sector_def by simp
  show "fis_lba28 (build_cmd_tab_fis cmd (word_of_int lba) count) = sent_sector False lba"
    if "cmd \<in> {ATA_CMD_READ_DMA, ATA_CMD_WRITE_DMA}"
    unfolding fis_lba28_eq [OF that] u sent_sector_def using assms(1) by (simp add: nat_mod_distrib)
qed

lemma prd_bytes_eq:
  fixes count :: u16
  assumes "build_cmd_tab_item phy buffer (ucast count) = Inr it"
  shows "prd_bytes it = 512 * unat count \<longleftrightarrow> 1 \<le> unat count \<and> unat count \<le> 8192"
proof -
  let ?c = "unat count"
  have c: "?c < 65536" using unsigned_less [of count] by simp
  have u: "unat (push_bit 9 (ucast count) :: u32) = 512 * ?c"
    using c by (simp add: push_bit_eq_mult unat_word_ariths unsigned_ucast_eq take_bit_nat_eq_self)
  have it: "dbc it = take_bit 22 (push_bit 9 (ucast count) - 1)" using assms by (auto simp: build_cmd_tab_item_def Let_def)
  show ?thesis
  proof (cases "?c = 0")
    case True
    then have "dbc it = take_bit 22 (- 1)" by (simp add: it unat_eq_0)
    with True show ?thesis by (simp add: prd_bytes_def)
  next
    case False
    then have "unat (push_bit 9 (ucast count) - 1 :: u32) = 512 * ?c - 1"
      using u by (subst unat_minus_one) auto
    then have "unat (dbc it) = (512 * ?c - 1) mod 2 ^ 22" by (simp only: it unat_take)
    then have "prd_bytes it = 512 * ?c \<longleftrightarrow> (512 * ?c - 1) mod 2 ^ 22 = 512 * ?c - 1"
      using False unfolding prd_bytes_def by linarith
    also have "\<dots> \<longleftrightarrow> 512 * ?c - 1 < 2 ^ 22" by (metis mod_less mod_less_divisor zero_less_numeral zero_less_power)
    finally show ?thesis using False by auto
  qed
qed

lemma fis_count48_iff: "fis_count48 (build_cmd_tab_fis cmd lba count) = unat count \<longleftrightarrow> 1 \<le> unat count"
proof -
  have c: "unat count < 65536" using unsigned_less [of count] by simp
  have "unat count mod 2 ^ 8 + 2 ^ 8 * (unat count div 2 ^ 8 mod 2 ^ 8) = unat count mod 2 ^ 16"
    using mod_mult2_eq [of "unat count" "2 ^ 8" "2 ^ 8"] by simp
  also have "\<dots> = unat count" using c by simp
  finally show ?thesis using c by (simp add: fis_count48_def fis_fields unat_byte unat_drop Let_def)
qed

lemma fis_count28_iff:
  "fis_count28 (build_cmd_tab_fis cmd lba count) = unat count \<longleftrightarrow> 1 \<le> unat count \<and> unat count \<le> 256"
proof -
  let ?c = "unat count"
  have m: "?c mod 256 < 256" by simp
  have "fis_count28 (build_cmd_tab_fis cmd lba count) = (if ?c mod 256 = 0 then 256 else ?c mod 256)"
    by (simp add: fis_count28_def fis_fields unat_byte Let_def)
  moreover have "?c mod 256 = ?c \<longleftrightarrow> ?c < 256" using m by (metis mod_less)
  ultimately show ?thesis by (cases "?c = 256") auto
qed



section \<open>Identification\<close>

text \<open>The bytes of a string in the order the disk stores them: each word has the first character high.\<close>

fun swap_pairs :: "'a list \<Rightarrow> 'a list" where
  "swap_pairs (x # y # r) = y # x # swap_pairs r"
| "swap_pairs r = r"

fun ata_words :: "u8 list \<Rightarrow> u16 list" where
  "ata_words (x # y # r) = (push_bit 8 (ucast x) OR ucast y) # ata_words r"
| "ata_words r = []"

lemma length_swap_pairs [simp]: "length (swap_pairs xs) = length xs"
  by (induction xs rule: swap_pairs.induct) auto

lemma swap_pairs_snoc: "even (length xs) \<Longrightarrow> swap_pairs (xs @ [x, y]) = swap_pairs xs @ [y, x]"
  by (induction xs rule: swap_pairs.induct) auto

lemma swap_pairs_twice [simp]: "swap_pairs (swap_pairs xs) = xs"
  by (induction xs rule: swap_pairs.induct) auto

lemma word_bytes:
  "(ucast (push_bit 8 (ucast x) OR ucast y :: u16) :: u8) = y"
  "(ucast (drop_bit 8 (push_bit 8 (ucast x) OR ucast y :: u16)) :: u8) = x" for x y :: u8
  by (rule bit_word_eqI; auto simp: bit_simps dest: bit_imp_le_length)+

lemma le_bytes_Cons: "le_bytes (w # d) = ucast w # ucast (drop_bit 8 w) # le_bytes d" "le_bytes [] = []"
  by (simp_all add: le_bytes_def)

lemma le_bytes_ata_words: "even (length s) \<Longrightarrow> le_bytes (ata_words s) = swap_pairs s"
proof (induction s rule: ata_words.induct)
  case (1 x y r)
  then show ?case unfolding ata_words.simps le_bytes_Cons word_bytes swap_pairs.simps by simp
qed (simp_all add: le_bytes_Cons)

lemma length_le_bytes [simp]: "length (le_bytes d) = 2 * length d"
  by (induction d) (auto simp: le_bytes_Cons)

lemma le_bytes_drop: "drop (2 * k) (le_bytes d) = le_bytes (drop k d)"
proof (induction k arbitrary: d)
  case (Suc k)
  then show ?case by (cases d) (simp_all add: le_bytes_Cons)
qed simp

lemma le_bytes_take: "take (2 * k) (le_bytes d) = le_bytes (take k d)"
proof (induction k arbitrary: d)
  case (Suc k)
  then show ?case by (cases d) (simp_all add: le_bytes_Cons)
qed (simp add: le_bytes_Cons)

lemma swap_at_eq: "i + 1 < length b \<Longrightarrow> swap_at i b = Inr (b[i := b ! (i + 1), i + 1 := b ! i])"
  by (simp add: swap_at_def)

lemma swap_loop_eq:
  "2 * k \<le> length b \<Longrightarrow> for_each swap_at (map (\<lambda>i. 2 * i) [0..<k]) b = Inr (swap_pairs (take (2 * k) b) @ drop (2 * k) b)"
proof (induction k)
  case (Suc k)
  define xs x y r where "xs = take (2 * k) b" and "x = b ! (2 * k)" and "y = b ! (2 * k + 1)" and "r = drop (2 * k + 2) b"
  have b: "b = xs @ x # y # r" and l: "length xs = 2 * k"
    using Suc.prems by (simp_all add: xs_def x_def y_def r_def Cons_nth_drop_Suc)
  have "for_each swap_at (map (\<lambda>i. 2 * i) [0..<k]) b = Inr (swap_pairs xs @ x # y # r)"
    using Suc by (simp add: b l)
  moreover have "swap_at (2 * k) (swap_pairs xs @ x # y # r) = Inr (swap_pairs xs @ y # x # r)"
    by (subst swap_at_eq) (simp_all add: l nth_append list_update_append)
  moreover have "swap_pairs (take (2 * Suc k) b) @ drop (2 * Suc k) b = swap_pairs xs @ y # x # r"
    using swap_pairs_snoc [of xs x y] l by (simp add: b)
  ultimately show ?case by (simp add: for_each_append)
qed simp

lemma id_string_eq:
  assumes "length dest = 2 * k + 1" "take k (drop first d) = ata_words s" "length s = 2 * k" "first + k \<le> length d"
  shows "id_string dest d first (2 * k) = Inr (s @ [0])"
proof -
  have "take (2 * k) (drop (2 * first) (le_bytes d)) = swap_pairs s"
    using assms(2,3) by (simp add: le_bytes_drop le_bytes_take le_bytes_ata_words)
  then have m: "memcpy dest (drop (2 * first) (le_bytes d)) (2 * k) = Inr (swap_pairs s @ drop (2 * k) dest)"
    using assms by (simp add: memcpy_spec)
  have "length (drop (2 * k) dest) = Suc 0" using assms(1) by simp
  then obtain z where z: "drop (2 * k) dest = [z]" by (metis length_0_conv length_Suc_conv)
  have "for_each swap_at (map (\<lambda>i. 2 * i) [0..<k]) (swap_pairs s @ [z]) = Inr (s @ [z])"
    using swap_loop_eq [of k "swap_pairs s @ [z]"] assms(3) by simp
  with m z assms(3) show ?thesis by (simp add: id_string_def list_update_append)
qed

text \<open>
  C33: The serial number and the model that a disk stores in its identification data, two
  characters to a word with the first one high, are read back as C strings, and the size of
  a sector is never 0.
\<close>

theorem identify_roundtrip:
  assumes "length (sata_serial dev) = 21" "length (sata_model dev) = 41" "length d = 256"
    and "take 10 (drop 10 d) = ata_words serial" "length serial = 20"
    and "take 20 (drop 27 d) = ata_words model" "length model = 40"
  shows "\<exists>dev'. prase_deviceinfo dev d = Inr dev' \<and> sata_serial dev' = serial @ [0] \<and> sata_model dev' = model @ [0] \<and>
    block_size dev' \<noteq> 0"
proof -
  have "id_string (sata_serial dev) d 10 20 = Inr (serial @ [0])"
    using id_string_eq [of "sata_serial dev" 10 10 d serial] assms by simp
  moreover have "id_string (sata_model dev) d 27 40 = Inr (model @ [0])"
    using id_string_eq [of "sata_model dev" 20 27 d model] assms by simp
  ultimately show ?thesis by (simp add: prase_deviceinfo_def Let_def)
qed

definition ex_disk :: hba_dev_t where
  "ex_disk = \<lparr>sata_serial = replicate 21 7, sata_model = replicate 41 7, dev_flags = 0, max_lba = 0, block_size = 0,
     block_per_sec = 0, wwn = 0, spd = 1, dev_data = 0x2000\<rparr>"

definition ex_serial :: "u8 list" where "ex_serial = [0x51, 0x4D] @ replicate 18 0x30"

definition ex_ident :: "u16 list" where
  "ex_ident = replicate 10 0 @ ata_words ex_serial @ replicate 7 0 @ ata_words (replicate 40 0x20) @ replicate 209 0"

theorem identify_roundtrip_witness:
  "\<exists>dev'. prase_deviceinfo ex_disk ex_ident = Inr dev' \<and> sata_serial dev' = ex_serial @ [0] \<and> block_size dev' \<noteq> 0"
proof -
  have l: "length (ata_words s) = length s div 2" for s by (induction s rule: ata_words.induct) auto
  have "length ex_serial = 20" by (simp add: ex_serial_def)
  then have "take 10 (drop 10 ex_ident) = ata_words ex_serial" "take 20 (drop 27 ex_ident) = ata_words (replicate 40 0x20)"
      "length ex_ident = 256"
    by (simp_all add: ex_ident_def l)
  with \<open>length ex_serial = 20\<close> show ?thesis
    using identify_roundtrip [of ex_disk ex_ident ex_serial "replicate 40 0x20"] by (auto simp: ex_disk_def)
qed

section \<open>Waiting for the disk\<close>

lemma busy_wait_never:
  assumes "\<And>h. fst (mm_rd io (port_at n PxTFD) h) AND HBA_PORT_TFD_BSY \<noteq> 0"
  shows "busy_wait io n limit h = None"
proof -
  have "busy_wait io n limit h = Some y \<Longrightarrow> \<not> (\<forall>h. fst (mm_rd io (port_at n PxTFD) h) AND HBA_PORT_TFD_BSY \<noteq> 0)" for y
    by (erule busy_wait.raw_induct [rotated]) (auto split: prod.splits if_splits, metis fst_conv)
  with assms show ?thesis by (cases "busy_wait io n limit h") auto
qed

text \<open>
  C34: The first wait of \<^verbatim>\<open>try_send_cmd\<close> has no bound: on a disk that stays busy it never
  returns, although the code after it reports \<^verbatim>\<open>_BUSY\<close>. On a disk that is not busy and takes
  the command at once the result is \<^verbatim>\<open>SUCCESSFUL\<close>, and \<^verbatim>\<open>GENERAL_ERROR\<close> on one that never
  takes it.
\<close>

theorem polling_busy_disk:
  assumes "\<forall>h. fst (mm_rd io (port_at (port_num port) PxSIG) h) = SATA_DEV_SIG"
  shows "((\<forall>h. fst (mm_rd io (port_at (port_num port) PxTFD) h) AND HBA_PORT_TFD_BSY \<noteq> 0) \<longrightarrow>
      try_send_cmd io slot port h = Inl Hang) \<and>
    ((\<forall>h. fst (mm_rd io (port_at (port_num port) PxTFD) h) AND HBA_PORT_TFD_BSY = 0) \<longrightarrow>
      ((\<forall>h. fst (mm_rd io (port_at (port_num port) PxCI) h) AND slot_mask slot = 0) \<longrightarrow>
        (\<exists>h'. try_send_cmd io slot port h = Inr (SUCCESSFUL, set_status SUCCESSFUL port, h'))) \<and>
      ((\<forall>h. fst (mm_rd io (port_at (port_num port) PxCI) h) AND slot_mask slot \<noteq> 0) \<longrightarrow>
        (\<exists>h'. try_send_cmd io slot port h = Inr (GENERAL_ERROR, set_status GENERAL_ERROR port, h'))))"
proof -
  let ?n = "port_num port"
  obtain h0 where sig: "mm_rd io (port_at ?n PxSIG) h = (SATA_DEV_SIG, h0)" using assms by (metis prod.collapse)
  have idle: "\<exists>h1. busy_wait io ?n l h' = Some (Inr (l, h1))"
    if "\<forall>h. fst (mm_rd io (port_at ?n PxTFD) h) AND HBA_PORT_TFD_BSY = 0" for l h'
    using that by (subst busy_wait.simps) (auto split: prod.splits, metis fst_conv)
  have taken: "\<exists>h1. done_wait io ?n m l h' = (l, h1)"
    if "\<forall>h. fst (mm_rd io (port_at ?n PxCI) h) AND m = 0" for m l h'
    using that by (subst done_wait.simps) (auto split: prod.splits, metis fst_conv)
  have never: "\<exists>h1. done_wait io ?n m l h' = (0, h1)"
    if "\<forall>h. fst (mm_rd io (port_at ?n PxCI) h) AND m \<noteq> 0" for m l h'
    using that
  proof (induction io n \<equiv> ?n m l h' rule: done_wait.induct)
    case (1 io m l h')
    show ?case
    proof (cases "l = 0")
      case True
      then show ?thesis by (subst done_wait.simps) (simp split: prod.splits)
    next
      case False
      obtain ci h2 where r: "mm_rd io (port_at ?n PxCI) h' = (ci, h2)" by force
      moreover have "ci AND m \<noteq> 0" using 1(2) r by (metis fst_conv)
      ultimately show ?thesis using 1(1) [OF r [symmetric]] 1(2) False by (subst done_wait.simps) simp
    qed
  qed
  let ?m = "slot_mask slot"
  let ?h2 = "\<lambda>h1. mm_upd io (port_at ?n PxCI) (\<lambda>v. v OR ?m) (mm_wr io (port_at ?n PxIS) (- 1) h1)"
  have "try_send_cmd io slot port h = Inl Hang"
    if "\<forall>h. fst (mm_rd io (port_at ?n PxTFD) h) AND HBA_PORT_TFD_BSY \<noteq> 0"
    using busy_wait_never [of io ?n "0x100000" h0] that by (simp add: try_send_cmd_def send_polled_def Let_def sig)
  moreover have "\<exists>h'. try_send_cmd io slot port h = Inr (SUCCESSFUL, set_status SUCCESSFUL port, h')"
    if i: "\<forall>h. fst (mm_rd io (port_at ?n PxTFD) h) AND HBA_PORT_TFD_BSY = 0"
      and c: "\<forall>h. fst (mm_rd io (port_at ?n PxCI) h) AND ?m = 0"
  proof -
    from idle [OF i] obtain h1 where b: "busy_wait io ?n 0x100000 h0 = Some (Inr (0x100000, h1))" by blast
    from taken [OF c] obtain h3 where "done_wait io ?n ?m 0x100000 (?h2 h1) = (0x100000, h3)" by blast
    with b sig show ?thesis by (simp add: try_send_cmd_def send_polled_def Let_def)
  qed
  moreover have "\<exists>h'. try_send_cmd io slot port h = Inr (GENERAL_ERROR, set_status GENERAL_ERROR port, h')"
    if i: "\<forall>h. fst (mm_rd io (port_at ?n PxTFD) h) AND HBA_PORT_TFD_BSY = 0"
      and c: "\<forall>h. fst (mm_rd io (port_at ?n PxCI) h) AND ?m \<noteq> 0"
  proof -
    from idle [OF i] obtain h1 where b: "busy_wait io ?n 0x100000 h0 = Some (Inr (0x100000, h1))" by blast
    from never [OF c] obtain h3 where "done_wait io ?n ?m 0x100000 (?h2 h1) = (0, h3)" by blast
    with b sig show ?thesis by (simp add: try_send_cmd_def send_polled_def Let_def)
  qed
  ultimately show ?thesis by blast
qed

text \<open>A controller whose registers are constants.\<close>

definition ex_mmio :: "(nat \<Rightarrow> u32) \<Rightarrow> unit mmio" where
  "ex_mmio r = \<lparr>mm_rd = (\<lambda>a h. (r a, h)), mm_wr = (\<lambda>a v h. h)\<rparr>"

definition ex_port :: hba_port_t where
  "ex_port = \<lparr>port_num = 0, vPxCLB = 0, vPxFB = 0, last_status = None, cmd_list = [], cmd_tabs = (\<lambda>_. None)\<rparr>"

theorem polling_busy_disk_witness:
  "try_send_cmd (ex_mmio (\<lambda>a. if a = 0x124 then 0x101 else 0x80)) 0 ex_port () = Inl Hang \<and>
   (\<exists>h'. try_send_cmd (ex_mmio (\<lambda>a. if a = 0x124 then 0x101 else 0)) 0 ex_port () =
     Inr (SUCCESSFUL, set_status SUCCESSFUL ex_port, h'))"
  using polling_busy_disk [of "ex_mmio (\<lambda>a. if a = 0x124 then 0x101 else 0x80)" ex_port 0 "()"]
    polling_busy_disk [of "ex_mmio (\<lambda>a. if a = 0x124 then 0x101 else 0)" ex_port 0 "()"]
  by (simp add: ex_mmio_def ex_port_def port_at_def HBA_PORT_BASE_def HBA_PORT_SIZE_def SATA_DEV_SIG_def HBA_PORT_TFD_BSY_def)

end
