(* ===== verification/Interrupts.thy ===== *)
theory Interrupts
  imports Pci CString Kernel_Pages
begin

text \<open>
  Interrupts: the tables of the firmware in \<^verbatim>\<open>kernel/bios.c\<close> and \<^verbatim>\<open>acpi.c\<close>, the interrupt
  controllers in \<^verbatim>\<open>apic.c\<close> and the descriptor table and handlers in \<^verbatim>\<open>interrupt.c\<close>.
  Physical memory, which these read before paging is on, is a function from addresses to
  bytes. The I/O APIC is its file of registers behind a selector, the local APIC a function
  from register offsets to words.
\<close>

section \<open>State\<close>

datatype handler = Null_handler | Sys_exception | Default_exception | Page_fault | Handler nat

record gate_t =
  offset_l :: u16
  gate_selector :: u16
  gate_type :: u8
  gate_segment :: u8
  gate_DPL :: u8
  gate_present :: u8
  offset_h :: u16

record intr = pci_ports +
  idt_table :: "gate_t list"
  interrupt_func_table :: "handler list"
  irq_override_tab :: "(u8 \<times> u8) list"
  lapic_base :: u32
  ioapic_addr :: u32
  ioapic_sel :: u32
  ioapic_regs :: "u32 \<Rightarrow> u32"
  lapic :: "u32 \<Rightarrow> u32"
  pic_masks :: "u8 \<times> u8"

definition INT_SIZE :: nat where "INT_SIZE = 0x40"
definition IDT_SIZE :: nat where "IDT_SIZE = 256"
definition START_INT_NUM :: u8 where "START_INT_NUM = 0x20"
definition INTEL_INT_RESERVED :: nat where "INTEL_INT_RESERVED = 0x20"
definition IOREDTBL_MASK :: u32 where "IOREDTBL_MASK = push_bit 16 1"
definition IRQ_OVERRIDE_NR :: nat where "IRQ_OVERRIDE_NR = 16"

section \<open>Firmware tables\<close>

definition RSDP_SIG_L :: u32 where "RSDP_SIG_L = 0x20445352"

definition mem32 :: "(u32 \<Rightarrow> u8) \<Rightarrow> u32 \<Rightarrow> u32" where
  "mem32 m a = ucast (m a) OR push_bit 8 (ucast (m (a + 1))) OR push_bit 16 (ucast (m (a + 2))) OR push_bit 24 (ucast (m (a + 3)))"

definition REDP_checksum :: "(u32 \<Rightarrow> u8) \<Rightarrow> u32 \<Rightarrow> bool" where
  "REDP_checksum m RSDP = (fold (\<lambda>i sum. sum + m (RSDP + word_of_nat i)) [0..<20] 0 = 0)"

fun find_RSDP_loop :: "(u32 \<Rightarrow> u8) \<Rightarrow> nat list \<Rightarrow> u32" where
  "find_RSDP_loop m [] = BIOS_MEM_SIZE"
| "find_RSDP_loop m (p # ps) =
     (if mem32 m (word_of_nat p) = RSDP_SIG_L \<and> REDP_checksum m (word_of_nat p) then word_of_nat p else find_RSDP_loop m ps)"

text \<open>The addresses from \<^verbatim>\<open>0xE0000\<close> to \<^verbatim>\<open>BIOS_MEM_SIZE\<close> in steps of 16.\<close>

definition find_RSDP :: "(u32 \<Rightarrow> u8) \<Rightarrow> u32" where
  "find_RSDP m = find_RSDP_loop m (map (\<lambda>i. 0xE0000 + 16 * i) [0..<0x2000])"

definition find_RSDT :: "(u32 \<Rightarrow> u8) \<Rightarrow> u32" where
  "find_RSDT m = (let RSDP = find_RSDP m in if RSDP \<noteq> BIOS_MEM_SIZE then mem32 m (RSDP + 16) else BIOS_MEM_SIZE)"

text \<open>The signature of a table, as the four bytes \<^verbatim>\<open>strcmp\<close> looks at.\<close>

fun find_MADT_entry :: "(u32 \<Rightarrow> u8) \<Rightarrow> u32 \<Rightarrow> nat list \<Rightarrow> u32 res" where
  "find_MADT_entry m RSDT [] = Inr BIOS_MEM_SIZE"
| "find_MADT_entry m RSDT (i # is) =
     (let e = mem32 m (RSDT + 36 + 4 * word_of_nat i) in
      rbind (strcmp (map (\<lambda>k. m (e + word_of_nat k)) [0..<4]) [0x41, 0x50, 0x49, 0x43, 0] 4) (\<lambda>eq.
      if eq then Inr e else find_MADT_entry m RSDT is))"

text \<open>The count of entries is unsigned; a shorter table wraps it, and the loop compares unsigned.\<close>

definition find_MADT :: "(u32 \<Rightarrow> u8) \<Rightarrow> u32 res" where
  "find_MADT m =
     (let RSDT = find_RSDT m in
      rbind (ensure (RSDT \<noteq> BIOS_MEM_SIZE) Assert) (\<lambda>_.
      let entry_cnt = (mem32 m (RSDT + 4) - 36) div 4 in
      find_MADT_entry m RSDT [0..<unat entry_cnt]))"

text \<open>
  The structures of the MADT: an I/O APIC sets the addresses of its registers, a source
  override goes into the next row of the table, which has 16.
\<close>

partial_function (option) madt_loop :: "(u32 \<Rightarrow> u8) \<Rightarrow> u32 \<Rightarrow> u32 \<Rightarrow> 'a intr_scheme \<Rightarrow> 'a intr_scheme res option" where
  "madt_loop m ics lim s =
     (if ics < lim then
        if m ics = 2 \<and> length (irq_override_tab s) \<ge> IRQ_OVERRIDE_NR then Some (Inl Fault)
        else
          let s = (if m ics = 1 then s\<lparr>ioapic_addr := mem32 m (ics + 4)\<rparr>
                   else if m ics = 2 then
                     s\<lparr>irq_override_tab := irq_override_tab s @ [(m (ics + 3), ucast (mem32 m (ics + 4)))]\<rparr>
                   else s) in
          madt_loop m (ics + ucast (m (ics + 1))) lim s
      else Some (Inr s))"

definition find_IOAPICS :: "(u32 \<Rightarrow> u8) \<Rightarrow> 'a intr_scheme \<Rightarrow> 'a intr_scheme res" where
  "find_IOAPICS m s =
     rbind (find_MADT m) (\<lambda>MADT.
     run (madt_loop m (MADT + 44) (MADT + mem32 m (MADT + 4))
       (s\<lparr>lapic_base := mem32 m (MADT + 36), irq_override_tab := []\<rparr>)))"

definition acpi_init :: "(u32 \<Rightarrow> u8) \<Rightarrow> 'a intr_scheme \<Rightarrow> 'a intr_scheme res" where
  "acpi_init = find_IOAPICS"

section \<open>Interrupt controllers\<close>

definition irq_override :: "u8 \<Rightarrow> 'a intr_scheme \<Rightarrow> u8" where
  "irq_override old_irq s =
     (case find (\<lambda>(from, to). old_irq = from) (irq_override_tab s) of None \<Rightarrow> old_irq | Some (from, to) \<Rightarrow> to)"

definition ioapic_reg_read :: "u32 \<Rightarrow> 'a intr_scheme \<Rightarrow> u32 \<times> 'a intr_scheme" where
  "ioapic_reg_read offset s = (let s = s\<lparr>ioapic_sel := offset\<rparr> in (ioapic_regs s (ioapic_sel s), s))"

definition ioapic_reg_write :: "u32 \<Rightarrow> u32 \<Rightarrow> 'a intr_scheme \<Rightarrow> 'a intr_scheme" where
  "ioapic_reg_write offset v s =
     (let s = s\<lparr>ioapic_sel := offset\<rparr> in s\<lparr>ioapic_regs := (ioapic_regs s)(ioapic_sel s := v)\<rparr>)"

definition set_ioredtbl :: "u8 \<Rightarrow> u8 \<Rightarrow> u32 \<Rightarrow> u8 \<Rightarrow> 'a intr_scheme \<Rightarrow> 'a intr_scheme" where
  "set_ioredtbl irq dest flag vector s =
     (let offset = ucast irq * 2 + 0x10; flag = flag AND 0x1ff00;
          s = ioapic_reg_write offset (ucast vector OR flag) s in
      ioapic_reg_write (offset + 1) (push_bit 24 (ucast dest)) s)"

definition disable_pic :: "'a intr_scheme \<Rightarrow> 'a intr_scheme" where
  "disable_pic s = s\<lparr>pic_masks := (0xff, 0xff)\<rparr>"

definition IA32_APIC_SOFTWARE_ENABLE :: u32 where "IA32_APIC_SOFTWARE_ENABLE = 0x100"
definition IA32_APIC_LVT_MASK :: u32 where "IA32_APIC_LVT_MASK = 0x10000"

text \<open>
  The registers of the local APIC that \<^verbatim>\<open>lapic_init\<close> changes; the mapping of its page, by
  \<^verbatim>\<open>link_nppage\<close>, and the enable bit of the model specific register are not part of this state.
\<close>

definition lapic_or :: "u32 \<Rightarrow> u32 \<Rightarrow> 'a intr_scheme \<Rightarrow> 'a intr_scheme" where
  "lapic_or r v s = s\<lparr>lapic := (lapic s)(r := lapic s r OR v)\<rparr>"

definition lapic_init :: "'a intr_scheme \<Rightarrow> 'a intr_scheme" where
  "lapic_init s =
     (let s = lapic_or 0x320 IA32_APIC_LVT_MASK s;
          s = lapic_or 0x2f0 IA32_APIC_LVT_MASK s;
          s = lapic_or 0x350 251 s;
          s = lapic_or 0x360 IA32_APIC_LVT_MASK s;
          s = lapic_or 0x370 IA32_APIC_LVT_MASK s;
          s = lapic_or 0x340 IA32_APIC_LVT_MASK s;
          s = lapic_or 0x330 IA32_APIC_LVT_MASK s;
          s = s\<lparr>lapic := (lapic s)(0x80 := lapic s 0x80 AND push_bit 4 2)\<rparr> in
      lapic_or 0xf0 IA32_APIC_SOFTWARE_ENABLE s)"

definition lapic_send_eoi :: "'a intr_scheme \<Rightarrow> 'a intr_scheme" where
  "lapic_send_eoi s = s\<lparr>lapic := (lapic s)(0xb0 := 0)\<rparr>"

section \<open>Handlers\<close>

definition zero_gate :: gate_t where
  "zero_gate = \<lparr>offset_l = 0, gate_selector = 0, gate_type = 0, gate_segment = 0, gate_DPL = 0, gate_present = 0, offset_h = 0\<rparr>"

definition make_gate :: "u32 \<Rightarrow> u8 \<Rightarrow> gate_t" where
  "make_gate offset dpl = \<lparr>offset_l = ucast offset, gate_selector = push_bit 3 1, gate_type = 0xe, gate_segment = 0,
     gate_DPL = dpl, gate_present = 1, offset_h = ucast (drop_bit 16 offset)\<rparr>"

text \<open>\<open>handler_table\<close> and \<open>syscall_handle\<close> are the entry points of \<^verbatim>\<open>handlers.asm\<close>.\<close>

definition idt_init :: "u32 list \<Rightarrow> u32 \<Rightarrow> 'a intr_scheme \<Rightarrow> 'a intr_scheme res" where
  "idt_init handler_table syscall_handle s =
     rbind (for_each (\<lambda>i idt. rbind (arr_get handler_table i) (\<lambda>h. arr_set idt i (make_gate h 0)))
              [0..<INT_SIZE] (replicate IDT_SIZE zero_gate)) (\<lambda>idt.
     rbind (for_each (\<lambda>i f. arr_set f i Sys_exception) [0..<INTEL_INT_RESERVED] (interrupt_func_table s)) (\<lambda>f.
     rbind (arr_set f 0xe Page_fault) (\<lambda>f.
     rbind (for_each (\<lambda>i f. arr_set f i Default_exception) [INTEL_INT_RESERVED..<INT_SIZE] f) (\<lambda>f.
     rbind (arr_set idt 0x80 (make_gate syscall_handle 3)) (\<lambda>idt.
     Inr (s\<lparr>idt_table := idt, interrupt_func_table := f\<rparr>))))))"

definition install_int :: "u8 \<Rightarrow> u8 \<Rightarrow> u32 \<Rightarrow> handler \<Rightarrow> 'a intr_scheme \<Rightarrow> 'a intr_scheme res" where
  "install_int old_irq dest flag hnd s =
     (let new_irq = irq_override old_irq s; vector = new_irq + START_INT_NUM in
      rbind (arr_set (interrupt_func_table s) (unat new_irq + 0x20) hnd) (\<lambda>f.
      Inr (set_ioredtbl new_irq dest flag vector (s\<lparr>interrupt_func_table := f\<rparr>))))"

definition install_MSI_int :: "pci_device_t \<Rightarrow> u8 \<Rightarrow> handler \<Rightarrow> 'a intr_scheme \<Rightarrow> (int \<times> 'a intr_scheme) res" where
  "install_MSI_int pci_dev vector hnd s =
     rbind (arr_set (interrupt_func_table s) (unat vector) hnd) (\<lambda>f.
     device_MSI_init pci_dev vector (s\<lparr>interrupt_func_table := f\<rparr>))"

definition set_int_mask :: "u32 \<Rightarrow> bool \<Rightarrow> 'a intr_scheme \<Rightarrow> 'a intr_scheme" where
  "set_int_mask irq enable s =
     (let new_irq = irq_override (ucast irq) s; offset = ucast new_irq * 2 + 0x10;
          (lo, s) = ioapic_reg_read offset s;
          lo = (if enable then lo AND NOT IOREDTBL_MASK else lo OR IOREDTBL_MASK) in
      ioapic_reg_write offset lo s)"

definition default_exception :: "'a intr_scheme \<Rightarrow> 'a intr_scheme" where
  "default_exception s = lapic_send_eoi s"

end
