(* ===== verification/Interrupts_Theorems.thy ===== *)
theory Interrupts_Theorems
  imports Interrupts
begin

text \<open>
  Which vectors user mode can raise, where a device interrupt goes once it is installed, and
  the source overrides read out of a well-formed table of the firmware.
\<close>

section \<open>The descriptor table\<close>

lemma for_each_fill:
  assumes "\<And>i l. a \<le> i \<Longrightarrow> i < b \<Longrightarrow> length l = n \<Longrightarrow> f i l = Inr (l[i := v i])" "a \<le> b" "b \<le> n" "length l = n"
  shows "for_each f [a..<b] l = Inr (map (\<lambda>i. if a \<le> i \<and> i < b then v i else l ! i) [0..<n])"
  using assms(2,1,3)
proof (induction rule: dec_induct)
  case base
  have "map (\<lambda>i. if a \<le> i \<and> i < a then v i else l ! i) [0..<n] = l" using assms(4) by (intro nth_equalityI) auto
  then show ?case by (metis for_each.simps(1) upt_conv_Nil order_refl)
next
  case (step b)
  let ?l = "map (\<lambda>i. if a \<le> i \<and> i < b then v i else l ! i) [0..<n]"
  have "for_each f [a..<b] l = Inr ?l" using step by simp
  moreover have "f b ?l = Inr (?l[b := v b])" using step by simp
  moreover have "?l[b := v b] = map (\<lambda>i. if a \<le> i \<and> i < Suc b then v i else l ! i) [0..<n]"
    using step by (intro nth_equalityI) (auto simp: nth_list_update)
  ultimately show ?case using step by (simp add: for_each_append)
qed

text \<open>The address a gate leads to.\<close>

definition gate_offset :: "gate_t \<Rightarrow> u32" where
  "gate_offset g = ucast (offset_l g) OR push_bit 16 (ucast (offset_h g))"

lemma gate_offset_make [simp]: "gate_offset (make_gate x dpl) = x"
  unfolding gate_offset_def make_gate_def by (rule bit_word_eqI) (auto simp: bit_simps)

lemma gate_fields [simp]:
  "gate_present (make_gate x dpl) = 1" "gate_DPL (make_gate x dpl) = dpl" "gate_present zero_gate = 0"
  by (simp_all add: make_gate_def zero_gate_def)

text \<open>
  C21: After \<^verbatim>\<open>idt_init\<close> user mode can raise exactly the vector \<^verbatim>\<open>0x80\<close>. The first 64 gates lead to
  the entries of the table in \<^verbatim>\<open>handlers.asm\<close>, the others are not present, and every one of
  the 64 vectors has a function: the exceptions stop, the page fault has its handler and the
  device interrupts are acknowledged.
\<close>

theorem idt_protects:
  assumes "length ht = INT_SIZE" "length (interrupt_func_table s) = INT_SIZE"
  shows "\<exists>s'. idt_init ht sh s = Inr s' \<and> length (idt_table s') = 256 \<and>
    (\<forall>v < 256. gate_present (idt_table s' ! v) = 1 \<and> gate_DPL (idt_table s' ! v) = 3 \<longleftrightarrow> v = 0x80) \<and>
    (\<forall>v < 256. v \<noteq> 0x80 \<longrightarrow> (gate_present (idt_table s' ! v) = 1 \<longleftrightarrow> v < 0x40)) \<and>
    (\<forall>v < 0x40. gate_offset (idt_table s' ! v) = ht ! v) \<and> gate_offset (idt_table s' ! 0x80) = sh \<and>
    (\<forall>v < 0x40. interrupt_func_table s' ! v =
       (if v = 0xe then Page_fault else if v < 0x20 then Sys_exception else Default_exception))"
proof -
  let ?idt = "map (\<lambda>i. if i < INT_SIZE then make_gate (ht ! i) 0 else zero_gate) [0..<256]"
  have "for_each (\<lambda>i idt. rbind (arr_get ht i) (\<lambda>h. arr_set idt i (make_gate h 0))) [0..<INT_SIZE] (replicate IDT_SIZE zero_gate) =
      Inr (map (\<lambda>i. if 0 \<le> i \<and> i < INT_SIZE then make_gate (ht ! i) 0 else replicate IDT_SIZE zero_gate ! i) [0..<256])"
    by (rule for_each_fill) (use assms(1) in \<open>auto simp: INT_SIZE_def IDT_SIZE_def\<close>)
  then have idt: "for_each (\<lambda>i idt. rbind (arr_get ht i) (\<lambda>h. arr_set idt i (make_gate h 0))) [0..<INT_SIZE] (replicate IDT_SIZE zero_gate) =
      Inr ?idt"
    by (simp add: IDT_SIZE_def cong: if_cong)
  define f1 where "f1 = map (\<lambda>i. if i < 0x20 then Sys_exception else interrupt_func_table s ! i) [0..<0x40]"
  define f2 where "f2 = map (\<lambda>i. if 0x20 \<le> i then Default_exception else f1[0xe := Page_fault] ! i) [0..<0x40]"
  have 1: "for_each (\<lambda>i f. arr_set f i Sys_exception) [0..<INTEL_INT_RESERVED] (interrupt_func_table s) = Inr f1"
    using for_each_fill [where a = 0 and b = INTEL_INT_RESERVED and n = "64" and f = "\<lambda>i f. arr_set f i Sys_exception"
      and v = "\<lambda>_. Sys_exception" and l = "interrupt_func_table s"] assms(2)
    by (simp add: f1_def INTEL_INT_RESERVED_def INT_SIZE_def)
  have "for_each (\<lambda>i f. arr_set f i Default_exception) [INTEL_INT_RESERVED..<INT_SIZE] (f1[0xe := Page_fault]) =
      Inr (map (\<lambda>i. if INTEL_INT_RESERVED \<le> i \<and> i < INT_SIZE then Default_exception else f1[0xe := Page_fault] ! i) [0..<0x40])"
    by (rule for_each_fill) (auto simp: f1_def INTEL_INT_RESERVED_def INT_SIZE_def)
  then have 2: "for_each (\<lambda>i f. arr_set f i Default_exception) [INTEL_INT_RESERVED..<INT_SIZE] (f1[0xe := Page_fault]) = Inr f2"
    by (simp add: f2_def INTEL_INT_RESERVED_def INT_SIZE_def cong: map_cong)
  have l1: "length f1 = 0x40" by (simp add: f1_def)
  have "idt_init ht sh s = Inr (s\<lparr>idt_table := ?idt[0x80 := make_gate sh 3], interrupt_func_table := f2\<rparr>)"
    by (simp add: idt_init_def idt 1 2 l1)
  moreover have "\<forall>v < 0x40. f2 ! v = (if v = 0xe then Page_fault else if v < 0x20 then Sys_exception else Default_exception)"
    by (simp add: f2_def f1_def nth_list_update)
  ultimately show ?thesis
    by (auto simp: nth_list_update INT_SIZE_def)
qed

definition ex_intr :: intr where
  "ex_intr = \<lparr>cfg_addr = 0, cfg = (\<lambda>_. 0), cfg_writable = (\<lambda>_. 0), idt_table = [],
     interrupt_func_table = replicate 64 Null_handler, irq_override_tab = [(0, 2), (9, 0x20)], lapic_base = 0, ioapic_addr = 0,
     ioapic_sel = 0, ioapic_regs = (\<lambda>_. 0), lapic = (\<lambda>_. 0), pic_masks = (0, 0)\<rparr>"

theorem idt_protects_witness:
  "\<exists>s'. idt_init (map word_of_nat [0x1000..<0x1040]) 0x2000 ex_intr = Inr s' \<and> gate_offset (idt_table s' ! 0x80) = 0x2000"
  using idt_protects [of "map word_of_nat [0x1000..<0x1040]" ex_intr "0x2000"] by (auto simp: INT_SIZE_def ex_intr_def)

section \<open>Installing a handler\<close>

text \<open>The two registers of a pin of the I/O APIC.\<close>

definition redir_lo :: "u8 \<Rightarrow> 'a intr_scheme \<Rightarrow> u32" where
  "redir_lo pin s = ioapic_regs s (ucast pin * 2 + 0x10)"

definition redir_hi :: "u8 \<Rightarrow> 'a intr_scheme \<Rightarrow> u32" where
  "redir_hi pin s = ioapic_regs s (ucast pin * 2 + 0x11)"

lemma pin_regs:
  "(ucast p * 2 + 0x10 = (ucast q * 2 + 0x10 :: u32)) = (p = q)"
  "(ucast p * 2 + 0x11 = (ucast q * 2 + 0x11 :: u32)) = (p = q)"
  "ucast p * 2 + 0x10 \<noteq> (ucast q * 2 + 0x11 :: u32)" for p q :: u8
proof -
  have u: "unat (ucast x * 2 + k :: u32) = unat x * 2 + unat k" if "unat k < 0x100" for x :: u8 and k
  proof -
    have "unat (ucast x :: u32) = unat x" by (simp add: unsigned_ucast_eq take_bit_nat_eq_self unsigned_less [THEN order.strict_trans2])
    moreover have "unat x < 256" using unsigned_less [of x] by simp
    ultimately show ?thesis using that by (simp add: unat_word_ariths)
  qed
  show "(ucast p * 2 + 0x10 = (ucast q * 2 + 0x10 :: u32)) = (p = q)"
    using u [of "0x10" p] u [of "0x10" q] by (auto simp: word_unat_eq_iff)
  show "(ucast p * 2 + 0x11 = (ucast q * 2 + 0x11 :: u32)) = (p = q)"
    using u [of "0x11" p] u [of "0x11" q] by (auto simp: word_unat_eq_iff)
  show "ucast p * 2 + 0x10 \<noteq> (ucast q * 2 + 0x11 :: u32)"
  proof
    assume "ucast p * 2 + 0x10 = (ucast q * 2 + 0x11 :: u32)"
    then have "unat (ucast p * 2 + 0x10 :: u32) = unat (ucast q * 2 + 0x11 :: u32)" by (rule arg_cong)
    then have "unat p * 2 + 16 = unat q * 2 + 17" using u [of "0x10" p] u [of "0x11" q] by simp
    then show False by presburger
  qed
qed

lemma pin_regs0: "(ucast p * 2 = (ucast q * 2 :: u32)) = (p = q)" for p q :: u8
  using pin_regs(1) [of p q] by simp

lemma redir_low_fields:
  "ucast (ucast v OR (flag AND 0x1ff00) :: u32) = (v :: u8)"
  "bit (ucast v OR (flag AND 0x1ff00) :: u32) 16 = bit flag 16"
  "ucast (drop_bit 24 (push_bit 24 (ucast v) :: u32)) = v"
proof -
  show "ucast (ucast v OR (flag AND 0x1ff00) :: u32) = v"
  proof (rule bit_word_eqI)
    fix n assume "n < LENGTH(8)"
    then have "n \<in> {0, 1, 2, 3, 4, 5, 6, 7}" by auto
    then show "bit (ucast (ucast v OR (flag AND 0x1ff00) :: u32) :: u8) n = bit v n" by (auto simp: bit_simps)
  qed
  show "bit (ucast v OR (flag AND 0x1ff00) :: u32) 16 = bit flag 16"
    using bit_imp_le_length [of v 16] by (auto simp: bit_simps)
  show "ucast (drop_bit 24 (push_bit 24 (ucast v) :: u32)) = v"
    by (rule bit_word_eqI) (auto simp: bit_simps)
qed

text \<open>
  C35: \<^verbatim>\<open>install_int\<close> follows the override of the request line to a pin of the I/O APIC. The
  pin then raises, at the processor asked for and masked as the flags say, the vector whose
  function is the handler; the other pins and the other handlers are untouched. A pin
  beyond 31 is outside the table of the functions.
\<close>

theorem install_int_routes:
  fixes s :: "'a intr_scheme" and irq :: u8
  assumes "length (interrupt_func_table s) = INT_SIZE"
  defines "pin \<equiv> irq_override irq s"
  shows "(pin < 0x20 \<longrightarrow> (\<exists>s'. install_int irq dest flag h s = Inr s' \<and>
      interrupt_func_table s' ! unat (ucast (redir_lo pin s') :: u8) = h \<and>
      bit (redir_lo pin s') 16 = bit flag 16 \<and> ucast (drop_bit 24 (redir_hi pin s')) = dest \<and>
      (\<forall>q. q \<noteq> pin \<longrightarrow> redir_lo q s' = redir_lo q s \<and> redir_hi q s' = redir_hi q s) \<and>
      (\<forall>v. v \<noteq> unat pin + 0x20 \<longrightarrow> interrupt_func_table s' ! v = interrupt_func_table s ! v))) \<and>
    (0x20 \<le> pin \<longrightarrow> install_int irq dest flag h s = Inl Fault)"
proof -
  let ?f = "(interrupt_func_table s)[unat pin + 0x20 := h]"
  let ?s = "set_ioredtbl pin dest flag (pin + START_INT_NUM) (s\<lparr>interrupt_func_table := ?f\<rparr>)"
  have lo: "redir_lo q ?s = (if q = pin then ucast (pin + START_INT_NUM) OR (flag AND 0x1ff00) else redir_lo q s)" for q
    by (auto simp: redir_lo_def set_ioredtbl_def ioapic_reg_write_def Let_def pin_regs pin_regs0 add.assoc pin_regs(3) [THEN not_sym])
  have hi: "redir_hi q ?s = (if q = pin then push_bit 24 (ucast dest) else redir_hi q s)" for q
    by (auto simp: redir_hi_def set_ioredtbl_def ioapic_reg_write_def Let_def pin_regs pin_regs0 add.assoc pin_regs(3) [THEN not_sym])
  have f: "interrupt_func_table ?s = ?f" by (simp add: set_ioredtbl_def ioapic_reg_write_def Let_def)
  show ?thesis
  proof (cases "pin < 0x20")
    case True
    then have p: "unat pin < 32" by (simp add: word_less_nat_alt)
    then have v: "unat (pin + START_INT_NUM) = unat pin + 0x20" by (simp add: START_INT_NUM_def unat_word_ariths)
    have "install_int irq dest flag h s = Inr ?s"
      using p assms(1) by (simp add: install_int_def Let_def INT_SIZE_def flip: pin_def)
    with True p show ?thesis
      by (simp add: lo hi f redir_low_fields v assms(1) INT_SIZE_def)
  next
    case False
    then have "32 \<le> unat pin" by (simp add: word_le_nat_alt not_less)
    with False assms(1) show ?thesis by (simp add: install_int_def Let_def INT_SIZE_def arr_set_def flip: pin_def)
  qed
qed

theorem install_int_routes_witness:
  "(\<exists>s'. install_int 0 1 0 (Handler 7) ex_intr = Inr s' \<and> interrupt_func_table s' ! unat (ucast (redir_lo 2 s') :: u8) = Handler 7) \<and>
   install_int 9 1 0 (Handler 7) ex_intr = Inl Fault"
proof -
  have o: "irq_override 0 ex_intr = 2" "irq_override 9 ex_intr = 0x20" "length (interrupt_func_table ex_intr) = INT_SIZE"
    by (simp_all add: ex_intr_def irq_override_def INT_SIZE_def)
  have "\<exists>s'. install_int 0 1 0 (Handler 7) ex_intr = Inr s' \<and> interrupt_func_table s' ! unat (ucast (redir_lo 2 s') :: u8) = Handler 7"
    using install_int_routes [OF o(3), of 0 1 0 "Handler 7"] by (auto simp: o)
  moreover have "install_int 9 1 0 (Handler 7) ex_intr = Inl Fault"
    using install_int_routes [OF o(3), of 9 1 0 "Handler 7"] by (simp add: o)
  ultimately show ?thesis by blast
qed

section \<open>Source overrides\<close>

text \<open>A structure of the table: its type and what follows its length.\<close>

definition enc_entry :: "u8 \<times> u8 list \<Rightarrow> u8 list" where
  "enc_entry e = fst e # of_nat (length (snd e) + 2) # snd e"

definition wf_entry :: "u8 \<times> u8 list \<Rightarrow> bool" where
  "wf_entry e \<longleftrightarrow> length (snd e) + 2 < 256 \<and> (fst e = 2 \<longrightarrow> 6 \<le> length (snd e))"

definition overrides :: "(u8 \<times> u8 list) list \<Rightarrow> (u8 \<times> u8) list" where
  "overrides es = map (\<lambda>e. (snd e ! 1, snd e ! 2)) (filter (\<lambda>e. fst e = 2) es)"

definition stored :: "(u32 \<Rightarrow> u8) \<Rightarrow> u32 \<Rightarrow> u8 list \<Rightarrow> bool" where
  "stored m a bs \<longleftrightarrow> (\<forall>i < length bs. m (a + word_of_nat i) = bs ! i)"

lemma stored_append: "stored m a (xs @ ys) \<longleftrightarrow> stored m a xs \<and> stored m (a + word_of_nat (length xs)) ys"
proof
  assume st: "stored m a (xs @ ys)"
  then have "m (a + word_of_nat i) = xs ! i" if "i < length xs" for i
    using that unfolding stored_def by (metis length_append nth_append trans_less_add1)
  moreover have "m (a + word_of_nat (length xs) + word_of_nat i) = ys ! i" if "i < length ys" for i
    using st that unfolding stored_def by (metis length_append nat_add_left_cancel_less nth_append_length_plus of_nat_add add.assoc)
  ultimately show "stored m a xs \<and> stored m (a + word_of_nat (length xs)) ys" by (auto simp: stored_def)
next
  assume st: "stored m a xs \<and> stored m (a + word_of_nat (length xs)) ys"
  have "m (a + word_of_nat i) = (xs @ ys) ! i" if i: "i < length xs + length ys" for i
  proof (cases "i < length xs")
    case True
    with st show ?thesis by (simp add: stored_def nth_append)
  next
    case False
    then obtain j where j: "i = length xs + j" by (metis le_add_diff_inverse not_less)
    with i st show ?thesis by (simp add: stored_def nth_append add.assoc)
  qed
  then show "stored m a (xs @ ys)" by (simp add: stored_def)
qed

lemma mem32_low: "ucast (mem32 m a) = m a"
proof (rule bit_word_eqI)
  fix n assume "n < LENGTH(8)"
  then have n: "n \<in> {0, 1, 2, 3, 4, 5, 6, 7}" by auto
  then show "bit (ucast (mem32 m a) :: u8) n = bit (m a) n" by (auto simp: mem32_def bit_simps)
qed

lemma ucast_len: "k < 256 \<Longrightarrow> ucast (of_nat k :: u8) = (of_nat k :: u32)"
  by (simp add: word_unat_eq_iff unsigned_ucast_eq unsigned_of_nat take_bit_nat_eq_self)

lemma madt_entries:
  fixes s :: "'a intr_scheme"
  assumes "\<forall>e \<in> set es. wf_entry e" "stored m a (concat (map enc_entry es))"
    "unat a + length (concat (map enc_entry es)) < 2 ^ 32" "length (irq_override_tab s) \<le> IRQ_OVERRIDE_NR"
  shows "(length (irq_override_tab s) + length (overrides es) \<le> IRQ_OVERRIDE_NR \<longrightarrow>
      (\<exists>s'. madt_loop m a (a + word_of_nat (length (concat (map enc_entry es)))) s = Some (Inr s') \<and>
        irq_override_tab s' = irq_override_tab s @ overrides es \<and> lapic_base s' = lapic_base s)) \<and>
    (IRQ_OVERRIDE_NR < length (irq_override_tab s) + length (overrides es) \<longrightarrow>
      madt_loop m a (a + word_of_nat (length (concat (map enc_entry es)))) s = Some (Inl Fault))"
  using assms
proof (induction es arbitrary: a s)
  case Nil
  have "madt_loop m a a s = Some (Inr s)" by (subst madt_loop.simps) simp
  with Nil show ?case by (simp add: overrides_def)
next
  case (Cons e es)
  let ?n = "length (snd e) + 2" and ?r = "length (concat (map enc_entry es))"
  let ?lim = "a + word_of_nat (length (concat (map enc_entry (e # es))))"
  have w: "?n < 256" "fst e = 2 \<longrightarrow> 6 \<le> length (snd e)" using Cons.prems(1) by (auto simp: wf_entry_def)
  have le: "length (enc_entry e) = ?n" by (simp add: enc_entry_def)
  have st: "stored m a (enc_entry e)" "stored m (a + word_of_nat ?n) (concat (map enc_entry es))"
    using Cons.prems(2) by (simp_all add: stored_append le)
  have byte: "m (a + word_of_nat i) = enc_entry e ! i" if "i < ?n" for i
    using st(1) that by (simp add: stored_def le)
  have m: "m a = fst e" "m (a + 1) = of_nat ?n" using byte [of 0] byte [of 1] by (simp_all add: enc_entry_def)
  have m34: "m (a + 3) = snd e ! 1" "m (a + 4) = snd e ! 2" if "fst e = 2"
    using byte [of 3] byte [of 4] w that by (simp_all add: enc_entry_def numeral_eq_Suc)
  have tot: "unat a + ?n + ?r < 2 ^ 32" using Cons.prems(3) le by simp
  then have un: "unat (a + word_of_nat k) = unat a + k" if "k \<le> ?n + ?r" for k
    using that by (simp add: unat_word_ariths unsigned_of_nat take_bit_nat_eq_self)
  have lim: "?lim = a + word_of_nat ?n + word_of_nat ?r" by (simp add: le)
  have lt: "a < ?lim" using un [of "?n + ?r"] unfolding lim word_less_nat_alt by (simp add: add.assoc)
  let ?s = "if fst e = 1 then s\<lparr>ioapic_addr := mem32 m (a + 4)\<rparr>
     else if fst e = 2 then s\<lparr>irq_override_tab := irq_override_tab s @ [(snd e ! 1, snd e ! 2)]\<rparr> else s"
  have step: "madt_loop m a ?lim s = (if fst e = 2 \<and> length (irq_override_tab s) \<ge> IRQ_OVERRIDE_NR then Some (Inl Fault)
      else madt_loop m (a + word_of_nat ?n) ?lim ?s)"
    using lt m m34 mem32_low [of m "a + 4"] ucast_len [OF w(1)] by (subst madt_loop.simps) (simp add: Let_def)
  have ov: "overrides (e # es) = (if fst e = 2 then (snd e ! 1, snd e ! 2) # overrides es else overrides es)"
    by (simp add: overrides_def)
  show ?case
  proof (cases "fst e = 2 \<and> length (irq_override_tab s) \<ge> IRQ_OVERRIDE_NR")
    case True
    with step ov Cons.prems(4) show ?thesis by simp
  next
    case False
    have "unat (a + word_of_nat ?n) + ?r < 2 ^ 32" using un [of ?n] tot by simp
    moreover have "length (irq_override_tab ?s) \<le> IRQ_OVERRIDE_NR" using False Cons.prems(4) by auto
    ultimately have ih: "(length (irq_override_tab ?s) + length (overrides es) \<le> IRQ_OVERRIDE_NR \<longrightarrow>
        (\<exists>s'. madt_loop m (a + word_of_nat ?n) ?lim ?s = Some (Inr s') \<and>
          irq_override_tab s' = irq_override_tab ?s @ overrides es \<and> lapic_base s' = lapic_base ?s)) \<and>
      (IRQ_OVERRIDE_NR < length (irq_override_tab ?s) + length (overrides es) \<longrightarrow>
        madt_loop m (a + word_of_nat ?n) ?lim ?s = Some (Inl Fault))"
      using Cons.IH [of "a + word_of_nat ?n" ?s] Cons.prems(1) st(2) unfolding lim by simp
    have st2: "madt_loop m a ?lim s = madt_loop m (a + word_of_nat ?n) ?lim ?s" using step False by (simp only: if_False)
    have t: "irq_override_tab ?s @ overrides es = irq_override_tab s @ overrides (e # es)" "lapic_base ?s = lapic_base s"
      "length (irq_override_tab ?s) + length (overrides es) = length (irq_override_tab s) + length (overrides (e # es))"
      using ov by auto
    show ?thesis using ih unfolding st2 t .
  qed
qed

text \<open>
  C36: From a well-formed table \<^verbatim>\<open>acpi_init\<close> takes the address of the local APIC and exactly the
  source overrides, in order, up to 16 of them; with more it writes behind its table.
\<close>

theorem madt_overrides:
  assumes "find_MADT m = Inr madt" "\<forall>e \<in> set es. wf_entry e" "stored m (madt + 44) (concat (map enc_entry es))"
    "mem32 m (madt + 4) = 44 + word_of_nat (length (concat (map enc_entry es)))"
    "unat (madt + 44) + length (concat (map enc_entry es)) < 2 ^ 32"
  shows "(length (overrides es) \<le> IRQ_OVERRIDE_NR \<longrightarrow>
      (\<exists>s'. acpi_init m s = Inr s' \<and> irq_override_tab s' = overrides es \<and> lapic_base s' = mem32 m (madt + 36))) \<and>
    (IRQ_OVERRIDE_NR < length (overrides es) \<longrightarrow> acpi_init m s = Inl Fault)"
proof -
  let ?s = "s\<lparr>lapic_base := mem32 m (madt + 36), irq_override_tab := []\<rparr>"
  have "madt + mem32 m (madt + 4) = madt + 44 + word_of_nat (length (concat (map enc_entry es)))"
    by (simp add: assms(4) add.assoc)
  note lim = this
  have "acpi_init m s = run (madt_loop m (madt + 44) (madt + 44 + word_of_nat (length (concat (map enc_entry es)))) ?s)"
    by (simp only: acpi_init_def find_IOAPICS_def assms(1) rbind_simps lim)
  with madt_entries [OF assms(2,3,5), of ?s] show ?thesis by auto
qed

text \<open>A firmware with one table that has one override.\<close>

definition ex_rsdp :: "u8 list" where
  "ex_rsdp = [0x52, 0x53, 0x44, 0x20, 0x50, 0x54, 0x52, 0x20, 0xD1, 0, 0, 0, 0, 0, 0, 0, 0, 0x10, 0, 0]"

definition ex_rsdt :: "u8 list" where
  "ex_rsdt = [0x52, 0x53, 0x44, 0x54, 40, 0, 0, 0] @ replicate 28 0 @ [0, 0x20, 0, 0]"

definition ex_entries :: "(u8 \<times> u8 list) list" where
  "ex_entries = [(0, [0, 0, 1, 0, 0, 0]), (1, [2, 0, 0, 0, 0xC0, 0xFE, 0, 0, 0, 0]), (2, [0, 0, 2, 0, 0, 0, 0, 0])]"

definition ex_madt :: "u8 list" where
  "ex_madt = [0x41, 0x50, 0x49, 0x43, 74, 0, 0, 0] @ replicate 28 0 @ [0, 0, 0xE0, 0xFE, 0, 0, 0, 0] @ concat (map enc_entry ex_entries)"

definition ex_mem :: "u32 \<Rightarrow> u8" where
  "ex_mem a =
     (if 0xE0000 \<le> a \<and> a < 0xE0014 then ex_rsdp ! unat (a - 0xE0000)
      else if 0x1000 \<le> a \<and> a < 0x1028 then ex_rsdt ! unat (a - 0x1000)
      else if 0x2000 \<le> a \<and> a < 0x204A then ex_madt ! unat (a - 0x2000) else 0)"

lemma find_RSDP_first:
  assumes "mem32 m 0xE0000 = RSDP_SIG_L" "REDP_checksum m 0xE0000"
  shows "find_RSDP m = 0xE0000"
proof -
  have "[0..<0x2000] = 0 # [1..<0x2000 :: nat]" using upt_conv_Cons [of 0 "0x2000"] by simp
  then have "find_RSDP m = find_RSDP_loop m (0xE0000 # map (\<lambda>i. 0xE0000 + 16 * i) [1..<0x2000])"
    by (simp only: find_RSDP_def list.map mult_0_right add_0_right)
  then show ?thesis using assms by (simp del: upt_rec_numeral)
qed

lemma ex_fw1: "mem32 ex_mem 0xE0000 = 0x20445352"
  by code_simp

lemma ex_fw2: "REDP_checksum ex_mem 0xE0000"
  by code_simp

lemma ex_fw3: "mem32 ex_mem 0xE0010 = 0x1000"
  by code_simp

lemma ex_fw4: "mem32 ex_mem 0x1004 = 40"
  by code_simp

lemma ex_fw5: "mem32 ex_mem 0x1024 = 0x2000"
  by code_simp

lemma ex_fw6: "mem32 ex_mem 0x2004 = 74"
  by code_simp

lemma ex_fw7: "mem32 ex_mem 0x2024 = 0xFEE00000"
  by code_simp

lemma ex_fw8: "map (\<lambda>k. ex_mem (0x2000 + word_of_nat k)) [0..<4] = [0x41, 0x50, 0x49, 0x43]"
  by code_simp

lemma ex_fw9: "map (\<lambda>i. ex_mem (0x202C + word_of_nat i)) [0..<30] = concat (map enc_entry ex_entries)"
  by code_simp

lemma ex_entries_facts:
  "length (concat (map enc_entry ex_entries)) = 30" "\<forall>e \<in> set ex_entries. wf_entry e" "overrides ex_entries = [(0, 2)]"
  by code_simp+

lemma strcmp_APIC: "strcmp [0x41, 0x50, 0x49, 0x43] [0x41, 0x50, 0x49, 0x43, 0] 4 = Inr True"
  by code_simp

lemma ex_find_MADT: "find_MADT ex_mem = Inr 0x2000"
proof -
  have "find_RSDT ex_mem = 0x1000"
    using find_RSDP_first [OF _ ex_fw2] ex_fw1 ex_fw3 by (simp add: find_RSDT_def BIOS_MEM_SIZE_def RSDP_SIG_L_def)
  moreover have "[0..<unat ((40 - 36) div 4 :: u32)] = [0]" by code_simp
  moreover have "find_MADT_entry ex_mem 0x1000 [0] = Inr 0x2000"
    unfolding find_MADT_entry.simps Let_def using ex_fw5 ex_fw8 strcmp_APIC by simp
  ultimately show ?thesis using ex_fw4 by (simp add: find_MADT_def BIOS_MEM_SIZE_def del: find_MADT_entry.simps)
qed

theorem madt_overrides_witness:
  "\<exists>s'. acpi_init ex_mem ex_intr = Inr s' \<and> irq_override_tab s' = [(0, 2)] \<and> lapic_base s' = 0xFEE00000"
proof -
  have "stored ex_mem (0x2000 + 44) (concat (map enc_entry ex_entries))"
    unfolding stored_def ex_fw9 [symmetric] by simp
  from madt_overrides [OF ex_find_MADT ex_entries_facts(2) this, of ex_intr] ex_fw6 ex_fw7 ex_entries_facts(1,3)
  show ?thesis by (simp add: IRQ_OVERRIDE_NR_def)
qed

end
