(* ===== verification/Segments.thy ===== *)
theory Segments
  imports Rdix_Prelude
begin

text \<open>
  The segment descriptors of \<^verbatim>\<open>kernel/global.c\<close>. A descriptor is the record of its bit-fields;
  loading the registers is assembly and not modelled.
\<close>

section \<open>Descriptors\<close>

definition GDT_SIZE :: nat where "GDT_SIZE = 128"
definition LIMIT_4G :: u32 where "LIMIT_4G = 0xfffff"
definition DPL_KERNEL :: u8 where "DPL_KERNEL = 0"
definition DPL_USER :: u8 where "DPL_USER = 3"
definition GDT_ENTRY_G :: u32 where "GDT_ENTRY_G = 0x1"
definition GDT_ENTRY_D :: u32 where "GDT_ENTRY_D = 0x2"
definition GDT_ENTRY_L :: u32 where "GDT_ENTRY_L = 0x4"
definition GDT_ENTRY_P :: u32 where "GDT_ENTRY_P = 0x8"
definition GDT_ENTRY_S :: u32 where "GDT_ENTRY_S = 0x10"
definition GDT_ENTRY_TYPE_X :: u32 where "GDT_ENTRY_TYPE_X = 0x20"
definition GDT_ENTRY_TYPE_EC :: u32 where "GDT_ENTRY_TYPE_EC = 0x40"
definition GDT_ENTRY_TYPE_WR :: u32 where "GDT_ENTRY_TYPE_WR = 0x80"
definition GDT_ENTRY_TYPE_A :: u32 where "GDT_ENTRY_TYPE_A = 0x100"

lemmas gdt_entry_bits = GDT_ENTRY_G_def GDT_ENTRY_D_def GDT_ENTRY_L_def GDT_ENTRY_P_def GDT_ENTRY_S_def
  GDT_ENTRY_TYPE_X_def GDT_ENTRY_TYPE_EC_def GDT_ENTRY_TYPE_WR_def GDT_ENTRY_TYPE_A_def

definition KERNEL_CODE_SEG :: nat where "KERNEL_CODE_SEG = 1"
definition KERNEL_DATA_SEG :: nat where "KERNEL_DATA_SEG = 2"
definition KERNEL_TSS_SEG :: nat where "KERNEL_TSS_SEG = 3"
definition USER_CODE_SEG :: nat where "USER_CODE_SEG = 4"
definition USER_DATA_SEG :: nat where "USER_DATA_SEG = 5"

lemmas seg_idx = KERNEL_CODE_SEG_def KERNEL_DATA_SEG_def KERNEL_TSS_SEG_def USER_CODE_SEG_def USER_DATA_SEG_def

record gdt_descriptor =
  limit_low :: u16
  base_low :: u32
  gd_type :: u8
  is_system :: bool
  gd_DPL :: u8
  present :: bool
  limit_hight :: u8
  long_mode :: bool
  big :: bool
  granularity :: bool
  base_high :: u8

definition zero_desc :: gdt_descriptor where
  "zero_desc = \<lparr>limit_low = 0, base_low = 0, gd_type = 0, is_system = False, gd_DPL = 0, present = False, limit_hight = 0,
     long_mode = False, big = False, granularity = False, base_high = 0\<rparr>"

text \<open>\<^verbatim>\<open>sizeof(desc)\<close> is the size of the pointer: only the first four bytes are cleared.\<close>

definition clear_desc :: "gdt_descriptor \<Rightarrow> gdt_descriptor" where
  "clear_desc d = d\<lparr>limit_low := 0, base_low := base_low d AND 0xff0000\<rparr>"

definition set_gdt_desc :: "nat \<Rightarrow> u32 \<Rightarrow> u32 \<Rightarrow> u32 \<Rightarrow> u8 \<Rightarrow> gdt_descriptor list \<Rightarrow> (u16 \<times> gdt_descriptor list) res" where
  "set_gdt_desc idx base limit ty dpl t =
     rbind (arr_get t idx) (\<lambda>d.
     rbind (ensure (\<not> (limit AND 0xFFF00000 \<noteq> 0 \<or> dpl > 3)) Assert) (\<lambda>_.
     let sel = push_bit 3 (word_of_nat idx) OR ucast dpl;
         d = clear_desc d;
         d = d\<lparr>limit_low := ucast limit, limit_hight := take_bit 4 (ucast (drop_bit 16 limit)),
               base_low := take_bit 24 base, base_high := ucast (drop_bit 24 base), gd_DPL := take_bit 2 dpl\<rparr>;
         d = (if ty AND GDT_ENTRY_G \<noteq> 0 then d\<lparr>granularity := True\<rparr> else d);
         d = (if ty AND GDT_ENTRY_D \<noteq> 0 then d\<lparr>big := True\<rparr> else d);
         d = (if ty AND GDT_ENTRY_L \<noteq> 0 then d\<lparr>long_mode := True\<rparr> else d);
         d = (if ty AND GDT_ENTRY_P \<noteq> 0 then d\<lparr>present := True\<rparr> else d);
         d = (if ty AND GDT_ENTRY_S \<noteq> 0 then d\<lparr>is_system := True\<rparr> else d);
         d = (if ty AND GDT_ENTRY_TYPE_X \<noteq> 0 then d\<lparr>gd_type := gd_type d OR 8\<rparr> else d);
         d = (if ty AND GDT_ENTRY_TYPE_EC \<noteq> 0 then d\<lparr>gd_type := gd_type d OR 4\<rparr> else d);
         d = (if ty AND GDT_ENTRY_TYPE_WR \<noteq> 0 then d\<lparr>gd_type := gd_type d OR 2\<rparr> else d);
         d = (if ty AND GDT_ENTRY_TYPE_A \<noteq> 0 then d\<lparr>gd_type := gd_type d OR 1\<rparr> else d) in
     Inr (sel, t[idx := d])))"

text \<open>What \<^verbatim>\<open>gdt_init\<close> sets in the task state segment; its size is 108 bytes.\<close>

record tss_t =
  tss_ss0 :: u32
  tss_iobase :: u16

definition TSS_SIZE :: u32 where "TSS_SIZE = 108"

definition gdt_init :: "u32 \<Rightarrow> (gdt_descriptor list \<times> tss_t) res" where
  "gdt_init tss =
     (let code = GDT_ENTRY_G OR GDT_ENTRY_D OR GDT_ENTRY_P OR GDT_ENTRY_S OR GDT_ENTRY_TYPE_X;
          data = GDT_ENTRY_G OR GDT_ENTRY_D OR GDT_ENTRY_P OR GDT_ENTRY_S OR GDT_ENTRY_TYPE_WR in
      rbind (set_gdt_desc KERNEL_CODE_SEG 0 LIMIT_4G code DPL_KERNEL (replicate GDT_SIZE zero_desc)) (\<lambda>(kcode, t).
      rbind (set_gdt_desc KERNEL_DATA_SEG 0 LIMIT_4G data DPL_KERNEL t) (\<lambda>(kdata, t).
      rbind (set_gdt_desc KERNEL_TSS_SEG tss (TSS_SIZE - 1) (GDT_ENTRY_P OR GDT_ENTRY_TYPE_X OR GDT_ENTRY_TYPE_A) DPL_KERNEL t) (\<lambda>(tsel, t).
      rbind (set_gdt_desc USER_CODE_SEG 0 LIMIT_4G code DPL_USER t) (\<lambda>(ucode, t).
      rbind (set_gdt_desc USER_DATA_SEG 0 LIMIT_4G data DPL_USER t) (\<lambda>(udata, t).
      Inr (t, \<lparr>tss_ss0 = ucast kdata, tss_iobase = ucast TSS_SIZE\<rparr>)))))))"

section \<open>What the processor reads\<close>

definition seg_base :: "gdt_descriptor \<Rightarrow> u32" where
  "seg_base d = base_low d OR push_bit 24 (ucast (base_high d))"

definition seg_limit :: "gdt_descriptor \<Rightarrow> u32" where
  "seg_limit d = ucast (limit_low d) OR push_bit 16 (ucast (limit_hight d))"

text \<open>The number of bytes of an expand-up segment.\<close>

definition seg_size :: "gdt_descriptor \<Rightarrow> nat" where
  "seg_size d = (unat (seg_limit d) + 1) * (if granularity d then 4096 else 1)"

definition type_bits :: "u32 \<Rightarrow> u8" where
  "type_bits ty = (if bit ty 5 then 8 else 0) OR (if bit ty 6 then 4 else 0) OR (if bit ty 7 then 2 else 0) OR (if bit ty 8 then 1 else 0)"

lemma and_bit_iff: "x AND 2 ^ n \<noteq> 0 \<longleftrightarrow> bit x n" for x :: u32
proof -
  have "x AND push_bit n 1 \<noteq> 0 \<longleftrightarrow> bit x n"
  proof
    assume "bit x n"
    moreover from this have "n < 32" using bit_imp_le_length by force
    ultimately have "bit (x AND push_bit n 1) n" by (simp add: bit_simps)
    then show "x AND push_bit n 1 \<noteq> 0" by auto
  next
    assume "x AND push_bit n 1 \<noteq> 0"
    then obtain k where "bit (x AND push_bit n 1) k" by (metis bit_eqI bit_0_eq bot_apply bot_bool_def)
    then show "bit x n" by (auto simp: bit_simps bit_1_iff)
  qed
  then show ?thesis by (simp add: push_bit_eq_mult)
qed

lemma entry_bits_iff:
  "ty AND GDT_ENTRY_G \<noteq> 0 \<longleftrightarrow> bit ty 0" "ty AND GDT_ENTRY_D \<noteq> 0 \<longleftrightarrow> bit ty 1" "ty AND GDT_ENTRY_L \<noteq> 0 \<longleftrightarrow> bit ty 2"
  "ty AND GDT_ENTRY_P \<noteq> 0 \<longleftrightarrow> bit ty 3" "ty AND GDT_ENTRY_S \<noteq> 0 \<longleftrightarrow> bit ty 4" "ty AND GDT_ENTRY_TYPE_X \<noteq> 0 \<longleftrightarrow> bit ty 5"
  "ty AND GDT_ENTRY_TYPE_EC \<noteq> 0 \<longleftrightarrow> bit ty 6" "ty AND GDT_ENTRY_TYPE_WR \<noteq> 0 \<longleftrightarrow> bit ty 7" "ty AND GDT_ENTRY_TYPE_A \<noteq> 0 \<longleftrightarrow> bit ty 8"
  using and_bit_iff [of ty 0] and_bit_iff [of ty 1] and_bit_iff [of ty 2] and_bit_iff [of ty 3] and_bit_iff [of ty 4]
    and_bit_iff [of ty 5] and_bit_iff [of ty 6] and_bit_iff [of ty 7] and_bit_iff [of ty 8]
  by (simp_all add: gdt_entry_bits)

lemma base_fields: "take_bit 24 base OR push_bit 24 (ucast (ucast (drop_bit 24 base) :: u8)) = base" for base :: u32
  by (rule bit_word_eqI) (auto simp: bit_simps)

lemma limit_fields:
  assumes "limit AND 0xFFF00000 = (0 :: u32)"
  shows "ucast (ucast limit :: u16) OR push_bit 16 (ucast (take_bit 4 (ucast (drop_bit 16 limit)) :: u8)) = limit"
    (is "?l = limit")
proof (rule bit_word_eqI)
  fix n assume n: "n < LENGTH(32)"
  have m: "(0xFFF00000 :: u32) = NOT (mask 20)" by (simp add: mask_eq_exp_minus_1)
  have "bit limit n \<longrightarrow> n < 20"
  proof (rule ccontr)
    assume "\<not> (bit limit n \<longrightarrow> n < 20)"
    then have "bit (limit AND NOT (mask 20)) n" using n by (auto simp: bit_simps)
    with assms show False by (simp add: m)
  qed
  then show "bit ?l n = bit limit n"
    using n by (auto simp: bit_simps)
qed

text \<open>
  C37: The processor reads out of a descriptor the base, the limit and the privilege that were
  asked for, and the selector leads to it. The attributes are those asked for and those the
  slot had before, because clearing the descriptor reaches its first four bytes only.
\<close>

theorem set_gdt_desc_decodes:
  assumes "idx < length t" "limit AND 0xFFF00000 = 0" "dpl \<le> 3"
  shows "\<exists>sel t'. set_gdt_desc idx base limit ty dpl t = Inr (sel, t') \<and> sel = push_bit 3 (word_of_nat idx) OR ucast dpl \<and>
    seg_base (t' ! idx) = base \<and> seg_limit (t' ! idx) = limit \<and> gd_DPL (t' ! idx) = dpl \<and>
    (granularity (t' ! idx) \<longleftrightarrow> granularity (t ! idx) \<or> bit ty 0) \<and> (big (t' ! idx) \<longleftrightarrow> big (t ! idx) \<or> bit ty 1) \<and>
    (present (t' ! idx) \<longleftrightarrow> present (t ! idx) \<or> bit ty 3) \<and> (is_system (t' ! idx) \<longleftrightarrow> is_system (t ! idx) \<or> bit ty 4) \<and>
    gd_type (t' ! idx) = gd_type (t ! idx) OR type_bits ty \<and> length t' = length t \<and> (\<forall>j. j \<noteq> idx \<longrightarrow> t' ! j = t ! j)"
proof -
  have d: "take_bit 2 dpl = dpl"
  proof -
    have "unat dpl < 2 ^ 2" using assms(3) by (simp add: word_le_nat_alt)
    then show ?thesis by (simp only: word_unat_eq_iff unsigned_take_bit_eq take_bit_nat_eq_self)
  qed
  have "\<not> dpl > 3" using assms(3) by simp
  with assms show ?thesis
    by (simp add: set_gdt_desc_def Let_def entry_bits_iff seg_base_def seg_limit_def base_fields limit_fields d type_bits_def
        clear_desc_def or.assoc)
qed

definition ex_desc :: gdt_descriptor where
  "ex_desc = zero_desc\<lparr>gd_type := 8, present := True\<rparr>"

theorem set_gdt_desc_decodes_witness:
  "\<exists>sel t'. set_gdt_desc 1 0x12345678 0xFFFFF 0x99 3 [zero_desc, ex_desc] = Inr (sel, t') \<and> seg_base (t' ! 1) = 0x12345678 \<and>
     seg_limit (t' ! 1) = 0xFFFFF \<and> gd_type (t' ! 1) = 0xA"
proof -
  from set_gdt_desc_decodes [of 1 "[zero_desc, ex_desc]" "0xFFFFF" 3 "0x12345678" "0x99"]
  obtain sel t' where t: "set_gdt_desc 1 0x12345678 0xFFFFF 0x99 3 [zero_desc, ex_desc] = Inr (sel, t')"
      "seg_base (t' ! 1) = 0x12345678" "seg_limit (t' ! 1) = 0xFFFFF" "gd_type (t' ! 1) = gd_type ex_desc OR type_bits 0x99"
    by auto
  moreover have "gd_type ex_desc OR type_bits 0x99 = 0xA" by code_simp
  ultimately show ?thesis by (intro exI [of _ sel] exI [of _ t']) simp
qed

text \<open>The five segments: flat code and data for the kernel and for user mode, and the task state segment.\<close>

lemma gdt_segments:
  "\<exists>t ts. gdt_init tss = Inr (t, ts) \<and> tss_ss0 ts = 0x10 \<and>
     (\<forall>i \<in> {1, 2, 4, 5}. seg_base (t ! i) = 0 \<and> seg_size (t ! i) = 2 ^ 32 \<and> present (t ! i) \<and> is_system (t ! i) \<and> big (t ! i)) \<and>
     gd_type (t ! 1) = 8 \<and> gd_type (t ! 2) = 2 \<and> gd_type (t ! 4) = 8 \<and> gd_type (t ! 5) = 2 \<and>
     gd_DPL (t ! 1) = 0 \<and> gd_DPL (t ! 2) = 0 \<and> gd_DPL (t ! 4) = 3 \<and> gd_DPL (t ! 5) = 3 \<and>
     seg_base (t ! 3) = tss \<and> seg_size (t ! 3) = 108 \<and> gd_type (t ! 3) = 9 \<and> \<not> is_system (t ! 3) \<and> \<not> present (t ! 0)"
proof -
  have l: "LIMIT_4G AND 0xFFF00000 = 0" "(TSS_SIZE - 1) AND 0xFFF00000 = 0" by (simp_all add: LIMIT_4G_def TSS_SIZE_def)
  have d: "DPL_KERNEL \<le> 3" "DPL_USER \<le> 3" by (simp_all add: DPL_KERNEL_def DPL_USER_def)
  let ?code = "GDT_ENTRY_G OR GDT_ENTRY_D OR GDT_ENTRY_P OR GDT_ENTRY_S OR GDT_ENTRY_TYPE_X"
  let ?data = "GDT_ENTRY_G OR GDT_ENTRY_D OR GDT_ENTRY_P OR GDT_ENTRY_S OR GDT_ENTRY_TYPE_WR"
  have c: "?code = 0x3B" "?data = 0x9B" "GDT_ENTRY_P OR GDT_ENTRY_TYPE_X OR GDT_ENTRY_TYPE_A = 0x128"
    by (simp_all add: gdt_entry_bits)
  show ?thesis
    by (simp add: gdt_init_def set_gdt_desc_def c l Let_def seg_idx GDT_SIZE_def LIMIT_4G_def TSS_SIZE_def DPL_KERNEL_def DPL_USER_def
        gdt_entry_bits clear_desc_def zero_desc_def seg_base_def seg_limit_def seg_size_def base_fields)
qed

end
