(* ===== verification/Syscall.thy ===== *)
theory Syscall
  imports Rdix_Prelude
begin

text \<open>
  System calls: the stubs of \<^verbatim>\<open>kernel/syscall.c\<close>, each an \<^verbatim>\<open>int 0x80\<close> with the number in \<^verbatim>\<open>eax\<close>
  and up to three arguments in \<^verbatim>\<open>ebx\<close>, \<^verbatim>\<open>ecx\<close> and \<^verbatim>\<open>edx\<close>, and the table of
  \<^verbatim>\<open>kernel/syscall_gate.c\<close>. The functions themselves are modelled with their components; here
  they are names.
\<close>

section \<open>Numbers and functions\<close>

datatype syscall_t = SYS_NR_TEST | SYS_NR_SLEEP | SYS_NR_BRK | SYS_NR_FORK | SYS_NR_GETPID | SYS_NR_GETPPID
  | SYS_NR_EXIT | SYS_NR_WAITPID | SYS_NR_YIELD | SYS_NR_OPEN | SYS_NR_CREATE | SYS_NR_CLOSE
  | SYS_NR_READ | SYS_NR_WRITE | SYS_NR_SEEK | SYS_NR_READDIR | SYS_NR_MKDIR | SYS_NR_RMDIR
  | SYS_NR_CHDIR | SYS_NR_GETPWD | SYS_NR_LINK | SYS_NR_UNLINK

fun nr :: "syscall_t \<Rightarrow> nat" where
  "nr SYS_NR_TEST = 0"
| "nr SYS_NR_SLEEP = 1"
| "nr SYS_NR_BRK = 2"
| "nr SYS_NR_FORK = 3"
| "nr SYS_NR_GETPID = 4"
| "nr SYS_NR_GETPPID = 5"
| "nr SYS_NR_EXIT = 6"
| "nr SYS_NR_WAITPID = 7"
| "nr SYS_NR_YIELD = 8"
| "nr SYS_NR_OPEN = 9"
| "nr SYS_NR_CREATE = 10"
| "nr SYS_NR_CLOSE = 11"
| "nr SYS_NR_READ = 12"
| "nr SYS_NR_WRITE = 13"
| "nr SYS_NR_SEEK = 14"
| "nr SYS_NR_READDIR = 15"
| "nr SYS_NR_MKDIR = 16"
| "nr SYS_NR_RMDIR = 17"
| "nr SYS_NR_CHDIR = 18"
| "nr SYS_NR_GETPWD = 19"
| "nr SYS_NR_LINK = 20"
| "nr SYS_NR_UNLINK = 21"

datatype kernel_fn = Fn_default | Fn_sys_test | Fn_task_sleep | Fn_sys_brk | Fn_sys_fork | Fn_sys_getpid | Fn_sys_getppid
  | Fn_sys_exit | Fn_sys_waitpid | Fn_sys_yield | Fn_sys_open | Fn_sys_create | Fn_sys_close
  | Fn_sys_read | Fn_sys_write | Fn_sys_lseek | Fn_sys_readdir | Fn_sys_mkdir | Fn_sys_rmdir
  | Fn_sys_chdir | Fn_sys_getpwd | Fn_sys_link | Fn_sys_unlink

text \<open>The registers at the trap; a register a stub does not load holds whatever it held.\<close>

record trap =
  t_eax :: nat
  t_ebx :: "u32 option"
  t_ecx :: "u32 option"
  t_edx :: "u32 option"

definition syscall0 :: "syscall_t \<Rightarrow> trap" where
  "syscall0 n = \<lparr>t_eax = nr n, t_ebx = None, t_ecx = None, t_edx = None\<rparr>"

definition syscall1 :: "syscall_t \<Rightarrow> u32 \<Rightarrow> trap" where
  "syscall1 n arg1 = \<lparr>t_eax = nr n, t_ebx = Some arg1, t_ecx = None, t_edx = None\<rparr>"

definition syscall2 :: "syscall_t \<Rightarrow> u32 \<Rightarrow> u32 \<Rightarrow> trap" where
  "syscall2 n arg1 arg2 = \<lparr>t_eax = nr n, t_ebx = Some arg1, t_ecx = Some arg2, t_edx = None\<rparr>"

definition syscall3 :: "syscall_t \<Rightarrow> u32 \<Rightarrow> u32 \<Rightarrow> u32 \<Rightarrow> trap" where
  "syscall3 n arg1 arg2 arg3 = \<lparr>t_eax = nr n, t_ebx = Some arg1, t_ecx = Some arg2, t_edx = Some arg3\<rparr>"

section \<open>Stubs\<close>

definition u_test :: "trap" where "u_test = syscall0 SYS_NR_TEST"
definition u_sleep :: "u32 \<Rightarrow> trap" where "u_sleep ms = syscall1 SYS_NR_SLEEP ms"
definition u_brk :: "u32 \<Rightarrow> trap" where "u_brk vaddr = syscall1 SYS_NR_BRK vaddr"
definition u_fork :: "trap" where "u_fork = syscall0 SYS_NR_FORK"
definition u_getpid :: "trap" where "u_getpid = syscall0 SYS_NR_GETPID"
definition u_getppid :: "trap" where "u_getppid = syscall0 SYS_NR_GETPPID"
definition u_exit :: "u32 \<Rightarrow> trap" where "u_exit status = syscall1 SYS_NR_EXIT status"
definition u_waitpid :: "u32 \<Rightarrow> u32 \<Rightarrow> trap" where "u_waitpid pid status = syscall2 SYS_NR_WAITPID pid status"
definition u_yield :: "trap" where "u_yield = syscall0 SYS_NR_YIELD"
definition u_open :: "u32 \<Rightarrow> u32 \<Rightarrow> u32 \<Rightarrow> trap" where "u_open filename flags mode = syscall3 SYS_NR_OPEN filename flags mode"
definition u_create :: "u32 \<Rightarrow> u32 \<Rightarrow> trap" where "u_create filename mode = syscall2 SYS_NR_CREATE filename mode"
definition u_close :: "u32 \<Rightarrow> trap" where "u_close fd = syscall1 SYS_NR_CLOSE fd"
definition u_read :: "u32 \<Rightarrow> u32 \<Rightarrow> u32 \<Rightarrow> trap" where "u_read fd buf count = syscall3 SYS_NR_READ fd buf count"
definition u_write :: "u32 \<Rightarrow> u32 \<Rightarrow> u32 \<Rightarrow> trap" where "u_write fd buf count = syscall3 SYS_NR_WRITE fd buf count"
definition u_lseek :: "u32 \<Rightarrow> u32 \<Rightarrow> u32 \<Rightarrow> trap" where "u_lseek fd offset whence = syscall3 SYS_NR_SEEK fd offset whence"
definition u_readdir :: "u32 \<Rightarrow> u32 \<Rightarrow> u32 \<Rightarrow> trap" where "u_readdir fd dir count = syscall3 SYS_NR_READDIR fd dir count"
definition u_mkdir :: "u32 \<Rightarrow> u32 \<Rightarrow> trap" where "u_mkdir pathname mode = syscall2 SYS_NR_MKDIR pathname mode"
definition u_rmdir :: "u32 \<Rightarrow> trap" where "u_rmdir pathname = syscall1 SYS_NR_RMDIR pathname"
definition u_chdir :: "u32 \<Rightarrow> trap" where "u_chdir pathname = syscall1 SYS_NR_CHDIR pathname"
definition u_getpwd :: "u32 \<Rightarrow> u32 \<Rightarrow> trap" where "u_getpwd buf len = syscall2 SYS_NR_GETPWD buf len"
definition u_link :: "u32 \<Rightarrow> u32 \<Rightarrow> trap" where "u_link oldname newname = syscall2 SYS_NR_LINK oldname newname"
definition u_unlink :: "u32 \<Rightarrow> trap" where "u_unlink pathname = syscall1 SYS_NR_UNLINK pathname"

lemmas stub_defs = u_test_def u_sleep_def u_brk_def u_fork_def u_getpid_def u_getppid_def u_exit_def u_waitpid_def
  u_yield_def u_open_def u_create_def u_close_def u_read_def u_write_def u_lseek_def u_readdir_def
  u_mkdir_def u_rmdir_def u_chdir_def u_getpwd_def u_link_def u_unlink_def
  syscall0_def syscall1_def syscall2_def syscall3_def

section \<open>The table\<close>

definition SYSCALL_NUM :: nat where "SYSCALL_NUM = 64"

definition syscall_assignments :: "(syscall_t \<times> kernel_fn) list" where
  "syscall_assignments =
     [(SYS_NR_TEST, Fn_sys_test), (SYS_NR_SLEEP, Fn_task_sleep), (SYS_NR_BRK, Fn_sys_brk), (SYS_NR_FORK, Fn_sys_fork),
      (SYS_NR_GETPID, Fn_sys_getpid), (SYS_NR_GETPPID, Fn_sys_getppid), (SYS_NR_EXIT, Fn_sys_exit), (SYS_NR_WAITPID, Fn_sys_waitpid),
      (SYS_NR_YIELD, Fn_sys_yield), (SYS_NR_OPEN, Fn_sys_open), (SYS_NR_CREATE, Fn_sys_create), (SYS_NR_CLOSE, Fn_sys_close),
      (SYS_NR_READ, Fn_sys_read), (SYS_NR_WRITE, Fn_sys_write), (SYS_NR_SEEK, Fn_sys_lseek), (SYS_NR_READDIR, Fn_sys_readdir),
      (SYS_NR_MKDIR, Fn_sys_mkdir), (SYS_NR_RMDIR, Fn_sys_rmdir), (SYS_NR_CHDIR, Fn_sys_chdir), (SYS_NR_GETPWD, Fn_sys_getpwd),
      (SYS_NR_LINK, Fn_sys_link), (SYS_NR_UNLINK, Fn_sys_unlink)]"

definition syscall_init :: "kernel_fn list res" where
  "syscall_init =
     rbind (for_each (\<lambda>i t. arr_set t i Fn_default) [0..<SYSCALL_NUM] (replicate SYSCALL_NUM Fn_default)) (\<lambda>t.
     for_each (\<lambda>(n, g) t. arr_set t (nr n) g) syscall_assignments t)"

definition syscall_check :: "nat \<Rightarrow> unit res" where
  "syscall_check sys_vector = ensure (\<not> sys_vector \<ge> SYSCALL_NUM) Panic"

text \<open>The entry in \<^verbatim>\<open>handlers.asm\<close>: the check, then the call through the table.\<close>

definition int80 :: "kernel_fn list \<Rightarrow> trap \<Rightarrow> (kernel_fn \<times> u32 option list) res" where
  "int80 table r =
     rbind (syscall_check (t_eax r)) (\<lambda>_.
     rbind (arr_get table (t_eax r)) (\<lambda>g. Inr (g, [t_ebx r, t_ecx r, t_edx r])))"

lemma syscall_table:
  "\<exists>t. syscall_init = Inr t \<and> length t = SYSCALL_NUM \<and> (\<forall>(n, g) \<in> set syscall_assignments. t ! nr n = g) \<and>
     (\<forall>i < SYSCALL_NUM. 22 \<le> i \<longrightarrow> t ! i = Fn_default)"
proof -
  have keep: "for_each (\<lambda>i t. arr_set t i Fn_default) is (replicate n Fn_default) = Inr (replicate n Fn_default)"
    if "\<forall>i \<in> set is. i < n" for "is" n
    using that
  proof (induction "is")
    case (Cons a xs)
    have "(replicate n Fn_default)[a := Fn_default] = replicate n Fn_default"
      using Cons.prems by (intro nth_equalityI) (simp_all add: nth_list_update)
    then show ?case using Cons by simp
  qed simp
  have "for_each (\<lambda>i t. arr_set t i Fn_default) [0..<SYSCALL_NUM] (replicate SYSCALL_NUM Fn_default) =
      Inr (replicate SYSCALL_NUM Fn_default)"
    by (rule keep) simp
  then show ?thesis by (simp add: syscall_init_def syscall_assignments_def SYSCALL_NUM_def nth_list_update)
qed

text \<open>
  C38: Every stub reaches the kernel function of its name with its arguments in their order. The
  other numbers below 64 reach the default function, and a number from 64 on, which any
  user program can load, stops the kernel.
\<close>

theorem syscalls_reach:
  "\<exists>t. syscall_init = Inr t \<and>
    int80 t (u_test) = Inr (Fn_sys_test, [None, None, None]) \<and>
    int80 t (u_sleep ms) = Inr (Fn_task_sleep, [Some ms, None, None]) \<and>
    int80 t (u_brk vaddr) = Inr (Fn_sys_brk, [Some vaddr, None, None]) \<and>
    int80 t (u_fork) = Inr (Fn_sys_fork, [None, None, None]) \<and>
    int80 t (u_getpid) = Inr (Fn_sys_getpid, [None, None, None]) \<and>
    int80 t (u_getppid) = Inr (Fn_sys_getppid, [None, None, None]) \<and>
    int80 t (u_exit status) = Inr (Fn_sys_exit, [Some status, None, None]) \<and>
    int80 t (u_waitpid pid status) = Inr (Fn_sys_waitpid, [Some pid, Some status, None]) \<and>
    int80 t (u_yield) = Inr (Fn_sys_yield, [None, None, None]) \<and>
    int80 t (u_open filename flags mode) = Inr (Fn_sys_open, [Some filename, Some flags, Some mode]) \<and>
    int80 t (u_create filename mode) = Inr (Fn_sys_create, [Some filename, Some mode, None]) \<and>
    int80 t (u_close fd) = Inr (Fn_sys_close, [Some fd, None, None]) \<and>
    int80 t (u_read fd buf count) = Inr (Fn_sys_read, [Some fd, Some buf, Some count]) \<and>
    int80 t (u_write fd buf count) = Inr (Fn_sys_write, [Some fd, Some buf, Some count]) \<and>
    int80 t (u_lseek fd offset whence) = Inr (Fn_sys_lseek, [Some fd, Some offset, Some whence]) \<and>
    int80 t (u_readdir fd dir count) = Inr (Fn_sys_readdir, [Some fd, Some dir, Some count]) \<and>
    int80 t (u_mkdir pathname mode) = Inr (Fn_sys_mkdir, [Some pathname, Some mode, None]) \<and>
    int80 t (u_rmdir pathname) = Inr (Fn_sys_rmdir, [Some pathname, None, None]) \<and>
    int80 t (u_chdir pathname) = Inr (Fn_sys_chdir, [Some pathname, None, None]) \<and>
    int80 t (u_getpwd buf len) = Inr (Fn_sys_getpwd, [Some buf, Some len, None]) \<and>
    int80 t (u_link oldname newname) = Inr (Fn_sys_link, [Some oldname, Some newname, None]) \<and>
    int80 t (u_unlink pathname) = Inr (Fn_sys_unlink, [Some pathname, None, None]) \<and>
    (\<forall>r. 22 \<le> t_eax r \<and> t_eax r < 64 \<longrightarrow> int80 t r = Inr (Fn_default, [t_ebx r, t_ecx r, t_edx r])) \<and>
    (\<forall>r. 64 \<le> t_eax r \<longrightarrow> int80 t r = Inl Panic)"
proof -
  from syscall_table obtain t where t: "syscall_init = Inr t" "length t = 64" "\<forall>(n, g) \<in> set syscall_assignments. t ! nr n = g"
      "\<forall>i < 64. 22 \<le> i \<longrightarrow> t ! i = Fn_default"
    by (auto simp: SYSCALL_NUM_def)
  from t(3) have n: "t ! 0 = Fn_sys_test" "t ! 1 = Fn_task_sleep" "t ! 2 = Fn_sys_brk" "t ! 3 = Fn_sys_fork"
      "t ! 4 = Fn_sys_getpid" "t ! 5 = Fn_sys_getppid" "t ! 6 = Fn_sys_exit" "t ! 7 = Fn_sys_waitpid"
      "t ! 8 = Fn_sys_yield" "t ! 9 = Fn_sys_open" "t ! 10 = Fn_sys_create" "t ! 11 = Fn_sys_close"
      "t ! 12 = Fn_sys_read" "t ! 13 = Fn_sys_write" "t ! 14 = Fn_sys_lseek" "t ! 15 = Fn_sys_readdir"
      "t ! 16 = Fn_sys_mkdir" "t ! 17 = Fn_sys_rmdir" "t ! 18 = Fn_sys_chdir" "t ! 19 = Fn_sys_getpwd"
      "t ! 20 = Fn_sys_link" "t ! 21 = Fn_sys_unlink"
    by (simp_all add: syscall_assignments_def)
  show ?thesis
    using t(1,2,4) n by (intro exI [of _ t]) (simp add: int80_def syscall_check_def stub_defs SYSCALL_NUM_def)
qed

theorem syscalls_reach_witness:
  "\<exists>t. syscall_init = Inr t \<and> int80 t \<lparr>t_eax = 64, t_ebx = None, t_ecx = None, t_edx = None\<rparr> = Inl Panic"
proof -
  obtain t where t: "syscall_init = Inr t" "\<forall>r. 64 \<le> t_eax r \<longrightarrow> int80 t r = Inl Panic"
    using syscalls_reach [where ms = 0 and vaddr = 0 and status = 0 and pid = 0 and filename = 0 and flags = 0 and mode = 0 and fd = 0 and buf = 0
      and count = 0 and offset = 0 and whence = 0 and dir = 0 and pathname = 0 and len = 0 and oldname = 0 and newname = 0] by (elim exE conjE) (rule that)
  then show ?thesis by (intro exI [of _ t]) simp
qed

end
