(* ===== verification/Usb_Ring.thy ===== *)
theory Usb_Ring
  imports Task Interrupts
begin

text \<open>
  The rings of the USB 3 driver, \<^verbatim>\<open>hd/usb3.0/ringProc.c\<close>: the request blocks (TRBs) of commands
  and control transfers in memory, which is a function from aligned addresses to words, and
  the wait for their completion. A routine that waits is in two parts: what it does up to
  \<^verbatim>\<open>block\<close>, which gives the interrupt flag to restore, and what it does when it runs again.
\<close>

section \<open>Constants\<close>

definition TRB_SIZE :: u32 where "TRB_SIZE = 0x10"
definition USBDEVCNT :: nat where "USBDEVCNT = 8"
definition LinkTRB :: u32 where "LinkTRB = 6"
definition Normal :: u32 where "Normal = 1"
definition SetupStage :: u32 where "SetupStage = 2"
definition DataStage :: u32 where "DataStage = 3"
definition StatusStage :: u32 where "StatusStage = 4"
definition PortStatusChangeEvent :: u32 where "PortStatusChangeEvent = 34"
definition GetEnableSlot :: u32 where "GetEnableSlot = 9"
definition AddressDevice :: u32 where "AddressDevice = 11"
definition ConfigureEndpoint :: u32 where "ConfigureEndpoint = 12"
definition NoDataStage :: u32 where "NoDataStage = 0"
definition INDataStage :: u32 where "INDataStage = 3"
definition USB_OUT :: u32 where "USB_OUT = 0"
definition USB_IN :: u32 where "USB_IN = 1"
definition GET_DESCRIPORT :: u32 where "GET_DESCRIPORT = 6"
definition SET_CONFIGURATION :: u32 where "SET_CONFIGURATION = 9"
definition SET_INTERFACE :: u32 where "SET_INTERFACE = 11"
definition EVENT_SUCCESS :: u32 where "EVENT_SUCCESS = 1"

lemmas trb_consts = LinkTRB_def Normal_def SetupStage_def DataStage_def StatusStage_def PortStatusChangeEvent_def
  GetEnableSlot_def AddressDevice_def ConfigureEndpoint_def NoDataStage_def INDataStage_def USB_OUT_def USB_IN_def
  GET_DESCRIPORT_def SET_CONFIGURATION_def SET_INTERFACE_def EVENT_SUCCESS_def

section \<open>Rings\<close>

type_synonym ram = "u32 \<Rightarrow> u32"

record ring_t =
  r_trb :: u32
  cycle_flag :: bool

definition trb_type :: "u32 \<Rightarrow> u32" where
  "trb_type w = drop_bit 10 w AND 0x3f"

text \<open>
  \<^verbatim>\<open>PCS\<close> has the type \<^verbatim>\<open>_Bool\<close>, so \<^verbatim>\<open>~PCS\<close> is \<open>-1\<close> or \<open>-2\<close> and stores true. The bit that asks
  for it is read from the first block of the ring, which the pointer has moved to.
\<close>

definition next_trb :: "ring_t \<Rightarrow> ram \<Rightarrow> ring_t \<times> ram" where
  "next_trb ring m =
     (let trb = r_trb ring + TRB_SIZE; PCS = cycle_flag ring in
      if trb_type (m (trb + 12)) = LinkTRB then
        let m = m(trb + 12 := if PCS then m (trb + 12) OR 1 else m (trb + 12) AND NOT 1);
            trb = m trb;
            PCS = (if bit (m (trb + 12)) 1 then True else PCS) in
        (\<lparr>r_trb = trb, cycle_flag = PCS\<rparr>, m)
      else (\<lparr>r_trb = trb, cycle_flag = PCS\<rparr>, m))"

definition write_trb :: "u32 \<Rightarrow> u32 \<Rightarrow> u32 \<Rightarrow> u32 \<Rightarrow> u32 \<Rightarrow> ram \<Rightarrow> ram" where
  "write_trb trb w0 w1 w2 w3 m = m(trb := w0, trb + 4 := w1, trb + 8 := w2, trb + 12 := w3)"

text \<open>The steps every request repeats: the block at the pointer gets its words and the producer's cycle bit.\<close>

definition put_trb :: "u32 \<Rightarrow> u32 \<Rightarrow> u32 \<Rightarrow> u32 \<Rightarrow> ring_t \<Rightarrow> ram \<Rightarrow> ring_t \<times> ram" where
  "put_trb w0 w1 w2 w3 ring m = next_trb ring (write_trb (r_trb ring) w0 w1 w2 (w3 OR of_bool (cycle_flag ring)) m)"

section \<open>Devices and the controller\<close>

datatype slot_state_t = slot_Disabled | slot_Enabled | slot_Default | slot_Addressed | slot_Configured

text \<open>
  A device of the pool. An endpoint without ring has the null pointer; \<open>configs\<close> is the list of the
  configurations, front first, with \<open>None\<close> for a pointer not yet set.
\<close>

record general_usb_dev_t =
  root_port :: u8
  route_string :: u32
  slot_id :: u32
  ep_rings :: "ring_t option list"
  slot_state :: slot_state_t
  last_event_trb :: u32
  wait_task :: nref
  wait_trb_type :: u32
  configs :: "u32 option list"

text \<open>What \<^verbatim>\<open>xhc_cmd_address_device\<close> and \<^verbatim>\<open>xhc_cmd_configure_endpoint\<close> pass to the controller; the other fields stay 0.\<close>

record endpoint_context =
  EP_type :: u8
  max_packet_size :: u16
  max_burst_size :: u8
  TR_dequeue_point_lo :: u32
  ep_interval :: u8
  CErr :: u8

record input_context_t =
  add_flag :: u32
  root_hub_port_number :: u8
  contex_entries :: u8
  EP :: "endpoint_context list"

text \<open>
  The controller: the registers of its ports by number, the writes to its doorbells so far, the
  registers of the event ring and the rings. \<open>descs_at\<close> has the addresses of the device
  descriptors in the pool.
\<close>

record xhci = kernel +
  interrupts :: intr
  ram :: ram
  op_base :: "u32 \<Rightarrow> u32"
  portsc :: "u8 \<Rightarrow> u32"
  doorbells :: "(u32 \<times> u32) list"
  ERSTSZ :: u32
  ERSTBA_Lo :: u32
  ERDP_Lo :: u32
  IMOD :: u32
  IMAN :: u32
  cmd_ring :: ring_t
  event_ring :: ring_t
  max_slot :: u8
  max_port :: u8
  max_scratchpad_buf :: u16
  scratch_pages :: u8
  usb_device_pool :: "general_usb_dev_t list"
  descs_at :: "nat \<Rightarrow> u32"
  dev_enum_list :: "nat list"
  dev_enum_task :: nref
  input_context :: input_context_t
  test_dev :: "nat option"

definition get_dev :: "nat \<Rightarrow> 'a xhci_scheme \<Rightarrow> general_usb_dev_t res" where
  "get_dev d s = arr_get (usb_device_pool s) d"

definition upd_dev :: "nat \<Rightarrow> (general_usb_dev_t \<Rightarrow> general_usb_dev_t) \<Rightarrow> 'a xhci_scheme \<Rightarrow> 'a xhci_scheme res" where
  "upd_dev d f s = rbind (get_dev d s) (\<lambda>u. Inr (s\<lparr>usb_device_pool := (usb_device_pool s)[d := f u]\<rparr>))"

text \<open>The block of statements that rings a doorbell and waits, atomically, and its end.\<close>

definition ring_and_block :: "nat \<Rightarrow> u32 \<Rightarrow> u32 \<Rightarrow> 'a xhci_scheme \<Rightarrow> (bool \<times> 'a xhci_scheme) res" where
  "ring_and_block d bell v s =
     (let (st, s) = get_and_disable_IF s; s = s\<lparr>doorbells := doorbells s @ [(bell, v)]\<rparr> in
      rbind (upd_dev d (\<lambda>u. u\<lparr>wait_task := running_task s\<rparr>) s) (\<lambda>s.
      rbind (block None Null TASK_BLOCKED [] s) (\<lambda>s. Inr (st, s))))"

definition wait_end :: "nat \<Rightarrow> bool \<Rightarrow> 'a xhci_scheme \<Rightarrow> 'a xhci_scheme res" where
  "wait_end d st s = rbind (upd_dev d (\<lambda>u. u\<lparr>wait_task := Null\<rparr>) s) (\<lambda>s. Inr (set_IF st s))"

definition expect_event :: "nat \<Rightarrow> u32 \<Rightarrow> 'a xhci_scheme \<Rightarrow> 'a xhci_scheme res" where
  "expect_event d ty = upd_dev d (\<lambda>u. u\<lparr>wait_trb_type := ty, last_event_trb := 0\<rparr>)"

section \<open>Commands\<close>

definition put_cmd :: "u32 \<Rightarrow> u32 \<Rightarrow> u32 \<Rightarrow> u32 \<Rightarrow> 'a xhci_scheme \<Rightarrow> 'a xhci_scheme" where
  "put_cmd w0 w1 w2 w3 s = (let (r, m) = put_trb w0 w1 w2 w3 (cmd_ring s) (ram s) in s\<lparr>cmd_ring := r, ram := m\<rparr>)"

definition xhc_cmd_enable_slot :: "nat \<Rightarrow> 'a xhci_scheme \<Rightarrow> (bool \<times> 'a xhci_scheme) res" where
  "xhc_cmd_enable_slot d s =
     (let s = put_cmd 0 0 0 (push_bit 10 GetEnableSlot) s in
      rbind (expect_event d GetEnableSlot s) (ring_and_block d 0 0))"

definition xhc_cmd_enable_slot_end :: "nat \<Rightarrow> bool \<Rightarrow> 'a xhci_scheme \<Rightarrow> 'a xhci_scheme res" where
  "xhc_cmd_enable_slot_end d st s =
     rbind (wait_end d st s) (\<lambda>s.
     rbind (get_dev d s) (\<lambda>u.
     rbind (ensure (last_event_trb u \<noteq> 0) Assert) (\<lambda>_.
     upd_dev d (\<lambda>u. u\<lparr>slot_id := drop_bit 24 (ram s (last_event_trb u + 12)), slot_state := slot_Enabled\<rparr>) s)))"

definition xhc_cmd_address_device :: "nat \<Rightarrow> u32 \<Rightarrow> bool \<Rightarrow> 'a xhci_scheme \<Rightarrow> (bool \<times> 'a xhci_scheme) res" where
  "xhc_cmd_address_device d input_context_point BSR s =
     rbind (get_dev d s) (\<lambda>u.
     rbind (ensure (slot_id u < ucast (max_slot s) \<and> slot_id u > 0) Assert) (\<lambda>_.
     rbind (ensure (input_context_point AND 0xf = 0) Assert) (\<lambda>_.
     let s = put_cmd input_context_point 0 0
               (push_bit 24 (slot_id u) OR push_bit 10 AddressDevice OR push_bit 9 (of_bool BSR)) s in
     rbind (expect_event d AddressDevice s) (ring_and_block d 0 0))))"

definition xhc_cmd_address_device_end :: "nat \<Rightarrow> bool \<Rightarrow> 'a xhci_scheme \<Rightarrow> 'a xhci_scheme res" where
  "xhc_cmd_address_device_end d st s =
     rbind (wait_end d st s) (upd_dev d (\<lambda>u. u\<lparr>slot_state := slot_Addressed\<rparr>))"

definition xhc_cmd_configure_endpoint :: "nat \<Rightarrow> u32 \<Rightarrow> 'a xhci_scheme \<Rightarrow> (bool \<times> 'a xhci_scheme) res" where
  "xhc_cmd_configure_endpoint d input_context_point s =
     rbind (get_dev d s) (\<lambda>u.
     rbind (ensure (slot_id u < ucast (max_slot s) \<and> slot_id u > 0) Assert) (\<lambda>_.
     rbind (ensure (input_context_point AND 0xf = 0) Assert) (\<lambda>_.
     let s = put_cmd input_context_point 0 0 (push_bit 24 (slot_id u) OR push_bit 10 ConfigureEndpoint) s in
     rbind (expect_event d ConfigureEndpoint s) (ring_and_block d 0 0))))"

section \<open>Control transfers\<close>

text \<open>One block on the ring of endpoint 0.\<close>

definition put_ep0 :: "nat \<Rightarrow> u32 \<Rightarrow> u32 \<Rightarrow> u32 \<Rightarrow> u32 \<Rightarrow> 'a xhci_scheme \<Rightarrow> 'a xhci_scheme res" where
  "put_ep0 d w0 w1 w2 w3 s =
     rbind (get_dev d s) (\<lambda>u.
     rbind (arr_get (ep_rings u) 0) (\<lambda>ro.
     case ro of
       None \<Rightarrow> Inl Fault
     | Some r \<Rightarrow>
         let (r, m) = put_trb w0 w1 w2 w3 r (ram s) in
         upd_dev d (\<lambda>u. u\<lparr>ep_rings := (ep_rings u)[0 := Some r]\<rparr>) (s\<lparr>ram := m\<rparr>)))"

definition setup_stage :: "nat \<Rightarrow> u32 \<Rightarrow> u32 \<Rightarrow> u32 \<Rightarrow> 'a xhci_scheme \<Rightarrow> 'a xhci_scheme res" where
  "setup_stage d w0 w1 trt = put_ep0 d w0 w1 8 (push_bit 10 SetupStage OR push_bit 16 trt OR push_bit 6 1)"

definition data_stage :: "nat \<Rightarrow> u32 \<Rightarrow> u32 \<Rightarrow> 'a xhci_scheme \<Rightarrow> 'a xhci_scheme res" where
  "data_stage d buf n = put_ep0 d buf 0 n (push_bit 10 DataStage OR push_bit 16 USB_IN)"

definition status_stage :: "nat \<Rightarrow> u32 \<Rightarrow> 'a xhci_scheme \<Rightarrow> 'a xhci_scheme res" where
  "status_stage d dir = put_ep0 d 0 0 0 (push_bit 10 StatusStage OR push_bit 16 dir OR push_bit 5 1)"

definition ep0_wait :: "nat \<Rightarrow> 'a xhci_scheme \<Rightarrow> (bool \<times> 'a xhci_scheme) res" where
  "ep0_wait d s =
     rbind (expect_event d StatusStage s) (\<lambda>s. rbind (get_dev d s) (\<lambda>u. ring_and_block d (slot_id u) 1 s))"

definition addressed :: "nat \<Rightarrow> 'a xhci_scheme \<Rightarrow> unit res" where
  "addressed d s = rbind (get_dev d s) (\<lambda>u. ensure (slot_state u = slot_Addressed) Assert)"

definition xhc_transfer_get_descriptor :: "nat \<Rightarrow> u8 \<Rightarrow> u8 \<Rightarrow> u32 \<Rightarrow> u16 \<Rightarrow> 'a xhci_scheme \<Rightarrow> (bool \<times> 'a xhci_scheme) res" where
  "xhc_transfer_get_descriptor d desc_type desc_index buf bfsize s =
     rbind (addressed d s) (\<lambda>_.
     rbind (setup_stage d (push_bit 24 (ucast desc_type) OR push_bit 16 (ucast desc_index) OR push_bit 8 GET_DESCRIPORT OR 0x80)
              (push_bit 16 (ucast bfsize)) INDataStage s) (\<lambda>s.
     rbind (data_stage d buf (ucast bfsize) s) (\<lambda>s.
     rbind (status_stage d USB_OUT s) (ep0_wait d))))"

definition xhc_transfer_set_configuration :: "nat \<Rightarrow> u32 \<Rightarrow> 'a xhci_scheme \<Rightarrow> (bool \<times> 'a xhci_scheme) res" where
  "xhc_transfer_set_configuration d config_value s =
     rbind (addressed d s) (\<lambda>_.
     rbind (setup_stage d (push_bit 16 config_value OR push_bit 8 SET_CONFIGURATION) 0 NoDataStage s) (\<lambda>s.
     rbind (status_stage d USB_IN s) (ep0_wait d)))"

definition xhc_transfer_set_interface :: "nat \<Rightarrow> u8 \<Rightarrow> u8 \<Rightarrow> 'a xhci_scheme \<Rightarrow> (bool \<times> 'a xhci_scheme) res" where
  "xhc_transfer_set_interface d intf alter_set s =
     rbind (addressed d s) (\<lambda>_.
     rbind (setup_stage d (push_bit 16 (ucast alter_set) OR push_bit 8 SET_INTERFACE OR 1) (ucast intf) NoDataStage s) (\<lambda>s.
     rbind (status_stage d USB_IN s) (ep0_wait d)))"

definition get_idle :: "nat \<Rightarrow> u32 \<Rightarrow> u32 \<Rightarrow> 'a xhci_scheme \<Rightarrow> (bool \<times> 'a xhci_scheme) res" where
  "get_idle d buf bsize s =
     rbind (setup_stage d (push_bit 8 2 OR 0xA1) (push_bit 16 1) NoDataStage s) (\<lambda>s.
     rbind (data_stage d buf bsize s) (\<lambda>s.
     rbind (status_stage d USB_OUT s) (ep0_wait d)))"

definition get_protocol :: "nat \<Rightarrow> u32 \<Rightarrow> u32 \<Rightarrow> 'a xhci_scheme \<Rightarrow> (bool \<times> 'a xhci_scheme) res" where
  "get_protocol d buf bsize s =
     rbind (setup_stage d (push_bit 8 3 OR 0xA1) (push_bit 16 1) NoDataStage s) (\<lambda>s.
     rbind (data_stage d buf bsize s) (\<lambda>s.
     rbind (status_stage d USB_OUT s) (ep0_wait d)))"

definition get_report :: "nat \<Rightarrow> u32 \<Rightarrow> u32 \<Rightarrow> 'a xhci_scheme \<Rightarrow> (bool \<times> 'a xhci_scheme) res" where
  "get_report d buf bsize s =
     rbind (setup_stage d (push_bit 16 1 OR push_bit 8 1 OR 0xA1) (push_bit 16 8) NoDataStage s) (\<lambda>s.
     rbind (data_stage d buf bsize s) (\<lambda>s.
     rbind (status_stage d USB_OUT s) (ep0_wait d)))"

end
