(* ===== verification/Usb_Enum.thy ===== *)
theory Usb_Enum
  imports Usb_Ring
begin

text \<open>
  The rest of the USB 3 driver: the search of descriptors and the enumeration task of
  \<^verbatim>\<open>deviceEnum.c\<close>, the interrupt handler and the start of the controller of \<^verbatim>\<open>xhcd.c\<close> and the
  set-up of an input device of \<^verbatim>\<open>hid.c\<close>. The enumeration task is a machine whose states are
  the places where it waits; between two of them the memory is the controller's to write.
  Addresses of fresh blocks are arguments.
\<close>

section \<open>Descriptors\<close>

definition DESC_DEVICE :: u8 where "DESC_DEVICE = 1"
definition DESC_CONFIGURATION :: u8 where "DESC_CONFIGURATION = 2"
definition DESC_INTERFACE :: u8 where "DESC_INTERFACE = 4"
definition DESC_ENDPOINT :: u8 where "DESC_ENDPOINT = 5"
definition USB_CLASS_HID_DEVICE :: u8 where "USB_CLASS_HID_DEVICE = 3"

lemmas desc_consts = DESC_DEVICE_def DESC_CONFIGURATION_def DESC_INTERFACE_def DESC_ENDPOINT_def USB_CLASS_HID_DEVICE_def

definition ram_byte :: "ram \<Rightarrow> u32 \<Rightarrow> u8" where
  "ram_byte m a = ucast (drop_bit (8 * unat (a AND 3)) (m (a AND NOT 3)))"

definition bLength :: "ram \<Rightarrow> u32 \<Rightarrow> u8" where "bLength m d = ram_byte m d"
definition bDescriptorType :: "ram \<Rightarrow> u32 \<Rightarrow> u8" where "bDescriptorType m d = ram_byte m (d + 1)"
definition wTotalLength :: "ram \<Rightarrow> u32 \<Rightarrow> u16" where
  "wTotalLength m d = ucast (ram_byte m (d + 2)) OR push_bit 8 (ucast (ram_byte m (d + 3)))"
definition bNumInterface :: "ram \<Rightarrow> u32 \<Rightarrow> u8" where "bNumInterface m d = ram_byte m (d + 4)"
definition bConfigurationVale :: "ram \<Rightarrow> u32 \<Rightarrow> u8" where "bConfigurationVale m d = ram_byte m (d + 5)"
definition bNumEndpoints :: "ram \<Rightarrow> u32 \<Rightarrow> u8" where "bNumEndpoints m d = ram_byte m (d + 4)"
definition bInterfaceClass :: "ram \<Rightarrow> u32 \<Rightarrow> u8" where "bInterfaceClass m d = ram_byte m (d + 5)"
definition bEndpointAddress :: "ram \<Rightarrow> u32 \<Rightarrow> u8" where "bEndpointAddress m d = ram_byte m (d + 2)"
definition ep_bmAttribute :: "ram \<Rightarrow> u32 \<Rightarrow> u8" where "ep_bmAttribute m d = ram_byte m (d + 3)"
definition wMaxPacketSize :: "ram \<Rightarrow> u32 \<Rightarrow> u16" where
  "wMaxPacketSize m d = ucast (ram_byte m (d + 4)) OR push_bit 8 (ucast (ram_byte m (d + 5)))"
definition bNumConfiguration :: "ram \<Rightarrow> u32 \<Rightarrow> u8" where "bNumConfiguration m d = ram_byte m (d + 17)"

text \<open>The configurations are counted from the front of the list; 0 is the null pointer.\<close>

definition get_configuration_desc :: "u32 option list \<Rightarrow> int \<Rightarrow> u32 res" where
  "get_configuration_desc cs config_number =
     rbind (ensure (cs \<noteq> []) Assert) (\<lambda>_.
     rbind (ensure (config_number > 0) Assert) (\<lambda>_.
     if int (length cs) < config_number then Inr 0
     else case cs ! nat (config_number - 1) of None \<Rightarrow> Inl Fault | Some p \<Rightarrow> Inr p))"

partial_function (option) desc_loop :: "ram \<Rightarrow> u8 \<Rightarrow> int \<Rightarrow> u32 \<Rightarrow> int \<Rightarrow> u32 \<Rightarrow> u32 option" where
  "desc_loop m ty number lim count desc =
     (if desc < lim then
        if bDescriptorType m desc = ty then
          if count + 1 = number then Some desc
          else desc_loop m ty number lim (count + 1) (desc + ucast (bLength m desc))
        else desc_loop m ty number lim count (desc + ucast (bLength m desc))
      else Some 0)"

definition get_interface_desc :: "ram \<Rightarrow> u32 \<Rightarrow> int \<Rightarrow> u32 res" where
  "get_interface_desc m configuration interface_number =
     rbind (ensure (bDescriptorType m configuration = DESC_CONFIGURATION) Assert) (\<lambda>_.
     rbind (ensure (uint (bNumInterface m configuration) \<ge> interface_number) Assert) (\<lambda>_.
     rbind (ensure (interface_number > 0) Assert) (\<lambda>_.
     run (map_option Inr (desc_loop m DESC_INTERFACE interface_number
       (ucast (wTotalLength m configuration) + configuration) 0 configuration)))))"

definition get_endpoint_desc :: "ram \<Rightarrow> u32 \<Rightarrow> u32 \<Rightarrow> int \<Rightarrow> u32 res" where
  "get_endpoint_desc m cfig_desc intf ep_number =
     rbind (ensure (bDescriptorType m intf = DESC_INTERFACE) Assert) (\<lambda>_.
     rbind (ensure (uint (bNumEndpoints m intf) \<ge> ep_number) Assert) (\<lambda>_.
     rbind (ensure (ep_number > 0) Assert) (\<lambda>_.
     run (map_option Inr (desc_loop m DESC_ENDPOINT ep_number (ucast (wTotalLength m cfig_desc) + cfig_desc) 0 intf)))))"

section \<open>The pool and the interrupt handler\<close>

text \<open>The first device of the pool with a property.\<close>

fun first_dev :: "(general_usb_dev_t \<Rightarrow> bool) \<Rightarrow> nat \<Rightarrow> general_usb_dev_t list \<Rightarrow> nat option" where
  "first_dev P i [] = None"
| "first_dev P i (u # us) = (if P u then Some i else first_dev P (i + 1) us)"

definition get_free_usb_device :: "'a xhci_scheme \<Rightarrow> nat option" where
  "get_free_usb_device s = first_dev (\<lambda>u. root_port u = 0) 0 (usb_device_pool s)"

definition find_usb_device :: "u32 \<Rightarrow> 'a xhci_scheme \<Rightarrow> nat option res" where
  "find_usb_device sid s =
     rbind (ensure (sid \<noteq> 0) Assert) (\<lambda>_.
     Inr (first_dev (\<lambda>u. root_port u \<noteq> 0 \<and> slot_id u = sid) 0 (usb_device_pool s)))"

definition Polling :: u32 where "Polling = 7"
definition U0 :: u32 where "U0 = 0"

definition PLS :: "u32 \<Rightarrow> u32" where
  "PLS w = drop_bit 5 w AND 0xf"

definition port_status_change_event_proc :: "u32 \<Rightarrow> 'a xhci_scheme \<Rightarrow> 'a xhci_scheme res" where
  "port_status_change_event_proc event_trb s =
     (let port_id = ucast (drop_bit 24 (ram s event_trb)); reg = portsc s port_id in
      if PLS reg = Polling then Inr (s\<lparr>portsc := (portsc s)(port_id := reg OR 0x10)\<rparr>)
      else
        rbind (ensure (PLS reg = U0) Assert) (\<lambda>_.
        case get_free_usb_device s of
          None \<Rightarrow> Inl Panic
        | Some d \<Rightarrow>
            rbind (upd_dev d (\<lambda>u. u\<lparr>root_port := port_id, route_string := 0\<rparr>) s) (\<lambda>s.
            let s = s\<lparr>dev_enum_list := d # dev_enum_list s\<rparr> in
            rbind (ensure (dev_enum_task s \<noteq> Null) Assert) (\<lambda>_.
            rbind (owner_of s (dev_enum_task s)) (\<lambda>a.
            rbind (get_tcb s a) (\<lambda>t.
            if t_state t = TASK_WAITING then unblock (dev_enum_task s) s else Inr s))))))"

text \<open>An event that is neither a change of a port nor an error; \<open>deliver\<close> is what it does for its device.\<close>

definition deliver :: "nat \<Rightarrow> u32 \<Rightarrow> u32 \<Rightarrow> 'a xhci_scheme \<Rightarrow> 'a xhci_scheme res" where
  "deliver d transfer_type event_trb s =
     rbind (upd_dev d (\<lambda>u. u\<lparr>last_event_trb := event_trb\<rparr>) s) (\<lambda>s.
     if transfer_type = Normal then Inr s
     else
       rbind (get_dev d s) (\<lambda>u.
       rbind (ensure (wait_task u \<noteq> Null) Assert) (\<lambda>_.
       rbind (ensure (wait_trb_type u = transfer_type) Assert) (\<lambda>_.
       rbind (owner_of s (wait_task u)) (\<lambda>a.
       rbind (get_tcb s a) (\<lambda>t.
       rbind (ensure (t_state t = TASK_BLOCKED) Assert) (\<lambda>_.
       unblock (wait_task u) s)))))))"

definition completion :: "u32 \<Rightarrow> 'a xhci_scheme \<Rightarrow> 'a xhci_scheme res" where
  "completion event_trb s =
     (let transfer_type = trb_type (ram s (ram s event_trb + 12)); sid = drop_bit 24 (ram s (event_trb + 12)) in
      rbind (find_usb_device sid s) (\<lambda>dev.
      rbind (if transfer_type = GetEnableSlot then
               case first_dev (\<lambda>u. root_port u \<noteq> 0 \<and> slot_id u = 0 \<and> wait_task u \<noteq> Null) 0 (usb_device_pool s) of
                 Some i \<Rightarrow> Inr (Some i)
               | None \<Rightarrow> rbind (ensure (dev \<noteq> None) Panic) (\<lambda>_. Inr dev)
             else Inr dev) (\<lambda>dev.
      case dev of
        None \<Rightarrow> Inl (if transfer_type = Normal then Fault else Assert)
      | Some d \<Rightarrow> deliver d transfer_type event_trb s)))"

text \<open>The event after \<open>event_trb\<close>: at the end of the page the base of the segment, read from its table.\<close>

definition next_event :: "u32 \<Rightarrow> 'a xhci_scheme \<Rightarrow> u32" where
  "next_event event_trb s =
     (let e = event_trb + 16; base = ram s (ERSTBA_Lo s) in if base div PAGE_SIZE \<noteq> e div PAGE_SIZE then base else e)"

text \<open>\<open>event_type\<close> is the type of the first event: it is computed before the loop only.\<close>

definition one_event :: "u32 \<Rightarrow> u32 \<Rightarrow> 'a xhci_scheme \<Rightarrow> 'a xhci_scheme res" where
  "one_event event_type event_trb s =
     (if drop_bit 24 (ram s (event_trb + 8)) = EVENT_SUCCESS then
        if event_type = PortStatusChangeEvent then port_status_change_event_proc event_trb s
        else completion event_trb s
      else Inr s)"

partial_function (option) event_loop :: "u32 \<Rightarrow> bool \<Rightarrow> u32 \<Rightarrow> 'a xhci_scheme \<Rightarrow> (u32 \<times> 'a xhci_scheme) res option" where
  "event_loop event_type CCS event_trb s =
     (if bit (ram s (event_trb + 12)) 0 = CCS then
        case one_event event_type event_trb s of
          Inl e \<Rightarrow> Some (Inl e)
        | Inr s' \<Rightarrow> event_loop event_type CCS (next_event event_trb s') s'
      else Some (Inr (event_trb, s)))"

definition xhc_handler :: "'a xhci_scheme \<Rightarrow> 'a xhci_scheme res" where
  "xhc_handler s =
     (let event_trb = r_trb (event_ring s); CCS = cycle_flag (event_ring s); event_type = trb_type (ram s (event_trb + 12)) in
      rbind (run (event_loop event_type CCS event_trb s)) (\<lambda>(event_trb, s).
      Inr (s\<lparr>event_ring := \<lparr>r_trb = event_trb, cycle_flag = CCS\<rparr>, ERDP_Lo := event_trb OR 8,
             interrupts := lapic_send_eoi (interrupts s)\<rparr>)))"

section \<open>Starting the controller\<close>

definition USB_CC :: u32 where "USB_CC = 0x0c0330"
definition USBCMD :: u32 where "USBCMD = 0"
definition USBSTS :: u32 where "USBSTS = 1"
definition CONFIG :: u32 where "CONFIG = 0x38 div 4"
definition DCBAAP :: u32 where "DCBAAP = 0x30 div 4"
definition CRCR :: u32 where "CRCR = 0x18 div 4"
definition XHC_VECTOR :: u8 where "XHC_VECTOR = 0x20 + 0x18 + 1"

lemmas xhc_regs = USBCMD_def USBSTS_def CONFIG_def DCBAAP_def CRCR_def

text \<open>The loop that counts the shifts until \<^verbatim>\<open>PAGESIZE\<close> is 0.\<close>

fun count_shifts :: "nat \<Rightarrow> nat" where
  "count_shifts n = (if n = 0 then 0 else 1 + count_shifts (n div 2))"

declare count_shifts.simps [simp del]

text \<open>\<open>cap_base\<close> are the read-only capability registers, mapped with the others.\<close>

definition probe_xhc :: "pci_device_t option \<Rightarrow> (u32 \<Rightarrow> u32) \<Rightarrow> 'a xhci_scheme \<Rightarrow> (bool \<times> 'a xhci_scheme) res" where
  "probe_xhc pci_info cap_base s =
     (case pci_info of
        None \<Rightarrow> Inr (False, s)
      | Some p \<Rightarrow>
          rbind (arr_get (BAR p) 1) (\<lambda>bar1.
          rbind (ensure (base_addr bar1 = 0) Assert) (\<lambda>_.
          let HCSPARAMS1 = cap_base 1; HCSPARAMS2 = cap_base 2; PAGESIZE = (ucast (op_base s 2) :: u16);
              s = s\<lparr>max_port := ucast (drop_bit 24 HCSPARAMS1), max_slot := ucast (HCSPARAMS1 AND 0xff),
                    max_scratchpad_buf := ucast (drop_bit 27 HCSPARAMS2),
                    scratch_pages := word_of_nat (count_shifts (unat PAGESIZE))\<rparr> in
          rbind (ensure (max_port s \<le> max_slot s) Assert) (\<lambda>_. Inr (True, s)))))"

definition clear_ram :: "u32 \<Rightarrow> u32 \<Rightarrow> ram \<Rightarrow> ram" where
  "clear_ram a n m = (\<lambda>x. if x - a < n then 0 else m x)"

definition set_op :: "u32 \<Rightarrow> (u32 \<Rightarrow> u32) \<Rightarrow> 'a xhci_scheme \<Rightarrow> 'a xhci_scheme" where
  "set_op r f s = s\<lparr>op_base := (op_base s)(r := f (op_base s r))\<rparr>"

text \<open>\<open>hc\<close> is what the controller does between two reads of its registers.\<close>

partial_function (option) op_wait :: "('a xhci_scheme \<Rightarrow> 'a xhci_scheme) \<Rightarrow> ('a xhci_scheme \<Rightarrow> bool) \<Rightarrow> 'a xhci_scheme \<Rightarrow> 'a xhci_scheme option" where
  "op_wait hc busy s = (if busy s then op_wait hc busy (hc s) else Some s)"

text \<open>\<open>erst\<close> is the block for the table of the event ring's segments, which has one entry.\<close>

definition xhc_interrupt_init :: "pci_device_t \<Rightarrow> u32 \<Rightarrow> 'a xhci_scheme \<Rightarrow> 'a xhci_scheme res" where
  "xhc_interrupt_init dev erst s =
     rbind (alloc_kpage 1 s) (\<lambda>(ERS, s).
     rbind (ensure (ERS \<noteq> 0) Fault) (\<lambda>_.
     rbind (ensure (ERS AND 0x3f = 0) Assert) (\<lambda>_.
     let m = clear_ram erst 64 (clear_ram ERS PAGE_SIZE (ram s));
         m = m(erst := ERS AND NOT 0x3f, erst + 4 := 0, erst + 8 := (PAGE_SIZE div TRB_SIZE) AND 0xffff);
         s = s\<lparr>ram := m, ERSTSZ := 1, ERDP_Lo := m erst, event_ring := \<lparr>r_trb = m erst, cycle_flag = True\<rparr>,
               ERSTBA_Lo := erst AND NOT 0x3f\<rparr> in
     rbind (install_MSI_int dev XHC_VECTOR (Handler 1) (interrupts s)) (\<lambda>(ret, i).
     rbind (ensure (ret = 0) Assert) (\<lambda>_.
     let s = set_op USBCMD (\<lambda>w. w OR 4) (s\<lparr>interrupts := i, IMOD := 0\<rparr>) in
     Inr (s\<lparr>IMAN := IMAN s OR 3\<rparr>))))))"

text \<open>One ring: a page of zeros whose last block leads back to the first.\<close>

definition make_ring :: "u32 \<Rightarrow> ram \<Rightarrow> ram" where
  "make_ring base m =
     (let m = clear_ram base PAGE_SIZE m; tail = base + PAGE_SIZE - TRB_SIZE in
      m(tail := base, tail + 12 := push_bit 10 LinkTRB OR 2 OR 1))"

definition scratch_loop :: "u32 \<Rightarrow> nat \<Rightarrow> 'a xhci_scheme \<Rightarrow> 'a xhci_scheme res" where
  "scratch_loop sb_array n s =
     for_each (\<lambda>i s.
       rbind (alloc_kpage (ucast (scratch_pages s)) s) (\<lambda>(p, s).
       let a = sb_array + 8 * word_of_nat i; s = s\<lparr>ram := (ram s)(a := p, a + 4 := 0)\<rparr> in
       rbind (ensure (p \<noteq> 0) Panic) (\<lambda>_. Inr s))) [0..<n] s"

definition no_device :: general_usb_dev_t where
  "no_device = \<lparr>root_port = 0, route_string = 0, slot_id = 0, ep_rings = replicate 31 None, slot_state = slot_Disabled,
     last_event_trb = 0, wait_task = Null, wait_trb_type = 0, configs = []\<rparr>"

text \<open>\<open>DCBAA\<close>, \<open>sb_array\<close> and \<open>erst\<close> are the blocks from \<^verbatim>\<open>malloc\<close>.\<close>

definition xhc_init :: "pci_device_t option \<Rightarrow> (u32 \<Rightarrow> u32) \<Rightarrow> ('a xhci_scheme \<Rightarrow> 'a xhci_scheme) \<Rightarrow> u32 \<Rightarrow> u32 \<Rightarrow> u32 \<Rightarrow>
    'a xhci_scheme \<Rightarrow> 'a xhci_scheme res" where
  "xhc_init pci_info cap_base hc DCBAA sb_array erst s =
     rbind (probe_xhc pci_info cap_base s) (\<lambda>(found, s).
     if \<not> found then Inr s
     else
       let dev = the pci_info;
           s = s\<lparr>dev_enum_list := [], usb_device_pool := replicate USBDEVCNT no_device\<rparr>;
           (cmd, i) = pci_dev_reg_read dev PCI_CONFIG_SPACE_CMD (interrupts s);
           i = pci_dev_reg_write dev PCI_CONFIG_SPACE_CMD (cmd OR (2 OR 4)) i;
           s = set_op USBCMD (\<lambda>w. w AND NOT 1) (s\<lparr>interrupts := i\<rparr>) in
       rbind (run (map_option Inr (op_wait hc (\<lambda>s. bit (op_base s USBCMD) 0) s))) (\<lambda>s.
       let s = set_op USBCMD (\<lambda>w. w OR 2) s in
       rbind (run (map_option Inr (op_wait hc (\<lambda>s. bit (op_base s USBSTS) 11 \<or> bit (op_base s USBCMD) 1) s))) (\<lambda>s.
       let s = set_op CONFIG (\<lambda>_. ucast (max_slot s)) s;
           s = s\<lparr>ram := clear_ram DCBAA (8 * ((ucast (max_slot s) div 8 + 1) * 8)) (ram s)\<rparr> in
       rbind (ensure (DCBAA AND 0x3f = 0) Assert) (\<lambda>_.
       let s = set_op (DCBAAP + 1) (\<lambda>_. 0) (set_op DCBAAP (\<lambda>_. DCBAA) s);
           s = s\<lparr>ram := (ram s)(DCBAA := sb_array, DCBAA + 4 := 0)\<rparr> in
       rbind (scratch_loop sb_array (unat (max_scratchpad_buf s)) s) (\<lambda>s.
       rbind (alloc_kpage 1 s) (\<lambda>(base, s).
       rbind (ensure (base \<noteq> 0) Panic) (\<lambda>_.
       let s = s\<lparr>ram := make_ring base (ram s), cmd_ring := \<lparr>r_trb = base, cycle_flag = True\<rparr>\<rparr>;
           s = set_op (CRCR + 1) (\<lambda>_. 0) (set_op CRCR (\<lambda>_. base OR 1) s) in
       rbind (xhc_interrupt_init dev erst s) (\<lambda>s.
       Inr (set_op USBCMD (\<lambda>w. w OR 1) s)))))))))"

section \<open>The enumeration task\<close>

text \<open>
  Where the task waits: for a device, for the slot and the address, for the device descriptor, for
  the head and the whole of configuration \<open>i\<close> (of which the head is at \<open>buf\<close>), for endpoint \<open>i\<close> of
  an input device and for its configuration. \<open>st\<close> is the interrupt flag to restore.
\<close>

datatype enum_pc =
    Wait_Device bool
  | Wait_Slot nat bool
  | Wait_Address nat bool
  | Wait_Device_Desc nat bool
  | Wait_Config_Head nat nat u32 bool
  | Wait_Config_All nat nat bool
  | Wait_Endpoint nat u32 int nat bool
  | Wait_Configured nat nat bool

text \<open>
  The fresh blocks of one step: a page for a ring, the output context, the head and the body of a
  configuration, the buffers of an input device; and the block of the input context.
\<close>

record blocks =
  b_context :: u32
  b_head :: u32
  b_body :: u32
  b_buffers :: "nat \<Rightarrow> u32"
  b_input :: u32

definition zero_ep :: endpoint_context where
  "zero_ep = \<lparr>EP_type = 0, max_packet_size = 0, max_burst_size = 0, TR_dequeue_point_lo = 0, ep_interval = 0, CErr = 0\<rparr>"

definition zero_input :: input_context_t where
  "zero_input = \<lparr>add_flag = 0, root_hub_port_number = 0, contex_entries = 0, EP = replicate 31 zero_ep\<rparr>"

definition EP_TYPE_CONTROL :: u8 where "EP_TYPE_CONTROL = 4"

definition PORT_SPEED :: "'a xhci_scheme \<Rightarrow> u8 \<Rightarrow> u32" where
  "PORT_SPEED s port_id = drop_bit 10 (portsc s port_id) AND 0xf"

definition speed_packet :: "u32 \<Rightarrow> u16 res" where
  "speed_packet v =
     (if v = 1 then Inr 64 else if v = 2 then Inr 8 else if v = 3 then Inr 64 else if v = 4 then Inr 512 else Inl Panic)"

text \<open>A ring on a fresh page for endpoint \<open>e\<close>; the block of the two fields is the record itself.\<close>

definition new_ring :: "nat \<Rightarrow> nat \<Rightarrow> 'a xhci_scheme \<Rightarrow> (u32 \<times> 'a xhci_scheme) res" where
  "new_ring d e s =
     rbind (alloc_kpage 1 s) (\<lambda>(tb_base, s).
     rbind (ensure (tb_base \<noteq> 0) Panic) (\<lambda>_.
     let s = s\<lparr>ram := make_ring tb_base (ram s)\<rparr> in
     rbind (get_dev d s) (\<lambda>u.
     rbind (arr_set (ep_rings u) e (Some \<lparr>r_trb = tb_base, cycle_flag = True\<rparr>)) (\<lambda>eps.
     rbind (upd_dev d (\<lambda>u. u\<lparr>ep_rings := eps\<rparr>) s) (\<lambda>s. Inr (tb_base, s))))))"

definition enum_next :: "'a xhci_scheme \<Rightarrow> (enum_pc \<times> 'a xhci_scheme) res" where
  "enum_next s =
     (let (st, s) = get_and_disable_IF s in
      case dev_enum_list s of
        [] \<Rightarrow> Inl Fault
      | d # ds \<Rightarrow>
          rbind (xhc_cmd_enable_slot d (set_IF st (s\<lparr>dev_enum_list := ds\<rparr>))) (\<lambda>(st, s). Inr (Wait_Slot d st, s)))"

text \<open>The top of the loop.\<close>

definition enum_loop :: "'a xhci_scheme \<Rightarrow> (enum_pc \<times> 'a xhci_scheme) res" where
  "enum_loop s =
     (let (st, s) = get_and_disable_IF s in
      if dev_enum_list s = [] then rbind (block None Null TASK_WAITING [] s) (\<lambda>s. Inr (Wait_Device st, s))
      else enum_next (set_IF st s))"

definition enum_slot :: "blocks \<Rightarrow> nat \<Rightarrow> bool \<Rightarrow> 'a xhci_scheme \<Rightarrow> (enum_pc \<times> 'a xhci_scheme) res" where
  "enum_slot b d st s =
     rbind (xhc_cmd_enable_slot_end d st s) (\<lambda>s.
     rbind (new_ring d 0 s) (\<lambda>(tb_base, s).
     rbind (get_dev d s) (\<lambda>u.
     rbind (speed_packet (PORT_SPEED s (root_port u))) (\<lambda>mp.
     let ep0 = \<lparr>EP_type = EP_TYPE_CONTROL, max_packet_size = mp, max_burst_size = 0, TR_dequeue_point_lo = tb_base OR 1,
                ep_interval = 0, CErr = 3\<rparr>;
         s = s\<lparr>input_context := \<lparr>add_flag = 3, root_hub_port_number = root_port u, contex_entries = 1,
                 EP = (replicate 31 zero_ep)[0 := ep0]\<rparr>\<rparr>;
         a = op_base s DCBAAP + 8 * slot_id u;
         m = clear_ram (b_context b) 1024 (ram s);
         s = s\<lparr>ram := m(a := b_context b, a + 4 := 0)\<rparr> in
     rbind (xhc_cmd_address_device d (b_input b) False s) (\<lambda>(st, s). Inr (Wait_Address d st, s))))))"

definition enum_address :: "nat \<Rightarrow> bool \<Rightarrow> 'a xhci_scheme \<Rightarrow> (enum_pc \<times> 'a xhci_scheme) res" where
  "enum_address d st s =
     rbind (xhc_cmd_address_device_end d st s) (\<lambda>s.
     rbind (upd_dev d (\<lambda>u. u\<lparr>configs := []\<rparr>) s) (\<lambda>s.
     rbind (xhc_transfer_get_descriptor d DESC_DEVICE 0 (descs_at s d) 18 s) (\<lambda>(st, s). Inr (Wait_Device_Desc d st, s))))"

section \<open>Input devices\<close>

definition ep_index :: "ram \<Rightarrow> u32 \<Rightarrow> u8" where
  "ep_index m e = push_bit 1 (bEndpointAddress m e AND 0xf) + drop_bit 7 (bEndpointAddress m e)"

text \<open>The set-up of endpoint \<open>i\<close>; a null descriptor is dereferenced.\<close>

definition hid_endpoint :: "blocks \<Rightarrow> nat \<Rightarrow> u32 \<Rightarrow> int \<Rightarrow> 'a xhci_scheme \<Rightarrow> (enum_pc \<times> 'a xhci_scheme) res" where
  "hid_endpoint b d intf i s =
     rbind (get_dev d s) (\<lambda>u.
     rbind (get_configuration_desc (configs u) 1) (\<lambda>cfg.
     rbind (get_endpoint_desc (ram s) cfg intf i) (\<lambda>e.
     rbind (ensure (e \<noteq> 0) Fault) (\<lambda>_.
     let n = ep_index (ram s) e in
     rbind (ensure (n < 32) Assert) (\<lambda>_.
     let ep_num = unat (n - 1); addr = bEndpointAddress (ram s) e; w = wMaxPacketSize (ram s) e;
         att = ep_bmAttribute (ram s) e in
     rbind (new_ring d ep_num s) (\<lambda>(tb_base, s).
     let c = \<lparr>EP_type = take_bit 3 (att OR push_bit 2 (drop_bit 7 addr)), max_packet_size = w AND 0x7ff,
              max_burst_size = ucast (drop_bit 11 (w AND 0x1800)), TR_dequeue_point_lo = tb_base OR 1,
              ep_interval = 8, CErr = 3\<rparr> in
     rbind (arr_set (replicate 31 zero_ep) ep_num c) (\<lambda>eps.
     let s = s\<lparr>input_context := \<lparr>add_flag = push_bit (unat n) 1 OR 1, root_hub_port_number = root_port u,
                 contex_entries = take_bit 5 n, EP = eps\<rparr>\<rparr> in
     rbind (xhc_cmd_configure_endpoint d (b_input b) s) (\<lambda>(st, s). Inr (Wait_Endpoint d intf i ep_num st, s)))))))))"

text \<open>The next endpoint, or the configuration when there is none.\<close>

definition hid_loop :: "blocks \<Rightarrow> nat \<Rightarrow> u32 \<Rightarrow> int \<Rightarrow> nat \<Rightarrow> 'a xhci_scheme \<Rightarrow> (enum_pc \<times> 'a xhci_scheme) res" where
  "hid_loop b d intf i ep_idx s =
     (if i \<le> uint (bNumEndpoints (ram s) intf) then hid_endpoint b d intf i s
      else
        rbind (get_dev d s) (\<lambda>u.
        rbind (get_configuration_desc (configs u) 1) (\<lambda>cfg.
        rbind (xhc_transfer_set_configuration d (ucast (bConfigurationVale (ram s) cfg)) s) (\<lambda>(st, s).
        Inr (Wait_Configured d ep_idx st, s)))))"

definition USB_HID_interface_init :: "blocks \<Rightarrow> nat \<Rightarrow> u32 \<Rightarrow> 'a xhci_scheme \<Rightarrow> (enum_pc \<times> 'a xhci_scheme) res" where
  "USB_HID_interface_init b d intf s =
     rbind (ensure (bInterfaceClass (ram s) intf = USB_CLASS_HID_DEVICE) Assert) (\<lambda>_. hid_loop b d intf 1 0 s)"

text \<open>
  The end: 21 blocks for the endpoint set up last, each with a buffer of 8 bytes, written behind the
  pointer of its ring without moving it, and the doorbell of the endpoint.
\<close>

definition hid_trb :: "u32 \<Rightarrow> u32 \<Rightarrow> ram \<Rightarrow> ram" where
  "hid_trb trb test m =
     write_trb trb test 0 8 (push_bit 10 Normal OR push_bit 5 1 OR 1) (clear_ram test 8 m)"

definition hid_configured :: "blocks \<Rightarrow> nat \<Rightarrow> nat \<Rightarrow> bool \<Rightarrow> 'a xhci_scheme \<Rightarrow> 'a xhci_scheme res" where
  "hid_configured b d ep_idx st s =
     rbind (wait_end d st s) (\<lambda>s.
     rbind (get_dev d s) (\<lambda>u.
     rbind (arr_get (ep_rings u) ep_idx) (\<lambda>ro.
     case ro of
       None \<Rightarrow> Inl Fault
     | Some r \<Rightarrow>
         let m = fold (\<lambda>i. hid_trb (r_trb r + 16 * word_of_nat i) (b_buffers b i)) [0..<21] (ram s) in
         Inr (s\<lparr>ram := m, test_dev := Some d, doorbells := doorbells s @ [(slot_id u, word_of_nat ep_idx + 1)]\<rparr>))))"

section \<open>The steps of the task\<close>

text \<open>The tree of descriptors is read; a null interface is dereferenced.\<close>

definition enum_interface :: "blocks \<Rightarrow> nat \<Rightarrow> 'a xhci_scheme \<Rightarrow> (enum_pc \<times> 'a xhci_scheme) res" where
  "enum_interface b d s =
     rbind (get_dev d s) (\<lambda>u.
     rbind (get_configuration_desc (configs u) 1) (\<lambda>cfg.
     rbind (get_interface_desc (ram s) cfg 1) (\<lambda>intf.
     rbind (ensure (intf \<noteq> 0) Fault) (\<lambda>_.
     if bInterfaceClass (ram s) intf = USB_CLASS_HID_DEVICE then USB_HID_interface_init b d intf s
     else enum_loop s))))"

definition enum_config :: "blocks \<Rightarrow> nat \<Rightarrow> nat \<Rightarrow> 'a xhci_scheme \<Rightarrow> (enum_pc \<times> 'a xhci_scheme) res" where
  "enum_config b d i s =
     (if i < unat (bNumConfiguration (ram s) (descs_at s d)) then
        rbind (upd_dev d (\<lambda>u. u\<lparr>configs := None # configs u\<rparr>) s) (\<lambda>s.
        rbind (xhc_transfer_get_descriptor d DESC_CONFIGURATION (word_of_nat i) (b_head b) 9 s) (\<lambda>(st, s).
        Inr (Wait_Config_Head d i (b_head b) st, s)))
      else enum_interface b d s)"

definition enum_config_head :: "blocks \<Rightarrow> nat \<Rightarrow> nat \<Rightarrow> u32 \<Rightarrow> bool \<Rightarrow> 'a xhci_scheme \<Rightarrow> (enum_pc \<times> 'a xhci_scheme) res" where
  "enum_config_head b d i buf st s =
     rbind (wait_end d st s) (\<lambda>s.
     rbind (upd_dev d (\<lambda>u. u\<lparr>configs := Some (b_body b) # tl (configs u)\<rparr>) s) (\<lambda>s.
     rbind (xhc_transfer_get_descriptor d DESC_CONFIGURATION (word_of_nat i) (b_body b) (wTotalLength (ram s) buf) s) (\<lambda>(st, s).
     Inr (Wait_Config_All d i st, s))))"

fun enum_resume :: "blocks \<Rightarrow> enum_pc \<Rightarrow> 'a xhci_scheme \<Rightarrow> (enum_pc \<times> 'a xhci_scheme) res" where
  "enum_resume b (Wait_Device st) s = enum_next (set_IF st s)"
| "enum_resume b (Wait_Slot d st) s = enum_slot b d st s"
| "enum_resume b (Wait_Address d st) s = enum_address d st s"
| "enum_resume b (Wait_Device_Desc d st) s = rbind (wait_end d st s) (enum_config b d 0)"
| "enum_resume b (Wait_Config_Head d i buf st) s = enum_config_head b d i buf st s"
| "enum_resume b (Wait_Config_All d i st) s = rbind (wait_end d st s) (enum_config b d (i + 1))"
| "enum_resume b (Wait_Endpoint d intf i ep_idx st) s =
     rbind (wait_end d st s) (hid_loop b d intf (i + 1) ep_idx)"
| "enum_resume b (Wait_Configured d ep_idx st) s = rbind (hid_configured b d ep_idx st s) enum_loop"

definition usb_device_enumeration :: "'a xhci_scheme \<Rightarrow> (enum_pc \<times> 'a xhci_scheme) res" where
  "usb_device_enumeration s = enum_loop (set_IF True s)"

end
