(* ===== verification/Usb_Theorems.thy ===== *)
theory Usb_Theorems
  imports Usb_Enum Interrupts_Theorems
begin

text \<open>
  Theorems on the USB 3 driver: how long its rings work with the controller, the search of
  descriptors, the requests a device receives and the interrupt handler.
\<close>

section \<open>A ring and the controller\<close>

text \<open>
  The controller's side of a ring: it follows a link whose cycle bit is its own, inverting its bit
  when the link says so, and takes a block whose cycle bit is its own.
\<close>

definition fetch :: "ram \<Rightarrow> u32 \<times> bool \<Rightarrow> u32 list option \<times> u32 \<times> bool" where
  "fetch m hw =
     (let (deq, ccs) = hw;
          (deq, ccs) = (if trb_type (m (deq + 12)) = LinkTRB \<and> bit (m (deq + 12)) 0 = ccs
                        then (m deq AND NOT 0xf, if bit (m (deq + 12)) 1 then \<not> ccs else ccs) else (deq, ccs)) in
      if bit (m (deq + 12)) 0 = ccs then (Some [m deq, m (deq + 4), m (deq + 8), m (deq + 12)], deq + 16, ccs)
      else (None, deq, ccs))"

type_synonym request = "u32 \<times> u32 \<times> u32 \<times> u32"

text \<open>What the controller takes when it looks at the ring after every request.\<close>

fun served :: "request list \<Rightarrow> ring_t \<Rightarrow> ram \<Rightarrow> u32 \<times> bool \<Rightarrow> u32 list list" where
  "served [] ring m hw = []"
| "served ((w0, w1, w2, w3) # rs) ring m hw =
     (let (ring, m) = put_trb w0 w1 w2 w3 ring m; (t, hw) = fetch m hw in
      (case t of None \<Rightarrow> [] | Some x \<Rightarrow> [x]) @ served rs ring m hw)"

definition req_ok :: "request \<Rightarrow> bool" where
  "req_ok r = (case r of (w0, w1, w2, w3) \<Rightarrow> trb_type w3 \<noteq> LinkTRB)"

definition at :: "u32 \<Rightarrow> nat \<Rightarrow> u32" where
  "at base k = base + word_of_nat k"

lemma at_eq [simp]: "a < 4096 \<Longrightarrow> b < 4096 \<Longrightarrow> at base a = at base b \<longleftrightarrow> a = b"
  by (simp add: at_def word_of_nat_inj)

lemma at_plus: "at base k + 4 = at base (k + 4)" "at base k + 8 = at base (k + 8)" "at base k + 12 = at base (k + 12)"
    "at base k + 16 = at base (k + 16)" "at base k + TRB_SIZE = at base (k + 16)"
  by (simp_all add: at_def TRB_SIZE_def)

lemma at_zero: "at base 0 = base"
  by (simp add: at_def)

lemma trb_type_or1 [simp]: "trb_type (w OR 1) = trb_type w"
  by (simp add: trb_type_def)

lemma bit_or1 [simp]: "bit (w OR 1) 0" for w :: u32
  by (simp add: bit_or_iff)

text \<open>The link block of a ring, and the blocks from \<open>i\<close> on that were not used.\<close>

definition link_word :: u32 where
  "link_word = push_bit 10 LinkTRB OR 2 OR 1"

definition ring_page :: "u32 \<Rightarrow> ram \<Rightarrow> bool" where
  "ring_page base m \<longleftrightarrow> m (at base 4080) = base \<and> m (at base 4092) = link_word"

definition unused_from :: "u32 \<Rightarrow> ram \<Rightarrow> nat \<Rightarrow> bool" where
  "unused_from base m i \<longleftrightarrow> (\<forall>j. i \<le> j \<and> j < 255 \<longrightarrow> m (at base (16 * j + 12)) = 0)"

lemma link_word_bits: "trb_type link_word = LinkTRB" "bit link_word 0" "bit link_word 1" "link_word OR 1 = link_word"
proof -
  have l: "link_word = 0x1803" by (simp add: link_word_def LinkTRB_def)
  show "trb_type link_word = LinkTRB" by (simp add: l trb_type_def LinkTRB_def)
  show "bit link_word 0" "bit link_word 1" by (simp_all add: l bit_iff_odd)
  show "link_word OR 1 = link_word" by (simp add: l)
qed

lemma make_ring_page:
  "ring_page base (make_ring base m)" "unused_from base (make_ring base m) 0"
proof -
  have t: "base + PAGE_SIZE - TRB_SIZE = at base 4080" by (simp add: PAGE_SIZE_def TRB_SIZE_def at_def)
  have c: "clear_ram base PAGE_SIZE m (at base k) = 0" if "k < 4096" for k
  proof -
    have "(word_of_nat k :: u32) < 4096" using that by (simp add: word_less_nat_alt unat_of_nat)
    then show ?thesis by (simp add: clear_ram_def at_def PAGE_SIZE_def)
  qed
  show "ring_page base (make_ring base m)" "unused_from base (make_ring base m) 0"
    by (auto simp: make_ring_def Let_def t at_plus ring_page_def unused_from_def link_word_def c)
qed

definition no_links :: "u32 \<Rightarrow> ram \<Rightarrow> bool" where
  "no_links base m \<longleftrightarrow> (\<forall>j < 255. trb_type (m (at base (16 * j + 12))) \<noteq> LinkTRB)"

lemma unused_no_links: "unused_from base m 0 \<Longrightarrow> no_links base m"
  by (auto simp: unused_from_def no_links_def trb_type_def LinkTRB_def)

lemma write_trb_at:
  assumes "i < 255" "k < 4096"
  shows "write_trb (at base (16 * i)) va vb vc vd m (at base k) =
    (if k = 16 * i + 12 then vd else if k = 16 * i + 8 then vc else if k = 16 * i + 4 then vb else if k = 16 * i then va
     else m (at base k))"
  using assms by (simp add: write_trb_def at_plus)

lemma put_in_page:
  fixes w0 w1 w2 :: u32
  assumes p: "ring_page base m" "no_links base m" "i < 255" "trb_type w3 \<noteq> LinkTRB"
  defines "m' \<equiv> write_trb (at base (16 * i)) w0 w1 w2 (w3 OR 1) m"
  shows "put_trb w0 w1 w2 w3 \<lparr>r_trb = at base (16 * i), cycle_flag = True\<rparr> m =
      (\<lparr>r_trb = at base (16 * (if i = 254 then 0 else i + 1)), cycle_flag = True\<rparr>, m')"
    "ring_page base m'" "no_links base m'"
proof -
  note w = write_trb_at [OF p(3), where base = base and m = m and va = w0 and vb = w1 and vc = w2 and vd = "w3 OR 1", folded m'_def]
  have page: "m' (at base 4080) = base" "m' (at base 4092) = link_word"
    using p(1,3) by (auto simp: w ring_page_def)
  then show "ring_page base m'" by (simp add: ring_page_def)
  have types: "trb_type (m' (at base (16 * j + 12))) \<noteq> LinkTRB" if "j < 255" for j
    using that p(2-4) by (auto simp: w no_links_def)
  then show "no_links base m'" by (simp add: no_links_def)
  have next_type: "trb_type (m' (at base (16 * i + 28))) = LinkTRB \<longleftrightarrow> i = 254"
  proof (cases "i = 254")
    case True
    then show ?thesis using page(2) link_word_bits(1) by simp
  next
    case False
    then show ?thesis using types [of "i + 1"] p(3) by (simp add: algebra_simps)
  qed
  have same: "m'(at base 4092 := link_word) = m'" using page(2) by (simp add: fun_upd_idem)
  have e: "put_trb w0 w1 w2 w3 \<lparr>r_trb = at base (16 * i), cycle_flag = True\<rparr> m = next_trb \<lparr>r_trb = at base (16 * i), cycle_flag = True\<rparr> m'"
    by (simp add: put_trb_def m'_def)
  show "put_trb w0 w1 w2 w3 \<lparr>r_trb = at base (16 * i), cycle_flag = True\<rparr> m =
      (\<lparr>r_trb = at base (16 * (if i = 254 then 0 else i + 1)), cycle_flag = True\<rparr>, m')"
  proof (cases "i = 254")
    case True
    then show ?thesis unfolding e using next_type page same link_word_bits(4)
      by (simp add: next_trb_def Let_def at_plus at_zero)
  next
    case False
    have "next_trb \<lparr>r_trb = at base (16 * i), cycle_flag = True\<rparr> m' = (\<lparr>r_trb = at base (16 * i + 16), cycle_flag = True\<rparr>, m')"
      using False next_type by (simp add: next_trb_def Let_def at_plus add.commute [of 28])
    with False show ?thesis by (simp add: e add.commute)
  qed
qed

lemma fetch_block:
  assumes "no_links base m" "i < 255" "bit (m (at base (16 * i + 12))) 0"
  shows "fetch m (at base (16 * i), True) =
    (Some [m (at base (16 * i)), m (at base (16 * i + 4)), m (at base (16 * i + 8)), m (at base (16 * i + 12))], at base (16 * i + 16), True)"
  using assms by (auto simp: fetch_def Let_def no_links_def at_plus)

text \<open>Once behind the link, the controller waits for a cycle bit the driver never writes.\<close>

lemma fetch_stalled:
  assumes "ring_page base m" "no_links base m" "bit (m (at base 12)) 0" "base AND 0xf = 0" "hw = (at base 4080, True) \<or> hw = (base, False)"
  shows "fetch m hw = (None, base, False)"
proof -
  have b: "base AND NOT 0xf = base"
  proof -
    have "base = (base AND 0xf) OR (base AND NOT 0xf)" by (simp add: bit_eq_iff bit_simps) auto
    with assms(4) show ?thesis by simp
  qed
  have "trb_type (m (at base 12)) \<noteq> LinkTRB" using assms(2) by (auto simp: no_links_def dest: spec [of _ 0])
  moreover have "base + 12 = at base 12" by (simp add: at_def)
  ultimately show ?thesis
    using assms(1,3,5) b link_word_bits by (auto simp: fetch_def Let_def at_plus ring_page_def)
qed

lemma served_stalled:
  assumes "ring_page base m" "no_links base m" "bit (m (at base 12)) 0" "base AND 0xf = 0" "i < 255" "\<forall>r \<in> set rs. req_ok r"
    "hw = (at base 4080, True) \<or> hw = (base, False)"
  shows "served rs \<lparr>r_trb = at base (16 * i), cycle_flag = True\<rparr> m hw = []"
  using assms
proof (induction rs arbitrary: i m hw)
  case (Cons r rs)
  obtain w0 w1 w2 w3 where r: "r = (w0, w1, w2, w3)" by (cases r) auto
  let ?m = "write_trb (at base (16 * i)) w0 w1 w2 (w3 OR 1) m"
  have ok: "trb_type w3 \<noteq> LinkTRB" using Cons.prems(6) by (simp add: r req_ok_def)
  note p = put_in_page [OF Cons.prems(1,2,5) ok, of w0 w1 w2]
  have b: "bit (?m (at base 12)) 0" using Cons.prems(3,5) by (simp add: write_trb_at)
  have f: "fetch ?m hw = (None, base, False)" by (rule fetch_stalled) (use p(2,3) b Cons.prems(4,7) in simp_all)
  have "served rs \<lparr>r_trb = at base (16 * (if i = 254 then 0 else i + 1)), cycle_flag = True\<rparr> ?m (base, False) = []"
    by (rule Cons.IH) (use p(2,3) b Cons.prems in auto)
  then show ?case by (simp add: r p(1) f)
qed simp

lemma served_fresh:
  assumes "ring_page base m" "no_links base m" "base AND 0xf = 0" "i \<le> 255" "\<forall>r \<in> set rs. req_ok r"
    "0 < i \<longrightarrow> bit (m (at base 12)) 0"
  shows "served rs \<lparr>r_trb = at base (16 * (if i = 255 then 0 else i)), cycle_flag = True\<rparr> m (at base (16 * i), True) =
    map (\<lambda>(w0, w1, w2, w3). [w0, w1, w2, w3 OR 1]) (take (255 - i) rs)"
  using assms
proof (induction rs arbitrary: i m)
  case (Cons r rs)
  obtain w0 w1 w2 w3 where r: "r = (w0, w1, w2, w3)" by (cases r) auto
  show ?case
  proof (cases "i = 255")
    case True
    have "served (r # rs) \<lparr>r_trb = at base (16 * 0), cycle_flag = True\<rparr> m (at base 4080, True) = []"
      by (rule served_stalled) (use Cons.prems True in simp_all)
    then show ?thesis using True by simp
  next
    case False
    then have i: "i < 255" using Cons.prems(4) by simp
    let ?m = "write_trb (at base (16 * i)) w0 w1 w2 (w3 OR 1) m"
    have ok: "trb_type w3 \<noteq> LinkTRB" using Cons.prems(5) by (simp add: r req_ok_def)
    note p = put_in_page [OF Cons.prems(1,2) i ok, of w0 w1 w2]
    have "fetch ?m (at base (16 * i), True) = (Some [w0, w1, w2, w3 OR 1], at base (16 * i + 16), True)"
      using fetch_block [OF p(3) i] i by (simp add: write_trb_at)
    moreover have "16 * i + 16 = 16 * (i + 1)" by simp
    ultimately have f: "fetch ?m (at base (16 * i), True) = (Some [w0, w1, w2, w3 OR 1], at base (16 * (i + 1)), True)" by metis
    have b: "bit (?m (at base 12)) 0" using Cons.prems(6) i by (simp add: write_trb_at)
    have IH: "served rs \<lparr>r_trb = at base (16 * (if i + 1 = 255 then 0 else i + 1)), cycle_flag = True\<rparr> ?m (at base (16 * (i + 1)), True) =
        map (\<lambda>(w0, w1, w2, w3). [w0, w1, w2, w3 OR 1]) (take (255 - (i + 1)) rs)"
      by (rule Cons.IH) (use p(2,3) b Cons.prems i in auto)
    have k: "255 - i = Suc (255 - (i + 1))" using i by simp
    have j: "(if i = 254 then 0 else i + 1) = (if i + 1 = 255 then 0 else i + 1)" by simp
    show ?thesis using False by (simp only: r served.simps if_False p(1) f Let_def prod.case option.case j IH k take_Suc_Cons list.map append_Cons append_Nil)
  qed
qed simp

text \<open>
  C20: A ring of one page works for 255 blocks: the controller takes exactly the first 255 requests,
  in order and as written. After the link it expects the other cycle bit, the driver goes on with
  the old one, and no further request is ever taken.
\<close>

theorem ring_serves_255:
  assumes "base AND 0xf = 0" "\<forall>r \<in> set rs. req_ok r"
  shows "served rs \<lparr>r_trb = base, cycle_flag = True\<rparr> (make_ring base m) (base, True) =
    map (\<lambda>(w0, w1, w2, w3). [w0, w1, w2, w3 OR 1]) (take 255 rs)"
proof -
  have "served rs \<lparr>r_trb = at base (16 * (if 0 = (255 :: nat) then 0 else 0)), cycle_flag = True\<rparr> (make_ring base m)
      (at base (16 * 0), True) = map (\<lambda>(w0, w1, w2, w3). [w0, w1, w2, w3 OR 1]) (take (255 - 0) rs)"
    by (rule served_fresh) (use assms make_ring_page unused_no_links in auto)
  then show ?thesis by (simp add: at_zero)
qed

theorem ring_serves_255_witness:
  "length (served (replicate 300 (0, 0, 0, push_bit 10 GetEnableSlot)) \<lparr>r_trb = 0x100000, cycle_flag = True\<rparr>
     (make_ring 0x100000 (\<lambda>_. 0)) (0x100000, True)) = 255"
  using ring_serves_255 [of "0x100000" "replicate 300 (0, 0, 0, push_bit 10 GetEnableSlot)" "\<lambda>_. 0"]
  by (simp add: req_ok_def trb_type_def GetEnableSlot_def LinkTRB_def)

section \<open>Descriptors\<close>

text \<open>A descriptor is its type and what follows it; its length comes first.\<close>

definition enc_desc :: "u8 \<times> u8 list \<Rightarrow> u8 list" where
  "enc_desc d = of_nat (length (snd d) + 2) # fst d # snd d"

abbreviation enc_descs :: "(u8 \<times> u8 list) list \<Rightarrow> u8 list" where
  "enc_descs ds \<equiv> concat (map enc_desc ds)"

definition wf_desc :: "u8 \<times> u8 list \<Rightarrow> bool" where
  "wf_desc d \<longleftrightarrow> length (snd d) + 2 < 256"

text \<open>The positions of the descriptors of a type, from position \<open>k\<close> on.\<close>

fun positions :: "u8 \<Rightarrow> nat \<Rightarrow> (u8 \<times> u8 list) list \<Rightarrow> nat list" where
  "positions ty k [] = []"
| "positions ty k (d # ds) = (if fst d = ty then [k] else []) @ positions ty (k + length (enc_desc d)) ds"

definition nth_of_type :: "u32 \<Rightarrow> nat list \<Rightarrow> int \<Rightarrow> u32" where
  "nth_of_type conf ps n = (if nat n \<le> length ps then conf + word_of_nat (ps ! (nat n - 1)) else 0)"

lemma length_enc_desc [simp]: "length (enc_desc d) = length (snd d) + 2"
  by (simp add: enc_desc_def)

lemma stored_head:
  assumes "stored (ram_byte m) a (enc_desc d @ bs)" "wf_desc d"
  shows "bDescriptorType m a = fst d" "ucast (bLength m a) = (word_of_nat (length (enc_desc d)) :: u32)"
proof -
  have st: "stored (ram_byte m) a (enc_desc d)" using assms(1) by (simp add: stored_append)
  have "ram_byte m a = of_nat (length (snd d) + 2)" "ram_byte m (a + 1) = fst d"
    using st [unfolded stored_def, rule_format, of 0] st [unfolded stored_def, rule_format, of 1] by (simp_all add: enc_desc_def)
  then show "bDescriptorType m a = fst d" "ucast (bLength m a) = (word_of_nat (length (enc_desc d)) :: u32)"
    using ucast_len [of "length (snd d) + 2"] assms(2) by (simp_all add: bDescriptorType_def bLength_def wf_desc_def)
qed

lemma desc_loop_finds:
  assumes "\<forall>d \<in> set ds. wf_desc d" "stored (ram_byte m) (conf + word_of_nat k) (enc_descs ds)"
    "unat conf + k + length (enc_descs ds) < 2 ^ 32" "count < number"
  shows "desc_loop m ty number (conf + word_of_nat (k + length (enc_descs ds))) count (conf + word_of_nat k) =
    Some (nth_of_type conf (positions ty k ds) (number - count))"
  using assms
proof (induction ds arbitrary: k count)
  case Nil
  then show ?case by (subst desc_loop.simps) (simp add: nth_of_type_def)
next
  case (Cons d ds)
  let ?n = "length (enc_desc d)" and ?lim = "conf + word_of_nat (k + length (enc_descs (d # ds)))"
  have w: "wf_desc d" using Cons.prems(1) by simp
  have st: "stored (ram_byte m) (conf + word_of_nat k) (enc_desc d @ enc_descs ds)" using Cons.prems(2) by simp
  note h = stored_head [OF st w]
  have st2: "stored (ram_byte m) (conf + word_of_nat (k + ?n)) (enc_descs ds)"
    using st by (simp add: stored_append ac_simps)
  have un: "unat (conf + word_of_nat j) = unat conf + j" if "j \<le> k + length (enc_descs (d # ds))" for j
    using that Cons.prems(3) by (simp add: unat_word_ariths unsigned_of_nat take_bit_nat_eq_self)
  have lt: "conf + word_of_nat k < ?lim" unfolding word_less_nat_alt by (subst (1 2) un) auto
  have e: "k + length (enc_descs (d # ds)) = k + ?n + length (enc_descs ds)" by simp
  have next_eq: "conf + word_of_nat k + word_of_nat ?n = conf + word_of_nat (k + ?n)" by (simp add: add.assoc)
  have IH: "desc_loop m ty number ?lim c (conf + word_of_nat (k + ?n)) =
      Some (nth_of_type conf (positions ty (k + ?n) ds) (number - c))" if "c < number" for c
    unfolding e by (rule Cons.IH) (use Cons.prems(1,3) st2 that in auto)
  have step: "desc_loop m ty number ?lim count (conf + word_of_nat k) =
      (if fst d = ty then
         if count + 1 = number then Some (conf + word_of_nat k) else desc_loop m ty number ?lim (count + 1) (conf + word_of_nat (k + ?n))
       else desc_loop m ty number ?lim count (conf + word_of_nat (k + ?n)))"
    by (subst desc_loop.simps) (simp only: lt h next_eq if_True)
  show ?case
  proof (cases "fst d = ty \<and> count + 1 \<noteq> number")
    case True
    then have "count + 1 < number" "nat (number - count) = Suc (nat (number - (count + 1)))" "0 < nat (number - (count + 1))"
      using Cons.prems(4) by auto
    then show ?thesis unfolding step using True IH [of "count + 1"] by (auto simp: nth_of_type_def nth_Cons split: nat.split)
  next
    case False
    show ?thesis
    proof (cases "fst d = ty")
      case True
      with False have "number - count = 1" by simp
      with True False show ?thesis unfolding step by (simp add: nth_of_type_def)
    next
      case other: False
      then show ?thesis unfolding step using IH [OF Cons.prems(4)] by simp
    qed
  qed
qed

text \<open>A descriptor of length 0 that is not the one wanted is looked at for ever.\<close>

lemma zero_descriptor_hangs:
  assumes "a < lim" "bLength m a = 0" "bDescriptorType m a \<noteq> ty"
  shows "desc_loop m ty n lim c a = None"
proof -
  have no: "desc_loop m' ty' n' lim' c' a' = Some v \<Longrightarrow> \<not> (m' = m \<and> ty' = ty \<and> lim' = lim \<and> a' = a)" for m' ty' n' lim' c' a' v
    by (erule desc_loop.raw_induct [rotated]) (use assms in \<open>fastforce split: if_splits\<close>)
  show ?thesis using no [of m ty n lim c a] by (cases "desc_loop m ty n lim c a") auto
qed

text \<open>What the driver relies on: the configuration comes first, and its total length is the length of all.\<close>

definition config_at :: "ram \<Rightarrow> u32 \<Rightarrow> (u8 \<times> u8 list) list \<Rightarrow> bool" where
  "config_at m conf ds \<longleftrightarrow> ds \<noteq> [] \<and> fst (hd ds) = DESC_CONFIGURATION \<and> (\<forall>d \<in> set ds. wf_desc d) \<and>
     stored (ram_byte m) conf (enc_descs ds) \<and> wTotalLength m conf = word_of_nat (length (enc_descs ds)) \<and>
     length (enc_descs ds) < 2 ^ 16 \<and> unat conf + length (enc_descs ds) < 2 ^ 32"

lemma config_limit:
  assumes "config_at m conf ds"
  shows "ucast (wTotalLength m conf) + conf = conf + word_of_nat (length (enc_descs ds))"
proof -
  have "(ucast (word_of_nat (length (enc_descs ds)) :: u16) :: u32) = word_of_nat (length (enc_descs ds))"
    using assms by (simp add: config_at_def word_unat_eq_iff unsigned_ucast_eq unsigned_of_nat take_bit_nat_eq_self)
  with assms show ?thesis by (simp add: config_at_def add.commute)
qed

text \<open>
  C39: On the descriptors of a configuration \<^verbatim>\<open>get_interface_desc\<close> returns the interface of the
  number asked for, counted in the order of the descriptors, or null, and \<^verbatim>\<open>get_endpoint_desc\<close> the
  endpoint of the number asked for counted from the interface.
\<close>

theorem descriptors_found:
  assumes "config_at m conf (ds @ intf # es)" "fst intf = DESC_INTERFACE" "0 < n"
  shows "(n \<le> uint (bNumInterface m conf) \<longrightarrow>
      get_interface_desc m conf n = Inr (nth_of_type conf (positions DESC_INTERFACE 0 (ds @ intf # es)) n)) \<and>
    (n \<le> uint (bNumEndpoints m (conf + word_of_nat (length (enc_descs ds)))) \<longrightarrow>
      get_endpoint_desc m conf (conf + word_of_nat (length (enc_descs ds))) n =
        Inr (nth_of_type conf (positions DESC_ENDPOINT (length (enc_descs ds)) (intf # es)) n))"
proof -
  let ?all = "ds @ intf # es" and ?k = "length (enc_descs ds)"
  have c: "\<forall>d \<in> set ?all. wf_desc d" "stored (ram_byte m) conf (enc_descs ?all)" "unat conf + length (enc_descs ?all) < 2 ^ 32"
    using assms(1) unfolding config_at_def by blast+
  note lim = config_limit [OF assms(1)]
  have ty: "bDescriptorType m conf = DESC_CONFIGURATION"
  proof -
    obtain d bs where d: "?all = d # bs" by (cases ?all) auto
    then have "stored (ram_byte m) conf (enc_desc d @ enc_descs bs)" "wf_desc d" using c by simp_all
    from stored_head(1) [OF this] d assms(1) show ?thesis by (simp add: config_at_def)
  qed
  have loop: "desc_loop m DESC_INTERFACE n (conf + word_of_nat (length (enc_descs ?all))) 0 conf =
      Some (nth_of_type conf (positions DESC_INTERFACE 0 ?all) n)"
    using desc_loop_finds [of ?all m conf 0 0 n DESC_INTERFACE] c assms(3) by simp
  have i: "get_interface_desc m conf n = Inr (nth_of_type conf (positions DESC_INTERFACE 0 ?all) n)"
    if "n \<le> uint (bNumInterface m conf)"
    using that assms(3) ty loop by (simp only: get_interface_desc_def lim ensure_simps rbind_simps option.map run_simps simp_thms)
  have st: "stored (ram_byte m) (conf + word_of_nat ?k) (enc_desc intf @ enc_descs es)"
    using c(2) by (simp add: stored_append)
  have ity: "bDescriptorType m (conf + word_of_nat ?k) = DESC_INTERFACE"
    using stored_head(1) [OF st] c(1) assms(2) by simp
  have e: "length (enc_descs ?all) = ?k + length (enc_descs (intf # es))" by simp
  have eloop: "desc_loop m DESC_ENDPOINT n (conf + word_of_nat (length (enc_descs ?all))) 0 (conf + word_of_nat ?k) =
      Some (nth_of_type conf (positions DESC_ENDPOINT ?k (intf # es)) n)"
    using desc_loop_finds [of "intf # es" m conf ?k 0 n DESC_ENDPOINT] c st assms(3) unfolding e by simp
  have "get_endpoint_desc m conf (conf + word_of_nat ?k) n = Inr (nth_of_type conf (positions DESC_ENDPOINT ?k (intf # es)) n)"
    if "n \<le> uint (bNumEndpoints m (conf + word_of_nat ?k))"
    using that assms(3) ity eloop by (simp only: get_endpoint_desc_def lim ensure_simps rbind_simps option.map run_simps simp_thms)
  with i show ?thesis by blast
qed

text \<open>The descriptors of a keyboard: a configuration, its interface, the HID descriptor and the endpoint.\<close>

definition ex_config :: "u8 \<times> u8 list" where "ex_config = (2, [34, 0, 1, 1, 0, 0xA0, 50])"
definition ex_interface :: "u8 \<times> u8 list" where "ex_interface = (4, [0, 0, 1, 3, 1, 1, 0])"
definition ex_rest :: "(u8 \<times> u8 list) list" where "ex_rest = [(0x21, [0x11, 1, 0, 1, 0x22, 0x3F, 0]), (5, [0x81, 3, 8, 0, 10])]"

definition ex_bytes :: "u8 list" where
  "ex_bytes = enc_descs ([ex_config] @ ex_interface # ex_rest)"

definition ex_ram :: ram where
  "ex_ram a = (let b = (\<lambda>i. let k = unat (a - 0x1000 + i) in if k < length ex_bytes then ucast (ex_bytes ! k) else 0) in
     b 0 OR push_bit 8 (b 1) OR push_bit 16 (b 2) OR push_bit 24 (b 3))"

lemma ex_ram_bytes: "map (\<lambda>i. ram_byte ex_ram (0x1000 + word_of_nat i)) [0..<34] = ex_bytes"
  by code_simp

lemma ex_ram_facts:
  "wTotalLength ex_ram 0x1000 = 34" "uint (bNumInterface ex_ram 0x1000) = 1" "uint (bNumEndpoints ex_ram 0x1009) = 1"
  "length ex_bytes = 34"
  by code_simp+

lemma ex_positions:
  "positions DESC_INTERFACE 0 ([ex_config] @ ex_interface # ex_rest) = [9]" "positions DESC_ENDPOINT 9 (ex_interface # ex_rest) = [27]"
  "length (enc_descs [ex_config]) = 9"
  by code_simp+

lemma ex_config_at: "config_at ex_ram 0x1000 ([ex_config] @ ex_interface # ex_rest)"
proof -
  have "stored (ram_byte ex_ram) 0x1000 ex_bytes"
    unfolding stored_def ex_ram_bytes [symmetric] by simp
  moreover have "\<forall>d \<in> set ([ex_config] @ ex_interface # ex_rest). wf_desc d"
    by (simp add: ex_config_def ex_interface_def ex_rest_def wf_desc_def)
  ultimately show ?thesis
    unfolding config_at_def ex_bytes_def [symmetric] using ex_ram_facts by (simp add: ex_config_def DESC_CONFIGURATION_def)
qed

theorem descriptors_found_witness:
  "get_interface_desc ex_ram 0x1000 1 = Inr 0x1009 \<and> get_endpoint_desc ex_ram 0x1000 0x1009 1 = Inr 0x101B"
proof -
  have t: "fst ex_interface = DESC_INTERFACE" by (simp add: ex_interface_def DESC_INTERFACE_def)
  have "(1 \<le> uint (bNumInterface ex_ram 0x1000) \<longrightarrow> get_interface_desc ex_ram 0x1000 1 = Inr (nth_of_type 0x1000 [9] 1)) \<and>
    (1 \<le> uint (bNumEndpoints ex_ram (0x1000 + word_of_nat 9)) \<longrightarrow>
      get_endpoint_desc ex_ram 0x1000 (0x1000 + word_of_nat 9) 1 = Inr (nth_of_type 0x1000 [27] 1))"
    using descriptors_found [OF ex_config_at t, of 1] unfolding ex_positions by simp
  then show ?thesis using ex_ram_facts by (simp add: nth_of_type_def)
qed

end
