(* ===== verification/Usb_Events.thy ===== *)
theory Usb_Events
  imports Usb_Theorems Sched_Machine
begin

text \<open>
  Theorems on the interrupt handler of the USB 3 driver: the completion of a request wakes the
  task that waits for it, and what a change of a port does.
\<close>

section \<open>One event\<close>

lemma unblock_xhci:
  assumes "unblock r s = Inr s'"
  shows "ram s' = ram s" "ERSTBA_Lo s' = ERSTBA_Lo s" "usb_device_pool s' = usb_device_pool s"
    "dev_enum_list s' = dev_enum_list s" "portsc s' = portsc s" "interrupts s' = interrupts s"
  using assms
  by (auto simp: unblock_def get_and_disable_IF_def set_IF_def on_heap_def upd_tcb_def Let_def split: if_splits prod.splits)

lemma upd_dev_fields:
  assumes "upd_dev d f s = Inr s'"
  shows "s' = s\<lparr>usb_device_pool := (usb_device_pool s)[d := f (usb_device_pool s ! d)]\<rparr>"
  using assms by (auto simp: upd_dev_def get_dev_def)

lemma port_event_ram:
  "port_status_change_event_proc e s = Inr s' \<Longrightarrow> ram s' = ram s \<and> ERSTBA_Lo s' = ERSTBA_Lo s"
  by (auto simp: port_status_change_event_proc_def Let_def split: if_splits option.splits dest!: upd_dev_fields dest: unblock_xhci)

lemma deliver_ram:
  "deliver d ty e s = Inr s' \<Longrightarrow> ram s' = ram s \<and> ERSTBA_Lo s' = ERSTBA_Lo s"
  by (auto simp: deliver_def split: if_splits dest!: upd_dev_fields dest: unblock_xhci)

lemma completion_ram:
  assumes "completion e s = Inr s'"
  shows "ram s' = ram s \<and> ERSTBA_Lo s' = ERSTBA_Lo s"
proof -
  have "\<exists>d. deliver d (trb_type (ram s (ram s e + 12))) e s = Inr s'"
    using assms by (auto simp: completion_def Let_def split: option.splits)
  then show ?thesis using deliver_ram by blast
qed

lemma one_event_ram: "one_event ty e s = Inr s' \<Longrightarrow> ram s' = ram s \<and> ERSTBA_Lo s' = ERSTBA_Lo s"
  using port_event_ram [of e s s'] completion_ram [of e s s'] by (auto simp: one_event_def split: if_splits)

text \<open>One new event at the pointer of the ring.\<close>

definition one_new :: "u32 \<Rightarrow> bool \<Rightarrow> 'a xhci_scheme \<Rightarrow> bool" where
  "one_new e c s \<longleftrightarrow> event_ring s = \<lparr>r_trb = e, cycle_flag = c\<rparr> \<and> bit (ram s (e + 12)) 0 = c \<and>
     bit (ram s (next_event e s + 12)) 0 \<noteq> c"

definition acknowledged :: "u32 \<Rightarrow> bool \<Rightarrow> 'a xhci_scheme \<Rightarrow> 'a xhci_scheme" where
  "acknowledged e c s = s\<lparr>event_ring := \<lparr>r_trb = next_event e s, cycle_flag = c\<rparr>, ERDP_Lo := next_event e s OR 8,
     interrupts := lapic_send_eoi (interrupts s)\<rparr>"

lemma handler_one:
  assumes "one_new e c s"
  shows "xhc_handler s = rbind (one_event (trb_type (ram s (e + 12))) e s) (\<lambda>s'. Inr (acknowledged e c s'))"
proof (cases "one_event (trb_type (ram s (e + 12))) e s")
  case (Inl x)
  with assms show ?thesis by (simp add: xhc_handler_def one_new_def Let_def) (subst event_loop.simps, simp)
next
  case (Inr s')
  from one_event_ram [OF Inr] have n: "next_event e s' = next_event e s" "ram s' = ram s" by (simp_all add: next_event_def)
  then have "event_loop (trb_type (ram s (e + 12))) c (next_event e s) s' = Some (Inr (next_event e s, s'))"
    using assms by (subst event_loop.simps) (simp add: one_new_def)
  then have "event_loop (trb_type (ram s (e + 12))) c e s = Some (Inr (next_event e s, s'))"
    using assms Inr n by (subst event_loop.simps) (simp add: one_new_def)
  then show ?thesis using assms Inr n by (simp add: xhc_handler_def one_new_def acknowledged_def)
qed

lemma first_dev_nth:
  assumes "d < length us" "P (us ! d)" "\<forall>j < d. \<not> P (us ! j)"
  shows "first_dev P i us = Some (i + d)"
  using assms
proof (induction us arbitrary: d i)
  case (Cons u us)
  show ?case
  proof (cases d)
    case 0
    with Cons.prems show ?thesis by simp
  next
    case (Suc k)
    have "\<not> P u" using Cons.prems(3) Suc by auto
    moreover have "first_dev P (i + 1) us = Some (i + 1 + k)"
      using Cons.prems Suc by (intro Cons.IH) auto
    ultimately show ?thesis using Suc by simp
  qed
qed simp

lemma first_dev_none: "\<forall>u \<in> set us. \<not> P u \<Longrightarrow> first_dev P i us = None"
  by (induction us arbitrary: i) auto

text \<open>A task on a list has a control block.\<close>

lemma listed_task:
  assumes "sched_rel D T s A" "l \<in> D" "n \<in> set (a_lists A l)"
  obtains t where "owner_of s (Nd n) = Inr (ow (heap s) (Nd n))" "get_tcb s (ow (heap s) (Nd n)) = Inr t" "t_state t = st_of s n"
proof -
  have b: "base D T s (a_lists A)" using assms(1) unfolding sched_rel_def by blast
  then have "n \<in> T" using base_sub assms(2,3) by blast
  with b have "alive (heap s) (Nd n)" "\<exists>t. tcb_of s n = Some t" unfolding base_def by blast+
  then show thesis
    by (auto intro: that simp: owner_of_def get_node_def get_tcb_def tcb_of_def st_of_def fields split: option.splits)
qed

section \<open>Completions\<close>

text \<open>
  The device an event belongs to: for the command that enables a slot the first one that waits
  and has no slot yet, or else the first one with the slot of the event.
\<close>

definition event_dev :: "u32 \<Rightarrow> u32 \<Rightarrow> general_usb_dev_t list \<Rightarrow> nat \<Rightarrow> bool" where
  "event_dev ty sid us d \<longleftrightarrow> d < length us \<and>
     (if ty = GetEnableSlot \<and> (\<exists>u \<in> set us. root_port u \<noteq> 0 \<and> slot_id u = 0 \<and> wait_task u \<noteq> Null)
      then root_port (us ! d) \<noteq> 0 \<and> slot_id (us ! d) = 0 \<and> wait_task (us ! d) \<noteq> Null \<and>
        (\<forall>j < d. root_port (us ! j) = 0 \<or> slot_id (us ! j) \<noteq> 0 \<or> wait_task (us ! j) = Null)
      else root_port (us ! d) \<noteq> 0 \<and> slot_id (us ! d) = sid \<and> (\<forall>j < d. root_port (us ! j) = 0 \<or> slot_id (us ! j) \<noteq> sid))"

lemma completion_dev:
  assumes "event_dev ty sid (usb_device_pool s) d" "sid \<noteq> 0" "ty = trb_type (ram s (ram s e + 12))" "drop_bit 24 (ram s (e + 12)) = sid"
  shows "completion e s = deliver d ty e s"
proof -
  let ?us = "usb_device_pool s" and ?P = "\<lambda>u. root_port u \<noteq> 0 \<and> slot_id u = 0 \<and> wait_task u \<noteq> Null"
    and ?Q = "\<lambda>u. root_port u \<noteq> 0 \<and> slot_id u = sid"
  have f: "find_usb_device sid s = Inr (first_dev ?Q 0 ?us)" using assms(2) by (simp add: find_usb_device_def)
  have d: "d < length ?us" using assms(1) by (simp add: event_dev_def)
  consider (slot) "ty = GetEnableSlot" "\<exists>u \<in> set ?us. ?P u" | (none) "ty = GetEnableSlot" "\<not> (\<exists>u \<in> set ?us. ?P u)" | (other) "ty \<noteq> GetEnableSlot"
    by blast
  then show ?thesis
  proof cases
    case slot
    then have "?P (?us ! d)" "\<forall>j < d. \<not> ?P (?us ! j)" using assms(1) by (simp_all add: event_dev_def)
    from first_dev_nth [OF d this, of 0] show ?thesis
      using slot(1) f unfolding completion_def assms(3) [symmetric] assms(4) by (simp add: Let_def)
  next
    case none
    then have "?Q (?us ! d)" "\<forall>j < d. \<not> ?Q (?us ! j)" using assms(1) by (simp_all add: event_dev_def)
    from first_dev_nth [OF d this, of 0] first_dev_none [of ?us ?P 0] none(2) show ?thesis
      using none(1) f unfolding completion_def assms(3) [symmetric] assms(4) by (simp add: Let_def)
  next
    case other
    then have "?Q (?us ! d)" "\<forall>j < d. \<not> ?Q (?us ! j)" using assms(1) by (simp_all add: event_dev_def)
    from first_dev_nth [OF d this, of 0] show ?thesis
      using other f unfolding completion_def assms(3) [symmetric] assms(4) by (simp add: Let_def)
  qed
qed


section \<open>Ports\<close>

text \<open>
  C40: On a change of a port the handler resets a port that is polling; a port with a working link
  gets the first free device of the pool, which becomes the next to be enumerated, and the
  enumeration task is woken when it waits. With all devices in use the kernel panics, and with
  the link in any other state, as after the device has been unplugged, an assertion stops it.
\<close>

theorem port_change_handled:
  fixes s :: "'a xhci_scheme"
  assumes "one_new e c s" "drop_bit 24 (ram s (e + 8)) = EVENT_SUCCESS" "trb_type (ram s (e + 12)) = PortStatusChangeEvent"
    "p = ucast (drop_bit 24 (ram s e))"
  shows "(PLS (portsc s p) = Polling \<longrightarrow>
      xhc_handler s = Inr (acknowledged e c (s\<lparr>portsc := (portsc s)(p := portsc s p OR 0x10)\<rparr>))) \<and>
    (PLS (portsc s p) = U0 \<and> d < length (usb_device_pool s) \<and> root_port (usb_device_pool s ! d) = 0 \<and>
       (\<forall>j < d. root_port (usb_device_pool s ! j) \<noteq> 0) \<and> dev_enum_task s = Nd n \<and>
       sched_rel D T s A \<and> l \<in> D \<and> n \<in> set (a_lists A l) \<longrightarrow>
      (\<exists>s'. xhc_handler s = Inr s' \<and> dev_enum_list s' = d # dev_enum_list s \<and>
        usb_device_pool s' = (usb_device_pool s)[d := (usb_device_pool s ! d)\<lparr>root_port := p, route_string := 0\<rparr>] \<and>
        sched_rel D T s' (if st_of s n = TASK_WAITING then a_unblock n A else A))) \<and>
    (PLS (portsc s p) = U0 \<and> (\<forall>u \<in> set (usb_device_pool s). root_port u \<noteq> 0) \<longrightarrow> xhc_handler s = Inl Panic) \<and>
    (PLS (portsc s p) \<noteq> Polling \<and> PLS (portsc s p) \<noteq> U0 \<longrightarrow> xhc_handler s = Inl Assert)"
proof (intro conjI impI)
  note step = handler_one [OF assms(1)]
  have one: "one_event (trb_type (ram s (e + 12))) e s = port_status_change_event_proc e s"
    using assms(2,3) by (simp add: one_event_def)
  have pol: "U0 \<noteq> Polling" by (simp add: U0_def Polling_def)
  show "xhc_handler s = Inr (acknowledged e c (s\<lparr>portsc := (portsc s)(p := portsc s p OR 0x10)\<rparr>))" if "PLS (portsc s p) = Polling"
    using that unfolding step one by (simp add: port_status_change_event_proc_def Let_def assms(4))
  show "xhc_handler s = Inl Assert" if "PLS (portsc s p) \<noteq> Polling \<and> PLS (portsc s p) \<noteq> U0"
    using that unfolding step one by (simp add: port_status_change_event_proc_def Let_def assms(4))
  show "xhc_handler s = Inl Panic" if u: "PLS (portsc s p) = U0 \<and> (\<forall>u \<in> set (usb_device_pool s). root_port u \<noteq> 0)"
  proof -
    have "get_free_usb_device s = None" using u by (auto simp: get_free_usb_device_def intro: first_dev_none)
    with u pol show ?thesis unfolding step one by (simp add: port_status_change_event_proc_def Let_def assms(4))
  qed
  assume h: "PLS (portsc s p) = U0 \<and> d < length (usb_device_pool s) \<and> root_port (usb_device_pool s ! d) = 0 \<and>
       (\<forall>j < d. root_port (usb_device_pool s ! j) \<noteq> 0) \<and> dev_enum_task s = Nd n \<and>
       sched_rel D T s A \<and> l \<in> D \<and> n \<in> set (a_lists A l)"
  let ?u = "(usb_device_pool s ! d)\<lparr>root_port := p, route_string := 0\<rparr>"
  let ?s = "s\<lparr>usb_device_pool := (usb_device_pool s)[d := ?u], dev_enum_list := d # dev_enum_list s\<rparr>"
  have free: "get_free_usb_device s = Some d"
    using first_dev_nth [of d "usb_device_pool s" "\<lambda>u. root_port u = 0" 0] h by (simp add: get_free_usb_device_def)
  have upd: "upd_dev d (\<lambda>u. u\<lparr>root_port := p, route_string := 0\<rparr>) s = Inr (s\<lparr>usb_device_pool := (usb_device_pool s)[d := ?u]\<rparr>)"
    using h by (simp add: upd_dev_def get_dev_def)
  have rel: "sched_rel D T ?s A" using h by (subst sched_rel_cong [of _ s]) simp_all
  have l: "l \<in> D" "n \<in> set (a_lists A l)" using h by simp_all
  from listed_task [OF rel l] obtain t where
    t: "owner_of ?s (Nd n) = Inr (ow (heap ?s) (Nd n))" "get_tcb ?s (ow (heap ?s) (Nd n)) = Inr t" "t_state t = st_of ?s n" .
  have st: "t_state t = st_of s n" using t(3) by (simp add: st_of_def tcb_of_def)
  have proc: "port_status_change_event_proc e s = (if st_of s n = TASK_WAITING then unblock (Nd n) ?s else Inr ?s)"
    using h pol free upd t(1,2) st by (simp add: port_status_change_event_proc_def Let_def assms(4) [symmetric])
  have "\<exists>s1. port_status_change_event_proc e s = Inr s1 \<and> sched_rel D T s1 (if st_of s n = TASK_WAITING then a_unblock n A else A) \<and>
      usb_device_pool s1 = usb_device_pool ?s \<and> dev_enum_list s1 = dev_enum_list ?s"
  proof (cases "st_of s n = TASK_WAITING")
    case True
    from unblock_refines [OF rel l] obtain s1 where s1: "unblock (Nd n) ?s = Inr s1" "sched_rel D T s1 (a_unblock n A)" by auto
    with unblock_xhci(3,4) [OF s1(1)] True show ?thesis by (intro exI [of _ s1] conjI) (simp_all only: proc if_True simp_thms)
  next
    case False
    with proc rel show ?thesis by simp
  qed
  then obtain s1 where s1: "port_status_change_event_proc e s = Inr s1"
    "sched_rel D T s1 (if st_of s n = TASK_WAITING then a_unblock n A else A)"
    "usb_device_pool s1 = usb_device_pool ?s" "dev_enum_list s1 = dev_enum_list ?s" by blast
  have "xhc_handler s = Inr (acknowledged e c s1)" unfolding step one s1(1) by simp
  moreover have "sched_rel D T (acknowledged e c s1) (if st_of s n = TASK_WAITING then a_unblock n A else A)"
    using s1(2) by (subst sched_rel_cong [of _ s1]) (simp_all add: acknowledged_def)
  ultimately show "\<exists>s'. xhc_handler s = Inr s' \<and> dev_enum_list s' = d # dev_enum_list s \<and>
        usb_device_pool s' = (usb_device_pool s)[d := ?u] \<and>
        sched_rel D T s' (if st_of s n = TASK_WAITING then a_unblock n A else A)"
    using s1(3,4) by (auto simp: acknowledged_def)
qed

section \<open>Examples\<close>

text \<open>A kernel with a task on \<open>l\<close>, one device and one event, whose first word, type and slot are given.\<close>

definition ex_events :: "u32 \<Rightarrow> u32 \<Rightarrow> ram" where
  "ex_events w0 w3 = (\<lambda>_. 0)(0x1000 + 12 := push_bit 10 ConfigureEndpoint OR 1, 0x2000 := w0, 0x2000 + 8 := push_bit 24 1,
     0x2000 + 12 := w3 OR 1, 0x3000 := 0x2000)"

definition ex_usb :: "nat \<Rightarrow> task_state_t \<Rightarrow> ram \<Rightarrow> u32 \<Rightarrow> general_usb_dev_t \<Rightarrow> xhci" where
  "ex_usb l st m port u = kernel.extend (ex_kernel ex_pages l st)
     (xhci.fields ex_intr m (\<lambda>_. 0) (\<lambda>_. port) [] 1 0x3000 0x2000 0 3 \<lparr>r_trb = 0x1000, cycle_flag = True\<rparr>
        \<lparr>r_trb = 0x2000, cycle_flag = True\<rparr> 8 4 0 1 [u] (\<lambda>_. 0) [] (Nd 1) zero_input None)"

lemma ex_usb_fields [simp]:
  "ram (ex_usb l st m port u) = m" "portsc (ex_usb l st m port u) = (\<lambda>_. port)" "usb_device_pool (ex_usb l st m port u) = [u]"
  "event_ring (ex_usb l st m port u) = \<lparr>r_trb = 0x2000, cycle_flag = True\<rparr>" "dev_enum_list (ex_usb l st m port u) = []"
  "dev_enum_task (ex_usb l st m port u) = Nd 1" "ERSTBA_Lo (ex_usb l st m port u) = 0x3000"
  by (simp_all add: ex_usb_def kernel.defs xhci.defs)

lemma ex_usb_kernel:
  "heap (ex_usb l st m port u) = heap (ex_kernel ex_pages l st)" "tcbs (ex_usb l st m port u) = tcbs (ex_kernel ex_pages l st)"
  "running_task (ex_usb l st m port u) = running_task (ex_kernel ex_pages l st)"
  by (simp_all add: ex_usb_def kernel.defs xhci.defs)

lemma ex_usb_rel:
  assumes "l \<in> ex_lists" "state_for l st"
  shows "sched_rel ex_lists {0, 1} (ex_usb l st m port u) \<lparr>a_lists = (\<lambda>_. [])(l := [1]), a_run = 0\<rparr>"
  by (subst sched_rel_cong [OF ex_usb_kernel]) (rule ex_kernel_rel [OF assms])

lemma ex_usb_state: "st_of (ex_usb block_list st m port u) 1 = st"
proof -
  have "ow (heap (ex_kernel ex_pages block_list st)) (Nd 1) = 0x11000"
    by (auto simp: ex_kernel_def ex_heap0_def list_push_def insert_after_anchor_def get_node_def upd_node_def
        upd_number_def list_init_def node_init_def empty_heap_def list_ids Let_def fields)
  then show ?thesis by (simp add: st_of_def tcb_of_def ex_usb_kernel ex_tcb_def)
qed

lemma ex_block_list: "block_list \<in> ex_lists" "state_for block_list TASK_BLOCKED" "state_for block_list TASK_WAITING"
  by (simp_all add: ex_lists_def state_for_def list_ids)

lemma ex_event_words:
  "ex_events w0 w3 0x2000 = w0" "ex_events w0 w3 (0x2000 + 8) = push_bit 24 1" "ex_events w0 w3 (0x2000 + 12) = w3 OR 1"
  "ex_events w0 w3 (0x1000 + 12) = push_bit 10 ConfigureEndpoint OR 1"
  by (simp_all add: ex_events_def)

lemma ex_one_new: "one_new 0x2000 True (ex_usb l st (ex_events w0 w3) port u)"
  by (simp add: one_new_def next_event_def ex_events_def PAGE_SIZE_def bit_or_iff)

definition ex_waiting :: general_usb_dev_t where
  "ex_waiting = no_device\<lparr>root_port := 1, slot_id := 1, wait_task := Nd 1, wait_trb_type := ConfigureEndpoint\<rparr>"


theorem port_change_handled_witness:
  "xhc_handler (ex_usb block_list TASK_BLOCKED (ex_events (push_bit 24 1) (push_bit 10 34)) (push_bit 5 5) ex_waiting) = Inl Assert \<and>
   (\<exists>s'. xhc_handler (ex_usb block_list TASK_WAITING (ex_events (push_bit 24 1) (push_bit 10 34)) 0 no_device) = Inr s' \<and>
     dev_enum_list s' = [0] \<and> usb_device_pool s' = [no_device\<lparr>root_port := 1\<rparr>])"
proof
  let ?e = "ex_events (push_bit 24 1) (push_bit 10 34)"
  have hyps: "drop_bit 24 (?e (0x2000 + 8)) = EVENT_SUCCESS" "trb_type (?e (0x2000 + 12)) = PortStatusChangeEvent"
      "(1 :: u8) = ucast (drop_bit 24 (?e 0x2000))"
    by (simp_all add: ex_events_def trb_type_def trb_consts)
  let ?s = "ex_usb block_list TASK_BLOCKED ?e (push_bit 5 5) ex_waiting"
  show "xhc_handler ?s = Inl Assert"
    using port_change_handled [OF ex_one_new, of block_list TASK_BLOCKED "push_bit 24 1" "push_bit 10 34" "push_bit 5 5" ex_waiting 1] hyps
    by (simp add: PLS_def Polling_def U0_def)
  let ?t = "ex_usb block_list TASK_WAITING ?e 0 no_device"
  have r: "sched_rel ex_lists {0, 1} ?t \<lparr>a_lists = (\<lambda>_. [])(block_list := [1]), a_run = 0\<rparr>"
    using ex_block_list by (intro ex_usb_rel) simp_all
  show "\<exists>s'. xhc_handler ?t = Inr s' \<and> dev_enum_list s' = [0] \<and> usb_device_pool s' = [no_device\<lparr>root_port := 1\<rparr>]"
    using port_change_handled [OF ex_one_new, of block_list TASK_WAITING "push_bit 24 1" "push_bit 10 34" 0 no_device 1 0 1
        ex_lists "{0, 1}" "\<lparr>a_lists = (\<lambda>_. [])(block_list := [1]), a_run = 0\<rparr>" block_list] hyps r ex_block_list(1)
    by (auto simp: PLS_def Polling_def U0_def no_device_def)
qed

end
