(* ===== verification/Hba_Irq.thy ===== *)
theory Hba_Irq
  imports Hba Task
begin

text \<open>
  Sending with interrupts in \<^verbatim>\<open>kernel/hba.c\<close>: a task waits for a busy port, sends its command and
  waits for the end of a timer thread. The interrupt handler ends that thread with status 0, and
  the thread itself ends with 1 when its time is over. The state is the scheduler's with the
  controller and its ports. As for the keyboard, a sender that must wait is suspended in
  \<^verbatim>\<open>block\<close>, and \<open>sata_resume\<close> is what it does when it runs again.
\<close>

section \<open>State\<close>

definition HBA_PORT_IS_DPS :: u32 where "HBA_PORT_IS_DPS = push_bit 5 1"

text \<open>What the port structure has for the sender: \<open>irq_port\<close> is the number of the port.\<close>

record irq_port =
  irq_num :: nat
  sending :: nref
  timer :: nref
  waiting_list :: nat
  irq_status :: "send_status_t option"

record 'h hba_kernel = kernel +
  controller :: 'h
  irq_ports :: "irq_port list"

definition ctl_read :: "'h mmio \<Rightarrow> nat \<Rightarrow> ('h, 'a) hba_kernel_scheme \<Rightarrow> u32 \<times> ('h, 'a) hba_kernel_scheme" where
  "ctl_read io r s = (let (v, h) = mm_rd io r (controller s) in (v, s\<lparr>controller := h\<rparr>))"

definition ctl_write :: "'h mmio \<Rightarrow> nat \<Rightarrow> u32 \<Rightarrow> ('h, 'a) hba_kernel_scheme \<Rightarrow> ('h, 'a) hba_kernel_scheme" where
  "ctl_write io r v s = s\<lparr>controller := mm_wr io r v (controller s)\<rparr>"

definition ctl_upd :: "'h mmio \<Rightarrow> nat \<Rightarrow> (u32 \<Rightarrow> u32) \<Rightarrow> ('h, 'a) hba_kernel_scheme \<Rightarrow> ('h, 'a) hba_kernel_scheme" where
  "ctl_upd io r f s = s\<lparr>controller := mm_upd io r f (controller s)\<rparr>"

definition upd_port :: "nat \<Rightarrow> (irq_port \<Rightarrow> irq_port) \<Rightarrow> ('h, 'a) hba_kernel_scheme \<Rightarrow> ('h, 'a) hba_kernel_scheme res" where
  "upd_port p f s = rbind (arr_get (irq_ports s) p) (\<lambda>x. Inr (s\<lparr>irq_ports := (irq_ports s)[p := f x]\<rparr>))"

section \<open>Senders\<close>

text \<open>Where a sender waits: for the port, with the slot to send, or for the timer, with the flag to restore.\<close>

datatype sata_pc = Wait_Port nat nat | Wait_Timer nat bool | Sent send_status_t

definition sata_busy_wait :: "'h mmio \<Rightarrow> nat \<Rightarrow> ('h, 'a) hba_kernel_scheme \<Rightarrow> (bool \<times> ('h, 'a) hba_kernel_scheme) res" where
  "sata_busy_wait io p s =
     rbind (arr_get (irq_ports s) p) (\<lambda>port.
     let (tfd, s) = ctl_read io (port_at (irq_num port) PxTFD) s in
     if tfd AND HBA_PORT_TFD_BSY \<noteq> 0 then
       rbind (ensure (sending port \<noteq> Null) Assert) (\<lambda>_.
       rbind (block (Some (waiting_list port)) Null TASK_WAITING [] s) (\<lambda>s. Inr (True, s)))
     else Inr (False, s))"

text \<open>\<open>n\<close> and \<open>g\<close> are the node and the page for the control block of the timer thread.\<close>

definition sata_sending_wait :: "'h mmio \<Rightarrow> nat \<Rightarrow> nat \<Rightarrow> nat \<Rightarrow> TCB_t \<Rightarrow> ('h, 'a) hba_kernel_scheme \<Rightarrow>
    (sata_pc \<times> ('h, 'a) hba_kernel_scheme) res" where
  "sata_sending_wait io p slot n g s =
     rbind (arr_get (irq_ports s) p) (\<lambda>port.
     rbind (ensure (sending port = Null) Assert) (\<lambda>_.
     let IF_stat = get_IF s; s = set_IF False s;
         s = ctl_write io (port_at (irq_num port) PxIS) (- 1) s;
         s = ctl_upd io (port_at (irq_num port) PxCI) (\<lambda>v. v OR slot_mask slot) s in
     rbind (upd_port p (\<lambda>x. x\<lparr>sending := running_task s\<rparr>) s) (\<lambda>s.
     rbind (task_create ''timer'' 3 KERNEL_UID n g s) (\<lambda>(node, s).
     rbind (upd_port p (\<lambda>x. x\<lparr>timer := node\<rparr>) s) (\<lambda>s.
     rbind (owner_of s node) (\<lambda>a.
     rbind (get_tcb s a) (\<lambda>t.
     rbind (sys_waitpid (pid t) [] s) (\<lambda>s.
     Inr (Wait_Timer p IF_stat, s)))))))))"

text \<open>After the wait: \<open>wait_result\<close> is what \<^verbatim>\<open>sys_waitpid\<close> returned in this task, and the status.\<close>

definition sata_sending_end :: "nat \<Rightarrow> bool \<Rightarrow> ('h, 'a) hba_kernel_scheme \<Rightarrow> (sata_pc \<times> ('h, 'a) hba_kernel_scheme) res" where
  "sata_sending_end p IF_stat s =
     rbind (owner_of s (running_task s)) (\<lambda>a.
     rbind (get_tcb s a) (\<lambda>t.
     case wait_result t of
       None \<Rightarrow> Inl Fault
     | Some (ret, status) \<Rightarrow>
         rbind (ensure (ret \<noteq> - 1) Assert) (\<lambda>_.
         let st = (if status = 0 then SUCCESSFUL else GENERAL_ERROR) in
         rbind (upd_port p (\<lambda>x. x\<lparr>irq_status := Some st\<rparr>) (set_IF IF_stat s)) (\<lambda>s. Inr (Sent st, s)))))"

definition sata_try_send :: "'h mmio \<Rightarrow> nat \<Rightarrow> nat \<Rightarrow> nat \<Rightarrow> TCB_t \<Rightarrow> ('h, 'a) hba_kernel_scheme \<Rightarrow>
    (sata_pc \<times> ('h, 'a) hba_kernel_scheme) res" where
  "sata_try_send io p slot n g s =
     rbind (arr_get (irq_ports s) p) (\<lambda>port.
     let (sig, s) = ctl_read io (port_at (irq_num port) PxSIG) s in
     if sig \<noteq> SATA_DEV_SIG then
       rbind (upd_port p (\<lambda>x. x\<lparr>irq_status := Some NOT_SATA\<rparr>) s) (\<lambda>s. Inr (Sent NOT_SATA, s))
     else
       rbind (sata_busy_wait io p s) (\<lambda>(waits, s).
       if waits then Inr (Wait_Port p slot, s) else sata_sending_wait io p slot n g s))"

fun sata_resume :: "'h mmio \<Rightarrow> nat \<Rightarrow> TCB_t \<Rightarrow> sata_pc \<Rightarrow> ('h, 'a) hba_kernel_scheme \<Rightarrow>
    (sata_pc \<times> ('h, 'a) hba_kernel_scheme) res" where
  "sata_resume io n g (Wait_Port p slot) s = sata_sending_wait io p slot n g s"
| "sata_resume io n g (Wait_Timer p IF_stat) s = sata_sending_end p IF_stat s"
| "sata_resume io n g (Sent st) s = Inr (Sent st, s)"

section \<open>The timer thread and the interrupt\<close>

text \<open>The thread sleeps through the system call, whose entry turns interrupts off.\<close>

definition timer_start :: "('h, 'a) hba_kernel_scheme \<Rightarrow> ('h, 'a) hba_kernel_scheme res" where
  "timer_start s = task_sleep 1000 [SetIF True] (set_IF False (set_IF True s))"

definition timer_expired :: "nat \<Rightarrow> ('h, 'a) hba_kernel_scheme \<Rightarrow> ('h, 'a) hba_kernel_scheme res" where
  "timer_expired p s =
     (let (st, s) = get_and_disable_IF s in
      rbind (upd_port p (\<lambda>x. x\<lparr>sending := Null\<rparr>) s) (kernel_thread_exit Null 1 [SetIF st]))"

text \<open>The first port, in the order of the devices, whose interrupt is pending.\<close>

fun pending_port :: "'h mmio \<Rightarrow> nat list \<Rightarrow> ('h, 'a) hba_kernel_scheme \<Rightarrow> (nat option \<times> ('h, 'a) hba_kernel_scheme) res" where
  "pending_port io [] s = Inr (None, s)"
| "pending_port io (p # ps) s =
     rbind (arr_get (irq_ports s) p) (\<lambda>port.
     let (v, s) = ctl_read io (port_at (irq_num port) PxIS) s in
     if v AND HBA_PORT_IS_DPS \<noteq> 0 then Inr (Some p, s) else pending_port io ps s)"

definition hba_handler :: "'h mmio \<Rightarrow> ('h, 'a) hba_kernel_scheme \<Rightarrow> ('h, 'a) hba_kernel_scheme res" where
  "hba_handler io s =
     rbind (pending_port io [0..<length (irq_ports s)] s) (\<lambda>(found, s).
     case found of
       None \<Rightarrow> Inl Panic
     | Some p \<Rightarrow>
         rbind (arr_get (irq_ports s) p) (\<lambda>port.
         rbind (ensure (sending port \<noteq> Null) Assert) (\<lambda>_.
         rbind (upd_port p (\<lambda>x. x\<lparr>sending := Null\<rparr>) s) (\<lambda>s.
         rbind (list_isempty (heap s) (waiting_list port)) (\<lambda>e.
         rbind (if e then Inr s
                else rbind (get_node (heap s) (End (waiting_list port))) (\<lambda>x. unblock (n_next x) s)) (\<lambda>s.
         rbind (if timer port \<noteq> Null then kernel_thread_exit (timer port) 0 [] s else Inr s) (\<lambda>s.
         Inr (ctl_write io HBA_REG_IS (- 1) (ctl_write io (port_at (irq_num port) PxIS) (- 1) s)))))))))"

end
