(* ===== verification/Thread_Exit.thy ===== *)
theory Thread_Exit
  imports Sched_Machine
begin

text \<open>
  The end of a kernel thread, \<^verbatim>\<open>kernel_thread_exit\<close> of \<^verbatim>\<open>kernel/task.c\<close>, against the abstract
  scheduler: the thread goes to the dead tasks, its children to its parent, and a parent that
  waits for it becomes ready.
\<close>

section \<open>Control blocks\<close>

lemma rel_upd:
  assumes rel: "sched_rel D T s A" and n: "n \<in> T" and f: "\<And>t. tcb_ok t \<Longrightarrow> tcb_ok (f t)" "\<And>t. t_state (f t) = t_state t"
  shows "\<exists>tb. upd_tcb (ow (heap s) (Nd n)) f s = Inr (s\<lparr>tcbs := tb\<rparr>) \<and> sched_rel D T (s\<lparr>tcbs := tb\<rparr>) A \<and>
     (\<forall>m \<in> T. tcb_of (s\<lparr>tcbs := tb\<rparr>) m = (if m = n then map_option f (tcb_of s n) else tcb_of s m))"
proof -
  from rel have b: "base D T s (a_lists A)" and r: "a_run A \<in> T" by (auto simp: sched_rel_def)
  from base_upd_state [OF b n, of f] f obtain tb where
    tb: "upd_tcb (ow (heap s) (Nd n)) f s = Inr (s\<lparr>tcbs := tb\<rparr>)" "base D T (s\<lparr>tcbs := tb\<rparr>) (a_lists A)"
      "\<forall>m \<in> T. st_of (s\<lparr>tcbs := tb\<rparr>) m = st_of s m"
      "\<forall>m \<in> T. m \<noteq> n \<longrightarrow> tcb_of (s\<lparr>tcbs := tb\<rparr>) m = tcb_of s m"
      "tcb_of (s\<lparr>tcbs := tb\<rparr>) n = map_option f (tcb_of s n)"
    by (auto simp: st_of_def)
  have "states_ok D (s\<lparr>tcbs := tb\<rparr>) (a_lists A)"
    using rel tb(3) base_sub [OF b] by (auto simp: sched_rel_def states_ok_def)
  then have "sched_rel D T (s\<lparr>tcbs := tb\<rparr>) A"
    using rel tb(2) tb(3)[rule_format, OF r] unfolding sched_rel_def by (auto simp del: UN_simps)
  with tb show ?thesis by auto
qed

text \<open>What \<^verbatim>\<open>reparent\<close> leaves of a control block.\<close>

definition adopted :: "int \<Rightarrow> int \<Rightarrow> TCB_t \<Rightarrow> TCB_t" where
  "adopted dead parent t = (if ppid t = dead then t\<lparr>ppid := parent\<rparr> else t)"

lemma adopted_fields [simp]:
  "pid (adopted d p t) = pid t" "t_state (adopted d p t) = t_state t" "waitpid (adopted d p t) = waitpid t"
  "t_status (adopted d p t) = t_status t" "frames (adopted d p t) = frames t" "ppid (adopted d (ppid t) t) = ppid t"
  by (simp_all add: adopted_def)

definition known :: "nat set \<Rightarrow> nref \<Rightarrow> bool" where
  "known T r \<longleftrightarrow> r = Null \<or> (\<exists>n \<in> T. r = Nd n)"

lemma reparent_one:
  assumes rel: "sched_rel D T s A" and n: "n \<in> T"
  shows "\<exists>tb. rbind (owner_of s (Nd n)) (\<lambda>a. rbind (get_tcb s a) (\<lambda>c.
      if ppid c = dead then upd_tcb a (\<lambda>t. t\<lparr>ppid := parent\<rparr>) s else Inr s)) = Inr (s\<lparr>tcbs := tb\<rparr>) \<and>
    sched_rel D T (s\<lparr>tcbs := tb\<rparr>) A \<and>
    (\<forall>m \<in> T. tcb_of (s\<lparr>tcbs := tb\<rparr>) m = (if m = n then map_option (adopted dead parent) (tcb_of s m) else tcb_of s m))"
proof -
  from rel have b: "base D T s (a_lists A)" unfolding sched_rel_def by blast
  from base_tcb [OF b n] obtain t where t: "get_tcb s (ow (heap s) (Nd n)) = Inr t" "tcb_of s n = Some t" by auto
  show ?thesis
  proof (cases "ppid t = dead")
    case True
    from rel_upd [OF rel n, of "\<lambda>t. t\<lparr>ppid := parent\<rparr>"] obtain tb where
      "upd_tcb (ow (heap s) (Nd n)) (\<lambda>t. t\<lparr>ppid := parent\<rparr>) s = Inr (s\<lparr>tcbs := tb\<rparr>)" "sched_rel D T (s\<lparr>tcbs := tb\<rparr>) A"
      "\<forall>m \<in> T. tcb_of (s\<lparr>tcbs := tb\<rparr>) m = (if m = n then map_option (\<lambda>t. t\<lparr>ppid := parent\<rparr>) (tcb_of s n) else tcb_of s m)"
      by (auto simp: tcb_ok_def)
    with True t base_owner [OF b n] show ?thesis by (intro exI [of _ tb]) (auto simp: adopted_def)
  next
    case False
    with t base_owner [OF b n] rel show ?thesis by (intro exI [of _ "tcbs s"]) (auto simp: adopted_def)
  qed
qed

lemma adopted_twice [simp]: "adopted d p (adopted d p t) = adopted d p t"
  by (simp add: adopted_def)

lemma reparent_refines:
  assumes "sched_rel D T s A" "\<forall>r \<in> set (task_bucket s). known T r"
  shows "\<exists>tb. reparent dead parent s = Inr (s\<lparr>tcbs := tb\<rparr>) \<and> sched_rel D T (s\<lparr>tcbs := tb\<rparr>) A \<and>
    (\<forall>m \<in> T. tcb_of (s\<lparr>tcbs := tb\<rparr>) m = (if Nd m \<in> set (task_bucket s) then map_option (adopted dead parent) (tcb_of s m) else tcb_of s m))"
proof -
  let ?f = "\<lambda>r s. if r = Null then Inr s
       else rbind (owner_of s r) (\<lambda>a. rbind (get_tcb s a) (\<lambda>c.
         if ppid c = dead then upd_tcb a (\<lambda>t. t\<lparr>ppid := parent\<rparr>) s else Inr s))"
  have "\<exists>tb. for_each ?f rs s = Inr (s\<lparr>tcbs := tb\<rparr>) \<and> sched_rel D T (s\<lparr>tcbs := tb\<rparr>) A \<and>
      (\<forall>m \<in> T. tcb_of (s\<lparr>tcbs := tb\<rparr>) m = (if Nd m \<in> set rs then map_option (adopted dead parent) (tcb_of s m) else tcb_of s m))"
    if "\<forall>r \<in> set rs. known T r" "sched_rel D T s A" for rs s
    using that
  proof (induction rs arbitrary: s)
    case Nil
    then show ?case by (intro exI [of _ "tcbs s"]) simp
  next
    case (Cons r rs)
    show ?case
    proof (cases "r = Null")
      case True
      with Cons show ?thesis by simp
    next
      case False
      with Cons.prems(1) obtain n where n: "n \<in> T" "r = Nd n" by (auto simp: known_def)
      from reparent_one [OF Cons.prems(2) n(1), of dead parent] obtain tb where
        tb: "?f r s = Inr (s\<lparr>tcbs := tb\<rparr>)" "sched_rel D T (s\<lparr>tcbs := tb\<rparr>) A"
          "\<forall>m \<in> T. tcb_of (s\<lparr>tcbs := tb\<rparr>) m = (if m = n then map_option (adopted dead parent) (tcb_of s m) else tcb_of s m)"
        using n(2) by auto
      from Cons.IH [of "s\<lparr>tcbs := tb\<rparr>"] Cons.prems(1) tb(2) obtain tc where
        tc: "for_each ?f rs (s\<lparr>tcbs := tb\<rparr>) = Inr (s\<lparr>tcbs := tc\<rparr>)" "sched_rel D T (s\<lparr>tcbs := tc\<rparr>) A"
          "\<forall>m \<in> T. tcb_of (s\<lparr>tcbs := tc\<rparr>) m = (if Nd m \<in> set rs then map_option (adopted dead parent) (tcb_of (s\<lparr>tcbs := tb\<rparr>) m)
             else tcb_of (s\<lparr>tcbs := tb\<rparr>) m)" by auto
      have "\<forall>m \<in> T. tcb_of (s\<lparr>tcbs := tc\<rparr>) m =
          (if Nd m \<in> set (r # rs) then map_option (adopted dead parent) (tcb_of s m) else tcb_of s m)"
        using tc(3) tb(3) n(2) by (auto simp: option.map_comp comp_def)
      moreover have "for_each ?f (r # rs) s = Inr (s\<lparr>tcbs := tc\<rparr>)"
        unfolding for_each.simps tb(1) using tc(1) by simp
      ultimately show ?thesis using tc(2) by blast
    qed
  qed
  from this [OF assms(2,1)] show ?thesis unfolding reparent_def .
qed

section \<open>The end of a thread\<close>

definition a_die :: "nat \<Rightarrow> asched \<Rightarrow> asched" where
  "a_die n A = a_move died_list n (a_drop n A)"

lemma a_die_lists: "m \<noteq> n \<Longrightarrow> m \<in> set (a_lists A l) \<Longrightarrow> m \<in> set (a_lists (a_die n A) l)"
  by (auto simp: a_die_def a_move_def a_drop_def)

lemma wake_parent_refines:
  assumes rel: "sched_rel D T s A" and n: "n \<in> T" "tcb_of s n = Some t" "ppid t = int p" "p < length (task_bucket s)"
    and parent: "task_bucket s ! p = Nd m" "m \<noteq> n" "l \<in> D" "m \<in> set (a_lists A l)" "tcb_of s m = Some tm" "t_state tm = TASK_WAITING"
      "waitpid tm = - 1 \<or> waitpid tm = pid t"
  shows "\<exists>s'. wake_parent (ow (heap s) (Nd n)) s = Inr s' \<and> sched_rel D T s' (a_unblock m A) \<and> get_IF s' = get_IF s \<and>
    tcb_of s' n = Some t"
proof -
  from rel have b: "base D T s (a_lists A)" unfolding sched_rel_def by blast
  have mT: "m \<in> T" using base_sub [OF b parent(3,4)] .
  from base_tcb [OF b n(1)] n(2) have t: "get_tcb s (ow (heap s) (Nd n)) = Inr t" by auto
  from base_tcb [OF b mT] parent(5) have tm: "get_tcb s (ow (heap s) (Nd m)) = Inr tm" by auto
  have "wake_parent (ow (heap s) (Nd n)) s = unblock (Nd m) s"
    using t tm n(3,4) parent(1,6,7) base_owner [OF b mT] by (auto simp: wake_parent_def)
  with unblock_refines [OF rel parent(3,4)] n(1,2) parent(2) show ?thesis by auto
qed

text \<open>
  \<^verbatim>\<open>kernel_thread_exit\<close> on another thread whose parent waits for it: the thread dies with its status
  and the parent becomes ready.
\<close>

lemma thread_exit_wakes_parent:
  assumes rel: "sched_rel D T s A" and bucket: "\<forall>r \<in> set (task_bucket s). known T r"
    and n: "k \<in> D" "k \<noteq> ready_list" "n \<in> set (a_lists A k)" "tcb_of s n = Some t" "ppid t = int p" "p < length (task_bucket s)"
    and parent: "task_bucket s ! p = Nd m" "m \<noteq> n" "l \<in> D" "m \<in> set (a_lists A l)" "tcb_of s m = Some tm" "t_state tm = TASK_WAITING"
      "waitpid tm = - 1 \<or> waitpid tm = pid t"
  shows "\<exists>s' t'. kernel_thread_exit (Nd n) status [] s = Inr s' \<and> sched_rel D T s' (a_unblock m (a_die n A)) \<and>
    get_IF s' = get_IF s \<and> tcb_of s' n = Some t' \<and> t_state t' = TASK_DIED \<and> t_status t' = status"
proof -
  let ?a = "ow (heap s) (Nd n)" and ?f = "\<lambda>t. t\<lparr>t_status := status\<rparr>"
  from rel have b: "base D T s (a_lists A)" and nr: "n \<noteq> a_run A" "running_task s = Nd (a_run A)"
    using n(1,3) by (auto simp: sched_rel_def)
  have nT: "n \<in> T" using base_sub [OF b n(1,3)] .
  have mT: "m \<in> T" using base_sub [OF b parent(3,4)] .
  from rel_upd [OF rel nT, of ?f] obtain tb where
    s1: "upd_tcb ?a ?f s = Inr (s\<lparr>tcbs := tb\<rparr>)" "sched_rel D T (s\<lparr>tcbs := tb\<rparr>) A"
      "\<forall>j \<in> T. tcb_of (s\<lparr>tcbs := tb\<rparr>) j = (if j = n then map_option ?f (tcb_of s n) else tcb_of s j)"
    by (auto simp: tcb_ok_def)
  let ?s1 = "set_IF False (s\<lparr>tcbs := tb\<rparr>)" and ?t1 = "?f t"
  have rel1: "sched_rel D T ?s1 A" using s1(2) by simp
  have b1: "base D T ?s1 (a_lists A)" using rel1 unfolding sched_rel_def by blast
  have t1: "tcb_of ?s1 n = Some ?t1" "tcb_of ?s1 m = Some tm"
    using s1(3) nT mT n(4) parent(2,5) by (auto simp: tcb_of_def)
  from base_tcb [OF b1 nT] t1(1) have get1: "get_tcb ?s1 ?a = Inr ?t1" by auto
  have bk: "task_bucket ?s1 = task_bucket s" by (simp add: set_IF_def)
  from reparent_refines [OF rel1, of "pid t" "ppid t"] bucket bk obtain tc where
    s2: "reparent (pid t) (ppid t) ?s1 = Inr (?s1\<lparr>tcbs := tc\<rparr>)" "sched_rel D T (?s1\<lparr>tcbs := tc\<rparr>) A"
      "\<forall>j \<in> T. tcb_of (?s1\<lparr>tcbs := tc\<rparr>) j = (if Nd j \<in> set (task_bucket s) then map_option (adopted (pid t) (ppid t)) (tcb_of ?s1 j)
         else tcb_of ?s1 j)" by auto
  let ?s2 = "?s1\<lparr>tcbs := tc\<rparr>"
  let ?ad = "\<lambda>j t'. if Nd j \<in> set (task_bucket s) then adopted (pid t) (ppid t) t' else t'"
  define t2 where "t2 = ?ad n ?t1"
  define tm2 where "tm2 = ?ad m tm"
  have t2: "tcb_of ?s2 n = Some t2" "pid t2 = pid t" "ppid t2 = int p" "t_status t2 = status"
    using s2(3) nT t1(1) n(5) by (simp_all add: t2_def adopted_def)
  have tm2: "tcb_of ?s2 m = Some tm2" "t_state tm2 = TASK_WAITING" "waitpid tm2 = - 1 \<or> waitpid tm2 = pid t"
    using s2(3) mT t1(2) parent(6,7) by (simp_all add: tm2_def)
  have dD: "died_list \<in> D" using base_lists(4) [OF b] .
  from move_refines [OF s2(2) n(1,3) dD, of TASK_DIED] n(2) obtain h1 h2 td where
    s3: "on_heap (\<lambda>h. remove_node h (Nd n)) ?s2 = Inr (?s2\<lparr>heap := h1\<rparr>)"
      "on_heap (\<lambda>h. list_push h died_list (Nd n)) (?s2\<lparr>heap := h1\<rparr>) = Inr (?s2\<lparr>heap := h2\<rparr>)"
      "upd_tcb ?a (\<lambda>t. t\<lparr>t_state := TASK_DIED\<rparr>) (?s2\<lparr>heap := h2\<rparr>) = Inr (?s2\<lparr>heap := h2, tcbs := td\<rparr>)"
      "sched_rel D T (?s2\<lparr>heap := h2, tcbs := td\<rparr>) (a_die n A)" "ow h2 = ow (heap s)"
      "\<forall>j \<in> T. tcb_of (?s2\<lparr>heap := h2, tcbs := td\<rparr>) j =
         (if j = n then map_option (\<lambda>t. t\<lparr>t_state := TASK_DIED\<rparr>) (tcb_of ?s2 n) else tcb_of ?s2 j)"
    by (auto simp: state_for_def list_ids a_die_def)
  let ?s3 = "?s2\<lparr>heap := h2, tcbs := td\<rparr>" and ?t3 = "t2\<lparr>t_state := TASK_DIED\<rparr>"
  have t3: "tcb_of ?s3 n = Some ?t3" "tcb_of ?s3 m = Some tm2" using s3(6) nT mT t2(1) tm2(1) parent(2) by auto
  have bk3: "task_bucket ?s3 = task_bucket s" by (simp add: set_IF_def)
  have "\<exists>s'. wake_parent (ow (heap ?s3) (Nd n)) ?s3 = Inr s' \<and> sched_rel D T s' (a_unblock m (a_die n A)) \<and> get_IF s' = get_IF ?s3 \<and>
      tcb_of s' n = Some ?t3"
    by (rule wake_parent_refines [OF s3(4) nT t3(1), of p m l tm2])
      (use t2 tm2 t3(2) bk3 n(6) parent(1-4) a_die_lists in auto)
  then obtain s4 where s4: "wake_parent ?a ?s3 = Inr s4" "sched_rel D T s4 (a_unblock m (a_die n A))" "tcb_of s4 n = Some ?t3"
    using s3(5) by auto
  have r4: "running_task s4 = Nd (a_run A)"
    using s4(2) by (simp add: sched_rel_def a_unblock_def a_die_def a_move_def a_drop_def)
  have "kernel_thread_exit (Nd n) status [] s = Inr (set_IF (get_IF s) s4)"
    using r4 s1(1) get1 s2(1) s3(1-3) s4(1) nr base_owner [OF b nT]
    by (simp add: kernel_thread_exit_def get_and_disable_IF_def Let_def run_frames_def get_IF_def)
  moreover have "tcb_of (set_IF (get_IF s) s4) n = Some ?t3" using s4(3) by (simp add: tcb_of_def)
  ultimately show ?thesis using s4(2) t2(4) by (intro exI [of _ "set_IF (get_IF s) s4"] exI [of _ ?t3]) simp
qed

end
