(* ===== verification/Hba_Irq_Theorems.thy ===== *)
theory Hba_Irq_Theorems
  imports Hba_Irq Thread_Exit
begin

text \<open>
  Theorems on the interrupt of the disk controller: the completion of a command ends the timer
  thread with status 0 and wakes the task that sent the command, with the first task that waits for
  the port.
\<close>

section \<open>The ports are left alone\<close>

text \<open>What the task routines do not touch: the device, the ports, the task table and who runs.\<close>

definition same_ports :: "('h, 'a) hba_kernel_scheme \<Rightarrow> ('h, 'a) hba_kernel_scheme \<Rightarrow> bool" where
  "same_ports s s' \<longleftrightarrow> controller s' = controller s \<and> irq_ports s' = irq_ports s \<and> task_bucket s' = task_bucket s \<and>
     running_task s' = running_task s"

lemma same_ports_refl [simp]: "same_ports s s"
  by (simp add: same_ports_def)

lemma same_ports_trans: "same_ports s s' \<Longrightarrow> same_ports s' s'' \<Longrightarrow> same_ports s s''"
  by (simp add: same_ports_def)

lemma same_ports_upd [simp]:
  "same_ports s (s'\<lparr>heap := h\<rparr>) = same_ports s s'" "same_ports s (s'\<lparr>tcbs := tb\<rparr>) = same_ports s s'"
  "same_ports s (set_IF b s') = same_ports s s'"
  by (auto simp: same_ports_def set_IF_def)

lemma same_ports_on_heap: "on_heap f s = Inr s' \<Longrightarrow> same_ports s s'"
  by (auto simp: on_heap_def)

lemma same_ports_upd_tcb: "upd_tcb a f s = Inr s' \<Longrightarrow> same_ports s s'"
  by (auto simp: upd_tcb_def Let_def split: option.splits)

lemmas same_ports_steps = same_ports_on_heap same_ports_upd_tcb

lemma same_ports_unblock: "unblock r s = Inr s' \<Longrightarrow> same_ports s s'"
  by (auto simp: unblock_def get_and_disable_IF_def on_heap_def upd_tcb_def Let_def split: if_splits prod.splits)

lemma same_ports_reparent: 
  assumes "reparent d p s = Inr s'"
  shows "same_ports s s'"
proof -
  have "same_ports s t'" if "same_ports s t" "(if r = Null then Inr t
       else rbind (owner_of t r) (\<lambda>a. rbind (get_tcb t a) (\<lambda>c.
         if ppid c = d then upd_tcb a (\<lambda>t. t\<lparr>ppid := p\<rparr>) t else Inr t))) = Inr t'" for r t t'
    using that by (auto split: if_splits dest!: same_ports_upd_tcb intro: same_ports_trans)
  from for_each_invariant [where P = "same_ports s", OF same_ports_refl this assms [unfolded reparent_def]] show ?thesis .
qed

lemma same_ports_wake_parent: "wake_parent a s = Inr s' \<Longrightarrow> same_ports s s'"
  by (auto simp: wake_parent_def split: if_splits dest: same_ports_unblock)

lemma same_ports_exit:
  assumes "kernel_thread_exit (Nd n) status [] s = Inr s'" "running_task s \<noteq> Nd n"
  shows "same_ports s s'"
proof -
  from assms obtain a s1 s2 s3 s4 s5 s6 and c :: TCB_t where s:
    "upd_tcb a (\<lambda>t. t\<lparr>t_status := status\<rparr>) s = Inr s1" "reparent (pid c) (ppid c) (set_IF False s1) = Inr s2"
    "(if Nd n \<noteq> running_task s2 then on_heap (\<lambda>h. remove_node h (Nd n)) s2 else Inr s2) = Inr s3"
    "on_heap (\<lambda>h. list_push h died_list (Nd n)) s3 = Inr s4" "upd_tcb a (\<lambda>t. t\<lparr>t_state := TASK_DIED\<rparr>) s4 = Inr s5"
    "wake_parent a s5 = Inr s6"
    "(if Nd n = running_task s6 then schedule [SetIF (get_IF s1)] s6 else run_frames [SetIF (get_IF s1)] s6) = Inr s'"
    by (auto simp: kernel_thread_exit_def get_and_disable_IF_def Let_def)
  have "same_ports s s1" by (rule same_ports_upd_tcb [OF s(1)])
  moreover have "same_ports s1 s2" using same_ports_reparent [OF s(2)] by (simp add: same_ports_def set_IF_def)
  moreover have "same_ports s2 s3" using s(3) by (auto split: if_splits dest: same_ports_on_heap)
  moreover note same_ports_on_heap [OF s(4)] same_ports_upd_tcb [OF s(5)] same_ports_wake_parent [OF s(6)]
  ultimately have "same_ports s s6" by (simp add: same_ports_def)
  moreover from this have "s' = set_IF (get_IF s1) s6"
    using s(7) assms(2) by (simp add: same_ports_def run_frames_def)
  ultimately show ?thesis by simp
qed

section \<open>Looking for the port\<close>

text \<open>A controller whose registers do not change when they are read.\<close>

definition quiet :: "'h mmio \<Rightarrow> bool" where
  "quiet io \<longleftrightarrow> (\<forall>r h. snd (mm_rd io r h) = h)"

lemma ctl_read_quiet: "quiet io \<Longrightarrow> ctl_read io r s = (fst (mm_rd io r (controller s)), s)"
  using surjective_pairing [of "mm_rd io r (controller s)"] by (simp add: ctl_read_def quiet_def split_beta Let_def)

definition pending :: "'h mmio \<Rightarrow> ('h, 'a) hba_kernel_scheme \<Rightarrow> nat \<Rightarrow> bool" where
  "pending io s p \<longleftrightarrow> fst (mm_rd io (port_at (irq_num (irq_ports s ! p)) PxIS) (controller s)) AND HBA_PORT_IS_DPS \<noteq> 0"

lemma pending_port_find:
  assumes "quiet io" "\<forall>p \<in> set ps. p < length (irq_ports s)"
  shows "pending_port io ps s = Inr (find (pending io s) ps, s)"
  using assms(2) by (induction ps) (simp_all add: ctl_read_quiet [OF assms(1)] pending_def)

lemma find_first:
  assumes "p < n" "P p" "\<forall>i < p. \<not> P i"
  shows "find P [0..<n] = Some p"
  using assms by (auto simp: find_Some_iff)

lemma find_none: "\<forall>i < n. \<not> P i \<Longrightarrow> find P [0..<n] = None"
  by (auto simp: find_None_iff)

section \<open>The interrupt\<close>

text \<open>The handler from the port on.\<close>

lemma handler_found:
  assumes "pending_port io [0..<length (irq_ports s)] s = Inr (Some p, s)" "p < length (irq_ports s)" "port = irq_ports s ! p"
    "sending port \<noteq> Null" "timer port = Nd n" "w = waiting_list port"
    and wake: "rbind (list_isempty (heap s1) w) (\<lambda>e. if e then Inr s1
        else rbind (get_node (heap s1) (End w)) (\<lambda>x. unblock (n_next x) s1)) = Inr s2"
    and s1: "s1 = s\<lparr>irq_ports := (irq_ports s)[p := port\<lparr>sending := Null\<rparr>]\<rparr>"
  shows "hba_handler io s = rbind (kernel_thread_exit (Nd n) 0 [] s2) (\<lambda>s.
      Inr (ctl_write io HBA_REG_IS (- 1) (ctl_write io (port_at (irq_num port) PxIS) (- 1) s)))"
proof -
  from wake obtain e where e: "list_isempty (heap s1) w = Inr e"
    "(if e then Inr s1 else rbind (get_node (heap s1) (End w)) (\<lambda>x. unblock (n_next x) s1)) = Inr s2" by auto
  have "upd_port p (\<lambda>x. x\<lparr>sending := Null\<rparr>) s = Inr s1" using assms(2,3) s1 by (simp add: upd_port_def)
  with assms(1-6) e show ?thesis by (cases e) (auto simp: hba_handler_def)
qed


section \<open>An example\<close>

text \<open>Three tasks: node 0 runs, node 1 is the timer and sleeps, node 2 is the sender and waits for it.\<close>

definition ex_disk_lists :: "nat set" where
  "ex_disk_lists = insert 4 ex_lists"

definition ex_disk0 :: "u32 hba_kernel" where
  "ex_disk0 = kernel.extend (pmem.extend ex_pages (kernel.fields (node_init (list_init ex_heap0 4) 2 0x12000 0)
     [0x10000 \<mapsto> ex_tcb TASK_RUNNING 0, 0x11000 \<mapsto> (ex_tcb TASK_SLEEPING 1)\<lparr>ppid := 2\<rparr>,
      0x12000 \<mapsto> (ex_tcb TASK_WAITING 2)\<lparr>waitpid := 1\<rparr>] ([Nd 0, Nd 1, Nd 2] @ replicate 61 Null) (Nd 0) 0 0))
     (hba_kernel.fields 0x20 [\<lparr>irq_num = 0, sending = Nd 2, timer = Nd 1, waiting_list = 4, irq_status = None\<rparr>])"

lemma ex_disk0_fields [simp]:
  "heap ex_disk0 = node_init (list_init ex_heap0 4) 2 0x12000 0" "running_task ex_disk0 = Nd 0"
  "tcbs ex_disk0 = [0x10000 \<mapsto> ex_tcb TASK_RUNNING 0, 0x11000 \<mapsto> (ex_tcb TASK_SLEEPING 1)\<lparr>ppid := 2\<rparr>,
      0x12000 \<mapsto> (ex_tcb TASK_WAITING 2)\<lparr>waitpid := 1\<rparr>]"
  "task_bucket ex_disk0 = [Nd 0, Nd 1, Nd 2] @ replicate 61 Null" "controller ex_disk0 = 0x20"
  "irq_ports ex_disk0 = [\<lparr>irq_num = 0, sending = Nd 2, timer = Nd 1, waiting_list = 4, irq_status = None\<rparr>]"
  by (simp_all add: ex_disk0_def pmem.defs kernel.defs hba_kernel.defs)

lemma ex_disk0_base: "base ex_disk_lists {0, 1, 2} ex_disk0 (\<lambda>_. [])"
  unfolding base_def
  by (auto simp: tcb_of_def TASK_NUM_def)
    (auto simp: ex_disk_lists_def ex_lists_def ex_heap0_def tcb_ok_def ex_tcb_def list_ids lrepr_def)

text \<open>The kernel with the two tasks on their lists.\<close>

lemma ex_disk_state:
  "\<exists>h. sched_rel ex_disk_lists {0, 1, 2} (ex_disk0\<lparr>heap := h\<rparr>)
     \<lparr>a_lists = (\<lambda>_. [])(sleep_list := [1], block_list := [2]), a_run = 0\<rparr> \<and> ow h = ow (heap ex_disk0)"
proof -
  have D: "sleep_list \<in> ex_disk_lists" "block_list \<in> ex_disk_lists" by (simp_all add: ex_disk_lists_def ex_lists_def)
  from base_push [OF ex_disk0_base D(1), of 1] obtain h1 where
    h1: "base ex_disk_lists {0, 1, 2} (ex_disk0\<lparr>heap := h1\<rparr>) ((\<lambda>_. [])(sleep_list := [1]))"
      "ow h1 = ow (heap ex_disk0)" by auto
  from base_push [OF h1(1) D(2), of 2] h1(2) obtain h2 where
    h2: "base ex_disk_lists {0, 1, 2} (ex_disk0\<lparr>heap := h2\<rparr>) ((\<lambda>_. [])(sleep_list := [1], block_list := [2]))"
      "ow h2 = ow (heap ex_disk0)" by (auto simp: list_ids)
  have "ow h2 (Nd 0) = 0x10000" "ow h2 (Nd 1) = 0x11000" "ow h2 (Nd 2) = 0x12000" using h2(2) by (simp_all add: ex_heap0_def)
  then have "st_of (ex_disk0\<lparr>heap := h2\<rparr>) 0 = TASK_RUNNING" "st_of (ex_disk0\<lparr>heap := h2\<rparr>) 1 = TASK_SLEEPING"
    "st_of (ex_disk0\<lparr>heap := h2\<rparr>) 2 = TASK_WAITING"
    by (simp_all add: st_of_def tcb_of_def ex_tcb_def)
  with h2 D show ?thesis
    by (intro exI [of _ h2]) (auto simp: sched_rel_def states_ok_def state_for_def list_ids split: if_splits)
qed

text \<open>A controller with one register for all: a write sets it.\<close>

definition ex_register :: "u32 mmio" where
  "ex_register = \<lparr>mm_rd = (\<lambda>_ h. (h, h)), mm_wr = (\<lambda>_ v _. v)\<rparr>"


end
