(* ===== verification/Spec2Isabelle.thy ===== *)
theory Spec2Isabelle
  imports Paging_Init Rtc_Time Path_Name File_Theorems Keyboard_Theorems Malloc_Theorems Pci_Theorems
    Shell_Theorems Hba_Theorems Interrupts_Theorems Segments Syscall Usb_Events
    Hba_Irq_Theorems
begin

text \<open>
  RDIX is a 32-bit x86 kernel in C: paging with copy on write, preemptive tasks with
  round-robin scheduling, a kernel heap, a block cache over SATA disks, a Minix file system,
  a console and a keyboard, and drivers found on the PCI bus. This library models its C code
  as functions on explicit state and proves what each part promises, together with the
  inputs and interleavings on which it does not keep the promise.

  \<^bold>\<open>Conventions.\<close> \<open>Rdix_Prelude\<close> has the integer types of \<^verbatim>\<open>include/common/type.h\<close> as
  words, so that arithmetic wraps as in C, and the result type \<open>'a res\<close>: \<open>Inr\<close> of what a routine
  returns, or \<open>Inl\<close> of the way it stops. \<open>Assert\<close> is a failed \<^verbatim>\<open>assert\<close>, \<open>Panic\<close> a \<^verbatim>\<open>PANIC\<close>,
  \<open>Fault\<close> an access through a null or stray pointer or outside an array, \<open>Hang\<close> a loop or a wait
  that never ends. Loops are structural or have a measure; a loop that may run for ever is a
  \<^theory_text>\<open>partial_function (option)\<close> whose \<open>None\<close> becomes \<open>Hang\<close>, so a theorem that a routine
  returns says so and never presupposes it. \<open>Contracts\<close> has the locales the parts share: FIFO
  queues, first-fit slot allocators, step systems with an invariant, and heaps of disjoint
  blocks. Each is interpreted on the kernel's own routines where they are proved correct.

  \<^bold>\<open>Basic structures.\<close> \<open>Kernel_List\<close> models \<^verbatim>\<open>kernel/list.c\<close>, doubly linked lists with a sentinel
  on a heap of nodes; \<open>chain\<close> reads a list off the heap, and every operation is proved against
  it. \<open>Bitmap\<close> models \<^verbatim>\<open>kernel/bitmap.c\<close>, \<open>Char_Queue\<close> the ring of \<^verbatim>\<open>kernel/queue.c\<close>, \<open>CString\<close> the
  routines of \<^verbatim>\<open>kernel/string.c\<close> and \<^verbatim>\<open>stdlib.c\<close>, \<open>Vsprintf\<close> the formatter of
  \<^verbatim>\<open>kernel/vsprintf.c\<close>, \<open>Rtc_Time\<close> the CMOS clock and \<^verbatim>\<open>mktime\<close> of \<^verbatim>\<open>kernel/time.c\<close>.

  \<^bold>\<open>Memory.\<close> \<open>Kernel_Pages\<close> is the allocation of kernel pages over a bitmap, \<open>Paging\<close> the rest of
  \<^verbatim>\<open>kernel/memory.c\<close> and \<^verbatim>\<open>mmio.c\<close>: reference counts of frames, page tables as words of physical
  memory, \<^verbatim>\<open>link_page\<close>, \<^verbatim>\<open>copy_pde\<close>, \<^verbatim>\<open>free_pde\<close>, \<^verbatim>\<open>sys_brk\<close> and the page fault handler.
  \<open>Paging_Proofs\<close> shows what they do to the translation of every other page, \<open>Paging_Init\<close> the
  identity map after boot. \<open>Malloc\<close> models \<^verbatim>\<open>kernel/malloc.c\<close> with its descriptors and free lists as
  words in memory; \<open>Malloc_Proofs\<close> has the invariant, \<open>Malloc_Ops\<close> the steps and
  \<open>Malloc_Theorems\<close> the contract of a heap, interpreted as \<open>kheap\<close>, and the races of the two
  routines whose searches run with interrupts on.

  \<^bold>\<open>Tasks.\<close> \<open>Task\<close> models \<^verbatim>\<open>kernel/task.c\<close> and \<^verbatim>\<open>clock.c\<close>. A call of \<^verbatim>\<open>schedule\<close> returns in another task:
  what a task has left to do when it is switched out is data, its frames, which
  \<^verbatim>\<open>task_switch\<close> saves and resumes. \<open>Task_Base\<close>, \<open>Sched_Ops\<close> and \<open>Scheduler\<close> prove the operations
  against the lists of tasks; \<open>Sched_Machine\<close> is the step relation of block, unblock, sleep, yield
  and the clock with its reachable states, where nothing stops the kernel and no task is
  lost. \<open>Mutex\<close> adds \<^verbatim>\<open>kernel/mutex.c\<close> and mutual exclusion. \<open>Thread_Exit\<close> shows what the end of a
  kernel thread does to the lists, and that it wakes a parent that waits for it.

  \<^bold>\<open>Disks and files.\<close> \<open>Hba\<close> models the AHCI driver of \<^verbatim>\<open>kernel/hba.c\<close> at the level of registers and
  command structures, over a controller given by its reads and writes; \<open>Hba_Theorems\<close> says
  what the disk reads out of them. \<open>Hba_Irq\<close> has the branch of the driver that sends with interrupts, its
  timer thread and the handler on the scheduler of \<open>Task\<close>, and \<open>Hba_Irq_Theorems\<close> the completion of a
  command; the sleeping sender is data, as for the keyboard. Above the controller a disk is an array of sectors: \<open>Block_Device\<close> has the
  device table, partitions and requests of \<^verbatim>\<open>kernel/device.c\<close> and \<^verbatim>\<open>part.c\<close>, \<open>Buffer_Cache\<close> the
  cache of \<^verbatim>\<open>fs/buffer.c\<close>. \<open>Request_Proofs\<close>, \<open>Buffer_Base\<close> and \<open>Buffer_Proofs\<close> have the invariant of the
  cache, \<open>Cache_Spec\<close> the abstract disk it presents and \<open>Cache_Theorems\<close> the refinement.
  \<open>Path_Name\<close>, \<open>Minix_Fs\<close> and \<open>Minix_Names\<close> model \<^verbatim>\<open>fs/minix1\<close>; \<open>Minix_Frame\<close>, \<open>Minix_Theorems\<close> and
  \<open>File_Theorems\<close> show what reading and writing a file do and where the calls go wrong. These
  theories have one task: where it would have to wait for another one, the result is \<open>Hang\<close>.

  \<^bold>\<open>Devices.\<close> \<open>Console\<close> and \<open>Keyboard\<close> model \<^verbatim>\<open>kernel/console.c\<close> and \<^verbatim>\<open>keyboard.c\<close> over the video memory
  and the scan codes; their theorem files have the window invariant, the text printed, the
  typing of the key tables and the way of a character from the key to its reader. \<open>Pci\<close> models
  \<^verbatim>\<open>kernel/pci.c\<close> over the configuration mechanism of the host bridge; \<open>Pci_Theorems\<close> compares the
  scan with a direct reading of the configuration space.

  \<^bold>\<open>Interrupts and system calls.\<close> \<open>Interrupts\<close> models the interrupt descriptor table and the installation of
  handlers in \<^verbatim>\<open>kernel/interrupt.c\<close>, the two interrupt controllers of \<^verbatim>\<open>apic.c\<close> and the search of the
  firmware tables in \<^verbatim>\<open>bios.c\<close> and \<^verbatim>\<open>acpi.c\<close>; \<open>Interrupts_Theorems\<close> shows which vectors user mode can
  raise, where a request line ends and which overrides are read. \<open>Segments\<close> has the descriptors of
  \<^verbatim>\<open>kernel/global.c\<close> with what the processor reads out of them, \<open>Syscall\<close> the stubs of \<^verbatim>\<open>syscall.c\<close> and
  the table of \<^verbatim>\<open>syscall_gate.c\<close>, and that each stub reaches its function.

  \<^bold>\<open>USB.\<close> \<open>Usb_Ring\<close> models the commands and transfers of \<^verbatim>\<open>hd/usb3.0/ringProc.c\<close> on the scheduler: a
  routine that waits is in two parts, before and after \<^verbatim>\<open>block\<close>. \<open>Usb_Enum\<close> has \<^verbatim>\<open>xhcd.c\<close>, \<^verbatim>\<open>deviceEnum.c\<close>
  and \<^verbatim>\<open>hid.c\<close>; the enumeration task is a machine, \<open>enum_resume\<close>, whose states are the places where it
  waits. \<open>Usb_Theorems\<close> runs a ring against the controller's side of it and proves the search of
  descriptors, \<open>Usb_Events\<close> the handler against the abstract scheduler of \<open>Scheduler\<close>.

  \<^bold>\<open>Shell.\<close> \<open>Shell\<close> models \<^verbatim>\<open>buildin/buildin_shell.c\<close> over the file system; \<open>Shell_Theorems\<close> has the
  line editor and the splitting of a line against their specifications.

  \<^bold>\<open>Hardware.\<close> The registers of the devices are parameters or state of the model: a SATA disk copies
  sectors, the CMOS is a stream of register values, the PCI configuration mechanism selects a
  register and keeps its read-only bits, video memory is a list of cells. Contents of fresh
  pages and blocks, and the addresses \<^verbatim>\<open>malloc\<close> returns to parts other than the heap itself, are
  arguments.

  \<^bold>\<open>Bounds.\<close> The read and write loops of an inode take as fuel the length plus one, which is enough
  because every round moves at least one byte. The nesting of devices is bounded by the
  number of devices, \<open>DEVICE_NR\<close>: a deeper chain is a cycle and overflows the stack.

  \<^bold>\<open>Not modelled.\<close> The assembly files (boot sector, loader, entry stubs, port access); messages to
  the screen from the kernel, and with them \<^verbatim>\<open>sys_exception\<close>, which prints and stops; the
  mapping of device registers into the kernel's
  address space, the model specific registers and the CPUID queries; \<^verbatim>\<open>main.c\<close> and the test threads of
  \<^verbatim>\<open>thread.c\<close>. The list of USB devices to enumerate is a list of their indices.
\<close>

end
